(* ===== verification/Tracker_Prelude.thy ===== *)
theory Tracker_Prelude
  imports Main "HOL-Library.Finite_Map" "HOL-Library.List_Lexorder" "HOL-Library.Char_ord"
    "HOL-Library.Product_Lexorder" "HOL-Library.AList" "HOL-Library.Multiset"
    "HOL-Library.Sublist"
begin

text \<open>
  Shared vocabulary of the sovereign-tracker development: the Python values that travel through
  the event store (JSON values and dictionaries), the exceptions the modules raise, the
  environment each call reads (host slug, clocks, nonces, SHA-256), Python's comparison and
  sorting of keys, and the generic lemmas on lists, finite maps and results that every
  component theory uses.

  Strings are lists of 8-bit characters, read as code points below 256.
\<close>

section \<open>Named collections\<close>

named_theorems dict_simps \<open>lookup equations of the dictionaries the program builds\<close>
named_theorems res_simps \<open>equations of the error monad\<close>

section \<open>JSON values and Python dictionaries\<close>

datatype json =
    JNull
  | JBool bool
  | JInt int
  | JStr string
  | JList "json list"
  | JObj "(string, json) fmap"

type_synonym dict = "(string, json) fmap"

text \<open>\<open>d.get(k)\<close>, \<open>d.get(k, v)\<close> and \<open>k in d\<close>.\<close>

definition dget :: "dict \<Rightarrow> string \<Rightarrow> json" where
  "dget d k = (case fmlookup d k of None \<Rightarrow> JNull | Some v \<Rightarrow> v)"

definition dget_or :: "dict \<Rightarrow> string \<Rightarrow> json \<Rightarrow> json" where
  "dget_or d k v = (case fmlookup d k of None \<Rightarrow> v | Some w \<Rightarrow> w)"

definition has_key :: "dict \<Rightarrow> string \<Rightarrow> bool" where
  "has_key d k = (fmlookup d k \<noteq> None)"

text \<open>Python truth value testing.\<close>

fun truthy :: "json \<Rightarrow> bool" where
  "truthy JNull = False"
| "truthy (JBool b) = b"
| "truthy (JInt i) = (i \<noteq> 0)"
| "truthy (JStr s) = (s \<noteq> [])"
| "truthy (JList xs) = (xs \<noteq> [])"
| "truthy (JObj m) = (fmdom m \<noteq> {||})"

text \<open>\<open>isinstance(v, int)\<close> (a \<open>bool\<close> is an \<open>int\<close>) and \<open>isinstance(v, str)\<close>, with the value.\<close>

fun as_int :: "json \<Rightarrow> int option" where
  "as_int (JInt i) = Some i"
| "as_int (JBool b) = Some (if b then 1 else 0)"
| "as_int _ = None"

fun as_str :: "json \<Rightarrow> string option" where
  "as_str (JStr s) = Some s"
| "as_str _ = None"

fun as_obj :: "json \<Rightarrow> dict option" where
  "as_obj (JObj d) = Some d"
| "as_obj _ = None"

text \<open>Values that may be members of a set or keys of a dictionary.\<close>

fun hashable :: "json \<Rightarrow> bool" where
  "hashable (JList _) = False"
| "hashable (JObj _) = False"
| "hashable _ = True"

text \<open>An optional argument \<open>str | None\<close> as a JSON value.\<close>

fun opt_str :: "string option \<Rightarrow> json" where
  "opt_str None = JNull"
| "opt_str (Some s) = JStr s"

text \<open>
  Python equality of JSON values: \<open>True == 1\<close> and \<open>False == 0\<close>, also inside containers.
  \<open>py_norm\<close> picks the integer as the representative.
\<close>

primrec py_norm :: "json \<Rightarrow> json" where
  "py_norm JNull = JNull"
| "py_norm (JBool b) = JInt (if b then 1 else 0)"
| "py_norm (JInt i) = JInt i"
| "py_norm (JStr s) = JStr s"
| "py_norm (JList xs) = JList (map py_norm xs)"
| "py_norm (JObj m) = JObj (fmmap py_norm m)"

definition py_eq :: "json \<Rightarrow> json \<Rightarrow> bool" where
  "py_eq a b = (py_norm a = py_norm b)"

lemma py_eq_refl [simp]: "py_eq a a"
  by (simp add: py_eq_def)

lemma py_eq_sym: "py_eq a b = py_eq b a"
  by (auto simp: py_eq_def)

lemma py_eq_trans: "py_eq a b \<Longrightarrow> py_eq b c \<Longrightarrow> py_eq a c"
  by (simp add: py_eq_def)

lemma py_norm_JStr_iff [simp]: "(py_norm a = JStr s) = (a = JStr s)"
  by (cases a) auto

lemma py_eq_JStr [simp]: "py_eq a (JStr s) = (a = JStr s)" "py_eq (JStr s) a = (a = JStr s)"
proof -
  show 1: "py_eq a (JStr s) = (a = JStr s)" by (simp add: py_eq_def)
  show "py_eq (JStr s) a = (a = JStr s)" using 1 by (simp add: py_eq_sym)
qed

lemma dget_upd [simp, dict_simps]: "dget (fmupd k v d) k' = (if k = k' then v else dget d k')"
  by (simp add: dget_def)

lemma dget_or_upd [simp, dict_simps]:
  "dget_or (fmupd k v d) k' w = (if k = k' then v else dget_or d k' w)"
  by (simp add: dget_or_def)

lemma has_key_upd [simp, dict_simps]: "has_key (fmupd k v d) k' = (k = k' \<or> has_key d k')"
  by (simp add: has_key_def)

lemma dget_empty [simp, dict_simps]:
  "dget fmempty k = JNull" "dget_or fmempty k w = w" "has_key fmempty k = False"
  by (simp_all add: dget_def dget_or_def has_key_def)

lemma has_key_if_dget: "dget d k \<noteq> JNull \<Longrightarrow> has_key d k"
  by (auto simp: dget_def has_key_def split: option.splits)

lemma dget_or_has_key: "has_key d k \<Longrightarrow> dget_or d k v = dget d k"
  by (auto simp: dget_or_def dget_def has_key_def split: option.splits)

section \<open>Exceptions and results\<close>

text \<open>
  The exceptions raised by the tracker modules. Messages are abbreviated to the condition they
  report. \<open>DuplicateIdError\<close> and \<open>KeyMisuseError\<close> are the two subclasses of
  \<open>TrackerStoreError\<close> in \<open>tracker_store.py\<close>.
\<close>

datatype pyerr =
    TrackerStoreError string
  | DuplicateIdError json
  | KeyMisuseError json
  | TrackerEntityError string
  | TrackerTransitionError string
  | TypeErr
  | AttributeErr
  | KeyErr string
  | ValueErr string
  | RuntimeErr string
  | JSONDecodeErr
  | LockTimeout

type_synonym 'a res = "pyerr + 'a"

definition res_bind :: "'a res \<Rightarrow> ('a \<Rightarrow> 'b res) \<Rightarrow> 'b res" where
  "res_bind r f = (case r of Inl e \<Rightarrow> Inl e | Inr x \<Rightarrow> f x)"

lemma res_bind_simps [simp, res_simps]:
  "res_bind (Inl e) f = Inl e" "res_bind (Inr x) f = f x"
  by (simp_all add: res_bind_def)

lemma res_bind_Inr_iff [res_simps]:
  "res_bind r f = Inr y \<longleftrightarrow> (\<exists>x. r = Inr x \<and> f x = Inr y)"
  by (cases r) auto

primrec res_map :: "('a \<Rightarrow> 'b res) \<Rightarrow> 'a list \<Rightarrow> 'b list res" where
  "res_map f [] = Inr []"
| "res_map f (x # xs) =
     res_bind (f x) (\<lambda>y. res_bind (res_map f xs) (\<lambda>ys. Inr (y # ys)))"

lemma res_map_Inr: "(\<forall>x \<in> set xs. f x = Inr (g x)) \<Longrightarrow> res_map f xs = Inr (map g xs)"
  by (induction xs) auto

lemma res_map_Inr_iff:
  "res_map f xs = Inr ys \<longleftrightarrow> list_all2 (\<lambda>x y. f x = Inr y) xs ys"
  by (induction xs arbitrary: ys)
    (auto simp: res_bind_Inr_iff list_all2_Cons1)

lemma res_map_append:
  "res_map f (xs @ ys) =
     res_bind (res_map f xs) (\<lambda>us. res_bind (res_map f ys) (\<lambda>vs. Inr (us @ vs)))"
proof (induction xs)
  case Nil
  show ?case by (cases "res_map f ys") auto
next
  case (Cons x xs)
  show ?case
    by (cases "f x"; cases "res_map f xs"; cases "res_map f ys") (auto simp: Cons.IH)
qed

section \<open>The environment of a call\<close>

text \<open>
  What an operation reads besides the repository: the machine slug of the host, the wall clock
  in milliseconds (\<open>_now_ms\<close>), the microsecond ISO-8601 stamp (\<open>_stamp_applied_at\<close>), the
  second-granularity stamp of the fold marker, the random nonces and whether the same-host
  file lock is acquired before its timeout. Clocks and nonces are indexed by the number of the
  reading within one call. \<open>env_sha\<close> is the SHA-256 hex digest of the default
  \<open>json.dumps\<close> serialisation, \<open>env_sha_compact\<close> that of the one with \<open>separators=(",", ":")\<close>.
\<close>

record env =
  env_slug :: string
  env_now_ms :: "nat \<Rightarrow> int"
  env_stamp :: "nat \<Rightarrow> string"
  env_second_stamp :: string
  env_nonce :: "nat \<Rightarrow> string"
  env_lock_ok :: bool
  env_sha :: "json \<Rightarrow> string"
  env_sha_compact :: "json \<Rightarrow> string"

section \<open>Python strings\<close>

definition is_space :: "char \<Rightarrow> bool" where
  "is_space c = (let n = (of_char c :: nat) in
     (9 \<le> n \<and> n \<le> 13) \<or> (28 \<le> n \<and> n \<le> 32) \<or> n = 133 \<or> n = 160)"

definition is_digit_char :: "char \<Rightarrow> bool" where
  "is_digit_char c = (let n = (of_char c :: nat) in
     (48 \<le> n \<and> n \<le> 57) \<or> n = 178 \<or> n = 179 \<or> n = 185)"

definition strip_by :: "(char \<Rightarrow> bool) \<Rightarrow> string \<Rightarrow> string" where
  "strip_by p s = rev (dropWhile p (rev (dropWhile p s)))"

definition py_strip :: "string \<Rightarrow> string" where
  "py_strip s = strip_by is_space s"

definition py_isdigit :: "string \<Rightarrow> bool" where
  "py_isdigit s = (s \<noteq> [] \<and> list_all is_digit_char s)"

lemma set_strip_by: "set (strip_by p s) \<subseteq> set s"
  by (auto simp: strip_by_def dest!: set_dropWhileD)

lemma strip_by_idle:
  assumes "s \<noteq> []" and "\<not> p (hd s)" and "\<not> p (last s)"
  shows "strip_by p s = s"
proof -
  have "dropWhile p s = s" using assms by (simp add: dropWhile_eq_self_iff)
  moreover have "dropWhile p (rev s) = rev s"
    using assms by (simp add: dropWhile_eq_self_iff hd_rev)
  ultimately show ?thesis by (simp add: strip_by_def)
qed

lemma strip_by_length: "length (strip_by p s) \<le> length s"
  unfolding strip_by_def
  by (metis length_dropWhile_le length_rev order_trans)

lemma hd_dropWhile_not: "dropWhile p s \<noteq> [] \<Longrightarrow> \<not> p (hd (dropWhile p s))"
  by (simp add: hd_dropWhile)

lemma strip_by_last: "strip_by p s \<noteq> [] \<Longrightarrow> \<not> p (last (strip_by p s))"
  unfolding strip_by_def by (simp add: last_rev hd_dropWhile)

section \<open>Comparing and sorting keys\<close>

text \<open>
  \<open>a < b\<close> on JSON values raises \<open>TypeError\<close> unless both are strings or both are numbers
  (arrays are treated as unorderable). \<open>order_key\<close> maps the orderable values into a linear
  order that agrees with Python's.
\<close>

fun orderable :: "json \<Rightarrow> json \<Rightarrow> bool" where
  "orderable (JStr _) (JStr _) = True"
| "orderable a b = (as_int a \<noteq> None \<and> as_int b \<noteq> None)"

fun order_key :: "json \<Rightarrow> nat \<times> int \<times> string" where
  "order_key JNull = (0, 0, [])"
| "order_key (JInt i) = (1, i, [])"
| "order_key (JBool b) = (1, if b then 1 else 0, [])"
| "order_key (JStr s) = (2, 0, s)"
| "order_key _ = (3, 0, [])"

text \<open>
  Tuples of keys compare at their first unequal component; \<open>tuple_orderable\<close> says that this
  comparison does not raise.
\<close>

fun tuple_orderable :: "json list \<Rightarrow> json list \<Rightarrow> bool" where
  "tuple_orderable (a # as) (b # bs) =
     (if py_eq a b then tuple_orderable as bs else orderable a b)"
| "tuple_orderable _ _ = True"

definition all_orderable :: "('a \<Rightarrow> json list) \<Rightarrow> 'a list \<Rightarrow> bool" where
  "all_orderable k xs = (\<forall>x \<in> set xs. \<forall>y \<in> set xs. tuple_orderable (k x) (k y))"

text \<open>
  \<open>xs.sort(key=k)\<close>: a stable sort. A comparison sort has to compare the neighbours of its
  result, so it raises exactly when two keys are not comparable.
\<close>

definition py_sort_by :: "('a \<Rightarrow> json list) \<Rightarrow> 'a list \<Rightarrow> 'a list res" where
  "py_sort_by k xs =
     (if all_orderable k xs then Inr (sort_key (\<lambda>x. map order_key (k x)) xs) else Inl TypeErr)"

lemma tuple_orderable_strs:
  "list_all (\<lambda>v. as_str v \<noteq> None) as \<Longrightarrow> list_all (\<lambda>v. as_str v \<noteq> None) bs \<Longrightarrow> tuple_orderable as bs"
proof (induction as bs rule: tuple_orderable.induct)
  case (1 a as b bs)
  then show ?case by (cases a; cases b) auto
qed auto

lemma order_key_inj_str: "as_str a \<noteq> None \<Longrightarrow> order_key a = order_key b \<Longrightarrow> a = b"
  by (cases a; cases b) auto

section \<open>Sorting and multisets\<close>

text \<open>
  A stable sort on a key that separates the elements depends on the multiset of its input only.
\<close>

lemma filter_eq_replicate: "filter (\<lambda>x. k = x) zs = replicate (count (mset zs) k) k"
  by (induction zs) auto

lemma sort_key_mset_eq:
  assumes "mset xs = mset ys" and "inj_on f (set xs)"
  shows "sort_key f xs = sort_key f ys"
proof (rule properties_for_sort_key)
  show "mset (sort_key f ys) = mset xs" using assms(1) by simp
  show "sorted (map f (sort_key f ys))" by simp
  fix k assume "k \<in> set (sort_key f ys)"
  moreover have sets: "set xs = set ys" using assms(1) by (rule mset_eq_setD)
  ultimately have k: "k \<in> set ys" by simp
  have same: "filter (\<lambda>x. f k = f x) zs = replicate (count (mset zs) k) k"
    if "set zs = set ys" for zs
  proof -
    have "filter (\<lambda>x. f k = f x) zs = filter (\<lambda>x. k = x) zs"
      using that k assms(2) sets by (auto simp: inj_on_def intro!: filter_cong)
    then show ?thesis by (simp add: filter_eq_replicate)
  qed
  show "filter (\<lambda>x. f k = f x) (sort_key f ys) = filter (\<lambda>x. f k = f x) xs"
    using same [of "sort_key f ys"] same [of xs] sets assms(1) by simp
qed

lemma all_orderable_mset: "set xs = set ys \<Longrightarrow> all_orderable k xs = all_orderable k ys"
  by (simp add: all_orderable_def)

lemma concat_map_mset: "mset (concat xss) = sum_list (map mset xss)"
  by (induction xss) auto

section \<open>A concrete environment\<close>

text \<open>
  An instance of the environment for worked examples: a fixed host, a clock that stands still
  (so that the logical clock has to count), and a digest that writes the value out backwards.
\<close>

primrec flat_json :: "json \<Rightarrow> string" where
  "flat_json JNull = ''~''"
| "flat_json (JBool b) = (if b then ''t'' else ''f'')"
| "flat_json (JInt i) = (if i < 0 then ''m'' else []) @ replicate (nat \<bar>i\<bar>) CHR ''i''"
| "flat_json (JStr s) = s @ ''.''"
| "flat_json (JList xs) = concat (map flat_json xs) @ ''l''"
| "flat_json (JObj m) = ''o''"

definition ex_env :: env where
  "ex_env = \<lparr>env_slug = ''rig'', env_now_ms = (\<lambda>_. 5), env_stamp = (\<lambda>_. ''2026-08-02T10:00:00''),
     env_second_stamp = ''2026-08-02T10:00:00Z'', env_nonce = (\<lambda>_. ''abc123''), env_lock_ok = True,
     env_sha = (\<lambda>v. rev (flat_json v)), env_sha_compact = (\<lambda>v. rev (flat_json v))\<rparr>"

definition ex_event :: "string \<Rightarrow> dict" where
  "ex_event i = fmap_of_list [(''id'', JStr i), (''kind'', JStr ''note''),
     (''observed_at'', JStr ''2026-08-01T09:00:00''), (''applied_at'', JStr ''2026-08-01T09:00:01'')]"

end
