(* ===== verification/Tracker_Store.thy ===== *)
theory Tracker_Store
  imports Tracker_Prelude
begin

text \<open>
  The per-machine, append-only event store (\<open>coordinator_core/tracker_store.py\<close>) and the locked
  read-modify-write it rests on (\<open>coordinator_core/locked_write.py\<close>).

  A repository's \<open>state/sovereign-tracker\<close> directory is the record \<open>store\<close>: the live shard
  \<open>events.<slug>.jsonl\<close> of every machine and the rotated partitions
  \<open><YYYY-MM>/events.<slug>.jsonl\<close>. A shard file is the list of its non-blank lines, each one a JSON
  value or text that does not parse. An operation maps a store to its result (an exception or a
  value) and the store it leaves behind.
\<close>

section \<open>State\<close>

datatype line = BadLine string | Line json

record store =
  dir_exists :: bool
  live :: "(string \<times> line list) list"
  rotated :: "((string \<times> string) \<times> line list) list"

type_synonym 'a op = "store \<Rightarrow> 'a res \<times> store"

definition shard_path :: "string \<Rightarrow> string" where
  "shard_path slug = ''events.'' @ slug @ ''.jsonl''"

definition live_lines :: "store \<Rightarrow> string \<Rightarrow> line list" where
  "live_lines s slug = (case map_of (live s) slug of None \<Rightarrow> [] | Some ls \<Rightarrow> ls)"

definition rotated_lines :: "store \<Rightarrow> string \<Rightarrow> string \<Rightarrow> line list" where
  "rotated_lines s month slug =
     (case map_of (rotated s) (month, slug) of None \<Rightarrow> [] | Some ls \<Rightarrow> ls)"

definition write_live :: "string \<Rightarrow> line list \<Rightarrow> store \<Rightarrow> store" where
  "write_live slug ls s = s\<lparr>dir_exists := True, live := AList.update slug ls (live s)\<rparr>"

definition write_rotated :: "string \<Rightarrow> string \<Rightarrow> line list \<Rightarrow> store \<Rightarrow> store" where
  "write_rotated month slug ls s =
     s\<lparr>dir_exists := True, rotated := AList.update (month, slug) ls (rotated s)\<rparr>"

text \<open>The two globs of \<open>read_events\<close>, each sorted by path.\<close>

definition glob_shards :: "store \<Rightarrow> line list list" where
  "glob_shards s =
     map snd (sort_key (\<lambda>p. shard_path (fst p)) (live s)) @
     map snd (sort_key (\<lambda>p. (fst (fst p), shard_path (snd (fst p)))) (rotated s))"

text \<open>
  \<open>_peer_shard_paths\<close>: the rotated partitions of one machine in month order, then its live
  shard. \<open>rotated_history\<close> is the concatenated text of the former, \<open>peer_lines\<close> of both.
\<close>

definition rotated_shards :: "store \<Rightarrow> string \<Rightarrow> line list list" where
  "rotated_shards s slug =
     map snd (sort_key (\<lambda>p. fst (fst p)) (filter (\<lambda>p. snd (fst p) = slug) (rotated s)))"

definition peer_shard_paths :: "store \<Rightarrow> string \<Rightarrow> line list list" where
  "peer_shard_paths s slug =
     rotated_shards s slug @
     (case map_of (live s) slug of None \<Rightarrow> [] | Some ls \<Rightarrow> [ls])"

definition rotated_history :: "store \<Rightarrow> string \<Rightarrow> line list" where
  "rotated_history s slug = concat (rotated_shards s slug)"

definition peer_lines :: "store \<Rightarrow> string \<Rightarrow> line list" where
  "peer_lines s slug = concat (peer_shard_paths s slug)"

definition all_machine_slugs :: "store \<Rightarrow> string list" where
  "all_machine_slugs s = sort (remdups (map fst (live s) @ map (\<lambda>p. snd (fst p)) (rotated s)))"

section \<open>Field validation and the logical clock\<close>

definition id_not_bare_digit_string :: "json \<Rightarrow> bool" where
  "id_not_bare_digit_string v =
     (case v of JStr s \<Rightarrow> py_strip s \<noteq> [] \<and> \<not> py_isdigit (py_strip s) | _ \<Rightarrow> False)"

definition next_clock :: "json \<Rightarrow> json \<Rightarrow> int \<Rightarrow> (int \<times> int) res" where
  "next_clock prior_wall_ms prior_counter now_ms =
     (case as_int prior_wall_ms of
        None \<Rightarrow> Inl TypeErr
      | Some prior \<Rightarrow>
          let wall_ms = max now_ms prior in
          if wall_ms = prior
          then (case as_int prior_counter of
                  None \<Rightarrow> Inl TypeErr
                | Some c \<Rightarrow> Inr (wall_ms, c + 1))
          else Inr (wall_ms, 0))"

definition validate_event_fields :: "dict \<Rightarrow> unit res" where
  "validate_event_fields event =
     (if \<not> has_key event ''id'' \<or> \<not> truthy (dget event ''id'')
      then Inl (TrackerStoreError ''missing required field: id'')
      else if \<not> has_key event ''observed_at'' \<or> \<not> truthy (dget event ''observed_at'')
      then Inl (TrackerStoreError ''missing required field: observed_at'')
      else if \<not> id_not_bare_digit_string (dget event ''id'')
      then Inl (TrackerStoreError ''id is a bare digit string'')
      else Inr ())"

definition VOLATILE_EVENT_FIELDS :: "string list" where
  "VOLATILE_EVENT_FIELDS =
     [''id'', ''observed_at'', ''machine'', ''sequence'', ''logical_clock'', ''applied_at'']"

definition stable_payload :: "dict \<Rightarrow> dict" where
  "stable_payload event = fmfilter (\<lambda>k. k \<notin> set VOLATILE_EVENT_FIELDS) event"

section \<open>Locked read-modify-write\<close>

text \<open>
  How a \<open>mutate\<close> callable ends: new file text with a value it leaves in the enclosing scope,
  a clean \<open>MutateAbort\<close> with such a value, or another exception.
\<close>

datatype 'a mutated = NewText "line list" 'a | MutateAbort 'a | Raised pyerr

definition locked_rmw ::
  "env \<Rightarrow> string \<Rightarrow> (line list \<Rightarrow> 'a mutated) \<Rightarrow> store \<Rightarrow> 'a mutated \<times> store" where
  "locked_rmw env slug mutate s =
     (if \<not> env_lock_ok env then (Raised LockTimeout, s)
      else let old_text = live_lines s slug in
        (case mutate old_text of
           NewText new_text v \<Rightarrow>
             (NewText new_text v,
              if new_text = old_text then s else write_live slug new_text s)
         | MutateAbort v \<Rightarrow> (MutateAbort v, s)
         | Raised e \<Rightarrow> (Raised e, s)))"

section \<open>Appending one event\<close>

text \<open>The outcome of the duplicate scan over the lines of the own history.\<close>

datatype scan = Clear | Found_dup | Found_retry dict | Found_misuse json

fun check_key_collision :: "string option \<Rightarrow> dict \<Rightarrow> dict \<Rightarrow> scan" where
  "check_key_collision None event existing = Clear"
| "check_key_collision (Some key) event existing =
     (if dget existing ''idempotency_key'' \<noteq> JStr key then Clear
      else if py_eq (JObj (stable_payload existing)) (JObj (stable_payload event))
      then Found_retry existing
      else Found_misuse (dget existing ''id''))"

fun scan_lines :: "string option \<Rightarrow> dict \<Rightarrow> line list \<Rightarrow> scan" where
  "scan_lines key event [] = Clear"
| "scan_lines key event (BadLine _ # ls) = scan_lines key event ls"
| "scan_lines key event (Line v # ls) =
     (case v of
        JObj existing \<Rightarrow>
          if dget existing ''id'' = dget event ''id'' then Found_dup
          else (case check_key_collision key event existing of
                  Clear \<Rightarrow> scan_lines key event ls
                | outcome \<Rightarrow> outcome)
      | _ \<Rightarrow> scan_lines key event ls)"

text \<open>The tail sequence, \<open>wall_ms\<close> and \<open>counter\<close> the next event chains off.\<close>

definition tail_state :: "line list \<Rightarrow> (int \<times> json \<times> json) res" where
  "tail_state lines =
     (if lines = [] then Inr (0, JInt 0, JInt 0)
      else (case last lines of
              BadLine _ \<Rightarrow> Inl (TrackerStoreError ''malformed tail line'')
            | Line v \<Rightarrow>
                (case v of
                   JObj tail \<Rightarrow>
                     let seq = (case as_int (dget_or tail ''sequence'' (JInt 0)) of
                                  None \<Rightarrow> 0 | Some i \<Rightarrow> i)
                     in (case dget tail ''logical_clock'' of
                           JObj c \<Rightarrow> Inr (seq, dget_or c ''wall_ms'' (JInt 0),
                                               dget_or c ''counter'' (JInt 0))
                         | _ \<Rightarrow> Inr (seq, JInt 0, JInt 0))
                 | _ \<Rightarrow> Inl (TrackerStoreError ''malformed tail line: not a JSON object''))))"

definition clock_obj :: "int \<times> int \<Rightarrow> json" where
  "clock_obj wc = JObj (fmap_of_list [(''wall_ms'', JInt (fst wc)), (''counter'', JInt (snd wc))])"

definition stamp_event :: "string \<Rightarrow> int \<Rightarrow> int \<times> int \<Rightarrow> dict \<Rightarrow> dict" where
  "stamp_event machine sequence clock event =
     fmupd ''logical_clock'' (clock_obj clock)
       (fmupd ''sequence'' (JInt sequence) (fmupd ''machine'' (JStr machine) event))"

definition append_mutate ::
  "env \<Rightarrow> dict \<Rightarrow> string option \<Rightarrow> line list \<Rightarrow> line list \<Rightarrow> dict mutated" where
  "append_mutate env event key history lines =
     (case scan_lines key event (history @ lines) of
        Found_dup \<Rightarrow> Raised (DuplicateIdError (dget event ''id''))
      | Found_retry existing \<Rightarrow> MutateAbort existing
      | Found_misuse bound \<Rightarrow> Raised (KeyMisuseError bound)
      | Clear \<Rightarrow>
          (case tail_state lines of
             Inl e \<Rightarrow> Raised e
           | Inr (tail_sequence, tail_wall_ms, tail_counter) \<Rightarrow>
               (case next_clock tail_wall_ms tail_counter (env_now_ms env 0) of
                  Inl e \<Rightarrow> Raised e
                | Inr clock \<Rightarrow>
                    let new_event =
                      stamp_event (env_slug env) (tail_sequence + 1) clock event
                    in NewText (lines @ [Line (JObj new_event)]) new_event)))"

definition append_event :: "env \<Rightarrow> dict \<Rightarrow> string option \<Rightarrow> dict op" where
  "append_event env event key s =
     (case validate_event_fields event of
        Inl e \<Rightarrow> (Inl e, s)
      | Inr _ \<Rightarrow>
          (case locked_rmw env (env_slug env)
                  (append_mutate env event key (rotated_history s (env_slug env))) s of
             (NewText _ new_event, s') \<Rightarrow> (Inr new_event, s')
           | (MutateAbort existing, s') \<Rightarrow> (Inr existing, s')
           | (Raised e, s') \<Rightarrow> (Inl e, s')))"

section \<open>Appending a batch\<close>

fun batch_duplicate :: "json list \<Rightarrow> dict list \<Rightarrow> json option" where
  "batch_duplicate seen [] = None"
| "batch_duplicate seen (event # events) =
     (if dget event ''id'' \<in> set seen then Some (dget event ''id'')
      else batch_duplicate (dget event ''id'' # seen) events)"

fun batch_scan :: "json list \<Rightarrow> line list \<Rightarrow> unit res" where
  "batch_scan ids [] = Inr ()"
| "batch_scan ids (BadLine _ # ls) = batch_scan ids ls"
| "batch_scan ids (Line v # ls) =
     (case v of
        JObj existing \<Rightarrow>
          if \<not> hashable (dget existing ''id'') then Inl TypeErr
          else if dget existing ''id'' \<in> set ids
          then Inl (DuplicateIdError (dget existing ''id''))
          else batch_scan ids ls
      | _ \<Rightarrow> batch_scan ids ls)"

fun batch_stamp :: "env \<Rightarrow> nat \<Rightarrow> int \<Rightarrow> json \<Rightarrow> json \<Rightarrow> dict list \<Rightarrow> dict list res" where
  "batch_stamp env k seq wall_ms counter [] = Inr []"
| "batch_stamp env k seq wall_ms counter (event # events) =
     res_bind (next_clock wall_ms counter (env_now_ms env k)) (\<lambda>clock.
       res_bind (batch_stamp env (Suc k) (seq + 1) (JInt (fst clock)) (JInt (snd clock)) events)
         (\<lambda>rest. Inr (stamp_event (env_slug env) (seq + 1) clock event # rest)))"

definition append_batch_mutate :: "env \<Rightarrow> dict list \<Rightarrow> line list \<Rightarrow> dict list mutated" where
  "append_batch_mutate env events lines =
     (case batch_scan (map (\<lambda>e. dget e ''id'') events) lines of
        Inl e \<Rightarrow> Raised e
      | Inr _ \<Rightarrow>
          (case tail_state lines of
             Inl e \<Rightarrow> Raised e
           | Inr (tail_sequence, tail_wall_ms, tail_counter) \<Rightarrow>
               (case batch_stamp env 0 tail_sequence tail_wall_ms tail_counter events of
                  Inl e \<Rightarrow> Raised e
                | Inr assigned \<Rightarrow>
                    NewText (lines @ map (\<lambda>e. Line (JObj e)) assigned) assigned)))"

definition append_events :: "env \<Rightarrow> dict list \<Rightarrow> dict list op" where
  "append_events env events s =
     (if events = [] then (Inr [], s)
      else (case res_map validate_event_fields events of
              Inl e \<Rightarrow> (Inl e, s)
            | Inr _ \<Rightarrow>
                (case batch_duplicate [] events of
                   Some i \<Rightarrow> (Inl (DuplicateIdError i), s)
                 | None \<Rightarrow>
                     (case locked_rmw env (env_slug env) (append_batch_mutate env events) s of
                        (NewText _ assigned, s') \<Rightarrow> (Inr assigned, s')
                      | (MutateAbort assigned, s') \<Rightarrow> (Inr assigned, s')
                      | (Raised e, s') \<Rightarrow> (Inl e, s')))))"

section \<open>Reading\<close>

fun parse_record :: "line \<Rightarrow> dict res" where
  "parse_record (BadLine _) = Inl (TrackerStoreError ''malformed line'')"
| "parse_record (Line v) =
     (case v of JObj d \<Rightarrow> Inr d
      | _ \<Rightarrow> Inl (TrackerStoreError ''malformed line: not a JSON object''))"

definition event_key :: "dict \<Rightarrow> json list" where
  "event_key e = [dget e ''applied_at'', dget e ''observed_at'', dget e ''id'']"

definition is_applied :: "dict \<Rightarrow> bool" where
  "is_applied record = (dget record ''applied_at'' \<noteq> JNull)"

definition read_events :: "store \<Rightarrow> dict list res" where
  "read_events s =
     (if \<not> dir_exists s then Inr []
      else res_bind (res_map parse_record (concat (glob_shards s)))
             (\<lambda>records. py_sort_by event_key (filter is_applied records)))"

definition max_sequence :: "store \<Rightarrow> string \<Rightarrow> int res" where
  "max_sequence s slug =
     (if live_lines s slug = [] then Inr 0
      else res_bind (parse_record (last (live_lines s slug)))
             (\<lambda>tail. Inr (case as_int (dget_or tail ''sequence'' (JInt 0)) of
                            None \<Rightarrow> 0 | Some i \<Rightarrow> i)))"

section \<open>Rotation\<close>

fun line_id :: "line \<Rightarrow> json" where
  "line_id (Line (JObj d)) = dget d ''id''"
| "line_id _ = JNull"

fun event_month :: "line \<Rightarrow> string option" where
  "event_month (Line (JObj d)) =
     (case dget d ''observed_at'' of
        JStr t \<Rightarrow> if length t < 7 then None else Some (take 7 t)
      | _ \<Rightarrow> None)"
| "event_month _ = None"

definition rotation_new_lines :: "line list \<Rightarrow> line list \<Rightarrow> line list" where
  "rotation_new_lines existing candidates =
     (let existing_ids = filter truthy (map line_id existing) in
      filter (\<lambda>l. \<not> (line_id l \<noteq> JNull \<and> line_id l \<in> set existing_ids)) candidates)"

definition rotation_unhashable :: "line list \<Rightarrow> line list \<Rightarrow> bool" where
  "rotation_unhashable existing candidates =
     (list_ex (\<lambda>l. truthy (line_id l) \<and> \<not> hashable (line_id l)) existing \<or>
      list_ex (\<lambda>l. \<not> hashable (line_id l)) candidates)"

text \<open>\<open>_rotate\<close>: the number of relocated lines and the lines to add to the rotated file.\<close>

definition rotate_mutate ::
  "string \<Rightarrow> line list \<Rightarrow> line list \<Rightarrow> (nat \<times> line list) mutated" where
  "rotate_mutate month existing lines =
     (let candidates = filter (\<lambda>l. event_month l = Some month) lines in
      if candidates = [] then MutateAbort (0, [])
      else if rotation_unhashable existing candidates then Raised TypeErr
      else NewText (filter (\<lambda>l. event_month l \<noteq> Some month) lines)
             (length candidates, rotation_new_lines existing candidates))"

definition rotate_month :: "env \<Rightarrow> string \<Rightarrow> string option \<Rightarrow> nat op" where
  "rotate_month env month machine s =
     (let slug = (case machine of None \<Rightarrow> env_slug env | Some m \<Rightarrow> m) in
      if map_of (live s) slug = None then (Inr 0, s)
      else (let existing = rotated_lines s month slug in
        (case locked_rmw env slug (rotate_mutate month existing) s of
           (NewText _ (relocated, new_lines), s') \<Rightarrow>
             (Inr relocated,
              if new_lines = [] then s'
              else write_rotated month slug (existing @ new_lines) s')
         | (MutateAbort _, s') \<Rightarrow> (Inr 0, s')
         | (Raised e, s') \<Rightarrow> (Inl e, s'))))"

section \<open>Frame lemmas of the store\<close>

lemma live_lines_write_live [simp]:
  "live_lines (write_live slug ls s) slug' = (if slug = slug' then ls else live_lines s slug')"
  by (simp add: live_lines_def write_live_def update_conv')

lemma write_live_fields [simp]:
  "rotated (write_live slug ls s) = rotated s" "dir_exists (write_live slug ls s)"
  "rotated_lines (write_live slug ls s) = rotated_lines s"
  "rotated_history (write_live slug ls s) = rotated_history s"
  "rotated_shards (write_live slug ls s) = rotated_shards s"
  by (simp_all add: fun_eq_iff write_live_def rotated_lines_def rotated_history_def
      rotated_shards_def)

lemma write_rotated_fields [simp]:
  "live (write_rotated month slug ls s) = live s" "dir_exists (write_rotated month slug ls s)"
  "live_lines (write_rotated month slug ls s) = live_lines s"
  by (simp_all add: fun_eq_iff write_rotated_def live_lines_def)

lemma rotated_lines_write_rotated [simp]:
  "rotated_lines (write_rotated month slug ls s) month' slug' =
     (if month = month' \<and> slug = slug' then ls else rotated_lines s month' slug')"
  by (simp add: rotated_lines_def write_rotated_def update_conv')

lemma peer_lines_eq: "peer_lines s slug = rotated_history s slug @ live_lines s slug"
  by (simp add: peer_lines_def peer_shard_paths_def rotated_history_def live_lines_def
      split: option.split)

lemma dget_stamp_event:
  "k \<notin> {''machine'', ''sequence'', ''logical_clock''} \<Longrightarrow>
     dget (stamp_event m n c e) k = dget e k"
  by (auto simp: stamp_event_def)

lemma stamp_event_fields [simp]:
  "dget (stamp_event m n c e) ''machine'' = JStr m"
  "dget (stamp_event m n c e) ''sequence'' = JInt n"
  "dget (stamp_event m n c e) ''logical_clock'' = clock_obj c"
  "dget (stamp_event m n c e) ''id'' = dget e ''id''"
  "dget_or (stamp_event m n c e) ''sequence'' v = JInt n"
  by (auto simp: stamp_event_def)

lemma stable_payload_stamp [simp]: "stable_payload (stamp_event m n c e) = stable_payload e"
  by (rule fmap_ext) (simp add: stable_payload_def stamp_event_def VOLATILE_EVENT_FIELDS_def)

section \<open>The records of a list of lines\<close>

fun obj_records :: "line list \<Rightarrow> dict list" where
  "obj_records [] = []"
| "obj_records (Line (JObj d) # ls) = d # obj_records ls"
| "obj_records (_ # ls) = obj_records ls"

lemma obj_records_append [simp]: "obj_records (xs @ ys) = obj_records xs @ obj_records ys"
  by (induction xs rule: obj_records.induct) auto

lemma obj_records_map [simp]: "obj_records (map (\<lambda>e. Line (JObj e)) ds) = ds"
  by (induction ds) auto

lemma set_obj_records: "set (obj_records ls) = {d. Line (JObj d) \<in> set ls}"
  by (induction ls rule: obj_records.induct) auto

lemma scan_lines_cases:
  "scan_lines key ev ls = Clear \<Longrightarrow> d \<in> set (obj_records ls) \<Longrightarrow>
     dget d ''id'' \<noteq> dget ev ''id'' \<and> check_key_collision key ev d = Clear"
  by (induction key ev ls rule: scan_lines.induct)
    (auto split: json.splits if_splits scan.splits)

lemma scan_lines_Clear_iff:
  "scan_lines key ev ls = Clear \<longleftrightarrow>
     (\<forall>d \<in> set (obj_records ls).
        dget d ''id'' \<noteq> dget ev ''id'' \<and> check_key_collision key ev d = Clear)"
  by (induction key ev ls rule: scan_lines.induct)
    (auto split: json.splits if_splits scan.splits)

lemma scan_lines_no_key: "scan_lines None ev ls = Clear \<or> scan_lines None ev ls = Found_dup"
  by (induction "None :: string option" ev ls rule: scan_lines.induct) (auto split: json.splits)

lemma scan_lines_retry:
  "scan_lines key ev ls = Found_retry d \<Longrightarrow>
     d \<in> set (obj_records ls) \<and> (\<exists>k. key = Some k \<and> dget d ''idempotency_key'' = JStr k) \<and>
     py_eq (JObj (stable_payload d)) (JObj (stable_payload ev))"
proof (induction key ev ls rule: scan_lines.induct)
  case (3 key event v ls)
  show ?case
  proof (cases v)
    case (JObj existing)
    with 3 show ?thesis
      by (cases key) (auto split: if_splits scan.splits)
  qed (use 3 in auto)
qed auto

section \<open>Case analysis of an append\<close>

text \<open>
  An append ends in one of three ways: an exception, a recognised retry, or one new line at the
  end of the own shard.
\<close>

lemma append_event_cases [consumes 1, case_names err retry appended]:
  assumes "append_event env ev key s = (r, s')"
  obtains (err) e where "r = Inl e" and "s' = s"
  | (retry) d where "r = Inr d" and "s' = s"
      and "scan_lines key ev (peer_lines s (env_slug env)) = Found_retry d"
  | (appended) seq w c clock where
      "validate_event_fields ev = Inr ()" and "env_lock_ok env"
      and "scan_lines key ev (peer_lines s (env_slug env)) = Clear"
      and "tail_state (live_lines s (env_slug env)) = Inr (seq, w, c)"
      and "next_clock w c (env_now_ms env 0) = Inr clock"
      and "r = Inr (stamp_event (env_slug env) (seq + 1) clock ev)"
      and "s' = write_live (env_slug env) (live_lines s (env_slug env) @
             [Line (JObj (stamp_event (env_slug env) (seq + 1) clock ev))]) s"
  using assms
  by (auto simp: append_event_def locked_rmw_def append_mutate_def peer_lines_eq Let_def
      split: sum.splits if_splits scan.splits prod.splits)

lemma append_event_appended:
  assumes "validate_event_fields ev = Inr ()" and "env_lock_ok env"
    and "scan_lines key ev (peer_lines s (env_slug env)) = Clear"
    and "tail_state (live_lines s (env_slug env)) = Inr (seq, w, c)"
    and "next_clock w c (env_now_ms env 0) = Inr clock"
  shows "append_event env ev key s =
    (Inr (stamp_event (env_slug env) (seq + 1) clock ev),
     write_live (env_slug env) (live_lines s (env_slug env) @
       [Line (JObj (stamp_event (env_slug env) (seq + 1) clock ev))]) s)"
  using assms
  by (simp add: append_event_def locked_rmw_def append_mutate_def peer_lines_eq Let_def)

lemma append_events_cases [consumes 1, case_names none err appended]:
  assumes "append_events env evs s = (r, s')"
  obtains (none) "evs = []" and "r = Inr []" and "s' = s"
  | (err) e where "evs \<noteq> []" and "r = Inl e" and "s' = s"
  | (appended) us seq w c assigned where
      "evs \<noteq> []" and "res_map validate_event_fields evs = Inr us"
      and "batch_duplicate [] evs = None"
      and "batch_scan (map (\<lambda>e. dget e ''id'') evs) (live_lines s (env_slug env)) = Inr ()"
      and "tail_state (live_lines s (env_slug env)) = Inr (seq, w, c)"
      and "batch_stamp env 0 seq w c evs = Inr assigned"
      and "r = Inr assigned"
      and "s' = write_live (env_slug env)
             (live_lines s (env_slug env) @ map (\<lambda>e. Line (JObj e)) assigned) s"
proof (cases "evs = []")
  case True
  with assms show ?thesis by (auto simp: append_events_def intro: none)
next
  case False
  have len: "batch_stamp env k n w c es = Inr as \<Longrightarrow> length as = length es" for k n w c es as
    by (induction es arbitrary: k n w c as) (auto simp: res_bind_Inr_iff)
  from False assms show ?thesis
    by (auto simp: append_events_def locked_rmw_def append_batch_mutate_def Let_def
        split: sum.splits if_splits prod.splits option.splits dest: len
        intro: err appended) (metis err)
qed

section \<open>The append-only log as an interface\<close>

text \<open>
  What the event emitters rely on: an attempt by a writer either fails and changes nothing, or
  adds its event at the end of the writer's own log, under an identity that was not there yet.
  \<open>who\<close> names the log a call writes to.
\<close>

locale append_log =
  fixes app :: "'c \<Rightarrow> 'e \<Rightarrow> 's \<Rightarrow> ('x + 'e) \<times> 's"
    and own :: "'m \<Rightarrow> 's \<Rightarrow> 'e list"
    and who :: "'c \<Rightarrow> 'm"
    and ident :: "'e \<Rightarrow> 'i"
  assumes app_err: "app c e s = (Inl x, s') \<Longrightarrow> s' = s"
    and app_ok: "app c e s = (Inr e', s') \<Longrightarrow>
      own m s' = (if m = who c then own m s @ [e'] else own m s)"
    and app_ident: "app c e s = (Inr e', s') \<Longrightarrow> ident e' = ident e"
    and app_fresh: "app c e s = (Inr e', s') \<Longrightarrow> ident e \<notin> ident ` set (own (who c) s)"
begin

text \<open>A sequence of attempts, in the order in which they reach the lock.\<close>

primrec attempts :: "('c \<times> 'e) list \<Rightarrow> 's \<Rightarrow> 's" where
  "attempts [] s = s"
| "attempts (ce # ces) s = attempts ces (snd (app (fst ce) (snd ce) s))"

lemma app_own: "own m (snd (app c e s)) = own m s \<or>
    (\<exists>e'. m = who c \<and> own m (snd (app c e s)) = own m s @ [e'] \<and> ident e' = ident e \<and>
       ident e \<notin> ident ` set (own m s))"
proof -
  obtain r s' where r: "app c e s = (r, s')" by force
  show ?thesis
  proof (cases r)
    case (Inl x)
    with r show ?thesis using app_err by fastforce
  next
    case (Inr e')
    with r app_ok [of c e s e' s' m] app_ident app_fresh [of c e s e' s'] show ?thesis
      by (metis snd_conv)
  qed
qed

lemma attempts_prefix: "\<exists>ext. own m (attempts ces s) = own m s @ ext"
proof (induction ces arbitrary: s)
  case (Cons ce ces)
  have "\<exists>ext. own m (snd (app (fst ce) (snd ce) s)) = own m s @ ext"
    using app_own [of m "fst ce" "snd ce" s] by auto
  then show ?case using Cons.IH [of "snd (app (fst ce) (snd ce) s)"] by auto
qed auto

lemma app_distinct:
  "distinct (map ident (own m s)) \<Longrightarrow> distinct (map ident (own m (snd (app c e s))))"
  using app_own [of m c e s] by auto

lemma attempts_distinct:
  "distinct (map ident (own m s)) \<Longrightarrow> distinct (map ident (own m (attempts ces s)))"
  by (induction ces arbitrary: s) (auto intro: app_distinct)

lemma attempts_at_most_once:
  assumes "distinct (map ident (own m s))"
  shows "length (filter (\<lambda>e. ident e = i) (own m (attempts ces s))) \<le> 1"
proof -
  have d: "distinct (map ident (own m (attempts ces s)))"
    using assms by (rule attempts_distinct)
  have "length (filter (\<lambda>e. ident e = i) xs) \<le> 1" if "distinct (map ident xs)" for xs
    using that by (induction xs) (auto simp: filter_empty_conv image_iff)
  with d show ?thesis by blast
qed

lemma app_again_fails:
  assumes "app c e s = (Inr e', s')" and "who c' = who c" and "ident e2 = ident e"
  shows "\<exists>x. app c' e2 s' = (Inl x, s')"
proof -
  obtain r t where r: "app c' e2 s' = (r, t)" by force
  show ?thesis
  proof (cases r)
    case (Inl x)
    with r app_err show ?thesis by fastforce
  next
    case (Inr e3)
    with r have "ident e2 \<notin> ident ` set (own (who c') s')" using app_fresh by fastforce
    moreover have "own (who c) s' = own (who c) s @ [e']" using app_ok [OF assms(1)] by simp
    ultimately show ?thesis using assms app_ident [OF assms(1)] by simp
  qed
qed

end

text \<open>The own records of a machine: its rotated partitions, then its live shard.\<close>

definition own_records :: "string \<Rightarrow> store \<Rightarrow> dict list" where
  "own_records m s = obj_records (peer_lines s m)"

definition event_id :: "dict \<Rightarrow> json" where
  "event_id e = dget e ''id''"

interpretation shard_log:
  append_log "\<lambda>env e. append_event env e None" own_records env_slug event_id
proof (unfold_locales, goal_cases)
  case (1 c e s x s')
  then show ?case by (cases rule: append_event_cases) auto
next
  case (2 c e s e' s' m)
  then show ?case
  proof (cases rule: append_event_cases)
    case (retry d)
    then show ?thesis using scan_lines_no_key by (metis scan.distinct(3) scan.distinct(7))
  qed (auto simp: own_records_def peer_lines_eq)
next
  case (3 c e s e' s')
  then show ?case
  proof (cases rule: append_event_cases)
    case (retry d)
    then show ?thesis using scan_lines_no_key by (metis scan.distinct(3) scan.distinct(7))
  qed (auto simp: event_id_def)
next
  case (4 c e s e' s')
  then show ?case
  proof (cases rule: append_event_cases)
    case (retry d)
    then show ?thesis using scan_lines_no_key by (metis scan.distinct(3) scan.distinct(7))
  qed (auto simp: event_id_def own_records_def scan_lines_Clear_iff)
qed

end
