(* ===== verification/Tracker_Shards.thy ===== *)
theory Tracker_Shards
  imports Tracker_Store
begin

text \<open>
  Correctness of the event store: the invariants of a shard (contiguous sequence numbers,
  strictly increasing logical clocks, unique ids) and their preservation by \<open>append_event\<close> and
  \<open>append_events\<close>; atomicity of a batch; the idempotency-key contract; the ordering contract of
  \<open>read_events\<close> and its independence of the shard layout; and rotation, with the two places
  where rotation breaks what the rest of the store promises.
\<close>

section \<open>Shard invariants\<close>

fun line_seq :: "line \<Rightarrow> int option" where
  "line_seq (Line (JObj d)) = as_int (dget d ''sequence'')"
| "line_seq _ = None"

text \<open>Sequence numbers 1, 2, ..., n in file order.\<close>

definition well_sequenced :: "line list \<Rightarrow> bool" where
  "well_sequenced ls = (map line_seq ls = map (\<lambda>i. Some (int i + 1)) [0..<length ls])"

fun clock_of :: "json \<Rightarrow> (int \<times> int) option" where
  "clock_of (JObj c) =
     (case (as_int (dget c ''wall_ms''), as_int (dget c ''counter'')) of
        (Some w, Some k) \<Rightarrow> Some (w, k) | _ \<Rightarrow> None)"
| "clock_of _ = None"

fun line_clock :: "line \<Rightarrow> (int \<times> int) option" where
  "line_clock (Line (JObj d)) = clock_of (dget d ''logical_clock'')"
| "line_clock _ = None"

text \<open>Logical clocks present on every line and strictly increasing in file order.\<close>

definition clocks_increasing :: "line list \<Rightarrow> bool" where
  "clocks_increasing ls =
     (list_all (\<lambda>l. line_clock l \<noteq> None) ls \<and> sorted_wrt (<) (map (the \<circ> line_clock) ls))"

lemma clock_of_clock_obj [simp]: "clock_of (clock_obj wc) = Some wc"
  by (cases wc) (simp add: clock_obj_def dget_def)

lemma line_seq_stamp [simp]: "line_seq (Line (JObj (stamp_event m n c e))) = Some n"
  by simp

lemma line_clock_stamp [simp]: "line_clock (Line (JObj (stamp_event m n c e))) = Some c"
  by simp

lemma well_sequenced_snoc:
  "well_sequenced (ls @ [l]) \<longleftrightarrow> well_sequenced ls \<and> line_seq l = Some (int (length ls) + 1)"
  by (auto simp: well_sequenced_def)

lemma tail_state_well_sequenced:
  assumes "well_sequenced ls" and "tail_state ls = Inr (seq, w, c)"
  shows "seq = int (length ls)"
proof (cases ls rule: rev_cases)
  case Nil
  with assms(2) show ?thesis by (simp add: tail_state_def)
next
  case (snoc ys y)
  with assms(1) have y: "line_seq y = Some (int (length ys) + 1)" by (simp add: well_sequenced_snoc)
  then obtain d where d: "y = Line (JObj d)"
    by (cases y rule: line_seq.cases) auto
  with y have seq: "as_int (dget d ''sequence'') = Some (int (length ys) + 1)" by simp
  then have "has_key d ''sequence''" by (intro has_key_if_dget) auto
  with seq d snoc assms(2) show ?thesis
    by (auto simp: tail_state_def Let_def dget_or_has_key split: json.splits)
qed

lemma next_clock_gt:
  "next_clock w c now = Inr wc \<Longrightarrow> as_int w = Some i \<Longrightarrow> as_int c = Some j \<Longrightarrow> (i, j) < wc"
  by (auto simp: next_clock_def Let_def split: if_splits)

lemma tail_state_clock:
  assumes "tail_state ls = Inr (seq, w, c)" and "ls \<noteq> []" and "line_clock (last ls) = Some (i, j)"
  shows "as_int w = Some i \<and> as_int c = Some j"
proof -
  obtain d where d: "last ls = Line (JObj d)"
    using assms(3) by (cases "last ls" rule: line_clock.cases) auto
  with assms(3) obtain k where k: "dget d ''logical_clock'' = JObj k"
      "as_int (dget k ''wall_ms'') = Some i" "as_int (dget k ''counter'') = Some j"
    by (cases "dget d ''logical_clock''") (auto split: option.splits)
  then have "has_key k ''wall_ms''" "has_key k ''counter''"
    by (auto intro: has_key_if_dget)
  with assms(1,2) d k show ?thesis by (auto simp: tail_state_def Let_def dget_or_has_key)
qed

lemma clocks_increasing_snoc:
  assumes "clocks_increasing ls" and "line_clock l = Some wc"
    and "ls \<noteq> [] \<Longrightarrow> the (line_clock (last ls)) < wc"
  shows "clocks_increasing (ls @ [l])"
proof (cases ls rule: rev_cases)
  case Nil
  with assms show ?thesis by (simp add: clocks_increasing_def)
next
  case (snoc ys y)
  with assms have "the (line_clock y) < wc" by simp
  with assms(1,2) snoc show ?thesis
    by (fastforce simp: clocks_increasing_def sorted_wrt_append intro: less_trans)
qed

lemma clocks_increasing_append1:
  assumes "clocks_increasing ls" and "tail_state ls = Inr (seq, w, c)"
    and "next_clock w c now = Inr clock"
  shows "clocks_increasing (ls @ [Line (JObj (stamp_event m n clock e))])"
proof (rule clocks_increasing_snoc [OF assms(1)])
  assume ne: "ls \<noteq> []"
  with assms(1) obtain i j where ij: "line_clock (last ls) = Some (i, j)"
    using last_in_set [OF ne] by (force simp: clocks_increasing_def list_all_iff)
  from tail_state_clock [OF assms(2) ne ij] next_clock_gt [OF assms(3)]
  show "the (line_clock (last ls)) < clock" using ij by simp
qed simp

section \<open>Batches\<close>

lemma batch_stamp_length: "batch_stamp env k n w c evs = Inr as \<Longrightarrow> length as = length evs"
  by (induction evs arbitrary: k n w c as) (auto simp: res_bind_Inr_iff)

lemma batch_stamp_nth:
  assumes "batch_stamp env k n w c evs = Inr as" and "i < length evs"
  shows "\<exists>clock. as ! i = stamp_event (env_slug env) (n + int i + 1) clock (evs ! i)"
  using assms
proof (induction evs arbitrary: k n w c as i)
  case (Cons e es)
  then show ?case by (cases i) (fastforce simp: res_bind_Inr_iff algebra_simps)+
qed simp

lemma tail_state_snoc_stamp:
  "tail_state (ls @ [Line (JObj (stamp_event m n clock e))]) =
     Inr (n, JInt (fst clock), JInt (snd clock))"
  by (cases clock) (simp add: tail_state_def clock_obj_def)

text \<open>
  A batch is a chain of single appends: any shard property that one stamped line keeps is kept
  by the whole batch.
\<close>

lemma batch_stamp_invariant:
  assumes "batch_stamp env k n w c evs = Inr as" and "tail_state ls = Inr (n, w, c)" and "P ls"
    and "list_all (\<lambda>e. validate_event_fields e = Inr ()) evs"
    and step: "\<And>ls seq w c clock now e. P ls \<Longrightarrow> tail_state ls = Inr (seq, w, c) \<Longrightarrow>
      next_clock w c now = Inr clock \<Longrightarrow> validate_event_fields e = Inr () \<Longrightarrow>
      P (ls @ [Line (JObj (stamp_event (env_slug env) (seq + 1) clock e))])"
  shows "P (ls @ map (\<lambda>e. Line (JObj e)) as)"
  using assms(1-4)
proof (induction evs arbitrary: k n w c as ls)
  case (Cons e es)
  then obtain clock rest where
      clock: "next_clock w c (env_now_ms env k) = Inr clock"
    and rest: "batch_stamp env (Suc k) (n + 1) (JInt (fst clock)) (JInt (snd clock)) es = Inr rest"
    and as: "as = stamp_event (env_slug env) (n + 1) clock e # rest"
    by (auto simp: res_bind_Inr_iff)
  let ?l = "Line (JObj (stamp_event (env_slug env) (n + 1) clock e))"
  have "P (ls @ [?l])" using step Cons.prems clock by simp
  then have "P ((ls @ [?l]) @ map (\<lambda>e. Line (JObj e)) rest)"
    by (rule Cons.IH [OF rest tail_state_snoc_stamp]) (use Cons.prems(4) in simp)
  then show ?case by (simp add: as)
qed simp

text \<open>What both ways of appending keep, stated once for a property of the own shard.\<close>

lemma appends_invariant:
  assumes "P (live_lines s m)"
    and step: "\<And>ls seq w c clock now e. P ls \<Longrightarrow> tail_state ls = Inr (seq, w, c) \<Longrightarrow>
      next_clock w c now = Inr clock \<Longrightarrow> validate_event_fields e = Inr () \<Longrightarrow>
      P (ls @ [Line (JObj (stamp_event (env_slug env) (seq + 1) clock e))])"
  shows "P (live_lines (snd (append_event env ev key s)) m)"
    and "P (live_lines (snd (append_events env evs s)) m)"
proof -
  obtain r s' where a: "append_event env ev key s = (r, s')" by force
  then have "P (live_lines s' m)" using assms by (cases rule: append_event_cases) auto
  with a show "P (live_lines (snd (append_event env ev key s)) m)" by simp
  obtain r s' where b: "append_events env evs s = (r, s')" by force
  then have "P (live_lines s' m)"
  proof (cases rule: append_events_cases)
    case (appended us seq w c assigned)
    have "list_all (\<lambda>e. validate_event_fields e = Inr ()) evs"
      using appended(2) by (auto simp: res_map_Inr_iff list_all2_conv_all_nth list_all_length)
    with appended(8) show ?thesis
      using assms(1) step batch_stamp_invariant [where P = P, OF appended(6,5)] by auto
  qed (use assms(1) in auto)
  with b show "P (live_lines (snd (append_events env evs s)) m)" by simp
qed

lemma well_sequenced_step:
  "well_sequenced ls \<Longrightarrow> tail_state ls = Inr (seq, w, c) \<Longrightarrow>
     well_sequenced (ls @ [Line (JObj (stamp_event m (seq + 1) clock e))])"
  by (simp add: well_sequenced_snoc tail_state_well_sequenced)

section \<open>What a reader sees\<close>

lemma res_map_parse: "res_map parse_record ls = Inr rs \<longleftrightarrow> ls = map (\<lambda>d. Line (JObj d)) rs"
proof -
  have one: "parse_record l = Inr d \<longleftrightarrow> l = Line (JObj d)" for l d
    by (cases l) (auto split: json.splits)
  show ?thesis
    by (simp add: res_map_Inr_iff one list_all2_conv_all_nth list_eq_iff_nth_eq) auto
qed

text \<open>The multiset of lines a repository holds, over all shard files.\<close>

definition store_lines :: "store \<Rightarrow> line multiset" where
  "store_lines s = mset (concat (map snd (live s))) + mset (concat (map snd (rotated s)))"

definition store_wf :: "store \<Rightarrow> bool" where
  "store_wf s = (distinct (map fst (live s)) \<and> distinct (map fst (rotated s)) \<and>
     (\<not> dir_exists s \<longrightarrow> live s = [] \<and> rotated s = []))"

lemma mset_concat_sorted:
  "mset (concat (map snd (sort_key f xs))) = mset (concat (map snd xs))"
proof -
  have "sum_list (map mset (map snd (sort_key f xs))) =
      sum_mset (image_mset (mset \<circ> snd) (mset (sort_key f xs)))"
    by (simp add: comp_def flip: sum_mset_sum_list)
  also have "\<dots> = sum_list (map mset (map snd xs))"
    by (simp add: comp_def flip: sum_mset_sum_list)
  finally show ?thesis by (simp add: concat_map_mset)
qed

lemma mset_glob_shards: "mset (concat (glob_shards s)) = store_lines s"
  by (simp add: glob_shards_def store_lines_def mset_concat_sorted)

lemma mset_concat_update:
  "distinct (map fst al) \<Longrightarrow>
     mset (concat (map snd (AList.update k v al))) +
       mset (case map_of al k of None \<Rightarrow> [] | Some x \<Rightarrow> x) =
     mset (concat (map snd al)) + mset v"
proof (induction al)
  case (Cons p al)
  show ?case
  proof (cases "fst p = k")
    case True
    with Cons.prems have "map_of al k = None" by (auto simp: map_of_eq_None_iff)
    with True show ?thesis by (cases p) simp
  next
    case False
    with Cons show ?thesis by (cases p) (auto simp: ac_simps)
  qed
qed simp

lemma store_lines_write_live:
  "store_wf s \<Longrightarrow> store_lines (write_live m ls s) + mset (live_lines s m) =
     store_lines s + mset ls"
  using mset_concat_update [of "live s" m ls]
  by (simp add: store_lines_def write_live_def store_wf_def live_lines_def ac_simps)

lemma store_lines_write_rotated:
  "store_wf s \<Longrightarrow> store_lines (write_rotated month m ls s) + mset (rotated_lines s month m) =
     store_lines s + mset ls"
  using mset_concat_update [of "rotated s" "(month, m)" ls]
  by (simp add: store_lines_def write_rotated_def store_wf_def rotated_lines_def ac_simps)

lemma store_wf_writes [simp]:
  "store_wf s \<Longrightarrow> store_wf (write_live m ls s)"
  "store_wf s \<Longrightarrow> store_wf (write_rotated month m ls s)"
  by (auto simp: store_wf_def write_live_def write_rotated_def distinct_update)

abbreviation sort_id :: "dict \<Rightarrow> (nat \<times> int \<times> string) list" where
  "sort_id e \<equiv> map order_key (event_key e)"

lemma read_events_Inr:
  assumes "read_events s = Inr evs" and "dir_exists s"
  obtains rs where "concat (glob_shards s) = map (\<lambda>d. Line (JObj d)) rs"
    and "all_orderable event_key (filter is_applied rs)"
    and "evs = sort_key sort_id (filter is_applied rs)"
  using assms
  by (auto simp: read_events_def res_bind_Inr_iff res_map_parse py_sort_by_def split: if_splits)

text \<open>Ids of applied events are strings and name one event.\<close>

definition ids_name_events :: "dict list \<Rightarrow> bool" where
  "ids_name_events evs =
     (\<forall>a \<in> set evs. as_str (event_id a) \<noteq> None \<and> (\<forall>b \<in> set evs. event_id a = event_id b \<longrightarrow> a = b))"

lemma inj_on_sort_id: "ids_name_events evs \<Longrightarrow> inj_on sort_id (set evs)"
proof (rule inj_onI)
  fix a b assume ids: "ids_name_events evs" and ab: "a \<in> set evs" "b \<in> set evs"
    and "sort_id a = sort_id b"
  then have "order_key (event_id a) = order_key (event_id b)"
    by (simp add: event_id_def event_key_def)
  then have "event_id a = event_id b"
    using ids ab by (intro order_key_inj_str) (simp_all add: ids_name_events_def)
  then show "a = b" using ids ab by (simp add: ids_name_events_def)
qed

lemma lines_of_records:
  assumes "mset ls = image_mset (\<lambda>d. Line (JObj d)) (mset rs)"
  obtains rs' where "ls = map (\<lambda>d. Line (JObj d)) rs'" and "mset rs' = mset rs"
proof -
  have "\<forall>l \<in> set ls. \<exists>d. l = Line (JObj d)"
  proof
    fix l assume "l \<in> set ls"
    then have "l \<in># image_mset (\<lambda>d. Line (JObj d)) (mset rs)"
      by (simp only: assms [symmetric] set_mset_mset)
    then show "\<exists>d. l = Line (JObj d)" by auto
  qed
  then obtain rs' where rs': "ls = map (\<lambda>d. Line (JObj d)) rs'"
    by (metis ex_map_conv)
  have "image_mset the (image_mset (\<lambda>l. case l of Line (JObj d) \<Rightarrow> Some d | _ \<Rightarrow> None) (mset ls)) = mset rs"
    by (simp add: assms multiset.map_comp comp_def)
  with rs' have "mset rs' = mset rs" by (simp add: multiset.map_comp comp_def)
  with rs' show ?thesis by (rule that)
qed

lemma read_events_store_lines:
  assumes "read_events s = Inr evs" and "dir_exists s" and "dir_exists t"
    and "store_lines s = store_lines t" and "ids_name_events evs"
  shows "read_events t = Inr evs"
proof -
  obtain rs where rs: "concat (glob_shards s) = map (\<lambda>d. Line (JObj d)) rs"
    and ord: "all_orderable event_key (filter is_applied rs)"
    and evs: "evs = sort_key sort_id (filter is_applied rs)"
    using assms(1,2) by (rule read_events_Inr)
  have m: "mset (concat (glob_shards t)) = image_mset (\<lambda>d. Line (JObj d)) (mset rs)"
    using assms(4) rs by (metis mset_glob_shards mset_map)
  then obtain rs' where rs': "concat (glob_shards t) = map (\<lambda>d. Line (JObj d)) rs'"
    and perm: "mset rs' = mset rs" by (rule lines_of_records)
  have fl: "mset (filter is_applied rs') = mset (filter is_applied rs)"
    using perm by (simp add: mset_filter)
  have "sort_key sort_id (filter is_applied rs) = sort_key sort_id (filter is_applied rs')"
    using fl inj_on_sort_id [OF assms(5)] evs by (intro sort_key_mset_eq) auto
  moreover have "all_orderable event_key (filter is_applied rs')"
    using ord fl all_orderable_mset mset_eq_setD by metis
  ultimately show ?thesis
    using assms(3) rs' evs by (simp add: read_events_def res_map_parse [THEN iffD2] py_sort_by_def)
qed

section \<open>Any interleaving of appends\<close>

text \<open>
  One step of the store: some machine appends an event or a batch, successfully or not. The
  host-local lock makes each of them one step.
\<close>

inductive store_step :: "store \<Rightarrow> store \<Rightarrow> bool" where
  one: "append_event env ev key s = (r, s') \<Longrightarrow> store_step s s'"
| batch: "append_events env evs s = (r, s') \<Longrightarrow> store_step s s'"

definition empty_store :: store where
  "empty_store = \<lparr>dir_exists = False, live = [], rotated = []\<rparr>"

definition shard_ok :: "line list \<Rightarrow> bool" where
  "shard_ok ls = (well_sequenced ls \<and> clocks_increasing ls)"

lemma store_step_live:
  assumes "store_step s s'" and "P (live_lines s m)"
    and step: "\<And>ls seq w c clock now e machine. P ls \<Longrightarrow> tail_state ls = Inr (seq, w, c) \<Longrightarrow>
      next_clock w c now = Inr clock \<Longrightarrow> validate_event_fields e = Inr () \<Longrightarrow>
      P (ls @ [Line (JObj (stamp_event machine (seq + 1) clock e))])"
  shows "P (live_lines s' m)"
  using assms(1)
proof cases
  case (one env ev key r)
  then show ?thesis using appends_invariant(1) [where P = P and s = s and m = m] assms(2) step
    by (metis snd_conv)
next
  case (batch env evs r)
  then show ?thesis using appends_invariant(2) [where P = P and s = s and m = m] assms(2) step
    by (metis snd_conv)
qed

lemma shard_ok_step:
  "shard_ok ls \<Longrightarrow> tail_state ls = Inr (seq, w, c) \<Longrightarrow> next_clock w c now = Inr clock \<Longrightarrow>
     shard_ok (ls @ [Line (JObj (stamp_event m (seq + 1) clock e))])"
  by (simp add: shard_ok_def well_sequenced_step clocks_increasing_append1)

lemma shard_ok_steps: "store_step\<^sup>*\<^sup>* s t \<Longrightarrow> shard_ok (live_lines s m) \<Longrightarrow> shard_ok (live_lines t m)"
  by (induction rule: rtranclp_induct) (auto intro: store_step_live shard_ok_step)

lemma store_step_prefix: "store_step s t \<Longrightarrow> prefix (live_lines s m) (live_lines t m)"
  by (rule store_step_live [where P = "prefix (live_lines s m)"])
    (auto intro: prefix_order.trans)

lemma store_steps_prefix: "store_step\<^sup>*\<^sup>* s t \<Longrightarrow> prefix (live_lines s m) (live_lines t m)"
  by (induction rule: rtranclp_induct) (auto intro: store_step_prefix prefix_order.trans)

lemma store_step_rotated: "store_step s t \<Longrightarrow> rotated t = rotated s"
  by (erule store_step.cases)
    (auto elim!: append_event_cases append_events_cases)

lemma store_steps_rotated: "store_step\<^sup>*\<^sup>* s t \<Longrightarrow> rotated t = rotated s"
  by (induction rule: rtranclp_induct) (auto dest: store_step_rotated)

lemma shard_ok_Nil [simp]: "shard_ok []"
  by (simp add: shard_ok_def well_sequenced_def clocks_increasing_def)

lemma live_lines_empty [simp]: "live_lines empty_store m = []" "rotated empty_store = []"
  by (simp_all add: empty_store_def live_lines_def)

lemma shard_ok_tail:
  assumes "shard_ok ls"
  obtains w c where "tail_state ls = Inr (int (length ls), w, c)"
    and "as_int w \<noteq> None" and "as_int c \<noteq> None"
proof (cases ls rule: rev_cases)
  case Nil
  then show ?thesis using that by (simp add: tail_state_def)
next
  case (snoc ys y)
  with assms obtain i j where clock: "line_clock (last ls) = Some (i, j)"
    by (force simp: shard_ok_def clocks_increasing_def list_all_iff)
  then obtain d where "last ls = Line (JObj d)" by (cases "last ls" rule: line_clock.cases) auto
  then obtain n w c where t: "tail_state ls = Inr (n, w, c)"
    using snoc by (cases "dget d ''logical_clock''") (auto simp: tail_state_def Let_def)
  moreover have "n = int (length ls)"
    using t assms by (simp add: shard_ok_def tail_state_well_sequenced)
  ultimately show ?thesis using that tail_state_clock [OF t _ clock] snoc by auto
qed

lemma next_clock_defined:
  "as_int w \<noteq> None \<Longrightarrow> as_int c \<noteq> None \<Longrightarrow> \<exists>clock. next_clock w c now = Inr clock"
  by (auto simp: next_clock_def Let_def)

section \<open>When a batch is accepted\<close>

lemma batch_stamp_defined:
  "as_int w \<noteq> None \<Longrightarrow> as_int c \<noteq> None \<Longrightarrow> \<exists>as. batch_stamp env k n w c evs = Inr as"
proof (induction evs arbitrary: k n w c)
  case (Cons e es)
  obtain clock where clock: "next_clock w c (env_now_ms env k) = Inr clock"
    using next_clock_defined Cons.prems by blast
  obtain rest where "batch_stamp env (Suc k) (n + 1) (JInt (fst clock)) (JInt (snd clock)) es = Inr rest"
    using Cons.IH [of "JInt (fst clock)" "JInt (snd clock)"] by auto
  with clock show ?case by simp
qed simp

lemma batch_duplicate_None:
  "batch_duplicate seen evs = None \<longleftrightarrow>
     distinct (map event_id evs) \<and> set (map event_id evs) \<inter> set seen = {}"
  by (induction seen evs rule: batch_duplicate.induct) (auto simp: event_id_def)

lemma batch_scan_Inr:
  "batch_scan ids ls = Inr () \<longleftrightarrow>
     (\<forall>d \<in> set (obj_records ls). hashable (event_id d) \<and> event_id d \<notin> set ids)"
  by (induction ids ls rule: batch_scan.induct) (auto split: json.splits simp: event_id_def)

section \<open>Properties of appending\<close>

text \<open>C1. On a healthy shard an append succeeds exactly when the id is new to the machine's whole
  history, rotated partitions included: the stored event is the caller's, stamped with the next
  contiguous sequence number and a logical clock above every clock of the shard. A known id raises
  the duplicate error and leaves the store as it was.\<close>

theorem append_event_spec:
  assumes "validate_event_fields ev = Inr ()" and "env_lock_ok env"
    and "shard_ok (live_lines s (env_slug env))"
  shows "if event_id ev \<in> event_id ` set (own_records (env_slug env) s)
    then append_event env ev None s = (Inl (DuplicateIdError (event_id ev)), s)
    else (\<exists>clock. let new = stamp_event (env_slug env)
              (int (length (live_lines s (env_slug env))) + 1) clock ev;
            lines = live_lines s (env_slug env) @ [Line (JObj new)]
          in append_event env ev None s = (Inr new, write_live (env_slug env) lines s) \<and>
             shard_ok lines)"
proof (cases "event_id ev \<in> event_id ` set (own_records (env_slug env) s)")
  case True
  then have "scan_lines None ev (peer_lines s (env_slug env)) \<noteq> Clear"
    by (auto simp: scan_lines_Clear_iff event_id_def own_records_def)
  then have "scan_lines None ev (peer_lines s (env_slug env)) = Found_dup"
    using scan_lines_no_key by blast
  with True assms show ?thesis
    by (simp add: append_event_def locked_rmw_def append_mutate_def peer_lines_eq event_id_def Let_def)
next
  case False
  then have clear: "scan_lines None ev (peer_lines s (env_slug env)) = Clear"
    by (auto simp: scan_lines_Clear_iff event_id_def own_records_def image_iff)
  obtain w c where tail: "tail_state (live_lines s (env_slug env)) =
      Inr (int (length (live_lines s (env_slug env))), w, c)"
    and wc: "as_int w \<noteq> None" "as_int c \<noteq> None"
    using assms(3) by (rule shard_ok_tail)
  obtain clock where clock: "next_clock w c (env_now_ms env 0) = Inr clock"
    using next_clock_defined [OF wc] by blast
  show ?thesis
    using append_event_appended [OF assms(1,2) clear tail clock]
      shard_ok_step [OF assms(3) tail clock] unfolding if_not_P [OF False] Let_def by blast
qed

text \<open>C2. Whatever machines append, one event or a batch at a time, in whatever order, with whatever
  clocks: from the empty store every shard stays contiguous from sequence 1 and strictly
  increasing in its logical clock.\<close>

theorem appends_keep_shards_ok: "store_step\<^sup>*\<^sup>* empty_store t \<Longrightarrow> shard_ok (live_lines t m)"
  using shard_ok_steps [of empty_store t m] by simp

text \<open>The store is append-only: over any run of appends a machine's shard only grows at its end,
  its rotated partitions stay as they were, and a call that raises changes nothing.\<close>

theorem store_append_only:
  assumes "store_step\<^sup>*\<^sup>* s t"
  shows "prefix (live_lines s m) (live_lines t m) \<and> rotated t = rotated s \<and>
    (\<forall>env ev key evs x. (fst (append_event env ev key t) = Inl x \<longrightarrow> snd (append_event env ev key t) = t) \<and>
      (fst (append_events env evs t) = Inl x \<longrightarrow> snd (append_events env evs t) = t))"
proof (intro conjI allI impI)
  show "prefix (live_lines s m) (live_lines t m)" using assms by (rule store_steps_prefix)
  show "rotated t = rotated s" using assms by (rule store_steps_rotated)
  fix env ev key evs x
  assume "fst (append_event env ev key t) = Inl x"
  then show "snd (append_event env ev key t) = t"
    by (cases "append_event env ev key t" rule: prod.exhaust) (auto elim: append_event_cases)
next
  fix env :: "env" and evs x
  assume "fst (append_events env evs t) = Inl x"
  then show "snd (append_events env evs t) = t"
    by (cases "append_events env evs t" rule: prod.exhaust) (auto elim: append_events_cases)
qed

text \<open>However many attempts any machines make in any order, a machine's history never holds
  two events under one id.\<close>

theorem appended_ids_unique:
  assumes "distinct (map event_id (own_records m s))"
  shows "distinct (map event_id (own_records m (shard_log.attempts ces s)))"
  using assms by (rule shard_log.attempts_distinct)

lemma scan_lines_Clear_fresh:
  assumes "scan_lines key ev ls = Clear"
  shows "event_id ev \<notin> event_id ` set (obj_records ls)"
proof
  assume "event_id ev \<in> event_id ` set (obj_records ls)"
  then obtain d where "d \<in> set (obj_records ls)" "event_id ev = event_id d" by blast
  with assms scan_lines_cases show False by (fastforce simp: event_id_def)
qed

lemma event_id_stamp [simp]: "event_id (stamp_event m n c e) = event_id e"
  by (simp add: event_id_def)

lemma single_ids_step:
  assumes "append_event env ev key s = (r, s')" and "distinct (map event_id (own_records m s))"
  shows "distinct (map event_id (own_records m s'))"
  using assms(1)
proof (cases rule: append_event_cases)
  case (appended seq w c clock)
  then show ?thesis
    using assms(2) scan_lines_Clear_fresh [OF appended(3)]
    by (auto simp: own_records_def peer_lines_eq)
qed (use assms(2) in auto)

lemma batch_ids_step:
  assumes "append_events env evs s = (r, s')" and "rotated_history s m = []"
    and "distinct (map event_id (own_records m s))"
  shows "distinct (map event_id (own_records m s'))"
  using assms(1)
proof (cases rule: append_events_cases)
  case (appended us seq w c assigned)
  have ids: "map event_id assigned = map event_id evs"
    using batch_stamp_nth [OF appended(6)] batch_stamp_length [OF appended(6)]
    by (intro nth_equalityI) (fastforce simp: event_id_def)+
  have new: "distinct (map event_id evs)" using appended(3) by (simp add: batch_duplicate_None)
  have "event_id ` set evs \<inter> event_id ` set (obj_records (live_lines s (env_slug env))) = {}"
    using appended(4) unfolding batch_scan_Inr disjoint_iff
    by (auto simp: event_id_def [abs_def]) (metis image_eqI)
  moreover have "event_id ` set assigned = event_id ` set evs" using ids by (metis set_map)
  ultimately show ?thesis
    using assms(2,3) ids new appended(8) by (auto simp: own_records_def peer_lines_eq)
qed (use assms(3) in auto)

lemma rotated_history_cong: "rotated t = rotated s \<Longrightarrow> rotated_history t = rotated_history s"
  by (simp add: fun_eq_iff rotated_history_def rotated_shards_def)

text \<open>Batches keep ids unique too as long as the machine has not rotated: over any mix of
  single and batch appends by any machines, the ids of the machine's shard stay distinct.\<close>

theorem unrotated_ids_unique:
  assumes "store_step\<^sup>*\<^sup>* s t" and "rotated_history s m = []"
    and "distinct (map event_id (own_records m s))"
  shows "distinct (map event_id (own_records m t))"
  using assms
proof (induction rule: rtranclp_induct)
  case (step t u)
  then have d: "distinct (map event_id (own_records m t))" by blast
  have rot: "rotated_history t m = []"
    using step.hyps(1) step.prems(1) rotated_history_cong store_steps_rotated by metis
  from step.hyps(2) show ?case
  proof cases
    case (one env ev key r)
    then show ?thesis using d by (rule single_ids_step)
  next
    case (batch env evs r)
    then show ?thesis using rot d by (rule batch_ids_step)
  qed
qed simp

subsection \<open>Idempotency keys\<close>

lemma scan_lines_append:
  "scan_lines key ev (xs @ ys) =
     (case scan_lines key ev xs of Clear \<Rightarrow> scan_lines key ev ys | outcome \<Rightarrow> outcome)"
  by (induction key ev xs rule: scan_lines.induct) (auto split: json.splits scan.splits)

text \<open>Two events under one key are clear of the same records when none of them has that key.\<close>

lemma check_key_collision_Clear:
  "check_key_collision (Some k) ev d = Clear \<longleftrightarrow> dget d ''idempotency_key'' \<noteq> JStr k"
  by simp

lemma run_extends_peer_lines:
  assumes "store_step\<^sup>*\<^sup>* s t"
  obtains ys where "peer_lines t m = peer_lines s m @ ys"
proof -
  obtain ys where "live_lines t m = live_lines s m @ ys"
    using store_steps_prefix [OF assms, of m] by (auto simp: prefix_def)
  moreover have "rotated_history t m = rotated_history s m"
    using rotated_history_cong [OF store_steps_rotated [OF assms]] by simp
  ultimately show ?thesis using that by (simp add: peer_lines_eq)
qed

text \<open>C3. The idempotency-key contract. Once an event was stored under a key, a well-formed append on the same
  machine, with the lock free, with the same key and a new id, that comes any time later, after whatever any
  machines appended in between, appends nothing: with the same payload it returns the stored event, with another
  payload it raises the misuse error naming the stored event's id.\<close>

theorem idempotency_key_contract:
  assumes "append_event env ev (Some k) s = (Inr stored, s')" and "s' \<noteq> s"
    and "dget ev ''idempotency_key'' = JStr k" and "store_step\<^sup>*\<^sup>* s' t"
    and "env_slug env' = env_slug env" and "env_lock_ok env'"
    and "validate_event_fields ev' = Inr ()"
    and "event_id ev' \<notin> event_id ` set (own_records (env_slug env) t)"
  shows "append_event env' ev' (Some k) t =
    (if py_eq (JObj (stable_payload ev)) (JObj (stable_payload ev')) then Inr stored
     else Inl (KeyMisuseError (event_id ev)), t)"
  using assms(1)
proof (cases rule: append_event_cases)
  case (appended seq w c clock)
  let ?m = "env_slug env"
  obtain ys where "peer_lines t ?m = peer_lines s' ?m @ ys" using assms(4) by (rule run_extends_peer_lines)
  moreover have "peer_lines s' ?m = peer_lines s ?m @ [Line (JObj stored)]"
    using appended by (simp add: peer_lines_eq)
  ultimately have new: "peer_lines t ?m = (peer_lines s ?m @ [Line (JObj stored)]) @ ys" by simp
  have st: "stored = stamp_event ?m (seq + 1) clock ev" using appended by simp
  have "scan_lines (Some k) ev' (peer_lines s ?m) = Clear"
    unfolding scan_lines_Clear_iff check_key_collision_Clear
  proof (intro ballI conjI)
    fix d assume d: "d \<in> set (obj_records (peer_lines s ?m))"
    then show "dget d ''idempotency_key'' \<noteq> JStr k"
      using scan_lines_cases [OF appended(3)] check_key_collision_Clear by blast
    show "dget d ''id'' \<noteq> dget ev' ''id''"
    proof
      assume "dget d ''id'' = dget ev' ''id''"
      then have "event_id ev' = event_id d" by (simp add: event_id_def)
      moreover have "d \<in> set (own_records ?m t)" using d by (simp add: own_records_def new)
      ultimately show False using assms(8) by simp
    qed
  qed
  moreover have "dget stored ''id'' \<noteq> dget ev' ''id''"
    using assms(8) new by (auto simp: own_records_def event_id_def image_iff)
  moreover have "dget stored ''idempotency_key'' = JStr k"
    using assms(3) by (simp add: st dget_stamp_event)
  ultimately have "scan_lines (Some k) ev' (peer_lines t ?m) =
      (if py_eq (JObj (stable_payload ev)) (JObj (stable_payload ev')) then Found_retry stored
       else Found_misuse (event_id ev))"
    unfolding new by (simp add: scan_lines_append) (simp add: st event_id_def)
  then show ?thesis
    using assms(5-7) by (simp add: append_event_def locked_rmw_def append_mutate_def peer_lines_eq)
qed (use assms(2) in auto)

subsection \<open>Batches\<close>

text \<open>What a healthy shard does with a batch of valid events.\<close>

lemma append_valid_batch:
  assumes "evs \<noteq> []" and "env_lock_ok env" and "shard_ok (live_lines s (env_slug env))"
    and "list_all (\<lambda>e. validate_event_fields e = Inr ()) evs"
    and "\<forall>d \<in> set (obj_records (live_lines s (env_slug env))). hashable (event_id d)"
  shows "if distinct (map event_id evs) \<and>
        set (map event_id evs) \<inter> event_id ` set (obj_records (live_lines s (env_slug env))) = {}
    then \<exists>as. append_events env evs s = (Inr as,
            write_live (env_slug env) (live_lines s (env_slug env) @ map (\<lambda>e. Line (JObj e)) as) s) \<and>
          length as = length evs \<and>
          (\<forall>i < length evs. \<exists>clock. as ! i = stamp_event (env_slug env)
             (int (length (live_lines s (env_slug env))) + int i + 1) clock (evs ! i))
    else \<exists>i. append_events env evs s = (Inl (DuplicateIdError i), s)"
proof -
  let ?ls = "live_lines s (env_slug env)"
  have val: "res_map validate_event_fields evs = Inr (map (\<lambda>_. ()) evs)"
    using assms(4) by (intro res_map_Inr) (simp add: list_all_iff)
  obtain w c where tail: "tail_state ?ls = Inr (int (length ?ls), w, c)"
    and wc: "as_int w \<noteq> None" "as_int c \<noteq> None"
    using assms(3) by (rule shard_ok_tail)
  obtain as where as: "batch_stamp env 0 (int (length ?ls)) w c evs = Inr as"
    using batch_stamp_defined [OF wc] by blast
  have dup: "\<exists>i. batch_scan ids ls = Inl (DuplicateIdError i)"
    if "\<forall>d \<in> set (obj_records ls). hashable (event_id d)" "batch_scan ids ls \<noteq> Inr ()" for ids ls
    using that
    by (induction ids ls rule: batch_scan.induct) (auto split: json.splits simp: event_id_def)
  have len: "length as = length evs" using as by (rule batch_stamp_length)
  have nonempty: "as \<noteq> []" using len assms(1) by auto
  show ?thesis
  proof (cases "distinct (map event_id evs) \<and>
      set (map event_id evs) \<inter> event_id ` set (obj_records ?ls) = {}")
    case True
    then have "batch_duplicate [] evs = None" by (simp add: batch_duplicate_None)
    moreover have "batch_scan (map (\<lambda>e. dget e ''id'') evs) ?ls = Inr ()"
      using True assms(5) by (auto simp: batch_scan_Inr event_id_def)
    ultimately have "append_events env evs s = (Inr as,
        write_live (env_slug env) (?ls @ map (\<lambda>e. Line (JObj e)) as) s)"
      using assms(1,2) val tail as nonempty
      by (simp add: append_events_def locked_rmw_def append_batch_mutate_def Let_def)
    with True len show ?thesis using batch_stamp_nth [OF as] by auto
  next
    case False
    then show ?thesis
    proof (cases "batch_duplicate [] evs")
      case None
      with False have "batch_scan (map (\<lambda>e. dget e ''id'') evs) ?ls \<noteq> Inr ()"
        by (fastforce simp: batch_duplicate_None batch_scan_Inr event_id_def)
      with dup [OF assms(5)] obtain i where
        "batch_scan (map (\<lambda>e. dget e ''id'') evs) ?ls = Inl (DuplicateIdError i)" by blast
      with None assms(1,2) val False show ?thesis
        by (auto simp: append_events_def locked_rmw_def append_batch_mutate_def Let_def)
    qed (use False assms(1) val in \<open>auto simp: append_events_def\<close>)
  qed
qed

text \<open>A batch that is to be stored: its events are valid, its ids are pairwise distinct and new to the live shard.\<close>

definition storable :: "env \<Rightarrow> dict list \<Rightarrow> store \<Rightarrow> bool" where
  "storable env evs s = (list_all (\<lambda>e. validate_event_fields e = Inr ()) evs \<and> distinct (map event_id evs) \<and>
     set (map event_id evs) \<inter> event_id ` set (obj_records (live_lines s (env_slug env))) = {})"

lemma stored_batch_valid:
  assumes "append_events env evs s = (Inr as, s')" and "evs \<noteq> []"
  shows "env_lock_ok env \<and> list_all (\<lambda>e. validate_event_fields e = Inr ()) evs"
proof -
  have "res_map f xs = Inr us \<Longrightarrow> list_all (\<lambda>x. f x = Inr ()) xs" for f :: "dict \<Rightarrow> unit res" and xs us
    by (induction xs arbitrary: us) (auto simp: res_bind_Inr_iff split: sum.splits)
  then show ?thesis
    using assms by (auto simp: append_events_def locked_rmw_def split: sum.splits option.splits if_splits)
qed

text \<open>C4. A batch is all or nothing. Whatever the batch, the store and the lock, a call that raises, be it for an
  invalid event, a duplicate or the lock, leaves the store as it was. On a healthy shard whose ids are hashable
  the call succeeds exactly when the batch is empty, or the lock is free, every event is valid and the ids are
  distinct and new to the live shard; then the whole batch is at the end of the live shard, in the order given,
  under consecutive sequence numbers, and nothing else has changed.\<close>

theorem append_events_atomic:
  assumes "append_events env evs s = (r, s')"
  shows "(\<forall>err. r = Inl err \<longrightarrow> s' = s) \<and>
    (shard_ok (live_lines s (env_slug env)) \<and>
       (\<forall>d \<in> set (obj_records (live_lines s (env_slug env))). hashable (event_id d)) \<longrightarrow>
     (case r of
        Inl err \<Rightarrow> evs \<noteq> [] \<and> \<not> (env_lock_ok env \<and> storable env evs s)
      | Inr as \<Rightarrow> (evs = [] \<or> env_lock_ok env \<and> storable env evs s) \<and> length as = length evs \<and>
          s' = (if evs = [] then s
                else write_live (env_slug env) (live_lines s (env_slug env) @ map (\<lambda>e. Line (JObj e)) as) s) \<and>
          (\<forall>i < length evs. \<exists>clock. as ! i = stamp_event (env_slug env)
             (int (length (live_lines s (env_slug env))) + int i + 1) clock (evs ! i))))"
proof (intro conjI impI allI)
  show "s' = s" if "r = Inl err" for err
    using assms that by (cases rule: append_events_cases) auto
next
  assume ok: "shard_ok (live_lines s (env_slug env)) \<and>
      (\<forall>d \<in> set (obj_records (live_lines s (env_slug env))). hashable (event_id d))"
  show "case r of
      Inl err \<Rightarrow> evs \<noteq> [] \<and> \<not> (env_lock_ok env \<and> storable env evs s)
    | Inr as \<Rightarrow> (evs = [] \<or> env_lock_ok env \<and> storable env evs s) \<and> length as = length evs \<and>
        s' = (if evs = [] then s
              else write_live (env_slug env) (live_lines s (env_slug env) @ map (\<lambda>e. Line (JObj e)) as) s) \<and>
        (\<forall>i < length evs. \<exists>clock. as ! i = stamp_event (env_slug env)
           (int (length (live_lines s (env_slug env))) + int i + 1) clock (evs ! i))"
  proof (cases "evs = []")
    case True
    then show ?thesis using assms by (auto simp: append_events_def)
  next
    case False
    show ?thesis
    proof (cases "env_lock_ok env \<and> list_all (\<lambda>e. validate_event_fields e = Inr ()) evs")
      case True
      let ?fresh = "distinct (map event_id evs) \<and>
          set (map event_id evs) \<inter> event_id ` set (obj_records (live_lines s (env_slug env))) = {}"
      have sto: "storable env evs s = ?fresh" using True by (simp add: storable_def)
      note batch = append_valid_batch [OF False conjunct1 [OF True] conjunct1 [OF ok] conjunct2 [OF True] conjunct2 [OF ok]]
      show ?thesis
      proof (cases ?fresh)
        case fresh: True
        then show ?thesis using batch [unfolded if_P [OF fresh]] assms False True sto by auto
      next
        case stale: False
        then show ?thesis using batch [unfolded if_not_P [OF stale]] assms False sto by auto
      qed
    next
      case invalid: False
      then obtain err where "r = Inl err" using stored_batch_valid [OF _ False] assms by (cases r) auto
      then show ?thesis using False invalid by (auto simp: storable_def)
    qed
  qed
qed

section \<open>Properties of reading\<close>

text \<open>A line that \<open>read_events\<close> can parse and order.\<close>

fun readable :: "line \<Rightarrow> bool" where
  "readable (Line (JObj d)) =
     (is_applied d \<longrightarrow> list_all (\<lambda>v. as_str v \<noteq> None) (event_key d))"
| "readable _ = False"

fun applied_line :: "line \<Rightarrow> bool" where
  "applied_line (Line (JObj d)) = is_applied d"
| "applied_line _ = False"

lemma readable_records:
  assumes "list_all readable ls"
  obtains rs where "ls = map (\<lambda>d. Line (JObj d)) rs"
    and "all_orderable event_key (filter is_applied rs)"
proof -
  have "\<forall>l \<in> set ls. \<exists>d. l = Line (JObj d)"
    using assms by (auto simp: list_all_iff elim: readable.elims)
  then obtain rs where rs: "ls = map (\<lambda>d. Line (JObj d)) rs" by (metis ex_map_conv)
  with assms have "all_orderable event_key (filter is_applied rs)"
    by (auto simp: all_orderable_def list_all_iff intro!: tuple_orderable_strs)
  with rs show ?thesis by (rule that)
qed

text \<open>C5. When every stored line is a JSON object and every applied one has string keys, reading
  succeeds and returns exactly the applied records of all shards and partitions, each as often as it
  is stored, in ascending order of \<open>(applied_at, observed_at, id)\<close>.\<close>

theorem read_events_complete:
  assumes "store_wf s" and "\<forall>l \<in># store_lines s. readable l"
  shows "\<exists>evs. read_events s = Inr evs \<and> sorted (map sort_id evs) \<and>
    image_mset (\<lambda>d. Line (JObj d)) (mset evs) = filter_mset applied_line (store_lines s)"
proof (cases "dir_exists s")
  case True
  have "list_all readable (concat (glob_shards s))"
    using assms(2) unfolding list_all_iff mset_glob_shards [symmetric] set_mset_mset by blast
  then obtain rs where rs: "concat (glob_shards s) = map (\<lambda>d. Line (JObj d)) rs"
    and ord: "all_orderable event_key (filter is_applied rs)" by (rule readable_records)
  have "image_mset (\<lambda>d. Line (JObj d)) (filter_mset is_applied (mset rs)) =
      filter_mset applied_line (store_lines s)"
    by (simp add: mset_glob_shards [symmetric] rs image_mset_filter_mset_swap
        filter_mset_image_mset comp_def)
  with True rs ord show ?thesis
    by (simp add: read_events_def res_map_parse [THEN iffD2] py_sort_by_def mset_filter)
next
  case False
  with assms(1) show ?thesis by (simp add: read_events_def store_wf_def store_lines_def)
qed

text \<open>Readers converge: two repositories that hold the same lines, distributed over shard files
  and partitions in any way and order, read back the same list of events.\<close>

theorem read_events_converges:
  assumes "read_events s = Inr evs" and "dir_exists s" and "dir_exists t"
    and "store_lines s = store_lines t" and "ids_name_events evs"
  shows "read_events t = Inr evs"
  using assms by (rule read_events_store_lines)

section \<open>Properties of rotation\<close>

abbreviation month_lines :: "string \<Rightarrow> line list \<Rightarrow> line list" where
  "month_lines month ls \<equiv> filter (\<lambda>l. event_month l = Some month) ls"

abbreviation other_lines :: "string \<Rightarrow> line list \<Rightarrow> line list" where
  "other_lines month ls \<equiv> filter (\<lambda>l. event_month l \<noteq> Some month) ls"

text \<open>
  The store between the two writes of a rotation: the rotated partition is written, the live
  shard not yet trimmed. This is what a crash in between leaves behind.
\<close>

definition rotate_month_interrupted :: "string \<Rightarrow> string \<Rightarrow> store \<Rightarrow> store" where
  "rotate_month_interrupted month slug s =
     (let new_lines = rotation_new_lines (rotated_lines s month slug)
                        (month_lines month (live_lines s slug)) in
      if new_lines = [] then s
      else write_rotated month slug (rotated_lines s month slug @ new_lines) s)"

lemma write_live_rotated_commute:
  "write_live m ls (write_rotated month m' ls' s) = write_rotated month m' ls' (write_live m ls s)"
  by (simp add: write_live_def write_rotated_def)

lemma map_of_live_nonempty: "live_lines s m \<noteq> [] \<Longrightarrow> map_of (live s) m \<noteq> None"
  by (auto simp: live_lines_def split: option.splits)

lemma rotate_month_eq:
  assumes "env_lock_ok env" and "month_lines month (live_lines s m) \<noteq> []"
    and "\<not> rotation_unhashable (rotated_lines s month m) (month_lines month (live_lines s m))"
  shows "rotate_month env month (Some m) s =
    (Inr (length (month_lines month (live_lines s m))),
     write_live m (other_lines month (live_lines s m)) (rotate_month_interrupted month m s))"
proof -
  have "map_of (live s) m \<noteq> None" using assms(2) by (intro map_of_live_nonempty) auto
  moreover have "other_lines month (live_lines s m) \<noteq> live_lines s m"
    using assms(2) by (auto simp: filter_id_conv filter_empty_conv)
  ultimately show ?thesis
    using assms
    by (simp add: rotate_month_def locked_rmw_def rotate_mutate_def rotate_month_interrupted_def
        Let_def write_live_rotated_commute)
qed

lemma rotate_month_idle:
  "month_lines month (live_lines s m) = [] \<Longrightarrow> env_lock_ok env \<Longrightarrow>
     rotate_month env month (Some m) s = (Inr 0, s)"
  by (simp add: rotate_month_def locked_rmw_def rotate_mutate_def Let_def)

lemma rotation_new_lines_fresh:
  assumes "line_id ` set cands \<inter> line_id ` set existing = {}"
  shows "rotation_new_lines existing cands = cands"
  using assms by (auto simp: rotation_new_lines_def filter_id_conv)

lemma rotate_month_store_lines:
  assumes "store_wf s" and "env_lock_ok env"
    and "\<not> rotation_unhashable (rotated_lines s month m) (month_lines month (live_lines s m))"
    and "line_id ` set (month_lines month (live_lines s m)) \<inter> line_id ` set (rotated_lines s month m) = {}"
  shows "store_lines (snd (rotate_month env month (Some m) s)) = store_lines s"
proof (cases "month_lines month (live_lines s m) = []")
  case True
  then show ?thesis using rotate_month_idle assms(2) by simp
next
  case False
  let ?c = "month_lines month (live_lines s m)" and ?o = "other_lines month (live_lines s m)"
  let ?s1 = "write_rotated month m (rotated_lines s month m @ ?c) s"
  have "rotate_month_interrupted month m s = ?s1"
    using False by (simp add: rotate_month_interrupted_def rotation_new_lines_fresh [OF assms(4)])
  then have eq: "snd (rotate_month env month (Some m) s) = write_live m ?o ?s1"
    using rotate_month_eq [OF assms(2) False assms(3)] by simp
  have live: "store_lines (write_live m ?o ?s1) + mset (live_lines s m) = store_lines ?s1 + mset ?o"
    using store_lines_write_live [of ?s1 m ?o] assms(1) by simp
  have "store_lines ?s1 + mset (rotated_lines s month m) =
      store_lines s + mset (rotated_lines s month m @ ?c)"
    using assms(1) by (rule store_lines_write_rotated)
  then have rot: "store_lines ?s1 = store_lines s + mset ?c" by simp
  have part: "mset (live_lines s m) = mset ?c + mset ?o"
    unfolding mset_filter by (rule multiset_partition)
  have "store_lines (write_live m ?o ?s1) + mset (live_lines s m) =
      store_lines s + mset (live_lines s m)"
    unfolding live rot by (subst part) (rule add.assoc)
  then show ?thesis unfolding eq by simp
qed

lemma rotate_month_dir: "dir_exists s \<Longrightarrow> dir_exists (snd (rotate_month env month m s))"
  by (auto simp: rotate_month_def locked_rmw_def Let_def split: mutated.splits option.splits)

text \<open>C6. Rotation is invisible to readers: where the lock is free, the store is readable, its ids name single events
  and are hashable, and the partition of the month holds none of the ids to be moved (it does, after an
  interrupted rotation), a rotation moves every event of the closed month out of the live shard and leaves the
  others, and the store reads back exactly as before.\<close>

theorem rotation_transparent:
  assumes "store_wf s" and "dir_exists s" and "env_lock_ok env"
    and "\<not> rotation_unhashable (rotated_lines s month m) (month_lines month (live_lines s m))"
    and "line_id ` set (month_lines month (live_lines s m)) \<inter> line_id ` set (rotated_lines s month m) = {}"
    and "read_events s = Inr evs" and "ids_name_events evs"
  shows "\<exists>s'. rotate_month env month (Some m) s =
      (Inr (length (month_lines month (live_lines s m))), s') \<and>
    live_lines s' m = other_lines month (live_lines s m) \<and> read_events s' = Inr evs"
proof -
  let ?s' = "snd (rotate_month env month (Some m) s)"
  have "read_events ?s' = Inr evs"
    by (rule read_events_store_lines [OF assms(6,2) _ _ assms(7)])
      (use assms(2) rotate_month_dir rotate_month_store_lines [OF assms(1,3-5)] in auto)
  moreover have "fst (rotate_month env month (Some m) s) =
      Inr (length (month_lines month (live_lines s m))) \<and>
    live_lines ?s' m = other_lines month (live_lines s m)"
    using rotate_month_eq [OF assms(3) _ assms(4)] rotate_month_idle [OF _ assms(3)]
    by (cases "month_lines month (live_lines s m) = []")
      (auto simp: filter_empty_conv filter_id_conv)
  ultimately show ?thesis by (metis prod.collapse)
qed

text \<open>A rotation that was interrupted between its two writes is completed by running it again:
  the second run ends in the state the uninterrupted run would have reached, with the same count.\<close>

theorem rotation_recovers:
  assumes "env_lock_ok env"
    and "\<forall>l \<in> set (live_lines s m) \<union> set (rotated_lines s month m).
      hashable (line_id l) \<and> truthy (line_id l)"
  shows "rotate_month env month (Some m) (rotate_month_interrupted month m s) =
    rotate_month env month (Some m) s"
proof (cases "month_lines month (live_lines s m) = []")
  case True
  then have "rotate_month_interrupted month m s = s"
    by (simp add: rotate_month_interrupted_def rotation_new_lines_def)
  then show ?thesis by simp
next
  case False
  let ?c = "month_lines month (live_lines s m)" and ?e = "rotated_lines s month m"
  let ?t = "rotate_month_interrupted month m s"
  have live: "live_lines ?t m = live_lines s m"
    by (simp add: rotate_month_interrupted_def Let_def)
  have rot: "rotated_lines ?t month m = ?e @ rotation_new_lines ?e ?c"
    by (simp add: rotate_month_interrupted_def Let_def)
  have sub: "set (rotation_new_lines ?e ?c) \<subseteq> set ?c" by (auto simp: rotation_new_lines_def)
  have hash: "\<not> rotation_unhashable ?e ?c" "\<not> rotation_unhashable (rotated_lines ?t month m) ?c"
    using assms(2) sub unfolding rot by (auto simp: rotation_unhashable_def list_ex_iff)
  have ids: "truthy (line_id l) \<and> line_id l \<noteq> JNull" if "l \<in> set ?c" for l
  proof -
    have "truthy (line_id l)" using that assms(2) by auto
    then show ?thesis by (cases "line_id l") auto
  qed
  have "rotation_new_lines (rotated_lines ?t month m) ?c = []"
    unfolding rot using ids by (auto simp: rotation_new_lines_def filter_empty_conv Let_def)
  then have "rotate_month_interrupted month m ?t = ?t"
    by (simp add: rotate_month_interrupted_def [of month m ?t] live)
  then show ?thesis
    using rotate_month_eq [OF assms(1), of month s m] rotate_month_eq [OF assms(1), of month ?t m]
      False hash live by simp
qed

section \<open>Reading back an append\<close>

text \<open>A readable store: what it reads, with string keys and ids that name one event.\<close>

definition log_ok :: "store \<Rightarrow> dict list \<Rightarrow> bool" where
  "log_ok s evs = (store_wf s \<and> read_events s = Inr evs \<and> ids_name_events evs \<and>
     list_all (\<lambda>e. list_all (\<lambda>v. as_str v \<noteq> None) (event_key e)) evs)"

lemma log_ok_records:
  assumes "log_ok s evs"
  obtains rs where "store_lines s = image_mset (\<lambda>d. Line (JObj d)) (mset rs)"
    and "mset (filter is_applied rs) = mset evs"
proof (cases "dir_exists s")
  case True
  from assms obtain rs where rs: "concat (glob_shards s) = map (\<lambda>d. Line (JObj d)) rs"
    and evs: "evs = sort_key sort_id (filter is_applied rs)"
    using True by (auto simp: log_ok_def elim: read_events_Inr)
  have "store_lines s = image_mset (\<lambda>d. Line (JObj d)) (mset rs)"
    using rs by (metis mset_glob_shards mset_map)
  with evs show ?thesis by (intro that) simp_all
next
  case False
  with assms have "store_lines s = {#}" "evs = []"
    by (auto simp: log_ok_def store_wf_def store_lines_def read_events_def)
  then show ?thesis by (intro that [of "[]"]) simp_all
qed

lemma all_orderable_strs:
  "list_all (\<lambda>e. list_all (\<lambda>v. as_str v \<noteq> None) (k e)) xs \<Longrightarrow> all_orderable k xs"
  by (auto simp: all_orderable_def list_all_iff intro!: tuple_orderable_strs)

lemma read_events_records:
  assumes "dir_exists s" and "store_lines s = image_mset (\<lambda>d. Line (JObj d)) (mset rs)"
    and "list_all (\<lambda>e. list_all (\<lambda>v. as_str v \<noteq> None) (event_key e)) (filter is_applied rs)"
    and "ids_name_events (filter is_applied rs)"
  shows "read_events s = Inr (sort_key sort_id (filter is_applied rs))"
proof -
  obtain rs' where rs': "concat (glob_shards s) = map (\<lambda>d. Line (JObj d)) rs'"
    and perm: "mset rs' = mset rs"
    using lines_of_records [of "concat (glob_shards s)" rs] assms(2) by (auto simp: mset_glob_shards)
  have fl: "mset (filter is_applied rs') = mset (filter is_applied rs)" using perm by simp
  then have "sort_key sort_id (filter is_applied rs) = sort_key sort_id (filter is_applied rs')"
    using inj_on_sort_id [OF assms(4)] by (intro sort_key_mset_eq) simp_all
  moreover have "all_orderable event_key (filter is_applied rs')"
    using all_orderable_strs [OF assms(3)] fl all_orderable_mset mset_eq_setD by metis
  ultimately show ?thesis
    using assms(1) rs' by (simp add: read_events_def res_map_parse [THEN iffD2] py_sort_by_def)
qed

lemma store_wf_append: "store_wf s \<Longrightarrow> store_wf (snd (append_event env ev key s))"
proof -
  assume wf: "store_wf s"
  obtain r s' where a: "append_event env ev key s = (r, s')" by force
  then have "store_wf s'" using wf by (cases rule: append_event_cases) auto
  with a show ?thesis by simp
qed

lemma store_lines_append:
  assumes "append_event env ev key s = (Inr e, s')" and "s' \<noteq> s" and "store_wf s"
  shows "store_lines s' = add_mset (Line (JObj e)) (store_lines s) \<and> dir_exists s'"
  using assms(1)
proof (cases rule: append_event_cases)
  case (appended seq w c clock)
  have "store_lines s' + mset (live_lines s (env_slug env)) =
      store_lines s + mset (live_lines s (env_slug env) @ [Line (JObj e)])"
    using appended store_lines_write_live [OF assms(3)] by simp
  then show ?thesis using appended by simp
qed (use assms(2) in auto)

lemma read_events_sorted: "read_events s = Inr evs \<Longrightarrow> sorted (map sort_id evs)"
  by (cases "dir_exists s") (erule read_events_Inr, auto simp: read_events_def)

text \<open>An applied append shows up at its place in the reading order, and nothing else moves.\<close>

lemma read_events_append:
  assumes "append_event env ev key s = (Inr e, s')" and "s' \<noteq> s" and "log_ok s evs"
    and "is_applied e" and "list_all (\<lambda>v. as_str v \<noteq> None) (event_key e)"
    and "event_id e \<notin> event_id ` set evs"
  shows "read_events s' = Inr (insort_key sort_id e evs) \<and> log_ok s' (insort_key sort_id e evs)"
proof -
  obtain rs where rs: "store_lines s = image_mset (\<lambda>d. Line (JObj d)) (mset rs)"
    and evs: "mset (filter is_applied rs) = mset evs"
    using assms(3) by (rule log_ok_records)
  have wf: "store_wf s" using assms(3) by (simp add: log_ok_def)
  have new: "store_lines s' = image_mset (\<lambda>d. Line (JObj d)) (mset (e # rs))" "dir_exists s'"
    using store_lines_append [OF assms(1,2) wf] rs by simp_all
  have set: "set (filter is_applied rs) = set evs" using evs by (rule mset_eq_setD)
  have keys: "list_all (\<lambda>e. list_all (\<lambda>v. as_str v \<noteq> None) (event_key e)) (e # evs)"
    using assms(3,5) by (simp add: log_ok_def)
  have "as_str (event_id e) \<noteq> None" using assms(5) by (simp add: event_key_def event_id_def)
  then have ids: "ids_name_events (e # evs)"
    using assms(3,6) by (auto simp: log_ok_def ids_name_events_def image_iff)
  have app: "filter is_applied (e # rs) = e # filter is_applied rs" using assms(4) by simp
  have "read_events s' = Inr (sort_key sort_id (e # filter is_applied rs))"
  proof (rule read_events_records [OF new(2,1), unfolded app])
    show "list_all (\<lambda>e. list_all (\<lambda>v. as_str v \<noteq> None) (event_key e)) (e # filter is_applied rs)"
      using keys unfolding list_all_iff list.set set .
    show "ids_name_events (e # filter is_applied rs)"
      using ids unfolding ids_name_events_def list.set set .
  qed
  also have "sort_key sort_id (e # filter is_applied rs) = sort_key sort_id (e # evs)"
    using evs set inj_on_sort_id [OF ids] by (intro sort_key_mset_eq) simp_all
  also have "sort_key sort_id (e # evs) = insort_key sort_id e evs"
  proof -
    have "sorted (map sort_id evs)" using assms(3) read_events_sorted unfolding log_ok_def by blast
    then show ?thesis by (simp add: sort_key_id_if_sorted)
  qed
  finally have read: "read_events s' = Inr (insort_key sort_id e evs)" .
  have "store_wf s'" using store_wf_append [OF wf, of env ev key] assms(1) by simp
  then have "log_ok s' (insort_key sort_id e evs)"
    using read keys ids by (auto simp: log_ok_def list_all_iff set_insort_key ids_name_events_def)
  with read show ?thesis by simp
qed

lemma insort_key_split: "\<exists>as bs. xs = as @ bs \<and> insort_key f x xs = as @ x # bs"
proof (induction xs)
  case (Cons y ys)
  then obtain as bs where "ys = as @ bs" "insort_key f x ys = as @ x # bs" by blast
  then show ?case
    by (cases "f x \<le> f y") (auto intro: exI [of _ "[]"] exI [of _ "y # as"])
qed simp

section \<open>Worked examples\<close>

definition ex_store :: store where
  "ex_store = snd (append_events ex_env [ex_event ''evt-a'', ex_event ''evt-b''] empty_store)"

definition ex_keyed :: "string \<Rightarrow> dict" where
  "ex_keyed i = fmupd ''idempotency_key'' (JStr ''k'') (ex_event i)"

lemma ex_env_fields [simp]: "env_slug ex_env = ''rig''" "env_lock_ok ex_env"
  by (simp_all add: ex_env_def)

lemma ex_store_steps: "store_step\<^sup>*\<^sup>* empty_store ex_store"
  unfolding ex_store_def
  by (rule r_into_rtranclp, rule store_step.batch, rule prod.collapse [symmetric])

lemma own_records_empty [simp]: "own_records m empty_store = []"
  by (simp add: own_records_def peer_lines_eq rotated_history_def rotated_shards_def)

theorem append_event_spec_witness:
  "\<exists>clock. append_event ex_env (ex_event ''evt-a'') None empty_store =
     (Inr (stamp_event ''rig'' 1 clock (ex_event ''evt-a'')),
      write_live ''rig'' [Line (JObj (stamp_event ''rig'' 1 clock (ex_event ''evt-a'')))] empty_store)"
proof -
  have "validate_event_fields (ex_event ''evt-a'') = Inr ()" by code_simp
  then show ?thesis
    using append_event_spec [of "ex_event ''evt-a''" ex_env empty_store] by (auto simp: Let_def)
qed

theorem appends_keep_shards_ok_witness: "shard_ok (live_lines ex_store ''rig'')"
  using appends_keep_shards_ok [OF ex_store_steps] .

theorem store_append_only_witness:
  "prefix (live_lines empty_store ''rig'') (live_lines ex_store ''rig'') \<and> rotated ex_store = []"
  using store_append_only [OF ex_store_steps, of "''rig''"] by simp

theorem appended_ids_unique_witness:
  "distinct (map event_id (own_records ''rig'' (shard_log.attempts
     [(ex_env, ex_event ''evt-a''), (ex_env, ex_event ''evt-a'')] empty_store)))"
  by (rule appended_ids_unique) simp

theorem unrotated_ids_unique_witness: "distinct (map event_id (own_records ''rig'' ex_store))"
  by (rule unrotated_ids_unique [OF ex_store_steps])
    (simp_all add: rotated_history_def rotated_shards_def)

definition ex_keyed_store :: store where
  "ex_keyed_store = snd (append_event ex_env (ex_keyed ''evt-a'') (Some ''k'') empty_store)"

definition ex_grown :: store where
  "ex_grown = snd (append_event ex_env (ex_event ''evt-c'') None ex_keyed_store)"

theorem idempotency_key_contract_witness:
  "append_event ex_env (ex_keyed ''evt-b'') (Some ''k'') ex_grown =
   (Inr (stamp_event ''rig'' 1 (5, 0) (ex_keyed ''evt-a'')), ex_grown) \<and> live_lines ex_grown ''rig'' \<noteq> live_lines ex_keyed_store ''rig''"
proof -
  have 1: "append_event ex_env (ex_keyed ''evt-a'') (Some ''k'') empty_store =
      (Inr (stamp_event ''rig'' 1 (5, 0) (ex_keyed ''evt-a'')), ex_keyed_store)"
    by code_simp
  have 2: "ex_keyed_store \<noteq> empty_store" by code_simp
  have 3: "dget (ex_keyed ''evt-a'') ''idempotency_key'' = JStr ''k''" by code_simp
  have run: "store_step\<^sup>*\<^sup>* ex_keyed_store ex_grown"
    unfolding ex_grown_def by (rule r_into_rtranclp, rule store_step.one, rule prod.collapse [symmetric])
  have 4: "validate_event_fields (ex_keyed ''evt-b'') = Inr ()" by code_simp
  have 5: "event_id (ex_keyed ''evt-b'') \<notin> event_id ` set (own_records (env_slug ex_env) ex_grown)"
    by code_simp
  have 6: "py_eq (JObj (stable_payload (ex_keyed ''evt-a'')))
      (JObj (stable_payload (ex_keyed ''evt-b'')))" by code_simp
  have 7: "live_lines ex_grown ''rig'' \<noteq> live_lines ex_keyed_store ''rig''" by code_simp
  show ?thesis
    using idempotency_key_contract [OF 1 2 3 run _ _ 4 5] 6 7 by simp
qed

theorem append_events_atomic_witness:
  "(\<exists>as s'. append_events ex_env [ex_event ''evt-c'', ex_event ''evt-d''] ex_store = (Inr as, s') \<and> length as = 2 \<and>
     s' = write_live ''rig'' (live_lines ex_store ''rig'' @ map (\<lambda>e. Line (JObj e)) as) ex_store) \<and>
   (\<exists>err. append_events ex_env [ex_event ''evt-c'', ex_event ''7''] ex_store = (Inl err, ex_store))"
proof
  let ?evs = "[ex_event ''evt-c'', ex_event ''evt-d'']"
  obtain r s' where run: "append_events ex_env ?evs ex_store = (r, s')" by fastforce
  have "shard_ok (live_lines ex_store (env_slug ex_env))" by code_simp
  moreover have "\<forall>d \<in> set (obj_records (live_lines ex_store (env_slug ex_env))). hashable (event_id d)" by code_simp
  moreover have "storable ex_env ?evs ex_store" by code_simp
  ultimately show "\<exists>as s'. append_events ex_env ?evs ex_store = (Inr as, s') \<and> length as = 2 \<and>
      s' = write_live ''rig'' (live_lines ex_store ''rig'' @ map (\<lambda>e. Line (JObj e)) as) ex_store"
    using append_events_atomic [OF run] run by (cases r) auto
next
  obtain r s' where run: "append_events ex_env [ex_event ''evt-c'', ex_event ''7''] ex_store = (r, s')" by fastforce
  have "case fst (append_events ex_env [ex_event ''evt-c'', ex_event ''7''] ex_store) of Inl _ \<Rightarrow> True | Inr _ \<Rightarrow> False" by code_simp
  then obtain err where "r = Inl err" using run by (auto split: sum.splits)
  then show "\<exists>err. append_events ex_env [ex_event ''evt-c'', ex_event ''7''] ex_store = (Inl err, ex_store)"
    using append_events_atomic [OF run] run by auto
qed

lemma ex_store_wf: "store_wf ex_store" "dir_exists ex_store"
  by code_simp+

theorem read_events_complete_witness:
  "\<exists>evs. read_events ex_store = Inr evs \<and>
     image_mset (\<lambda>d. Line (JObj d)) (mset evs) = filter_mset applied_line (store_lines ex_store)"
proof -
  have "list_all readable (concat (glob_shards ex_store))" by code_simp
  then have "\<forall>l \<in># store_lines ex_store. readable l"
    by (simp add: list_all_iff flip: mset_glob_shards)
  then show ?thesis using read_events_complete [OF ex_store_wf(1)] by blast
qed

text \<open>The example store with its lines in another partition.\<close>

definition ex_moved :: store where
  "ex_moved = \<lparr>dir_exists = True, live = [(''rig'', [])],
     rotated = [((''2026-08'', ''rig''), rev (live_lines ex_store ''rig''))]\<rparr>"

definition ex_events :: "dict list" where
  "ex_events = [stamp_event ''rig'' 1 (5, 0) (ex_event ''evt-a''),
     stamp_event ''rig'' 2 (5, 1) (ex_event ''evt-b'')]"

lemma ex_store_read: "read_events ex_store = Inr ex_events" "ids_name_events ex_events"
  by code_simp+

theorem read_events_converges_witness: "read_events ex_moved = Inr ex_events"
proof (rule read_events_converges [OF ex_store_read(1) ex_store_wf(2) _ _ ex_store_read(2)])
  show "dir_exists ex_moved" by code_simp
  show "store_lines ex_store = store_lines ex_moved" by code_simp
qed

theorem rotation_transparent_witness:
  "\<exists>s'. rotate_month ex_env ''2026-08'' (Some ''rig'') ex_store = (Inr 2, s') \<and>
     live_lines s' ''rig'' = [] \<and> read_events s' = Inr ex_events"
proof -
  have 1: "\<not> rotation_unhashable (rotated_lines ex_store ''2026-08'' ''rig'')
      (month_lines ''2026-08'' (live_lines ex_store ''rig''))" by code_simp
  have 2: "line_id ` set (month_lines ''2026-08'' (live_lines ex_store ''rig'')) \<inter>
      line_id ` set (rotated_lines ex_store ''2026-08'' ''rig'') = {}" by code_simp
  have 3: "length (month_lines ''2026-08'' (live_lines ex_store ''rig'')) = 2"
    "other_lines ''2026-08'' (live_lines ex_store ''rig'') = []" by code_simp+
  show ?thesis
    using rotation_transparent [OF ex_store_wf ex_env_fields(2) 1 2 ex_store_read]
    unfolding 3 .
qed

theorem rotation_recovers_witness:
  "rotate_month ex_env ''2026-08'' (Some ''rig'') (rotate_month_interrupted ''2026-08'' ''rig'' ex_store) =
     rotate_month ex_env ''2026-08'' (Some ''rig'') ex_store"
  by (rule rotation_recovers [OF ex_env_fields(2)]) code_simp

section \<open>Where rotation breaks a promise\<close>

text \<open>
  Sequence numbers are documented as monotonic over a machine's whole history. The next sequence
  number, however, chains off the live shard only: when a rotation empties the live shard the next
  append starts again at 1.
\<close>

theorem rotation_restarts_sequence:
  assumes "rotate_month env month (Some (env_slug env)) s = (Inr n, s')"
    and "live_lines s' (env_slug env) = []"
    and "append_event env' ev key s' = (Inr e, s'')" and "s'' \<noteq> s'"
    and "env_slug env' = env_slug env"
  shows "dget e ''sequence'' = JInt 1"
  using assms(3)
proof (cases rule: append_event_cases)
  case (appended seq w c clock)
  then show ?thesis using assms(2,5) by (simp add: tail_state_def)
qed (use assms(4) in auto)

definition ex_rotated :: store where
  "ex_rotated = snd (rotate_month ex_env ''2026-08'' None ex_store)"

theorem rotation_restarts_sequence_example:
  "map line_seq (peer_lines (snd (append_event ex_env (ex_event ''evt-c'') None ex_rotated)) ''rig'') =
     [Some 1, Some 2, Some 1]"
  by code_simp

text \<open>
  \<open>append_event\<close> looks for a duplicate id in the rotated partitions as well, \<open>append_events\<close> only in
  the live shard: after a rotation a batch stores an id a second time.
\<close>

theorem batch_ignores_rotated_history:
  "append_event ex_env (ex_event ''evt-a'') None ex_rotated = (Inl (DuplicateIdError (JStr ''evt-a'')), ex_rotated)"
  "map line_id (peer_lines (snd (append_events ex_env [ex_event ''evt-a''] ex_rotated)) ''rig'') =
     [JStr ''evt-a'', JStr ''evt-b'', JStr ''evt-a'']"
  by code_simp+

text \<open>
  The state a crash leaves between the two writes of a rotation holds the relocated events twice,
  and \<open>read_events\<close> returns them twice.
\<close>

theorem interrupted_rotation_reads_twice:
  "read_events (rotate_month_interrupted ''2026-08'' ''rig'' ex_store) =
     Inr [ex_events ! 0, ex_events ! 0, ex_events ! 1, ex_events ! 1]"
  by code_simp

end
