(* ===== verification/Tracker_Observed.thy ===== *)
theory Tracker_Observed
  imports Tracker_Shards
begin

text \<open>
  Observed sets (\<open>coordinator_core/tracker_store.py\<close>, from \<open>_prefix_digest\<close> on): the fold that
  records in a marker event what a machine has seen of its peers, and the resolution that
  re-derives each claim of a marker against the bytes that are there now. A claim resolves to a
  concrete component or to \<open>Unknown\<close>, the sentinel \<open>OBSERVED_SET_UNKNOWN\<close>.

  A concrete component \<open>{"sequence": n, "prefix_digest": d}\<close> is \<open>Concrete n d\<close>; its sequence is
  an \<open>int\<close> because the code checks \<open>isinstance(claimed_seq, int)\<close> before it builds one. A marker
  is read back from a file written with \<open>sort_keys=True\<close>, so its components are visited in key
  order.
\<close>

section \<open>Operations\<close>

datatype component = Unknown | Concrete int json

type_synonym vector = "(string, component) fmap"

definition prefix_digest :: "env \<Rightarrow> json list \<Rightarrow> string" where
  "prefix_digest env event_ids = take 16 (env_sha_compact env (JList event_ids))"

fun well_formed_from :: "int \<Rightarrow> int list \<Rightarrow> (int \<times> int) option" where
  "well_formed_from position [] = None"
| "well_formed_from position (v # vs) =
     (if v \<noteq> position then Some (position, min position v)
      else well_formed_from (position + 1) vs)"

definition well_formedness :: "int list \<Rightarrow> (int \<times> int) option" where
  "well_formedness sequences = well_formed_from 1 sequences"

text \<open>The ids and sequences of one peer's history that a fold takes in.\<close>

fun peer_entries :: "line list \<Rightarrow> (json \<times> json) list res" where
  "peer_entries [] = Inr []"
| "peer_entries (BadLine _ # ls) = Inl (TrackerStoreError ''malformed line'')"
| "peer_entries (Line v # ls) =
     (case v of
        JObj record \<Rightarrow>
          (case as_int (dget record ''sequence'') of
             None \<Rightarrow> peer_entries ls
           | Some _ \<Rightarrow>
               if \<not> truthy (dget record ''id'')
               then Inl (TrackerStoreError ''malformed record: missing or empty id'')
               else res_bind (peer_entries ls)
                      (\<lambda>es. Inr ((dget record ''id'', dget record ''sequence'') # es)))
      | _ \<Rightarrow> Inl (TrackerStoreError ''malformed line: not a JSON object''))"

definition component_obj :: "json \<Rightarrow> json \<Rightarrow> json" where
  "component_obj sequence digest =
     JObj (fmap_of_list [(''sequence'', sequence), (''prefix_digest'', digest)])"

fun fold_peers :: "env \<Rightarrow> store \<Rightarrow> string list \<Rightarrow> dict res" where
  "fold_peers env s [] = Inr fmempty"
| "fold_peers env s (slug # slugs) =
     (if slug = env_slug env then fold_peers env s slugs
      else res_bind (peer_entries (peer_lines s slug)) (\<lambda>es.
        res_bind (fold_peers env s slugs) (\<lambda>observed_set.
          Inr (if es = [] then observed_set
               else fmupd slug (component_obj (snd (last es))
                      (JStr (prefix_digest env (map fst es)))) observed_set))))"

definition marker_id :: "env \<Rightarrow> dict \<Rightarrow> string" where
  "marker_id env observed_set =
     env_slug env @ ''-fold-'' @ take 16 (env_sha_compact env (JObj observed_set))"

definition marker_event :: "env \<Rightarrow> dict \<Rightarrow> dict" where
  "marker_event env observed_set = fmap_of_list
     [(''id'', JStr (marker_id env observed_set)), (''kind'', JStr ''observed_set_fold''),
      (''observed_at'', JStr (env_second_stamp env)), (''applied_at'', JNull),
      (''observed_set'', JObj observed_set)]"

definition fold_observed_set :: "env \<Rightarrow> dict option op" where
  "fold_observed_set env s =
     (if \<not> dir_exists s then (Inr None, s)
      else (case fold_peers env s (all_machine_slugs s) of
              Inl e \<Rightarrow> (Inl e, s)
            | Inr observed_set \<Rightarrow>
                if list_ex (\<lambda>d. dget d ''id'' = JStr (marker_id env observed_set))
                     (obj_records (live_lines s (env_slug env)))
                then (Inr None, s)
                else (case append_event env (marker_event env observed_set) None s of
                        (Inr m, s') \<Rightarrow> (Inr (Some m), s')
                      | (Inl (DuplicateIdError _), s') \<Rightarrow> (Inr None, s')
                      | (Inl e, s') \<Rightarrow> (Inl e, s'))))"

text \<open>
  The pass over a shard for a claim: the ids at or below the claimed sequence, and all the
  sequences in file order.
\<close>

fun claim_scan :: "int \<Rightarrow> line list \<Rightarrow> (json list \<times> int list) res" where
  "claim_scan claimed_seq [] = Inr ([], [])"
| "claim_scan claimed_seq (BadLine _ # ls) = Inl (TrackerStoreError ''malformed line'')"
| "claim_scan claimed_seq (Line v # ls) =
     (case v of
        JObj record \<Rightarrow>
          (case as_int (dget record ''sequence'') of
             None \<Rightarrow> claim_scan claimed_seq ls
           | Some sequence \<Rightarrow>
               if sequence \<le> claimed_seq
               then if \<not> truthy (dget record ''id'')
                 then Inl (TrackerStoreError ''malformed record: missing or empty id'')
                 else res_bind (claim_scan claimed_seq ls)
                        (\<lambda>(ids, seqs). Inr (dget record ''id'' # ids, sequence # seqs))
               else res_bind (claim_scan claimed_seq ls)
                      (\<lambda>(ids, seqs). Inr (ids, sequence # seqs)))
      | _ \<Rightarrow> Inl (TrackerStoreError ''malformed line: not a JSON object''))"

definition tail_sequence :: "line list \<Rightarrow> int res" where
  "tail_sequence lines =
     (if lines = [] then Inr 0
      else res_bind (parse_record (last lines))
             (\<lambda>tail. Inr (case as_int (dget_or tail ''sequence'' (JInt 0)) of
                            None \<Rightarrow> 0 | Some i \<Rightarrow> i)))"

definition unknown_from :: "int list \<Rightarrow> int \<Rightarrow> bool" where
  "unknown_from sequences claimed_seq =
     (case well_formedness sequences of
        None \<Rightarrow> False
      | Some (_, resolves_unknown_from) \<Rightarrow> resolves_unknown_from \<le> claimed_seq)"

definition resolve_component :: "env \<Rightarrow> store \<Rightarrow> string \<Rightarrow> json \<Rightarrow> component res" where
  "resolve_component env s slug claim =
     (case claim of
        JObj c \<Rightarrow>
          (case as_int (dget c ''sequence'') of
             None \<Rightarrow> Inl (TrackerStoreError ''component has a non-int sequence'')
           | Some claimed_seq \<Rightarrow>
               let lines = peer_lines s slug in
               res_bind (tail_sequence lines) (\<lambda>current_max.
                 if current_max < claimed_seq then Inr Unknown
                 else res_bind (claim_scan claimed_seq lines) (\<lambda>(event_ids, sequences).
                   if unknown_from sequences claimed_seq then Inr Unknown
                   else if dget c ''prefix_digest'' \<noteq> JStr (prefix_digest env event_ids)
                   then Inr Unknown
                   else Inr (Concrete claimed_seq (dget c ''prefix_digest'')))))
      | _ \<Rightarrow> Inl (TrackerStoreError ''component is not a dict''))"

fun resolve_components :: "env \<Rightarrow> store \<Rightarrow> (string \<times> json) list \<Rightarrow> vector res" where
  "resolve_components env s [] = Inr fmempty"
| "resolve_components env s ((slug, claim) # rest) =
     res_bind (resolve_component env s slug claim) (\<lambda>c.
       res_bind (resolve_components env s rest) (\<lambda>v. Inr (fmupd slug c v)))"

definition resolve_observed_set :: "env \<Rightarrow> dict \<Rightarrow> store \<Rightarrow> vector res" where
  "resolve_observed_set env marker s =
     (case dget marker ''observed_set'' of
        JObj observed_set \<Rightarrow> resolve_components env s (sorted_list_of_fmap observed_set)
      | _ \<Rightarrow> Inl (TrackerStoreError ''marker is missing a well-formed observed_set''))"

text \<open>An answer for an event: the bare sentinel \<open>None\<close>, or a vector.\<close>

fun latest_marker :: "int \<Rightarrow> line list \<Rightarrow> ((int \<times> string) \<times> dict) option \<Rightarrow>
    ((int \<times> string) \<times> dict) option res" where
  "latest_marker sequence [] best = Inr best"
| "latest_marker sequence (BadLine _ # ls) best = Inl (TrackerStoreError ''malformed line'')"
| "latest_marker sequence (Line v # ls) best =
     (case v of
        JObj record \<Rightarrow>
          if dget record ''kind'' \<noteq> JStr ''observed_set_fold'' then latest_marker sequence ls best
          else (case as_int (dget record ''sequence'') of
                  None \<Rightarrow> latest_marker sequence ls best
                | Some q \<Rightarrow>
                    if sequence \<le> q then latest_marker sequence ls best
                    else let key = (q, case as_str (dget record ''id'') of None \<Rightarrow> [] | Some i \<Rightarrow> i) in
                      latest_marker sequence ls
                        (case best of
                           None \<Rightarrow> Some (key, record)
                         | Some (k, _) \<Rightarrow> if k < key then Some (key, record) else best))
      | _ \<Rightarrow> Inl (TrackerStoreError ''malformed line: not a JSON object''))"

definition event_position :: "dict \<Rightarrow> (string \<times> int) res" where
  "event_position event =
     (case dget event ''machine'' of
        JStr machine \<Rightarrow>
          if machine = [] then Inl (TrackerStoreError ''event is missing required field: machine'')
          else (case as_int (dget event ''sequence'') of
                  None \<Rightarrow> Inl (TrackerStoreError ''event is missing required field: sequence'')
                | Some sequence \<Rightarrow> Inr (machine, sequence))
      | _ \<Rightarrow> Inl (TrackerStoreError ''event is missing required field: machine''))"

definition resolve_observed_set_for_event :: "env \<Rightarrow> dict \<Rightarrow> store \<Rightarrow> vector option res" where
  "resolve_observed_set_for_event env event s =
     res_bind (event_position event) (\<lambda>(machine, sequence).
       res_bind (latest_marker sequence (live_lines s machine) None) (\<lambda>best.
         case best of
           None \<Rightarrow> Inr None
         | Some (_, marker) \<Rightarrow> res_bind (resolve_observed_set env marker s) (\<lambda>v. Inr (Some v))))"

definition resolve_self_component :: "env \<Rightarrow> string \<Rightarrow> int \<Rightarrow> store \<Rightarrow> component res" where
  "resolve_self_component env machine sequence s =
     res_bind (claim_scan sequence (live_lines s machine)) (\<lambda>(event_ids, sequences).
       if unknown_from sequences sequence then Inr Unknown
       else Inr (Concrete sequence (JStr (prefix_digest env event_ids))))"

definition resolve_observed_set_union_for_event :: "env \<Rightarrow> dict \<Rightarrow> store \<Rightarrow> vector option res" where
  "resolve_observed_set_union_for_event env event s =
     res_bind (event_position event) (\<lambda>(machine, sequence).
       res_bind (resolve_observed_set_for_event env event s) (\<lambda>peer_vector.
         case peer_vector of
           None \<Rightarrow> Inr None
         | Some v \<Rightarrow> res_bind (resolve_self_component env machine sequence s)
                       (\<lambda>c. Inr (Some (fmupd machine c v)))))"

section \<open>Well-formedness of a sequence list\<close>

lemma well_formed_from_None:
  "well_formed_from p vs = None \<longleftrightarrow> (\<forall>i < length vs. vs ! i = p + int i)"
proof (induction p vs rule: well_formed_from.induct)
  case (2 p v vs)
  then show ?case by (auto simp: nth_Cons' algebra_simps less_Suc_eq_0_disj)
qed simp

lemma well_formed_from_Some:
  "well_formed_from p vs = Some (d, u) \<Longrightarrow>
     \<exists>i < length vs. d = p + int i \<and> (\<forall>j < i. vs ! j = p + int j) \<and> vs ! i \<noteq> d \<and>
       u = min d (vs ! i)"
proof (induction p vs rule: well_formed_from.induct)
  case (2 p v vs)
  show ?case
  proof (cases "v = p")
    case True
    with 2 obtain i where "i < length vs" "d = p + 1 + int i" "\<forall>j < i. vs ! j = p + 1 + int j"
      "vs ! i \<noteq> d" "u = min d (vs ! i)" by auto
    with True show ?thesis
      by (intro exI [of _ "Suc i"]) (auto simp: less_Suc_eq_0_disj)
  next
    case False
    with 2 show ?thesis by (intro exI [of _ 0]) auto
  qed
qed simp

section \<open>Scanning a healthy history\<close>

text \<open>A history with contiguous sequences and non-empty ids.\<close>

definition peer_ok :: "line list \<Rightarrow> bool" where
  "peer_ok ls = (well_sequenced ls \<and> list_all (\<lambda>l. truthy (line_id l)) ls)"

lemma line_seq_Some:
  assumes "line_seq l = Some i"
  obtains d where "l = Line (JObj d)" and "as_int (dget d ''sequence'') = Some i"
  using assms by (cases l rule: line_seq.cases) auto

lemma well_sequenced_nth: "well_sequenced ls \<Longrightarrow> i < length ls \<Longrightarrow> line_seq (ls ! i) = Some (int i + 1)"
  unfolding well_sequenced_def list_eq_iff_nth_eq by simp

lemma peer_ok_all:
  assumes "peer_ok ls"
  shows "list_all (\<lambda>l. line_seq l \<noteq> None \<and> truthy (line_id l)) ls"
  using assms well_sequenced_nth by (auto simp: peer_ok_def list_all_length)

lemma peer_entries_ok:
  "list_all (\<lambda>l. line_seq l \<noteq> None \<and> truthy (line_id l)) ls \<Longrightarrow>
     \<exists>es. peer_entries ls = Inr es \<and> map fst es = map line_id ls \<and>
       map (\<lambda>e. as_int (snd e)) es = map line_seq ls"
proof (induction ls)
  case (Cons l ls)
  then obtain d i where "l = Line (JObj d)" "as_int (dget d ''sequence'') = Some i"
    by (auto elim: line_seq_Some)
  with Cons show ?case by auto
qed simp

lemma claim_scan_ok:
  "list_all (\<lambda>l. line_seq l \<noteq> None \<and> truthy (line_id l)) ls \<Longrightarrow>
     claim_scan n ls = Inr (map line_id (filter (\<lambda>l. the (line_seq l) \<le> n) ls), map (the \<circ> line_seq) ls)"
proof (induction ls)
  case (Cons l ls)
  then obtain d i where "l = Line (JObj d)" "as_int (dget d ''sequence'') = Some i"
    by (auto elim: line_seq_Some)
  with Cons show ?case by simp
qed simp

lemma well_sequenced_filter:
  "well_sequenced ls \<Longrightarrow> filter (\<lambda>l. the (line_seq l) \<le> n) ls = take (nat n) ls"
  by (induction ls rule: rev_induct) (auto simp: well_sequenced_snoc)

lemma unknown_from_well_sequenced:
  assumes "well_sequenced ls"
  shows "\<not> unknown_from (map (the \<circ> line_seq) ls) n"
proof -
  have "well_formedness (map (the \<circ> line_seq) ls) = None"
    using well_sequenced_nth [OF assms] by (simp add: well_formedness_def well_formed_from_None)
  then show ?thesis by (simp add: unknown_from_def)
qed

lemma tail_sequence_well_sequenced:
  assumes "well_sequenced ls"
  shows "tail_sequence ls = Inr (int (length ls))"
proof (cases ls rule: rev_cases)
  case (snoc ys y)
  with assms have "line_seq y = Some (int (length ys) + 1)" by (simp add: well_sequenced_snoc)
  then obtain d where d: "y = Line (JObj d)" "as_int (dget d ''sequence'') = Some (int (length ys) + 1)"
    by (rule line_seq_Some)
  then have "has_key d ''sequence''" by (intro has_key_if_dget) auto
  with d snoc show ?thesis by (simp add: tail_sequence_def dget_or_has_key)
qed (simp add: tail_sequence_def)

lemma resolve_component_healthy:
  assumes "peer_ok (peer_lines s m)" and "claim = JObj c"
    and "as_int (dget c ''sequence'') = Some n"
  shows "resolve_component env s m claim =
    Inr (if n \<le> int (length (peer_lines s m)) \<and> dget c ''prefix_digest'' =
              JStr (prefix_digest env (map line_id (take (nat n) (peer_lines s m))))
         then Concrete n (dget c ''prefix_digest'') else Unknown)"
  using assms claim_scan_ok [OF peer_ok_all [OF assms(1)], of n]
  by (simp add: resolve_component_def Let_def peer_ok_def tail_sequence_well_sequenced
      unknown_from_well_sequenced well_sequenced_filter)

section \<open>What a fold records\<close>

definition peer_claim :: "env \<Rightarrow> store \<Rightarrow> string \<Rightarrow> json \<Rightarrow> bool" where
  "peer_claim env s m j =
     (peer_lines s m \<noteq> [] \<and>
      (\<exists>q. as_int q = Some (int (length (peer_lines s m))) \<and>
         j = component_obj q (JStr (prefix_digest env (map line_id (peer_lines s m))))))"

lemma component_obj_fields:
  "dget (fmap_of_list [(''sequence'', q), (''prefix_digest'', d)]) ''sequence'' = q"
  "dget (fmap_of_list [(''sequence'', q), (''prefix_digest'', d)]) ''prefix_digest'' = d"
  by (simp_all add: dget_def)

lemma resolve_peer_claim:
  assumes "peer_ok (peer_lines s m)" and "peer_claim env s m j"
  shows "resolve_component env s m j = Inr (Concrete (int (length (peer_lines s m)))
    (JStr (prefix_digest env (map line_id (peer_lines s m)))))"
proof -
  obtain q where "as_int q = Some (int (length (peer_lines s m)))"
    "j = component_obj q (JStr (prefix_digest env (map line_id (peer_lines s m))))"
    using assms(2) by (auto simp: peer_claim_def)
  with assms(1) show ?thesis
    by (simp add: component_obj_def component_obj_fields
        resolve_component_healthy [where n = "int (length (peer_lines s m))"])
qed

lemma peer_entries_claim:
  assumes "peer_ok (peer_lines s m)"
  obtains es where "peer_entries (peer_lines s m) = Inr es"
    and "es = [] \<longleftrightarrow> peer_lines s m = []"
    and "peer_lines s m \<noteq> [] \<longrightarrow>
      peer_claim env s m (component_obj (snd (last es)) (JStr (prefix_digest env (map fst es))))"
proof -
  obtain es where es: "peer_entries (peer_lines s m) = Inr es"
    "map fst es = map line_id (peer_lines s m)"
    "map (\<lambda>e. as_int (snd e)) es = map line_seq (peer_lines s m)"
    using peer_entries_ok [OF peer_ok_all [OF assms]] by blast
  have len: "length es = length (peer_lines s m)" using es(2) by (metis length_map)
  then have e: "es = [] \<longleftrightarrow> peer_lines s m = []" by auto
  have "as_int (snd (last es)) = Some (int (length (peer_lines s m)))" if "peer_lines s m \<noteq> []"
  proof -
    have "as_int (snd (last es)) = line_seq (last (peer_lines s m))"
      using that e es(3) by (metis (mono_tags, lifting) last_map)
    then show ?thesis
      using that assms well_sequenced_nth [of "peer_lines s m" "length (peer_lines s m) - 1"]
      by (simp add: peer_ok_def last_conv_nth of_nat_diff Suc_le_eq)
  qed
  then have "peer_claim env s m (component_obj (snd (last es)) (JStr (prefix_digest env (map fst es))))"
    if "peer_lines s m \<noteq> []"
    using that es(2) by (auto simp: peer_claim_def)
  with es(1) e show ?thesis using that by blast
qed

lemma fold_peers_ok:
  assumes "\<forall>m \<in> set slugs. m \<noteq> env_slug env \<longrightarrow> peer_ok (peer_lines s m)" and "distinct slugs"
  shows "\<exists>os. fold_peers env s slugs = Inr os \<and>
    (\<forall>m j. fmlookup os m = Some j \<longrightarrow> m \<noteq> env_slug env \<and> m \<in> set slugs \<and> peer_claim env s m j) \<and>
    (\<forall>m \<in> set slugs. m \<noteq> env_slug env \<and> peer_lines s m \<noteq> [] \<longrightarrow> fmlookup os m \<noteq> None)"
  using assms
proof (induction slugs)
  case (Cons m slugs)
  then obtain os where os: "fold_peers env s slugs = Inr os"
    "\<forall>m j. fmlookup os m = Some j \<longrightarrow> m \<noteq> env_slug env \<and> m \<in> set slugs \<and> peer_claim env s m j"
    "\<forall>m \<in> set slugs. m \<noteq> env_slug env \<and> peer_lines s m \<noteq> [] \<longrightarrow> fmlookup os m \<noteq> None"
    by auto
  show ?case
  proof (cases "m = env_slug env")
    case False
    with Cons.prems have ok: "peer_ok (peer_lines s m)" by simp
    obtain es where es: "peer_entries (peer_lines s m) = Inr es" "es = [] \<longleftrightarrow> peer_lines s m = []"
      "peer_lines s m \<noteq> [] \<longrightarrow>
        peer_claim env s m (component_obj (snd (last es)) (JStr (prefix_digest env (map fst es))))"
      using ok by (rule peer_entries_claim [where env = env])
    with False os show ?thesis by (cases "peer_lines s m = []") auto
  qed (use os in auto)
qed simp

lemma resolve_components_all:
  assumes "\<forall>(m, j) \<in> set xs. resolve_component env s m j = Inr (f m)"
  shows "\<exists>v. resolve_components env s xs = Inr v \<and>
    (\<forall>m. fmlookup v m = (if m \<in> fst ` set xs then Some (f m) else None))"
  using assms by (induction xs) auto

lemma set_sorted_list_of_fmap: "set (sorted_list_of_fmap m) = {(k, v). fmlookup m k = Some v}"
  unfolding sorted_list_of_fmap_def by (auto simp: fmlookup_dom_iff)

lemma all_machine_slugs_iff:
  "set (all_machine_slugs s) = fst ` set (live s) \<union> (\<lambda>p. snd (fst p)) ` set (rotated s)"
  by (auto simp: all_machine_slugs_def)

lemma peer_lines_absent: "m \<notin> set (all_machine_slugs s) \<Longrightarrow> peer_lines s m = []"
proof -
  assume "m \<notin> set (all_machine_slugs s)"
  then have "map_of (live s) m = None" "filter (\<lambda>p. snd (fst p) = m) (rotated s) = []"
    by (auto simp: all_machine_slugs_iff map_of_eq_None_iff filter_empty_conv)
  then show ?thesis by (simp add: peer_lines_def peer_shard_paths_def rotated_shards_def)
qed

lemma distinct_all_machine_slugs: "distinct (all_machine_slugs s)"
  by (simp add: all_machine_slugs_def)

lemma append_event_other: "m \<noteq> env_slug env \<Longrightarrow>
    peer_lines (snd (append_event env ev key s)) m = peer_lines s m"
proof -
  assume m: "m \<noteq> env_slug env"
  obtain r s' where a: "append_event env ev key s = (r, s')" by force
  then have "peer_lines s' m = peer_lines s m"
    using m by (cases rule: append_event_cases) (auto simp: peer_lines_eq)
  with a show ?thesis by simp
qed

text \<open>A fold that stores a marker stores what it computed.\<close>

lemma fold_observed_set_marker:
  assumes "fold_observed_set env s = (Inr (Some marker), s')"
  obtains os where "fold_peers env s (all_machine_slugs s) = Inr os"
    and "append_event env (marker_event env os) None s = (Inr marker, s')"
    and "dget marker ''observed_set'' = JObj os"
proof -
  from assms obtain os where os: "fold_peers env s (all_machine_slugs s) = Inr os"
    and app: "append_event env (marker_event env os) None s = (Inr marker, s')"
    by (auto simp: fold_observed_set_def split: if_splits sum.splits prod.splits pyerr.splits)
  from app have "dget marker ''observed_set'' = JObj os"
  proof (cases rule: append_event_cases)
    case (retry d)
    then show ?thesis using scan_lines_no_key by (metis scan.distinct(3) scan.distinct(7))
  next
    case (appended seq w c clock)
    then show ?thesis by (simp add: dget_stamp_event) (simp add: marker_event_def dget_def)
  qed auto
  with os app show ?thesis by (rule that)
qed

section \<open>Properties of observed sets\<close>

text \<open>C7. What a machine folds it can resolve. When the peers' histories are healthy, a fold that
  stores a marker yields, on resolution right after, one concrete component per peer with a
  non-empty history (its length and the digest of its ids), nothing for the machine itself and
  nothing unknown.\<close>

theorem fold_then_resolve:
  assumes "fold_observed_set env s = (Inr (Some marker), s')"
    and "\<forall>m. m \<noteq> env_slug env \<longrightarrow> peer_ok (peer_lines s m)"
  shows "\<exists>v. resolve_observed_set env marker s' = Inr v \<and>
    (\<forall>m. fmlookup v m =
       (if m \<noteq> env_slug env \<and> peer_lines s m \<noteq> []
        then Some (Concrete (int (length (peer_lines s m)))
               (JStr (prefix_digest env (map line_id (peer_lines s m)))))
        else None))"
proof -
  obtain os where os: "fold_peers env s (all_machine_slugs s) = Inr os"
    and app: "append_event env (marker_event env os) None s = (Inr marker, s')"
    and marker: "dget marker ''observed_set'' = JObj os"
    using assms(1) by (rule fold_observed_set_marker)
  have same: "peer_lines s' m = peer_lines s m" if "m \<noteq> env_slug env" for m
    using append_event_other [OF that, of "marker_event env os" None s] app by simp
  let ?f = "\<lambda>m. Concrete (int (length (peer_lines s m)))
    (JStr (prefix_digest env (map line_id (peer_lines s m))))"
  have claims: "\<forall>m j. fmlookup os m = Some j \<longrightarrow>
      m \<noteq> env_slug env \<and> m \<in> set (all_machine_slugs s) \<and> peer_claim env s m j"
    and present: "\<forall>m \<in> set (all_machine_slugs s).
      m \<noteq> env_slug env \<and> peer_lines s m \<noteq> [] \<longrightarrow> fmlookup os m \<noteq> None"
    using fold_peers_ok [of "all_machine_slugs s" env s] assms(2) os
    by (auto simp: distinct_all_machine_slugs)
  have "resolve_component env s' m j = Inr (?f m)" if "fmlookup os m = Some j" for m j
    using that claims resolve_peer_claim [of s' m env j] assms(2)
    by (simp add: same peer_claim_def)
  then obtain v where v: "resolve_components env s' (sorted_list_of_fmap os) = Inr v"
    "\<forall>m. fmlookup v m = (if m \<in> fst ` set (sorted_list_of_fmap os) then Some (?f m) else None)"
    using resolve_components_all [of "sorted_list_of_fmap os" env s' ?f]
    by (auto simp: set_sorted_list_of_fmap)
  have "m \<in> fst ` set (sorted_list_of_fmap os) \<longleftrightarrow> m \<noteq> env_slug env \<and> peer_lines s m \<noteq> []" for m
    using claims present peer_lines_absent [of m s]
    by (auto simp: set_sorted_list_of_fmap peer_claim_def image_iff)
  with v marker show ?thesis by (simp add: resolve_observed_set_def)
qed

text \<open>The records a resolution looks at: objects with an integer sequence.\<close>

definition sequenced :: "line list \<Rightarrow> line list" where
  "sequenced ls = filter (\<lambda>l. line_seq l \<noteq> None) ls"

lemma claim_scan_Inr:
  "claim_scan n ls = Inr (ids, seqs) \<Longrightarrow>
     seqs = map (the \<circ> line_seq) (sequenced ls) \<and>
     ids = map line_id (filter (\<lambda>l. the (line_seq l) \<le> n) (sequenced ls))"
proof (induction n ls arbitrary: ids seqs rule: claim_scan.induct)
  case (3 n v ls)
  then show ?case
    by (auto simp: sequenced_def res_bind_Inr_iff split: json.splits option.splits if_splits)
qed (auto simp: sequenced_def)

lemma tail_sequence_last:
  assumes "tail_sequence ls = Inr n" and "0 < n"
  shows "ls \<noteq> [] \<and> line_seq (last ls) = Some n"
proof -
  have ne: "ls \<noteq> []" using assms by (auto simp: tail_sequence_def)
  with assms obtain d where d: "last ls = Line (JObj d)"
    by (cases "last ls") (auto simp: tail_sequence_def res_bind_Inr_iff split: json.splits)
  have "has_key d ''sequence''"
    using assms d ne by (auto simp: tail_sequence_def dget_or_def has_key_def split: option.splits)
  with assms d ne show ?thesis
    by (auto simp: tail_sequence_def dget_or_has_key split: option.splits)
qed

lemma claimed_prefix:
  assumes "tail_sequence ls = Inr mx" and "n \<le> mx"
    and "\<not> unknown_from (map (the \<circ> line_seq) (sequenced ls)) n" and "i < nat n"
  shows "i < length (sequenced ls) \<and> the (line_seq (sequenced ls ! i)) = int i + 1"
proof (cases "well_formedness (map (the \<circ> line_seq) (sequenced ls))")
  case None
  then have all: "\<forall>j < length (sequenced ls). the (line_seq (sequenced ls ! j)) = int j + 1"
    by (simp add: well_formedness_def well_formed_from_None)
  have last: "ls \<noteq> []" "line_seq (last ls) = Some mx"
    using tail_sequence_last [OF assms(1)] assms(2,4) by auto
  then have "sequenced ls = sequenced (butlast ls) @ [last ls]"
    using append_butlast_last_id [of ls] unfolding sequenced_def
    by (metis (mono_tags, lifting) filter.simps(1) filter.simps(2) filter_append option.distinct(1))
  then have "mx = int (length (sequenced ls))"
    using all last(2) by (metis (no_types, lifting) add.commute length_append_singleton lessI
        nth_append_length of_nat_Suc option.sel)
  with all assms(2,4) show ?thesis by auto
next
  case (Some du)
  obtain d u where du: "du = (d, u)" by (cases du)
  with Some obtain k where k: "k < length (sequenced ls)" "d = 1 + int k"
    "\<forall>j < k. the (line_seq (sequenced ls ! j)) = 1 + int j"
    "u = min d (the (line_seq (sequenced ls ! k)))"
    using well_formed_from_Some [of 1 "map (the \<circ> line_seq) (sequenced ls)" d u]
    by (auto simp: well_formedness_def)
  moreover have "n < u" using assms(3) Some du by (simp add: unknown_from_def)
  ultimately show ?thesis using assms(4) by auto
qed

text \<open>C8. A concrete component is justified by the bytes that are there, whatever state the shard
  is in: the first \<open>n\<close> sequenced records of the peer carry the sequences 1 to \<open>n\<close> with no gap,
  duplicate or reordering, and the digest is that of the ids at or below the claim. A truncated or
  holed prefix therefore never resolves concretely.\<close>

theorem concrete_is_justified:
  assumes "resolve_component env s m claim = Inr (Concrete n dg)"
  shows "nat n \<le> length (sequenced (peer_lines s m)) \<and>
    (\<forall>i < nat n. line_seq (sequenced (peer_lines s m) ! i) = Some (int i + 1)) \<and>
    dg = JStr (prefix_digest env
      (map line_id (filter (\<lambda>l. the (line_seq l) \<le> n) (sequenced (peer_lines s m)))))"
proof -
  let ?ls = "peer_lines s m"
  obtain mx ids seqs where mx: "tail_sequence ?ls = Inr mx" "n \<le> mx"
    and scan: "claim_scan n ?ls = Inr (ids, seqs)"
    and ok: "\<not> unknown_from seqs n" and dg: "dg = JStr (prefix_digest env ids)"
    using assms
    by (auto simp: resolve_component_def Let_def res_bind_Inr_iff
        split: json.splits option.splits if_splits)
  have pre: "i < length (sequenced ?ls) \<and> the (line_seq (sequenced ?ls ! i)) = int i + 1"
    if "i < nat n" for i
    using claimed_prefix [OF mx _ that] ok claim_scan_Inr [OF scan] by simp
  have some: "line_seq (sequenced ?ls ! i) \<noteq> None" if "i < length (sequenced ?ls)" for i
    using nth_mem [OF that] by (simp add: sequenced_def)
  have "nat n \<le> length (sequenced ?ls)"
    using pre [of "length (sequenced ?ls)"] by (cases "nat n \<le> length (sequenced ?ls)") auto
  moreover have "line_seq (sequenced ?ls ! i) = Some (int i + 1)" if "i < nat n" for i
    using pre [OF that] some [of i] by auto
  ultimately show ?thesis using dg claim_scan_Inr [OF scan] by simp
qed

lemma peer_ok_step:
  assumes "store_step s t" and "peer_ok (live_lines s m)"
  shows "peer_ok (live_lines t m)"
  using assms(1,2)
proof (rule store_step_live)
  fix ls seq w c clock now e machine
  assume "peer_ok ls" "tail_state ls = Inr (seq, w, c)" "validate_event_fields e = Inr ()"
  then show "peer_ok (ls @ [Line (JObj (stamp_event machine (seq + 1) clock e))])"
    by (auto simp: peer_ok_def well_sequenced_step validate_event_fields_def split: if_splits)
qed

lemma peer_ok_steps: "store_step\<^sup>*\<^sup>* s t \<Longrightarrow> peer_ok (live_lines s m) \<Longrightarrow> peer_ok (live_lines t m)"
  by (induction rule: rtranclp_induct) (auto intro: peer_ok_step)

text \<open>A concrete component stays concrete: whatever machines append afterwards, the claim
  resolves to the same component.\<close>

theorem concrete_is_stable:
  assumes "resolve_component env s m claim = Inr (Concrete n dg)"
    and "peer_ok (live_lines s m)" and "rotated_history s m = []" and "store_step\<^sup>*\<^sup>* s t"
  shows "resolve_component env t m claim = Inr (Concrete n dg)"
proof -
  have peer: "peer_lines s m = live_lines s m" "peer_lines t m = live_lines t m"
    using assms(3) rotated_history_cong [OF store_steps_rotated [OF assms(4)]]
    by (simp_all add: peer_lines_eq)
  obtain c where c: "claim = JObj c" "as_int (dget c ''sequence'') = Some n"
    using assms(1)
    by (auto simp: resolve_component_def Let_def res_bind_Inr_iff
        split: json.splits option.splits if_splits)
  obtain ext where ext: "live_lines t m = live_lines s m @ ext"
    using store_steps_prefix [OF assms(4)] by (auto simp: prefix_def)
  have n: "n \<le> int (length (live_lines s m))"
    and dg: "dget c ''prefix_digest'' =
      JStr (prefix_digest env (map line_id (take (nat n) (live_lines s m))))"
      "dg = dget c ''prefix_digest''"
    using assms(1) resolve_component_healthy [of s m claim c n env, unfolded peer, OF assms(2) c]
    by (simp_all split: if_split_asm)
  have "peer_ok (live_lines t m)" using assms(2,4) peer_ok_steps by blast
  then show ?thesis
    using resolve_component_healthy [of t m claim c n env, unfolded peer, OF _ c] n dg
    by (simp add: ext)
qed

section \<open>Folding again\<close>

lemma fold_peers_cong:
  assumes "env_slug env' = env_slug env" and "env_sha_compact env' = env_sha_compact env"
    and "\<forall>m. m \<noteq> env_slug env \<longrightarrow> peer_lines t m = peer_lines s m"
  shows "fold_peers env' t slugs = fold_peers env s slugs"
proof -
  have pd: "prefix_digest env' ids = prefix_digest env ids" for ids
    using assms(2) by (simp add: prefix_digest_def)
  show ?thesis using assms(1,3) by (induction slugs) (auto simp: pd cong: if_cong)
qed

lemma fold_peers_filter:
  "fold_peers env s slugs = fold_peers env s (filter (\<lambda>m. m \<noteq> env_slug env) slugs)"
  by (induction slugs) auto

lemma all_machine_slugs_write_live:
  "set (all_machine_slugs (write_live m ls s)) = insert m (set (all_machine_slugs s))"
proof -
  have "fst ` set (AList.update m ls (live s)) = insert m (fst ` set (live s))"
    unfolding set_map [symmetric] update_keys by auto
  then show ?thesis by (simp add: all_machine_slugs_iff) (simp add: write_live_def)
qed

lemma append_event_slugs:
  assumes "append_event env ev key s = (r, s')"
  shows "filter (\<lambda>m. m \<noteq> env_slug env) (all_machine_slugs s') =
    filter (\<lambda>m. m \<noteq> env_slug env) (all_machine_slugs s)"
proof -
  have set: "set (all_machine_slugs s') - {env_slug env} = set (all_machine_slugs s) - {env_slug env}"
    using assms
    by (cases rule: append_event_cases) (auto simp: all_machine_slugs_write_live)
  have srt: "sorted (all_machine_slugs u)" for u by (simp add: all_machine_slugs_def)
  show ?thesis
    by (rule sorted_distinct_set_unique)
      (use set srt distinct_all_machine_slugs in \<open>auto intro: sorted_wrt_filter\<close>)
qed

text \<open>Folding is idempotent: right after a fold stored a marker, folding again on the same machine
  finds it and changes nothing, whatever the clock says.\<close>

theorem fold_again_is_noop:
  assumes "fold_observed_set env s = (Inr (Some marker), s')"
    and "env_slug env' = env_slug env" and "env_sha_compact env' = env_sha_compact env"
  shows "fold_observed_set env' s' = (Inr None, s')"
proof -
  obtain os where os: "fold_peers env s (all_machine_slugs s) = Inr os"
    and app: "append_event env (marker_event env os) None s = (Inr marker, s')"
    using assms(1) by (rule fold_observed_set_marker)
  let ?slugs = "filter (\<lambda>m. m \<noteq> env_slug env) (all_machine_slugs s)"
  have same: "peer_lines s' m = peer_lines s m" if "m \<noteq> env_slug env" for m
    using append_event_other [OF that, of "marker_event env os" None s] app by simp
  have "fold_peers env' s' (all_machine_slugs s') = fold_peers env s' (all_machine_slugs s')"
    by (rule fold_peers_cong) (use assms in auto)
  also have "\<dots> = fold_peers env s' ?slugs"
    using append_event_slugs [OF app] fold_peers_filter [of env s' "all_machine_slugs s'"] by simp
  also have "\<dots> = fold_peers env s ?slugs" by (rule fold_peers_cong) (use same in auto)
  also have "\<dots> = Inr os" using os fold_peers_filter [of env s "all_machine_slugs s"] by simp
  finally have fold: "fold_peers env' s' (all_machine_slugs s') = Inr os" .
  have id: "marker_id env' os = marker_id env os" using assms(2,3) by (simp add: marker_id_def)
  have "dir_exists s' \<and> list_ex (\<lambda>d. dget d ''id'' = JStr (marker_id env os))
      (obj_records (live_lines s' (env_slug env)))"
    using app
  proof (cases rule: append_event_cases)
    case (retry d)
    then show ?thesis using scan_lines_no_key by (metis scan.distinct(3) scan.distinct(7))
  next
    case (appended seq w c clock)
    then show ?thesis by (simp add: marker_event_def)
  qed auto
  then show ?thesis by (simp add: fold_observed_set_def fold id assms(2))
qed

section \<open>Worked examples\<close>

text \<open>A second machine that has appended two events, seen from the first.\<close>

definition ex_peer :: store where
  "ex_peer = snd (append_events (ex_env\<lparr>env_slug := ''peer''\<rparr>)
     [ex_event ''evt-p'', ex_event ''evt-q''] empty_store)"

definition ex_folded :: store where
  "ex_folded = snd (fold_observed_set ex_env ex_peer)"

definition ex_marker :: dict where
  "ex_marker = stamp_event ''rig'' 1 (5, 0)
     (marker_event ex_env (fmap_of_list [(''peer'', component_obj (JInt 2)
        (JStr (prefix_digest ex_env [JStr ''evt-p'', JStr ''evt-q''])))]))"

definition ex_claim :: json where
  "ex_claim = component_obj (JInt 2) (JStr (prefix_digest ex_env [JStr ''evt-p'', JStr ''evt-q'']))"

lemma ex_fold: "fold_observed_set ex_env ex_peer = (Inr (Some ex_marker), ex_folded)"
  by code_simp

lemma ex_peer_lines: "map line_id (peer_lines ex_peer ''peer'') = [JStr ''evt-p'', JStr ''evt-q'']"
  "length (peer_lines ex_peer ''peer'') = 2" "peer_ok (peer_lines ex_peer ''peer'')"
  by code_simp+

lemma ex_peer_others: "m \<noteq> ''peer'' \<Longrightarrow> peer_lines ex_peer m = []"
proof (rule peer_lines_absent)
  have "set (all_machine_slugs ex_peer) = {''peer''}" by code_simp
  then show "m \<noteq> ''peer'' \<Longrightarrow> m \<notin> set (all_machine_slugs ex_peer)" by simp
qed

theorem fold_then_resolve_witness:
  "\<exists>v. resolve_observed_set ex_env ex_marker ex_folded = Inr v \<and>
     fmlookup v ''peer'' = Some (Concrete 2
       (JStr (prefix_digest ex_env [JStr ''evt-p'', JStr ''evt-q''])))"
proof -
  have "peer_ok (peer_lines ex_peer m)" for m
    using ex_peer_lines(3) ex_peer_others [of m]
    by (cases "m = ''peer''") (auto simp: peer_ok_def well_sequenced_def)
  moreover have "peer_lines ex_peer ''peer'' \<noteq> []" using ex_peer_lines(2) by auto
  ultimately show ?thesis
    using fold_then_resolve [OF ex_fold] ex_peer_lines(1,2) by auto
qed

lemma ex_claim_resolves:
  "resolve_component ex_env ex_peer ''peer'' ex_claim =
     Inr (Concrete 2 (JStr (prefix_digest ex_env [JStr ''evt-p'', JStr ''evt-q''])))"
  by code_simp

theorem concrete_is_justified_witness:
  "line_seq (sequenced (peer_lines ex_peer ''peer'') ! 0) = Some 1 \<and>
   line_seq (sequenced (peer_lines ex_peer ''peer'') ! 1) = Some 2"
  using concrete_is_justified [OF ex_claim_resolves] by (simp add: numeral_2_eq_2 All_less_Suc)

theorem concrete_is_stable_witness:
  "resolve_component ex_env ex_folded ''peer'' ex_claim =
     Inr (Concrete 2 (JStr (prefix_digest ex_env [JStr ''evt-p'', JStr ''evt-q''])))"
proof (rule concrete_is_stable [OF ex_claim_resolves])
  show "peer_ok (live_lines ex_peer ''peer'')" by code_simp
  show "rotated_history ex_peer ''peer'' = []" by code_simp
  obtain os where "append_event ex_env (marker_event ex_env os) None ex_peer = (Inr ex_marker, ex_folded)"
    using ex_fold by (rule fold_observed_set_marker)
  then show "store_step\<^sup>*\<^sup>* ex_peer ex_folded" by (intro r_into_rtranclp store_step.one)
qed

theorem fold_again_is_noop_witness: "fold_observed_set ex_env ex_folded = (Inr None, ex_folded)"
  by (rule fold_again_is_noop [OF ex_fold]) simp_all

text \<open>
  Resolution of the own position reads the live shard only: after a rotation the marker in effect
  for an event written before the rotation is not found any more.
\<close>

definition ex_later :: store where
  "ex_later = snd (append_event ex_env (ex_event ''evt-z'') None ex_folded)"

definition ex_last :: dict where
  "ex_last = stamp_event ''rig'' 2 (5, 1) (ex_event ''evt-z'')"

theorem rotation_hides_markers:
  "map_sum id (map_option fmdom) (resolve_observed_set_for_event ex_env ex_last ex_later) =
     Inr (Some {|''peer''|})"
  "resolve_observed_set_for_event ex_env ex_last
     (snd (rotate_month ex_env ''2026-08'' None ex_later)) = Inr None"
  by code_simp+

end
