(* ===== verification/Tracker_Causal.thy ===== *)
theory Tracker_Causal
  imports Tracker_Observed
begin

text \<open>
  The causal comparator (\<open>coordinator_core/tracker_store.py\<close>, from \<open>CAUSAL_ORDER_EQUAL\<close> on): the
  compare of one component, of two observed-set vectors, and of two events with the
  \<open>(machine, id)\<close> tiebreak. The laws of the component compare are a locale; that vector dominance
  is a strict partial order is proved there once.
\<close>

section \<open>Operations\<close>

datatype comp_order = CLt | CGt | CEq | CUnknown

datatype causal_order =
    CAUSAL_ORDER_EQUAL
  | CAUSAL_ORDER_A_DOMINATES
  | CAUSAL_ORDER_B_DOMINATES
  | CAUSAL_ORDER_CONCURRENT
  | CAUSAL_ORDER_INDETERMINATE

text \<open>\<open>None\<close> is \<open>_ABSENT\<close>, a key missing from that side.\<close>

fun compare_component :: "component option \<Rightarrow> component option \<Rightarrow> comp_order" where
  "compare_component (Some Unknown) b = CUnknown"
| "compare_component a (Some Unknown) = CUnknown"
| "compare_component (Some (Concrete m d)) (Some (Concrete n e)) =
     (if m \<noteq> n then (if m < n then CLt else CGt) else if d = e then CEq else CUnknown)"
| "compare_component None (Some (Concrete n e)) =
     (if 0 \<noteq> n then (if 0 < n then CLt else CGt) else CEq)"
| "compare_component (Some (Concrete m d)) None =
     (if m \<noteq> 0 then (if m < 0 then CLt else CGt) else CEq)"
| "compare_component None None = CEq"

definition aggregate :: "(string \<Rightarrow> comp_order) \<Rightarrow> string fset \<Rightarrow> causal_order" where
  "aggregate result keys =
     (let saw_unknown = fBex keys (\<lambda>k. result k = CUnknown);
          saw_lt = fBex keys (\<lambda>k. result k = CLt);
          saw_gt = fBex keys (\<lambda>k. result k = CGt) in
      if saw_unknown then CAUSAL_ORDER_INDETERMINATE
      else if saw_lt \<and> saw_gt then CAUSAL_ORDER_CONCURRENT
      else if saw_lt then CAUSAL_ORDER_B_DOMINATES
      else if saw_gt then CAUSAL_ORDER_A_DOMINATES
      else CAUSAL_ORDER_EQUAL)"

definition vector_verdict ::
  "('c option \<Rightarrow> 'c option \<Rightarrow> comp_order) \<Rightarrow> (string, 'c) fmap \<Rightarrow> (string, 'c) fmap \<Rightarrow> causal_order" where
  "vector_verdict cmp a b =
     aggregate (\<lambda>k. cmp (fmlookup a k) (fmlookup b k)) (fmdom a |\<union>| fmdom b)"

fun compare_observed_set_vectors :: "vector option \<Rightarrow> vector option \<Rightarrow> causal_order" where
  "compare_observed_set_vectors (Some a) (Some b) = vector_verdict compare_component a b"
| "compare_observed_set_vectors _ _ = CAUSAL_ORDER_INDETERMINATE"

definition fallback_tiebreak_key :: "dict \<Rightarrow> (string \<times> string) res" where
  "fallback_tiebreak_key event =
     (case dget event ''machine'' of
        JStr machine \<Rightarrow>
          if machine = [] then Inl (TrackerStoreError ''event is missing required field: machine'')
          else (case dget event ''id'' of
                  JStr i \<Rightarrow>
                    if i = [] then Inl (TrackerStoreError ''event is missing required field: id'')
                    else Inr (machine, i)
                | _ \<Rightarrow> Inl (TrackerStoreError ''event is missing required field: id''))
      | _ \<Rightarrow> Inl (TrackerStoreError ''event is missing required field: machine''))"

definition key_cmp :: "'a::linorder \<Rightarrow> 'a \<Rightarrow> int" where
  "key_cmp key_a key_b = (if key_a = key_b then 0 else if key_a < key_b then - 1 else 1)"

definition tiebreak :: "dict \<Rightarrow> dict \<Rightarrow> int res" where
  "tiebreak event_a event_b =
     res_bind (fallback_tiebreak_key event_a) (\<lambda>key_a.
       res_bind (fallback_tiebreak_key event_b) (\<lambda>key_b. Inr (key_cmp key_a key_b)))"

definition compare_events_causal_order :: "env \<Rightarrow> dict \<Rightarrow> dict \<Rightarrow> store \<Rightarrow> int res" where
  "compare_events_causal_order env event_a event_b s =
     res_bind (resolve_observed_set_union_for_event env event_a s) (\<lambda>vector_a.
       res_bind (resolve_observed_set_union_for_event env event_b s) (\<lambda>vector_b.
         case compare_observed_set_vectors vector_a vector_b of
           CAUSAL_ORDER_A_DOMINATES \<Rightarrow> Inr 1
         | CAUSAL_ORDER_B_DOMINATES \<Rightarrow> Inr (- 1)
         | _ \<Rightarrow> tiebreak event_a event_b))"

section \<open>The laws of a component compare\<close>

fun flip_comp :: "comp_order \<Rightarrow> comp_order" where
  "flip_comp CLt = CGt"
| "flip_comp CGt = CLt"
| "flip_comp c = c"

fun flip_causal :: "causal_order \<Rightarrow> causal_order" where
  "flip_causal CAUSAL_ORDER_A_DOMINATES = CAUSAL_ORDER_B_DOMINATES"
| "flip_causal CAUSAL_ORDER_B_DOMINATES = CAUSAL_ORDER_A_DOMINATES"
| "flip_causal c = c"

lemma flip_comp_iff [simp]:
  "flip_comp c = CLt \<longleftrightarrow> c = CGt" "flip_comp c = CGt \<longleftrightarrow> c = CLt"
  "flip_comp c = CEq \<longleftrightarrow> c = CEq" "flip_comp c = CUnknown \<longleftrightarrow> c = CUnknown"
  by (cases c; simp)+

lemma aggregate_flip: "aggregate (\<lambda>k. flip_comp (r k)) keys = flip_causal (aggregate r keys)"
  by (simp add: aggregate_def Let_def)

lemma aggregate_A_dominates:
  "aggregate r keys = CAUSAL_ORDER_A_DOMINATES \<longleftrightarrow>
     fBall keys (\<lambda>k. r k = CGt \<or> r k = CEq) \<and> fBex keys (\<lambda>k. r k = CGt)"
proof -
  have "r k = CGt \<or> r k = CEq \<longleftrightarrow> r k \<noteq> CUnknown \<and> r k \<noteq> CLt" for k by (cases "r k") auto
  then show ?thesis by (auto simp: aggregate_def Let_def)
qed

lemma aggregate_indeterminate:
  "aggregate r keys = CAUSAL_ORDER_INDETERMINATE \<longleftrightarrow> fBex keys (\<lambda>k. r k = CUnknown)"
  by (auto simp: aggregate_def Let_def)

text \<open>
  What dominance relies on: the compare of the swapped pair is the flipped one, an absent pair is
  equal, and on the admissible components "greater or equal" is transitive, strictly so when one
  of the two steps is strict.
\<close>

locale component_order =
  fixes cmp :: "'c option \<Rightarrow> 'c option \<Rightarrow> comp_order"
    and adm :: "'c \<Rightarrow> bool"
  assumes cmp_flip: "cmp y x = flip_comp (cmp x y)"
    and cmp_absent: "cmp None None = CEq"
    and cmp_trans: "pred_option adm x \<Longrightarrow> pred_option adm y \<Longrightarrow> pred_option adm z \<Longrightarrow>
      cmp x y \<in> {CGt, CEq} \<Longrightarrow> cmp y z \<in> {CGt, CEq} \<Longrightarrow>
      cmp x z = (if cmp x y = CEq then cmp y z else CGt)"
begin

lemma verdict_flip: "vector_verdict cmp b a = flip_causal (vector_verdict cmp a b)"
proof -
  have "(\<lambda>k. cmp (fmlookup b k) (fmlookup a k)) =
      (\<lambda>k. flip_comp (cmp (fmlookup a k) (fmlookup b k)))"
    using cmp_flip by blast
  then show ?thesis by (simp add: vector_verdict_def aggregate_flip funion_commute)
qed

lemma dominates_pointwise:
  "vector_verdict cmp a b = CAUSAL_ORDER_A_DOMINATES \<longleftrightarrow>
     (\<forall>k. cmp (fmlookup a k) (fmlookup b k) \<in> {CGt, CEq}) \<and>
     (\<exists>k. cmp (fmlookup a k) (fmlookup b k) = CGt)"
proof -
  have out: "cmp (fmlookup a k) (fmlookup b k) = CEq" if "k |\<notin>| fmdom a |\<union>| fmdom b" for k
    using that by (simp add: fmdom_notD cmp_absent)
  then have "fBex (fmdom a |\<union>| fmdom b) (\<lambda>k. cmp (fmlookup a k) (fmlookup b k) = CGt) \<longleftrightarrow>
      (\<exists>k. cmp (fmlookup a k) (fmlookup b k) = CGt)"
    by (metis (mono_tags, lifting) comp_order.distinct(7) fBexE fBexI)
  moreover have "fBall (fmdom a |\<union>| fmdom b) (\<lambda>k. cmp (fmlookup a k) (fmlookup b k) = CGt \<or>
      cmp (fmlookup a k) (fmlookup b k) = CEq) \<longleftrightarrow>
      (\<forall>k. cmp (fmlookup a k) (fmlookup b k) \<in> {CGt, CEq})"
    using out by auto
  ultimately show ?thesis by (simp add: vector_verdict_def aggregate_A_dominates)
qed

lemma dominates_irrefl: "vector_verdict cmp a a \<noteq> CAUSAL_ORDER_A_DOMINATES"
  using verdict_flip [of a a] by (cases "vector_verdict cmp a a") auto

lemma dominates_trans:
  assumes "fmpred (\<lambda>_. adm) a" and "fmpred (\<lambda>_. adm) b" and "fmpred (\<lambda>_. adm) c"
    and "vector_verdict cmp a b = CAUSAL_ORDER_A_DOMINATES"
    and "vector_verdict cmp b c = CAUSAL_ORDER_A_DOMINATES"
  shows "vector_verdict cmp a c = CAUSAL_ORDER_A_DOMINATES"
proof -
  have adm: "pred_option adm (fmlookup v k)" if "fmpred (\<lambda>_. adm) v" for v k
    using that by (auto simp: option.pred_set dest: fmpredD)
  have ge: "cmp (fmlookup a k) (fmlookup b k) \<in> {CGt, CEq}" "cmp (fmlookup b k) (fmlookup c k) \<in> {CGt, CEq}"
    for k using assms(4,5) by (auto simp: dominates_pointwise)
  have step: "cmp (fmlookup a k) (fmlookup c k) =
      (if cmp (fmlookup a k) (fmlookup b k) = CEq then cmp (fmlookup b k) (fmlookup c k) else CGt)" for k
    by (rule cmp_trans) (use ge [of k] adm assms(1-3) in auto)
  obtain k where k: "cmp (fmlookup a k) (fmlookup b k) = CGt"
    using assms(4) by (auto simp: dominates_pointwise)
  then have "cmp (fmlookup a k) (fmlookup c k) = CGt" by (simp add: step)
  moreover have "cmp (fmlookup a i) (fmlookup c i) \<in> {CGt, CEq}" for i using ge [of i] by (simp add: step)
  ultimately show ?thesis unfolding dominates_pointwise by blast
qed

end

text \<open>A concrete component names at least one event; a fold never emits an empty one.\<close>

fun positive :: "component \<Rightarrow> bool" where
  "positive (Concrete n d) = (0 < n)"
| "positive Unknown = True"

lemma compare_component_Unknown [simp]: "compare_component x (Some Unknown) = CUnknown"
  by (cases "(x, Some Unknown)" rule: compare_component.cases) auto

interpretation store_components: component_order compare_component positive
proof (unfold_locales, goal_cases)
  case (1 y x)
  show ?case by (cases "(x, y)" rule: compare_component.cases) auto
next
  case (3 x y z)
  then show ?case
    by (cases "(x, y)" rule: compare_component.cases; cases "(y, z)" rule: compare_component.cases)
      (auto split: if_splits)
qed simp

section \<open>Properties of the comparator\<close>

lemma vectors_flip:
  "compare_observed_set_vectors b a = flip_causal (compare_observed_set_vectors a b)"
  by (cases a; cases b) (simp_all, rule store_components.verdict_flip)

lemma key_cmp_flip: "key_cmp b a = - key_cmp a b"
  by (auto simp: key_cmp_def)

lemma tiebreak_flip: "tiebreak a b = Inr k \<Longrightarrow> tiebreak b a = Inr (- k)"
  unfolding tiebreak_def
  by (cases "fallback_tiebreak_key a"; cases "fallback_tiebreak_key b") (auto intro: key_cmp_flip)

text \<open>The compare of two vectors is symmetric in its two sides: swapping them swaps the two
  dominance answers and keeps the other three.\<close>

theorem vector_compare_flip:
  "compare_observed_set_vectors b a = flip_causal (compare_observed_set_vectors a b)"
  by (rule vectors_flip)

text \<open>Dominance is a strict partial order on resolved vectors: irreflexive, and transitive as
  long as present components name at least one event.\<close>

theorem dominance_strict_order:
  assumes "fmpred (\<lambda>_. positive) a" and "fmpred (\<lambda>_. positive) b" and "fmpred (\<lambda>_. positive) c"
  shows "compare_observed_set_vectors (Some a) (Some a) \<noteq> CAUSAL_ORDER_A_DOMINATES \<and>
    (compare_observed_set_vectors (Some a) (Some b) = CAUSAL_ORDER_A_DOMINATES \<longrightarrow>
     compare_observed_set_vectors (Some b) (Some c) = CAUSAL_ORDER_A_DOMINATES \<longrightarrow>
     compare_observed_set_vectors (Some a) (Some c) = CAUSAL_ORDER_A_DOMINATES)"
  using store_components.dominates_irrefl [of a] store_components.dominates_trans [OF assms]
  by simp

text \<open>An unknown component is never outvoted: if either vector has one, whatever the other
  components say, the answer is indeterminate; and a decided answer means that no component of
  either side was unknown and no two histories of equal length had different digests.\<close>

theorem unknown_propagates:
  "compare_observed_set_vectors (Some a) (Some b) = CAUSAL_ORDER_INDETERMINATE \<longleftrightarrow>
     (\<exists>k. fmlookup a k = Some Unknown \<or> fmlookup b k = Some Unknown \<or>
        (\<exists>n d e. fmlookup a k = Some (Concrete n d) \<and> fmlookup b k = Some (Concrete n e) \<and> d \<noteq> e))"
proof -
  have unk: "compare_component x y = CUnknown \<longleftrightarrow> x = Some Unknown \<or> y = Some Unknown \<or>
      (\<exists>n d e. x = Some (Concrete n d) \<and> y = Some (Concrete n e) \<and> d \<noteq> e)" for x y
    by (cases "(x, y)" rule: compare_component.cases) auto
  have dom: "k |\<in>| fmdom a |\<union>| fmdom b"
    if "compare_component (fmlookup a k) (fmlookup b k) = CUnknown" for k
    using that by (auto simp: unk intro: fmdomI)
  have "compare_observed_set_vectors (Some a) (Some b) = CAUSAL_ORDER_INDETERMINATE \<longleftrightarrow>
      (\<exists>k. compare_component (fmlookup a k) (fmlookup b k) = CUnknown)"
    using dom by (auto simp: vector_verdict_def aggregate_indeterminate)
  then show ?thesis by (simp add: unk)
qed

text \<open>The event comparator is antisymmetric: swapping the events negates the result, so that
  it never depends on the side an event is passed on.\<close>

theorem compare_events_antisym:
  assumes "compare_events_causal_order env a b s = Inr k"
  shows "compare_events_causal_order env b a s = Inr (- k)"
proof -
  obtain va vb where va: "resolve_observed_set_union_for_event env a s = Inr va"
    and vb: "resolve_observed_set_union_for_event env b s = Inr vb"
    using assms by (auto simp: compare_events_causal_order_def res_bind_Inr_iff)
  have flip: "compare_observed_set_vectors vb va = flip_causal (compare_observed_set_vectors va vb)"
    by (rule vectors_flip)
  show ?thesis
    using assms unfolding compare_events_causal_order_def va vb res_bind_simps flip
    by (cases "compare_observed_set_vectors va vb")
      (auto intro: tiebreak_flip)
qed

text \<open>No fold marker lies between two positions of a shard.\<close>

fun marker_between :: "int \<Rightarrow> int \<Rightarrow> line \<Rightarrow> bool" where
  "marker_between i j (Line (JObj d)) =
     (dget d ''kind'' = JStr ''observed_set_fold'' \<and>
      (case as_int (dget d ''sequence'') of None \<Rightarrow> False | Some q \<Rightarrow> i \<le> q \<and> q < j))"
| "marker_between i j _ = False"

lemma latest_marker_window:
  "i \<le> j \<Longrightarrow> list_all (\<lambda>l. \<not> marker_between i j l) ls \<Longrightarrow>
     latest_marker j ls best = latest_marker i ls best"
proof (induction j ls best rule: latest_marker.induct)
  case (3 j v ls best)
  show ?case
  proof (cases v)
    case (JObj d)
    with 3 show ?thesis by (auto simp: Let_def split: option.splits)
  qed auto
qed auto

text \<open>Two events of one machine in the same fold window are ordered by their own sequence: the
  later one dominates, whatever their ids.\<close>

theorem same_window_ordered:
  assumes "event_position e1 = Inr (m, i)" and "event_position e2 = Inr (m, j)" and "i < j"
    and "peer_ok (live_lines s m)" and "list_all (\<lambda>l. \<not> marker_between i j l) (live_lines s m)"
    and "resolve_observed_set_for_event env e1 s = Inr (Some v)"
    and "\<forall>k. fmlookup v k \<noteq> Some Unknown"
  shows "compare_events_causal_order env e1 e2 s = Inr (- 1)"
proof -
  have v2: "resolve_observed_set_for_event env e2 s = Inr (Some v)"
    using assms(1-3,6) latest_marker_window [OF _ assms(5)]
    by (simp add: resolve_observed_set_for_event_def)
  have self: "\<exists>d. resolve_self_component env m n s = Inr (Concrete n d)" for n
    using assms(4) claim_scan_ok [OF peer_ok_all [OF assms(4)]]
    by (simp add: resolve_self_component_def peer_ok_def unknown_from_well_sequenced)
  obtain d1 d2 where d: "resolve_self_component env m i s = Inr (Concrete i d1)"
      "resolve_self_component env m j s = Inr (Concrete j d2)"
    using self by metis
  let ?w1 = "fmupd m (Concrete i d1) v" and ?w2 = "fmupd m (Concrete j d2) v"
  have same: "compare_component x x = CEq" if "x \<noteq> Some Unknown" for x
    using that by (cases "(x, x)" rule: compare_component.cases) auto
  have "vector_verdict compare_component ?w2 ?w1 = CAUSAL_ORDER_A_DOMINATES"
    unfolding store_components.dominates_pointwise
    using assms(3,7) same by (auto intro!: exI [of _ m])
  then have "vector_verdict compare_component ?w1 ?w2 = CAUSAL_ORDER_B_DOMINATES"
    using store_components.verdict_flip [of ?w1 ?w2] by simp
  then show ?thesis
    using assms(1,2,6) v2 d
    by (simp add: compare_events_causal_order_def resolve_observed_set_union_for_event_def)
qed

section \<open>Worked examples\<close>

definition vec :: "(string \<times> int) list \<Rightarrow> vector" where
  "vec xs = fmap_of_list (map (\<lambda>(m, n). (m, Concrete n (JInt n))) xs)"

theorem dominance_strict_order_witness:
  "compare_observed_set_vectors (Some (vec [(''a'', 3), (''b'', 1)])) (Some (vec [(''a'', 1)])) =
     CAUSAL_ORDER_A_DOMINATES"
proof -
  let ?a = "vec [(''a'', 3), (''b'', 1)]" and ?b = "vec [(''a'', 2)]" and ?c = "vec [(''a'', 1)]"
  have "fmpred (\<lambda>_. positive) ?a" "fmpred (\<lambda>_. positive) ?b" "fmpred (\<lambda>_. positive) ?c"
    by code_simp+
  moreover have "compare_observed_set_vectors (Some ?a) (Some ?b) = CAUSAL_ORDER_A_DOMINATES"
    "compare_observed_set_vectors (Some ?b) (Some ?c) = CAUSAL_ORDER_A_DOMINATES" by code_simp+
  ultimately show ?thesis using dominance_strict_order [of ?a ?b ?c] by blast
qed

text \<open>The machine of the previous examples after its fold: two more events in one window.\<close>

definition ex_two :: store where
  "ex_two = snd (append_event ex_env (ex_event ''evt-a'') None ex_later)"

definition ex_first :: dict where
  "ex_first = stamp_event ''rig'' 3 (5, 2) (ex_event ''evt-a'')"

theorem compare_events_antisym_witness:
  "compare_events_causal_order ex_env ex_first ex_last ex_two = Inr 1"
proof -
  have "compare_events_causal_order ex_env ex_last ex_first ex_two = Inr (- 1)" by code_simp
  then show ?thesis using compare_events_antisym by fastforce
qed

theorem same_window_ordered_witness:
  "compare_events_causal_order ex_env ex_last ex_first ex_two = Inr (- 1)"
proof (rule same_window_ordered [where m = "''rig''" and i = 2 and j = 3])
  show "event_position ex_last = Inr (''rig'', 2)" "event_position ex_first = Inr (''rig'', 3)"
    by code_simp+
  show "peer_ok (live_lines ex_two ''rig'')" by code_simp
  show "list_all (\<lambda>l. \<not> marker_between 2 3 l) (live_lines ex_two ''rig'')" by code_simp
  show "resolve_observed_set_for_event ex_env ex_last ex_two = Inr (Some (fmap_of_list
      [(''peer'', Concrete 2 (JStr (prefix_digest ex_env [JStr ''evt-p'', JStr ''evt-q''])))]))"
    by code_simp
qed auto

section \<open>The tiebreak is not a linear extension\<close>

text \<open>
  \<open>compare_events_causal_order\<close> is documented as a total order over applied events, suitable for
  \<open>functools.cmp_to_key\<close>. Causal pairs and tiebreak pairs do not combine transitively: here \<open>x\<close>
  (machine c) was observed by \<open>y\<close> (machine a) and sorts before it, while \<open>z\<close> (machine b) is
  concurrent with both and falls between a and c in the tiebreak, so that x < y < z < x.
\<close>

definition on_machine :: "string \<Rightarrow> env" where
  "on_machine m = ex_env\<lparr>env_slug := m\<rparr>"

definition ex_fork :: store where
  "ex_fork = foldl (\<lambda>s f. f s)
     \<lparr>dir_exists = True, live = [(''a'', []), (''b'', []), (''c'', [])], rotated = []\<rparr>
     [\<lambda>s. snd (fold_observed_set (on_machine ''c'') s),
      \<lambda>s. snd (append_event (on_machine ''c'') (ex_event ''evt-x'') None s),
      \<lambda>s. snd (fold_observed_set (on_machine ''a'') s),
      \<lambda>s. snd (append_event (on_machine ''a'') (ex_event ''evt-y'') None s),
      \<lambda>s. snd (append_event (on_machine ''b'') (marker_event (on_machine ''b'') fmempty) None s),
      \<lambda>s. snd (append_event (on_machine ''b'') (ex_event ''evt-z'') None s)]"

definition ex_at :: "string \<Rightarrow> string \<Rightarrow> dict" where
  "ex_at m i = stamp_event m 2 (5, 1) (ex_event i)"

theorem causal_order_cycle:
  "compare_events_causal_order ex_env (ex_at ''c'' ''evt-x'') (ex_at ''a'' ''evt-y'') ex_fork = Inr (- 1)"
  "compare_events_causal_order ex_env (ex_at ''a'' ''evt-y'') (ex_at ''b'' ''evt-z'') ex_fork = Inr (- 1)"
  "compare_events_causal_order ex_env (ex_at ''b'' ''evt-z'') (ex_at ''c'' ''evt-x'') ex_fork = Inr (- 1)"
  by code_simp+

end
