(* ===== verification/Tracker_Ids.thy ===== *)
theory Tracker_Ids
  imports Tracker_Prelude
begin

text \<open>
  Identifiers: the machine slug (\<open>coordinator_core/ops/emit/_slug.py\<close>), the title slug
  (\<open>coordinator_core/ops/ceremony/completion_entry.py\<close>), the item-id grammar
  (\<open>coordinator_core/tracker_id_grammar.py\<close>) and \<open>mint_item_id\<close>
  (\<open>coordinator_core/tracker_entities.py\<close>). Regular expressions are written out as the
  deterministic matchers they denote; \<open>$\<close> matches at the end and before a final newline.
\<close>

section \<open>Character classes and slugs\<close>

definition in_range :: "char \<Rightarrow> char \<Rightarrow> char \<Rightarrow> bool" where
  "in_range a b c = ((of_char a :: nat) \<le> of_char c \<and> (of_char c :: nat) \<le> of_char b)"

definition is_dec :: "char \<Rightarrow> bool" where
  "is_dec c = in_range (CHR ''0'') (CHR ''9'') c"

definition is_slug_char :: "char \<Rightarrow> bool" where
  "is_slug_char c = (in_range (CHR ''a'') (CHR ''z'') c \<or> is_dec c)"

definition is_hex_char :: "char \<Rightarrow> bool" where
  "is_hex_char c = (in_range (CHR ''a'') (CHR ''f'') c \<or> is_dec c)"

definition is_item_char :: "char \<Rightarrow> bool" where
  "is_item_char c = (is_slug_char c \<or> c = CHR ''-'')"

text \<open>\<open>str.lower\<close> on code points below 256.\<close>

definition lower_char :: "char \<Rightarrow> char" where
  "lower_char c = (let n = (of_char c :: nat) in
     if (65 \<le> n \<and> n \<le> 90) \<or> (192 \<le> n \<and> n \<le> 222 \<and> n \<noteq> 215) then char_of (n + 32) else c)"

definition py_lower :: "string \<Rightarrow> string" where
  "py_lower s = map lower_char s"

text \<open>\<open>re.sub("[^a-z0-9]+", "-", s)\<close>; the flag says that the current run is already replaced.\<close>

fun dash_runs :: "bool \<Rightarrow> string \<Rightarrow> string" where
  "dash_runs in_run [] = []"
| "dash_runs in_run (c # cs) =
     (if is_slug_char c then c # dash_runs False cs
      else if in_run then dash_runs True cs
      else CHR ''-'' # dash_runs True cs)"

definition strip_dash :: "string \<Rightarrow> string" where
  "strip_dash s = strip_by (\<lambda>c. c = CHR ''-'') s"

definition slugify :: "string \<Rightarrow> string" where
  "slugify s = strip_dash (dash_runs False (py_lower s))"

text \<open>\<open>machine_slug\<close> and \<open>tracker_machine_slug\<close> of a host name; \<open>sha\<close> is the SHA-256 hex digest of
  the raw host name.\<close>

definition machine_slug :: "string \<Rightarrow> string" where
  "machine_slug hostname =
     (let raw = (if hostname = [] then ''unknown'' else hostname); slug = slugify raw in
      if slug = [] then ''unknown'' else slug)"

definition tracker_machine_slug :: "(string \<Rightarrow> string) \<Rightarrow> string \<Rightarrow> string res" where
  "tracker_machine_slug sha hostname =
     (let base = slugify hostname in
      if base = [] then Inl (ValueErr ''cannot derive a unique machine slug'')
      else Inr (base @ ''-'' @ take 6 (sha hostname)))"

definition slug_from_title :: "string \<Rightarrow> string" where
  "slug_from_title title = take 40 (slugify title)"

section \<open>The item-id grammar\<close>

definition matches_item_id_body :: "string \<Rightarrow> bool" where
  "matches_item_id_body v =
     (let slug_len = length v - 33; rest = drop (13 + slug_len) v in
      1 \<le> slug_len \<and> slug_len \<le> 32 \<and>
      take 4 v = ''itm-'' \<and> list_all is_dec (take 8 (drop 4 v)) \<and> v ! 12 = CHR ''-'' \<and>
      list_all is_item_char (take slug_len (drop 13 v)) \<and>
      rest ! 0 = CHR ''-'' \<and> list_all is_hex_char (take 6 (drop 1 rest)) \<and>
      rest ! 7 = CHR ''-'' \<and> list_all is_hex_char (drop 8 rest))"

definition is_item_id :: "string \<Rightarrow> bool" where
  "is_item_id value =
     (matches_item_id_body value \<or>
      (value \<noteq> [] \<and> last value = CHR 0x0A \<and> matches_item_id_body (butlast value)))"

definition starts_with_date :: "string \<Rightarrow> bool" where
  "starts_with_date s =
     (10 \<le> length s \<and> list_all is_dec (take 4 s) \<and> s ! 4 = CHR ''-'' \<and>
      list_all is_dec (take 2 (drop 5 s)) \<and> s ! 7 = CHR ''-'' \<and>
      list_all is_dec (take 2 (drop 8 s)))"

definition is_hex_nonce :: "string \<Rightarrow> bool" where
  "is_hex_nonce n =
     ((length n = 6 \<and> list_all is_hex_char n) \<or>
      (length n = 7 \<and> last n = CHR 0x0A \<and> list_all is_hex_char (butlast n)))"

definition mint_item_id ::
  "env \<Rightarrow> string \<Rightarrow> string \<Rightarrow> string \<Rightarrow> string option \<Rightarrow> string res" where
  "mint_item_id env title body created_at nonce =
     (if \<not> starts_with_date created_at
      then Inl (TrackerEntityError ''created_at does not start with a date'')
      else let date_part = filter (\<lambda>c. c \<noteq> CHR ''-'') (take 10 created_at);
               slug = strip_dash (take 32 (slug_from_title title)) in
        if slug = [] then Inl (TrackerEntityError ''title slugs to an empty string'')
        else if (case nonce of None \<Rightarrow> False | Some n \<Rightarrow> \<not> is_hex_nonce n)
        then Inl (TrackerEntityError ''explicit nonce is not lowercase hex'')
        else let resolved_nonce = (case nonce of None \<Rightarrow> env_nonce env 0 | Some n \<Rightarrow> n);
                 digest = take 12 (env_sha env
                   (JList [JStr title, JStr body, JStr created_at, JStr resolved_nonce]));
                 item_id = ''itm-'' @ date_part @ ''-'' @ slug @ ''-'' @ resolved_nonce @ ''-'' @ digest in
          if \<not> is_item_id item_id
          then Inl (TrackerEntityError ''minted item id violates the grammar'')
          else Inr item_id)"

section \<open>Lemmas on slugs\<close>

lemma item_char_dash [simp]: "is_item_char (CHR ''-'')"
  by (simp add: is_item_char_def)

lemma slug_char_item: "is_slug_char c \<Longrightarrow> is_item_char c"
  by (simp add: is_item_char_def)

lemma hex_char_slug: "is_hex_char c \<Longrightarrow> is_slug_char c"
  by (auto simp: is_hex_char_def is_slug_char_def in_range_def)

lemma dec_char_slug: "is_dec c \<Longrightarrow> is_slug_char c"
  by (simp add: is_slug_char_def)

lemma dash_runs_chars: "list_all is_item_char (dash_runs b s)"
  by (induction b s rule: dash_runs.induct) (auto simp: slug_char_item)

lemma list_all_subset: "set xs \<subseteq> set ys \<Longrightarrow> list_all p ys \<Longrightarrow> list_all p xs"
  by (auto simp: list_all_iff)

lemma strip_dash_chars: "list_all p s \<Longrightarrow> list_all p (strip_dash s)"
  unfolding strip_dash_def by (rule list_all_subset [OF set_strip_by])

lemma slugify_chars: "list_all is_item_char (slugify s)"
  unfolding slugify_def by (rule strip_dash_chars [OF dash_runs_chars])

lemma title_slug_chars: "list_all is_item_char (strip_dash (take n (slug_from_title t)))"
proof (rule strip_dash_chars)
  have "set (take n (slug_from_title t)) \<subseteq> set (slugify t)"
    by (auto simp: slug_from_title_def dest: in_set_takeD)
  then show "list_all is_item_char (take n (slug_from_title t))"
    using slugify_chars list_all_subset by blast
qed

lemma title_slug_length: "length (strip_dash (take 32 (slug_from_title t))) \<le> 32"
proof -
  have "length (strip_dash (take 32 (slug_from_title t))) \<le> length (take 32 (slug_from_title t))"
    unfolding strip_dash_def by (rule strip_by_length)
  also have "\<dots> \<le> 32" by simp
  finally show ?thesis .
qed

lemma dec_not_dash: "is_dec c \<Longrightarrow> c \<noteq> CHR ''-''"
  by (auto simp: is_dec_def in_range_def)

lemma date_digits:
  assumes "starts_with_date s"
  shows "length (filter (\<lambda>c. c \<noteq> CHR ''-'') (take 10 s)) = 8 \<and>
    list_all is_dec (filter (\<lambda>c. c \<noteq> CHR ''-'') (take 10 s))"
proof -
  have len: "10 \<le> length s" using assms by (simp add: starts_with_date_def)
  have split: "take 10 s = take 4 s @ [s ! 4] @ take 2 (drop 5 s) @ [s ! 7] @ take 2 (drop 8 s)"
    using len by (intro nth_equalityI) (auto simp: nth_append nth_Cons' less_Suc_eq numeral_eq_Suc)
  have keep: "filter (\<lambda>c. c \<noteq> CHR ''-'') xs = xs" if "list_all is_dec xs" for xs
    using that dec_not_dash by (auto simp: list_all_iff filter_id_conv)
  show ?thesis
    using assms len unfolding split by (simp add: starts_with_date_def keep)
qed

section \<open>Properties of identifiers\<close>

lemma item_id_body:
  assumes "length d = 8" and "list_all is_dec d" and "list_all is_item_char g"
    and "1 \<le> length g" and "length g \<le> 32" and "length n = 6" and "list_all is_hex_char n"
    and "length h = 12" and "list_all is_hex_char h"
  shows "matches_item_id_body (''itm-'' @ d @ ''-'' @ g @ ''-'' @ n @ ''-'' @ h)"
proof -
  let ?v = "''itm-'' @ d @ ''-'' @ g @ ''-'' @ n @ ''-'' @ h"
  have len: "length ?v - 33 = length g" using assms by simp
  have rest: "drop (13 + length g) ?v = ''-'' @ n @ ''-'' @ h"
    using assms by (simp add: numeral_eq_Suc)
  have "take 8 (drop 4 ?v) = d" "?v ! 12 = CHR ''-''" "take (length g) (drop 13 ?v) = g"
    using assms by (simp_all add: numeral_eq_Suc nth_append)
  with assms show ?thesis
    unfolding matches_item_id_body_def Let_def len rest
    by (simp add: numeral_eq_Suc nth_append)
qed

text \<open>Minting is total on valid input: with a dated timestamp, a title that leaves a slug, and a
  six-digit hex nonce, the final grammar guard never fires. The id consists of lowercase letters,
  digits and hyphens only, and carries the nonce, so that two mints with different nonces differ.\<close>

theorem mint_item_id_total:
  assumes "starts_with_date created_at" and "strip_dash (take 32 (slug_from_title title)) \<noteq> []"
    and "length n = 6" and "list_all is_hex_char n"
    and "nonce = Some n \<or> nonce = None \<and> env_nonce env 0 = n"
    and "\<And>v. 12 \<le> length (env_sha env v) \<and> list_all is_hex_char (env_sha env v)"
  shows "\<exists>i. mint_item_id env title body created_at nonce = Inr i \<and> is_item_id i \<and>
    list_all is_item_char i \<and> take 6 (drop (length i - 19) i) = n"
proof -
  let ?d = "filter (\<lambda>c. c \<noteq> CHR ''-'') (take 10 created_at)"
  let ?g = "strip_dash (take 32 (slug_from_title title))"
  let ?h = "take 12 (env_sha env (JList [JStr title, JStr body, JStr created_at, JStr n]))"
  let ?i = "''itm-'' @ ?d @ ''-'' @ ?g @ ''-'' @ n @ ''-'' @ ?h"
  have h: "length ?h = 12" "list_all is_hex_char ?h"
    using assms(6) [of "JList [JStr title, JStr body, JStr created_at, JStr n]"]
    by (auto simp: list_all_iff dest: in_set_takeD)
  have d: "length ?d = 8" "list_all is_dec ?d" using date_digits [OF assms(1)] by auto
  have g: "1 \<le> length ?g" using assms(2) by (cases ?g) simp_all
  have body: "matches_item_id_body ?i"
    by (rule item_id_body [OF d title_slug_chars g title_slug_length assms(3,4) h])
  then have "is_item_id ?i" by (simp add: is_item_id_def)
  then have "mint_item_id env title body created_at nonce = Inr ?i"
    using assms(1-5) by (auto simp: mint_item_id_def is_hex_nonce_def Let_def)
  moreover have "list_all is_item_char ?i"
  proof -
    have "list_all is_item_char ''itm-''" by code_simp
    moreover have "list_all is_item_char ?d" using d(2) by (auto simp: list_all_iff dec_char_slug slug_char_item)
    moreover have "list_all is_item_char n" "list_all is_item_char ?h"
      using assms(4) h(2) by (auto simp: list_all_iff hex_char_slug slug_char_item)
    ultimately show ?thesis using title_slug_chars [of 32 title] by simp
  qed
  moreover have "take 6 (drop (length ?i - 19) ?i) = n"
  proof -
    have "length ?i - 19 = length (''itm-'' @ ?d @ ''-'' @ ?g @ ''-'')"
      using h(1) assms(3) by simp
    moreover have "?i = (''itm-'' @ ?d @ ''-'' @ ?g @ ''-'') @ n @ ''-'' @ ?h" by simp
    ultimately show ?thesis using assms(3) by (metis append_eq_conv_conj)
  qed
  ultimately show ?thesis using \<open>is_item_id ?i\<close> by blast
qed

text \<open>An environment whose digests are hexadecimal.\<close>

definition hex_env :: env where
  "hex_env = ex_env\<lparr>env_sha := (\<lambda>_. ''0123456789abcdef'')\<rparr>"

theorem mint_item_id_total_witness:
  "\<exists>i. mint_item_id hex_env ''Fix the  Fold!'' ''body'' ''2026-08-01T09:00:00Z'' None = Inr i \<and>
     is_item_id i \<and> list_all is_item_char i"
proof -
  have "starts_with_date ''2026-08-01T09:00:00Z''"
    "strip_dash (take 32 (slug_from_title ''Fix the  Fold!'')) \<noteq> []"
    "length ''abc123'' = 6" "list_all is_hex_char ''abc123''" "env_nonce hex_env 0 = ''abc123''"
    by code_simp+
  moreover have "12 \<le> length (env_sha hex_env v) \<and> list_all is_hex_char (env_sha hex_env v)" for v
    by (simp add: hex_env_def) code_simp
  ultimately show ?thesis
    using mint_item_id_total [of "''2026-08-01T09:00:00Z''" "''Fix the  Fold!''" "''abc123''" None hex_env]
    by blast
qed

text \<open>
  The recogniser is documented as true exactly for a well-formed id, anchored at both ends. The
  anchor \<open>$\<close> also matches before a final newline, so an id followed by one is accepted.
\<close>

theorem item_id_accepts_newline: "matches_item_id_body v \<Longrightarrow> is_item_id (v @ [CHR 0x0A])"
  by (simp add: is_item_id_def)

theorem item_id_accepts_newline_example:
  "is_item_id (''itm-20260801-fix-the-fold-abc123-0123456789ab'' @ [CHR 0x0A])"
  by code_simp

lemma strip_dash_ends:
  "strip_dash s \<noteq> [] \<Longrightarrow> last (strip_dash s) \<noteq> CHR ''-''"
  unfolding strip_dash_def using strip_by_last [of "\<lambda>c. c = CHR ''-''"] by blast

text \<open>A tracker machine slug is usable as a file-name part: it is non-empty, consists of
  lowercase letters, digits and hyphens, and the shard name built from it gives the slug back when
  the \<open>events.\<close> and \<open>.jsonl\<close> affixes are cut off. A host name without alphanumerics is refused.\<close>

theorem machine_slug_safe:
  assumes "\<And>h. 6 \<le> length (sha h) \<and> list_all is_hex_char (sha h)"
  shows "case tracker_machine_slug sha hostname of
      Inl e \<Rightarrow> slugify hostname = []
    | Inr slug \<Rightarrow> slug \<noteq> [] \<and> list_all is_item_char slug \<and> last slug \<noteq> CHR ''-'' \<and>
        (let name = ''events.'' @ slug @ ''.jsonl'' in take (length name - 13) (drop 7 name) = slug)"
proof (cases "slugify hostname = []")
  case False
  have hex: "list_all is_hex_char (take 6 (sha hostname))" "take 6 (sha hostname) \<noteq> []"
    using assms [of hostname] by (auto simp: list_all_iff dest: in_set_takeD)
  have "last (take 6 (sha hostname)) \<in> set (take 6 (sha hostname))" using hex(2) by (rule last_in_set)
  then have "is_hex_char (last (take 6 (sha hostname)))" using hex(1) by (simp add: list_all_iff)
  moreover have "\<not> is_hex_char (CHR ''-'')" by code_simp
  ultimately have "last (take 6 (sha hostname)) \<noteq> CHR ''-''" by metis
  moreover have "list_all is_item_char (take 6 (sha hostname))"
    using hex(1) by (auto simp: list_all_iff hex_char_slug slug_char_item)
  ultimately show ?thesis
    using False slugify_chars [of hostname] hex(2) assms [of hostname]
    by (simp add: tracker_machine_slug_def Let_def numeral_eq_Suc min_def)
qed (simp add: tracker_machine_slug_def)

theorem machine_slug_safe_witness:
  "\<exists>slug. tracker_machine_slug (\<lambda>_. ''0a1b2c3d'') ''Rig.local'' = Inr slug \<and> list_all is_item_char slug"
proof -
  have "6 \<le> length ''0a1b2c3d'' \<and> list_all is_hex_char ''0a1b2c3d''" by code_simp
  then have "case tracker_machine_slug (\<lambda>_. ''0a1b2c3d'') ''Rig.local'' of
      Inl e \<Rightarrow> slugify ''Rig.local'' = [] | Inr slug \<Rightarrow> list_all is_item_char slug"
    using machine_slug_safe [of "\<lambda>_. ''0a1b2c3d''" "''Rig.local''"]
    by (auto split: sum.splits)
  moreover have "slugify ''Rig.local'' \<noteq> []" by code_simp
  ultimately show ?thesis by (auto split: sum.splits)
qed

end
