(* ===== verification/Tracker_Entities.thy ===== *)
theory Tracker_Entities
  imports Tracker_Shards Tracker_Ids
begin

text \<open>
  Entity events (\<open>coordinator_core/tracker_entities.py\<close>): the guards and payload constructors of
  items, projects, people and their edges, the emitter that stamps and appends one payload, and the
  write-time guards that read the event stream first (local items, duplicate person edges, alias
  collisions, merge cycles). An optional person id \<open>None\<close> is the JSON null.
\<close>

section \<open>Vocabularies and guards\<close>

definition EVENT_KINDS :: "string list" where
  "EVENT_KINDS = [''item_created'', ''project_created'', ''item_project_added'',
     ''item_project_retracted'', ''item_closure_fidelity_set'', ''item_person_added'',
     ''item_person_retracted'', ''person_created'', ''person_alias_added'',
     ''person_alias_retracted'', ''person_merged'']"

definition RESERVED_PROJECT_ID :: string where
  "RESERVED_PROJECT_ID = ''unassigned''"

definition ITEM_PERSON_ROLES :: "string list" where
  "ITEM_PERSON_ROLES = [''assignee'', ''watcher'', ''raised_by'', ''mentioned'']"

definition CLOSURE_FIDELITY_VALUES :: "string list" where
  "CLOSURE_FIDELITY_VALUES = [''auto-observable'', ''verify-with-effort'', ''human-attested'']"

definition ALIAS_NAMESPACES :: "string list" where
  "ALIAS_NAMESPACES =
     [''transcript_name'', ''email'', ''git_author'', ''display'', ''github'', ''github_id'']"

definition reject_reserved_project :: "string \<Rightarrow> unit res" where
  "reject_reserved_project project_id =
     (if project_id = RESERVED_PROJECT_ID then Inl (TrackerEntityError ''reserved project'')
      else Inr ())"

definition reject_invalid_role :: "string \<Rightarrow> unit res" where
  "reject_invalid_role role =
     (if role \<notin> set ITEM_PERSON_ROLES then Inl (TrackerEntityError ''invalid role'') else Inr ())"

definition reject_invalid_closure_fidelity :: "string \<Rightarrow> unit res" where
  "reject_invalid_closure_fidelity closure_fidelity =
     (if closure_fidelity \<notin> set CLOSURE_FIDELITY_VALUES
      then Inl (TrackerEntityError ''invalid closure_fidelity'') else Inr ())"

definition reject_invalid_namespace :: "string \<Rightarrow> unit res" where
  "reject_invalid_namespace namespace =
     (if namespace \<notin> set ALIAS_NAMESPACES
      then Inl (TrackerEntityError ''invalid namespace'') else Inr ())"

text \<open>\<open>str.casefold\<close> on code points below 256 (the micro sign, whose case folding lies outside that
  range, is left as it is).\<close>

definition py_casefold :: "string \<Rightarrow> string" where
  "py_casefold s = concat (map (\<lambda>c. if c = CHR 0xDF then ''ss'' else [lower_char c]) s)"

definition normalize_alias :: "string \<Rightarrow> string \<Rightarrow> string" where
  "normalize_alias namespace raw_value =
     (let stripped = py_strip raw_value in
      if namespace \<in> {''email'', ''git_author'', ''github''} then py_casefold stripped else stripped)"

section \<open>Payloads\<close>

definition project_created :: "string \<Rightarrow> string \<Rightarrow> dict res" where
  "project_created project_id name =
     res_bind (reject_reserved_project project_id) (\<lambda>_.
       Inr (fmap_of_list [(''kind'', JStr ''project_created''), (''project_id'', JStr project_id),
              (''name'', JStr name)]))"

definition item_created :: "string \<Rightarrow> string \<Rightarrow> string \<Rightarrow> string \<Rightarrow> dict" where
  "item_created item_id title body created_at =
     fmap_of_list [(''kind'', JStr ''item_created''), (''id'', JStr item_id),
       (''title'', JStr title), (''body'', JStr body), (''created_at'', JStr created_at)]"

definition item_project_added :: "string \<Rightarrow> string \<Rightarrow> dict res" where
  "item_project_added item_id project_id =
     res_bind (reject_reserved_project project_id) (\<lambda>_.
       Inr (fmap_of_list [(''kind'', JStr ''item_project_added''), (''item_id'', JStr item_id),
              (''project_id'', JStr project_id)]))"

definition item_project_retracted :: "string \<Rightarrow> string \<Rightarrow> dict res" where
  "item_project_retracted item_id project_id =
     res_bind (reject_reserved_project project_id) (\<lambda>_.
       Inr (fmap_of_list [(''kind'', JStr ''item_project_retracted''), (''item_id'', JStr item_id),
              (''project_id'', JStr project_id)]))"

definition item_closure_fidelity_set :: "string \<Rightarrow> string \<Rightarrow> dict res" where
  "item_closure_fidelity_set item_id closure_fidelity =
     res_bind (reject_invalid_closure_fidelity closure_fidelity) (\<lambda>_.
       Inr (fmap_of_list [(''kind'', JStr ''item_closure_fidelity_set''), (''item_id'', JStr item_id),
              (''closure_fidelity'', JStr closure_fidelity)]))"

definition item_person_added :: "string \<Rightarrow> string option \<Rightarrow> string \<Rightarrow> dict res" where
  "item_person_added item_id person_id role =
     res_bind (reject_invalid_role role) (\<lambda>_.
       Inr (fmap_of_list [(''kind'', JStr ''item_person_added''), (''item_id'', JStr item_id),
              (''person_id'', opt_str person_id), (''role'', JStr role)]))"

definition item_person_retracted :: "string \<Rightarrow> string option \<Rightarrow> string \<Rightarrow> dict res" where
  "item_person_retracted item_id person_id role =
     res_bind (reject_invalid_role role) (\<lambda>_.
       Inr (fmap_of_list [(''kind'', JStr ''item_person_retracted''), (''item_id'', JStr item_id),
              (''person_id'', opt_str person_id), (''role'', JStr role)]))"

definition mint_person_id :: "env \<Rightarrow> string" where
  "mint_person_id env = env_nonce env 0"

definition person_created :: "string \<Rightarrow> string \<Rightarrow> dict" where
  "person_created person_id display_name =
     fmap_of_list [(''kind'', JStr ''person_created''), (''person_id'', JStr person_id),
       (''display_name'', JStr display_name)]"

definition alias_payload :: "string \<Rightarrow> string \<Rightarrow> string \<Rightarrow> string \<Rightarrow> dict" where
  "alias_payload kind person_id namespace raw_value =
     fmap_of_list [(''kind'', JStr kind), (''person_id'', JStr person_id),
       (''namespace'', JStr namespace), (''raw_value'', JStr raw_value),
       (''normalized_value'', JStr (normalize_alias namespace raw_value))]"

definition person_alias_added :: "string \<Rightarrow> string \<Rightarrow> string \<Rightarrow> dict res" where
  "person_alias_added person_id namespace raw_value =
     res_bind (reject_invalid_namespace namespace) (\<lambda>_.
       Inr (alias_payload ''person_alias_added'' person_id namespace raw_value))"

definition person_alias_retracted :: "string \<Rightarrow> string \<Rightarrow> string \<Rightarrow> dict res" where
  "person_alias_retracted person_id namespace raw_value =
     res_bind (reject_invalid_namespace namespace) (\<lambda>_.
       Inr (alias_payload ''person_alias_retracted'' person_id namespace raw_value))"

definition person_merged :: "string \<Rightarrow> string \<Rightarrow> string \<Rightarrow> dict" where
  "person_merged from_id into_id actor =
     fmap_of_list [(''kind'', JStr ''person_merged''), (''from_id'', JStr from_id),
       (''into_id'', JStr into_id), (''actor'', JStr actor)]"

section \<open>Emission\<close>

text \<open>Run an operation on the value of a check, or stop with its exception.\<close>

definition guarded :: "'a res \<Rightarrow> ('a \<Rightarrow> 'b op) \<Rightarrow> 'b op" where
  "guarded r f s = (case r of Inl e \<Rightarrow> (Inl e, s) | Inr x \<Rightarrow> f x s)"

definition raising :: "pyerr \<Rightarrow> 'a op" where
  "raising e s = (Inl e, s)"

definition mint_event_id :: "env \<Rightarrow> json \<Rightarrow> json \<Rightarrow> dict \<Rightarrow> string \<Rightarrow> string" where
  "mint_event_id env kind item_id_or_pair payload applied_at =
     ''evt-'' @ env_slug env @ ''-'' @
       take 12 (env_sha env (JList [kind, item_id_or_pair, JObj payload, JStr applied_at]))"

definition entity_event :: "env \<Rightarrow> dict \<Rightarrow> json \<Rightarrow> dict" where
  "entity_event env payload item_id_or_pair =
     (let kind = dget payload ''kind''; applied_at = env_stamp env 0;
          event_id = mint_event_id env kind item_id_or_pair payload applied_at;
          event = (if kind = JStr ''item_created'' \<and> has_key payload ''id''
                   then fmupd ''item_id'' (dget payload ''id'') (fmdrop ''id'' payload) else payload)
      in fmupd ''observed_at'' (JStr applied_at)
           (fmupd ''applied_at'' (JStr applied_at) (fmupd ''id'' (JStr event_id) event)))"

definition emit :: "env \<Rightarrow> dict \<Rightarrow> json \<Rightarrow> dict op" where
  "emit env payload item_id_or_pair s =
     append_event env (entity_event env payload item_id_or_pair) None s"

definition require_local_item :: "string \<Rightarrow> store \<Rightarrow> unit res" where
  "require_local_item item_id s =
     res_bind (read_events s) (\<lambda>events.
       if list_ex (\<lambda>e. dget e ''kind'' = JStr ''item_created'' \<and> dget e ''item_id'' = JStr item_id) events
       then Inr ()
       else Inl (TrackerEntityError ''item was not created in this repo''))"

definition emit_item_created :: "env \<Rightarrow> string \<Rightarrow> string \<Rightarrow> string \<Rightarrow> string \<Rightarrow> dict op" where
  "emit_item_created env item_id title body created_at =
     emit env (item_created item_id title body created_at) (JStr item_id)"

definition emit_project_created :: "env \<Rightarrow> string \<Rightarrow> string \<Rightarrow> dict op" where
  "emit_project_created env project_id name =
     guarded (project_created project_id name) (\<lambda>payload. emit env payload (JStr project_id))"

definition emit_item_project_added :: "env \<Rightarrow> string \<Rightarrow> string \<Rightarrow> dict op" where
  "emit_item_project_added env item_id project_id s =
     guarded (require_local_item item_id s) (\<lambda>_.
       guarded (item_project_added item_id project_id) (\<lambda>payload.
         emit env payload (JList [JStr item_id, JStr project_id]))) s"

definition emit_item_project_retracted :: "env \<Rightarrow> string \<Rightarrow> string \<Rightarrow> dict op" where
  "emit_item_project_retracted env item_id project_id s =
     guarded (require_local_item item_id s) (\<lambda>_.
       guarded (item_project_retracted item_id project_id) (\<lambda>payload.
         emit env payload (JList [JStr item_id, JStr project_id]))) s"

definition emit_item_closure_fidelity_set :: "env \<Rightarrow> string \<Rightarrow> string \<Rightarrow> dict op" where
  "emit_item_closure_fidelity_set env item_id closure_fidelity =
     guarded (item_closure_fidelity_set item_id closure_fidelity) (\<lambda>payload.
       emit env payload (JStr item_id))"

text \<open>The current state of one \<open>(item, person, role)\<close> triple.\<close>

definition person_edge_step :: "string \<Rightarrow> string option \<Rightarrow> string \<Rightarrow> dict \<Rightarrow> bool \<Rightarrow> bool" where
  "person_edge_step item_id person_id role event present =
     (if dget event ''item_id'' = JStr item_id \<and> dget event ''person_id'' = opt_str person_id \<and>
         dget event ''role'' = JStr role
      then if dget event ''kind'' = JStr ''item_person_added'' then True
        else if dget event ''kind'' = JStr ''item_person_retracted'' then False else present
      else present)"

definition item_person_edge_present ::
  "string \<Rightarrow> string option \<Rightarrow> string \<Rightarrow> store \<Rightarrow> bool res" where
  "item_person_edge_present item_id person_id role s =
     res_bind (read_events s) (\<lambda>events.
       Inr (fold (person_edge_step item_id person_id role) events False))"

definition emit_item_person_added :: "env \<Rightarrow> string \<Rightarrow> string option \<Rightarrow> string \<Rightarrow> dict op" where
  "emit_item_person_added env item_id person_id role s =
     guarded (item_person_edge_present item_id person_id role s) (\<lambda>present.
       if present then raising (TrackerEntityError ''duplicate item_person edge'')
       else guarded (item_person_added item_id person_id role) (\<lambda>payload.
         emit env payload (JList [JStr item_id, opt_str person_id, JStr role]))) s"

definition emit_item_person_retracted :: "env \<Rightarrow> string \<Rightarrow> string option \<Rightarrow> string \<Rightarrow> dict op" where
  "emit_item_person_retracted env item_id person_id role =
     guarded (item_person_retracted item_id person_id role) (\<lambda>payload.
       emit env payload (JList [JStr item_id, opt_str person_id, JStr role]))"

fun alias_owner_fold :: "string \<Rightarrow> string \<Rightarrow> dict list \<Rightarrow> string option \<Rightarrow> string option res" where
  "alias_owner_fold namespace normalized_value [] owner = Inr owner"
| "alias_owner_fold namespace normalized_value (event # events) owner =
     (if dget event ''namespace'' \<noteq> JStr namespace \<or>
         dget event ''normalized_value'' \<noteq> JStr normalized_value
      then alias_owner_fold namespace normalized_value events owner
      else if dget event ''kind'' = JStr ''person_alias_added''
      then (case dget event ''person_id'' of
              JStr p \<Rightarrow> alias_owner_fold namespace normalized_value events (Some p)
            | _ \<Rightarrow> Inl (TrackerEntityError ''malformed person_alias_added event''))
      else if dget event ''kind'' = JStr ''person_alias_retracted''
      then alias_owner_fold namespace normalized_value events None
      else alias_owner_fold namespace normalized_value events owner)"

definition alias_owner :: "string \<Rightarrow> string \<Rightarrow> store \<Rightarrow> string option res" where
  "alias_owner namespace normalized_value s =
     res_bind (read_events s) (\<lambda>events. alias_owner_fold namespace normalized_value events None)"

fun merge_map_fold :: "dict list \<Rightarrow> (string, string) fmap \<Rightarrow> (string, string) fmap res" where
  "merge_map_fold [] mapping = Inr mapping"
| "merge_map_fold (event # events) mapping =
     (if dget event ''kind'' \<noteq> JStr ''person_merged'' then merge_map_fold events mapping
      else (case (as_str (dget event ''from_id''), as_str (dget event ''into_id'')) of
              (Some f, Some i) \<Rightarrow> merge_map_fold events (fmupd f i mapping)
            | _ \<Rightarrow> Inl (TrackerEntityError ''malformed person_merged event'')))"

definition person_merge_map :: "store \<Rightarrow> (string, string) fmap res" where
  "person_merge_map s = res_bind (read_events s) (\<lambda>events. merge_map_fold events fmempty)"

text \<open>The walk of \<open>_resolves_to\<close>; it ends because every step visits a new key of the map.\<close>

function resolves_to_walk ::
  "(string, string) fmap \<Rightarrow> string \<Rightarrow> string list \<Rightarrow> string \<Rightarrow> bool" where
  "resolves_to_walk merge_map target visited current =
     (case fmlookup merge_map current of
        None \<Rightarrow> False
      | Some next \<Rightarrow>
          if current \<in> set visited then False
          else if next = target then True
          else resolves_to_walk merge_map target (current # visited) next)"
  by pat_completeness auto
termination
proof (relation "measure (\<lambda>(m, _, visited, _). card (fset (fmdom m) - set visited))", goal_cases)
  case (2 m t visited c n)
  then have "c \<in> fset (fmdom m) - set visited" by (auto intro: fmdomI)
  then have "fset (fmdom m) - set (c # visited) \<subset> fset (fmdom m) - set visited" by auto
  then show ?case by (auto intro: psubset_card_mono)
qed simp

declare resolves_to_walk.simps [simp del]

definition resolves_to :: "string \<Rightarrow> string \<Rightarrow> (string, string) fmap \<Rightarrow> bool" where
  "resolves_to start_id target_id merge_map = resolves_to_walk merge_map target_id [] start_id"

definition emit_person_created :: "env \<Rightarrow> string \<Rightarrow> string \<Rightarrow> dict op" where
  "emit_person_created env person_id display_name =
     emit env (person_created person_id display_name) (JStr person_id)"

definition emit_person_alias_added :: "env \<Rightarrow> string \<Rightarrow> string \<Rightarrow> string \<Rightarrow> dict op" where
  "emit_person_alias_added env person_id namespace raw_value s =
     guarded (person_alias_added person_id namespace raw_value) (\<lambda>payload.
       guarded (alias_owner namespace (normalize_alias namespace raw_value) s) (\<lambda>existing_owner.
         if existing_owner \<noteq> None \<and> existing_owner \<noteq> Some person_id
         then raising (TrackerEntityError ''alias collision'')
         else emit env payload
           (JList [JStr namespace, JStr (normalize_alias namespace raw_value)]))) s"

definition emit_person_alias_retracted :: "env \<Rightarrow> string \<Rightarrow> string \<Rightarrow> string \<Rightarrow> dict op" where
  "emit_person_alias_retracted env person_id namespace raw_value =
     guarded (person_alias_retracted person_id namespace raw_value) (\<lambda>payload.
       emit env payload (JList [JStr namespace, JStr (normalize_alias namespace raw_value)]))"

definition emit_person_merged :: "env \<Rightarrow> string \<Rightarrow> string \<Rightarrow> string \<Rightarrow> dict op" where
  "emit_person_merged env from_id into_id actor s =
     guarded (person_merge_map s) (\<lambda>merge_map.
       if fmlookup merge_map from_id \<noteq> None
       then raising (TrackerEntityError ''already retired'')
       else if into_id = from_id \<or> resolves_to into_id from_id merge_map
       then raising (TrackerEntityError ''merge would close a cycle'')
       else emit env (person_merged from_id into_id actor) (JStr from_id)) s"

section \<open>What an emission stores\<close>

lemma append_event_new:
  assumes "append_event env ev None s = (Inr e, s')"
  obtains n clock where "e = stamp_event (env_slug env) n clock ev" and "s' \<noteq> s"
    and "live_lines s' (env_slug env) = live_lines s (env_slug env) @ [Line (JObj e)]"
  using assms
proof (cases rule: append_event_cases)
  case (retry d)
  then show ?thesis using scan_lines_no_key by (metis scan.distinct(3) scan.distinct(7))
next
  case (appended seq w c clock)
  then have "live_lines s' (env_slug env) \<noteq> live_lines s (env_slug env)" by simp
  then have "s' \<noteq> s" by auto
  with appended show ?thesis by (intro that) auto
qed simp

lemma entity_event_fields:
  "dget (entity_event env payload p) ''applied_at'' = JStr (env_stamp env 0)"
  "dget (entity_event env payload p) ''observed_at'' = JStr (env_stamp env 0)"
  "dget (entity_event env payload p) ''id'' =
     JStr (mint_event_id env (dget payload ''kind'') p payload (env_stamp env 0))"
  by (simp_all add: entity_event_def Let_def)

lemma entity_event_payload:
  assumes "k \<notin> {''id'', ''applied_at'', ''observed_at'', ''item_id''}"
  shows "dget (entity_event env payload p) k = dget payload k"
  using assms by (auto simp: entity_event_def Let_def dget_def)

lemma emit_field:
  assumes "emit env payload p s = (Inr e, s')"
    and "k \<notin> {''id'', ''applied_at'', ''observed_at'', ''item_id'', ''machine'', ''sequence'', ''logical_clock''}"
  shows "dget e k = dget payload k"
  using assms(1) unfolding emit_def
  by (rule append_event_new) (use assms(2) in \<open>simp add: dget_stamp_event entity_event_payload\<close>)

text \<open>The clock of the caller is ahead of every applied stamp it reads.\<close>

definition clock_ahead :: "env \<Rightarrow> dict list \<Rightarrow> bool" where
  "clock_ahead env evs =
     list_all (\<lambda>e. case dget e ''applied_at'' of JStr t \<Rightarrow> t < env_stamp env 0 | _ \<Rightarrow> False) evs"

lemma insort_key_last: "\<forall>x \<in> set xs. f x < f y \<Longrightarrow> insort_key f y xs = xs @ [y]"
  by (induction xs) auto

lemma emit_read:
  assumes "emit env payload p s = (Inr e, s')" and "log_ok s evs" and "clock_ahead env evs"
    and "event_id e \<notin> event_id ` set evs"
  shows "read_events s' = Inr (evs @ [e]) \<and> log_ok s' (evs @ [e])"
proof -
  obtain n clock where e: "e = stamp_event (env_slug env) n clock (entity_event env payload p)"
    and ne: "s' \<noteq> s"
    using assms(1) unfolding emit_def by (rule append_event_new)
  have keys: "dget e ''applied_at'' = JStr (env_stamp env 0)"
    "dget e ''observed_at'' = JStr (env_stamp env 0)" "as_str (dget e ''id'') \<noteq> None"
    by (simp_all add: e dget_stamp_event entity_event_fields)
  have "sort_id x < sort_id e" if x: "x \<in> set evs" for x
  proof -
    obtain t where "dget x ''applied_at'' = JStr t" "t < env_stamp env 0"
      using bspec [OF assms(3) [unfolded clock_ahead_def list_all_iff] x]
      by (cases "dget x ''applied_at''") auto
    then show ?thesis using keys by (simp add: event_key_def)
  qed
  then have last: "insort_key sort_id e evs = evs @ [e]" by (simp add: insort_key_last)
  show ?thesis
    using read_events_append [OF assms(1) [unfolded emit_def] ne assms(2) _ _ assms(4)] keys
    unfolding last by (simp add: is_applied_def event_key_def)
qed

lemma guarded_Inr: "guarded r f s = (Inr y, s') \<longleftrightarrow> (\<exists>x. r = Inr x \<and> f x s = (Inr y, s'))"
  by (cases r) (auto simp: guarded_def)

lemma guarded_simps [simp]: "guarded (Inl e) f s = (Inl e, s)" "guarded (Inr x) f s = f x s"
  by (simp_all add: guarded_def)

lemma raising_simp [simp]: "raising e s = (Inl e, s)"
  by (simp add: raising_def)

section \<open>Properties of entity emission\<close>

text \<open>The reserved project is never written: creating it, and adding or retracting an edge to it,
  raises and leaves the store as it was, so a stored project or edge never names it.\<close>

theorem reserved_project_never_stored:
  "(\<exists>e. emit_project_created env RESERVED_PROJECT_ID name s = (Inl e, s)) \<and>
   (\<exists>e. emit_item_project_added env item RESERVED_PROJECT_ID s = (Inl e, s)) \<and>
   (\<exists>e. emit_item_project_retracted env item RESERVED_PROJECT_ID s = (Inl e, s))"
  by (cases "require_local_item item s")
    (simp_all add: emit_project_created_def emit_item_project_added_def
      emit_item_project_retracted_def project_created_def item_project_added_def
      item_project_retracted_def reject_reserved_project_def)

text \<open>Membership edges stay inside the repository: an edge is stored only for an item whose
  creation is in this repository's own event stream; for any other item both emitters raise and
  change nothing.\<close>

theorem foreign_item_refused:
  assumes "read_events s = Inr evs"
    and "\<forall>e \<in> set evs. dget e ''kind'' = JStr ''item_created'' \<longrightarrow> dget e ''item_id'' \<noteq> JStr item"
  shows "(\<exists>x. emit_item_project_added env item project s = (Inl x, s)) \<and>
    (\<exists>x. emit_item_project_retracted env item project s = (Inl x, s))"
proof -
  have "\<exists>x. require_local_item item s = Inl x"
    using assms by (auto simp: require_local_item_def list_ex_iff)
  then show ?thesis by (auto simp: emit_item_project_added_def emit_item_project_retracted_def)
qed

lemma emit_unless:
  assumes "(if c then raising x else f) s = (Inr e, s')"
  shows "\<not> c \<and> f s = (Inr e, s')"
  using assms by (cases c) auto

text \<open>The natural key of a person edge is enforced: once \<open>(item, person, role)\<close> was added by a
  caller whose clock is ahead of the stream, adding the same triple again raises and changes
  nothing, on any machine and at any later time.\<close>

theorem person_edge_unique:
  assumes "emit_item_person_added env item person role s = (Inr e, s')"
    and "log_ok s evs" and "clock_ahead env evs" and "event_id e \<notin> event_id ` set evs"
  shows "emit_item_person_added env' item person role s' =
    (Inl (TrackerEntityError ''duplicate item_person edge''), s')"
proof -
  let ?p = "JList [JStr item, opt_str person, JStr role]"
  obtain payload where payload: "item_person_added item person role = Inr payload"
    and em: "emit env payload ?p s = (Inr e, s')"
    using assms(1) unfolding emit_item_person_added_def guarded_Inr
    by (auto simp: guarded_Inr split: if_splits)
  have fields: "dget payload ''kind'' = JStr ''item_person_added''" "dget payload ''item_id'' = JStr item"
    "dget payload ''person_id'' = opt_str person" "dget payload ''role'' = JStr role"
    using payload
    by (auto simp: item_person_added_def reject_invalid_role_def dget_def split: if_splits)
  have "dget e ''item_id'' = JStr item"
    using em unfolding emit_def
    by (rule append_event_new) (simp add: dget_stamp_event entity_event_def Let_def fields)
  then have "person_edge_step item person role e b" for b
    using emit_field [OF em] fields by (simp add: person_edge_step_def)
  then have "item_person_edge_present item person role s' = Inr True"
    using emit_read [OF em assms(2-4)] by (simp add: item_person_edge_present_def)
  then show ?thesis by (simp add: emit_item_person_added_def)
qed

lemma alias_owner_fold_snoc:
  "alias_owner_fold ns v (evs @ [e]) o1 =
     res_bind (alias_owner_fold ns v evs o1) (alias_owner_fold ns v [e])"
  by (induction ns v evs o1 rule: alias_owner_fold.induct) (auto split: json.splits)

lemma alias_owner_after:
  assumes "emit_person_alias_added env p ns raw s = (Inr e, s')"
    and "log_ok s evs" and "clock_ahead env evs" and "event_id e \<notin> event_id ` set evs"
  shows "alias_owner ns (normalize_alias ns raw) s' = Inr (Some p)"
proof -
  let ?v = "normalize_alias ns raw"
  obtain payload old where payload: "person_alias_added p ns raw = Inr payload"
    and old: "alias_owner ns ?v s = Inr old"
    and em: "emit env payload (JList [JStr ns, JStr ?v]) s = (Inr e, s')"
    using assms(1) unfolding emit_person_alias_added_def guarded_Inr
    by (auto simp: guarded_Inr split: if_splits)
  have fields: "dget payload ''kind'' = JStr ''person_alias_added''" "dget payload ''namespace'' = JStr ns"
    "dget payload ''person_id'' = JStr p" "dget payload ''normalized_value'' = JStr ?v"
    using payload
    by (auto simp: person_alias_added_def alias_payload_def reject_invalid_namespace_def dget_def
        split: if_splits)
  have "alias_owner_fold ns ?v [e] o1 = Inr (Some p)" for o1
    using emit_field [OF em] fields by simp
  moreover have "alias_owner_fold ns ?v evs None = Inr old"
    using old assms(2) by (simp add: alias_owner_def log_ok_def)
  ultimately show ?thesis
    using emit_read [OF em assms(2-4)] by (simp add: alias_owner_def alias_owner_fold_snoc)
qed

text \<open>An alias has one owner: once a person registered it (with the clock ahead), an attempt to
  register the same normalised alias for another person raises and changes nothing.\<close>

theorem alias_single_owner:
  assumes "emit_person_alias_added env p ns raw s = (Inr e, s')"
    and "log_ok s evs" and "clock_ahead env evs" and "event_id e \<notin> event_id ` set evs"
    and "q \<noteq> p" and "normalize_alias ns raw' = normalize_alias ns raw"
  shows "emit_person_alias_added env' q ns raw' s' = (Inl (TrackerEntityError ''alias collision''), s')"
proof -
  have "ns \<in> set ALIAS_NAMESPACES"
    using assms(1) unfolding emit_person_alias_added_def guarded_Inr
    by (auto simp: person_alias_added_def reject_invalid_namespace_def split: if_splits)
  then show ?thesis
    using alias_owner_after [OF assms(1-4)] assms(5,6)
    by (simp add: emit_person_alias_added_def person_alias_added_def reject_invalid_namespace_def)
qed

section \<open>Merges stay acyclic\<close>

definition merge_rel :: "(string, string) fmap \<Rightarrow> (string \<times> string) set" where
  "merge_rel m = {(a, b). fmlookup m a = Some b}"

text \<open>A walk that fails to find its target encloses the reachable part in a set without it.\<close>

lemma resolves_to_walk_False:
  "\<not> resolves_to_walk m t visited c \<Longrightarrow>
   \<forall>v \<in> set visited. \<exists>w. fmlookup m v = Some w \<and> w \<noteq> t \<and> w \<in> insert c (set visited) \<Longrightarrow>
   \<exists>S. insert c (set visited) \<subseteq> S \<and> (\<forall>v \<in> S. \<forall>w. fmlookup m v = Some w \<longrightarrow> w \<in> S \<and> w \<noteq> t)"
proof (induction m t visited c rule: resolves_to_walk.induct)
  case (1 m t visited c)
  show ?case
  proof (cases "fmlookup m c")
    case None
    with 1(3) show ?thesis by (intro exI [of _ "insert c (set visited)"]) auto
  next
    case (Some n)
    show ?thesis
    proof (cases "c \<in> set visited")
      case True
      with 1(3) show ?thesis by (intro exI [of _ "set visited"]) (fastforce simp: insert_absorb)
    next
      case False
      with 1(2) Some have "n \<noteq> t" "\<not> resolves_to_walk m t (c # visited) n"
        by (auto simp: resolves_to_walk.simps [of m t visited c] split: if_splits)
      moreover have "\<forall>v \<in> set (c # visited). \<exists>w. fmlookup m v = Some w \<and> w \<noteq> t \<and>
          w \<in> insert n (set (c # visited))"
        using 1(3) Some \<open>n \<noteq> t\<close> by auto
      ultimately obtain S where "insert n (set (c # visited)) \<subseteq> S"
        "\<forall>v \<in> S. \<forall>w. fmlookup m v = Some w \<longrightarrow> w \<in> S \<and> w \<noteq> t"
        using 1(1) [OF Some False] by blast
      then show ?thesis by (intro exI [of _ S]) auto
    qed
  qed
qed

lemma not_resolves_to:
  assumes "\<not> resolves_to c t m" and "c \<noteq> t"
  shows "(c, t) \<notin> (merge_rel m)\<^sup>*"
proof
  assume reach: "(c, t) \<in> (merge_rel m)\<^sup>*"
  obtain S where S: "c \<in> S" "\<forall>v \<in> S. \<forall>w. fmlookup m v = Some w \<longrightarrow> w \<in> S \<and> w \<noteq> t"
    using resolves_to_walk_False [of m t "[]" c] assms(1) by (auto simp: resolves_to_def)
  have "x \<in> S \<and> x \<noteq> t" if "(c, x) \<in> (merge_rel m)\<^sup>*" for x
    using that by (induction rule: rtrancl_induct) (use S assms(2) in \<open>auto simp: merge_rel_def\<close>)
  with reach show False by blast
qed

lemma merge_map_fold_snoc:
  "merge_map_fold (evs @ [e]) m = res_bind (merge_map_fold evs m) (merge_map_fold [e])"
  by (induction evs m rule: merge_map_fold.induct) (auto split: option.splits)

text \<open>C17. Merges written through the emitter never close a cycle: if the merge map of the stream is
  acyclic, a successful merge adds exactly its edge and the map stays acyclic; a merge of a retired
  person, of a person into itself, or back into its own chain raises and changes nothing.\<close>

theorem merges_stay_acyclic:
  assumes "log_ok s evs" and "clock_ahead env evs" and "person_merge_map s = Inr m"
    and "acyclic (merge_rel m)"
  shows "case emit_person_merged env p q actor s of
      (Inl x, s') \<Rightarrow> s' = s
    | (Inr e, s') \<Rightarrow> event_id e \<notin> event_id ` set evs \<longrightarrow>
        person_merge_map s' = Inr (fmupd p q m) \<and> fmlookup m p = None \<and>
        acyclic (merge_rel (fmupd p q m))"
proof (cases "emit_person_merged env p q actor s")
  case (Pair r s')
  show ?thesis
  proof (cases r)
    case (Inl x)
    have "s' = s"
      using Pair Inl assms(3)
      by (auto simp: emit_person_merged_def emit_def split: if_splits elim: append_event_cases)
    with Pair Inl show ?thesis by simp
  next
    case (Inr e)
    then have fresh: "fmlookup m p = None" and ne: "q \<noteq> p"
      and nr: "\<not> resolves_to q p m"
      and em: "emit env (person_merged p q actor) (JStr p) s = (Inr e, s')"
      using Pair assms(3) by (auto simp: emit_person_merged_def split: if_splits)
    have "merge_rel (fmupd p q m) = insert (p, q) (merge_rel m)"
      using fresh by (auto simp: merge_rel_def split: if_splits)
    then have "acyclic (merge_rel (fmupd p q m))"
      using assms(4) not_resolves_to [OF nr ne] by simp
    moreover have "person_merge_map s' = Inr (fmupd p q m)"
      if "event_id e \<notin> event_id ` set evs"
    proof -
      have "merge_map_fold [e] m = Inr (fmupd p q m)"
        using emit_field [OF em] by (simp add: person_merged_def dget_def)
      then show ?thesis
        using emit_read [OF em assms(1,2) that] assms(1,3)
        by (simp add: person_merge_map_def merge_map_fold_snoc log_ok_def)
    qed
    ultimately show ?thesis using Pair Inr fresh by simp
  qed
qed

section \<open>Worked examples\<close>

definition ex_person :: "dict list" where
  "ex_person = [stamp_event ''rig'' 1 (5, 0) (entity_event ex_env
     (fmap_of_list [(''kind'', JStr ''item_person_added''), (''item_id'', JStr ''itm-1''),
        (''person_id'', JStr ''ann''), (''role'', JStr ''assignee'')])
     (JList [JStr ''itm-1'', JStr ''ann'', JStr ''assignee'']))]"

lemma empty_log: "log_ok empty_store []" "clock_ahead env []"
  by (simp_all add: log_ok_def store_wf_def empty_store_def read_events_def ids_name_events_def
      clock_ahead_def)

theorem foreign_item_refused_witness:
  "\<exists>x. emit_item_project_added ex_env ''itm-9'' ''core'' empty_store = (Inl x, empty_store)"
proof -
  have "read_events empty_store = Inr []" by code_simp
  then show ?thesis using foreign_item_refused [of empty_store "[]"] by simp
qed

theorem person_edge_unique_witness:
  "\<exists>s'. emit_item_person_added ex_env ''itm-1'' (Some ''ann'') ''assignee'' s' =
     (Inl (TrackerEntityError ''duplicate item_person edge''), s')"
proof -
  obtain e s' where "emit_item_person_added ex_env ''itm-1'' (Some ''ann'') ''assignee'' empty_store = (Inr e, s')"
    by (rule that [of "hd ex_person" "snd (emit_item_person_added ex_env ''itm-1'' (Some ''ann'') ''assignee'' empty_store)"])
      code_simp
  from person_edge_unique [OF this empty_log] show ?thesis by auto
qed

theorem alias_single_owner_witness:
  "\<exists>s'. emit_person_alias_added ex_env ''bob'' ''email'' ''  ANN@x.org'' s' =
     (Inl (TrackerEntityError ''alias collision''), s')"
proof -
  let ?r = "emit_person_alias_added ex_env ''ann'' ''email'' ''ann@X.org'' empty_store"
  have "case fst ?r of Inr _ \<Rightarrow> True | Inl _ \<Rightarrow> False" by code_simp
  then obtain e where 1: "?r = (Inr e, snd ?r)" by (cases ?r) (auto split: sum.splits)
  have 2: "normalize_alias ''email'' ''  ANN@x.org'' = normalize_alias ''email'' ''ann@X.org''"
    by code_simp
  have "emit_person_alias_added ex_env ''bob'' ''email'' ''  ANN@x.org'' (snd ?r) =
      (Inl (TrackerEntityError ''alias collision''), snd ?r)"
    using alias_single_owner [OF 1 empty_log _ _ 2, where q = "''bob''" and env' = ex_env] by simp
  then show ?thesis by (rule exI)
qed

theorem merges_stay_acyclic_witness:
  "acyclic (merge_rel (fmupd ''ann'' ''bob'' fmempty))"
proof -
  let ?r = "emit_person_merged ex_env ''ann'' ''bob'' ''eve'' empty_store"
  have 1: "person_merge_map empty_store = Inr fmempty" by code_simp
  have 2: "acyclic (merge_rel fmempty)" by (simp add: merge_rel_def acyclic_def)
  have "case fst ?r of Inr _ \<Rightarrow> True | Inl _ \<Rightarrow> False" by code_simp
  then obtain e where "?r = (Inr e, snd ?r)" by (cases ?r) (auto split: sum.splits)
  then show ?thesis
    using merges_stay_acyclic [OF empty_log 1 2, where env = ex_env and p = "''ann''" and q = "''bob''" and actor = "''eve''"]
    by (auto split: prod.splits sum.splits)
qed

end
