(* ===== verification/Tracker_Projection.thy ===== *)
theory Tracker_Projection
  imports Tracker_Entities
begin

text \<open>
  Read-time folds over the event stream (\<open>coordinator_core/tracker_projection.py\<close>): project and
  person membership, the person registry with merge resolution, and the per-axis state of an item
  with its rendered status.

  Dictionary keys and set members are represented up to Python equality by \<open>py_norm\<close>. The folds
  whose last operation on a key wins are instances of one locale.
\<close>

section \<open>Membership\<close>

definition DEFAULT_CLOSURE_FIDELITY :: string where
  "DEFAULT_CLOSURE_FIDELITY = ''verify-with-effort''"

primrec res_fold :: "('e \<Rightarrow> 's \<Rightarrow> 's res) \<Rightarrow> 'e list \<Rightarrow> 's \<Rightarrow> 's res" where
  "res_fold step [] s = Inr s"
| "res_fold step (e # es) s = res_bind (step e s) (res_fold step es)"

definition edges_of :: "(json, 'a fset) fmap \<Rightarrow> json \<Rightarrow> 'a fset" where
  "edges_of m item_id = (case fmlookup m item_id of None \<Rightarrow> {||} | Some es \<Rightarrow> es)"

definition membership_step :: "dict \<Rightarrow> (json, json fset) fmap \<Rightarrow> (json, json fset) fmap res" where
  "membership_step event membership =
     (let kind = dget event ''kind''; item_id = dget event ''item_id'';
          project_id = dget event ''project_id''; key = py_norm item_id in
      if kind = JStr ''item_created''
      then if \<not> truthy item_id then Inr membership
        else if \<not> hashable item_id then Inl TypeErr
        else Inr (fmupd key (edges_of membership key) membership)
      else if \<not> hashable kind then Inl TypeErr
      else if kind = JStr ''item_project_added'' \<or> kind = JStr ''item_project_retracted''
      then if \<not> truthy item_id \<or> \<not> truthy project_id then Inr membership
        else if \<not> hashable item_id \<or> \<not> hashable project_id then Inl TypeErr
        else if kind = JStr ''item_project_added''
        then Inr (fmupd key (finsert (py_norm project_id) (edges_of membership key)) membership)
        else Inr (fmupd key (edges_of membership key |-| {|py_norm project_id|}) membership)
      else Inr membership)"

definition fold_membership :: "store \<Rightarrow> (json, json fset) fmap res" where
  "fold_membership s =
     res_bind (read_events s) (\<lambda>events.
       res_bind (res_fold membership_step events fmempty) (\<lambda>membership.
         Inr (fmmap (\<lambda>real_edges. if real_edges = {||} then {|JStr RESERVED_PROJECT_ID|}
                                  else real_edges) membership)))"

text \<open>\<open>sorted(projects)\<close>: the members in ascending order, or \<open>TypeError\<close> when two are not comparable.\<close>

definition un_order_key :: "nat \<times> int \<times> string \<Rightarrow> json" where
  "un_order_key k = (if fst k = 1 then JInt (fst (snd k)) else JStr (snd (snd k)))"

definition sorted_members :: "json fset \<Rightarrow> json list res" where
  "sorted_members ps =
     (if fBex ps (\<lambda>a. fBex ps (\<lambda>b. a \<noteq> b \<and> \<not> orderable a b)) then Inl TypeErr
      else Inr (map un_order_key (sorted_list_of_fset (order_key |`| ps))))"

definition fold_membership_wire :: "store \<Rightarrow> (json, json list) fmap res" where
  "fold_membership_wire s =
     res_bind (fold_membership s) (\<lambda>folded.
       if fBex (fmran folded) (\<lambda>ps. sorted_members ps = Inl TypeErr) then Inl TypeErr
       else Inr (fmmap (\<lambda>ps. case sorted_members ps of Inr xs \<Rightarrow> xs | Inl _ \<Rightarrow> []) folded))"

section \<open>The person registry\<close>

record registry =
  persons :: "(json, json) fmap"
  aliases :: "(json \<times> json, json) fmap"
  merges :: "(json, json \<times> json list) fmap"

definition registry_step :: "dict \<Rightarrow> registry \<Rightarrow> registry res" where
  "registry_step event r =
     (let kind = dget event ''kind''; person_id = dget event ''person_id'';
          namespace = dget event ''namespace''; value = dget event ''normalized_value'';
          from_id = dget event ''from_id''; into_id = dget event ''into_id'' in
      if \<not> hashable kind then Inl TypeErr
      else if kind = JStr ''person_created''
      then if \<not> truthy person_id then Inr r
        else if \<not> hashable person_id then Inl TypeErr
        else Inr (r\<lparr>persons := fmupd (py_norm person_id)
               (JObj (fmap_of_list [(''display_name'', dget event ''display_name'')])) (persons r)\<rparr>)
      else if kind = JStr ''person_alias_added''
      then if \<not> truthy namespace \<or> value = JNull \<or> \<not> truthy person_id then Inr r
        else if \<not> hashable namespace \<or> \<not> hashable value then Inl TypeErr
        else Inr (r\<lparr>aliases := fmupd (py_norm namespace, py_norm value) (py_norm person_id) (aliases r)\<rparr>)
      else if kind = JStr ''person_alias_retracted''
      then if \<not> truthy namespace \<or> value = JNull then Inr r
        else if \<not> hashable namespace \<or> \<not> hashable value then Inl TypeErr
        else Inr (r\<lparr>aliases := fmdrop (py_norm namespace, py_norm value) (aliases r)\<rparr>)
      else if kind = JStr ''person_merged''
      then if \<not> truthy from_id \<or> \<not> truthy into_id then Inr r
        else if \<not> hashable from_id then Inl TypeErr
        else Inr (r\<lparr>merges := fmupd (py_norm from_id) (py_norm into_id, event_key event) (merges r)\<rparr>)
      else Inr r)"

definition empty_registry :: registry where
  "empty_registry = \<lparr>persons = fmempty, aliases = fmempty, merges = fmempty\<rparr>"

definition fold_person_registry_events :: "dict list \<Rightarrow> registry res" where
  "fold_person_registry_events events = res_fold registry_step events empty_registry"

definition fold_person_registry :: "store \<Rightarrow> registry res" where
  "fold_person_registry s = res_bind (read_events s) fold_person_registry_events"

text \<open>\<open>max(xs, key=k)\<close> on a non-empty list: the first maximal element; a comparison that Python
  cannot make raises.\<close>

fun py_max_from :: "('a \<Rightarrow> json list) \<Rightarrow> 'a \<Rightarrow> 'a list \<Rightarrow> 'a res" where
  "py_max_from k best [] = Inr best"
| "py_max_from k best (x # xs) =
     (if \<not> tuple_orderable (k x) (k best) then Inl TypeErr
      else py_max_from k (if map order_key (k best) < map order_key (k x) then x else best) xs)"

text \<open>The source of the cycle edge that sorts last; \<open>max\<close> of an empty sequence raises.\<close>

fun cycle_survivor :: "(json \<times> json list) list \<Rightarrow> json res" where
  "cycle_survivor [] = Inl (ValueErr ''max() arg is an empty sequence'')"
| "cycle_survivor (e # es) = res_bind (py_max_from snd e es) (\<lambda>d. Inr (fst d))"

fun index_of :: "'a list \<Rightarrow> 'a \<Rightarrow> nat" where
  "index_of [] y = 0"
| "index_of (x # xs) y = (if x = y then 0 else Suc (index_of xs y))"

text \<open>
  The walk of \<open>resolve_person\<close>. It ends because every step extends the path by a target of a merge
  that was not on it.
\<close>

function resolve_walk ::
  "(json, json \<times> json list) fmap \<Rightarrow> json list \<Rightarrow> (json \<times> json list) list \<Rightarrow> json \<Rightarrow> json res" where
  "resolve_walk ms path edges current =
     (if \<not> hashable current then Inl TypeErr
      else (case fmlookup ms current of
        None \<Rightarrow> Inr current
      | Some (into_id, skey) \<Rightarrow>
          if into_id = current then Inl (TrackerEntityError ''self-referential person_merged edge'')
          else if into_id \<in> set path
          then cycle_survivor (drop (index_of path into_id) edges @ [(current, skey)])
          else resolve_walk ms (path @ [into_id]) (edges @ [(current, skey)]) into_id))"
  by pat_completeness auto
termination
proof (relation "measure (\<lambda>(m, path, _, _). card (fst ` fset (fmran m) - set path))", goal_cases)
  case (2 m path edges c p i k)
  then have "i \<in> fst ` fset (fmran m) - set path" by (force intro: fmranI)
  then have "fst ` fset (fmran m) - set (path @ [i]) \<subset> fst ` fset (fmran m) - set path"
    unfolding set_append by auto
  then have "card (fst ` fset (fmran m) - set (path @ [i])) < card (fst ` fset (fmran m) - set path)"
    by (intro psubset_card_mono) simp_all
  then show ?case by simp
qed simp

declare resolve_walk.simps [simp del]

definition resolve_person :: "json \<Rightarrow> registry \<Rightarrow> json res" where
  "resolve_person person_id r =
     resolve_walk (merges r) [py_norm person_id] [] (py_norm person_id)"

definition resolve_alias :: "string \<Rightarrow> string \<Rightarrow> registry \<Rightarrow> json option res" where
  "resolve_alias namespace raw_value r =
     (case fmlookup (aliases r) (JStr namespace, JStr (normalize_alias namespace raw_value)) of
        None \<Rightarrow> Inr None
      | Some person_id \<Rightarrow> res_bind (resolve_person person_id r) (\<lambda>p. Inr (Some p)))"

section \<open>Person membership\<close>

definition person_step ::
  "registry \<Rightarrow> dict \<Rightarrow> (json, (json \<times> json) fset) fmap \<Rightarrow> (json, (json \<times> json) fset) fmap res" where
  "person_step r event membership =
     (let kind = dget event ''kind''; item_id = dget event ''item_id''; role = dget event ''role'';
          key = py_norm item_id in
      if \<not> hashable kind then Inl TypeErr
      else if kind \<noteq> JStr ''item_person_added'' \<and> kind \<noteq> JStr ''item_person_retracted''
      then Inr membership
      else if \<not> truthy item_id \<or> \<not> truthy role then Inr membership
      else res_bind (if dget event ''person_id'' = JNull then Inr JNull
                     else resolve_person (dget event ''person_id'') r) (\<lambda>person_id.
        if \<not> hashable item_id \<or> \<not> hashable role then Inl TypeErr
        else if kind = JStr ''item_person_added''
        then Inr (fmupd key (finsert (person_id, py_norm role) (edges_of membership key)) membership)
        else Inr (fmupd key (edges_of membership key |-| {|(person_id, py_norm role)|}) membership)))"

definition fold_person_membership :: "store \<Rightarrow> (json, (json \<times> json) fset) fmap res" where
  "fold_person_membership s =
     res_bind (read_events s) (\<lambda>events.
       res_bind (fold_person_registry_events events) (\<lambda>r.
         res_fold (person_step r) events fmempty))"

section \<open>Axis states\<close>

definition AXES :: "string list" where
  "AXES = [''manual_close'', ''code_complete'', ''qa_verified'']"

text \<open>\<open>v or ""\<close>\<close>

definition or_empty :: "json \<Rightarrow> json" where
  "or_empty v = (if truthy v then v else JStr [])"

definition is_snapshot :: "dict \<Rightarrow> bool" where
  "is_snapshot e = (dget e ''kind'' = JStr ''snapshot'')"

definition axis_sort_key :: "dict \<Rightarrow> json list" where
  "axis_sort_key event =
     (if is_snapshot event then [dget event ''as_of_applied_at'', JStr [], JStr [], JInt 0]
      else [dget event ''applied_at'', or_empty (dget event ''observed_at''),
            or_empty (dget event ''id''), JInt 1])"

text \<open>\<open>set(v or ())\<close>: the members of a JSON value that Python can iterate.\<close>

fun as_id_set :: "json \<Rightarrow> json list res" where
  "as_id_set (JList xs) = (if list_all hashable xs then Inr (map py_norm xs) else Inl TypeErr)"
| "as_id_set (JStr s) = Inr (map (\<lambda>c. JStr [c]) s)"
| "as_id_set (JObj m) = Inr (map JStr (sorted_list_of_fset (fmdom m)))"
| "as_id_set v = (if truthy v then Inl TypeErr else Inr [])"

fun axis_fold :: "dict list \<Rightarrow> json list \<Rightarrow> json \<Rightarrow> json res" where
  "axis_fold [] skip_ids state = Inr state"
| "axis_fold (event # events) skip_ids state =
     (if is_snapshot event
      then res_bind (as_id_set (dget event ''folded_event_ids'')) (\<lambda>ids.
             axis_fold events (skip_ids @ ids) (dget event ''folded_to_state''))
      else if \<not> hashable (dget event ''id'') then Inl TypeErr
      else if py_norm (dget event ''id'') \<in> set skip_ids then axis_fold events skip_ids state
      else if dget event ''to_state'' = JNull
      then Inl (TrackerStoreError ''malformed transition event: to_state is None'')
      else axis_fold events skip_ids (dget event ''to_state''))"

definition fold_one_axis :: "dict list \<Rightarrow> json res" where
  "fold_one_axis this_axis_events =
     res_bind (py_sort_by axis_sort_key this_axis_events) (\<lambda>es. axis_fold es [] JNull)"

definition axis_events :: "string \<Rightarrow> string \<Rightarrow> dict list \<Rightarrow> dict list" where
  "axis_events item_id axis events =
     filter (\<lambda>e. dget e ''item_id'' = JStr item_id \<and> dget e ''axis'' = JStr axis) events"

fun fold_axes :: "string \<Rightarrow> dict list \<Rightarrow> string list \<Rightarrow> (string, json) fmap res" where
  "fold_axes item_id events [] = Inr fmempty"
| "fold_axes item_id events (axis # axes) =
     res_bind (fold_one_axis (axis_events item_id axis events)) (\<lambda>state.
       res_bind (fold_axes item_id events axes) (\<lambda>states. Inr (fmupd axis state states)))"

definition fold_axis_states :: "string \<Rightarrow> store \<Rightarrow> (string, json) fmap res" where
  "fold_axis_states item_id s =
     res_bind (read_events s) (\<lambda>events.
       if list_ex (\<lambda>e. dget e ''item_id'' = JStr item_id \<and> \<not> hashable (dget e ''axis'')) events
       then Inl TypeErr
       else fold_axes item_id events AXES)"

definition state_of :: "(string, json) fmap \<Rightarrow> string \<Rightarrow> json" where
  "state_of states axis = (case fmlookup states axis of None \<Rightarrow> JNull | Some v \<Rightarrow> v)"

definition current_state :: "string \<Rightarrow> string \<Rightarrow> store \<Rightarrow> json res" where
  "current_state item_id axis s =
     res_bind (fold_axis_states item_id s) (\<lambda>states. Inr (state_of states axis))"

definition status_of :: "(string, json) fmap \<Rightarrow> string" where
  "status_of states =
     (if state_of states ''manual_close'' = JStr ''closed'' \<or>
         (state_of states ''code_complete'' = JStr ''asserted'' \<and>
          state_of states ''qa_verified'' = JStr ''verified'')
      then ''closed'' else ''open'')"

definition render_status :: "string \<Rightarrow> store \<Rightarrow> string res" where
  "render_status item_id s =
     res_bind (fold_axis_states item_id s) (\<lambda>states. Inr (status_of states))"

end
