(* ===== verification/Tracker_Membership.thy ===== *)
theory Tracker_Membership
  imports Tracker_Projection
begin

text \<open>
  Folds in which the last operation on a key wins. The locale states the one law such a fold
  step has to satisfy; project membership, person membership, the alias table and the merge table
  of the registry are its instances, and their properties rest on it.
\<close>

section \<open>Latest wins\<close>

text \<open>The value that the last event touching a key gives it, or a default.\<close>

definition latest :: "('e \<Rightarrow> ('k \<times> 'v) option) \<Rightarrow> 'k \<Rightarrow> 'v \<Rightarrow> 'e list \<Rightarrow> 'v" where
  "latest eff k d es =
     (case filter (\<lambda>e. map_option fst (eff e) = Some k) es of
        [] \<Rightarrow> d | x # xs \<Rightarrow> snd (the (eff (last (x # xs)))))"

lemma latest_Nil [simp]: "latest eff k d [] = d"
  by (simp add: latest_def)

lemma latest_Cons:
  "latest eff k d (e # es) =
     latest eff k (case eff e of Some (k', v) \<Rightarrow> if k' = k then v else d | None \<Rightarrow> d) es"
  by (auto simp: latest_def split: option.splits list.splits)

locale latest_wins =
  fixes step :: "'e \<Rightarrow> 's \<Rightarrow> 's res"
    and val :: "'s \<Rightarrow> 'k \<Rightarrow> 'v"
    and eff :: "'e \<Rightarrow> ('k \<times> 'v) option"
  assumes step_val: "step e s = Inr s' \<Longrightarrow>
    val s' k = (case eff e of Some (k', v) \<Rightarrow> if k' = k then v else val s k | None \<Rightarrow> val s k)"
begin

lemma fold_latest: "res_fold step es s = Inr s' \<Longrightarrow> val s' k = latest eff k (val s k) es"
proof (induction es arbitrary: s)
  case (Cons e es)
  then obtain t where t: "step e s = Inr t" and rest: "res_fold step es t = Inr s'"
    by (auto simp: res_bind_Inr_iff)
  show ?case unfolding latest_Cons step_val [OF t, symmetric] by (rule Cons.IH [OF rest])
qed simp

lemma fold_untouched:
  "res_fold step es s = Inr s' \<Longrightarrow> \<forall>e \<in> set es. map_option fst (eff e) \<noteq> Some k \<Longrightarrow> val s' k = val s k"
  by (simp add: fold_latest latest_def)

end

section \<open>Project membership\<close>

definition project_effect :: "dict \<Rightarrow> ((json \<times> json) \<times> bool) option" where
  "project_effect e =
     (if (dget e ''kind'' = JStr ''item_project_added'' \<or> dget e ''kind'' = JStr ''item_project_retracted'') \<and>
         truthy (dget e ''item_id'') \<and> truthy (dget e ''project_id'')
      then Some ((py_norm (dget e ''item_id''), py_norm (dget e ''project_id'')),
                 dget e ''kind'' = JStr ''item_project_added'')
      else None)"

text \<open>An event that makes an item known to the fold.\<close>

definition mentions_item :: "dict \<Rightarrow> json \<Rightarrow> bool" where
  "mentions_item e i =
     (truthy (dget e ''item_id'') \<and> py_norm (dget e ''item_id'') = i \<and>
      (dget e ''kind'' = JStr ''item_created'' \<or> project_effect e \<noteq> None))"

lemma edges_of_upd [simp]: "edges_of (fmupd i es m) j = (if i = j then es else edges_of m j)"
  by (simp add: edges_of_def)

lemma edges_of_empty [simp]: "edges_of fmempty j = {||}"
  by (simp add: edges_of_def)

interpretation project_edges:
  latest_wins membership_step "\<lambda>m k. snd k |\<in>| edges_of m (fst k)" project_effect
  by unfold_locales
    (auto simp: membership_step_def project_effect_def Let_def split: if_splits)

lemma membership_step_dom:
  "membership_step e m = Inr m' \<Longrightarrow> i |\<in>| fmdom m' \<longleftrightarrow> i |\<in>| fmdom m \<or> mentions_item e i"
  by (auto simp: membership_step_def mentions_item_def project_effect_def Let_def split: if_splits)

lemma membership_fold_dom:
  "res_fold membership_step es m = Inr m' \<Longrightarrow>
     i |\<in>| fmdom m' \<longleftrightarrow> i |\<in>| fmdom m \<or> (\<exists>e \<in> set es. mentions_item e i)"
proof (induction es arbitrary: m)
  case (Cons e es)
  then obtain t where t: "membership_step e m = Inr t" and rest: "res_fold membership_step es t = Inr m'"
    by (auto simp: res_bind_Inr_iff)
  show ?case using Cons.IH [OF rest] membership_step_dom [OF t] by auto
qed simp

lemma fold_membership_Inr:
  assumes "fold_membership s = Inr folded"
  obtains evs m where "read_events s = Inr evs" and "res_fold membership_step evs fmempty = Inr m"
    and "folded = fmmap (\<lambda>es. if es = {||} then {|JStr RESERVED_PROJECT_ID|} else es) m"
  using assms by (auto simp: fold_membership_def res_bind_Inr_iff)

text \<open>Project membership is total and never ambiguous about being unassigned: the fold lists
  exactly the items the stream mentions, each with a non-empty set of projects, and an item is listed
  under the reserved project exactly when it has no current edge, and then under that one alone
  (given that no stored edge names the reserved project).\<close>

theorem membership_total:
  assumes "fold_membership s = Inr folded" and "read_events s = Inr evs"
    and "\<forall>e \<in> set evs. dget e ''project_id'' \<noteq> JStr RESERVED_PROJECT_ID"
  shows "(i |\<in>| fmdom folded \<longleftrightarrow> (\<exists>e \<in> set evs. mentions_item e i)) \<and>
    (\<forall>ps. fmlookup folded i = Some ps \<longrightarrow> ps \<noteq> {||} \<and>
       (JStr RESERVED_PROJECT_ID |\<in>| ps \<longleftrightarrow> ps = {|JStr RESERVED_PROJECT_ID|}) \<and>
       (ps = {|JStr RESERVED_PROJECT_ID|} \<longleftrightarrow> (\<forall>p. \<not> latest project_effect (i, p) False evs)))"
proof -
  obtain m where m: "res_fold membership_step evs fmempty = Inr m"
    and folded: "folded = fmmap (\<lambda>es. if es = {||} then {|JStr RESERVED_PROJECT_ID|} else es) m"
    using assms(1,2) by (auto elim: fold_membership_Inr)
  have val: "p |\<in>| edges_of m j \<longleftrightarrow> latest project_effect (j, p) False evs" for j p
    using project_edges.fold_latest [OF m, of "(j, p)"] by simp
  have "\<not> latest project_effect (i, JStr RESERVED_PROJECT_ID) False evs"
    using project_edges.fold_untouched [OF m, of "(i, JStr RESERVED_PROJECT_ID)"] assms(3) val
    by (auto simp: project_effect_def)
  then have res: "JStr RESERVED_PROJECT_ID |\<notin>| edges_of m i" by (simp add: val)
  have dom: "i |\<in>| fmdom folded \<longleftrightarrow> (\<exists>e \<in> set evs. mentions_item e i)"
    using membership_fold_dom [OF m] by (simp add: folded)
  have "ps \<noteq> {||} \<and> (JStr RESERVED_PROJECT_ID |\<in>| ps \<longleftrightarrow> ps = {|JStr RESERVED_PROJECT_ID|}) \<and>
      (ps = {|JStr RESERVED_PROJECT_ID|} \<longleftrightarrow> (\<forall>p. \<not> latest project_effect (i, p) False evs))"
    if look: "fmlookup folded i = Some ps" for ps
  proof -
    obtain es where es: "fmlookup m i = Some es"
      "ps = (if es = {||} then {|JStr RESERVED_PROJECT_ID|} else es)"
      using look by (auto simp: folded)
    then have "edges_of m i = es" by (simp add: edges_of_def)
    then show ?thesis using res es(2) unfolding val [symmetric] by auto
  qed
  with dom show ?thesis by blast
qed

text \<open>The last operation on an edge wins: a real project is in an item's folded set exactly when
  the last stored event on that pair is an addition, whatever came before it and in whichever
  shard.\<close>

theorem membership_latest_wins:
  assumes "fold_membership s = Inr folded" and "read_events s = Inr evs"
    and "fmlookup folded i = Some ps" and "p \<noteq> JStr RESERVED_PROJECT_ID"
  shows "p |\<in>| ps \<longleftrightarrow> latest project_effect (i, p) False evs"
proof -
  obtain m where m: "res_fold membership_step evs fmempty = Inr m"
    and folded: "folded = fmmap (\<lambda>es. if es = {||} then {|JStr RESERVED_PROJECT_ID|} else es) m"
    using assms(1,2) by (auto elim: fold_membership_Inr)
  then obtain es where es: "fmlookup m i = Some es"
    "ps = (if es = {||} then {|JStr RESERVED_PROJECT_ID|} else es)"
    using assms(3) by auto
  then have "p |\<in>| ps \<longleftrightarrow> p |\<in>| edges_of m i" using assms(4) by (auto simp: edges_of_def)
  then show ?thesis using project_edges.fold_latest [OF m, of "(i, p)"] by simp
qed

section \<open>The tables of the registry\<close>

definition alias_effect :: "dict \<Rightarrow> ((json \<times> json) \<times> json option) option" where
  "alias_effect e =
     (let k = (py_norm (dget e ''namespace''), py_norm (dget e ''normalized_value'')) in
      if \<not> truthy (dget e ''namespace'') \<or> dget e ''normalized_value'' = JNull then None
      else if dget e ''kind'' = JStr ''person_alias_added'' \<and> truthy (dget e ''person_id'')
      then Some (k, Some (py_norm (dget e ''person_id'')))
      else if dget e ''kind'' = JStr ''person_alias_retracted'' then Some (k, None)
      else None)"

definition merge_effect :: "dict \<Rightarrow> (json \<times> (json \<times> json list) option) option" where
  "merge_effect e =
     (if dget e ''kind'' = JStr ''person_merged'' \<and> truthy (dget e ''from_id'') \<and> truthy (dget e ''into_id'')
      then Some (py_norm (dget e ''from_id''), Some (py_norm (dget e ''into_id''), event_key e))
      else None)"

interpretation alias_table:
  latest_wins registry_step "\<lambda>r. fmlookup (aliases r)" alias_effect
  by unfold_locales (auto simp: registry_step_def alias_effect_def Let_def split: if_splits)

interpretation merge_table:
  latest_wins registry_step "\<lambda>r. fmlookup (merges r)" merge_effect
  by unfold_locales (auto simp: registry_step_def merge_effect_def Let_def split: if_splits)

text \<open>An alias resolves through the last operation on it: after a retraction it resolves to
  nobody, and otherwise to the survivor of the person it was last registered to.\<close>

theorem alias_latest_wins:
  assumes "fold_person_registry_events evs = Inr r"
  shows "resolve_alias ns raw r =
    (case latest alias_effect (JStr ns, JStr (normalize_alias ns raw)) None evs of
       None \<Rightarrow> Inr None
     | Some p \<Rightarrow> res_bind (resolve_person p r) (\<lambda>q. Inr (Some q)))"
proof -
  have "fmlookup (aliases r) k = latest alias_effect k None evs" for k
    using alias_table.fold_latest [OF assms [unfolded fold_person_registry_events_def], of k]
    by (simp add: empty_registry_def)
  then show ?thesis by (simp add: resolve_alias_def)
qed

end
