(* ===== verification/Tracker_Registry.thy ===== *)
theory Tracker_Registry
  imports Tracker_Membership
begin

text \<open>
  Merge resolution: \<open>resolve_person\<close> follows the merge edges of the registry and breaks a cycle at
  the edge that sorts last. Whichever member of a merged group it starts from, it ends at the same
  survivor, and the survivor resolves to itself.
\<close>

section \<open>The last edge of a cycle\<close>

text \<open>What reading the log guarantees of the merge table: hashable sources, string sort keys, and
  one sort key per edge.\<close>

definition merges_ok :: "(json, json \<times> json list) fmap \<Rightarrow> bool" where
  "merges_ok ms =
     ((\<forall>x i k. fmlookup ms x = Some (i, k) \<longrightarrow> hashable x \<and> list_all (\<lambda>v. as_str v \<noteq> None) k) \<and>
      (\<forall>x y i j k. fmlookup ms x = Some (i, k) \<and> fmlookup ms y = Some (j, k) \<longrightarrow> x = y))"

definition merge_edges :: "(json, json \<times> json list) fmap \<Rightarrow> (json \<times> json list) set" where
  "merge_edges ms = {(x, k). \<exists>i. fmlookup ms x = Some (i, k)}"

lemma py_max_from_mem: "py_max_from f b xs = Inr d \<Longrightarrow> d \<in> set (b # xs)"
  by (induction f b xs rule: py_max_from.induct) (auto split: if_splits)

lemma py_max_from_spec:
  "list_all (\<lambda>e. list_all (\<lambda>v. as_str v \<noteq> None) (f e)) (b # xs) \<Longrightarrow>
     \<exists>d. py_max_from f b xs = Inr d \<and> d \<in> set (b # xs) \<and>
       (\<forall>e \<in> set (b # xs). map order_key (f e) \<le> map order_key (f d))"
proof (induction f b xs rule: py_max_from.induct)
  case (2 f b x xs)
  let ?b = "if map order_key (f b) < map order_key (f x) then x else b"
  have ord: "tuple_orderable (f x) (f b)" using 2(2) by (auto intro: tuple_orderable_strs)
  have "list_all (\<lambda>e. list_all (\<lambda>v. as_str v \<noteq> None) (f e)) (?b # xs)" using 2(2) by auto
  then obtain d where d: "py_max_from f ?b xs = Inr d" "d \<in> set (?b # xs)"
    "\<forall>e \<in> set (?b # xs). map order_key (f e) \<le> map order_key (f d)"
    using 2(1) ord by blast
  have "map order_key (f e) \<le> map order_key (f ?b)" if "e \<in> {b, x}" for e
    using that by auto
  then have "map order_key (f e) \<le> map order_key (f d)" if "e \<in> {b, x}" for e
    using that d(3) by (meson list.set_intros(1) order_trans)
  then show ?case using d ord by (auto split: if_splits)
qed auto

lemma map_order_key_inj:
  "list_all (\<lambda>v. as_str v \<noteq> None) k \<Longrightarrow> map order_key k = map order_key k' \<Longrightarrow> k = k'"
  by (induction k arbitrary: k') (auto intro: order_key_inj_str)

lemma cycle_survivor_mem: "cycle_survivor es = Inr r \<Longrightarrow> r \<in> fst ` set es"
proof (cases es)
  case (Cons e fs)
  assume "cycle_survivor es = Inr r"
  then obtain d where "py_max_from snd e fs = Inr d" "r = fst d" using Cons by (auto simp: res_bind_Inr_iff)
  then show ?thesis using py_max_from_mem [of snd e fs d] Cons by auto
qed simp

lemma merge_edges_strings: "merges_ok ms \<Longrightarrow> (x, k) \<in> merge_edges ms \<Longrightarrow> list_all (\<lambda>v. as_str v \<noteq> None) k"
  by (auto simp: merges_ok_def merge_edges_def)

lemma merge_edges_inj:
  "merges_ok ms \<Longrightarrow> (x, k) \<in> merge_edges ms \<Longrightarrow> (y, k) \<in> merge_edges ms \<Longrightarrow> x = y"
  by (auto simp: merges_ok_def merge_edges_def)

text \<open>The survivor depends on the set of cycle edges, not on where the walk entered the cycle.\<close>

lemma cycle_survivor_set:
  assumes ok: "merges_ok ms" and sub: "set es \<subseteq> merge_edges ms" and same: "set fs = set es" and "es \<noteq> []"
  shows "cycle_survivor es = cycle_survivor fs \<and> (\<exists>d. cycle_survivor es = Inr d)"
proof -
  have surv: "\<exists>d. cycle_survivor xs = Inr (fst d) \<and> d \<in> set es \<and>
      (\<forall>e \<in> set es. map order_key (snd e) \<le> map order_key (snd d))"
    if xs: "set xs = set es" for xs
  proof -
    obtain a as where a: "xs = a # as" using xs assms(4) by (cases xs) auto
    have "list_all (\<lambda>e. list_all (\<lambda>v. as_str v \<noteq> None) (snd e)) (a # as)"
      using xs sub merge_edges_strings [OF ok] unfolding a list_all_iff [of _ "a # as"]
      by (metis (no_types, lifting) prod.collapse subsetD)
    then obtain d where "py_max_from snd a as = Inr d" "d \<in> set (a # as)"
      "\<forall>e \<in> set (a # as). map order_key (snd e) \<le> map order_key (snd d)"
      using py_max_from_spec [of snd a as] by blast
    then show ?thesis using xs unfolding a by (metis cycle_survivor.simps(2) res_bind_simps(2))
  qed
  obtain d where d: "cycle_survivor es = Inr (fst d)" "d \<in> set es"
      "\<forall>e \<in> set es. map order_key (snd e) \<le> map order_key (snd d)"
    using surv [OF refl] by blast
  obtain f where f: "cycle_survivor fs = Inr (fst f)" "f \<in> set es"
      "\<forall>e \<in> set es. map order_key (snd e) \<le> map order_key (snd f)"
    using surv [OF same] by blast
  have "map order_key (snd d) = map order_key (snd f)" using d(2,3) f(2,3) by (simp add: antisym)
  moreover have "list_all (\<lambda>v. as_str v \<noteq> None) (snd d)"
    using d(2) sub merge_edges_strings [OF ok, of "fst d" "snd d"] by auto
  ultimately have "snd d = snd f" by (rule map_order_key_inj [rotated])
  then have "fst d = fst f"
    using merge_edges_inj [OF ok] d(2) f(2) sub by (metis prod.collapse subsetD)
  with d(1) f(1) show ?thesis by simp
qed

section \<open>Starting one step later\<close>

lemma index_of_hd: "xs \<noteq> [] \<Longrightarrow> index_of (xs @ ys) (hd xs) = 0"
  by (cases xs) auto

lemma walk_shift:
  assumes "merges_ok ms" and "fmlookup ms p = Some (hd path, k0)" and "path \<noteq> []" and "p \<notin> set path"
    and "set edges \<subseteq> merge_edges ms" and "length path = Suc (length edges)" and "last path = cur"
  shows "resolve_walk ms (p # path) ((p, k0) # edges) cur = resolve_walk ms path edges cur"
  using assms
proof (induction ms path edges cur rule: resolve_walk.induct)
  case (1 ms path edges cur)
  show ?case
  proof (cases "hashable cur \<and> fmlookup ms cur \<noteq> None")
    case True
    then obtain i k where look: "fmlookup ms cur = Some (i, k)" and h: "hashable cur" by auto
    have edge: "(cur, k) \<in> merge_edges ms" "(p, k0) \<in> merge_edges ms"
      using look 1(3) by (auto simp: merge_edges_def)
    have cur: "cur \<noteq> p" using 1(4,5,8) last_in_set by fastforce
    consider "i = cur" | "i = p" | "i \<noteq> cur" "i \<noteq> p" "i \<in> set path" | "i \<noteq> cur" "i \<noteq> p" "i \<notin> set path"
      by blast
    then show ?thesis
    proof cases
      case 2
      have hp: "hashable p" using 1(2,3) by (auto simp: merges_ok_def)
      have ne: "hd path \<noteq> p" using 1(4,5) hd_in_set by fastforce
      have "resolve_walk ms path edges cur = resolve_walk ms (path @ [p]) (edges @ [(cur, k)]) p"
        using look h 2 cur 1(5) by (subst resolve_walk.simps) simp
      also have "\<dots> = cycle_survivor ((edges @ [(cur, k)]) @ [(p, k0)])"
        using hp 1(3,4) ne index_of_hd [OF 1(4), of "[p]"] by (subst resolve_walk.simps) simp
      also have "\<dots> = cycle_survivor ((p, k0) # edges @ [(cur, k)])"
        by (rule conjunct1 [OF cycle_survivor_set [OF 1(2)]]) (use 1(6) edge in auto)
      finally show ?thesis using look h 2 cur by (subst resolve_walk.simps) simp
    next
      case 4
      have "resolve_walk ms (p # path @ [i]) ((p, k0) # edges @ [(cur, k)]) i =
          resolve_walk ms (path @ [i]) (edges @ [(cur, k)]) i"
        using 1(1) [OF _ look refl 4(1,3)] h 1(2-8) 4 edge by (simp add: hd_append)
      then show ?thesis
        using look h 4 by (subst (1 2) resolve_walk.simps) simp
    qed (use look h in \<open>subst (1 2) resolve_walk.simps, simp\<close>)+
  qed (subst (1 2) resolve_walk.simps, auto split: option.splits)
qed

definition merged_into :: "(json, json \<times> json list) fmap \<Rightarrow> json \<Rightarrow> json \<Rightarrow> bool" where
  "merged_into ms a b = (\<exists>k. fmlookup ms a = Some (b, k))"

lemma walk_start_coherent:
  assumes "merges_ok ms" and "merged_into ms p q"
  shows "resolve_walk ms [p] [] p = resolve_walk ms [q] [] q"
proof (cases "q = p")
  case False
  obtain k where k: "fmlookup ms p = Some (q, k)" using assms(2) by (auto simp: merged_into_def)
  then have "resolve_walk ms [p] [] p = resolve_walk ms [p, q] [(p, k)] q"
    using assms(1) False by (subst resolve_walk.simps) (simp add: merges_ok_def)
  also have "\<dots> = resolve_walk ms [q] [] q"
    using walk_shift [OF assms(1), of p "[q]" k "[]" q] k False by simp
  finally show ?thesis .
qed simp

lemma walk_reach_coherent:
  assumes "(merged_into ms)\<^sup>*\<^sup>* p q" and "merges_ok ms"
  shows "resolve_walk ms [p] [] p = resolve_walk ms [q] [] q"
  using assms by (induction rule: rtranclp_induct) (auto simp: walk_start_coherent)

lemma walk_result_reach:
  "resolve_walk ms path edges cur = Inr r \<Longrightarrow> r \<in> fst ` set edges \<or> (merged_into ms)\<^sup>*\<^sup>* cur r"
proof (induction ms path edges cur rule: resolve_walk.induct)
  case (1 ms path edges cur)
  show ?case
  proof (cases "fmlookup ms cur")
    case None
    with 1(2) show ?thesis by (subst (asm) resolve_walk.simps) (auto split: if_splits)
  next
    case (Some ik)
    obtain i k where ik: "ik = (i, k)" by (cases ik)
    have h: "hashable cur" "i \<noteq> cur"
      using 1(2) Some ik by (subst (asm) resolve_walk.simps, auto split: if_splits)+
    show ?thesis
    proof (cases "i \<in> set path")
      case True
      let ?es = "drop (index_of path i) edges @ [(cur, k)]"
      have "cycle_survivor ?es = Inr r"
        using 1(2) Some ik h True by (subst (asm) resolve_walk.simps) simp
      then have "r \<in> fst ` set ?es" by (rule cycle_survivor_mem)
      then show ?thesis by (auto dest: in_set_dropD)
    next
      case False
      then have "resolve_walk ms (path @ [i]) (edges @ [(cur, k)]) i = Inr r"
        using 1(2) Some ik h by (subst (asm) resolve_walk.simps) simp
      then have "r \<in> fst ` set (edges @ [(cur, k)]) \<or> (merged_into ms)\<^sup>*\<^sup>* i r"
        using 1(1) [OF _ Some ik [symmetric] h(2) False] h by blast
      moreover have "merged_into ms cur i" using Some ik by (simp add: merged_into_def)
      ultimately show ?thesis by (auto intro: converse_rtranclp_into_rtranclp)
    qed
  qed
qed

lemma walk_total:
  assumes "merges_ok ms" and "\<forall>x i k. fmlookup ms x = Some (i, k) \<longrightarrow> hashable i \<and> i \<noteq> x"
    and "hashable cur" and "set edges \<subseteq> merge_edges ms"
  shows "\<exists>r. resolve_walk ms path edges cur = Inr r"
  using assms
proof (induction ms path edges cur rule: resolve_walk.induct)
  case (1 ms path edges cur)
  show ?case
  proof (cases "fmlookup ms cur")
    case None
    with 1(4) show ?thesis by (subst resolve_walk.simps) simp
  next
    case (Some ik)
    obtain i k where ik: "ik = (i, k)" by (cases ik)
    have i: "hashable i" "i \<noteq> cur" using 1(3) Some ik by auto
    have edges: "set (drop n edges @ [(cur, k)]) \<subseteq> merge_edges ms" for n
      using 1(5) Some ik by (auto simp: merge_edges_def dest: in_set_dropD)
    show ?thesis
    proof (cases "i \<in> set path")
      case True
      then show ?thesis
        using cycle_survivor_set [OF 1(2) edges refl] Some ik i 1(4)
        by (subst resolve_walk.simps) simp
    next
      case False
      then obtain r where "resolve_walk ms (path @ [i]) (edges @ [(cur, k)]) i = Inr r"
        using 1(1) [OF _ Some ik [symmetric] i(2) False 1(2,3) i(1)] edges [of 0] 1(4) by auto
      with False show ?thesis using Some ik i 1(4) by (subst resolve_walk.simps) simp
    qed
  qed
qed

section \<open>The registry of a readable log\<close>

lemma hashable_py_norm [simp]: "hashable (py_norm v) = hashable v"
  by (cases v) auto

lemma py_norm_idem [simp]: "py_norm (py_norm v) = py_norm v"
proof (induction v)
  case (JList xs)
  then show ?case by simp
next
  case (JObj m)
  have "fmmap (\<lambda>x. py_norm (py_norm x)) m = fmmap py_norm m"
    using JObj by (intro fmap.map_cong) auto
  then show ?case by (simp add: fmap.map_comp comp_def)
qed auto

lemma registry_step_keys:
  "registry_step e r = Inr r' \<Longrightarrow> \<forall>x \<in> fset (fmdom (merges r)). hashable x \<Longrightarrow>
     \<forall>x \<in> fset (fmdom (merges r')). hashable x"
  by (auto simp: registry_step_def Let_def split: if_splits)

lemma registry_fold_keys:
  "res_fold registry_step es r = Inr r' \<Longrightarrow> \<forall>x \<in> fset (fmdom (merges r)). hashable x \<Longrightarrow>
     \<forall>x \<in> fset (fmdom (merges r')). hashable x"
proof (induction es arbitrary: r)
  case (Cons e es)
  then obtain t where t: "registry_step e r = Inr t" and rest: "res_fold registry_step es t = Inr r'"
    by (auto simp: res_bind_Inr_iff)
  show ?case by (rule Cons.IH [OF rest registry_step_keys [OF t Cons.prems(2)]])
qed simp

lemma latest_Some_mem:
  assumes "latest eff k None es = Some v"
  obtains e where "e \<in> set es" and "eff e = Some (k, Some v)"
proof -
  obtain x xs where f: "filter (\<lambda>e. map_option fst (eff e) = Some k) es = x # xs"
    using assms by (auto simp: latest_def split: list.splits)
  let ?e = "last (x # xs)"
  have "?e \<in> set (filter (\<lambda>e. map_option fst (eff e) = Some k) es)" unfolding f by simp
  then have "?e \<in> set es" "map_option fst (eff ?e) = Some k" by auto
  moreover have "snd (the (eff ?e)) = Some v" using assms f by (simp add: latest_def)
  ultimately show ?thesis using that by (cases "eff ?e") auto
qed

lemma registry_merge_event:
  assumes "fold_person_registry_events evs = Inr r" and "fmlookup (merges r) x = Some (i, k)"
  obtains e where "e \<in> set evs" and "x = py_norm (dget e ''from_id'')"
    and "i = py_norm (dget e ''into_id'')" and "k = event_key e"
proof -
  have "latest merge_effect x None evs = Some (i, k)"
    using merge_table.fold_latest [OF assms(1) [unfolded fold_person_registry_events_def], of x] assms(2)
    by (simp add: empty_registry_def)
  then obtain e where "e \<in> set evs" "merge_effect e = Some (x, Some (i, k))" by (rule latest_Some_mem)
  then show ?thesis using that by (auto simp: merge_effect_def split: if_splits)
qed

lemma registry_merges_ok:
  assumes "log_ok s evs" and "fold_person_registry_events evs = Inr r"
  shows "merges_ok (merges r)"
  unfolding merges_ok_def
proof (intro conjI allI impI)
  fix x i k assume look: "fmlookup (merges r) x = Some (i, k)"
  have "\<forall>x \<in> fset (fmdom (merges r)). hashable x"
    using registry_fold_keys assms(2) by (fastforce simp: fold_person_registry_events_def empty_registry_def)
  with look show "hashable x" by (auto intro: fmdomI)
  obtain e where "e \<in> set evs" "k = event_key e" using registry_merge_event [OF assms(2) look] by metis
  then show "list_all (\<lambda>v. as_str v \<noteq> None) k" using assms(1) by (auto simp: log_ok_def list_all_iff)
next
  fix x y i j k
  assume "fmlookup (merges r) x = Some (i, k) \<and> fmlookup (merges r) y = Some (j, k)"
  then obtain d e where "d \<in> set evs" "x = py_norm (dget d ''from_id'')" "k = event_key d"
    "e \<in> set evs" "y = py_norm (dget e ''from_id'')" "k = event_key e"
    using registry_merge_event [OF assms(2)] by metis
  moreover from this have "d = e"
    using assms(1) by (auto simp: log_ok_def ids_name_events_def event_key_def event_id_def)
  ultimately show "x = y" by simp
qed

section \<open>Properties of merge resolution\<close>

text \<open>C15. A merge makes two identities one: if the registry of a readable log records that \<open>p\<close> was
  merged into \<open>q\<close>, then \<open>p\<close> and \<open>q\<close> resolve alike, also when the edge lies on a cycle that two
  machines assembled independently.\<close>

theorem merge_resolution_coherent:
  assumes "log_ok s evs" and "fold_person_registry s = Inr r"
    and "fmlookup (merges r) (py_norm p) = Some (q, k)"
  shows "resolve_person p r = resolve_person q r"
proof -
  have r: "fold_person_registry_events evs = Inr r"
    using assms(1,2) by (simp add: fold_person_registry_def log_ok_def)
  obtain e where "q = py_norm (dget e ''into_id'')" using registry_merge_event [OF r assms(3)] by metis
  then show ?thesis
    using walk_start_coherent [OF registry_merges_ok [OF assms(1) r], of "py_norm p" q] assms(3)
    by (auto simp: resolve_person_def merged_into_def)
qed

lemma resolve_person_idem:
  assumes "merges_ok (merges r)" and "resolve_person p r = Inr q" and "py_norm q = q"
  shows "resolve_person q r = Inr q"
  using assms walk_result_reach [of "merges r" "[py_norm p]" "[]" "py_norm p" q]
    walk_reach_coherent [of "merges r" "py_norm p" q]
  by (simp add: resolve_person_def)

text \<open>Resolution ends and is idempotent: in the registry of a readable log without
  self-referential merges every string id resolves to a person, and that person resolves to
  itself.\<close>

theorem resolve_person_total:
  assumes "log_ok s evs" and "fold_person_registry s = Inr r"
    and "\<forall>e \<in> set evs. dget e ''kind'' = JStr ''person_merged'' \<longrightarrow>
      as_str (dget e ''from_id'') \<noteq> None \<and> as_str (dget e ''into_id'') \<noteq> None \<and>
      dget e ''from_id'' \<noteq> dget e ''into_id''"
  shows "\<exists>q. resolve_person (JStr p) r = Inr q \<and> resolve_person q r = Inr q"
proof -
  have r: "fold_person_registry_events evs = Inr r"
    using assms(1,2) by (simp add: fold_person_registry_def log_ok_def)
  have ok: "merges_ok (merges r)" using assms(1) r by (rule registry_merges_ok)
  have strs: "(\<exists>a b. x = JStr a \<and> i = JStr b) \<and> i \<noteq> x" if look: "fmlookup (merges r) x = Some (i, k)" for x i k
  proof -
    have "latest merge_effect x None evs = Some (i, k)"
      using merge_table.fold_latest [OF r [unfolded fold_person_registry_events_def], of x] look
      by (simp add: empty_registry_def)
    then obtain e where e: "e \<in> set evs" "merge_effect e = Some (x, Some (i, k))" by (rule latest_Some_mem)
    then have "dget e ''kind'' = JStr ''person_merged''" by (auto simp: merge_effect_def split: if_splits)
    then have "as_str (dget e ''from_id'') \<noteq> None \<and> as_str (dget e ''into_id'') \<noteq> None \<and>
        dget e ''from_id'' \<noteq> dget e ''into_id''"
      using assms(3) e(1) by blast
    then obtain a b where "dget e ''from_id'' = JStr a" "dget e ''into_id'' = JStr b" "a \<noteq> b"
      by (cases "dget e ''from_id''"; cases "dget e ''into_id''") auto
    moreover from this have "x = JStr a" "i = JStr b"
      using e(2) by (simp_all add: merge_effect_def split: if_split_asm)
    ultimately show ?thesis by simp
  qed
  then obtain q where q: "resolve_person (JStr p) r = Inr q"
    using walk_total [OF ok, of "JStr p" "[]" "[JStr p]"] by (fastforce simp: resolve_person_def)
  have "(merged_into (merges r))\<^sup>*\<^sup>* (JStr p) q"
    using walk_result_reach [of "merges r" "[JStr p]" "[]" "JStr p" q] q by (simp add: resolve_person_def)
  then have "\<exists>a. q = JStr a"
  proof (induction rule: rtranclp_induct)
    case (step y z)
    then obtain k where "fmlookup (merges r) y = Some (z, k)" by (auto simp: merged_into_def)
    from strs [OF this] show ?case by blast
  qed blast
  with q show ?thesis using resolve_person_idem [OF ok q] by auto
qed

section \<open>Person membership\<close>

definition person_effect :: "registry \<Rightarrow> dict \<Rightarrow> ((json \<times> json \<times> json) \<times> bool) option" where
  "person_effect r e =
     (if (dget e ''kind'' = JStr ''item_person_added'' \<or> dget e ''kind'' = JStr ''item_person_retracted'') \<and>
         truthy (dget e ''item_id'') \<and> truthy (dget e ''role'')
      then (case (if dget e ''person_id'' = JNull then Inr JNull else resolve_person (dget e ''person_id'') r) of
              Inr p \<Rightarrow> Some ((py_norm (dget e ''item_id''), p, py_norm (dget e ''role'')),
                             dget e ''kind'' = JStr ''item_person_added'')
            | Inl _ \<Rightarrow> None)
      else None)"

interpretation person_edges:
  latest_wins "person_step r" "\<lambda>m k. snd k |\<in>| edges_of m (fst k)" "person_effect r" for r
  by unfold_locales
    (auto simp: person_step_def person_effect_def Let_def res_bind_Inr_iff split: if_splits sum.splits)

lemma resolve_person_norm:
  assumes "fold_person_registry_events evs = Inr r" and "resolve_person p r = Inr q"
  shows "py_norm q = q"
proof -
  have "(merged_into (merges r))\<^sup>*\<^sup>* (py_norm p) q"
    using walk_result_reach [of "merges r" "[py_norm p]" "[]" "py_norm p" q] assms(2)
    by (simp add: resolve_person_def)
  then show ?thesis
  proof (induction rule: rtranclp_induct)
    case (step y z)
    then obtain k where "fmlookup (merges r) y = Some (z, k)" by (auto simp: merged_into_def)
    from registry_merge_event [OF assms(1) this] show ?case by (metis py_norm_idem)
  qed simp
qed

lemma latest_True_mem:
  assumes "latest eff k False es"
  obtains e where "e \<in> set es" and "eff e = Some (k, True)"
proof -
  obtain x xs where f: "filter (\<lambda>e. map_option fst (eff e) = Some k) es = x # xs"
    using assms by (auto simp: latest_def split: list.splits)
  let ?e = "last (x # xs)"
  have "?e \<in> set (filter (\<lambda>e. map_option fst (eff e) = Some k) es)" unfolding f by simp
  then have "?e \<in> set es" "map_option fst (eff ?e) = Some k" by auto
  moreover have "snd (the (eff ?e))" using assms f by (simp add: latest_def)
  ultimately show ?thesis using that by (cases "eff ?e") auto
qed

text \<open>C16. Person membership shows survivors only: every person an item lists under a role is the null
  person or an id that resolves to itself, so a merged-away id never surfaces; and the edge is listed
  exactly when the last event on the resolved triple is an addition.\<close>

theorem person_membership_resolved:
  assumes "log_ok s evs" and "fold_person_membership s = Inr m" and "fold_person_registry s = Inr r"
  shows "((p, role) |\<in>| edges_of m i \<longleftrightarrow> latest (person_effect r) (i, p, role) False evs) \<and>
    ((p, role) |\<in>| edges_of m i \<longrightarrow> p = JNull \<or> resolve_person p r = Inr p)"
proof -
  have r: "fold_person_registry_events evs = Inr r"
    using assms(1,3) by (simp add: fold_person_registry_def log_ok_def)
  have m: "res_fold (person_step r) evs fmempty = Inr m"
    using assms(1,2) r by (auto simp: fold_person_membership_def log_ok_def)
  have val: "(p, role) |\<in>| edges_of m i \<longleftrightarrow> latest (person_effect r) (i, p, role) False evs"
    using person_edges.fold_latest [OF m, of "(i, p, role)"] by simp
  moreover have "p = JNull \<or> resolve_person p r = Inr p"
    if edge: "latest (person_effect r) (i, p, role) False evs"
  proof -
    obtain e where "person_effect r e = Some ((i, p, role), True)"
      using edge by (rule latest_True_mem)
    then have "p = JNull \<or> (\<exists>x. resolve_person x r = Inr p)"
      by (auto simp: person_effect_def split: if_splits sum.splits)
    then show ?thesis
      using resolve_person_idem [OF registry_merges_ok [OF assms(1) r]] resolve_person_norm [OF r] by blast
  qed
  ultimately show ?thesis by blast
qed

section \<open>Worked examples\<close>

definition ex_fact :: "string \<Rightarrow> (string \<times> string) list \<Rightarrow> dict" where
  "ex_fact i kvs = fmap_of_list ((''id'', JStr i) # (''observed_at'', JStr (''2026-08-01T09:00:00.'' @ i)) #
     (''applied_at'', JStr (''2026-08-01T09:00:00.'' @ i)) # map (\<lambda>(k, v). (k, JStr v)) kvs)"

text \<open>An item without a project, a person edge, an alias, and a merge cycle.\<close>

definition ex_social_events :: "dict list" where
  "ex_social_events =
     [ex_fact ''e1'' [(''kind'', ''item_created''), (''item_id'', ''itm'')],
      ex_fact ''e2'' [(''kind'', ''item_project_added''), (''item_id'', ''itm''), (''project_id'', ''core'')],
      ex_fact ''e3'' [(''kind'', ''item_project_retracted''), (''item_id'', ''itm''), (''project_id'', ''core'')],
      ex_fact ''e4'' [(''kind'', ''item_person_added''), (''item_id'', ''itm''), (''person_id'', ''ann''),
        (''role'', ''assignee'')],
      ex_fact ''e5'' [(''kind'', ''person_alias_added''), (''namespace'', ''email''),
        (''normalized_value'', ''a@x''), (''person_id'', ''ann'')],
      ex_fact ''e6'' [(''kind'', ''person_merged''), (''from_id'', ''ann''), (''into_id'', ''bob'')],
      ex_fact ''e7'' [(''kind'', ''person_merged''), (''from_id'', ''bob''), (''into_id'', ''ann'')]]"

definition ex_social :: store where
  "ex_social = \<lparr>dir_exists = True, live = [(''rig'', map (\<lambda>e. Line (JObj e)) ex_social_events)],
     rotated = []\<rparr>"

definition ex_registry :: registry where
  "ex_registry =
     (case fold_person_registry_events ex_social_events of Inr r \<Rightarrow> r | Inl _ \<Rightarrow> empty_registry)"

lemma ex_social_read: "read_events ex_social = Inr ex_social_events"
  by code_simp

lemma ex_social_ids: "ids_name_events ex_social_events"
proof -
  have "distinct (map event_id ex_social_events)" by code_simp
  moreover have "list_all (\<lambda>e. as_str (event_id e) \<noteq> None) ex_social_events" by code_simp
  ultimately show ?thesis
    unfolding ids_name_events_def list_all_iff distinct_map by (auto dest: inj_onD)
qed

lemma ex_social_log: "log_ok ex_social ex_social_events"
proof -
  have "store_wf ex_social"
    "list_all (\<lambda>e. list_all (\<lambda>v. as_str v \<noteq> None) (event_key e)) ex_social_events" by code_simp+
  then show ?thesis using ex_social_read ex_social_ids by (simp add: log_ok_def)
qed

lemma ex_registry_fold: "fold_person_registry_events ex_social_events = Inr ex_registry"
proof -
  have "case fold_person_registry_events ex_social_events of Inr _ \<Rightarrow> True | Inl _ \<Rightarrow> False"
    by code_simp
  then show ?thesis unfolding ex_registry_def by (auto split: sum.splits)
qed

lemma ex_social_facts:
  "log_ok ex_social ex_social_events" "read_events ex_social = Inr ex_social_events"
  "fold_person_registry ex_social = Inr ex_registry"
  "fold_person_registry_events ex_social_events = Inr ex_registry"
  using ex_social_log ex_social_read ex_registry_fold by (simp_all add: fold_person_registry_def)

theorem membership_total_witness:
  "\<exists>folded. fold_membership ex_social = Inr folded \<and>
     (\<forall>ps. fmlookup folded (JStr ''itm'') = Some ps \<longrightarrow> ps \<noteq> {||})"
proof -
  have "case fold_membership ex_social of Inr _ \<Rightarrow> True | Inl _ \<Rightarrow> False" by code_simp
  then obtain folded where f: "fold_membership ex_social = Inr folded" by (auto split: sum.splits)
  have "list_all (\<lambda>e. dget e ''project_id'' \<noteq> JStr RESERVED_PROJECT_ID) ex_social_events" by code_simp
  then show ?thesis
    using membership_total [OF f ex_social_facts(2)] f by (auto simp: list_all_iff)
qed

theorem membership_latest_wins_witness:
  "\<exists>folded ps. fold_membership ex_social = Inr folded \<and> fmlookup folded (JStr ''itm'') = Some ps \<and>
     JStr ''core'' |\<notin>| ps"
proof -
  have "case fold_membership ex_social of Inr m \<Rightarrow> fmlookup m (JStr ''itm'') \<noteq> None | Inl _ \<Rightarrow> False"
    by code_simp
  then obtain folded ps where f: "fold_membership ex_social = Inr folded"
    "fmlookup folded (JStr ''itm'') = Some ps" by (auto split: sum.splits)
  have "JStr ''core'' \<noteq> JStr RESERVED_PROJECT_ID" by code_simp
  moreover have "\<not> latest project_effect (JStr ''itm'', JStr ''core'') False ex_social_events" by code_simp
  ultimately show ?thesis using membership_latest_wins [OF f(1) ex_social_facts(2) f(2)] f by blast
qed

theorem alias_latest_wins_witness:
  "resolve_alias ''email'' '' A@x'' ex_registry =
     res_bind (resolve_person (JStr ''ann'') ex_registry) (\<lambda>q. Inr (Some q))"
proof -
  have "latest alias_effect (JStr ''email'', JStr (normalize_alias ''email'' '' A@x'')) None
      ex_social_events = Some (JStr ''ann'')" by code_simp
  then show ?thesis using alias_latest_wins [OF ex_social_facts(4), of "''email''" "'' A@x''"] by simp
qed

theorem merge_resolution_coherent_witness:
  "resolve_person (JStr ''ann'') ex_registry = resolve_person (JStr ''bob'') ex_registry"
proof -
  have "case fmlookup (merges ex_registry) (py_norm (JStr ''ann'')) of
      Some (q, _) \<Rightarrow> q = JStr ''bob'' | None \<Rightarrow> False" by code_simp
  then obtain k where "fmlookup (merges ex_registry) (py_norm (JStr ''ann'')) = Some (JStr ''bob'', k)"
    by (auto split: option.splits)
  then show ?thesis by (rule merge_resolution_coherent [OF ex_social_facts(1,3)])
qed

theorem resolve_person_total_witness:
  "\<exists>q. resolve_person (JStr ''ann'') ex_registry = Inr q \<and> resolve_person q ex_registry = Inr q"
proof -
  have "list_all (\<lambda>e. dget e ''kind'' = JStr ''person_merged'' \<longrightarrow>
      as_str (dget e ''from_id'') \<noteq> None \<and> as_str (dget e ''into_id'') \<noteq> None \<and>
      dget e ''from_id'' \<noteq> dget e ''into_id'') ex_social_events" by code_simp
  then show ?thesis
    using resolve_person_total [OF ex_social_facts(1,3)] unfolding list_all_iff by blast
qed

theorem person_membership_resolved_witness:
  "\<exists>m. fold_person_membership ex_social = Inr m \<and>
     (JStr ''bob'', JStr ''assignee'') |\<in>| edges_of m (JStr ''itm'')"
proof -
  have "case fold_person_membership ex_social of Inr _ \<Rightarrow> True | Inl _ \<Rightarrow> False" by code_simp
  then obtain m where m: "fold_person_membership ex_social = Inr m" by (auto split: sum.splits)
  have "latest (person_effect ex_registry) (JStr ''itm'', JStr ''bob'', JStr ''assignee'') False
      ex_social_events" by code_simp
  then show ?thesis using person_membership_resolved [OF ex_social_facts(1) m ex_social_facts(3)] m by blast
qed

end
