(* ===== verification/Tracker_Axes.thy ===== *)
theory Tracker_Axes
  imports Tracker_Registry
begin

text \<open>
  The per-axis fold of an item: what appending a transition does to it, the decision table of the
  rendered status, and the transparency of snapshots, with the tie at the snapshot boundary where
  the fold departs from a full replay.
\<close>

section \<open>Folding plain transitions\<close>

text \<open>A transition event as the emitters write it, applied.\<close>

definition plain :: "dict \<Rightarrow> bool" where
  "plain e = (\<not> is_snapshot e \<and> list_all (\<lambda>v. as_str v \<noteq> None \<and> truthy v) (event_key e) \<and>
     dget e ''to_state'' \<noteq> JNull)"

lemma nonempty_str: "as_str v \<noteq> None \<and> truthy v \<longleftrightarrow> (\<exists>s. v = JStr s \<and> s \<noteq> [])"
  by (cases v) auto

lemma plain_alt:
  "plain e = (\<not> is_snapshot e \<and> list_all (\<lambda>v. \<exists>s. v = JStr s \<and> s \<noteq> []) (event_key e) \<and>
     dget e ''to_state'' \<noteq> JNull)"
  unfolding plain_def nonempty_str ..

abbreviation axis_key :: "dict \<Rightarrow> (nat \<times> int \<times> string) list" where
  "axis_key e \<equiv> map order_key (axis_sort_key e)"

definition applied_str :: "dict \<Rightarrow> string" where
  "applied_str e = (case dget e ''applied_at'' of JStr t \<Rightarrow> t | _ \<Rightarrow> [])"

lemma plain_applied: "plain e \<Longrightarrow> dget e ''applied_at'' = JStr (applied_str e)"
  by (auto simp: plain_alt event_key_def applied_str_def)

lemma plain_id: "plain e \<Longrightarrow> \<exists>i. event_id e = JStr i"
  by (auto simp: plain_alt event_key_def event_id_def)

lemma plain_axis_key:
  assumes "plain e"
  shows "axis_sort_key e = event_key e @ [JInt 1]"
  using assms by (auto simp: plain_alt axis_sort_key_def event_key_def or_empty_def)

lemma axis_fold_plain:
  "list_all plain es \<Longrightarrow>
     axis_fold es skip st =
       Inr (last (st # map (\<lambda>e. dget e ''to_state'') (filter (\<lambda>e. event_id e \<notin> set skip) es)))"
proof (induction es arbitrary: st)
  case (Cons e es)
  then obtain i where "dget e ''id'' = JStr i" using plain_id [of e] by (auto simp: event_id_def)
  with Cons show ?case by (simp add: plain_alt event_id_def)
qed simp

text \<open>The skip set and state after a prefix.\<close>

lemma axis_fold_snoc:
  assumes "axis_fold es skip st = Inr st'" and "\<not> is_snapshot e" and "event_id e = JStr i"
    and "dget e ''to_state'' \<noteq> JNull" and "JStr i \<notin> set skip"
    and "\<forall>x \<in> set es. is_snapshot x \<longrightarrow> (\<forall>ids. as_id_set (dget x ''folded_event_ids'') = Inr ids \<longrightarrow> JStr i \<notin> set ids)"
  shows "axis_fold (es @ [e]) skip st = Inr (dget e ''to_state'')"
  using assms(1,5,6)
proof (induction es skip st rule: axis_fold.induct)
  case (2 x es skip st)
  show ?case
  proof (cases "is_snapshot x")
    case True
    then obtain ids where ids: "as_id_set (dget x ''folded_event_ids'') = Inr ids"
      using "2.prems"(1) by (auto simp: res_bind_Inr_iff)
    with 2 True show ?thesis by simp
  next
    case False
    with 2 show ?thesis by (auto split: if_splits)
  qed
qed (use assms(2-4) in \<open>simp add: event_id_def\<close>)

lemma insort_key_before: "f x < f y \<Longrightarrow> insort_key f x (xs @ [y]) = insort_key f x xs @ [y]"
  by (induction xs) auto

lemma sort_key_snoc_last:
  "\<forall>x \<in> set xs. f x < f y \<Longrightarrow> sort_key f (xs @ [y]) = sort_key f xs @ [y]"
  by (induction xs) (auto simp: insort_key_before)

text \<open>A transition that sorts last decides its axis.\<close>

lemma fold_one_axis_last:
  assumes "fold_one_axis es = Inr st" and "all_orderable axis_sort_key (es @ [e])"
    and "\<forall>x \<in> set es. axis_key x < axis_key e"
    and "\<not> is_snapshot e" and "event_id e = JStr i" and "dget e ''to_state'' \<noteq> JNull"
    and "\<forall>x \<in> set es. is_snapshot x \<longrightarrow> (\<forall>ids. as_id_set (dget x ''folded_event_ids'') = Inr ids \<longrightarrow> JStr i \<notin> set ids)"
  shows "fold_one_axis (es @ [e]) = Inr (dget e ''to_state'')"
proof -
  have "all_orderable axis_sort_key es" using assms(2) by (auto simp: all_orderable_def)
  with assms(1) have "axis_fold (sort_key axis_key es) [] JNull = Inr st"
    by (simp add: fold_one_axis_def py_sort_by_def)
  then have "axis_fold (sort_key axis_key es @ [e]) [] JNull = Inr (dget e ''to_state'')"
    by (rule axis_fold_snoc) (use assms(4-7) in auto)
  then show ?thesis
    using assms(2,3) by (simp add: fold_one_axis_def py_sort_by_def sort_key_snoc_last)
qed

section \<open>Snapshots\<close>

lemma snapshot_key: "is_snapshot sn \<Longrightarrow> dget sn ''as_of_applied_at'' = JStr t \<Longrightarrow>
    axis_key sn = [(2, 0, t), (2, 0, []), (2, 0, []), (1, 0, [])]"
  by (simp add: axis_sort_key_def)

lemma plain_key:
  assumes "plain e"
  shows "axis_key e = (2, 0, applied_str e) # tl (axis_key e) \<and>
    (\<exists>o1 i. o1 \<noteq> [] \<and> tl (axis_key e) = [(2, 0, o1), (2, 0, i), (1, 1, [])])"
  using assms plain_applied [OF assms]
  by (auto simp: plain_axis_key event_key_def plain_alt)

lemma plain_before_snapshot:
  assumes "plain e" and "is_snapshot sn" and "dget sn ''as_of_applied_at'' = JStr t"
  shows "axis_key e < axis_key sn \<longleftrightarrow> applied_str e < t" and "axis_key e \<noteq> axis_key sn"
proof -
  obtain o1 i where k: "axis_key e = [(2, 0, applied_str e), (2, 0, o1), (2, 0, i), (1, 1, [])]"
    and o1: "o1 \<noteq> []"
    using plain_key [OF assms(1)] by metis
  have "\<not> o1 < []" by (cases o1) auto
  then show "axis_key e < axis_key sn \<longleftrightarrow> applied_str e < t" "axis_key e \<noteq> axis_key sn"
    using o1 unfolding k snapshot_key [OF assms(2,3)] by auto
qed

lemma plain_applied_mono:
  assumes "plain a" and "plain b" and "axis_key a \<le> axis_key b"
  shows "applied_str a \<le> applied_str b"
proof -
  obtain as where "axis_key a = (2, 0, applied_str a) # as" using plain_key [OF assms(1)] by metis
  moreover obtain bs where "axis_key b = (2, 0, applied_str b) # bs" using plain_key [OF assms(2)] by metis
  ultimately show ?thesis using assms(3) by auto
qed

lemma all_orderable_plain:
  assumes "list_all plain xs" and "is_snapshot sn" and "dget sn ''as_of_applied_at'' = JStr t"
  shows "all_orderable axis_sort_key (sn # xs)" and "all_orderable axis_sort_key xs"
proof -
  have shape: "\<exists>a b c n. axis_sort_key e = [JStr a, JStr b, JStr c, JInt n]" if "e \<in> set (sn # xs)" for e
  proof (cases "e = sn")
    case True
    then show ?thesis using assms(2,3) by (simp add: axis_sort_key_def)
  next
    case False
    then have "plain e" using that assms(1) by (simp add: list_all_iff)
    then show ?thesis by (auto simp: plain_axis_key plain_alt event_key_def)
  qed
  show "all_orderable axis_sort_key (sn # xs)"
    unfolding all_orderable_def
  proof (intro ballI)
    fix x y assume "x \<in> set (sn # xs)" "y \<in> set (sn # xs)"
    from shape [OF this(1)] shape [OF this(2)] show "tuple_orderable (axis_sort_key x) (axis_sort_key y)"
      by auto
  qed
  then show "all_orderable axis_sort_key xs" by (auto simp: all_orderable_def)
qed

lemma sorted_split:
  assumes "sorted (map f R)" and "\<forall>x \<in> set R. P x \<longleftrightarrow> f x < k"
  shows "R = filter P R @ filter (\<lambda>x. \<not> P x) R"
  using assms
proof (induction R)
  case (Cons a R)
  show ?case
  proof (cases "P a")
    case False
    then have "\<forall>x \<in> set (a # R). \<not> P x" using Cons.prems by (auto dest: order_le_less_trans)
    then show ?thesis by (metis (no_types, lifting) append_Nil filter_False filter_True)
  qed (use Cons in auto)
qed simp

text \<open>Where a snapshot that stands for the folded events puts the fold.\<close>

lemma sort_with_snapshot:
  assumes "list_all plain xs" and "inj_on event_id (set xs)" and "is_snapshot sn"
    and "dget sn ''as_of_applied_at'' = JStr t" and "mset ys = add_mset sn (mset xs)"
  shows "\<exists>A B. sort_key axis_key xs = A @ B \<and> sort_key axis_key ys = A @ sn # B \<and>
    (\<forall>e \<in> set A. applied_str e < t) \<and> (\<forall>e \<in> set B. t \<le> applied_str e)"
proof -
  let ?R = "sort_key axis_key xs"
  have plain: "plain e" if "e \<in> set ?R" for e using that assms(1) by (simp add: list_all_iff)
  note before = plain_before_snapshot [OF plain assms(3,4)]
  let ?A = "filter (\<lambda>e. applied_str e < t) ?R" and ?B = "filter (\<lambda>e. \<not> applied_str e < t) ?R"
  have R: "?R = ?A @ ?B" by (rule sorted_split [where k = "axis_key sn"]) (use before in auto)
  have "sorted (map axis_key ?A)" "sorted (map axis_key ?B)"
    by (rule sorted_filter, simp)+
  then have sorted: "sorted (map axis_key (?A @ sn # ?B))"
    using before by (auto simp: sorted_append) (meson less_imp_le not_less order_trans)+
  have inj: "inj_on axis_key (set (?A @ sn # ?B))"
  proof (rule inj_onI)
    fix a b assume ab: "a \<in> set (?A @ sn # ?B)" "b \<in> set (?A @ sn # ?B)" "axis_key a = axis_key b"
    then have cases: "a = sn \<or> a \<in> set ?R" "b = sn \<or> b \<in> set ?R" by auto
    show "a = b"
    proof (cases "a = sn \<or> b = sn")
      case True
      then show ?thesis using cases ab(3) before(2) by metis
    next
      case False
      then have ab': "plain a" "plain b" "a \<in> set xs" "b \<in> set xs" using cases plain by auto
      then have "order_key (event_id a) = order_key (event_id b)"
        using ab(3) by (simp add: plain_axis_key event_key_def event_id_def)
      then have "event_id a = event_id b"
        using plain_id [OF ab'(1)] by (intro order_key_inj_str) auto
      then show ?thesis using ab'(3,4) assms(2) by (auto dest: inj_onD)
    qed
  qed
  have "mset ys = add_mset sn (mset ?R)" using assms(5) by simp
  also have "\<dots> = mset (?A @ sn # ?B)" by (subst R) simp
  finally have "mset (?A @ sn # ?B) = mset ys" by simp
  then have "sort_key axis_key (?A @ sn # ?B) = sort_key axis_key ys" using inj by (rule sort_key_mset_eq)
  then have "sort_key axis_key ys = ?A @ sn # ?B" using sorted by (simp add: sort_key_id_if_sorted)
  moreover have "\<forall>e \<in> set ?B. t \<le> applied_str e" by auto
  ultimately show ?thesis using R by (intro exI [of _ ?A] exI [of _ ?B]) simp
qed

lemma axis_fold_through:
  "list_all plain A \<Longrightarrow> axis_fold (A @ B) skip st =
     axis_fold B skip (last (st # map (\<lambda>e. dget e ''to_state'') (filter (\<lambda>e. event_id e \<notin> set skip) A)))"
proof (induction A arbitrary: st)
  case (Cons e A)
  then obtain i where "dget e ''id'' = JStr i" using plain_id [of e] by (auto simp: event_id_def)
  with Cons show ?case by (simp add: plain_alt event_id_def)
qed simp

lemma sorted_last_max: "x \<in> set xs \<Longrightarrow> f x \<le> f (last (sort_key f xs))"
proof -
  assume x: "x \<in> set xs"
  let ?R = "sort_key f xs"
  have "?R \<noteq> []" using x by (metis empty_iff set_empty set_sort)
  then obtain ys y where ys: "?R = ys @ [y]" by (meson rev_exhaust)
  have "sorted (map f ?R)" by simp
  moreover have "x \<in> set ?R" using x by simp
  ultimately show ?thesis unfolding ys by (auto simp: sorted_append)
qed

lemma last_filter_last: "xs \<noteq> [] \<Longrightarrow> P (last xs) \<Longrightarrow> last (filter P xs) = last xs"
  by (induction xs rule: rev_induct) auto

text \<open>C9. A snapshot does not change an axis: if it records the ids of a set of folded events, the
  \<open>applied_at\<close> of the last of them in reading order and the state that one set, then folding the
  axis with the snapshot gives what a full replay without it gives, wherever the snapshot is stored
  and whatever unfolded events (earlier, arriving late, or later) stand beside it, unless one of
  those is stamped exactly at the snapshot's boundary.\<close>

theorem snapshot_transparent:
  assumes "list_all plain xs" and "inj_on event_id (set xs)" and "is_snapshot sn"
    and "mset ys = add_mset sn (mset xs)"
    and "dget sn ''folded_event_ids'' = JList ids" and "list_all hashable ids"
    and "folded = filter (\<lambda>e. event_id e \<in> set (map py_norm ids)) (sort_key axis_key xs)" and "folded \<noteq> []"
    and "dget sn ''as_of_applied_at'' = dget (last folded) ''applied_at''"
    and "dget sn ''folded_to_state'' = dget (last folded) ''to_state''"
    and "\<forall>e \<in> set xs. event_id e \<notin> set (map py_norm ids) \<longrightarrow>
      dget e ''applied_at'' \<noteq> dget sn ''as_of_applied_at''"
  shows "fold_one_axis ys = fold_one_axis xs"
proof -
  let ?R = "sort_key axis_key xs" and ?F = "\<lambda>e. event_id e \<in> set (map py_norm ids)"
  let ?st = "\<lambda>e. dget e ''to_state''" and ?l = "last folded"
  have l: "?l \<in> set ?R" "?F ?l" using last_in_set [OF assms(8)] unfolding assms(7) by simp_all
  have plain: "plain e" if "e \<in> set ?R" for e using that assms(1) by (simp add: list_all_iff)
  define t where "t = applied_str ?l"
  have t: "dget sn ''as_of_applied_at'' = JStr t"
    using assms(9) plain_applied [OF plain [OF l(1)]] by (simp add: t_def)
  obtain A B where R: "?R = A @ B" and Y: "sort_key axis_key ys = A @ sn # B"
    and A: "\<forall>e \<in> set A. applied_str e < t" and B: "\<forall>e \<in> set B. t \<le> applied_str e"
    using sort_with_snapshot [OF assms(1-3) t assms(4)] by blast
  have pA: "list_all plain A" and pB: "list_all plain B" using plain R by (simp_all add: list_all_iff)
  have ne: "B \<noteq> []" using l(1) A unfolding R t_def by auto
  then have lB: "last B = last ?R" unfolding R by simp
  have full: "fold_one_axis xs = Inr (?st (last B))"
    using all_orderable_plain(2) [OF assms(1,3) t] axis_fold_plain [of "A @ B" "[]" JNull] pA pB ne
    by (simp add: fold_one_axis_def py_sort_by_def R last_map)
  have "all_orderable axis_sort_key ys"
    using all_orderable_plain(1) [OF assms(1,3) t] all_orderable_mset [of ys "sn # xs"] mset_eq_setD [of ys "sn # xs"]
      assms(4) by simp
  then have seeded: "fold_one_axis ys = Inr (last (?st ?l # map ?st (filter (\<lambda>e. \<not> ?F e) B)))"
    using assms(3,5,6,10) pA pB axis_fold_plain [of B "map py_norm ids" "?st ?l"]
    by (simp add: fold_one_axis_def py_sort_by_def Y axis_fold_through)
  show ?thesis
  proof (cases "?F (last B)")
    case True
    have "?R \<noteq> []" using ne R by simp
    then have lastR: "?l = last ?R"
      unfolding assms(7) by (rule last_filter_last) (use True lB in simp)
    moreover have "filter (\<lambda>e. \<not> ?F e) B = []"
    proof (rule ccontr)
      assume "filter (\<lambda>e. \<not> ?F e) B \<noteq> []"
      then obtain u where u: "u \<in> set B" "\<not> ?F u" by (auto simp: filter_empty_conv)
      have uR: "u \<in> set ?R" using u(1) unfolding R by simp
      then have ux: "u \<in> set xs" by simp
      have "axis_key u \<le> axis_key ?l" unfolding lastR using ux by (rule sorted_last_max)
      then have "applied_str u \<le> t"
        unfolding t_def by (rule plain_applied_mono [OF plain [OF uR] plain [OF l(1)]])
      then have "applied_str u = t" using B u(1) by force
      then have "dget u ''applied_at'' = dget sn ''as_of_applied_at''"
        using plain_applied [OF plain [OF uR]] t by simp
      then show False using assms(11) ux u(2) by blast
    qed
    ultimately show ?thesis using full seeded lB by simp
  next
    case False
    then have "last (filter (\<lambda>e. \<not> ?F e) B) = last B" "filter (\<lambda>e. \<not> ?F e) B \<noteq> []"
      using last_filter_last [of B "\<lambda>e. \<not> ?F e"] ne last_in_set [OF ne] by (auto simp: filter_empty_conv)
    then show ?thesis using full seeded by (simp add: last_map)
  qed
qed

section \<open>Worked examples\<close>

definition ex_move :: "string \<Rightarrow> string \<Rightarrow> string \<Rightarrow> dict" where
  "ex_move i t to_state = fmap_of_list [(''id'', JStr i), (''item_id'', JStr ''itm''),
     (''axis'', JStr ''code_complete''), (''to_state'', JStr to_state),
     (''observed_at'', JStr t), (''applied_at'', JStr t)]"

definition ex_snapshot :: "string list \<Rightarrow> string \<Rightarrow> string \<Rightarrow> dict" where
  "ex_snapshot ids t to_state = fmap_of_list [(''id'', JStr ''snap''), (''kind'', JStr ''snapshot''),
     (''item_id'', JStr ''itm''), (''axis'', JStr ''code_complete''),
     (''folded_event_ids'', JList (map JStr ids)), (''as_of_applied_at'', JStr t),
     (''folded_to_state'', JStr to_state), (''observed_at'', JStr ''t9''), (''applied_at'', JStr ''t9'')]"

theorem snapshot_transparent_witness:
  "fold_one_axis [ex_move ''a'' ''t1'' ''asserted'', ex_snapshot [''a'', ''b''] ''t2'' ''retracted'',
      ex_move ''b'' ''t2'' ''retracted'', ex_move ''c'' ''t3'' ''asserted''] =
   fold_one_axis [ex_move ''a'' ''t1'' ''asserted'', ex_move ''b'' ''t2'' ''retracted'',
      ex_move ''c'' ''t3'' ''asserted'']"
proof (rule snapshot_transparent [where sn = "ex_snapshot [''a'', ''b''] ''t2'' ''retracted''"
      and ids = "[JStr ''a'', JStr ''b'']"
      and folded = "[ex_move ''a'' ''t1'' ''asserted'', ex_move ''b'' ''t2'' ''retracted'']"])
  show "inj_on event_id (set [ex_move ''a'' ''t1'' ''asserted'', ex_move ''b'' ''t2'' ''retracted'',
      ex_move ''c'' ''t3'' ''asserted''])"
  proof -
    have "distinct (map event_id [ex_move ''a'' ''t1'' ''asserted'', ex_move ''b'' ''t2'' ''retracted'',
      ex_move ''c'' ''t3'' ''asserted''])" by code_simp
    then show ?thesis unfolding distinct_map by blast
  qed
  show "mset [ex_move ''a'' ''t1'' ''asserted'', ex_snapshot [''a'', ''b''] ''t2'' ''retracted'',
      ex_move ''b'' ''t2'' ''retracted'', ex_move ''c'' ''t3'' ''asserted''] =
    add_mset (ex_snapshot [''a'', ''b''] ''t2'' ''retracted'') (mset [ex_move ''a'' ''t1'' ''asserted'',
      ex_move ''b'' ''t2'' ''retracted'', ex_move ''c'' ''t3'' ''asserted''])"
    by simp
qed code_simp+

text \<open>
  At the boundary itself the fold is not a full replay: an unfolded event with the snapshot's own
  \<open>as_of_applied_at\<close>, but an earlier id, comes before the folded one in reading order and after the
  virtual position of the snapshot.
\<close>

theorem snapshot_tie_differs:
  "fold_one_axis [ex_move ''a'' ''t1'' ''retracted'', ex_move ''b'' ''t1'' ''asserted''] =
     Inr (JStr ''asserted'')"
  "fold_one_axis [ex_move ''a'' ''t1'' ''retracted'', ex_move ''b'' ''t1'' ''asserted'',
     ex_snapshot [''b''] ''t1'' ''asserted''] = Inr (JStr ''retracted'')"
  by code_simp+

end
