(* ===== verification/Tracker_Transitions.thy ===== *)
theory Tracker_Transitions
  imports Tracker_Axes
begin

text \<open>
  Completion transitions (\<open>coordinator_core/tracker_transitions.py\<close>): payload guards, the two
  content addresses of a payload (for minting its id and for finding an event that already
  satisfies it), the emitters for one payload and for a batch, snapshots, withdrawals and the
  reopen cascade. An address tuple is a list of JSON values.
\<close>

section \<open>Payloads\<close>

definition TRANSITION_AXES :: "string list" where
  "TRANSITION_AXES = [''code_complete'', ''qa_verified'', ''manual_close'']"

definition TRANSITION_TIERS :: "string list" where
  "TRANSITION_TIERS = [''auto'', ''suggest'', ''direct'', ''deferred'']"

definition NULL_APPLIED_AT_TIERS :: "string list" where
  "NULL_APPLIED_AT_TIERS = [''suggest'', ''deferred'']"

definition reject_invalid_axis :: "json \<Rightarrow> unit res" where
  "reject_invalid_axis axis =
     (if \<not> hashable axis then Inl TypeErr
      else if axis \<notin> JStr ` set TRANSITION_AXES then Inl (TrackerTransitionError ''invalid axis'')
      else Inr ())"

definition reject_invalid_tier :: "string \<Rightarrow> unit res" where
  "reject_invalid_tier tier =
     (if tier \<notin> set TRANSITION_TIERS then Inl (TrackerTransitionError ''invalid tier'') else Inr ())"

fun reject_probe_error :: "json \<Rightarrow> unit res" where
  "reject_probe_error (JObj evidence) =
     (case dget evidence ''probe'' of
        JObj probe \<Rightarrow>
          if dget probe ''probe_result'' = JStr ''error''
          then Inl (TrackerTransitionError ''probe error'') else Inr ()
      | _ \<Rightarrow> Inr ())"
| "reject_probe_error _ = Inr ()"

definition transition_event ::
  "json \<Rightarrow> json \<Rightarrow> json \<Rightarrow> json \<Rightarrow> string \<Rightarrow> json \<Rightarrow> string \<Rightarrow> json \<Rightarrow> dict res" where
  "transition_event item_id axis to_state from_state actor evidence tier source_observation_id =
     res_bind (reject_invalid_axis axis) (\<lambda>_.
     res_bind (reject_invalid_tier tier) (\<lambda>_.
     res_bind (reject_probe_error evidence) (\<lambda>_.
       Inr (fmap_of_list [(''item_id'', item_id), (''axis'', axis), (''from_state'', from_state),
         (''to_state'', to_state), (''actor'', JStr actor), (''evidence'', evidence),
         (''tier'', JStr tier), (''source_observation_id'', source_observation_id)]))))"

section \<open>Addresses\<close>

definition evidence_sha :: "dict \<Rightarrow> json" where
  "evidence_sha payload =
     (case dget payload ''evidence'' of JObj evidence \<Rightarrow> dget evidence ''sha'' | _ \<Rightarrow> JNull)"

definition code_complete_dedup_key :: "dict \<Rightarrow> json list" where
  "code_complete_dedup_key payload =
     (if dget payload ''to_state'' = JStr ''retracted''
      then [dget payload ''source_observation_id'', evidence_sha payload]
      else [dget_or payload ''generation'' (JInt 0), evidence_sha payload, dget payload ''tier''])"

definition is_retract_of :: "json \<Rightarrow> dict \<Rightarrow> bool" where
  "is_retract_of item_id event =
     (dget event ''axis'' = JStr ''code_complete'' \<and> dget event ''to_state'' = JStr ''retracted'' \<and>
      py_eq (dget event ''item_id'') item_id)"

definition code_complete_retract_generation :: "json \<Rightarrow> dict list \<Rightarrow> nat" where
  "code_complete_retract_generation item_id events = length (filter (is_retract_of item_id) events)"

definition address_tail :: "dict \<Rightarrow> json list" where
  "address_tail payload =
     (if dget payload ''axis'' = JStr ''code_complete'' then code_complete_dedup_key payload
      else [dget payload ''source_observation_id''])"

definition dedup_check_address :: "dict \<Rightarrow> json list option" where
  "dedup_check_address payload =
     (if dget payload ''source_observation_id'' = JNull then None
      else Some ([JStr ''dedup'', dget payload ''item_id'', dget payload ''axis'', dget payload ''to_state''] @
                 address_tail payload))"

definition mint_address :: "env \<Rightarrow> nat \<Rightarrow> dict \<Rightarrow> json list" where
  "mint_address env k payload =
     (case dedup_check_address payload of
        None \<Rightarrow> [JStr ''nonce'', dget payload ''item_id'', dget payload ''axis'', dget payload ''to_state'',
                 JStr (env_nonce env k)]
      | Some address \<Rightarrow> address)"

definition mint_transition_event_id :: "env \<Rightarrow> nat \<Rightarrow> dict \<Rightarrow> string" where
  "mint_transition_event_id env k payload =
     ''evt-'' @ env_slug env @ ''-'' @ take 12 (env_sha env (JList (mint_address env k payload)))"

section \<open>Emitting one transition\<close>

fun scan_all :: "line list \<Rightarrow> dict list res" where
  "scan_all [] = Inr []"
| "scan_all (BadLine _ # ls) = Inl JSONDecodeErr"
| "scan_all (Line v # ls) =
     (case v of JObj d \<Rightarrow> res_bind (scan_all ls) (\<lambda>ds. Inr (d # ds)) | _ \<Rightarrow> scan_all ls)"

definition read_events_for_dedup_scan :: "store \<Rightarrow> dict list res" where
  "read_events_for_dedup_scan s =
     (if \<not> dir_exists s then Inr [] else scan_all (concat (glob_shards s)))"

definition same_address :: "json list \<Rightarrow> json list option \<Rightarrow> bool" where
  "same_address a b = (case b of None \<Rightarrow> False | Some b \<Rightarrow> map py_norm a = map py_norm b)"

fun find_existing_by_address :: "json list \<Rightarrow> dict list \<Rightarrow> dict option" where
  "find_existing_by_address address [] = None"
| "find_existing_by_address address (existing # events) =
     (if dget existing ''kind'' = JStr ''snapshot'' then find_existing_by_address address events
      else if \<not> (has_key existing ''item_id'' \<and> has_key existing ''axis'' \<and> has_key existing ''to_state'')
      then find_existing_by_address address events
      else if same_address address (dedup_check_address existing) then Some existing
      else find_existing_by_address address events)"

definition lookup_existing :: "dict \<Rightarrow> dict list \<Rightarrow> dict option" where
  "lookup_existing payload events =
     (case dedup_check_address payload of
        None \<Rightarrow> None | Some address \<Rightarrow> find_existing_by_address address events)"

definition null_applied :: "dict \<Rightarrow> bool" where
  "null_applied payload = (dget payload ''tier'' \<in> JStr ` set NULL_APPLIED_AT_TIERS)"

text \<open>The stored form of a payload; \<open>k\<close> numbers the readings of the clock and of the nonce.\<close>

definition transition_record :: "env \<Rightarrow> nat \<Rightarrow> dict \<Rightarrow> dict" where
  "transition_record env k payload =
     fmupd ''id'' (JStr (mint_transition_event_id env k payload))
       (fmupd ''schema_version'' (JInt 1)
         (fmupd ''applied_at'' (if null_applied payload then JNull else JStr (env_stamp env k))
           (fmupd ''observed_at'' (JStr (env_stamp env k)) payload)))"

definition with_generation :: "nat \<Rightarrow> dict \<Rightarrow> dict" where
  "with_generation n payload = fmupd ''generation'' (JInt (int n)) payload"

definition transition_emit :: "env \<Rightarrow> dict \<Rightarrow> dict op" where
  "transition_emit env payload s =
     guarded (read_events_for_dedup_scan s) (\<lambda>events.
       if \<not> has_key payload ''item_id'' then raising (KeyErr ''item_id'')
       else let stamped = with_generation
                  (code_complete_retract_generation (dget payload ''item_id'') events) payload in
         if \<not> has_key stamped ''axis'' then raising (KeyErr ''axis'')
         else if \<not> has_key stamped ''to_state'' then raising (KeyErr ''to_state'')
         else (case lookup_existing stamped events of
                 Some existing \<Rightarrow> (\<lambda>s. (Inr existing, s))
               | None \<Rightarrow> append_event env (transition_record env 0 stamped) None)) s"

definition emit_transition ::
  "env \<Rightarrow> string \<Rightarrow> string \<Rightarrow> string \<Rightarrow> json \<Rightarrow> string \<Rightarrow> json \<Rightarrow> string \<Rightarrow> string option \<Rightarrow> dict op" where
  "emit_transition env item_id axis to_state from_state actor evidence tier source_observation_id =
     guarded (transition_event (JStr item_id) (JStr axis) (JStr to_state) from_state actor evidence tier
         (opt_str source_observation_id))
       (transition_emit env)"

section \<open>Emitting a batch\<close>

definition RETRACTABLE_AXES :: "string list" where
  "RETRACTABLE_AXES = [''code_complete'', ''qa_verified'']"

definition ASSERTED_TO_STATE :: "string \<Rightarrow> string" where
  "ASSERTED_TO_STATE axis = (if axis = ''code_complete'' then ''asserted'' else ''verified'')"

definition retract_payload :: "string \<Rightarrow> string \<Rightarrow> json \<Rightarrow> string \<Rightarrow> dict res" where
  "retract_payload item_id actor state axis =
     transition_event (JStr item_id) (JStr axis) (JStr ''retracted'') state actor JNull ''direct'' JNull"

definition build_reopen_cascade :: "string \<Rightarrow> (string \<Rightarrow> json) \<Rightarrow> string \<Rightarrow> dict list res" where
  "build_reopen_cascade item_id current_states actor =
     res_bind (transition_event (JStr item_id) (JStr ''manual_close'') (JStr ''reopened'') JNull actor JNull
       ''direct'' JNull)
       (\<lambda>reopened.
         res_bind (res_map (\<lambda>axis. retract_payload item_id actor (current_states axis) axis)
                     (filter (\<lambda>axis. current_states axis = JStr (ASSERTED_TO_STATE axis)) RETRACTABLE_AXES))
           (\<lambda>retracts. Inr (reopened # retracts)))"

text \<open>
  The preparation loop of \<open>_emit_batch\<close>: each payload is stamped with the running generation of
  its item, which a freshly prepared retract advances.
\<close>

fun prepare_batch ::
  "env \<Rightarrow> nat \<Rightarrow> dict list \<Rightarrow> (json, nat) fmap \<Rightarrow> dict list \<Rightarrow> (bool \<times> dict) list res" where
  "prepare_batch env k events gens [] = Inr []"
| "prepare_batch env k events gens (payload # payloads) =
     (if \<not> has_key payload ''item_id'' then Inl (KeyErr ''item_id'')
      else if \<not> hashable (dget payload ''item_id'') then Inl TypeErr
      else let item_id = py_norm (dget payload ''item_id'');
               gen = (case fmlookup gens item_id of
                        None \<Rightarrow> code_complete_retract_generation (dget payload ''item_id'') events
                      | Some n \<Rightarrow> n);
               stamped = with_generation gen payload in
        if \<not> has_key stamped ''axis'' then Inl (KeyErr ''axis'')
        else if \<not> has_key stamped ''to_state'' then Inl (KeyErr ''to_state'')
        else (case lookup_existing stamped events of
                Some existing \<Rightarrow>
                  res_bind (prepare_batch env (Suc k) events (fmupd item_id gen gens) payloads)
                    (\<lambda>rest. Inr ((False, existing) # rest))
              | None \<Rightarrow>
                  let gen' = (if dget stamped ''axis'' = JStr ''code_complete'' \<and>
                                 dget stamped ''to_state'' = JStr ''retracted'' then gen + 1 else gen) in
                  res_bind (prepare_batch env (Suc k) events (fmupd item_id gen' gens) payloads)
                    (\<lambda>rest. Inr ((True, transition_record env k stamped) # rest))))"

fun zip_back :: "(bool \<times> dict) list \<Rightarrow> dict list \<Rightarrow> dict list" where
  "zip_back [] _ = []"
| "zip_back ((True, _) # ps) (a # as) = a # zip_back ps as"
| "zip_back ((True, e) # ps) [] = e # zip_back ps []"
| "zip_back ((False, e) # ps) as = e # zip_back ps as"

definition emit_batch :: "env \<Rightarrow> dict list \<Rightarrow> dict list op" where
  "emit_batch env payloads s =
     guarded (read_events_for_dedup_scan s) (\<lambda>events.
       guarded (prepare_batch env 0 events fmempty payloads) (\<lambda>prepared s.
         let to_append = map snd (filter fst prepared) in
         if to_append = [] then (Inr (map snd prepared), s)
         else (case append_events env to_append s of
                 (Inl e, s') \<Rightarrow> (Inl e, s')
               | (Inr appended, s') \<Rightarrow> (Inr (zip_back prepared appended), s')))) s"

definition reopen_cascade :: "env \<Rightarrow> string \<Rightarrow> string \<Rightarrow> dict list op" where
  "reopen_cascade env item_id actor s =
     guarded (fold_axis_states item_id s) (\<lambda>all_states.
       guarded (build_reopen_cascade item_id (state_of all_states) actor) (emit_batch env)) s"

section \<open>Snapshots\<close>

definition SNAPSHOT_RESNAPSHOT_THRESHOLD :: nat where
  "SNAPSHOT_RESNAPSHOT_THRESHOLD = 200"

definition mint_snapshot_event_id :: "env \<Rightarrow> json \<Rightarrow> json \<Rightarrow> json \<Rightarrow> string" where
  "mint_snapshot_event_id env item_id axis folded_event_ids =
     ''evt-'' @ env_slug env @ ''-snap-'' @
       take 16 (env_sha env (JList [JStr ''snapshot'', item_id, axis, folded_event_ids]))"

definition build_snapshot_event ::
  "string \<Rightarrow> string \<Rightarrow> json list \<Rightarrow> json \<Rightarrow> json \<Rightarrow> json \<Rightarrow> dict res" where
  "build_snapshot_event item_id axis folded_event_ids as_of_sequence as_of_applied_at folded_to_state =
     res_bind (reject_invalid_axis (JStr axis)) (\<lambda>_.
       Inr (fmap_of_list [(''item_id'', JStr item_id), (''axis'', JStr axis), (''kind'', JStr ''snapshot''),
         (''folded_event_ids'', JList folded_event_ids), (''as_of_sequence'', as_of_sequence),
         (''as_of_applied_at'', as_of_applied_at), (''folded_to_state'', folded_to_state)]))"

definition snapshot_record :: "env \<Rightarrow> dict \<Rightarrow> dict" where
  "snapshot_record env payload =
     fmupd ''id'' (JStr (mint_snapshot_event_id env (dget payload ''item_id'') (dget payload ''axis'')
                          (dget payload ''folded_event_ids'')))
       (fmupd ''schema_version'' (JInt 1)
         (fmupd ''folded_at'' (JStr (env_stamp env 0))
           (fmupd ''applied_at'' (JStr (env_stamp env 0))
             (fmupd ''observed_at'' (JStr (env_stamp env 0)) payload))))"

definition emit_snapshot_event :: "env \<Rightarrow> dict \<Rightarrow> dict op" where
  "emit_snapshot_event env payload = append_event env (snapshot_record env payload) None"

definition since_step :: "string \<Rightarrow> string \<Rightarrow> dict \<Rightarrow> dict list \<times> dict option \<Rightarrow> dict list \<times> dict option" where
  "since_step item_id axis event acc =
     (if dget event ''item_id'' \<noteq> JStr item_id \<or> dget event ''axis'' \<noteq> JStr axis then acc
      else if is_snapshot event then ([], Some event)
      else (fst acc @ [event], snd acc))"

definition events_for_axis_since_last_snapshot ::
  "string \<Rightarrow> string \<Rightarrow> store \<Rightarrow> (dict list \<times> dict option) res" where
  "events_for_axis_since_last_snapshot item_id axis s =
     res_bind (read_events s) (\<lambda>events. Inr (fold (since_step item_id axis) events ([], None)))"

definition fold_states :: "json \<Rightarrow> dict list \<Rightarrow> json" where
  "fold_states init events =
     fold (\<lambda>e st. if dget e ''to_state'' \<noteq> JNull then dget e ''to_state'' else st) events init"

definition snapshot_axis_if_due :: "env \<Rightarrow> string \<Rightarrow> string \<Rightarrow> dict option op" where
  "snapshot_axis_if_due env item_id axis s =
     guarded (events_for_axis_since_last_snapshot item_id axis s) (\<lambda>(events_since, last_snapshot) s.
       if (case last_snapshot of None \<Rightarrow> events_since = []
           | Some _ \<Rightarrow> length events_since < SNAPSHOT_RESNAPSHOT_THRESHOLD)
       then (Inr None, s)
       else if list_ex (\<lambda>e. \<not> has_key e ''id'') events_since then (Inl (KeyErr ''id''), s)
       else guarded (build_snapshot_event item_id axis (map (\<lambda>e. dget e ''id'') events_since)
              (dget_or (last events_since) ''sequence'' (JInt 0)) (dget (last events_since) ''applied_at'')
              (fold_states (case last_snapshot of None \<Rightarrow> JNull | Some sn \<Rightarrow> dget sn ''folded_to_state'')
                 events_since)) (\<lambda>payload s.
         case emit_snapshot_event env payload s of
           (Inl e, s') \<Rightarrow> (Inl e, s')
         | (Inr e, s') \<Rightarrow> (Inr (Some e), s')) s) s"

section \<open>Withdrawals\<close>

definition mint_withdrawal_event_id :: "env \<Rightarrow> json \<Rightarrow> string" where
  "mint_withdrawal_event_id env withdraws =
     ''evt-'' @ env_slug env @ ''-withdraw-'' @ take 12 (env_sha env (JList [JStr ''withdrawal'', withdraws]))"

definition own_event_prefix :: "env \<Rightarrow> string" where
  "own_event_prefix env = ''evt-'' @ env_slug env @ ''-''"

definition withdrawal_event :: "env \<Rightarrow> string \<Rightarrow> string \<Rightarrow> dict res" where
  "withdrawal_event env withdraws actor =
     (if take (length (own_event_prefix env)) withdraws \<noteq> own_event_prefix env
      then Inl (TrackerTransitionError ''not an event of this machine'')
      else Inr (fmap_of_list [(''kind'', JStr ''withdrawal''), (''withdraws'', JStr withdraws),
             (''actor'', JStr actor)]))"

definition withdrawal_record :: "env \<Rightarrow> dict \<Rightarrow> dict" where
  "withdrawal_record env payload =
     fmupd ''id'' (JStr (mint_withdrawal_event_id env (dget payload ''withdraws'')))
       (fmupd ''schema_version'' (JInt 1)
         (fmupd ''applied_at'' (JStr (env_stamp env 0))
           (fmupd ''observed_at'' (JStr (env_stamp env 0)) payload)))"

definition emit_withdrawal_event :: "env \<Rightarrow> dict \<Rightarrow> dict op" where
  "emit_withdrawal_event env payload = append_event env (withdrawal_record env payload) None"

end
