(* ===== verification/Tracker_Dedup.thy ===== *)
theory Tracker_Dedup
  imports Tracker_Transitions
begin

text \<open>
  Idempotency of transition emission: re-observing a transition, after any appends, stores nothing new, racing
  emitters collide on the content-addressed id, direct human actions are always stored, and the
  retract generation separates a re-assertion from the assertion it repeats.
\<close>

section \<open>What the dedup scan sees\<close>

fun is_obj_line :: "line \<Rightarrow> bool" where
  "is_obj_line (Line (JObj d)) = True"
| "is_obj_line _ = False"

fun line_obj :: "line \<Rightarrow> dict" where
  "line_obj (Line (JObj d)) = d"
| "line_obj _ = fmempty"

lemma mset_obj_records: "mset (obj_records ls) = image_mset line_obj (filter_mset is_obj_line (mset ls))"
  by (induction ls rule: obj_records.induct) auto

fun is_bad_line :: "line \<Rightarrow> bool" where
  "is_bad_line (BadLine _) = True"
| "is_bad_line (Line _) = False"

lemma scan_all_eq:
  "scan_all ls = (if list_ex is_bad_line ls then Inl JSONDecodeErr else Inr (obj_records ls))"
  by (induction ls rule: scan_all.induct) (auto split: json.splits)

lemma list_ex_mset: "mset xs = mset ys \<Longrightarrow> list_ex p xs = list_ex p ys"
  by (metis list_ex_iff set_mset_mset)

lemma dedup_scan_append:
  assumes "read_events_for_dedup_scan s = Inr evs" and "store_wf s"
    and "append_event env ev key s = (Inr e, s')" and "s' \<noteq> s"
  shows "\<exists>evs'. read_events_for_dedup_scan s' = Inr evs' \<and> mset evs' = add_mset e (mset evs)"
proof -
  have new: "mset (concat (glob_shards s')) = add_mset (Line (JObj e)) (mset (concat (glob_shards s)))"
    and dir: "dir_exists s'"
    using store_lines_append [OF assms(3,4,2)] by (simp_all add: mset_glob_shards)
  have old: "\<not> list_ex is_bad_line (concat (glob_shards s))" "evs = obj_records (concat (glob_shards s))"
  proof -
    have "\<not> list_ex is_bad_line (concat (glob_shards s)) \<and> evs = obj_records (concat (glob_shards s))"
    proof (cases "dir_exists s")
      case False
      then show ?thesis
        using assms(1,2) by (simp add: read_events_for_dedup_scan_def store_wf_def glob_shards_def)
    qed (use assms(1) in \<open>auto simp: read_events_for_dedup_scan_def scan_all_eq split: if_splits\<close>)
    then show "\<not> list_ex is_bad_line (concat (glob_shards s))" "evs = obj_records (concat (glob_shards s))"
      by auto
  qed
  have "list_ex is_bad_line (concat (glob_shards s')) =
      list_ex is_bad_line (Line (JObj e) # concat (glob_shards s))"
    by (rule list_ex_mset) (use new in simp)
  then have "read_events_for_dedup_scan s' = Inr (obj_records (concat (glob_shards s')))"
    using old(1) dir by (simp add: read_events_for_dedup_scan_def scan_all_eq)
  moreover have "mset (obj_records (concat (glob_shards s'))) = add_mset e (mset evs)"
    unfolding old(2) mset_obj_records new by simp
  ultimately show ?thesis by blast
qed

section \<open>Candidates\<close>

definition candidate :: "json list \<Rightarrow> dict \<Rightarrow> bool" where
  "candidate address e =
     (dget e ''kind'' \<noteq> JStr ''snapshot'' \<and> has_key e ''item_id'' \<and> has_key e ''axis'' \<and>
      has_key e ''to_state'' \<and> same_address address (dedup_check_address e))"

lemma find_existing_None: "find_existing_by_address a evs = None \<longleftrightarrow> (\<forall>e \<in> set evs. \<not> candidate a e)"
  by (induction a evs rule: find_existing_by_address.induct) (auto simp: candidate_def)

lemma find_existing_Some: "find_existing_by_address a evs = Some d \<Longrightarrow> d \<in> set evs \<and> candidate a d"
  by (induction a evs rule: find_existing_by_address.induct) (auto simp: candidate_def split: if_splits)

text \<open>Fields that a stored record shares with its payload.\<close>

lemma record_fields:
  assumes "k \<notin> {''id'', ''schema_version'', ''applied_at'', ''observed_at'', ''machine'', ''sequence'', ''logical_clock''}"
  shows "dget (stamp_event m n c (transition_record env j p)) k = dget p k"
    and "dget_or (stamp_event m n c (transition_record env j p)) k v = dget_or p k v"
    and "has_key (stamp_event m n c (transition_record env j p)) k = has_key p k"
  using assms by (auto simp: stamp_event_def transition_record_def)

lemma record_address [simp]:
  "dedup_check_address (stamp_event m n c (transition_record env j p)) = dedup_check_address p"
  by (simp add: dedup_check_address_def address_tail_def code_complete_dedup_key_def evidence_sha_def
      record_fields)

lemma with_generation_fields [simp]:
  "k \<noteq> ''generation'' \<Longrightarrow> dget (with_generation n p) k = dget p k"
  "k \<noteq> ''generation'' \<Longrightarrow> has_key (with_generation n p) k = has_key p k"
  "dget_or (with_generation n p) ''generation'' v = JInt (int n)"
  by (simp_all add: with_generation_def)

text \<open>The generation matters to the address of an assertion only.\<close>

definition is_assert :: "dict \<Rightarrow> bool" where
  "is_assert p = (dget p ''axis'' = JStr ''code_complete'' \<and> dget p ''to_state'' \<noteq> JStr ''retracted'')"

lemma address_generation:
  "\<not> is_assert p \<Longrightarrow> dedup_check_address (with_generation n p) = dedup_check_address (with_generation m p)"
  by (auto simp: is_assert_def dedup_check_address_def address_tail_def code_complete_dedup_key_def
      evidence_sha_def)

lemma generation_mset:
  "mset evs = mset evs' \<Longrightarrow> code_complete_retract_generation i evs = code_complete_retract_generation i evs'"
  unfolding code_complete_retract_generation_def by (metis mset_filter size_mset)

lemma generation_add:
  "mset evs' = add_mset e (mset evs) \<Longrightarrow> code_complete_retract_generation i evs' =
     (if is_retract_of i e then 1 else 0) + code_complete_retract_generation i evs"
  using generation_mset [of evs' "e # evs" i] by (simp add: code_complete_retract_generation_def)

text \<open>The payload of a transition, as \<open>transition_event\<close> builds it.\<close>

definition is_payload :: "dict \<Rightarrow> bool" where
  "is_payload p = (has_key p ''item_id'' \<and> has_key p ''axis'' \<and> has_key p ''to_state'' \<and>
     dget p ''kind'' \<noteq> JStr ''snapshot'')"

lemma transition_event_payload:
  "transition_event i a t f act ev tier src = Inr p \<Longrightarrow> is_payload p"
  by (auto simp: transition_event_def res_bind_Inr_iff is_payload_def dget_def)

abbreviation stamped_payload :: "dict \<Rightarrow> dict list \<Rightarrow> dict" where
  "stamped_payload p evs \<equiv> with_generation (code_complete_retract_generation (dget p ''item_id'') evs) p"

lemma transition_emit_eq:
  assumes "read_events_for_dedup_scan s = Inr evs" and "is_payload p"
  shows "transition_emit env p s =
    (case lookup_existing (stamped_payload p evs) evs of
       Some d \<Rightarrow> (Inr d, s)
     | None \<Rightarrow> append_event env (transition_record env 0 (stamped_payload p evs)) None s)"
  using assms by (simp add: transition_emit_def is_payload_def Let_def split: option.split)

lemma transition_emit_cases [consumes 2, case_names existing appended]:
  assumes "transition_emit env p s = (Inr e, s')" and "is_payload p"
  obtains (existing) evs where "read_events_for_dedup_scan s = Inr evs"
      and "lookup_existing (stamped_payload p evs) evs = Some e" and "s' = s"
  | (appended) evs n c where "read_events_for_dedup_scan s = Inr evs"
      and "lookup_existing (stamped_payload p evs) evs = None" and "s' \<noteq> s"
      and "append_event env (transition_record env 0 (stamped_payload p evs)) None s = (Inr e, s')"
      and "e = stamp_event (env_slug env) n c (transition_record env 0 (stamped_payload p evs))"
      and "live_lines s' (env_slug env) = live_lines s (env_slug env) @ [Line (JObj e)]"
proof -
  obtain evs where evs: "read_events_for_dedup_scan s = Inr evs"
    using assms(1) by (auto simp: transition_emit_def guarded_Inr)
  note eq = transition_emit_eq [OF evs assms(2), of env]
  show ?thesis
  proof (cases "lookup_existing (stamped_payload p evs) evs")
    case None
    then have app: "append_event env (transition_record env 0 (stamped_payload p evs)) None s = (Inr e, s')"
      using eq assms(1) by simp
    then obtain n c where "e = stamp_event (env_slug env) n c (transition_record env 0 (stamped_payload p evs))"
      "s' \<noteq> s" "live_lines s' (env_slug env) = live_lines s (env_slug env) @ [Line (JObj e)]"
      by (rule append_event_new)
    with None app evs show ?thesis by (intro appended)
  next
    case (Some d)
    with eq assms(1) evs show ?thesis by (intro existing) auto
  qed
qed

section \<open>The scan along a run of appends\<close>

lemma store_step_scan:
  assumes "store_step s t" and "store_wf s"
  obtains (grown) new where "store_lines t = store_lines s + image_mset (\<lambda>e. Line (JObj e)) new" and "store_wf t"
proof -
  have more: thesis if "t = write_live m (live_lines s m @ map (\<lambda>e. Line (JObj e)) es) s" for m es
    using that store_lines_write_live [OF assms(2), of m "live_lines s m @ map (\<lambda>e. Line (JObj e)) es"] assms(2)
    by (intro grown [of "mset es"]) (simp_all add: ac_simps)
  show thesis using assms(1)
  proof cases
    case (one env ev key r)
    then show thesis
    proof (cases rule: append_event_cases)
      case (appended seq w c clock)
      then show thesis using more [of _ "[_]"] by simp
    qed (use grown [of "{#}"] assms(2) in auto)
  next
    case (batch env evs r)
    then show thesis
    proof (cases rule: append_events_cases)
      case (appended us seq w c assigned)
      then show thesis using more by simp
    qed (use grown [of "{#}"] assms(2) in auto)
  qed
qed

lemma store_run_scan:
  assumes "store_step\<^sup>*\<^sup>* s t" and "store_wf s"
  shows "\<exists>new. store_lines t = store_lines s + image_mset (\<lambda>e. Line (JObj e)) new \<and> store_wf t"
  using assms
proof (induction rule: rtranclp_induct)
  case base
  then show ?case by (intro exI [of _ "{#}"]) simp
next
  case (step t u)
  then obtain new where new: "store_lines t = store_lines s + image_mset (\<lambda>e. Line (JObj e)) new" "store_wf t"
    by blast
  obtain more where "store_lines u = store_lines t + image_mset (\<lambda>e. Line (JObj e)) more" "store_wf u"
    using store_step_scan [OF step.hyps(2) new(2)] by blast
  then show ?case using new(1) by (intro exI [of _ "new + more"]) simp
qed

lemma dedup_scan_lines:
  assumes "store_wf s"
  shows "read_events_for_dedup_scan s =
    (if list_ex is_bad_line (concat (glob_shards s)) then Inl JSONDecodeErr else Inr (obj_records (concat (glob_shards s))))"
  using assms by (auto simp: read_events_for_dedup_scan_def scan_all_eq store_wf_def glob_shards_def)

lemma dedup_scan_run:
  assumes "store_step\<^sup>*\<^sup>* s t" and "store_wf s" and "read_events_for_dedup_scan s = Inr evs"
  obtains evs' where "read_events_for_dedup_scan t = Inr evs'" and "set evs \<subseteq> set evs'"
proof -
  obtain new where new: "store_lines t = store_lines s + image_mset (\<lambda>e. Line (JObj e)) new" and wf: "store_wf t"
    using store_run_scan [OF assms(1,2)] by blast
  note old = assms(3) [unfolded dedup_scan_lines [OF assms(2)]]
  then have evs: "evs = obj_records (concat (glob_shards s))" by (simp split: if_splits)
  have "set (concat (glob_shards t)) = set (concat (glob_shards s)) \<union> (\<lambda>e. Line (JObj e)) ` set_mset new"
    using arg_cong [OF new(1), of set_mset] by (simp flip: mset_glob_shards)
  then have "\<not> list_ex is_bad_line (concat (glob_shards t))"
    using old by (auto simp: list_ex_iff split: if_splits)
  moreover have "mset (obj_records (concat (glob_shards t))) = mset evs + new"
    unfolding evs mset_obj_records mset_glob_shards new(1) by (simp add: filter_mset_image_mset multiset.map_comp comp_def)
  ultimately show thesis
    using that [of "obj_records (concat (glob_shards t))"] dedup_scan_lines [OF wf]
    by (metis mset_subset_eq_add_left set_mset_mono set_mset_mset)
qed

text \<open>How many stored retracts the emitter counts for the item of a payload.\<close>

definition stored_retracts :: "dict \<Rightarrow> store \<Rightarrow> nat" where
  "stored_retracts p s =
     (case read_events_for_dedup_scan s of
        Inl x \<Rightarrow> 0 | Inr evs \<Rightarrow> code_complete_retract_generation (dget p ''item_id'') evs)"

lemma emitted_is_candidate:
  assumes "transition_emit env p s = (Inr e, s')" and "store_wf s" and "is_payload p"
    and "dget p ''source_observation_id'' \<noteq> JNull"
  obtains evs a where "read_events_for_dedup_scan s' = Inr evs" and "store_wf s'" and "e \<in> set evs"
    and "dedup_check_address (stamped_payload p evs) = Some a" and "candidate a e"
  using assms(1,3)
proof (cases rule: transition_emit_cases)
  case (existing evs)
  obtain a where a: "dedup_check_address (stamped_payload p evs) = Some a" "find_existing_by_address a evs = Some e"
    using existing(2) by (auto simp: lookup_existing_def split: option.splits)
  show thesis using find_existing_Some [OF a(2)] by (intro that [OF _ _ _ a(1)]) (simp_all add: existing(1,3) assms(2))
next
  case (appended evs n c)
  obtain evs' where scan: "read_events_for_dedup_scan s' = Inr evs'" and add: "mset evs' = add_mset e (mset evs)"
    using dedup_scan_append [OF appended(1) assms(2) appended(4,3)] by blast
  let ?q = "stamped_payload p evs" and ?q' = "stamped_payload p evs'"
  have fields: "dget e k = dget p k" "has_key e k = has_key p k"
    if "k \<in> {''item_id'', ''axis'', ''to_state'', ''kind''}" for k
    using that by (auto simp: appended(5) record_fields)
  have same: "dedup_check_address ?q' = dedup_check_address ?q"
  proof (cases "is_assert p")
    case True
    then have "\<not> is_retract_of (dget p ''item_id'') e"
      by (simp add: is_retract_of_def is_assert_def fields)
    then show ?thesis using generation_add [OF add] by simp
  qed (rule address_generation)
  obtain a where a: "dedup_check_address ?q' = Some a"
    using assms(4) by (auto simp: dedup_check_address_def)
  have "dedup_check_address e = Some a" using a same by (simp add: appended(5))
  then have "candidate a e"
    using assms(3) by (simp add: candidate_def is_payload_def fields same_address_def)
  moreover have "e \<in> set evs'" using add by (metis set_mset_mset union_single_eq_member)
  moreover have "store_wf s'"
    using store_step_scan [OF store_step.one [OF appended(4)] assms(2)] by blast
  ultimately show thesis using scan a that by blast
qed

section \<open>Properties of emission\<close>

text \<open>C21. Re-observation is idempotent. Once a transition (a payload as transition_event builds it) with a source
  observation was emitted on a well-formed store, emitting the same payload again, from any environment and after
  any appends of single events and batches by any machines, stores nothing and returns a stored event with the
  same content address, as long as the number of stored retracts of the item, which is part of the address of an
  assertion, is the same.\<close>

theorem reobservation_is_noop:
  assumes "transition_emit env p s = (Inr e, s')" and "store_wf s" and "is_payload p"
    and "dget p ''source_observation_id'' \<noteq> JNull" and "store_step\<^sup>*\<^sup>* s' t"
    and "is_assert p \<Longrightarrow> stored_retracts p t = stored_retracts p s'"
  shows "\<exists>evs a d. read_events_for_dedup_scan t = Inr evs \<and> dedup_check_address (stamped_payload p evs) = Some a \<and>
    d \<in> set evs \<and> candidate a d \<and> transition_emit env' p t = (Inr d, t)"
proof -
  obtain evs a where old: "read_events_for_dedup_scan s' = Inr evs" "store_wf s'" "e \<in> set evs"
    "dedup_check_address (stamped_payload p evs) = Some a" "candidate a e"
    using emitted_is_candidate [OF assms(1-4)] by blast
  obtain evs' where scan: "read_events_for_dedup_scan t = Inr evs'" and sub: "set evs \<subseteq> set evs'"
    using dedup_scan_run [OF assms(5) old(2,1)] by blast
  have a: "dedup_check_address (stamped_payload p evs') = Some a"
  proof (cases "is_assert p")
    case True
    then show ?thesis using assms(6) old(1,4) scan by (simp add: stored_retracts_def)
  next
    case False
    then show ?thesis using address_generation old(4) by metis
  qed
  have "find_existing_by_address a evs' \<noteq> None" using find_existing_None old(3,5) sub by blast
  then obtain d where d: "find_existing_by_address a evs' = Some d" by blast
  then have "transition_emit env' p t = (Inr d, t)"
    using transition_emit_eq [OF scan assms(3), of env'] a by (simp add: lookup_existing_def)
  then show ?thesis using scan a find_existing_Some [OF d] by blast
qed

text \<open>Racing emitters cannot both store: when two processes of one machine scanned the same state
  and both found no match for a transition with a source observation, the one that reaches the lock
  second is refused, whatever was appended in between.\<close>

theorem racing_emits_collide:
  assumes "append_event env (transition_record env 0 q) None s = (Inr e, s')"
    and "dget q ''source_observation_id'' \<noteq> JNull"
    and "env_slug env' = env_slug env" and "env_sha env' = env_sha env" and "store_step\<^sup>*\<^sup>* s' t"
  shows "\<exists>x. append_event env' (transition_record env' 0 q) None t = (Inl x, t)"
proof -
  have "mint_address env' 0 q = mint_address env 0 q"
    using assms(2) by (simp add: mint_address_def dedup_check_address_def)
  then have id: "event_id (transition_record env' 0 q) = event_id (transition_record env 0 q)"
    using assms(3,4) by (simp add: event_id_def transition_record_def mint_transition_event_id_def)
  obtain n c where "e = stamp_event (env_slug env) n c (transition_record env 0 q)"
    and "live_lines s' (env_slug env) = live_lines s (env_slug env) @ [Line (JObj e)]"
    using assms(1) by (rule append_event_new)
  then have "event_id (transition_record env 0 q) \<in> event_id ` set (own_records (env_slug env) s')"
    by (simp add: own_records_def peer_lines_eq)
  moreover obtain ext where "live_lines t (env_slug env) = live_lines s' (env_slug env) @ ext"
    using store_steps_prefix [OF assms(5)] by (auto simp: prefix_def)
  ultimately have mem: "event_id (transition_record env' 0 q) \<in> event_id ` set (own_records (env_slug env') t)"
    using rotated_history_cong [OF store_steps_rotated [OF assms(5)]] assms(3) id
    by (auto simp: own_records_def peer_lines_eq)
  obtain r u where r: "append_event env' (transition_record env' 0 q) None t = (r, u)" by force
  show ?thesis
  proof (cases r)
    case (Inl x)
    then show ?thesis using r shard_log.app_err by fastforce
  next
    case (Inr d)
    then show ?thesis using r mem shard_log.app_fresh by fastforce
  qed
qed

text \<open>A direct human action is never swallowed: without a source observation a successful emission
  has always appended a new event to the own shard, also when an event with the same evidence is
  stored already.\<close>

theorem direct_action_always_stored:
  assumes "transition_emit env p s = (Inr e, s')" and "is_payload p"
    and "dget p ''source_observation_id'' = JNull"
  shows "live_lines s' (env_slug env) = live_lines s (env_slug env) @ [Line (JObj e)]"
  using assms(1,2)
proof (cases rule: transition_emit_cases)
  case (existing evs)
  then show ?thesis using assms(3) by (simp add: lookup_existing_def dedup_check_address_def)
qed auto

text \<open>
  Every stored assertion carries a generation that was the number of its item's stored retracts
  when it was emitted, so none exceeds the current number.
\<close>

definition generations_bounded :: "dict list \<Rightarrow> bool" where
  "generations_bounded evs =
     (\<forall>d \<in> set evs. is_assert d \<and> dget d ''source_observation_id'' \<noteq> JNull \<longrightarrow>
        (case as_int (dget_or d ''generation'' (JInt 0)) of
           None \<Rightarrow> False
         | Some g \<Rightarrow> g \<le> int (code_complete_retract_generation (dget d ''item_id'') evs)))"

lemma is_retract_of_cong: "py_norm i = py_norm j \<Longrightarrow> is_retract_of i = is_retract_of j"
  by (simp add: fun_eq_iff is_retract_of_def py_eq_def)

lemma generation_cong:
  "py_norm i = py_norm j \<Longrightarrow>
     code_complete_retract_generation i evs = code_complete_retract_generation j evs"
  by (simp add: code_complete_retract_generation_def is_retract_of_cong [of i j])

lemma py_norm_JInt_as_int: "py_norm v = JInt g \<longleftrightarrow> as_int v = Some g"
  by (cases v) auto

text \<open>A candidate for an assertion is a stored assertion of the same item and generation.\<close>

lemma assert_candidate:
  assumes "is_assert p" and "dedup_check_address (with_generation n p) = Some a" and "candidate a d"
  shows "is_assert d \<and> dget d ''source_observation_id'' \<noteq> JNull \<and>
    py_norm (dget d ''item_id'') = py_norm (dget p ''item_id'') \<and>
    as_int (dget_or d ''generation'' (JInt 0)) = Some (int n)"
proof -
  obtain b where b: "dedup_check_address d = Some b" and eq: "map py_norm a = map py_norm b"
    using assms(3) by (auto simp: candidate_def same_address_def split: option.splits)
  have a: "a = [JStr ''dedup'', dget p ''item_id'', JStr ''code_complete'', dget p ''to_state'',
      JInt (int n), evidence_sha (with_generation n p), dget p ''tier'']"
    using assms(1,2)
    by (auto simp: dedup_check_address_def address_tail_def code_complete_dedup_key_def is_assert_def
        split: if_splits)
  have src: "dget d ''source_observation_id'' \<noteq> JNull"
    and b': "b = [JStr ''dedup'', dget d ''item_id'', dget d ''axis'', dget d ''to_state''] @ address_tail d"
    using b by (auto simp: dedup_check_address_def split: if_splits)
  have axis: "dget d ''axis'' = JStr ''code_complete''"
    and to: "py_norm (dget d ''to_state'') = py_norm (dget p ''to_state'')"
    and item: "py_norm (dget d ''item_id'') = py_norm (dget p ''item_id'')"
    and tail: "map py_norm (address_tail d) =
      [JInt (int n), py_norm (evidence_sha (with_generation n p)), py_norm (dget p ''tier'')]"
    using eq [symmetric] unfolding a b' by simp_all
  have "dget d ''to_state'' \<noteq> JStr ''retracted''"
  proof
    assume "dget d ''to_state'' = JStr ''retracted''"
    then have "py_norm (dget p ''to_state'') = JStr ''retracted''" using to by simp
    then show False using assms(1) by (simp add: is_assert_def)
  qed
  then have asrt: "is_assert d" using axis by (simp add: is_assert_def)
  then have "py_norm (dget_or d ''generation'' (JInt 0)) = JInt (int n)"
    using tail by (simp add: address_tail_def code_complete_dedup_key_def is_assert_def)
  then show ?thesis using asrt src item by (simp add: py_norm_JInt_as_int)
qed

lemma generations_bounded_add:
  assumes "generations_bounded evs" and "mset evs' = add_mset e (mset evs)"
    and "is_assert e \<and> dget e ''source_observation_id'' \<noteq> JNull \<longrightarrow>
      as_int (dget_or e ''generation'' (JInt 0)) =
        Some (int (code_complete_retract_generation (dget e ''item_id'') evs))"
  shows "generations_bounded evs'"
  unfolding generations_bounded_def
proof (intro ballI impI)
  fix d assume d: "d \<in> set evs'" "is_assert d \<and> dget d ''source_observation_id'' \<noteq> JNull"
  have set: "set evs' = insert e (set evs)" using assms(2) by (metis set_mset_add_mset_insert set_mset_mset)
  have up: "code_complete_retract_generation i evs \<le> code_complete_retract_generation i evs'" for i
    using generation_add [OF assms(2)] by simp
  show "case as_int (dget_or d ''generation'' (JInt 0)) of None \<Rightarrow> False
      | Some g \<Rightarrow> g \<le> int (code_complete_retract_generation (dget d ''item_id'') evs')"
  proof (cases "d = e")
    case True
    then show ?thesis using assms(3) d(2) up by simp
  next
    case False
    then have "case as_int (dget_or d ''generation'' (JInt 0)) of None \<Rightarrow> False
        | Some g \<Rightarrow> g \<le> int (code_complete_retract_generation (dget d ''item_id'') evs)"
      using assms(1) d set by (auto simp: generations_bounded_def)
    then show ?thesis using up [of "dget d ''item_id''"] by (auto split: option.splits)
  qed
qed

text \<open>The bound on stored generations is an invariant of emission, and it makes a re-assertion
  possible: after a retract of the item was stored, emitting an assertion again (the same evidence,
  tier and source observation) is not mistaken for the assertion before the retract but appended as
  a new event.\<close>

lemma reassert_after_retract_stored:
  assumes "transition_emit env r s = (Inr e, s')" and "s' \<noteq> s" and "store_wf s"
    and "read_events_for_dedup_scan s = Inr evs" and "generations_bounded evs"
    and "is_payload r" and "is_retract_of (dget p ''item_id'') r"
    and "is_payload p" and "is_assert p" and "dget p ''source_observation_id'' \<noteq> JNull"
  shows "\<exists>evs'. read_events_for_dedup_scan s' = Inr evs' \<and> generations_bounded evs' \<and>
    transition_emit env' p s' = append_event env' (transition_record env' 0 (stamped_payload p evs')) None s'"
  using assms(1,6)
proof (cases rule: transition_emit_cases)
  case (appended evs1 n c)
  have same: "evs1 = evs" using appended(1) assms(4) by simp
  obtain evs' where scan: "read_events_for_dedup_scan s' = Inr evs'" and add: "mset evs' = add_mset e (mset evs)"
    using dedup_scan_append [OF appended(1) assms(3) appended(4,3)] same by blast
  have ret: "is_retract_of (dget p ''item_id'') e"
    using assms(7) by (simp add: is_retract_of_def appended(5) record_fields)
  then have "\<not> is_assert e" by (simp add: is_retract_of_def is_assert_def)
  then have bounded: "generations_bounded evs'" using generations_bounded_add [OF assms(5) add] by simp
  let ?g = "code_complete_retract_generation (dget p ''item_id'')"
  obtain a where a: "dedup_check_address (stamped_payload p evs') = Some a"
    using assms(10) by (auto simp: dedup_check_address_def)
  have "\<not> candidate a d" if mem: "d \<in> set evs'" for d
  proof
    assume "candidate a d"
    from assert_candidate [OF assms(9) a this]
    have d: "is_assert d" "dget d ''source_observation_id'' \<noteq> JNull"
      "py_norm (dget d ''item_id'') = py_norm (dget p ''item_id'')"
      "as_int (dget_or d ''generation'' (JInt 0)) = Some (int (?g evs'))" by auto
    have "d \<in> set evs"
    proof -
      have "set evs' = insert e (set evs)" using add by (metis set_mset_add_mset_insert set_mset_mset)
      then show ?thesis using mem d(1) \<open>\<not> is_assert e\<close> by auto
    qed
    then have "int (?g evs') \<le> int (?g evs)"
      using assms(5) d generation_cong [OF d(3)] by (force simp: generations_bounded_def)
    then show False using generation_add [OF add, of "dget p ''item_id''"] ret by simp
  qed
  then have "lookup_existing (stamped_payload p evs') evs' = None"
    using a find_existing_None by (simp add: lookup_existing_def)
  then show ?thesis using scan bounded transition_emit_eq [OF scan assms(8), of env'] by auto
qed (use assms(2) in auto)

section \<open>Worked examples\<close>

definition ex_assert :: dict where
  "ex_assert = fmap_of_list [(''item_id'', JStr ''itm''), (''axis'', JStr ''code_complete''),
     (''from_state'', JNull), (''to_state'', JStr ''asserted''), (''actor'', JStr ''eve''),
     (''evidence'', JObj (fmap_of_list [(''sha'', JStr ''c0ffee'')])), (''tier'', JStr ''auto''),
     (''source_observation_id'', JStr ''obs-1'')]"

definition ex_retract :: dict where
  "ex_retract = fmupd ''to_state'' (JStr ''retracted'') (fmupd ''source_observation_id'' (JStr ''obs-2'') ex_assert)"

definition ex_direct :: dict where
  "ex_direct = fmupd ''source_observation_id'' JNull ex_assert"

definition ex_asserted :: store where
  "ex_asserted = snd (transition_emit ex_env ex_assert empty_store)"

lemma ex_payloads: "is_payload ex_assert" "is_payload ex_retract" "is_payload ex_direct" "store_wf empty_store"
  "store_wf ex_asserted"
  by code_simp+

lemma emit_outcome:
  "case fst r of Inr e \<Rightarrow> True | Inl _ \<Rightarrow> False \<Longrightarrow> \<exists>e. r = (Inr e, snd r)" for r :: "'a res \<times> 'b"
  by (cases r) (auto split: sum.splits)

definition ex_later_store :: store where
  "ex_later_store = snd (append_event ex_env (transition_record ex_env 0 ex_direct) None ex_asserted)"

theorem reobservation_is_noop_witness:
  "live_lines ex_later_store ''rig'' \<noteq> live_lines ex_asserted ''rig'' \<and>
   (\<exists>d. transition_emit ex_env ex_assert ex_later_store = (Inr d, ex_later_store))"
proof
  show "live_lines ex_later_store ''rig'' \<noteq> live_lines ex_asserted ''rig''" by code_simp
  have "case fst (transition_emit ex_env ex_assert empty_store) of Inr e \<Rightarrow> True | Inl _ \<Rightarrow> False" by code_simp
  then obtain e where e: "transition_emit ex_env ex_assert empty_store = (Inr e, ex_asserted)"
    unfolding ex_asserted_def using emit_outcome by blast
  have "store_step ex_asserted ex_later_store" unfolding ex_later_store_def by (rule store_step.one [OF prod.collapse [symmetric]])
  moreover have "dget ex_assert ''source_observation_id'' \<noteq> JNull"
    "stored_retracts ex_assert ex_later_store = stored_retracts ex_assert ex_asserted" by code_simp+
  ultimately show "\<exists>d. transition_emit ex_env ex_assert ex_later_store = (Inr d, ex_later_store)"
    using reobservation_is_noop [OF e ex_payloads(4,1), where env' = ex_env and t = ex_later_store] by blast
qed

theorem racing_emits_collide_witness:
  "\<exists>x. append_event ex_env (transition_record ex_env 0 ex_assert) None
     (snd (append_event ex_env (transition_record ex_env 0 ex_assert) None empty_store)) =
   (Inl x, snd (append_event ex_env (transition_record ex_env 0 ex_assert) None empty_store))"
proof -
  let ?r = "append_event ex_env (transition_record ex_env 0 ex_assert) None empty_store"
  have "case fst ?r of Inr e \<Rightarrow> True | Inl _ \<Rightarrow> False" by code_simp
  then obtain e where "?r = (Inr e, snd ?r)" using emit_outcome by blast
  moreover have "dget ex_assert ''source_observation_id'' \<noteq> JNull" by code_simp
  ultimately show ?thesis using racing_emits_collide [where env' = ex_env] by blast
qed

theorem direct_action_always_stored_witness:
  "\<exists>e. live_lines (snd (transition_emit ex_env ex_direct ex_asserted)) ''rig'' =
     live_lines ex_asserted ''rig'' @ [Line (JObj e)]"
proof -
  let ?r = "transition_emit ex_env ex_direct ex_asserted"
  have "case fst ?r of Inr e \<Rightarrow> True | Inl _ \<Rightarrow> False" by code_simp
  then obtain e where "?r = (Inr e, snd ?r)" using emit_outcome by blast
  moreover have "dget ex_direct ''source_observation_id'' = JNull" "env_slug ex_env = ''rig''" by code_simp+
  ultimately show ?thesis using direct_action_always_stored [where env = ex_env] ex_payloads by metis
qed

end
