(* ===== verification/Tracker_Cascade.thy ===== *)
theory Tracker_Cascade
  imports Tracker_Dedup
begin

text \<open>
  The reopen cascade: one atomic batch with a reopen marker and the retracts that the current
  state calls for, after which the item renders open.
\<close>

lemma as_str_not_None: "as_str v \<noteq> None \<longleftrightarrow> (\<exists>s. v = JStr s)" "(\<exists>s. as_str v = Some s) \<longleftrightarrow> (\<exists>s. v = JStr s)"
  by (cases v; simp)+

section \<open>Reading back a batch\<close>

lemma store_lines_batch:
  assumes "append_events env tos s = (Inr as, s')" and "tos \<noteq> []" and "store_wf s"
  shows "store_lines s' = store_lines s + image_mset (\<lambda>d. Line (JObj d)) (mset as) \<and> dir_exists s'"
  using assms(1)
proof (cases rule: append_events_cases)
  case (appended us seq w c assigned)
  have "store_lines s' + mset (live_lines s (env_slug env)) =
      store_lines s + mset (live_lines s (env_slug env) @ map (\<lambda>e. Line (JObj e)) as)"
    using appended store_lines_write_live [OF assms(3)] by simp
  then show ?thesis using appended by simp
qed (use assms(2) in auto)

lemma read_events_batch:
  assumes "append_events env tos s = (Inr as, s')" and "tos \<noteq> []" and "log_ok s evs"
    and "list_all is_applied as" and "list_all (\<lambda>e. list_all (\<lambda>v. as_str v \<noteq> None) (event_key e)) as"
    and "ids_name_events (evs @ as)" and "\<forall>x \<in> set evs. \<forall>e \<in> set as. sort_id x < sort_id e"
  shows "read_events s' = Inr (evs @ sort_key sort_id as)"
proof -
  obtain rs where rs: "store_lines s = image_mset (\<lambda>d. Line (JObj d)) (mset rs)"
    and evs: "mset (filter is_applied rs) = mset evs"
    using assms(3) by (rule log_ok_records)
  have wf: "store_wf s" using assms(3) by (simp add: log_ok_def)
  have new: "store_lines s' = image_mset (\<lambda>d. Line (JObj d)) (mset (rs @ as))" "dir_exists s'"
    using store_lines_batch [OF assms(1,2) wf] rs by simp_all
  have set: "set (filter is_applied rs) = set evs" using evs by (rule mset_eq_setD)
  have app: "filter is_applied (rs @ as) = filter is_applied rs @ as"
    using assms(4) by (simp add: list_all_iff)
  have "read_events s' = Inr (sort_key sort_id (filter is_applied rs @ as))"
  proof (rule read_events_records [OF new(2,1), unfolded app])
    show "list_all (\<lambda>e. list_all (\<lambda>v. as_str v \<noteq> None) (event_key e)) (filter is_applied rs @ as)"
      using assms(3,5) unfolding list_all_iff set_append set by (auto simp: log_ok_def list_all_iff)
    show "ids_name_events (filter is_applied rs @ as)"
      using assms(6) unfolding ids_name_events_def set_append set .
  qed
  also have "sort_key sort_id (filter is_applied rs @ as) = sort_key sort_id (evs @ sort_key sort_id as)"
  proof (rule sort_key_mset_eq)
    show "mset (filter is_applied rs @ as) = mset (evs @ sort_key sort_id as)" using evs by simp
    show "inj_on sort_id (set (filter is_applied rs @ as))"
      using inj_on_sort_id [OF assms(6)] unfolding set_append set .
  qed
  also have "\<dots> = evs @ sort_key sort_id as"
  proof (rule sort_key_id_if_sorted)
    have "sorted (map sort_id evs)"
      using assms(3) read_events_sorted unfolding log_ok_def by blast
    then show "sorted (map sort_id (evs @ sort_key sort_id as))"
      using assms(7) by (auto simp: sorted_append less_imp_le)
  qed
  finally show ?thesis .
qed

section \<open>Preparing direct payloads\<close>

lemma prepare_batch_direct:
  assumes "list_all (\<lambda>p. is_payload p \<and> hashable (dget p ''item_id'') \<and>
    dget p ''source_observation_id'' = JNull) ps"
  shows "\<exists>rs. prepare_batch env k events gens ps = Inr (map (Pair True) rs) \<and>
    list_all2 (\<lambda>p r. \<exists>j g. r = transition_record env j (with_generation g p)) ps rs"
  using assms
proof (induction ps arbitrary: k gens)
  case (Cons p ps)
  let ?i = "py_norm (dget p ''item_id'')"
  let ?g = "case fmlookup gens ?i of
      None \<Rightarrow> code_complete_retract_generation (dget p ''item_id'') events | Some n \<Rightarrow> n"
  let ?g' = "if dget (with_generation ?g p) ''axis'' = JStr ''code_complete'' \<and>
      dget (with_generation ?g p) ''to_state'' = JStr ''retracted'' then ?g + 1 else ?g"
  obtain rs where rs: "prepare_batch env (Suc k) events (fmupd ?i ?g' gens) ps = Inr (map (Pair True) rs)"
    "list_all2 (\<lambda>p r. \<exists>j g. r = transition_record env j (with_generation g p)) ps rs"
    using Cons.IH [of "Suc k" "fmupd ?i ?g' gens"] Cons.prems by auto
  have "lookup_existing (with_generation ?g p) events = None"
    using Cons.prems by (simp add: lookup_existing_def dedup_check_address_def)
  then have "prepare_batch env k events gens (p # ps) =
      Inr (map (Pair True) (transition_record env k (with_generation ?g p) # rs))"
    using Cons.prems rs(1) by (simp add: is_payload_def Let_def)
  moreover have "list_all2 (\<lambda>p r. \<exists>j g. r = transition_record env j (with_generation g p)) (p # ps)
      (transition_record env k (with_generation ?g p) # rs)"
    using rs(2) by auto
  ultimately show ?case by blast
qed simp

lemma zip_back_all: "length as = length rs \<Longrightarrow> zip_back (map (Pair True) rs) as = as"
proof (induction rs arbitrary: as)
  case (Cons r rs)
  then show ?case by (cases as) auto
qed simp

text \<open>A stored direct transition: its payload, stamped.\<close>

definition stored_as :: "env \<Rightarrow> dict \<Rightarrow> dict \<Rightarrow> bool" where
  "stored_as env p a =
     (\<exists>j g n c. a = stamp_event (env_slug env) n c (transition_record env j (with_generation g p)))"

lemma emit_batch_direct:
  assumes "emit_batch env ps s = (Inr as, s')" and "ps \<noteq> []"
    and "list_all (\<lambda>p. is_payload p \<and> hashable (dget p ''item_id'') \<and>
      dget p ''source_observation_id'' = JNull) ps"
  shows "\<exists>rs. rs \<noteq> [] \<and> append_events env rs s = (Inr as, s') \<and> list_all2 (stored_as env) ps as"
proof -
  obtain events where ev: "read_events_for_dedup_scan s = Inr events"
    using assms(1) by (auto simp: emit_batch_def guarded_Inr)
  obtain rs where rs: "prepare_batch env 0 events fmempty ps = Inr (map (Pair True) rs)"
    "list_all2 (\<lambda>p r. \<exists>j g. r = transition_record env j (with_generation g p)) ps rs"
    using prepare_batch_direct [OF assms(3)] by blast
  have len: "length rs = length ps" using rs(2) by (simp add: list_all2_lengthD)
  then have ne: "rs \<noteq> []" using assms(2) by auto
  have sel: "filter fst (map (Pair True) rs) = map (Pair True) rs" "map (snd \<circ> Pair True) rs = rs"
    by (simp_all add: filter_map comp_def)
  obtain assigned where app: "append_events env rs s = (Inr assigned, s')"
    and as: "as = zip_back (map (Pair True) rs) assigned"
    using assms(1) ne by (auto simp: emit_batch_def ev rs(1) sel Let_def split: prod.splits sum.splits)
  from app obtain seq w c where st: "batch_stamp env 0 seq w c rs = Inr assigned"
    using ne by (cases rule: append_events_cases) auto
  have "length assigned = length rs" using st by (rule batch_stamp_length)
  then have "as = assigned" using as zip_back_all by simp
  moreover have "list_all2 (stored_as env) ps assigned"
  proof (rule list_all2_all_nthI)
    fix i assume i: "i < length ps"
    then obtain j g where "rs ! i = transition_record env j (with_generation g (ps ! i))"
      using rs(2) by (auto simp: list_all2_conv_all_nth)
    moreover obtain clock where "assigned ! i = stamp_event (env_slug env) (seq + int i + 1) clock (rs ! i)"
      using batch_stamp_nth [OF st, of i] i len by auto
    ultimately show "stored_as env (ps ! i) (assigned ! i)" unfolding stored_as_def by metis
  qed (use \<open>length assigned = length rs\<close> len in simp)
  ultimately show ?thesis using app ne by blast
qed

section \<open>The events of a cascade\<close>

definition cascade_to_state :: "string \<Rightarrow> string" where
  "cascade_to_state axis = (if axis = ''manual_close'' then ''reopened'' else ''retracted'')"

definition cascade_axes :: "(string \<Rightarrow> json) \<Rightarrow> string list" where
  "cascade_axes st = ''manual_close'' # filter (\<lambda>axis. st axis = JStr (ASSERTED_TO_STATE axis)) RETRACTABLE_AXES"

definition direct_payload :: "string \<Rightarrow> string \<Rightarrow> string \<Rightarrow> dict \<Rightarrow> bool" where
  "direct_payload item axis to_state p = (is_payload p \<and> dget p ''item_id'' = JStr item \<and>
     dget p ''axis'' = JStr axis \<and> dget p ''to_state'' = JStr to_state \<and>
     dget p ''tier'' = JStr ''direct'' \<and> dget p ''source_observation_id'' = JNull)"

definition direct_event :: "string \<Rightarrow> string \<Rightarrow> string \<Rightarrow> dict \<Rightarrow> bool" where
  "direct_event item axis to_state a = (\<not> is_snapshot a \<and> dget a ''item_id'' = JStr item \<and>
     dget a ''axis'' = JStr axis \<and> dget a ''to_state'' = JStr to_state \<and>
     list_all (\<lambda>v. as_str v \<noteq> None) (event_key a))"

lemma transition_event_direct:
  "transition_event (JStr item) (JStr axis) (JStr to_state) f actor JNull ''direct'' JNull = Inr p \<Longrightarrow>
     direct_payload item axis to_state p"
  by (auto simp: transition_event_def res_bind_Inr_iff is_payload_def direct_payload_def)

lemma build_reopen_cascade_direct:
  assumes "build_reopen_cascade item st actor = Inr ps"
  shows "list_all2 (\<lambda>axis. direct_payload item axis (cascade_to_state axis)) (cascade_axes st) ps"
proof -
  let ?axes = "filter (\<lambda>axis. st axis = JStr (ASSERTED_TO_STATE axis)) RETRACTABLE_AXES"
  obtain r rs where ps: "ps = r # rs"
    and r: "transition_event (JStr item) (JStr ''manual_close'') (JStr ''reopened'') JNull actor JNull ''direct'' JNull = Inr r"
    and rs: "list_all2 (\<lambda>axis p. retract_payload item actor (st axis) axis = Inr p) ?axes rs"
    using assms by (auto simp: build_reopen_cascade_def res_bind_Inr_iff res_map_Inr_iff)
  have "list_all2 (\<lambda>axis. direct_payload item axis (cascade_to_state axis)) ?axes rs"
  proof (rule list.rel_mono_strong [OF rs])
    fix axis p assume p: "axis \<in> set ?axes" "retract_payload item actor (st axis) axis = Inr p"
    then have "axis \<in> set RETRACTABLE_AXES" by simp
    then have "axis \<noteq> ''manual_close''" by (auto simp: RETRACTABLE_AXES_def)
    then show "direct_payload item axis (cascade_to_state axis) p"
      using p(2) transition_event_direct by (simp add: retract_payload_def cascade_to_state_def)
  qed
  then show ?thesis using transition_event_direct [OF r] by (simp add: ps cascade_axes_def cascade_to_state_def)
qed

lemma stored_direct_event:
  assumes "direct_payload item axis to_state p" and "stored_as env p a"
  shows "direct_event item axis to_state a"
proof -
  obtain j g n c where a: "a = stamp_event (env_slug env) n c (transition_record env j (with_generation g p))"
    using assms(2) by (auto simp: stored_as_def)
  then show ?thesis
    using assms(1)
    by (simp add: direct_event_def direct_payload_def is_payload_def is_snapshot_def record_fields)
      (simp add: event_key_def stamp_event_def transition_record_def null_applied_def NULL_APPLIED_AT_TIERS_def)
qed

lemma reopen_cascade_events:
  assumes "reopen_cascade env item actor s = (Inr es, s')"
  obtains states rs where "fold_axis_states item s = Inr states" and "rs \<noteq> []"
    and "append_events env rs s = (Inr es, s')"
    and "list_all2 (\<lambda>axis. direct_event item axis (cascade_to_state axis)) (cascade_axes (state_of states)) es"
proof -
  obtain states ps where st: "fold_axis_states item s = Inr states"
    and ps: "build_reopen_cascade item (state_of states) actor = Inr ps"
    and em: "emit_batch env ps s = (Inr es, s')"
    using assms by (auto simp: reopen_cascade_def guarded_Inr)
  note direct = build_reopen_cascade_direct [OF ps]
  then have "ps \<noteq> []" by (auto simp: cascade_axes_def)
  moreover have "list_all (\<lambda>p. is_payload p \<and> hashable (dget p ''item_id'') \<and>
      dget p ''source_observation_id'' = JNull) ps"
    using direct by (auto simp: list_all_length list_all2_conv_all_nth direct_payload_def)
  ultimately obtain rs where rs: "rs \<noteq> []" "append_events env rs s = (Inr es, s')"
    "list_all2 (stored_as env) ps es"
    using emit_batch_direct [OF em] by blast
  have "list_all2 (\<lambda>axis. direct_event item axis (cascade_to_state axis)) (cascade_axes (state_of states)) es"
    by (rule list_all2_trans [OF _ direct rs(3)]) (rule stored_direct_event)
  with st rs that show ?thesis by blast
qed

section \<open>The fold after a cascade\<close>

lemma fold_axes_Inr:
  "fold_axes item evs axes = Inr st \<Longrightarrow> axis \<in> set axes \<Longrightarrow>
     fold_one_axis (axis_events item axis evs) = Inr (state_of st axis)"
  by (induction axes arbitrary: st) (auto simp: res_bind_Inr_iff state_of_def)

lemma fold_axes_total:
  "\<forall>axis \<in> set axes. fold_one_axis (axis_events item axis evs) = Inr (g axis) \<Longrightarrow>
     \<exists>st. fold_axes item evs axes = Inr st \<and> (\<forall>axis \<in> set axes. state_of st axis = g axis)"
  by (induction axes) (auto simp: state_of_def)

text \<open>The events of a batch with one event per axis that touch a given axis.\<close>

lemma axis_events_batch:
  assumes "list_all2 (\<lambda>axis. direct_event item axis (to_state axis)) axes es" and "distinct axes"
  shows "if axis \<in> set axes
    then \<exists>a \<in> set es. axis_events item axis es = [a] \<and> direct_event item axis (to_state axis) a
    else axis_events item axis es = []"
  using assms by (induction rule: list_all2_induct) (auto simp: axis_events_def direct_event_def)

definition after_all :: "dict list \<Rightarrow> dict \<Rightarrow> bool" where
  "after_all evs a = list_all (\<lambda>x. applied_str x < applied_str a \<and> event_id x \<noteq> event_id a \<and>
     (is_snapshot x \<longrightarrow> (case dget x ''as_of_applied_at'' of JStr t \<Rightarrow> t < applied_str a | _ \<Rightarrow> False) \<and>
        (case as_id_set (dget x ''folded_event_ids'') of Inr ids \<Rightarrow> event_id a \<notin> set ids | Inl _ \<Rightarrow> True))) evs"

lemma fold_one_axis_direct:
  assumes "fold_one_axis xs = Inr st" and "list_all (\<lambda>e. list_all (\<lambda>v. as_str v \<noteq> None) (event_key e)) xs"
    and "after_all xs a" and "direct_event item axis to_state a"
  shows "fold_one_axis (xs @ [a]) = Inr (JStr to_state)"
proof -
  obtain t o1 i where a: "dget a ''applied_at'' = JStr t" "dget a ''observed_at'' = JStr o1" "event_id a = JStr i"
    using assms(4) by (auto simp: direct_event_def event_key_def event_id_def as_str_not_None)
  then have key: "axis_sort_key a = [JStr t, or_empty (JStr o1), or_empty (JStr i), JInt 1]"
    using assms(4) by (simp add: axis_sort_key_def direct_event_def event_id_def)
  have before: "\<exists>u ks. axis_sort_key x = JStr u # ks \<and> u < t" if "x \<in> set xs" for x
  proof -
    have x: "applied_str x < applied_str a" "list_all (\<lambda>v. as_str v \<noteq> None) (event_key x)"
      "is_snapshot x \<longrightarrow> (case dget x ''as_of_applied_at'' of JStr t \<Rightarrow> t < applied_str a | _ \<Rightarrow> False)"
      using that assms(2,3) by (auto simp: after_all_def list_all_iff)
    then show ?thesis using a(1)
      by (auto simp: axis_sort_key_def event_key_def applied_str_def as_str_not_None split: json.splits)
  qed
  have ord: "all_orderable axis_sort_key xs"
    using assms(1) by (auto simp: fold_one_axis_def py_sort_by_def res_bind_Inr_iff split: if_splits)
  have "all_orderable axis_sort_key (xs @ [a])"
    using ord before key unfolding all_orderable_def
    by (auto simp: or_empty_def) (metis order_less_irrefl json.inject(3) orderable.simps(1) py_eq_JStr(1) tuple_orderable.simps(1))+
  moreover have "\<forall>x \<in> set xs. axis_key x < axis_key a"
    using before key by fastforce
  ultimately have "fold_one_axis (xs @ [a]) = Inr (dget a ''to_state'')"
    using assms(3,4) a(3)
    by (intro fold_one_axis_last [OF assms(1)])
      (auto simp: direct_event_def after_all_def list_all_iff split: sum.splits)
  then show ?thesis using assms(4) by (simp add: direct_event_def)
qed

lemma after_all_axis: "after_all evs a \<Longrightarrow> after_all (axis_events item axis evs) a"
  by (simp add: after_all_def axis_events_def list_all_iff)

lemma cascade_axis_state:
  assumes "list_all2 (\<lambda>axis. direct_event item axis (cascade_to_state axis)) axes es" and "distinct axes"
    and "list_all (after_all evs) es" and "list_all (\<lambda>e. list_all (\<lambda>v. as_str v \<noteq> None) (event_key e)) evs"
    and "fold_one_axis (axis_events item axis evs) = Inr st"
  shows "fold_one_axis (axis_events item axis (evs @ sort_key f es)) =
    Inr (if axis \<in> set axes then JStr (cascade_to_state axis) else st)"
proof -
  have split: "axis_events item axis (evs @ sort_key f es) =
      axis_events item axis evs @ sort_key f (axis_events item axis es)"
    by (simp add: axis_events_def filter_sort)
  show ?thesis
  proof (cases "axis \<in> set axes")
    case True
    then obtain a where a: "a \<in> set es" "axis_events item axis es = [a]"
      "direct_event item axis (cascade_to_state axis) a"
      using axis_events_batch [OF assms(1,2), of axis] by auto
    have "after_all (axis_events item axis evs) a"
      using a(1) assms(3) by (simp add: after_all_axis list_all_iff)
    moreover have "list_all (\<lambda>e. list_all (\<lambda>v. as_str v \<noteq> None) (event_key e)) (axis_events item axis evs)"
      using assms(4) unfolding axis_events_def list_all_iff by auto
    ultimately show ?thesis
      using True fold_one_axis_direct [OF assms(5) _ _ a(3)] by (simp add: split a(2))
  next
    case False
    then have "axis_events item axis es = []" using axis_events_batch [OF assms(1,2), of axis] by simp
    then show ?thesis using False assms(5) by (simp add: split)
  qed
qed

lemma cascade_read:
  assumes "append_events env rs s = (Inr es, s')" and "rs \<noteq> []" and "log_ok s evs"
    and "list_all2 (\<lambda>axis. direct_event item axis (to_state axis)) axes es"
    and "list_all (after_all evs) es" and "distinct (map event_id es)"
  shows "read_events s' = Inr (evs @ sort_key sort_id es)"
proof (rule read_events_batch [OF assms(1-3)])
  have ev: "\<exists>axis. direct_event item axis (to_state axis) a" if "a \<in> set es" for a
    using assms(4) that by (auto simp: list_all2_conv_all_nth in_set_conv_nth)
  then have str: "list_all (\<lambda>v. as_str v \<noteq> None) (event_key a)" if "a \<in> set es" for a
    using that by (auto simp: direct_event_def)
  then show "list_all (\<lambda>e. list_all (\<lambda>v. as_str v \<noteq> None) (event_key e)) es" by (simp add: list_all_iff)
  show "list_all is_applied es" using str by (force simp: list_all_iff event_key_def is_applied_def)
  have new: "event_id x \<noteq> event_id a" "applied_str x < applied_str a" if "x \<in> set evs" "a \<in> set es" for x a
    using assms(5) that by (auto simp: after_all_def list_all_iff)
  show "ids_name_events (evs @ es)"
    using assms(3) new(1) str assms(6) unfolding log_ok_def ids_name_events_def
    by (auto simp: event_key_def event_id_def distinct_map inj_on_def) metis+
  show "\<forall>x \<in> set evs. \<forall>e \<in> set es. sort_id x < sort_id e"
  proof (intro ballI)
    fix x a assume xa: "x \<in> set evs" "a \<in> set es"
    then have "list_all (\<lambda>v. as_str v \<noteq> None) (event_key x)"
      using assms(3) by (simp add: log_ok_def list_all_iff)
    then show "sort_id x < sort_id a"
      using new(2) [OF xa] str [OF xa(2)] by (auto simp: event_key_def applied_str_def as_str_not_None)
  qed
qed

text \<open>C10. Reopening works: when the cascade succeeds, with a clock ahead of the log and ids not used
  before, the item renders open afterwards. The manual axis is reopened, and neither of the derived
  axes is left at its asserting state, so no closing condition of the status survives.\<close>

theorem reopen_cascade_opens:
  assumes "reopen_cascade env item actor s = (Inr es, s')" and "log_ok s evs"
    and "list_all (after_all evs) es" and "distinct (map event_id es)"
  shows "render_status item s' = Inr ''open'' \<and>
    current_state item ''manual_close'' s' = Inr (JStr ''reopened'') \<and>
    current_state item ''code_complete'' s' \<noteq> Inr (JStr ''asserted'') \<and>
    current_state item ''qa_verified'' s' \<noteq> Inr (JStr ''verified'')"
proof -
  obtain states rs where st: "fold_axis_states item s = Inr states" and rs: "rs \<noteq> []"
    "append_events env rs s = (Inr es, s')"
    and es: "list_all2 (\<lambda>axis. direct_event item axis (cascade_to_state axis)) (cascade_axes (state_of states)) es"
    using assms(1) by (rule reopen_cascade_events)
  let ?axes = "cascade_axes (state_of states)" and ?evs' = "evs @ sort_key sort_id es"
  let ?g = "\<lambda>axis. if axis \<in> set ?axes then JStr (cascade_to_state axis) else state_of states axis"
  have read: "read_events s' = Inr ?evs'" by (rule cascade_read [OF rs(2,1) assms(2) es assms(3,4)])
  have old: "fold_axes item evs AXES = Inr states"
    and hash: "\<not> list_ex (\<lambda>e. dget e ''item_id'' = JStr item \<and> \<not> hashable (dget e ''axis'')) evs"
    using st assms(2) by (auto simp: fold_axis_states_def log_ok_def split: if_splits)
  have "distinct ?axes" by (simp add: cascade_axes_def RETRACTABLE_AXES_def)
  moreover have "list_all (\<lambda>e. list_all (\<lambda>v. as_str v \<noteq> None) (event_key e)) evs"
    using assms(2) unfolding log_ok_def by blast
  ultimately have "fold_one_axis (axis_events item axis ?evs') = Inr (?g axis)" if "axis \<in> set AXES" for axis
    using cascade_axis_state [OF es _ assms(3) _ fold_axes_Inr [OF old that]] by blast
  then obtain st' where st': "fold_axes item ?evs' AXES = Inr st'" "\<forall>axis \<in> set AXES. state_of st' axis = ?g axis"
    using fold_axes_total [of AXES item ?evs' ?g] by blast
  have "\<forall>a \<in> set es. hashable (dget a ''axis'')"
    using es by (auto simp: list_all2_conv_all_nth in_set_conv_nth direct_event_def)
  then have "fold_axis_states item s' = Inr st'"
    using read st'(1) hash by (auto simp: fold_axis_states_def list_ex_iff)
  moreover have "state_of st' ''manual_close'' = JStr ''reopened''"
    "state_of st' ''code_complete'' \<noteq> JStr ''asserted''" "state_of st' ''qa_verified'' \<noteq> JStr ''verified''"
    using st'(2) by (auto simp: AXES_def cascade_axes_def RETRACTABLE_AXES_def ASSERTED_TO_STATE_def
        cascade_to_state_def)
  ultimately show ?thesis by (simp add: render_status_def current_state_def status_of_def)
qed

section \<open>Worked examples\<close>

definition ex_later :: env where
  "ex_later = ex_env\<lparr>env_stamp := (\<lambda>_. ''2026-08-03T10:00:00''), env_nonce := (\<lambda>n. replicate (Suc n) CHR ''x''),
     env_sha := (\<lambda>v. take 12 (rev (flat_json v)))\<rparr>"

definition ex_done :: store where
  "ex_done = snd (emit_transition ex_env ''itm'' ''code_complete'' ''asserted'' JNull ''eve'' JNull ''direct'' None
     (snd (emit_transition ex_env ''itm'' ''manual_close'' ''closed'' JNull ''eve'' JNull ''direct'' None
       empty_store)))"

definition ex_done_events :: "dict list" where
  "ex_done_events = (case read_events ex_done of Inr es \<Rightarrow> es | Inl _ \<Rightarrow> [])"

lemma ex_done_log: "log_ok ex_done ex_done_events"
proof -
  have "store_wf ex_done" "ids_name_events ex_done_events"
    "list_all (\<lambda>e. list_all (\<lambda>v. as_str v \<noteq> None) (event_key e)) ex_done_events" by code_simp+
  moreover have "case read_events ex_done of Inr _ \<Rightarrow> True | Inl _ \<Rightarrow> False" by code_simp
  then have "read_events ex_done = Inr ex_done_events"
    unfolding ex_done_events_def by (auto split: sum.splits)
  ultimately show ?thesis by (simp add: log_ok_def)
qed

theorem reopen_cascade_opens_witness:
  "render_status ''itm'' ex_done = Inr ''closed'' \<and>
   render_status ''itm'' (snd (reopen_cascade ex_later ''itm'' ''eve'' ex_done)) = Inr ''open''"
proof
  show "render_status ''itm'' ex_done = Inr ''closed''" by code_simp
  let ?r = "reopen_cascade ex_later ''itm'' ''eve'' ex_done"
  have ok: "case fst ?r of Inr es \<Rightarrow> list_all (after_all ex_done_events) es \<and> distinct (map event_id es)
      | Inl _ \<Rightarrow> False" by code_simp
  then obtain es where es: "?r = (Inr es, snd ?r)" by (cases ?r) (auto split: sum.splits)
  then have "fst ?r = Inr es" by (metis fst_conv)
  with ok have "list_all (after_all ex_done_events) es" "distinct (map event_id es)" by auto
  with reopen_cascade_opens [OF es ex_done_log] show "render_status ''itm'' (snd ?r) = Inr ''open''" by blast
qed

end
