(* ===== verification/Tracker_Policy.thy ===== *)
theory Tracker_Policy
  imports Tracker_Cascade
begin

text \<open>
  The completion-axis tier policy (\<open>coordinator_core/tracker_completion_policy.py\<close>): the
  classification of evidence into the tiers \<open>auto\<close> and \<open>suggest\<close>, the retract payload of a
  verified revert and the emit seam of assertions, with the two halves of its contract: evidence
  that is not verified is never applied, and verified evidence asserts the axis.
\<close>

section \<open>Evidence and tiers\<close>

definition CLOSURE_FIDELITY_DEGRADES_TO_SUGGEST :: "string list" where
  "CLOSURE_FIDELITY_DEGRADES_TO_SUGGEST = [''verify-with-effort'', ''human-attested'']"

record code_complete_evidence =
  sha :: string
  trailer_bound :: bool
  reachable_on_default_branch :: "bool option"

definition classify_code_complete_tier :: "code_complete_evidence \<Rightarrow> string \<Rightarrow> string" where
  "classify_code_complete_tier evidence closure_fidelity =
     (if closure_fidelity \<in> set CLOSURE_FIDELITY_DEGRADES_TO_SUGGEST then ''suggest''
      else if trailer_bound evidence \<and> reachable_on_default_branch evidence = Some True then ''auto''
      else ''suggest'')"

text \<open>The confidence is a float that nothing reads; its type is left open.\<close>

record 'f qa_verified_evidence =
  qa_source :: string
  qa_confidence :: "'f option"

definition classify_qa_verified :: "'f qa_verified_evidence \<Rightarrow> string" where
  "classify_qa_verified evidence = ''suggest''"

section \<open>Retracts and asserts\<close>

definition sha_evidence :: "code_complete_evidence \<Rightarrow> json" where
  "sha_evidence evidence = JObj (fmap_of_list [(''sha'', JStr (sha evidence))])"

definition detect_symmetric_retract ::
  "string \<Rightarrow> code_complete_evidence \<Rightarrow> string \<Rightarrow> string \<Rightarrow> string \<Rightarrow> dict option res" where
  "detect_symmetric_retract item_id revert_evidence actor source_observation_id closure_fidelity =
     (if classify_code_complete_tier revert_evidence closure_fidelity \<noteq> ''auto'' then Inr None
      else res_bind (transition_event (JStr item_id) (JStr ''code_complete'') (JStr ''retracted'')
             (JStr ''asserted'') actor (sha_evidence revert_evidence) ''auto'' (JStr source_observation_id))
           (\<lambda>payload. Inr (Some payload)))"

definition emit_code_complete_assert ::
  "env \<Rightarrow> string \<Rightarrow> code_complete_evidence \<Rightarrow> string \<Rightarrow> string option \<Rightarrow> string \<Rightarrow> dict op" where
  "emit_code_complete_assert env item_id evidence actor source_observation_id closure_fidelity =
     emit_transition env item_id ''code_complete'' ''asserted'' JNull actor (sha_evidence evidence)
       (classify_code_complete_tier evidence closure_fidelity) source_observation_id"

section \<open>What a reader sees\<close>

text \<open>An event that is not applied leaves the reading of the log as it was.\<close>

lemma read_events_unapplied:
  assumes "append_event env ev key s = (Inr e, s')" and "s' \<noteq> s" and "log_ok s evs" and "\<not> is_applied e"
  shows "read_events s' = Inr evs"
proof -
  obtain rs where rs: "store_lines s = image_mset (\<lambda>d. Line (JObj d)) (mset rs)"
    and evs: "mset (filter is_applied rs) = mset evs"
    using assms(3) by (rule log_ok_records)
  have log: "store_wf s" "ids_name_events evs"
    "list_all (\<lambda>e. list_all (\<lambda>v. as_str v \<noteq> None) (event_key e)) evs" "sorted (map sort_id evs)"
    using assms(3) read_events_sorted unfolding log_ok_def by blast+
  have set: "set (filter is_applied rs) = set evs" using evs by (rule mset_eq_setD)
  have new: "store_lines s' = image_mset (\<lambda>d. Line (JObj d)) (mset (e # rs))" "dir_exists s'"
    using store_lines_append [OF assms(1,2) log(1)] rs by simp_all
  have app: "filter is_applied (e # rs) = filter is_applied rs" using assms(4) by simp
  have "read_events s' = Inr (sort_key sort_id (filter is_applied rs))"
  proof (rule read_events_records [OF new(2,1), unfolded app])
    show "list_all (\<lambda>e. list_all (\<lambda>v. as_str v \<noteq> None) (event_key e)) (filter is_applied rs)"
      using log(3) unfolding list_all_iff set .
    show "ids_name_events (filter is_applied rs)" using log(2) unfolding ids_name_events_def set .
  qed
  also have "sort_key sort_id (filter is_applied rs) = sort_key sort_id evs"
    using evs set inj_on_sort_id [OF log(2)] by (intro sort_key_mset_eq) simp_all
  also have "\<dots> = evs" using log(4) by (rule sort_key_id_if_sorted)
  finally show ?thesis .
qed

text \<open>A single applied transition that sorts last decides its axis.\<close>

lemma read_events_after_all:
  assumes "append_event env ev None s = (Inr e, s')" and "s' \<noteq> s" and "log_ok s evs"
    and "list_all (\<lambda>v. as_str v \<noteq> None) (event_key e)" and "after_all evs e"
  shows "read_events s' = Inr (evs @ [e])"
proof -
  have "sort_id x < sort_id e" if "x \<in> set evs" for x
  proof -
    have "list_all (\<lambda>v. as_str v \<noteq> None) (event_key x)" "applied_str x < applied_str e"
      using assms(3,5) that by (auto simp: log_ok_def after_all_def list_all_iff)
    then show ?thesis using assms(4) by (auto simp: event_key_def applied_str_def as_str_not_None)
  qed
  then have "insort_key sort_id e evs = evs @ [e]" by (simp add: insort_key_last)
  moreover have "is_applied e" "event_id e \<notin> event_id ` set evs"
    using assms(4,5) by (auto simp: event_key_def is_applied_def after_all_def list_all_iff)
  ultimately show ?thesis using read_events_append [OF assms(1-3)] assms(4) by simp
qed

lemma current_state_after:
  assumes "read_events s = Inr evs" and "read_events s' = Inr (evs @ [e])"
    and "list_all (\<lambda>e. list_all (\<lambda>v. as_str v \<noteq> None) (event_key e)) evs"
    and "fold_axis_states item s = Inr states" and "axis \<in> set AXES"
    and "after_all evs e" and "direct_event item axis to_state e"
  shows "current_state item axis s' = Inr (JStr to_state)"
proof -
  have old: "fold_axes item evs AXES = Inr states"
    and hash: "\<not> list_ex (\<lambda>e. dget e ''item_id'' = JStr item \<and> \<not> hashable (dget e ''axis'')) (evs @ [e])"
    using assms(1,4,7) by (auto simp: fold_axis_states_def direct_event_def split: if_splits)
  let ?g = "\<lambda>a. if a = axis then JStr to_state else state_of states a"
  have "fold_one_axis (axis_events item a (evs @ [e])) = Inr (?g a)" if a: "a \<in> set AXES" for a
  proof (cases "a = axis")
    case True
    have "list_all (\<lambda>e. list_all (\<lambda>v. as_str v \<noteq> None) (event_key e)) (axis_events item axis evs)"
      using assms(3) unfolding axis_events_def list_all_iff by auto
    then have "fold_one_axis (axis_events item axis evs @ [e]) = Inr (JStr to_state)"
      using fold_one_axis_direct [OF fold_axes_Inr [OF old assms(5)] _ after_all_axis [OF assms(6)] assms(7)] by blast
    then show ?thesis using True assms(7) by (simp add: axis_events_def direct_event_def)
  next
    case False
    then show ?thesis using fold_axes_Inr [OF old a] assms(7) by (simp add: axis_events_def direct_event_def)
  qed
  then obtain st where "fold_axes item (evs @ [e]) AXES = Inr st" "\<forall>a \<in> set AXES. state_of st a = ?g a"
    using fold_axes_total [of AXES item "evs @ [e]" ?g] by blast
  then show ?thesis using assms(2,5) hash by (simp add: current_state_def fold_axis_states_def)
qed

section \<open>The contract of the policy\<close>

definition verified :: "code_complete_evidence \<Rightarrow> string \<Rightarrow> bool" where
  "verified evidence closure_fidelity =
     (trailer_bound evidence \<and> reachable_on_default_branch evidence = Some True \<and>
      closure_fidelity \<notin> {''verify-with-effort'', ''human-attested''})"

lemma tier_verified: "classify_code_complete_tier ev cf = (if verified ev cf then ''auto'' else ''suggest'')"
  by (simp add: classify_code_complete_tier_def verified_def CLOSURE_FIDELITY_DEGRADES_TO_SUGGEST_def)

definition assert_payload :: "string \<Rightarrow> code_complete_evidence \<Rightarrow> string \<Rightarrow> string option \<Rightarrow> string \<Rightarrow> dict" where
  "assert_payload item ev actor src cf =
     fmap_of_list [(''item_id'', JStr item), (''axis'', JStr ''code_complete''), (''from_state'', JNull),
       (''to_state'', JStr ''asserted''), (''actor'', JStr actor), (''evidence'', sha_evidence ev),
       (''tier'', JStr (classify_code_complete_tier ev cf)), (''source_observation_id'', opt_str src)]"

lemma emit_code_complete_assert_eq:
  "emit_code_complete_assert env item ev actor src cf = transition_emit env (assert_payload item ev actor src cf)"
proof -
  have "transition_event (JStr item) (JStr ''code_complete'') (JStr ''asserted'') JNull actor (sha_evidence ev)
      (classify_code_complete_tier ev cf) (opt_str src) = Inr (assert_payload item ev actor src cf)"
    by (auto simp: transition_event_def reject_invalid_axis_def reject_invalid_tier_def TRANSITION_AXES_def
        TRANSITION_TIERS_def tier_verified sha_evidence_def assert_payload_def)
  then show ?thesis by (simp add: fun_eq_iff emit_code_complete_assert_def emit_transition_def)
qed

lemma transition_emit_err: "transition_emit env p s = (Inl x, s') \<Longrightarrow> s' = s"
  by (auto simp: transition_emit_def guarded_def raising_def Let_def
      split: sum.splits if_splits option.splits dest: shard_log.app_err)

lemma assert_payload_facts:
  "is_payload (assert_payload item ev actor src cf)"
  "dget (assert_payload item ev actor src cf) ''tier'' = JStr (classify_code_complete_tier ev cf)"
  by (simp_all add: is_payload_def assert_payload_def)

text \<open>An observation whose tier is not \<open>auto\<close> is stored without an applied stamp, so no reading changes.\<close>

lemma unverified_quiet:
  assumes "emit_code_complete_assert env item ev actor src cf s = (r, s')" and "log_ok s evs"
    and "\<not> verified ev cf"
  shows "read_events s' = read_events s"
proof (cases "s' = s")
  case False
  note em = assms(1) [unfolded emit_code_complete_assert_eq]
  obtain e where "r = Inr e" using em False by (cases r) (auto dest: transition_emit_err)
  with em have "transition_emit env (assert_payload item ev actor src cf) s = (Inr e, s')" by simp
  from this assert_payload_facts(1) show ?thesis
  proof (cases rule: transition_emit_cases)
    case (appended es n c)
    have "\<not> is_applied e"
      by (simp add: appended(5) is_applied_def stamp_event_def transition_record_def null_applied_def
          assert_payload_facts(2) tier_verified assms(3) NULL_APPLIED_AT_TIERS_def)
    then have "read_events s' = Inr evs" by (rule read_events_unapplied [OF appended(4,3) assms(2)])
    then show ?thesis using assms(2) by (simp add: log_ok_def)
  qed (use False in auto)
qed simp

lemma status_of_reading: "read_events s' = read_events s \<Longrightarrow> render_status i s' = render_status i s"
  by (simp add: render_status_def fold_axis_states_def)

text \<open>Evidence that is not verified never takes effect: unless the commit carries the item's
  trailer, was checked and found on the default branch (an unchecked branch is not enough), and the
  item is neither verified with effort nor attested by a human, emitting the observation changes
  nothing that any reader sees, neither the event stream nor the status of any item.\<close>

theorem unverified_never_takes_effect:
  assumes "emit_code_complete_assert env item ev actor src cf s = (r, s')" and "log_ok s evs"
    and "\<not> verified ev cf"
  shows "read_events s' = Inr evs \<and> render_status i s' = render_status i s"
  using unverified_quiet [OF assms] status_of_reading [of s' s i] assms(2) by (simp add: log_ok_def)

text \<open>Verified evidence takes effect: when its observation is stored by a clock ahead of the log,
  under an id that is new, the item's \<open>code_complete\<close> axis reads asserted.\<close>

theorem verified_asserts:
  assumes "emit_code_complete_assert env item ev actor src cf s = (Inr e, s')" and "s' \<noteq> s"
    and "log_ok s evs" and "verified ev cf" and "fold_axis_states item s = Inr states" and "after_all evs e"
  shows "current_state item ''code_complete'' s' = Inr (JStr ''asserted'')"
  using assms(1) [unfolded emit_code_complete_assert_eq] assert_payload_facts(1)
proof (cases rule: transition_emit_cases)
  case (appended es n c)
  have "direct_event item ''code_complete'' ''asserted'' e"
    unfolding appended(5) direct_event_def is_snapshot_def
    by (simp add: record_fields)
      (simp add: event_key_def stamp_event_def transition_record_def null_applied_def assert_payload_def
        tier_verified assms(4) NULL_APPLIED_AT_TIERS_def)
  then have ev: "direct_event item ''code_complete'' ''asserted'' e"
    "list_all (\<lambda>v. as_str v \<noteq> None) (event_key e)" unfolding direct_event_def by blast+
  have "list_all (\<lambda>e. list_all (\<lambda>v. as_str v \<noteq> None) (event_key e)) evs" "read_events s = Inr evs"
    using assms(3) unfolding log_ok_def by blast+
  then show ?thesis
    using current_state_after [OF _ read_events_after_all [OF appended(4,3) assms(3) ev(2) assms(6)] _ assms(5) _ assms(6) ev(1)]
    by (simp add: AXES_def)
qed (use assms(2) in auto)

text \<open>A revert and its undoing are told apart: a verified revert is detected as a retract of the
  item, and once that retract is stored, observing the original completion again (whatever its
  evidence) is not mistaken for the assertion before the revert but appended as a new event.\<close>

theorem revert_then_reassert:
  assumes "detect_symmetric_retract item rvt actor obs cf = Inr (Some p)"
    and "transition_emit env p s = (Inr e, s')" and "s' \<noteq> s" and "store_wf s"
    and "read_events_for_dedup_scan s = Inr evs" and "generations_bounded evs"
  shows "verified rvt cf \<and> (\<exists>evs'. read_events_for_dedup_scan s' = Inr evs' \<and> generations_bounded evs' \<and>
    emit_code_complete_assert env' item ev actor' (Some obs') cf' s' =
      append_event env' (transition_record env' 0 (stamped_payload (assert_payload item ev actor' (Some obs') cf') evs'))
        None s')"
proof -
  have ver: "verified rvt cf"
    using assms(1) by (auto simp: detect_symmetric_retract_def tier_verified split: if_splits)
  then have p: "transition_event (JStr item) (JStr ''code_complete'') (JStr ''retracted'') (JStr ''asserted'')
      actor (sha_evidence rvt) ''auto'' (JStr obs) = Inr p"
    using assms(1) by (auto simp: detect_symmetric_retract_def tier_verified res_bind_Inr_iff)
  let ?q = "assert_payload item ev actor' (Some obs') cf'"
  have q: "is_assert ?q" "dget ?q ''source_observation_id'' \<noteq> JNull" "dget ?q ''item_id'' = JStr item"
    by (simp_all add: is_assert_def assert_payload_def)
  have "is_retract_of (dget ?q ''item_id'') p"
    using p q(3) by (auto simp: transition_event_def res_bind_Inr_iff is_retract_of_def)
  then show ?thesis
    using ver reassert_after_retract_stored [OF assms(2-6) transition_event_payload [OF p] _ assert_payload_facts(1) q(1,2)]
    unfolding emit_code_complete_assert_eq by blast
qed

section \<open>Worked examples\<close>

definition ex_evidence :: "bool option \<Rightarrow> code_complete_evidence" where
  "ex_evidence reachable = \<lparr>sha = ''c0ffee'', trailer_bound = True, reachable_on_default_branch = reachable\<rparr>"

theorem unverified_never_takes_effect_witness:
  "let s' = snd (emit_code_complete_assert ex_later ''itm'' (ex_evidence None) ''eve'' None ''auto-observable'' ex_done)
   in s' \<noteq> ex_done \<and> read_events s' = Inr ex_done_events"
proof -
  let ?r = "emit_code_complete_assert ex_later ''itm'' (ex_evidence None) ''eve'' None ''auto-observable'' ex_done"
  have "snd ?r \<noteq> ex_done" "\<not> verified (ex_evidence None) ''auto-observable''" by code_simp+
  moreover have "?r = (fst ?r, snd ?r)" by simp
  ultimately show ?thesis using unverified_never_takes_effect [OF _ ex_done_log] unfolding Let_def by blast
qed

theorem verified_asserts_witness:
  "current_state ''itm'' ''code_complete'' (snd (emit_code_complete_assert ex_later ''itm''
     (ex_evidence (Some True)) ''eve'' None ''auto-observable'' ex_done)) = Inr (JStr ''asserted'')"
proof -
  let ?r = "emit_code_complete_assert ex_later ''itm'' (ex_evidence (Some True)) ''eve'' None ''auto-observable'' ex_done"
  have ok: "case fst ?r of Inr e \<Rightarrow> after_all ex_done_events e | Inl _ \<Rightarrow> False" by code_simp
  then obtain e where e: "?r = (Inr e, snd ?r)" using emit_outcome [of ?r] by (auto split: sum.splits)
  then have "fst ?r = Inr e" by (metis fst_conv)
  with ok have "after_all ex_done_events e" by simp
  moreover have "snd ?r \<noteq> ex_done" "verified (ex_evidence (Some True)) ''auto-observable''" by code_simp+
  moreover have "case fold_axis_states ''itm'' ex_done of Inr _ \<Rightarrow> True | Inl _ \<Rightarrow> False" by code_simp
  then obtain st where "fold_axis_states ''itm'' ex_done = Inr st" by (auto split: sum.splits)
  ultimately show ?thesis using verified_asserts [OF e _ ex_done_log] by blast
qed

theorem revert_then_reassert_witness:
  "\<exists>evs' s'. read_events_for_dedup_scan s' = Inr evs' \<and>
     emit_code_complete_assert ex_env ''itm'' (ex_evidence (Some True)) ''eve'' (Some ''obs-1'') ''auto-observable'' s' =
       append_event ex_env (transition_record ex_env 0 (stamped_payload
         (assert_payload ''itm'' (ex_evidence (Some True)) ''eve'' (Some ''obs-1'') ''auto-observable'') evs')) None s'"
proof -
  let ?d = "detect_symmetric_retract ''itm'' (ex_evidence (Some True)) ''eve'' ''obs-2'' ''auto-observable''"
  let ?p = "case ?d of Inr (Some p) \<Rightarrow> p | _ \<Rightarrow> fmempty"
  have d: "?d = Inr (Some ?p)" by code_simp
  let ?r = "transition_emit ex_env ?p ex_asserted"
  have "case fst ?r of Inr e \<Rightarrow> True | Inl _ \<Rightarrow> False" by code_simp
  then obtain e where r: "?r = (Inr e, snd ?r)" using emit_outcome by blast
  have ne: "snd ?r \<noteq> ex_asserted" by code_simp
  have "case read_events_for_dedup_scan ex_asserted of Inr evs \<Rightarrow> generations_bounded evs | Inl _ \<Rightarrow> False"
    by code_simp
  then obtain evs where evs: "read_events_for_dedup_scan ex_asserted = Inr evs" "generations_bounded evs"
    by (auto split: sum.splits)
  show ?thesis using revert_then_reassert [OF d r ne ex_payloads(5) evs] by blast
qed

end
