(* ===== verification/Tracker_Reconcile.thy ===== *)
theory Tracker_Reconcile
  imports Tracker_Policy
begin

text \<open>
  The local reconcile pass (\<open>coordinator_core/tracker_reconcile.py\<close>): every queued candidate of the
  own shard that is not withdrawn gets an applied twin, appended under an id derived from the
  candidate's. The pass touches the own shard only and a second pass appends nothing.

  \<open>envs k\<close> is the environment of the \<open>k\<close>-th append of the pass.
\<close>

section \<open>Candidates and twins\<close>

definition mint_apply_twin_id :: "env \<Rightarrow> json \<Rightarrow> string" where
  "mint_apply_twin_id env applied_from =
     ''evt-'' @ env_slug env @ ''-apply-'' @ take 12 (env_sha env (JList [JStr ''apply'', applied_from]))"

definition read_own_shard_raw :: "env \<Rightarrow> store \<Rightarrow> dict list" where
  "read_own_shard_raw env s = obj_records (live_lines s (env_slug env))"

definition is_reconcile_candidate :: "dict \<Rightarrow> bool res" where
  "is_reconcile_candidate record =
     (if dget record ''kind'' \<noteq> JNull then Inr False
      else if \<not> hashable (dget record ''tier'') then Inl TypeErr
      else if dget record ''tier'' \<notin> JStr ` set NULL_APPLIED_AT_TIERS then Inr False
      else if dget record ''applied_at'' \<noteq> JNull then Inr False
      else Inr True)"

definition build_apply_twin_event :: "env \<Rightarrow> dict \<Rightarrow> string \<Rightarrow> dict res" where
  "build_apply_twin_event env queued actor =
     (if \<not> has_key queued ''item_id'' then Inl (KeyErr ''item_id'')
      else if \<not> has_key queued ''axis'' then Inl (KeyErr ''axis'')
      else if \<not> has_key queued ''to_state'' then Inl (KeyErr ''to_state'')
      else res_bind (transition_event (dget queued ''item_id'') (dget queued ''axis'')
             (dget queued ''to_state'') (dget queued ''from_state'') actor (dget queued ''evidence'')
             ''direct'' (dget queued ''source_observation_id'')) (\<lambda>payload.
        if \<not> has_key queued ''id'' then Inl (KeyErr ''id'')
        else Inr (fmupd ''id'' (JStr (mint_apply_twin_id env (dget queued ''id'')))
               (fmupd ''applied_from'' (dget queued ''id'')
                 (fmupd ''generation'' (dget_or queued ''generation'' (JInt 0))
                   (fmupd ''schema_version'' (JInt 1)
                     (fmupd ''applied_at'' (JStr (env_stamp env 0))
                       (fmupd ''observed_at'' (JStr (env_stamp env 0)) payload))))))))"

definition withdrawals :: "dict list \<Rightarrow> json list" where
  "withdrawals records = map (\<lambda>r. dget r ''withdraws'') (filter (\<lambda>r. dget r ''kind'' = JStr ''withdrawal'') records)"

section \<open>The pass\<close>

fun reconcile_loop :: "(nat \<Rightarrow> env) \<Rightarrow> nat \<Rightarrow> string \<Rightarrow> json list \<Rightarrow> dict list \<Rightarrow> dict list op" where
  "reconcile_loop envs k actor withdrawn [] s = (Inr [], s)"
| "reconcile_loop envs k actor withdrawn (record # records) s =
     (case is_reconcile_candidate record of
        Inl e \<Rightarrow> (Inl e, s)
      | Inr False \<Rightarrow> reconcile_loop envs k actor withdrawn records s
      | Inr True \<Rightarrow>
          if \<not> hashable (dget record ''id'') then (Inl TypeErr, s)
          else if py_norm (dget record ''id'') \<in> set withdrawn
          then reconcile_loop envs k actor withdrawn records s
          else (case build_apply_twin_event (envs k) record actor of
                  Inl e \<Rightarrow> (Inl e, s)
                | Inr twin \<Rightarrow>
                    (case append_event (envs k) twin None s of
                       (Inl (DuplicateIdError _), s') \<Rightarrow>
                         reconcile_loop envs (Suc k) actor withdrawn records s'
                     | (Inl e, s') \<Rightarrow> (Inl e, s')
                     | (Inr appended, s') \<Rightarrow>
                         (case reconcile_loop envs (Suc k) actor withdrawn records s' of
                            (Inl e, s'') \<Rightarrow> (Inl e, s'')
                          | (Inr results, s'') \<Rightarrow> (Inr (appended # results), s'')))))"

definition reconcile :: "(nat \<Rightarrow> env) \<Rightarrow> string \<Rightarrow> dict list op" where
  "reconcile envs actor s =
     (let records = read_own_shard_raw (envs 0) s in
      if list_ex (\<lambda>w. \<not> hashable w) (withdrawals records) then (Inl TypeErr, s)
      else reconcile_loop envs 0 actor (map py_norm (withdrawals records)) records s)"

section \<open>Twins\<close>

definition twin_of :: "dict \<Rightarrow> dict \<Rightarrow> bool" where
  "twin_of c e = (dget e ''applied_from'' = dget c ''id'' \<and> dget e ''item_id'' = dget c ''item_id'' \<and>
     dget e ''axis'' = dget c ''axis'' \<and> dget e ''to_state'' = dget c ''to_state'' \<and>
     dget e ''evidence'' = dget c ''evidence'' \<and> is_applied e)"

lemma build_twin:
  assumes "build_apply_twin_event env c actor = Inr t"
  shows "twin_of c (stamp_event m n k t)" and "event_id t = JStr (mint_apply_twin_id env (dget c ''id''))"
    and "is_reconcile_candidate (stamp_event m n k t) = Inr False"
    and "dget (stamp_event m n k t) ''kind'' = JNull"
  using assms
  by (auto simp: build_apply_twin_event_def transition_event_def res_bind_Inr_iff twin_of_def is_applied_def
      stamp_event_def event_id_def is_reconcile_candidate_def NULL_APPLIED_AT_TIERS_def split: if_splits)

lemma build_twin_again:
  assumes "build_apply_twin_event env c actor = Inr t"
  shows "\<exists>t'. build_apply_twin_event env' c actor' = Inr t' \<and>
    dget t' ''observed_at'' = JStr (env_stamp env' 0) \<and> has_key t' ''observed_at'' \<and> has_key t' ''id''"
  using assms by (auto simp: build_apply_twin_event_def transition_event_def res_bind_Inr_iff split: if_splits)

text \<open>The error that the pass reads as a twin already applied.\<close>

lemma append_duplicate:
  assumes "append_event env ev None s = (Inl (DuplicateIdError i), s')"
  shows "validate_event_fields ev = Inr () \<and> event_id ev \<in> event_id ` set (own_records (env_slug env) s)"
proof -
  have "validate_event_fields ev = Inr () \<and> scan_lines None ev (peer_lines s (env_slug env)) \<noteq> Clear"
    using assms
    by (auto simp: append_event_def locked_rmw_def append_mutate_def peer_lines_eq Let_def
        validate_event_fields_def tail_state_def next_clock_def
        split: sum.splits if_splits scan.splits prod.splits line.splits json.splits option.splits)
  then show ?thesis by (auto simp: scan_lines_Clear_iff event_id_def own_records_def image_iff) metis
qed

lemma append_known:
  assumes "validate_event_fields ev = Inr ()" and "env_lock_ok env"
    and "event_id ev \<in> event_id ` set (own_records (env_slug env) s)"
  shows "append_event env ev None s = (Inl (DuplicateIdError (event_id ev)), s)"
proof -
  have "scan_lines None ev (peer_lines s (env_slug env)) \<noteq> Clear"
    using assms(3) by (auto simp: scan_lines_Clear_iff event_id_def own_records_def)
  then have "scan_lines None ev (peer_lines s (env_slug env)) = Found_dup"
    using scan_lines_no_key by blast
  with assms show ?thesis
    by (simp add: append_event_def locked_rmw_def append_mutate_def peer_lines_eq event_id_def Let_def)
qed

section \<open>One step of the pass\<close>

text \<open>
  A record on which the pass does nothing more: it is no candidate, it is withdrawn, or the id of its twin is
  taken in the own history. What is stored under that id is the subject of \<open>took_effect\<close> below.
\<close>

definition settled :: "string \<Rightarrow> (json \<Rightarrow> string) \<Rightarrow> json list \<Rightarrow> store \<Rightarrow> dict \<Rightarrow> bool" where
  "settled m h withdrawn s c = (is_reconcile_candidate c = Inr False \<or>
     is_reconcile_candidate c = Inr True \<and> hashable (dget c ''id'') \<and>
     (py_norm (dget c ''id'') \<in> set withdrawn \<or>
      (\<exists>env actor t. env_slug env = m \<and> env_sha env = h \<and> build_apply_twin_event env c actor = Inr t \<and>
         validate_event_fields t = Inr () \<and> event_id t \<in> event_id ` set (own_records m s))))"

lemma settled_mono:
  "settled m h w s c \<Longrightarrow> set (own_records m s) \<subseteq> set (own_records m s') \<Longrightarrow> settled m h w s' c"
  unfolding settled_def by (metis (no_types, lifting) image_mono subsetD)

lemma reconcile_loop_Cons [consumes 1, case_names err settled twin]:
  assumes "reconcile_loop envs k actor w (c # cs) s = (r, s')"
  obtains (err) x where "r = Inl x" and "s' = s"
  | (settled) k' where "settled (env_slug (envs k)) (env_sha (envs k)) w s c"
      and "reconcile_loop envs k' actor w cs s = (r, s')"
  | (twin) t a s1 r1 where "is_reconcile_candidate c = Inr True" and "hashable (dget c ''id'')"
      and "py_norm (dget c ''id'') \<notin> set w" and "build_apply_twin_event (envs k) c actor = Inr t"
      and "append_event (envs k) t None s = (Inr a, s1)"
      and "reconcile_loop envs (Suc k) actor w cs s1 = (r1, s')"
      and "r = (case r1 of Inl x \<Rightarrow> Inl x | Inr es \<Rightarrow> Inr (a # es))"
proof (cases "is_reconcile_candidate c")
  case (Inl x)
  then show ?thesis using assms by (auto intro: err)
next
  case (Inr b)
  show ?thesis
  proof (cases "b \<and> hashable (dget c ''id'') \<and> py_norm (dget c ''id'') \<notin> set w")
    case False
    then show ?thesis
      using assms Inr settled [of k] err by (auto simp: settled_def split: bool.splits if_splits)
  next
    case True
    note here = True Inr
    show ?thesis
    proof (cases "build_apply_twin_event (envs k) c actor")
      case (Inl x)
      then show ?thesis using assms here by (auto intro: err)
    next
      case (Inr t)
      obtain q s1 where q: "append_event (envs k) t None s = (q, s1)" by force
      show ?thesis
      proof (cases q)
        case (Inr a)
        then show ?thesis
          using assms here q \<open>build_apply_twin_event (envs k) c actor = Inr t\<close>
            twin [of t a s1 "fst (reconcile_loop envs (Suc k) actor w cs s1)"]
          by (auto split: prod.splits sum.splits)
      next
        case (Inl x)
        then have s1: "s1 = s" using q shard_log.app_err by fastforce
        show ?thesis
        proof (cases "\<exists>i. x = DuplicateIdError i")
          case True
          then obtain i where "append_event (envs k) t None s = (Inl (DuplicateIdError i), s1)"
            using Inl q by blast
          from append_duplicate [OF this]
          have "settled (env_slug (envs k)) (env_sha (envs k)) w s c"
            using here Inr unfolding settled_def by auto
          then show ?thesis
            using True assms here Inr Inl q s1 by (intro settled [of "Suc k"]) auto
        next
          case False
          then have "r = Inl x \<and> s' = s"
            using assms here Inr Inl q s1 by (cases x) auto
          then show ?thesis by (intro err) auto
        qed
      qed
    qed
  qed
qed

lemma append_twin:
  assumes "append_event env t None s = (Inr a, s1)"
  shows "\<exists>n clock. a = stamp_event (env_slug env) n clock t"
    and "live_lines s1 m = (if m = env_slug env then live_lines s m @ [Line (JObj a)] else live_lines s m)"
    and "rotated s1 = rotated s" and "own_records (env_slug env) s1 = own_records (env_slug env) s @ [a]"
    and "validate_event_fields t = Inr ()" and "event_id a = event_id t"
proof -
  have own: "own_records (env_slug env) s1 = own_records (env_slug env) s @ [a]"
    using shard_log.app_ok [OF assms, of "env_slug env"] by simp
  then show "own_records (env_slug env) s1 = own_records (env_slug env) s @ [a]" .
  show "\<exists>n clock. a = stamp_event (env_slug env) n clock t"
    "live_lines s1 m = (if m = env_slug env then live_lines s m @ [Line (JObj a)] else live_lines s m)"
    "rotated s1 = rotated s" "validate_event_fields t = Inr ()" "event_id a = event_id t"
    using assms own by (cases rule: append_event_cases; auto)+
qed

section \<open>The contract of the pass\<close>

text \<open>What a pass may add: applied twins of candidates of the scanned records, none withdrawn.\<close>

definition twins_of :: "dict list \<Rightarrow> json list \<Rightarrow> dict list \<Rightarrow> bool" where
  "twins_of records withdrawn es = list_all (\<lambda>e. is_reconcile_candidate e = Inr False \<and> dget e ''kind'' = JNull \<and>
     list_ex (\<lambda>c. is_reconcile_candidate c = Inr True \<and> py_norm (dget c ''id'') \<notin> set withdrawn \<and> twin_of c e)
       records) es"

definition extends_own :: "string \<Rightarrow> dict list \<Rightarrow> store \<Rightarrow> store \<Rightarrow> bool" where
  "extends_own m es s s' = (live_lines s' m = live_lines s m @ map (\<lambda>e. Line (JObj e)) es \<and>
     (\<forall>m'. m' \<noteq> m \<longrightarrow> live_lines s' m' = live_lines s m') \<and> rotated s' = rotated s)"

lemma extends_own_records: "extends_own m es s s' \<Longrightarrow> own_records m s' = own_records m s @ es"
  using rotated_history_cong [of s' s] by (simp add: extends_own_def own_records_def peer_lines_eq)

lemma twins_of_weaken: "twins_of cs w es \<Longrightarrow> twins_of (c # cs) w es"
  unfolding twins_of_def list_all_iff list_ex_iff by auto

lemma reconcile_eq:
  assumes "env_slug (envs 0) = m"
  shows "reconcile envs actor s =
    (if list_ex (\<lambda>w. \<not> hashable w) (withdrawals (obj_records (live_lines s m))) then (Inl TypeErr, s)
     else reconcile_loop envs 0 actor (map py_norm (withdrawals (obj_records (live_lines s m))))
       (obj_records (live_lines s m)) s)"
  unfolding reconcile_def read_own_shard_raw_def assms Let_def ..

lemma reconcile_loop_twins:
  assumes "\<forall>k. env_slug (envs k) = m" and "reconcile_loop envs k actor w cs s = (r, s')"
  shows "\<exists>es. extends_own m es s s' \<and> twins_of cs w es \<and> (\<forall>ks. r = Inr ks \<longrightarrow> ks = es)"
  using assms(2)
proof (induction cs arbitrary: k s r)
  case Nil
  then show ?case by (auto simp: extends_own_def twins_of_def)
next
  case (Cons c cs)
  from Cons.prems show ?case
  proof (cases rule: reconcile_loop_Cons)
    case (err x)
    then show ?thesis by (auto simp: extends_own_def twins_of_def)
  next
    case (settled k')
    then show ?thesis using Cons.IH twins_of_weaken by blast
  next
    case (twin t a s1 r1)
    obtain es where es: "extends_own m es s1 s'" "twins_of cs w es" "\<forall>ks. r1 = Inr ks \<longrightarrow> ks = es"
      using Cons.IH [OF twin(6)] by blast
    have m: "env_slug (envs k) = m" using assms(1) by simp
    note app = append_twin [OF twin(5), unfolded m]
    obtain n clock where a: "a = stamp_event m n clock t" using app(1) by blast
    have "extends_own m (a # es) s s'" using es(1) app(2,3) by (simp add: extends_own_def)
    moreover have "twins_of (c # cs) w (a # es)"
      using twins_of_weaken [OF es(2), of c] build_twin(1,3,4) [OF twin(4), of m n clock] twin(1,3) a
      by (simp add: twins_of_def)
    ultimately show ?thesis using es(3) twin(7) by (auto split: sum.splits)
  qed
qed

text \<open>C11. A pass only applies what the own shard queued: whatever its outcome, it appends to the own
  shard alone, and every event it appends is the applied twin of a queued suggestion of that shard
  which no withdrawal of that shard names. The queued rows, the other machines' shards and the rotated
  partitions stay as they are.\<close>

theorem reconcile_applies_own_candidates:
  assumes "\<forall>k. env_slug (envs k) = m" and "reconcile envs actor s = (r, s')"
  shows "\<exists>es. extends_own m es s s' \<and> (\<forall>ks. r = Inr ks \<longrightarrow> ks = es) \<and>
    twins_of (obj_records (live_lines s m)) (map py_norm (withdrawals (obj_records (live_lines s m)))) es"
proof -
  have m: "env_slug (envs 0) = m" using assms(1) by simp
  show ?thesis
  proof (cases "list_ex (\<lambda>w. \<not> hashable w) (withdrawals (obj_records (live_lines s m)))")
    case True
    then have "r = Inl TypeErr \<and> s' = s" using assms(2) unfolding reconcile_eq [where envs = envs, OF m] by simp
    then show ?thesis by (auto simp: extends_own_def twins_of_def)
  next
    case False
    then have "reconcile_loop envs 0 actor (map py_norm (withdrawals (obj_records (live_lines s m))))
        (obj_records (live_lines s m)) s = (r, s')"
      using assms(2) unfolding reconcile_eq [where envs = envs, OF m] by simp
    from reconcile_loop_twins [OF assms(1) this] show ?thesis by blast
  qed
qed

lemma reconcile_loop_settles:
  assumes "\<forall>k. env_slug (envs k) = m \<and> env_sha (envs k) = h" and "reconcile_loop envs k actor w cs s = (Inr es, s')"
  shows "\<forall>c \<in> set cs. settled m h w s' c"
  using assms(2)
proof (induction cs arbitrary: k s es)
  case (Cons c cs)
  have slug: "\<forall>k. env_slug (envs k) = m" using assms(1) by blast
  have grow: "set (own_records m t) \<subseteq> set (own_records m s')" if "reconcile_loop envs j actor w cs t = (q, s')" for j t q
    using reconcile_loop_twins [OF slug that] extends_own_records by fastforce
  from Cons.prems show ?case
  proof (cases rule: reconcile_loop_Cons)
    case (settled k')
    then show ?thesis using Cons.IH [OF settled(2)] settled_mono [OF _ grow [OF settled(2)]] assms(1) by auto
  next
    case (twin t a s1 r1)
    obtain es1 where r1: "r1 = Inr es1" using twin(7) by (auto split: sum.splits)
    have m: "env_slug (envs k) = m" "env_sha (envs k) = h" using assms(1) by auto
    have own: "own_records m s1 = own_records m s @ [a]" and v: "validate_event_fields t = Inr ()"
      and "event_id a = event_id t" using append_twin(4-6) [OF twin(5)] m(1) by simp_all
    then have "event_id t \<in> event_id ` set (own_records m s1)" using own by simp
    then have "settled m h w s1 c" using twin(1,2,4) m v unfolding settled_def by blast
    then have "settled m h w s' c" using settled_mono grow [OF twin(6)] by blast
    then show ?thesis using Cons.IH twin(6) r1 by auto
  qed simp
qed simp

lemma reconcile_loop_settled:
  assumes "\<forall>k. env_slug (envs k) = m \<and> env_sha (envs k) = h \<and> env_lock_ok (envs k) \<and> env_stamp (envs k) 0 \<noteq> []"
    and "\<forall>c \<in> set cs. settled m h w s c"
  shows "reconcile_loop envs k actor w cs s = (Inr [], s)"
  using assms(2)
proof (induction cs arbitrary: k)
  case (Cons c cs)
  have IH: "reconcile_loop envs j actor w cs s = (Inr [], s)" for j using Cons by simp
  have env: "env_slug (envs k) = m" "env_sha (envs k) = h" "env_lock_ok (envs k)" "env_stamp (envs k) 0 \<noteq> []"
    using assms(1) by auto
  have c: "settled m h w s c" using Cons.prems by simp
  show ?case
  proof (cases "is_reconcile_candidate c = Inr True \<and> py_norm (dget c ''id'') \<notin> set w")
    case True
    then obtain env' actor' t where t: "env_slug env' = m" "env_sha env' = h"
      "build_apply_twin_event env' c actor' = Inr t" "validate_event_fields t = Inr ()"
      "event_id t \<in> event_id ` set (own_records m s)" and hash: "hashable (dget c ''id'')"
      using c unfolding settled_def by auto
    obtain t' where t': "build_apply_twin_event (envs k) c actor = Inr t'"
      "dget t' ''observed_at'' = JStr (env_stamp (envs k) 0)" "has_key t' ''observed_at''" "has_key t' ''id''"
      using build_twin_again [OF t(3)] by blast
    have same: "event_id t' = event_id t"
      using build_twin(2) [OF t(3)] build_twin(2) [OF t'(1)] t(1,2) env(1,2) by (simp add: mint_apply_twin_id_def)
    have "validate_event_fields t' = Inr ()"
      using t(4) same t'(2-4) env(4) by (auto simp: validate_event_fields_def event_id_def split: if_splits)
    then have "append_event (envs k) t' None s = (Inl (DuplicateIdError (event_id t')), s)"
      using append_known env(1,3) t(5) same by simp
    then show ?thesis using True hash t'(1) IH by simp
  next
    case False
    then show ?thesis using c IH by (auto simp: settled_def)
  qed
qed simp

text \<open>C12. Reconcile is idempotent: after a pass that returned, another pass on the same machine, at
  any time and by any actor, appends nothing and returns no event.\<close>

theorem reconcile_idempotent:
  assumes "reconcile envs actor s = (Inr es, s')" and "\<forall>k. env_slug (envs k) = m \<and> env_sha (envs k) = h"
    and "\<forall>k. env_slug (envs' k) = m \<and> env_sha (envs' k) = h \<and> env_lock_ok (envs' k) \<and> env_stamp (envs' k) 0 \<noteq> []"
  shows "reconcile envs' actor' s' = (Inr [], s')"
proof -
  have slug: "\<forall>k. env_slug (envs k) = m" using assms(2) by blast
  let ?rs = "obj_records (live_lines s m)" and ?w = "\<lambda>rs. map py_norm (withdrawals rs)"
  have hash: "\<not> list_ex (\<lambda>w. \<not> hashable w) (withdrawals ?rs)" and loop: "reconcile_loop envs 0 actor (?w ?rs) ?rs s = (Inr es, s')"
    using assms(1) reconcile_eq [of envs m actor s] slug by (auto split: if_splits)
  have ext: "extends_own m es s s'" and twins: "twins_of ?rs (?w ?rs) es"
    using reconcile_loop_twins [OF slug loop] by auto
  have new: "\<forall>e \<in> set es. is_reconcile_candidate e = Inr False \<and> dget e ''kind'' = JNull"
    using twins by (auto simp: twins_of_def list_all_iff)
  then have none: "withdrawals es = []" by (auto simp: withdrawals_def filter_empty_conv)
  have rs': "obj_records (live_lines s' m) = ?rs @ es" using ext by (simp add: extends_own_def)
  then have w': "withdrawals (obj_records (live_lines s' m)) = withdrawals ?rs" using none by (simp add: withdrawals_def)
  have "\<forall>c \<in> set (?rs @ es). settled m h (?w ?rs) s' c"
    using reconcile_loop_settles [OF assms(2) loop] new by (auto simp: settled_def)
  then have "reconcile_loop envs' 0 actor' (?w ?rs) (?rs @ es) s' = (Inr [], s')"
    by (rule reconcile_loop_settled [OF assms(3)])
  moreover have "env_slug (envs' 0) = m" using assms(3) by simp
  ultimately show ?thesis using hash by (simp add: reconcile_eq rs' w' [unfolded rs'])
qed

section \<open>Every suggestion takes effect\<close>

text \<open>The id under which the twin of a candidate is stored.\<close>

definition twin_id :: "string \<Rightarrow> (json \<Rightarrow> string) \<Rightarrow> dict \<Rightarrow> json" where
  "twin_id m h c = JStr (''evt-'' @ m @ ''-apply-'' @ take 12 (h (JList [JStr ''apply'', dget c ''id''])))"

lemma twin_id_mint: "env_slug env = m \<Longrightarrow> env_sha env = h \<Longrightarrow> JStr (mint_apply_twin_id env (dget c ''id'')) = twin_id m h c"
  by (auto simp: twin_id_def mint_apply_twin_id_def)

definition candidates :: "string \<Rightarrow> store \<Rightarrow> dict set" where
  "candidates m s = {c \<in> set (obj_records (live_lines s m)). is_reconcile_candidate c = Inr True}"

text \<open>The truncated digests tell the candidates apart, and what the own history holds under the id of a twin is the
  twin (of an earlier pass).\<close>

definition twin_ids_free :: "string \<Rightarrow> (json \<Rightarrow> string) \<Rightarrow> store \<Rightarrow> bool" where
  "twin_ids_free m h s = (inj_on (twin_id m h) (candidates m s) \<and>
     (\<forall>c \<in> candidates m s. \<forall>e \<in> set (own_records m s). event_id e = twin_id m h c \<longrightarrow> twin_of c e))"

text \<open>The candidate is withdrawn, or the own history holds its applied twin: an applied event under the twin's id that
  refers to the candidate and asserts the state the candidate asks for, on its item and axis, with its evidence.\<close>

definition took_effect :: "string \<Rightarrow> (json \<Rightarrow> string) \<Rightarrow> json list \<Rightarrow> store \<Rightarrow> dict \<Rightarrow> bool" where
  "took_effect m h withdrawn s c = (py_norm (dget c ''id'') \<in> set withdrawn \<or>
     (\<exists>e \<in> set (own_records m s). event_id e = twin_id m h c \<and> twin_of c e))"

lemma reconcile_loop_ids:
  assumes "\<forall>k. env_slug (envs k) = m \<and> env_sha (envs k) = h" and "reconcile_loop envs k actor w cs s = (Inr es, s')"
    and "e \<in> set es"
  shows "\<exists>c \<in> set cs. is_reconcile_candidate c = Inr True \<and> twin_of c e \<and> event_id e = twin_id m h c"
  using assms(2,3)
proof (induction cs arbitrary: k s es)
  case (Cons c cs)
  from Cons.prems(1) show ?case
  proof (cases rule: reconcile_loop_Cons)
    case (settled k')
    then show ?thesis using Cons.IH Cons.prems(2) by auto
  next
    case (twin t a s1 r1)
    obtain es1 where r1: "r1 = Inr es1" "es = a # es1" using twin(7) by (auto split: sum.splits)
    have env: "env_slug (envs k) = m" "env_sha (envs k) = h" using assms(1) by auto
    obtain n clock where a: "a = stamp_event m n clock t" using append_twin(1) [OF twin(5)] env(1) by auto
    have "twin_of c a" "event_id a = twin_id m h c"
      using build_twin(1,2) [OF twin(4)] a twin_id_mint [OF env] by simp_all
    then show ?thesis using Cons.IH twin(1,6) r1 Cons.prems(2) by auto
  qed simp
qed simp

text \<open>C13. Every queued suggestion takes effect. Where the truncated digests tell the candidates of the own shard
  apart and what the own history holds under the id of a twin is that twin, each candidate is, after a pass that
  returned, withdrawn, or the own history holds its applied twin under the id minted for it: an applied event that
  refers to the candidate and asserts its state on its item and axis with its evidence.\<close>

theorem reconcile_settles:
  assumes "reconcile envs actor s = (Inr es, s')" and "\<forall>k. env_slug (envs k) = m \<and> env_sha (envs k) = h"
    and "twin_ids_free m h s" and "c \<in> candidates m s"
  shows "took_effect m h (map py_norm (withdrawals (obj_records (live_lines s m)))) s' c"
proof -
  let ?rs = "obj_records (live_lines s m)" and ?w = "map py_norm (withdrawals (obj_records (live_lines s m)))"
  have slug: "\<forall>k. env_slug (envs k) = m" using assms(2) by blast
  have loop: "reconcile_loop envs 0 actor ?w ?rs s = (Inr es, s')"
    using assms(1) reconcile_eq [of envs m actor s] slug by (auto split: if_splits)
  have c: "c \<in> set ?rs" "is_reconcile_candidate c = Inr True" using assms(4) by (auto simp: candidates_def)
  then have "settled m h ?w s' c" using reconcile_loop_settles [OF assms(2) loop] by blast
  then consider "py_norm (dget c ''id'') \<in> set ?w"
    | env act t where "env_slug env = m" "env_sha env = h" "build_apply_twin_event env c act = Inr t"
        "event_id t \<in> event_id ` set (own_records m s')"
    using c(2) by (auto simp: settled_def)
  then show ?thesis
  proof cases
    case 2
    have "event_id t = twin_id m h c" using build_twin(2) [OF 2(3)] twin_id_mint [OF 2(1,2)] by simp
    then obtain e where e: "e \<in> set (own_records m s')" "event_id e = twin_id m h c" using 2(4) by auto
    have "twin_of c e"
    proof (cases "e \<in> set (own_records m s)")
      case True
      then show ?thesis using assms(3,4) e(2) by (simp add: twin_ids_free_def)
    next
      case False
      obtain es' where "extends_own m es' s s'" "es' = es" using reconcile_loop_twins [OF slug loop] by auto
      then have "e \<in> set es" using e(1) False extends_own_records by fastforce
      then obtain c' where c': "c' \<in> candidates m s" "twin_of c' e" "event_id e = twin_id m h c'"
        using reconcile_loop_ids [OF assms(2) loop] by (auto simp: candidates_def)
      then have "c' = c" using assms(3,4) e(2) by (auto simp: twin_ids_free_def inj_on_def)
      then show ?thesis using c'(2) by simp
    qed
    then show ?thesis using e by (auto simp: took_effect_def)
  qed (simp add: took_effect_def)
qed

section \<open>Worked examples\<close>

definition ex_queued :: store where
  "ex_queued = snd (emit_code_complete_assert ex_later ''itm'' (ex_evidence None) ''eve'' (Some ''obs-9'')
     ''auto-observable'' ex_done)"

definition ex_pass :: "dict list res \<times> store" where
  "ex_pass = reconcile (\<lambda>_. ex_later) ''eve'' ex_queued"

lemma ex_pass_ok: "\<exists>e. ex_pass = (Inr [e], snd ex_pass)"
proof -
  have ok: "case fst ex_pass of Inr es \<Rightarrow> length es = 1 | Inl _ \<Rightarrow> False" by code_simp
  then obtain es where es: "fst ex_pass = Inr es" "length es = 1" by (auto split: sum.splits)
  then obtain e where "es = [e]" by (auto simp: length_Suc_conv)
  with es(1) have "ex_pass = (Inr [e], snd ex_pass)" by (metis prod.collapse)
  then show ?thesis by blast
qed

lemma ex_later_fields: "env_slug ex_later = ''rig''" "env_lock_ok ex_later" "env_stamp ex_later 0 \<noteq> []"
  by code_simp+

theorem reconcile_applies_own_candidates_witness:
  "\<exists>e. extends_own ''rig'' [e] ex_queued (snd ex_pass) \<and> twins_of (obj_records (live_lines ex_queued ''rig''))
     (map py_norm (withdrawals (obj_records (live_lines ex_queued ''rig'')))) [e]"
  using reconcile_applies_own_candidates [of "\<lambda>_. ex_later" "''rig''" "''eve''" ex_queued "fst ex_pass" "snd ex_pass"]
    ex_pass_ok ex_later_fields(1) unfolding ex_pass_def by (metis fst_conv prod.collapse)

theorem reconcile_idempotent_witness:
  "reconcile (\<lambda>_. ex_later) ''bob'' (snd ex_pass) = (Inr [], snd ex_pass)"
proof -
  obtain e where e: "reconcile (\<lambda>_. ex_later) ''eve'' ex_queued = (Inr [e], snd ex_pass)"
    using ex_pass_ok unfolding ex_pass_def by blast
  show ?thesis
    by (rule reconcile_idempotent [OF e, where m = "''rig''" and h = "env_sha ex_later"]) (simp_all add: ex_later_fields)
qed

text \<open>The suggestion of the example shard and its applied twin.\<close>

theorem reconcile_settles_witness:
  "\<exists>c. candidates ''rig'' ex_queued = {c} \<and> took_effect ''rig'' (env_sha ex_later) [] (snd ex_pass) c"
proof -
  have "map py_norm (withdrawals (obj_records (live_lines ex_queued ''rig''))) = []" by code_simp
  moreover have "list_all (\<lambda>e. is_reconcile_candidate e \<noteq> Inr True) (butlast (obj_records (live_lines ex_queued ''rig'')))"
    "obj_records (live_lines ex_queued ''rig'') \<noteq> []"
    "is_reconcile_candidate (last (obj_records (live_lines ex_queued ''rig''))) = Inr True"
    by code_simp+
  then obtain c where c: "candidates ''rig'' ex_queued = {c}"
    unfolding candidates_def by (cases "obj_records (live_lines ex_queued ''rig'')" rule: rev_cases) (auto simp: list_all_iff)
  moreover have "list_all (\<lambda>e. take 14 (case event_id e of JStr i \<Rightarrow> i | _ \<Rightarrow> []) \<noteq> ''evt-rig-apply-'') (own_records ''rig'' ex_queued)"
    by code_simp
  then have "twin_ids_free ''rig'' (env_sha ex_later) ex_queued"
    by (auto simp: twin_ids_free_def c list_all_iff twin_id_def dest!: bspec)
  moreover obtain e where e: "reconcile (\<lambda>_. ex_later) ''eve'' ex_queued = (Inr [e], snd ex_pass)"
    using ex_pass_ok unfolding ex_pass_def by blast
  ultimately show ?thesis
    using reconcile_settles [OF e, of "''rig''" "env_sha ex_later" c] ex_later_fields(1) by auto
qed

section \<open>Withdrawing another machine's event\<close>

text \<open>
  The own-shard test of \<open>withdrawal_event\<close> is a string prefix test, so an event of a machine whose slug
  extends the own slug passes it.
\<close>

theorem foreign_withdrawal_accepted:
  assumes "env_slug env' = env_slug env @ ''-'' @ rest"
  shows "\<exists>p. withdrawal_event env (mint_transition_event_id env' k payload) actor = Inr p"
  using assms by (simp add: withdrawal_event_def own_event_prefix_def mint_transition_event_id_def)

theorem foreign_withdrawal_accepted_example:
  "\<exists>p. withdrawal_event ex_env (mint_transition_event_id (ex_env\<lparr>env_slug := ''rig-abc123''\<rparr>) 0 ex_assert) ''eve'' = Inr p"
  by (rule foreign_withdrawal_accepted [where rest = "''abc123''"]) simp

end
