(* ===== verification/Tracker_Status_Table.thy ===== *)
theory Tracker_Status_Table
  imports Tracker_Ids
begin

text \<open>
  The status table of a plan (\<open>coordinator_core/ops/tracker/advance_status.py\<close>): a markdown table in
  a README whose second column is set for a list of stub ids, all of them or none. The file is a
  string; the atomic replacement of the file is one step that succeeds or fails.
\<close>

section \<open>Lines\<close>

text \<open>The line boundaries of \<open>str.splitlines\<close> among code points below 256.\<close>

definition is_break :: "char \<Rightarrow> bool" where
  "is_break c = (let n = (of_char c :: nat) in (10 \<le> n \<and> n \<le> 13) \<or> (28 \<le> n \<and> n \<le> 30) \<or> n = 133)"

abbreviation CR :: char where "CR \<equiv> CHR 0x0D"
abbreviation LF :: char where "LF \<equiv> CHR 0x0A"
abbreviation BAR :: char where "BAR \<equiv> CHR ''|''"

text \<open>\<open>s.splitlines(keepends=True)\<close>; \<open>acc\<close> is the line being read.\<close>

fun splitlines_from :: "string \<Rightarrow> string \<Rightarrow> string list" where
  "splitlines_from acc [] = (if acc = [] then [] else [acc])"
| "splitlines_from acc [c] = [acc @ [c]]"
| "splitlines_from acc (c # d # cs) =
     (if c = CR \<and> d = LF then (acc @ [c, d]) # splitlines_from [] cs
      else if is_break c then (acc @ [c]) # splitlines_from [] (d # cs)
      else splitlines_from (acc @ [c]) (d # cs))"

definition splitlines :: "string \<Rightarrow> string list" where
  "splitlines s = splitlines_from [] s"

definition ends_with :: "string \<Rightarrow> string \<Rightarrow> bool" where
  "ends_with suf s = (length suf \<le> length s \<and> drop (length s - length suf) s = suf)"

definition split_line_ending :: "string \<Rightarrow> string \<times> string" where
  "split_line_ending line =
     (if ends_with [CR, LF] line then (take (length line - 2) line, [CR, LF])
      else if ends_with [LF] line then (take (length line - 1) line, [LF])
      else if ends_with [CR] line then (take (length line - 1) line, [CR])
      else (line, []))"

section \<open>Cells\<close>

fun split_cells :: "string \<Rightarrow> string list" where
  "split_cells [] = [[]]"
| "split_cells (c # cs) =
     (if c = BAR then [] # split_cells cs
      else (case split_cells cs of [] \<Rightarrow> [[c]] | x # xs \<Rightarrow> (c # x) # xs))"

fun join_cells :: "string list \<Rightarrow> string" where
  "join_cells [] = []"
| "join_cells [x] = x"
| "join_cells (x # y # xs) = x @ [BAR] @ join_cells (y # xs)"

definition strip_wrapper :: "string \<Rightarrow> string \<Rightarrow> string" where
  "strip_wrapper wrapper s =
     (if 2 * length wrapper \<le> length s \<and> take (length wrapper) s = wrapper \<and> ends_with wrapper s
      then py_strip (take (length s - 2 * length wrapper) (drop (length wrapper) s))
      else s)"

definition normalize_cell :: "string \<Rightarrow> string" where
  "normalize_cell raw = strip_wrapper ''`'' (strip_wrapper ''__'' (strip_wrapper ''**'' (py_strip raw)))"

definition cell_matches_stub_id :: "string \<Rightarrow> string \<Rightarrow> bool" where
  "cell_matches_stub_id cell stub_id =
     (let normalized = py_lower (normalize_cell cell); target = py_lower stub_id in
      normalized = target \<or> normalized = ''chunk-'' @ target \<or> normalized = ''stub-'' @ target)"

definition is_table_row :: "string \<Rightarrow> bool" where
  "is_table_row content = (2 \<le> length (filter (\<lambda>c. c = BAR) (py_strip content)))"

section \<open>Validation and resolution\<close>

datatype status_error =
    BadStubIds
  | BadStatus
  | TrackerRowError "string list" "string list"
  | BadPath
  | WriteFailed

fun dedup_ids :: "string list \<Rightarrow> json list \<Rightarrow> status_error + string list" where
  "dedup_ids seen [] = Inr seen"
| "dedup_ids seen (JStr s # vs) =
     (if py_strip s = [] then Inl BadStubIds
      else dedup_ids (if s \<in> set seen then seen else seen @ [s]) vs)"
| "dedup_ids seen (_ # vs) = Inl BadStubIds"

fun validate_stub_ids :: "json \<Rightarrow> status_error + string list" where
  "validate_stub_ids (JList vs) = (if vs = [] then Inl BadStubIds else dedup_ids [] vs)"
| "validate_stub_ids _ = Inl BadStubIds"

fun validate_to_status :: "json \<Rightarrow> status_error + string" where
  "validate_to_status (JStr s) =
     (if py_strip s = [] \<or> BAR \<in> set s \<or> LF \<in> set s \<or> CR \<in> set s then Inl BadStatus else Inr s)"
| "validate_to_status _ = Inl BadStatus"

definition row_matches :: "string \<Rightarrow> string \<Rightarrow> bool" where
  "row_matches stub_id line =
     (let content = fst (split_line_ending line); cells = split_cells content in
      is_table_row content \<and> 3 \<le> length cells \<and> cell_matches_stub_id (cells ! 1) stub_id)"

definition matching_rows :: "string list \<Rightarrow> string \<Rightarrow> nat list" where
  "matching_rows lines stub_id = filter (\<lambda>i. row_matches stub_id (lines ! i)) [0..<length lines]"

definition resolve_targets :: "string list \<Rightarrow> string list \<Rightarrow> status_error + (string \<times> nat) list" where
  "resolve_targets lines stub_ids =
     (let not_found = filter (\<lambda>s. matching_rows lines s = []) stub_ids;
          ambiguous = filter (\<lambda>s. 1 < length (matching_rows lines s)) stub_ids in
      if not_found \<noteq> [] \<or> ambiguous \<noteq> [] then Inl (TrackerRowError not_found ambiguous)
      else Inr (map (\<lambda>s. (s, hd (matching_rows lines s))) stub_ids))"

section \<open>Flipping the rows\<close>

definition row_status :: "string \<Rightarrow> string" where
  "row_status line = py_strip (split_cells (fst (split_line_ending line)) ! 2)"

definition set_status :: "string \<Rightarrow> string \<Rightarrow> string" where
  "set_status to_status line =
     join_cells ((split_cells (fst (split_line_ending line)))[2 := '' '' @ to_status @ '' '']) @
       snd (split_line_ending line)"

record outcome =
  updated :: "string list"
  unchanged :: "string list"
  new_lines :: "string list"

fun flip_rows :: "string \<Rightarrow> (string \<times> nat) list \<Rightarrow> string list \<Rightarrow> outcome" where
  "flip_rows to_status [] lines = \<lparr>updated = [], unchanged = [], new_lines = lines\<rparr>"
| "flip_rows to_status ((sid, idx) # targets) lines =
     (if row_status (lines ! idx) = to_status
      then let r = flip_rows to_status targets lines in r\<lparr>unchanged := sid # unchanged r\<rparr>
      else let r = flip_rows to_status targets (lines[idx := set_status to_status (lines ! idx)]) in
        r\<lparr>updated := sid # updated r\<rparr>)"

text \<open>\<open>advance_status\<close>: the lists of updated and unchanged ids, whether the file was written, and the
  file afterwards. \<open>write_ok\<close> says that the replacement of the file succeeds.\<close>

definition advance_status ::
  "bool \<Rightarrow> json \<Rightarrow> json \<Rightarrow> string \<Rightarrow> (status_error + string list \<times> string list \<times> bool) \<times> string" where
  "advance_status write_ok stub_ids to_status content =
     (case validate_stub_ids stub_ids of Inl e \<Rightarrow> (Inl e, content) | Inr ids \<Rightarrow>
      (case validate_to_status to_status of Inl e \<Rightarrow> (Inl e, content) | Inr status \<Rightarrow>
       (case resolve_targets (splitlines content) ids of Inl e \<Rightarrow> (Inl e, content) | Inr targets \<Rightarrow>
          let r = flip_rows status targets (splitlines content) in
          if updated r = [] then (Inr ([], unchanged r, False), content)
          else if \<not> write_ok then (Inl WriteFailed, content)
          else (Inr (updated r, unchanged r, True), concat (new_lines r)))))"

text \<open>The operation: \<open>resolve_path\<close> resolves the path parameter inside the caller's worktree
  (\<open>contained_path\<close>), \<open>files\<close> holds the contents of the existing files.\<close>

definition advance_status_op ::
  "(string \<Rightarrow> 'p option) \<Rightarrow> bool \<Rightarrow> dict \<Rightarrow> ('p \<Rightarrow> string option) \<Rightarrow>
     (status_error + 'p \<times> string list \<times> string list \<times> bool) \<times> ('p \<Rightarrow> string option)" where
  "advance_status_op resolve_path write_ok params files =
     (case dget params ''tracker_path'' of
        JStr p \<Rightarrow>
          if py_strip p = [] then (Inl BadPath, files)
          else (case validate_stub_ids (dget params ''stub_ids'') of Inl e \<Rightarrow> (Inl e, files) | Inr _ \<Rightarrow>
            (case validate_to_status (dget params ''to_status'') of Inl e \<Rightarrow> (Inl e, files) | Inr _ \<Rightarrow>
              (case resolve_path p of None \<Rightarrow> (Inl BadPath, files) | Some path \<Rightarrow>
                (case files path of None \<Rightarrow> (Inl BadPath, files) | Some content \<Rightarrow>
                  (case advance_status write_ok (dget params ''stub_ids'') (dget params ''to_status'') content of
                     (Inl e, _) \<Rightarrow> (Inl e, files)
                   | (Inr (u, n, changed), content') \<Rightarrow>
                       (Inr (path, u, n, changed), if changed then files(path \<mapsto> content') else files))))))
      | _ \<Rightarrow> (Inl BadPath, files))"

section \<open>Lines and cells round trip\<close>

definition no_breaks :: "string \<Rightarrow> bool" where
  "no_breaks s = list_all (\<lambda>c. \<not> is_break c) s"

definition full_line :: "string \<Rightarrow> bool" where
  "full_line l = (\<exists>body e. l = body @ e \<and> no_breaks body \<and> (e = [CR, LF] \<or> (\<exists>b. is_break b \<and> e = [b])))"

fun lines_ok :: "string list \<Rightarrow> bool" where
  "lines_ok [] = True"
| "lines_ok [l] = (l \<noteq> [] \<and> (no_breaks l \<or> full_line l))"
| "lines_ok (l # m # ls) = (full_line l \<and> \<not> (last l = CR \<and> hd m = LF) \<and> lines_ok (m # ls))"

lemma break_chars [simp]: "is_break CR" "is_break LF" "\<not> is_break BAR" "\<not> is_break CHR '' ''"
  by code_simp+

lemma concat_splitlines: "concat (splitlines_from acc s) = acc @ s"
  by (induction acc s rule: splitlines_from.induct) auto

lemma splitlines_nonempty: "l \<in> set (splitlines_from acc s) \<Longrightarrow> l \<noteq> []"
  by (induction acc s rule: splitlines_from.induct) (auto split: if_splits)

lemma splitlines_hd: "splitlines_from [] (c # cs) = l # ls \<Longrightarrow> hd l = c"
proof -
  assume l: "splitlines_from [] (c # cs) = l # ls"
  then have "concat (l # ls) = c # cs" using concat_splitlines [of "[]" "c # cs"] by simp
  moreover have "l \<noteq> []" using splitlines_nonempty [of l "[]" "c # cs"] unfolding l by simp
  ultimately show "hd l = c" by (cases l) simp_all
qed

lemma full_line_break: "no_breaks acc \<Longrightarrow> is_break b \<Longrightarrow> full_line (acc @ [b])"
  unfolding full_line_def by blast

lemma full_line_crlf: "no_breaks acc \<Longrightarrow> full_line (acc @ [CR, LF])"
  unfolding full_line_def by blast

lemma lines_ok_Cons:
  "full_line l \<Longrightarrow> (\<And>m ms. ls = m # ms \<Longrightarrow> \<not> (last l = CR \<and> hd m = LF)) \<Longrightarrow> lines_ok ls \<Longrightarrow> lines_ok (l # ls)"
  by (cases ls) (auto simp: full_line_def)

lemma lines_ok_splitlines: "no_breaks acc \<Longrightarrow> lines_ok (splitlines_from acc s)"
proof (induction acc s rule: splitlines_from.induct)
  case (2 acc c)
  then show ?case using full_line_break [of acc c] by (cases "is_break c") (auto simp: no_breaks_def)
next
  case (3 acc c d cs)
  consider "c = CR" "d = LF" | "\<not> (c = CR \<and> d = LF)" "is_break c" | "\<not> is_break c" by blast
  then show ?case
  proof cases
    case 1
    have "lines_ok ((acc @ [CR, LF]) # splitlines_from [] cs)"
      using 3 1 full_line_crlf by (intro lines_ok_Cons) (auto simp: no_breaks_def)
    then show ?thesis using 1 by simp
  next
    case 2
    have "lines_ok ((acc @ [c]) # splitlines_from [] (d # cs))"
      using 3 2 full_line_break [OF "3.prems"] splitlines_hd
      by (intro lines_ok_Cons) (auto simp: no_breaks_def)
    then show ?thesis using 2 by auto
  next
    case c: 3
    then have "c \<noteq> CR" using break_chars(1) by blast
    then show ?thesis using 3 c by (simp add: no_breaks_def)
  qed
qed (simp add: no_breaks_def)

lemma splitlines_body: "no_breaks body \<Longrightarrow> splitlines_from acc (body @ rest) = splitlines_from (acc @ body) rest"
proof (induction body arbitrary: acc)
  case (Cons b body)
  then have "\<not> is_break b" "b \<noteq> CR" "no_breaks body" using break_chars(1) by (auto simp: no_breaks_def)
  then show ?case using Cons.IH [of "acc @ [b]"] by (cases "body @ rest") auto
qed simp

lemma splitlines_break:
  assumes "is_break b" and "\<not> (b = CR \<and> rest \<noteq> [] \<and> hd rest = LF)"
  shows "splitlines_from acc (b # rest) = (acc @ [b]) # splitlines_from [] rest"
  using assms by (cases rest; cases "b = CR"; simp)

lemma splitlines_full:
  assumes "full_line l" and "\<not> (last l = CR \<and> rest \<noteq> [] \<and> hd rest = LF)"
  shows "splitlines_from [] (l @ rest) = l # splitlines_from [] rest"
proof -
  obtain body e where l: "l = body @ e" "no_breaks body" "e = [CR, LF] \<or> (\<exists>b. is_break b \<and> e = [b])"
    using assms(1) unfolding full_line_def by blast
  have "splitlines_from [] (l @ rest) = splitlines_from body (e @ rest)"
    using splitlines_body [OF l(2), of "[]" "e @ rest"] by (simp add: l(1))
  also have "\<dots> = l # splitlines_from [] rest"
    using l(3)
  proof
    assume "\<exists>b. is_break b \<and> e = [b]"
    then show ?thesis using assms(2) splitlines_break [of _ rest body] by (auto simp: l(1))
  qed (simp add: l(1))
  finally show ?thesis .
qed

lemma splitlines_concat: "lines_ok ls \<Longrightarrow> splitlines (concat ls) = ls"
  unfolding splitlines_def
proof (induction ls rule: lines_ok.induct)
  case (2 l)
  then show ?case
    using splitlines_body [of l "[]" "[]"] splitlines_full [of l "[]"] by auto
next
  case (3 l m ls)
  have "m \<noteq> []" using 3(2) by (cases ls) (auto simp: full_line_def)
  then show ?case using 3 splitlines_full [of l "concat (m # ls)"] by simp
qed simp

lemma split_cells_ne [simp]: "split_cells s \<noteq> []"
  by (induction s) (auto split: list.splits)

lemma join_split [simp]: "join_cells (split_cells s) = s"
proof (induction s)
  case (Cons c s)
  then show ?case by (cases "split_cells s"; cases "tl (split_cells s)") auto
qed simp

lemma split_cells_no_bar: "x \<in> set (split_cells s) \<Longrightarrow> BAR \<notin> set x"
  by (induction s arbitrary: x) (auto split: list.splits if_splits)

lemma split_cells_append:
  "BAR \<notin> set x \<Longrightarrow> split_cells (x @ BAR # s) = x # split_cells s"
  by (induction x) auto

lemma split_cells_plain: "BAR \<notin> set x \<Longrightarrow> split_cells x = [x]"
  by (induction x) auto

lemma split_join: "xs \<noteq> [] \<Longrightarrow> \<forall>x \<in> set xs. BAR \<notin> set x \<Longrightarrow> split_cells (join_cells xs) = xs"
  by (induction xs rule: join_cells.induct) (auto simp: split_cells_append split_cells_plain)

lemma set_join: "set (join_cells xs) \<subseteq> insert BAR (\<Union> (set ` set xs))"
  by (induction xs rule: join_cells.induct) auto

lemma cells_subset: "x \<in> set (split_cells s) \<Longrightarrow> set x \<subseteq> set s"
proof (induction s arbitrary: x)
  case (Cons c s)
  obtain y ys where ys: "split_cells s = y # ys" by (cases "split_cells s") auto
  then have "x = [] \<or> x = c # y \<or> x \<in> set (split_cells s)" using Cons.prems by (auto split: if_splits)
  then show ?case using Cons.IH [of y] Cons.IH [of x] ys by auto
qed simp

lemma length_split_cells: "length (split_cells s) = Suc (length (filter (\<lambda>c. c = BAR) s))"
  by (induction s) (auto split: list.splits)

section \<open>Rows\<close>

text \<open>Text without the exotic line boundaries that \<open>split_line_ending\<close> does not know.\<close>

definition plain_text :: "string \<Rightarrow> bool" where
  "plain_text s = list_all (\<lambda>c. is_break c \<longrightarrow> c = CR \<or> c = LF) s"

definition clean_status :: "string \<Rightarrow> bool" where
  "clean_status st = (py_strip st = st \<and> no_breaks st)"

abbreviation is_ending :: "string \<Rightarrow> bool" where
  "is_ending e \<equiv> e \<in> {[CR, LF], [LF], [CR], []}"

lemma split_line_ending_parts:
  assumes "no_breaks body" and "is_ending e"
  shows "split_line_ending (body @ e) = (body, e)"
proof -
  have "CR \<notin> set body" "LF \<notin> set body" using assms(1) break_chars by (auto simp: no_breaks_def list_all_iff)
  then have no: "\<not> ends_with (xs @ [c]) body" if "c = CR \<or> c = LF" for xs c
  proof -
    have "\<not> drop k body = xs @ [c]" for k
      using that \<open>CR \<notin> set body\<close> \<open>LF \<notin> set body\<close> by (metis in_set_conv_decomp in_set_dropD)
    then show ?thesis by (simp add: ends_with_def)
  qed
  have crlf: "\<not> ends_with [CR, LF] (body @ [c])" for c
  proof
    assume "ends_with [CR, LF] (body @ [c])"
    then obtain k where "drop k (body @ [c]) = [CR, LF]" unfolding ends_with_def by blast
    then have "body @ [c] = take k (body @ [c]) @ [CR, LF]" by (metis append_take_drop_id)
    then have "body = take k (body @ [c]) @ [CR]" by (metis append_Cons append_Nil append_assoc butlast_snoc)
    then show False using \<open>CR \<notin> set body\<close> by (metis in_set_conv_decomp)
  qed
  have single: "\<not> ends_with [LF] (body @ [CR])" by (simp add: ends_with_def)
  show ?thesis
    using assms(2) single crlf no [of LF "[CR]"] no [of LF "[]"] no [of CR "[]"]
    by (auto simp: split_line_ending_def) (simp_all add: ends_with_def)
qed

lemma lines_ok_shape: "lines_ok ls \<Longrightarrow> l \<in> set ls \<Longrightarrow> l \<noteq> [] \<and> (no_breaks l \<or> full_line l)"
proof (induction ls rule: lines_ok.induct)
  case (3 l' m ls)
  have "full_line l' \<Longrightarrow> l' \<noteq> []" by (auto simp: full_line_def)
  with 3 show ?case by auto
qed auto

lemma line_parts:
  assumes "lines_ok ls" and "plain_text (concat ls)" and "l \<in> set ls"
  obtains body e where "l = body @ e" and "no_breaks body" and "is_ending e" and "e = [] \<or> full_line l"
proof -
  have l: "no_breaks l \<or> full_line l" using lines_ok_shape [OF assms(1,3)] by blast
  show ?thesis
  proof (cases "no_breaks l")
    case True
    then show ?thesis by (intro that [of l "[]"]) auto
  next
    case False
    then have fl: "full_line l" using l by blast
    then obtain body e where e: "l = body @ e" "no_breaks body" "e = [CR, LF] \<or> (\<exists>b. is_break b \<and> e = [b])"
      unfolding full_line_def by blast
    have "set l \<subseteq> set (concat ls)" using assms(3) by auto
    then have "b = CR \<or> b = LF" if "is_break b" "b \<in> set l" for b
      using that assms(2) unfolding plain_text_def list_all_iff by blast
    then have "is_ending e" using e(1,3) by (metis in_set_conv_decomp insertCI)
    then show ?thesis using e(1,2) fl by (intro that) auto
  qed
qed

lemma filter_strip: "(\<And>c. p c \<Longrightarrow> \<not> q c) \<Longrightarrow> filter q (strip_by p s) = filter q s"
proof -
  assume pq: "\<And>c. p c \<Longrightarrow> \<not> q c"
  have drop: "filter q (dropWhile p xs) = filter q xs" for xs by (induction xs) (auto simp: pq)
  show ?thesis unfolding strip_by_def using drop by (simp add: rev_filter [symmetric])
qed

lemma is_table_row_cells: "is_table_row s \<longleftrightarrow> 3 \<le> length (split_cells s)"
proof -
  have "filter (\<lambda>c. c = BAR) (py_strip s) = filter (\<lambda>c. c = BAR) s"
    unfolding py_strip_def by (rule filter_strip) (auto simp: is_space_def)
  then show ?thesis by (auto simp: is_table_row_def length_split_cells)
qed

lemma strip_pad: "py_strip ('' '' @ s @ '' '') = py_strip s"
proof -
  have sp: "is_space CHR '' ''" by code_simp
  show ?thesis
  proof (cases "\<forall>c \<in> set s. is_space c")
    case True
    then have "dropWhile is_space s = []" by simp
    moreover have "dropWhile is_space (s @ '' '') = []"
      using True sp by (simp only: dropWhile_eq_Nil_conv) auto
    ultimately show ?thesis using sp by (simp add: py_strip_def strip_by_def del: dropWhile_eq_Nil_conv)
  next
    case False
    then have "dropWhile is_space (s @ '' '') = dropWhile is_space s @ '' ''"
      by (simp add: dropWhile_append)
    then show ?thesis using sp by (simp add: py_strip_def strip_by_def)
  qed
qed

text \<open>Setting the status of a row keeps the line a line, and every other cell.\<close>

lemma set_status_parts:
  assumes "no_breaks body" and "is_ending e" and "3 \<le> length (split_cells body)"
    and "no_breaks st" and "BAR \<notin> set st"
  defines "cells \<equiv> (split_cells body)[2 := '' '' @ st @ '' '']"
  shows "set_status st (body @ e) = join_cells cells @ e" and "no_breaks (join_cells cells)"
    and "split_cells (join_cells cells) = cells" and "hd (join_cells cells @ e) = hd (body @ e)"
    and "join_cells cells \<noteq> []"
proof -
  have parts: "split_line_ending (body @ e) = (body, e)" using assms(1,2) by (rule split_line_ending_parts)
  show "set_status st (body @ e) = join_cells cells @ e" by (simp add: set_status_def parts cells_def)
  have mem: "set cells \<subseteq> insert ('' '' @ st @ '' '') (set (split_cells body))"
    unfolding cells_def by (rule set_update_subset_insert)
  have "no_breaks x" if "x \<in> set cells" for x
  proof (cases "x = '' '' @ st @ '' ''")
    case True
    then show ?thesis using assms(4) break_chars(4) by (simp add: no_breaks_def)
  next
    case False
    then have "set x \<subseteq> set body" using that mem cells_subset [of x body] by auto
    then show ?thesis using assms(1) by (auto simp: no_breaks_def list_all_iff)
  qed
  then show "no_breaks (join_cells cells)"
    using set_join [of cells] break_chars(3) by (fastforce simp: no_breaks_def list_all_iff)
  have ne: "cells \<noteq> []" using assms(3) by (auto simp: cells_def)
  have "BAR \<notin> set x" if "x \<in> set cells" for x
    using that mem split_cells_no_bar [of x body] assms(5) by auto
  then show "split_cells (join_cells cells) = cells" using ne by (intro split_join) auto
  obtain a b c r where sc: "split_cells body = a # b # c # r"
    using assms(3) by (metis One_nat_def Suc_le_length_iff numeral_3_eq_3)
  have "body = join_cells (a # b # c # r)" using join_split [of body] sc by simp
  moreover have "cells = a # b # ('' '' @ st @ '' '') # r" by (simp add: cells_def sc numeral_2_eq_2)
  ultimately show "hd (join_cells cells @ e) = hd (body @ e)" "join_cells cells \<noteq> []"
    by (cases a; simp)+
qed

text \<open>A row of the table after its status has been set.\<close>

lemma set_status_row:
  assumes "lines_ok ls" and "plain_text (concat ls)" and "l \<in> set ls" and "row_matches sid l"
    and "clean_status st" and "BAR \<notin> set st"
  shows "split_cells (fst (split_line_ending (set_status st l))) =
      (split_cells (fst (split_line_ending l)))[2 := '' '' @ st @ '' '']"
    and "snd (split_line_ending (set_status st l)) = snd (split_line_ending l)"
    and "row_status (set_status st l) = st"
    and "row_matches other (set_status st l) = row_matches other l"
    and "hd (set_status st l) = hd l"
    and "no_breaks (set_status st l) \<or> full_line (set_status st l)"
    and "full_line l \<Longrightarrow> full_line (set_status st l) \<and> last (set_status st l) = last l"
    and "set_status st l \<noteq> []"
    and "plain_text (set_status st l)"
proof -
  obtain body e where l: "l = body @ e" "no_breaks body" "is_ending e" "e = [] \<or> full_line l"
    using line_parts [OF assms(1-3)] by blast
  have st: "no_breaks st" "py_strip st = st" using assms(5) by (auto simp: clean_status_def)
  have parts: "split_line_ending l = (body, e)" using split_line_ending_parts [OF l(2,3)] l(1) by simp
  then have len: "3 \<le> length (split_cells body)" using assms(4) by (simp add: row_matches_def Let_def)
  define b where "b = join_cells ((split_cells body)[2 := '' '' @ st @ '' ''])"
  note r = set_status_parts [OF l(2,3) len st(1) assms(6), folded b_def l(1)]
  have parts': "split_line_ending (set_status st l) = (b, e)"
    using split_line_ending_parts [OF r(2) l(3)] r(1) by simp
  show cells: "split_cells (fst (split_line_ending (set_status st l))) =
      (split_cells (fst (split_line_ending l)))[2 := '' '' @ st @ '' '']"
    using r(3) parts parts' by simp
  show "snd (split_line_ending (set_status st l)) = snd (split_line_ending l)" using parts parts' by simp
  show "row_status (set_status st l) = st"
    using len st(2) strip_pad [of st] unfolding row_status_def cells parts by (simp del: append_Cons append_Nil)
  show "row_matches other (set_status st l) = row_matches other l"
    using r(3) len by (simp add: row_matches_def parts parts' Let_def is_table_row_cells)
  show "hd (set_status st l) = hd l" using r(1,4) l(1) by simp
  show "set_status st l \<noteq> []" using r(1,5) by simp
  show shape: "no_breaks (set_status st l) \<or> full_line (set_status st l)"
    using r(1) l(3) full_line_break [OF r(2)] full_line_crlf [OF r(2)] r(2) by auto
  show "full_line (set_status st l) \<and> last (set_status st l) = last l" if "full_line l"
  proof -
    have "e \<noteq> []"
    proof
      assume "e = []"
      then have "no_breaks l" using l by simp
      with that show False by (auto simp: full_line_def no_breaks_def)
    qed
    then show ?thesis
      using r(1) l(1,3) full_line_break [OF r(2)] full_line_crlf [OF r(2)] by auto
  qed
  show "plain_text (set_status st l)"
    using r(1,2) l(3) by (auto simp: plain_text_def no_breaks_def list_all_iff)
qed

definition line_like :: "string \<Rightarrow> string \<Rightarrow> bool" where
  "line_like l l' = (l' \<noteq> [] \<and> hd l' = hd l \<and> (no_breaks l' \<or> full_line l') \<and>
     (full_line l \<longrightarrow> full_line l' \<and> last l' = last l))"

lemma lines_ok_like: "list_all2 line_like ls ls' \<Longrightarrow> lines_ok ls \<Longrightarrow> lines_ok ls'"
proof (induction ls arbitrary: ls' rule: lines_ok.induct)
  case (2 l)
  then show ?case by (auto simp: list_all2_Cons1 line_like_def)
next
  case (3 l m ls)
  then obtain l' m' ls'' where ls': "ls' = l' # m' # ls''" "line_like l l'" "line_like m m'" "list_all2 line_like ls ls''"
    by (auto simp: list_all2_Cons1)
  then have "lines_ok (m' # ls'')" using 3 by auto
  then show ?case using ls' 3(3) by (auto simp: line_like_def)
qed simp

text \<open>What setting the status does to one line.\<close>

definition advance_line :: "string \<Rightarrow> string \<Rightarrow> string" where
  "advance_line st l = (if row_status l = st then l else set_status st l)"

definition advance_lines :: "string \<Rightarrow> nat set \<Rightarrow> string list \<Rightarrow> string list" where
  "advance_lines st rows lines =
     map (\<lambda>j. if j \<in> rows then advance_line st (lines ! j) else lines ! j) [0..<length lines]"

lemma length_advance_lines [simp]: "length (advance_lines st rows lines) = length lines"
  by (simp add: advance_lines_def)

lemma advance_lines_nth [simp]:
  "j < length lines \<Longrightarrow>
     advance_lines st rows lines ! j = (if j \<in> rows then advance_line st (lines ! j) else lines ! j)"
  by (simp add: advance_lines_def)

lemma advance_lines_insert:
  assumes "i < length lines" and "row_status (advance_line st (lines ! i)) = st"
  shows "advance_lines st rows (lines[i := advance_line st (lines ! i)]) = advance_lines st (insert i rows) lines"
proof -
  have "advance_line st (advance_line st (lines ! i)) = advance_line st (lines ! i)"
    using assms(2) by (simp add: advance_line_def)
  then show ?thesis using assms(1) by (intro nth_equalityI) (auto simp: nth_list_update)
qed

lemma flip_rows_lines:
  assumes "\<forall>i \<in> snd ` set targets. i < length lines \<and> row_status (advance_line st (lines ! i)) = st"
  shows "new_lines (flip_rows st targets lines) = advance_lines st (snd ` set targets) lines"
  using assms
proof (induction st targets lines rule: flip_rows.induct)
  case (1 st lines)
  then show ?case by (intro nth_equalityI) auto
next
  case (2 st sid idx targets lines)
  have idx: "idx < length lines" "row_status (advance_line st (lines ! idx)) = st" using 2(3) by auto
  show ?case
  proof (cases "row_status (lines ! idx) = st")
    case True
    then have "advance_lines st (insert idx (snd ` set targets)) lines = advance_lines st (snd ` set targets) lines"
      by (intro nth_equalityI) (auto simp: advance_line_def)
    then show ?thesis using 2 True by (simp add: Let_def)
  next
    case False
    let ?l = "lines[idx := set_status st (lines ! idx)]"
    have adv: "advance_line st (lines ! idx) = set_status st (lines ! idx)" using False by (simp add: advance_line_def)
    have "row_status (advance_line st (set_status st (lines ! idx))) = st"
      using idx adv by (simp add: advance_line_def)
    then have "\<forall>i \<in> snd ` set targets. i < length ?l \<and> row_status (advance_line st (?l ! i)) = st"
      using 2(3) by (auto simp: nth_list_update)
    then have "new_lines (flip_rows st targets ?l) = advance_lines st (snd ` set targets) ?l"
      using 2(2) [OF False] by blast
    then show ?thesis using False advance_lines_insert [OF idx] adv by (simp add: Let_def)
  qed
qed

lemma flip_rows_ids:
  "mset (updated (flip_rows st targets lines)) + mset (unchanged (flip_rows st targets lines)) = mset (map fst targets)"
  by (induction st targets lines rule: flip_rows.induct) (auto simp: Let_def)

lemma flip_rows_none: "updated (flip_rows st targets lines) = [] \<Longrightarrow> new_lines (flip_rows st targets lines) = lines"
  by (induction st targets lines rule: flip_rows.induct) (auto simp: Let_def split: if_splits)

lemma flip_rows_set:
  "\<forall>i \<in> snd ` set targets. row_status (lines ! i) = st \<Longrightarrow>
     flip_rows st targets lines = \<lparr>updated = [], unchanged = map fst targets, new_lines = lines\<rparr>"
  by (induction st targets lines rule: flip_rows.induct) (auto simp: Let_def)

section \<open>The outcome of the operation\<close>

abbreviation one_row :: "string list \<Rightarrow> string \<Rightarrow> bool" where
  "one_row lines sid \<equiv> \<exists>!j. j < length lines \<and> row_matches sid (lines ! j)"

lemma matching_rows_set: "set (matching_rows lines sid) = {j. j < length lines \<and> row_matches sid (lines ! j)}"
  by (auto simp: matching_rows_def)

lemma distinct_matching_rows: "distinct (matching_rows lines sid)"
  by (simp add: matching_rows_def)

lemma one_row_matching: "one_row lines sid \<longleftrightarrow> length (matching_rows lines sid) = 1"
proof -
  have "length (matching_rows lines sid) = card {j. j < length lines \<and> row_matches sid (lines ! j)}"
    using distinct_card [OF distinct_matching_rows, of lines sid] matching_rows_set by simp
  then show ?thesis by (simp add: card_1_singleton_iff Ex1_def set_eq_iff) blast
qed

lemma resolve_targets_ok:
  "resolve_targets lines ids = Inr targets \<longleftrightarrow>
     (\<forall>s \<in> set ids. one_row lines s) \<and> targets = map (\<lambda>s. (s, hd (matching_rows lines s))) ids"
proof -
  have "(filter (\<lambda>s. matching_rows lines s = []) ids = [] \<and> filter (\<lambda>s. 1 < length (matching_rows lines s)) ids = [])
      \<longleftrightarrow> (\<forall>s \<in> set ids. length (matching_rows lines s) = 1)"
    by (auto simp: filter_empty_conv) (metis One_nat_def Suc_lessI length_greater_0_conv)+
  then show ?thesis unfolding one_row_matching by (auto simp: resolve_targets_def Let_def)
qed

lemma resolve_targets_ids: "resolve_targets lines ids = Inr targets \<Longrightarrow> map fst targets = ids"
  unfolding resolve_targets_ok by (simp add: comp_def)

lemma target_row:
  assumes "one_row lines sid"
  shows "hd (matching_rows lines sid) < length lines" and "row_matches sid (lines ! hd (matching_rows lines sid))"
    and "j < length lines \<Longrightarrow> row_matches sid (lines ! j) \<Longrightarrow> hd (matching_rows lines sid) = j"
proof -
  have "matching_rows lines sid \<noteq> []" using assms one_row_matching by auto
  then have "hd (matching_rows lines sid) \<in> set (matching_rows lines sid)" by simp
  then show row: "hd (matching_rows lines sid) < length lines"
      "row_matches sid (lines ! hd (matching_rows lines sid))" unfolding matching_rows_set by auto
  show "hd (matching_rows lines sid) = j" if "j < length lines" "row_matches sid (lines ! j)"
    using assms row that by blast
qed

text \<open>The rows that a list of ids addresses.\<close>

definition addressed :: "string list \<Rightarrow> string list \<Rightarrow> nat set" where
  "addressed ids lines = {j. j < length lines \<and> (\<exists>s \<in> set ids. row_matches s (lines ! j))}"

lemma target_rows:
  assumes "resolve_targets lines ids = Inr targets"
  shows "snd ` set targets = addressed ids lines"
proof -
  have one: "\<forall>s \<in> set ids. one_row lines s" and t: "targets = map (\<lambda>s. (s, hd (matching_rows lines s))) ids"
    using assms resolve_targets_ok by blast+
  have "snd ` set targets = (\<lambda>s. hd (matching_rows lines s)) ` set ids" by (simp add: t image_image)
  also have "\<dots> = addressed ids lines"
  proof
    show "(\<lambda>s. hd (matching_rows lines s)) ` set ids \<subseteq> addressed ids lines"
    proof
      fix j assume "j \<in> (\<lambda>s. hd (matching_rows lines s)) ` set ids"
      then obtain s where "s \<in> set ids" "j = hd (matching_rows lines s)" by blast
      then show "j \<in> addressed ids lines" using one target_row(1,2) [of lines s] by (auto simp: addressed_def)
    qed
    show "addressed ids lines \<subseteq> (\<lambda>s. hd (matching_rows lines s)) ` set ids"
    proof
      fix j assume "j \<in> addressed ids lines"
      then obtain s where "s \<in> set ids" "j < length lines" "row_matches s (lines ! j)"
        unfolding addressed_def by blast
      then have "s \<in> set ids" "hd (matching_rows lines s) = j" using one target_row(3) by blast+
      then show "j \<in> (\<lambda>s. hd (matching_rows lines s)) ` set ids" by blast
    qed
  qed
  finally show ?thesis .
qed

lemma advance_lines_ok:
  fixes ids ls :: "string list"
  assumes "lines_ok ls" and "plain_text (concat ls)"
    and "clean_status st" and "BAR \<notin> set st"
  defines "ls' \<equiv> advance_lines st (addressed ids ls) ls"
  shows "\<And>j. j \<in> addressed ids ls \<Longrightarrow> row_status (ls' ! j) = st \<and>
      length (split_cells (fst (split_line_ending (ls' ! j)))) = length (split_cells (fst (split_line_ending (ls ! j)))) \<and>
      (\<forall>k. k \<noteq> 2 \<longrightarrow> split_cells (fst (split_line_ending (ls' ! j))) ! k = split_cells (fst (split_line_ending (ls ! j))) ! k) \<and>
      snd (split_line_ending (ls' ! j)) = snd (split_line_ending (ls ! j))"
    and "\<And>j other. j < length ls \<Longrightarrow> row_matches other (ls' ! j) = row_matches other (ls ! j)"
    and "lines_ok ls'" and "plain_text (concat ls')"
proof -
  have row: "ls ! j \<in> set ls" "\<exists>s. row_matches s (ls ! j)" "j < length ls" if "j \<in> addressed ids ls" for j
    using that by (auto simp: addressed_def)
  note set = set_status_row [OF assms(1,2) _ _ assms(3,4)]
  show "row_status (ls' ! j) = st \<and>
      length (split_cells (fst (split_line_ending (ls' ! j)))) = length (split_cells (fst (split_line_ending (ls ! j)))) \<and>
      (\<forall>k. k \<noteq> 2 \<longrightarrow> split_cells (fst (split_line_ending (ls' ! j))) ! k = split_cells (fst (split_line_ending (ls ! j))) ! k) \<and>
      snd (split_line_ending (ls' ! j)) = snd (split_line_ending (ls ! j))" if j: "j \<in> addressed ids ls" for j
  proof -
    obtain s where s: "row_matches s (ls ! j)" using row(2) [OF j] by blast
    show ?thesis
      using set(1,2,3) [OF row(1) [OF j] s] j row(3) [OF j] by (simp add: ls'_def advance_line_def)
  qed
  show "row_matches other (ls' ! j) = row_matches other (ls ! j)" if "j < length ls" for j other
    using set(4) row(1,2) that unfolding ls'_def advance_line_def by (metis advance_line_def advance_lines_nth)
  have like: "line_like (ls ! j) (ls' ! j) \<and> plain_text (ls' ! j)" if "j < length ls" for j
  proof (cases "ls' ! j = ls ! j")
    case True
    have "set (ls ! j) \<subseteq> set (concat ls)" using that by force
    then have "plain_text (ls ! j)" using assms(2) by (auto simp: plain_text_def list_all_iff)
    then show ?thesis using True lines_ok_shape [OF assms(1), of "ls ! j"] that by (simp add: line_like_def)
  next
    case False
    then have j: "j \<in> addressed ids ls" and l': "ls' ! j = set_status st (ls ! j)"
      using that by (auto simp: ls'_def advance_line_def split: if_splits)
    obtain s where s: "row_matches s (ls ! j)" using row(2) [OF j] by blast
    show ?thesis using set(5-9) [OF row(1) [OF j] s] unfolding l' line_like_def by blast
  qed
  have len: "length ls' = length ls" by (simp add: ls'_def)
  then have "list_all2 line_like ls ls'" using like by (simp add: list_all2_conv_all_nth)
  then show "lines_ok ls'" using assms(1) by (rule lines_ok_like)
  have "\<forall>l \<in> set ls'. plain_text l" using like len by (auto simp: in_set_conv_nth)
  then show "plain_text (concat ls')" by (auto simp: plain_text_def list_all_iff)
qed

text \<open>A successful run, as a whole.\<close>

lemma advance_status_success:
  assumes "advance_status w stub_ids (JStr st) content = (Inr (u, n, changed), content')"
    and "plain_text content" and "clean_status st"
  obtains ids where "validate_stub_ids stub_ids = Inr ids" and "BAR \<notin> set st"
    and "validate_to_status (JStr st) = Inr st"
    and "\<forall>s \<in> set ids. one_row (splitlines content) s" and "mset u + mset n = mset ids"
    and "splitlines content' = advance_lines st (addressed ids (splitlines content)) (splitlines content)"
proof -
  let ?ls = "splitlines content"
  obtain ids where ids: "validate_stub_ids stub_ids = Inr ids"
    using assms(1) by (auto simp: advance_status_def split: sum.splits)
  have st: "validate_to_status (JStr st) = Inr st" "BAR \<notin> set st"
    using assms(1) ids by (auto simp: advance_status_def split: sum.splits if_splits)
  obtain targets where t: "resolve_targets ?ls ids = Inr targets"
    using assms(1) ids st(1) by (cases "resolve_targets ?ls ids") (auto simp: advance_status_def)
  define r where "r = flip_rows st targets ?ls"
  have run: "u = updated r" "n = unchanged r" "content' = (if updated r = [] then content else concat (new_lines r))"
    using assms(1) ids st(1) t unfolding r_def
    by (auto simp: advance_status_def Let_def split: if_splits)
  have ok: "lines_ok ?ls" unfolding splitlines_def by (rule lines_ok_splitlines) (simp add: no_breaks_def)
  have content: "concat ?ls = content" by (simp add: splitlines_def concat_splitlines)
  note adv = advance_lines_ok [where ids = ids and ls = ?ls and st = st, unfolded content, OF ok assms(2,3) st(2)]
  have "\<forall>i \<in> snd ` set targets. i < length ?ls \<and> row_status (advance_line st (?ls ! i)) = st"
    unfolding target_rows [OF t] using adv(1) by (auto simp: addressed_def)
  then have lines: "new_lines r = advance_lines st (addressed ids ?ls) ?ls"
    unfolding r_def target_rows [OF t, symmetric] by (rule flip_rows_lines)
  have "splitlines content' = new_lines r"
  proof (cases "updated r = []")
    case True
    then show ?thesis using run(3) flip_rows_none [of st targets ?ls] by (simp add: r_def)
  next
    case False
    then show ?thesis using run(3) splitlines_concat [OF adv(3)] lines by simp
  qed
  moreover have "mset u + mset n = mset ids"
    using flip_rows_ids [of st targets ?ls] resolve_targets_ids [OF t] run(1,2) by (simp add: r_def)
  moreover have "\<forall>s \<in> set ids. one_row ?ls s" using t resolve_targets_ok by blast
  ultimately show ?thesis using that [of ids] ids st lines by simp
qed


section \<open>The contract\<close>

text \<open>The ids must each name exactly one row of the table, and then every requested row is set;
  otherwise nothing is, and the error lists the ids with no row and those with several.\<close>

theorem status_rows_resolved:
  assumes "validate_stub_ids stub_ids = Inr ids" and "validate_to_status to_status = Inr st"
  shows "if \<forall>s \<in> set ids. \<exists>!j. j < length (splitlines content) \<and> row_matches s (splitlines content ! j)
    then \<exists>u n changed. fst (advance_status True stub_ids to_status content) = Inr (u, n, changed)
    else \<exists>none several. advance_status w stub_ids to_status content = (Inl (TrackerRowError none several), content) \<and>
        set none = {s \<in> set ids. \<forall>j < length (splitlines content). \<not> row_matches s (splitlines content ! j)} \<and>
        set several = {s \<in> set ids. \<exists>i j. i < j \<and> j < length (splitlines content) \<and>
          row_matches s (splitlines content ! i) \<and> row_matches s (splitlines content ! j)}"
proof (cases "\<forall>s \<in> set ids. one_row (splitlines content) s")
  case True
  then obtain targets where "resolve_targets (splitlines content) ids = Inr targets"
    using resolve_targets_ok by blast
  then show ?thesis using True assms by (auto simp: advance_status_def Let_def)
next
  case False
  have several: "1 < length (matching_rows lines s) \<longleftrightarrow>
      (\<exists>i j. i < j \<and> j < length lines \<and> row_matches s (lines ! i) \<and> row_matches s (lines ! j))" for lines s
  proof -
    have "1 < length (matching_rows lines s) \<longleftrightarrow>
        (\<exists>i \<in> set (matching_rows lines s). \<exists>j \<in> set (matching_rows lines s). i \<noteq> j)"
      using distinct_matching_rows [of lines s]
      by (cases "matching_rows lines s"; cases "tl (matching_rows lines s)") auto
    then show ?thesis unfolding matching_rows_set using nat_neq_iff by (auto; metis order.strict_trans)
  qed
  have none: "matching_rows lines s = [] \<longleftrightarrow> (\<forall>j < length lines. \<not> row_matches s (lines ! j))" for lines s
    using matching_rows_set [of lines s] by (cases "matching_rows lines s") auto
  from False have "\<nexists>targets. resolve_targets (splitlines content) ids = Inr targets"
    using resolve_targets_ok by blast
  then have "resolve_targets (splitlines content) ids =
      Inl (TrackerRowError (filter (\<lambda>s. matching_rows (splitlines content) s = []) ids)
        (filter (\<lambda>s. 1 < length (matching_rows (splitlines content) s)) ids))"
    by (auto simp: resolve_targets_def Let_def split: if_splits)
  then show ?thesis unfolding if_not_P [OF False] using assms by (simp add: advance_status_def none several [unfolded One_nat_def])
qed

text \<open>C14. On a file with plain line ends (carriage returns and line feeds only), a successful run with a clean status, one
  without blanks at its ends and without any character that str.splitlines breaks at, leaves every line as it was but those of
  the requested rows; of these only the status cell changes, and it holds the status. Both conditions are needed: a
  padded status is written again by every run, and a status with another line break splits its row.\<close>

theorem status_rows_advanced:
  assumes "advance_status w stub_ids (JStr st) content = (Inr (u, n, changed), content')"
    and "plain_text content" and "clean_status st"
  shows "\<exists>ids. validate_stub_ids stub_ids = Inr ids \<and> mset u + mset n = mset ids \<and>
     length (splitlines content') = length (splitlines content) \<and>
     (\<forall>j < length (splitlines content).
        let old = splitlines content ! j; new = splitlines content' ! j in
        if \<exists>s \<in> set ids. row_matches s old
        then row_status new = st \<and> snd (split_line_ending new) = snd (split_line_ending old) \<and>
          length (split_cells (fst (split_line_ending new))) = length (split_cells (fst (split_line_ending old))) \<and>
          (\<forall>k. k \<noteq> 2 \<longrightarrow>
             split_cells (fst (split_line_ending new)) ! k = split_cells (fst (split_line_ending old)) ! k)
        else new = old)"
proof -
  let ?ls = "splitlines content"
  obtain ids where r: "validate_stub_ids stub_ids = Inr ids" "BAR \<notin> set st" "mset u + mset n = mset ids"
      "splitlines content' = advance_lines st (addressed ids ?ls) ?ls"
    using advance_status_success [OF assms] by metis
  have ok: "lines_ok ?ls" unfolding splitlines_def by (rule lines_ok_splitlines) (simp add: no_breaks_def)
  have content: "concat ?ls = content" by (simp add: splitlines_def concat_splitlines)
  note adv = advance_lines_ok(1) [where ids = ids and ls = ?ls and st = st, unfolded content, OF ok assms(2,3) r(2)]
  show ?thesis
    using r(1,3) adv by (intro exI [of _ ids]) (auto simp: r(4) addressed_def Let_def)
qed

text \<open>Running the operation again on the result changes nothing: every id is reported as unchanged
  and the file is not written.\<close>

theorem advance_status_idempotent:
  assumes "advance_status w stub_ids (JStr st) content = (Inr (u, n, changed), content')"
    and "plain_text content" and "clean_status st"
  shows "\<exists>ids. validate_stub_ids stub_ids = Inr ids \<and>
     advance_status w' stub_ids (JStr st) content' = (Inr ([], ids, False), content')"
proof -
  let ?ls = "splitlines content"
  obtain ids where r: "validate_stub_ids stub_ids = Inr ids" "BAR \<notin> set st"
      "validate_to_status (JStr st) = Inr st" "\<forall>s \<in> set ids. one_row ?ls s"
      "splitlines content' = advance_lines st (addressed ids ?ls) ?ls"
    using advance_status_success [OF assms] by metis
  have ok: "lines_ok ?ls" unfolding splitlines_def by (rule lines_ok_splitlines) (simp add: no_breaks_def)
  have content: "concat ?ls = content" by (simp add: splitlines_def concat_splitlines)
  note adv = advance_lines_ok [where ids = ids and ls = ?ls and st = st, unfolded content, OF ok assms(2,3) r(2),
      folded r(5)]
  have len: "length (splitlines content') = length ?ls" by (simp add: r(5))
  have "\<forall>s \<in> set ids. one_row (splitlines content') s" using r(4) adv(2) len by metis
  then obtain targets where t: "resolve_targets (splitlines content') ids = Inr targets"
    using resolve_targets_ok by blast
  have "addressed ids (splitlines content') = addressed ids ?ls"
    using adv(2) len by (auto simp: addressed_def)
  then have "flip_rows st targets (splitlines content') =
      \<lparr>updated = [], unchanged = map fst targets, new_lines = splitlines content'\<rparr>"
    using adv(1) target_rows [OF t] by (intro flip_rows_set) simp
  moreover have "map fst targets = ids"
    using t by (rule resolve_targets_ids)
  ultimately show ?thesis using r(1,3) t by (simp add: advance_status_def)
qed


text \<open>An example table, and a run on it.\<close>

definition table :: string where
  "table = ''| Id | Status |'' @ [CR, LF] @ ''|---|---|'' @ [LF] @ ''| **01** | todo | x |'' @ [LF] @
     ''| `stub-02` | done |''"

lemma table_run:
  "advance_status True (JList [JStr ''01'', JStr ''02'', JStr ''01'']) (JStr ''done'') table =
     (Inr ([''01''], [''02''], True),
      ''| Id | Status |'' @ [CR, LF] @ ''|---|---|'' @ [LF] @ ''| **01** | done | x |'' @ [LF] @ ''| `stub-02` | done |'')"
  by code_simp

lemma table_plain: "plain_text table" "clean_status ''done''" "clean_status ''todo''"
  by code_simp+

theorem status_rows_resolved_witness:
  "\<exists>none several.
     advance_status True (JList [JStr ''01'', JStr ''--'', JStr ''7'']) (JStr ''done'') table =
       (Inl (TrackerRowError none several), table) \<and> ''7'' \<in> set none \<and> ''01'' \<notin> set none"
proof -
  have v: "validate_stub_ids (JList [JStr ''01'', JStr ''--'', JStr ''7'']) = Inr [''01'', ''--'', ''7'']"
      "validate_to_status (JStr ''done'') = Inr ''done''" by code_simp+
  have no: "\<forall>j < length (splitlines table). \<not> row_matches ''7'' (splitlines table ! j)"
      and yes: "2 < length (splitlines table) \<and> row_matches ''01'' (splitlines table ! 2)" by code_simp+
  have not_all: "\<not> (\<forall>s \<in> set [''01'', ''--'', ''7'']. one_row (splitlines table) s)" using no by auto
  show ?thesis
    using status_rows_resolved [OF v, of table True] yes no unfolding if_not_P [OF not_all] by fastforce
qed

theorem status_rows_advanced_witness:
  "\<exists>u n changed content'.
     advance_status True (JList [JStr ''01'', JStr ''02'', JStr ''01'']) (JStr ''done'') table = (Inr (u, n, changed), content') \<and>
     length (splitlines content') = length (splitlines table) \<and> mset u + mset n = {#''01'', ''02''#}"
proof -
  have "validate_stub_ids (JList [JStr ''01'', JStr ''02'', JStr ''01'']) = Inr [''01'', ''02'']" by code_simp
  then show ?thesis
    using status_rows_advanced [OF table_run table_plain(1,2)] table_run by auto
qed

theorem advance_status_idempotent_witness:
  "advance_status False (JList [JStr ''01'', JStr ''02'', JStr ''01'']) (JStr ''done'')
       (snd (advance_status True (JList [JStr ''01'', JStr ''02'', JStr ''01'']) (JStr ''done'') table)) =
     (Inr ([], [''01'', ''02''], False),
      snd (advance_status True (JList [JStr ''01'', JStr ''02'', JStr ''01'']) (JStr ''done'') table))"
proof -
  have "validate_stub_ids (JList [JStr ''01'', JStr ''02'', JStr ''01'']) = Inr [''01'', ''02'']" by code_simp
  then show ?thesis
    using advance_status_idempotent [OF table_run table_plain(1,2), of False] table_run by simp
qed

text \<open>Where the contract stops: a status with a blank at an end is written again by every run, and one
  with a line boundary that is neither a line feed nor a carriage return (here a form feed) is accepted
  and splits its row in two.\<close>

theorem padded_status_rewritten:
  "fst (advance_status True (JList [JStr ''02'']) (JStr ''done '')
      (snd (advance_status True (JList [JStr ''02'']) (JStr ''done '') table))) = Inr ([''02''], [], True)"
  by code_simp

theorem exotic_break_splits_row:
  "fst (advance_status True (JList [JStr ''01'']) (JStr [CHR ''a'', CHR 0x0C, CHR ''b'']) table) = Inr ([''01''], [], True) \<and>
   length (splitlines (snd (advance_status True (JList [JStr ''01'']) (JStr [CHR ''a'', CHR 0x0C, CHR ''b'']) table))) =
     Suc (length (splitlines table)) \<and>
   row_status (splitlines (snd (advance_status True (JList [JStr ''01'']) (JStr [CHR ''a'', CHR 0x0C, CHR ''b'']) table)) ! 2) = ''a''"
  by code_simp

end
