(* ===== verification/Tracker_Person.thy ===== *)
theory Tracker_Person
  imports Tracker_Entities
begin

text \<open>
  The operating human (\<open>coordinator_core/person_resolver.py\<close>): the contributor slug that is derived
  offline from a numeric GitHub id, and the alias bundle with its declared precedence of sources. The
  reads of \<open>hosts.yml\<close> and of \<open>git config\<close> are parameters; \<open>sha\<close> is the SHA-256 hex digest of a string.
\<close>

section \<open>Numbers as text\<close>

definition BASE36_DIGITS :: string where
  "BASE36_DIGITS = ''0123456789abcdefghijklmnopqrstuvwxyz''"

function decimal :: "int \<Rightarrow> string" where
  "decimal n =
     (if n < 10 then [BASE36_DIGITS ! nat n] else decimal (n div 10) @ [BASE36_DIGITS ! nat (n mod 10)])"
  by pat_completeness auto
termination
  by (relation "measure nat") auto

declare decimal.simps [simp del]

definition digit_value :: "char \<Rightarrow> int" where
  "digit_value c = int (length (takeWhile (\<lambda>d. d \<noteq> c) BASE36_DIGITS))"

text \<open>\<open>int(s, base)\<close> of digits below the base.\<close>

definition digits_value :: "int \<Rightarrow> string \<Rightarrow> int" where
  "digits_value base s = foldl (\<lambda>v c. base * v + digit_value c) 0 s"

text \<open>\<open>int(s)\<close> of a string: blanks around it, a sign and single underscores between digits are
  accepted; more than 4300 digits are refused.\<close>

fun drop_underscores :: "string \<Rightarrow> string option" where
  "drop_underscores [] = None"
| "drop_underscores [c] = (if is_dec c then Some [c] else None)"
| "drop_underscores (c # d # cs) =
     (if \<not> is_dec c then None
      else map_option ((#) c) (drop_underscores (if d = CHR ''_'' then cs else d # cs)))"

definition py_int :: "string \<Rightarrow> int option" where
  "py_int raw =
     (let s = py_strip raw;
          negative = (s \<noteq> [] \<and> hd s = CHR ''-'');
          body = (if s \<noteq> [] \<and> (hd s = CHR ''-'' \<or> hd s = CHR ''+'') then tl s else s) in
      (case drop_underscores body of
         None \<Rightarrow> None
       | Some ds \<Rightarrow> if 4300 < length ds then None
           else Some (if negative then - digits_value 10 ds else digits_value 10 ds)))"

section \<open>The contributor slug\<close>

definition CONTRIBUTOR_SLUG_MODULUS :: int where
  "CONTRIBUTOR_SLUG_MODULUS = 36 ^ 9"

definition CONTRIBUTOR_SLUG_LEN :: nat where
  "CONTRIBUTOR_SLUG_LEN = 9"

text \<open>The loop that collects the digits, least significant first.\<close>

function base36_chars :: "int \<Rightarrow> string" where
  "base36_chars remaining =
     (if remaining \<le> 0 then [] else BASE36_DIGITS ! nat (remaining mod 36) # base36_chars (remaining div 36))"
  by pat_completeness auto
termination
  by (relation "measure nat") auto

declare base36_chars.simps [simp del]

definition rjust :: "nat \<Rightarrow> char \<Rightarrow> string \<Rightarrow> string" where
  "rjust n c s = replicate (n - length s) c @ s"

fun derive_contributor_slug :: "(string \<Rightarrow> string) \<Rightarrow> json \<Rightarrow> string option" where
  "derive_contributor_slug sha (JInt database_id) =
     (if database_id \<le> 0 then None
      else let value = digits_value 16 (take 12 (sha (decimal database_id))) mod CONTRIBUTOR_SLUG_MODULUS;
               slug = (if value = 0 then ''0'' else rev (base36_chars value)) in
           Some (rjust CONTRIBUTOR_SLUG_LEN CHR ''0'' slug))"
| "derive_contributor_slug sha _ = None"

section \<open>The alias bundle\<close>

definition NOREPLY_DOMAIN :: string where
  "NOREPLY_DOMAIN = ''@users.noreply.github.com''"

text \<open>Handle and numeric id of a GitHub noreply address. (\<open>$\<close> also matches before a final newline.)\<close>

definition parse_noreply_email :: "string option \<Rightarrow> string option \<times> string option" where
  "parse_noreply_email email =
     (case email of None \<Rightarrow> (None, None) | Some e \<Rightarrow>
       let local = takeWhile (\<lambda>c. c \<noteq> CHR ''@'') e; domain = py_lower (dropWhile (\<lambda>c. c \<noteq> CHR ''@'') e);
           digits = takeWhile is_dec local; rest = dropWhile is_dec local in
       if local = [] \<or> (domain \<noteq> NOREPLY_DOMAIN \<and> domain \<noteq> NOREPLY_DOMAIN @ [CHR 0x0A]) then (None, None)
       else if digits \<noteq> [] \<and> 2 \<le> length rest \<and> hd rest = CHR ''+'' then (Some (tl rest), Some digits)
       else (Some local, None))"

definition nonempty :: "string option \<Rightarrow> bool" where
  "nonempty v = (v \<noteq> None \<and> v \<noteq> Some [])"

text \<open>The sources of \<open>github\<close> and \<open>github_id\<close>: \<open>hosts.yml\<close> and a noreply \<open>user.email\<close>; only when these
  give no handle, \<open>coordinator.operator\<close>.\<close>

definition github_identity :: "string option \<Rightarrow> (string \<Rightarrow> string option) \<Rightarrow> string option \<times> string option" where
  "github_identity hosts_user git_config =
     (let (noreply_handle, noreply_id) = parse_noreply_email (git_config ''user.email'');
          github_value = (if hosts_user \<noteq> None then hosts_user else noreply_handle) in
      if nonempty github_value then (github_value, noreply_id)
      else let operator = git_config ''coordinator.operator'';
               (operator_handle, operator_id) = parse_noreply_email operator in
        if nonempty operator_handle then (operator_handle, operator_id)
        else if nonempty operator \<and> CHR ''@'' \<notin> set (the operator) then (operator, noreply_id)
        else (github_value, noreply_id))"

definition set_alias :: "string \<Rightarrow> string option \<Rightarrow> (string, string) fmap \<Rightarrow> (string, string) fmap" where
  "set_alias key v bundle = (if nonempty v then fmupd key (the v) bundle else bundle)"

definition resolve_operating_person ::
  "(string \<Rightarrow> string) \<Rightarrow> string option \<Rightarrow> (string \<Rightarrow> string option) \<Rightarrow> (string, string) fmap res" where
  "resolve_operating_person sha hosts_user git_config =
     (let (github_value, github_id_value) = github_identity hosts_user git_config;
          email = git_config ''user.email'';
          bundle = set_alias ''github'' (map_option py_casefold github_value) fmempty in
      res_bind
        (if nonempty github_id_value
         then (case py_int (the github_id_value) of
                 None \<Rightarrow> Inl (ValueErr ''invalid literal for int()'')
               | Some n \<Rightarrow> Inr (set_alias ''contributor_slug'' (derive_contributor_slug sha (JInt n))
                   (fmupd ''github_id'' (the github_id_value) bundle)))
         else Inr bundle)
        (\<lambda>bundle. Inr (set_alias ''email'' (map_option py_casefold email)
           (set_alias ''display'' (git_config ''user.name'') bundle))))"

section \<open>The slug is a number in nine digits\<close>

lemma length_base36 [simp]: "length BASE36_DIGITS = 36"
  by code_simp

lemma digit_value_nth: "0 \<le> d \<Longrightarrow> d < 36 \<Longrightarrow> digit_value (BASE36_DIGITS ! nat d) = d"
proof -
  have "list_all (\<lambda>d. digit_value (BASE36_DIGITS ! d) = int d) [0..<36]" by code_simp
  then show "0 \<le> d \<Longrightarrow> d < 36 \<Longrightarrow> digit_value (BASE36_DIGITS ! nat d) = d"
    by (auto simp: list_all_iff nat_less_iff)
qed

lemma digits_value_snoc [simp]: "digits_value b (s @ [c]) = b * digits_value b s + digit_value c"
  by (simp add: digits_value_def)

lemma digits_value_Nil [simp]: "digits_value b [] = 0"
  by (simp add: digits_value_def)

lemma base36_chars_value: "0 \<le> n \<Longrightarrow> digits_value 36 (rev (base36_chars n)) = n"
proof (induction n rule: base36_chars.induct)
  case (1 n)
  show ?case
  proof (cases "n \<le> 0")
    case True
    then show ?thesis using 1 by (simp add: base36_chars.simps)
  next
    case False
    then show ?thesis using 1 by (simp add: base36_chars.simps [of n] digit_value_nth)
  qed
qed

lemma base36_chars_length: "n < 36 ^ k \<Longrightarrow> length (base36_chars n) \<le> k"
proof (induction k arbitrary: n)
  case (Suc k)
  then have "n div 36 < 36 ^ k" by (simp add: div_less_iff_less_mult mult.commute)
  then show ?case using Suc.IH [of "n div 36"] by (simp add: base36_chars.simps [of n])
qed (simp add: base36_chars.simps)

lemma base36_chars_digits: "set (base36_chars n) \<subseteq> set BASE36_DIGITS"
proof (induction n rule: base36_chars.induct)
  case (1 n)
  have "BASE36_DIGITS ! nat (n mod 36) \<in> set BASE36_DIGITS"
    by (rule nth_mem) (simp add: nat_less_iff)
  then show ?case using 1 by (simp add: base36_chars.simps [of n])
qed

lemma digits_value_pad: "digits_value 36 (replicate k CHR ''0'' @ s) = digits_value 36 s"
proof -
  have "digit_value CHR ''0'' = 0" by code_simp
  then show ?thesis by (induction k) (simp_all add: digits_value_def)
qed

text \<open>The contributor slug of a positive id has exactly nine characters, all of them base-36 digits,
  and reads back as the number made of the first twelve hexadecimal digits of the digest modulo \<open>36 ^ 9\<close>;
  every other value has none.\<close>

theorem contributor_slug_roundtrip:
  "case derive_contributor_slug sha v of
     None \<Rightarrow> (case v of JInt n \<Rightarrow> n \<le> 0 | _ \<Rightarrow> True)
   | Some slug \<Rightarrow> \<exists>n > 0. v = JInt n \<and> length slug = 9 \<and> set slug \<subseteq> set BASE36_DIGITS \<and>
       digits_value 36 slug = digits_value 16 (take 12 (sha (decimal n))) mod 36 ^ 9"
proof (cases "\<exists>n. v = JInt n \<and> 0 < n")
  case False
  then have "derive_contributor_slug sha v = None" by (cases v) auto
  then show ?thesis using False by (auto split: json.split)
next
  case True
  then obtain n where n: "v = JInt n" "0 < n" by blast
  define w where "w = digits_value 16 (take 12 (sha (decimal n))) mod 36 ^ 9"
  define slug where "slug = (if w = 0 then ''0'' else rev (base36_chars w))"
  have "length (base36_chars w) \<le> 9" by (rule base36_chars_length) (simp add: w_def)
  then have len: "length slug \<le> 9" by (simp add: slug_def)
  have zero: "digit_value CHR ''0'' = 0" "CHR ''0'' \<in> set BASE36_DIGITS" by code_simp+
  have "digits_value 36 slug = w"
    using zero(1) digits_value_snoc [of 36 "[]" "CHR ''0''"] by (simp add: slug_def base36_chars_value w_def)
  moreover have "set slug \<subseteq> set BASE36_DIGITS" using zero(2) base36_chars_digits [of w] by (auto simp: slug_def)
  moreover have "derive_contributor_slug sha v = Some (rjust 9 CHR ''0'' slug)"
    using n by (simp add: slug_def w_def CONTRIBUTOR_SLUG_MODULUS_def CONTRIBUTOR_SLUG_LEN_def Let_def)
  ultimately show ?thesis
    using n len zero(2) by (auto simp: rjust_def digits_value_pad w_def)
qed

section \<open>Precedence of the sources\<close>

fun first_resolved :: "string option list \<Rightarrow> string option" where
  "first_resolved [] = None"
| "first_resolved (v # vs) = (if v \<noteq> None then v else first_resolved vs)"

definition bare_handle :: "string option \<Rightarrow> string option" where
  "bare_handle v = (if v \<noteq> None \<and> CHR ''@'' \<notin> set (the v) then v else None)"

lemma parse_handle_nonempty: "parse_noreply_email email = (handle, i) \<Longrightarrow> handle \<noteq> Some []"
proof -
  have "2 \<le> length xs \<Longrightarrow> tl xs \<noteq> []" for xs :: string by (cases xs) auto
  then show "parse_noreply_email email = (handle, i) \<Longrightarrow> handle \<noteq> Some []"
    by (auto simp: parse_noreply_email_def Let_def split: option.splits if_splits)
qed

lemma fmlookup_set_alias [simp]:
  "fmlookup (set_alias k v m) k' = (if k = k' \<and> nonempty v then v else fmlookup m k')"
  by (auto simp: set_alias_def nonempty_def)

lemma casefold_nonempty [simp]: "py_casefold s = [] \<longleftrightarrow> s = []"
  by (cases s) (simp_all add: py_casefold_def)

lemma nonempty_casefold [simp]: "nonempty (map_option py_casefold v) = nonempty v"
  by (cases v) (auto simp: nonempty_def)

text \<open>The declared precedence: the handle is the first of the hosts file, a noreply \<open>user.email\<close>, a
  noreply operator and a bare operator that resolves; and a contributor slug never comes without the
  numeric id it is derived from.\<close>

theorem identity_precedence:
  assumes "resolve_operating_person sha hosts_user git = Inr bundle"
    and "hosts_user \<noteq> Some []" and "\<forall>k. git k \<noteq> Some []"
  shows "fmlookup bundle ''github'' = map_option py_casefold
      (first_resolved [hosts_user, fst (parse_noreply_email (git ''user.email'')),
        fst (parse_noreply_email (git ''coordinator.operator'')), bare_handle (git ''coordinator.operator'')]) \<and>
    (fmlookup bundle ''contributor_slug'' \<noteq> None \<longrightarrow>
      (\<exists>i n. fmlookup bundle ''github_id'' = Some i \<and> py_int i = Some n \<and>
         fmlookup bundle ''contributor_slug'' = derive_contributor_slug sha (JInt n)))"
proof -
  obtain eh ei oh oi where e: "parse_noreply_email (git ''user.email'') = (eh, ei)"
    and o: "parse_noreply_email (git ''coordinator.operator'') = (oh, oi)" by (meson surj_pair)
  have ne: "nonempty hosts_user \<longleftrightarrow> hosts_user \<noteq> None" "nonempty eh \<longleftrightarrow> eh \<noteq> None" "nonempty oh \<longleftrightarrow> oh \<noteq> None"
    "nonempty (git k) \<longleftrightarrow> git k \<noteq> None" for k
    using assms(2,3) parse_handle_nonempty [OF e] parse_handle_nonempty [OF o] by (simp_all add: nonempty_def)
  obtain g i where gi: "github_identity hosts_user git = (g, i)" by (meson surj_pair)
  define op where "op = git ''coordinator.operator''"
  have "(if nonempty (if hosts_user \<noteq> None then hosts_user else eh) then (if hosts_user \<noteq> None then hosts_user else eh, ei)
      else if nonempty oh then (oh, oi)
      else if nonempty op \<and> CHR ''@'' \<notin> set (the op) then (op, ei)
      else (if hosts_user \<noteq> None then hosts_user else eh, ei)) = (g, i)"
    using gi by (simp add: github_identity_def e o op_def Let_def del: not_None_eq cong: if_cong)
  then have g: "g = first_resolved [hosts_user, eh, oh, bare_handle op]"
    using ne(1-3) ne(4) [of "''coordinator.operator''", folded op_def]
    by (cases hosts_user; cases eh; cases oh; cases op) (simp_all add: bare_handle_def split: if_splits)
  have "fmlookup bundle ''github'' = (if nonempty g then map_option py_casefold g else None)"
    using assms(1) by (auto simp: resolve_operating_person_def gi Let_def res_bind_Inr_iff split: if_splits option.splits)
  moreover have "nonempty g \<or> g = None"
    unfolding g using ne(1-3) ne(4) [of "''coordinator.operator''", folded op_def]
    by (cases hosts_user; cases eh; cases oh; cases op) (simp_all add: bare_handle_def)
  ultimately have "fmlookup bundle ''github'' = map_option py_casefold g" by auto
  moreover have "fmlookup bundle ''contributor_slug'' \<noteq> None \<longrightarrow>
      (\<exists>i n. fmlookup bundle ''github_id'' = Some i \<and> py_int i = Some n \<and>
         fmlookup bundle ''contributor_slug'' = derive_contributor_slug sha (JInt n))"
    using assms(1)
    by (cases "i") (auto simp: resolve_operating_person_def gi Let_def res_bind_Inr_iff nonempty_def
        simp del: derive_contributor_slug.simps split: if_splits option.splits)
  ultimately show ?thesis by (simp add: g e o op_def)
qed

theorem identity_precedence_witness:
  "\<exists>bundle. resolve_operating_person (\<lambda>_. ''0123456789ab'') None
     (\<lambda>k. if k = ''user.email'' then Some ''12+Ann@Users.noreply.github.com'' else Some ''zed'') = Inr bundle \<and>
     fmlookup bundle ''github'' = Some ''ann''"
proof -
  let ?git = "\<lambda>k. if k = ''user.email'' then Some ''12+Ann@Users.noreply.github.com'' else Some ''zed''"
  have "case resolve_operating_person (\<lambda>_. ''0123456789ab'') None ?git of Inr _ \<Rightarrow> True | Inl _ \<Rightarrow> False" by code_simp
  then obtain d where b: "resolve_operating_person (\<lambda>_. ''0123456789ab'') None ?git = Inr d"
    by (auto split: sum.splits)
  have "map_option py_casefold (first_resolved [None, fst (parse_noreply_email (?git ''user.email'')),
        fst (parse_noreply_email (?git ''coordinator.operator'')), bare_handle (?git ''coordinator.operator'')]) =
      Some ''ann''" by code_simp
  then show ?thesis using identity_precedence [OF b] b by auto
qed

end
