(* ===== verification/Tracker_People.thy ===== *)
theory Tracker_People
  imports Tracker_Registry Tracker_Person
begin

text \<open>
  The operations on people (\<open>coordinator_core/ops/tracker\<close>): \<open>mint_person.py\<close> registers the operating
  human, \<open>assign.py\<close> writes person edges, \<open>fold_ownership.py\<close> answers who owns an item. Each handler first
  compares the repository the caller names with its own (\<open>check_repo_root\<close>, here the parameter
  \<open>mismatch\<close>).
\<close>

section \<open>Minting a person\<close>

definition BUNDLE_KEY_TO_NAMESPACE :: "(string \<times> string) list" where
  "BUNDLE_KEY_TO_NAMESPACE =
     [(''github'', ''github''), (''github_id'', ''github_id''), (''display'', ''display''), (''email'', ''email'')]"

definition bundle_aliases :: "(string, string) fmap \<Rightarrow> (string \<times> string) list" where
  "bundle_aliases bun =
     concat (map (\<lambda>(key, namespace). case fmlookup bun key of None \<Rightarrow> [] | Some raw \<Rightarrow> [(namespace, raw)])
       BUNDLE_KEY_TO_NAMESPACE)"

text \<open>
  The loop over the aliases. Every emission is a call of its own with its own clocks (\<open>envs\<close>), and
  \<open>others k\<close> is what other processes do before the \<open>k\<close>-th one. A failure is returned with the alias at
  which it happened.
\<close>

fun claim_aliases ::
  "(nat \<Rightarrow> env) \<Rightarrow> (nat \<Rightarrow> store \<Rightarrow> store) \<Rightarrow> string \<Rightarrow> (string \<times> string) list \<Rightarrow> nat \<Rightarrow> store \<Rightarrow>
     ((string \<times> string) \<times> pyerr) option \<times> store" where
  "claim_aliases envs others person_id [] k s = (None, s)"
| "claim_aliases envs others person_id ((namespace, raw) # as) k s =
     (case emit_person_alias_added (envs k) person_id namespace raw (others k s) of
        (Inl e, s') \<Rightarrow> (Some ((namespace, raw), e), s')
      | (Inr _, s') \<Rightarrow> claim_aliases envs others person_id as (Suc k) s')"

datatype mint_reason = EmptyBundle | Created | CollisionResolved | Mismatch

definition mint_person_core ::
  "(nat \<Rightarrow> env) \<Rightarrow> (nat \<Rightarrow> store \<Rightarrow> store) \<Rightarrow> (string, string) fmap \<Rightarrow> (mint_reason \<times> json) op" where
  "mint_person_core envs others bun s =
     (if bun = fmempty then (Inr (EmptyBundle, JNull), s)
      else let person_id = mint_person_id (envs 0) in
        (case emit_person_created (envs 0) person_id
                (case fmlookup bun ''display'' of None \<Rightarrow> [] | Some d \<Rightarrow> d) s of
           (Inl e, s') \<Rightarrow> (Inl e, s')
         | (Inr _, s') \<Rightarrow>
             (case claim_aliases envs others person_id (bundle_aliases bun) 1 s' of
                (None, s'') \<Rightarrow> (Inr (Created, JStr person_id), s'')
              | (Some ((namespace, raw), TrackerEntityError m), s'') \<Rightarrow>
                  (case res_bind (fold_person_registry (others 0 s'')) (resolve_alias namespace raw) of
                     Inl e \<Rightarrow> (Inl e, others 0 s'')
                   | Inr None \<Rightarrow> (Inl (TrackerEntityError m), others 0 s'')
                   | Inr (Some winner_id) \<Rightarrow> (Inr (CollisionResolved, winner_id), others 0 s''))
              | (Some (_, e), s'') \<Rightarrow> (Inl e, s''))))"

definition mint_person ::
  "(string \<Rightarrow> string) \<Rightarrow> (nat \<Rightarrow> env) \<Rightarrow> (nat \<Rightarrow> store \<Rightarrow> store) \<Rightarrow> bool \<Rightarrow> string option \<Rightarrow>
     (string \<Rightarrow> string option) \<Rightarrow> (mint_reason \<times> json) op" where
  "mint_person sha envs others mismatch hosts_user git_config s =
     (if mismatch then (Inr (Mismatch, JNull), s)
      else guarded (resolve_operating_person sha hosts_user git_config) (mint_person_core envs others) s)"

section \<open>Who owns an item\<close>

text \<open>The alias dictionary in insertion order.\<close>

definition alias_item_step :: "dict \<Rightarrow> ((json \<times> json) \<times> json) list \<Rightarrow> ((json \<times> json) \<times> json) list" where
  "alias_item_step event items =
     (let namespace = dget event ''namespace''; value = dget event ''normalized_value'';
          person_id = dget event ''person_id''; key = (py_norm namespace, py_norm value) in
      if dget event ''kind'' = JStr ''person_alias_added'' \<and> truthy namespace \<and> value \<noteq> JNull \<and> truthy person_id
      then AList.update key (py_norm person_id) items
      else if dget event ''kind'' = JStr ''person_alias_retracted'' \<and> truthy namespace \<and> value \<noteq> JNull
      then AList.delete key items
      else items)"

definition alias_items :: "dict list \<Rightarrow> ((json \<times> json) \<times> json) list" where
  "alias_items events = fold alias_item_step events []"

definition GITHUB_ID_NAMESPACE :: string where
  "GITHUB_ID_NAMESPACE = ''github_id''"

text \<open>\<open>{person_id: value for (namespace, value), person_id in aliases.items() if ...}\<close>: a later item
  overrides an earlier one, and a person id that is not hashable raises.\<close>

definition github_id_by_person :: "((json \<times> json) \<times> json) list \<Rightarrow> (json \<rightharpoonup> json) res" where
  "github_id_by_person items =
     (let ids = filter (\<lambda>((namespace, _), _). namespace = JStr GITHUB_ID_NAMESPACE) items in
      if list_all (\<lambda>(_, p). hashable p) ids
      then Inr (map_of (rev (map (\<lambda>((_, v), p). (p, v)) ids))) else Inl TypeErr)"

fun int_of :: "json \<Rightarrow> int option" where
  "int_of (JStr s) = py_int s"
| "int_of v = as_int v"

definition resolve_contributor_slug :: "(string \<Rightarrow> string) \<Rightarrow> (json \<rightharpoonup> json) \<Rightarrow> json \<Rightarrow> string option" where
  "resolve_contributor_slug sha ids person_id =
     (case ids person_id of None \<Rightarrow> None
      | Some raw \<Rightarrow> (case int_of raw of None \<Rightarrow> None | Some n \<Rightarrow> derive_contributor_slug sha (JInt n)))"

text \<open>The two folds read the log one after the other: \<open>s\<close> and \<open>s'\<close> are the stores they find.\<close>

definition fold_ownership ::
  "(string \<Rightarrow> string) \<Rightarrow> string \<Rightarrow> store \<Rightarrow> store \<Rightarrow> (json \<times> json \<times> string option) fset res" where
  "fold_ownership sha item_id s s' =
     res_bind (read_events s) (\<lambda>events.
     res_bind (fold_person_registry_events events) (\<lambda>_.
     res_bind (fold_person_membership s') (\<lambda>membership.
     res_bind (github_id_by_person (alias_items events)) (\<lambda>ids.
       Inr ((\<lambda>(person_id, role).
           (person_id, role, if person_id = JNull then None else resolve_contributor_slug sha ids person_id))
         |`| edges_of membership (JStr item_id))))))"

section \<open>Assigning a person\<close>

definition assign :: "env \<Rightarrow> bool \<Rightarrow> bool \<Rightarrow> string \<Rightarrow> string option \<Rightarrow> string \<Rightarrow> bool op" where
  "assign env mismatch retract item_id person_id role s =
     (if mismatch then (Inr False, s)
      else if retract
      then (case emit_item_person_retracted env item_id person_id role s of
              (Inl e, s') \<Rightarrow> (Inl e, s') | (Inr _, s') \<Rightarrow> (Inr False, s'))
      else (case emit_item_person_added env item_id person_id role s of
              (Inl e, s') \<Rightarrow> (Inl e, s') | (Inr _, s') \<Rightarrow> (Inr True, s')))"

section \<open>Folding one more event\<close>

lemma res_fold_snoc: "res_fold step (es @ [e]) s = res_bind (res_fold step es s) (step e)"
  by (induction es arbitrary: s) (auto simp: res_bind_def split: sum.splits)

lemma registry_snoc:
  "fold_person_registry_events evs = Inr r \<Longrightarrow> fold_person_registry_events (evs @ [e]) = registry_step e r"
  by (simp add: fold_person_registry_events_def res_fold_snoc)

lemma alias_items_snoc: "alias_items (evs @ [e]) = alias_item_step e (alias_items evs)"
  by (simp add: alias_items_def)

lemma alias_items_lookup:
  "fold_person_registry_events evs = Inr r \<Longrightarrow> map_of (alias_items evs) = fmlookup (aliases r)"
proof (induction evs arbitrary: r rule: rev_induct)
  case Nil
  then show ?case by (auto simp: alias_items_def fold_person_registry_events_def empty_registry_def)
next
  case (snoc e evs)
  then obtain r0 where r0: "fold_person_registry_events evs = Inr r0" "registry_step e r0 = Inr r"
    by (auto simp: fold_person_registry_events_def res_fold_snoc res_bind_Inr_iff)
  show ?case
    using snoc.IH [OF r0(1)] r0(2) unfolding alias_items_snoc
    by (auto simp: alias_item_step_def registry_step_def Let_def update_conv' delete_conv' split: if_splits)
qed

text \<open>The event of a person edge leaves the registry as it is and moves one edge.\<close>

definition person_edge_event :: "bool \<Rightarrow> string \<Rightarrow> string option \<Rightarrow> string \<Rightarrow> dict \<Rightarrow> bool" where
  "person_edge_event added item person role e =
     (dget e ''kind'' = JStr (if added then ''item_person_added'' else ''item_person_retracted'') \<and>
      dget e ''item_id'' = JStr item \<and> dget e ''person_id'' = opt_str person \<and> dget e ''role'' = JStr role)"

lemma edge_event_registry: "person_edge_event added item person role e \<Longrightarrow> registry_step e r = Inr r"
  by (auto simp: person_edge_event_def registry_step_def Let_def)

lemma edge_event_aliases: "person_edge_event added item person role e \<Longrightarrow> alias_item_step e items = items"
  by (auto simp: person_edge_event_def alias_item_step_def Let_def)

definition survivor :: "registry \<Rightarrow> string option \<Rightarrow> json res" where
  "survivor r person = (case person of None \<Rightarrow> Inr JNull | Some p \<Rightarrow> resolve_person (JStr p) r)"

lemma edge_event_membership:
  assumes "person_edge_event added item person role e" and "item \<noteq> []" and "role \<noteq> []"
    and "survivor r person = Inr q"
  shows "person_step r e m = Inr (fmupd (JStr item)
    (if added then finsert (q, JStr role) (edges_of m (JStr item)) else edges_of m (JStr item) |-| {|(q, JStr role)|}) m)"
  using assms by (cases person) (auto simp: person_edge_event_def person_step_def survivor_def Let_def)

lemma emitted_edge:
  assumes "(case payload of Inl e \<Rightarrow> (Inl e, s) | Inr p \<Rightarrow> emit env p pair s) = (Inr e, s')"
    and "payload = (if added then item_person_added item person role else item_person_retracted item person role)"
  shows "person_edge_event added item person role e \<and> role \<noteq> []"
proof -
  obtain p where p: "payload = Inr p" and em: "emit env p pair s = (Inr e, s')"
    using assms(1) by (auto split: sum.splits)
  have fields: "dget p ''kind'' = JStr (if added then ''item_person_added'' else ''item_person_retracted'')"
      "dget p ''item_id'' = JStr item" "dget p ''person_id'' = opt_str person" "dget p ''role'' = JStr role"
      "role \<in> set ITEM_PERSON_ROLES"
    using p assms(2)
    by (auto simp: item_person_added_def item_person_retracted_def reject_invalid_role_def dget_def split: if_splits)
  have "dget e ''item_id'' = JStr item"
    using em unfolding emit_def
    by (rule append_event_new) (use fields in \<open>auto simp: dget_stamp_event entity_event_def Let_def\<close>)
  moreover have "role \<noteq> []" using fields(5) by (auto simp: ITEM_PERSON_ROLES_def)
  ultimately show ?thesis using emit_field [OF em] fields(1,3,4) by (simp add: person_edge_event_def)
qed


definition edge_event_id :: "env \<Rightarrow> bool \<Rightarrow> string \<Rightarrow> string option \<Rightarrow> string \<Rightarrow> json" where
  "edge_event_id env added item person role =
     (let kind = JStr (if added then ''item_person_added'' else ''item_person_retracted'') in
      JStr (mint_event_id env kind (JList [JStr item, opt_str person, JStr role])
        (fmap_of_list [(''kind'', kind), (''item_id'', JStr item), (''person_id'', opt_str person), (''role'', JStr role)])
        (env_stamp env 0)))"

lemma assign_emits:
  assumes "assign env False retract item person role s = (Inr assigned, s')"
  obtains e p where "person_edge_event (\<not> retract) item person role e" and "role \<noteq> []" and "assigned = (\<not> retract)"
    and "emit env p (JList [JStr item, opt_str person, JStr role]) s = (Inr e, s')"
    and "event_id e = edge_event_id env (\<not> retract) item person role"
proof -
  let ?payload = "if \<not> retract then item_person_added item person role else item_person_retracted item person role"
  let ?pair = "JList [JStr item, opt_str person, JStr role]"
  have step: "\<exists>e p. ?payload = Inr p \<and> emit env p ?pair s = (Inr e, s')" and a: "assigned = (\<not> retract)"
    using assms
    by (auto simp: assign_def emit_item_person_added_def emit_item_person_retracted_def guarded_def
        split: if_splits sum.splits prod.splits)
  then obtain e p where p: "?payload = Inr p" and em: "emit env p ?pair s = (Inr e, s')" by blast
  have edge: "person_edge_event (\<not> retract) item person role e \<and> role \<noteq> []"
    by (rule emitted_edge [OF _ refl, where s = s and env = env and pair = ?pair and s' = s'])
      (use p em in simp)
  have "p = fmap_of_list [(''kind'', JStr (if \<not> retract then ''item_person_added'' else ''item_person_retracted'')),
      (''item_id'', JStr item), (''person_id'', opt_str person), (''role'', JStr role)]"
    using p by (auto simp: item_person_added_def item_person_retracted_def res_bind_Inr_iff split: if_splits)
  moreover from this have "dget p ''kind'' =
      JStr (if \<not> retract then ''item_person_added'' else ''item_person_retracted'')" by (simp add: dget_def)
  moreover have "event_id e = JStr (mint_event_id env (dget p ''kind'') ?pair p (env_stamp env 0))"
    using em unfolding emit_def
    by (rule append_event_new) (simp add: dget_stamp_event entity_event_fields event_id_def)
  ultimately have "event_id e = edge_event_id env (\<not> retract) item person role"
    by (simp add: edge_event_id_def Let_def)
  with edge a em show ?thesis by (intro that) auto
qed

section \<open>Ownership\<close>

definition owner_entry :: "(string \<Rightarrow> string) \<Rightarrow> (json \<rightharpoonup> json) \<Rightarrow> json \<times> json \<Rightarrow> json \<times> json \<times> string option" where
  "owner_entry sha ids =
     (\<lambda>(p, role). (p, role, if p = JNull then None else resolve_contributor_slug sha ids p))"

lemma owner_entry_mem:
  "(p, role, slug) |\<in>| owner_entry sha ids |`| A \<longleftrightarrow>
     (p, role) |\<in>| A \<and> slug = (if p = JNull then None else resolve_contributor_slug sha ids p)"
  by (force simp: owner_entry_def)

lemma fold_ownership_Inr:
  assumes "fold_ownership sha item s s = Inr owners" and "log_ok s evs" and "fold_person_registry s = Inr r"
  obtains m ids where "fold_person_registry_events evs = Inr r"
    and "res_fold (person_step r) evs fmempty = Inr m" and "github_id_by_person (alias_items evs) = Inr ids"
    and "owners = owner_entry sha ids |`| edges_of m (JStr item)"
proof -
  have read: "read_events s = Inr evs" using assms(2) by (simp add: log_ok_def)
  then have r: "fold_person_registry_events evs = Inr r" using assms(3) by (simp add: fold_person_registry_def)
  obtain m where m: "res_fold (person_step r) evs fmempty = Inr m"
    using assms(1) read r by (auto simp: fold_ownership_def fold_person_membership_def res_bind_Inr_iff)
  obtain ids where ids: "github_id_by_person (alias_items evs) = Inr ids"
    using assms(1) read r m by (auto simp: fold_ownership_def fold_person_membership_def res_bind_Inr_iff)
  have "owners = owner_entry sha ids |`| edges_of m (JStr item)"
    using assms(1) read r m ids by (simp add: fold_ownership_def fold_person_membership_def owner_entry_def)
  with r m ids show ?thesis by (rule that)
qed

text \<open>Ownership is answered with survivors only: an item lists a person in a role exactly when the
  last operation on that edge, over resolved ids, added it; the person is nobody or resolves to itself;
  and the slug is the one derived from the numeric id registered for it.\<close>

theorem ownership_of_survivors:
  assumes "log_ok s evs" and "fold_ownership sha item s s = Inr owners" and "fold_person_registry s = Inr r"
  shows "\<exists>ids. github_id_by_person (alias_items evs) = Inr ids \<and>
    ((p, role, slug) |\<in>| owners \<longleftrightarrow> latest (person_effect r) (JStr item, p, role) False evs \<and>
       slug = (if p = JNull then None else resolve_contributor_slug sha ids p)) \<and>
    ((p, role, slug) |\<in>| owners \<longrightarrow> p = JNull \<or> resolve_person p r = Inr p)"
proof -
  obtain m ids where r: "fold_person_registry_events evs = Inr r" and m: "res_fold (person_step r) evs fmempty = Inr m"
    and ids: "github_id_by_person (alias_items evs) = Inr ids"
    and owners: "owners = owner_entry sha ids |`| edges_of m (JStr item)"
    using assms(2,1,3) by (rule fold_ownership_Inr)
  have "fold_person_membership s = Inr m"
    using assms(1) r m by (simp add: fold_person_membership_def log_ok_def)
  note edge = person_membership_resolved [OF assms(1) this assms(3), of p role "JStr item"]
  have "(p, role, slug) |\<in>| owners \<longleftrightarrow> (p, role) |\<in>| edges_of m (JStr item) \<and>
      slug = (if p = JNull then None else resolve_contributor_slug sha ids p)"
    unfolding owners by (rule owner_entry_mem)
  then show ?thesis using ids edge by blast
qed

text \<open>Assigning and retracting are what ownership reports: after a successful assignment (with the
  clock ahead and a fresh event id) the item lists the survivor of the person in that role, after a
  retraction it does not, and every other edge of every item is as before.\<close>

theorem assign_updates_ownership:
  assumes "assign env False retract item person role s = (Inr assigned, s')"
    and "log_ok s evs" and "clock_ahead env evs"
    and "edge_event_id env (\<not> retract) item person role \<notin> event_id ` set evs"
    and "item \<noteq> []" and "fold_person_registry s = Inr r" and "survivor r person = Inr q"
    and "fold_ownership sha other s s = Inr owners"
  shows "assigned = (\<not> retract) \<and> (\<exists>slug. fold_ownership sha other s' s' = Inr
    (if other \<noteq> item then owners
     else if retract then owners |-| {|(q, JStr role, slug)|} else finsert (q, JStr role, slug) owners))"
proof -
  obtain e p where e: "person_edge_event (\<not> retract) item person role e" "role \<noteq> []" "assigned = (\<not> retract)"
    and em: "emit env p (JList [JStr item, opt_str person, JStr role]) s = (Inr e, s')"
    and id: "event_id e = edge_event_id env (\<not> retract) item person role"
    using assms(1) by (rule assign_emits)
  have read: "read_events s' = Inr (evs @ [e])" using emit_read [OF em assms(2,3)] id assms(4) by simp
  obtain m ids where r: "fold_person_registry_events evs = Inr r" and m: "res_fold (person_step r) evs fmempty = Inr m"
    and ids: "github_id_by_person (alias_items evs) = Inr ids"
    and owners: "owners = owner_entry sha ids |`| edges_of m (JStr other)"
    using assms(8,2,6) by (rule fold_ownership_Inr)
  let ?f = "owner_entry sha ids"
  let ?es = "if \<not> retract then finsert (q, JStr role) (edges_of m (JStr item))
     else edges_of m (JStr item) |-| {|(q, JStr role)|}"
  have "fold_person_membership s' = Inr (fmupd (JStr item) ?es m)"
    using edge_event_membership [OF e(1) assms(5) e(2) assms(7)] m
    by (simp add: fold_person_membership_def read registry_snoc [OF r] edge_event_registry [OF e(1)] res_fold_snoc)
  then have new: "fold_ownership sha other s' s' = Inr (?f |`| edges_of (fmupd (JStr item) ?es m) (JStr other))"
    using ids by (simp add: fold_ownership_def owner_entry_def read registry_snoc [OF r] edge_event_registry [OF e(1)]
        alias_items_snoc edge_event_aliases [OF e(1)])
  have "?f |`| (edges_of m (JStr item) |-| {|(q, JStr role)|}) = (?f |`| edges_of m (JStr item)) |-| {|?f (q, JStr role)|}"
    by (auto simp: owner_entry_def)
  moreover have "?f (q, JStr role) = (q, JStr role, if q = JNull then None else resolve_contributor_slug sha ids q)"
    by (simp add: owner_entry_def)
  ultimately show ?thesis using e(3) new by (auto simp: owners intro!: exI)
qed

section \<open>Minting joins the owner of an alias\<close>

lemma alias_owner_registry:
  assumes "fold_person_registry_events evs = Inr r" and "alias_owner_fold ns v evs None = Inr owner"
    and "\<forall>e \<in> set evs. dget e ''person_id'' \<noteq> JStr []" and "ns \<noteq> []"
  shows "fmlookup (aliases r) (JStr ns, JStr v) = map_option JStr owner"
  using assms(1-3)
proof (induction evs arbitrary: r owner rule: rev_induct)
  case Nil
  then show ?case by (auto simp: fold_person_registry_events_def empty_registry_def)
next
  case (snoc e evs)
  obtain r0 where r0: "fold_person_registry_events evs = Inr r0" "registry_step e r0 = Inr r"
    using snoc.prems(1) by (auto simp: fold_person_registry_events_def res_fold_snoc res_bind_Inr_iff)
  obtain o0 where o0: "alias_owner_fold ns v evs None = Inr o0" "alias_owner_fold ns v [e] o0 = Inr owner"
    using snoc.prems(2) by (auto simp: alias_owner_fold_snoc res_bind_Inr_iff)
  have "fmlookup (aliases r0) (JStr ns, JStr v) = map_option JStr o0"
    using snoc.IH [OF r0(1) o0(1)] snoc.prems(3) by simp
  moreover have "dget e ''person_id'' \<noteq> JStr []" using snoc.prems(3) by simp
  moreover have "JStr x = py_norm a \<longleftrightarrow> a = JStr x" for x a by (metis py_norm_JStr_iff)
  ultimately show ?case
    using r0(2) o0(2) assms(4)
    by (auto simp: registry_step_def Let_def split: if_splits json.splits)
qed

lemma created_is_quiet:
  assumes "emit_person_created env person_id name s = (Inr e, s')"
  shows "dget e ''kind'' = JStr ''person_created''" and "dget e ''namespace'' = JNull"
    and "dget e ''person_id'' = JStr person_id"
  using emit_field [OF assms [unfolded emit_person_created_def]] by (simp_all add: person_created_def dget_def)

lemma bundle_aliases_valid: "(ns, raw) \<in> set (bundle_aliases bun) \<Longrightarrow> ns \<in> set ALIAS_NAMESPACES \<and> ns \<noteq> []"
  by (auto simp: bundle_aliases_def BUNDLE_KEY_TO_NAMESPACE_def ALIAS_NAMESPACES_def split: option.splits)

text \<open>Minting is idempotent through the aliases: when the first alias of the resolved human already
  belongs to a person, the operation returns the survivor of that person and stores nothing but the
  creation event of the identity it had drawn, which no alias and no merge refers to.\<close>

theorem mint_joins_owner:
  assumes "bundle_aliases bun = (ns, raw) # rest"
    and "alias_owner ns (normalize_alias ns raw) s = Inr (Some p)" and "p \<noteq> mint_person_id (envs 0)"
    and "emit_person_created (envs 0) (mint_person_id (envs 0))
      (case fmlookup bun ''display'' of None \<Rightarrow> [] | Some d \<Rightarrow> d) s = (Inr e, s1)"
    and "log_ok s evs" and "clock_ahead (envs 0) evs" and "event_id e \<notin> event_id ` set evs"
    and "\<forall>x \<in> set evs. dget x ''person_id'' \<noteq> JStr []"
    and "fold_person_registry s = Inr r" and "resolve_person (JStr p) r = Inr q"
  shows "mint_person_core envs (\<lambda>_ s. s) bun s = (Inr (CollisionResolved, q), s1) \<and>
    read_events s1 = Inr (evs @ [e])"
proof -
  let ?v = "normalize_alias ns raw"
  have read: "read_events s = Inr evs" using assms(5) by (simp add: log_ok_def)
  have r: "fold_person_registry_events evs = Inr r" using assms(9) read by (simp add: fold_person_registry_def)
  have owner: "alias_owner_fold ns ?v evs None = Inr (Some p)" using assms(2) read by (simp add: alias_owner_def)
  have ns: "ns \<in> set ALIAS_NAMESPACES" "ns \<noteq> []" using bundle_aliases_valid [of ns raw bun] assms(1) by auto
  note quiet = created_is_quiet [OF assms(4)]
  have read1: "read_events s1 = Inr (evs @ [e])"
    using emit_read [OF assms(4) [unfolded emit_person_created_def] assms(5-7)] by blast
  have "alias_owner ns ?v s1 = Inr (Some p)"
    using owner quiet by (simp add: alias_owner_def read1 alias_owner_fold_snoc)
  then have refused: "emit_person_alias_added (envs 1) (mint_person_id (envs 0)) ns raw s1 =
      (Inl (TrackerEntityError ''alias collision''), s1)"
    using ns(1) assms(3)
    by (simp add: emit_person_alias_added_def person_alias_added_def reject_invalid_namespace_def)
  obtain r1 where r1: "registry_step e r = Inr r1" "aliases r1 = aliases r" "merges r1 = merges r"
    using quiet by (cases "mint_person_id (envs 0) = []") (auto simp: registry_step_def Let_def)
  have "fmlookup (aliases r1) (JStr ns, JStr ?v) = Some (JStr p)"
    using alias_owner_registry [OF r owner assms(8) ns(2)] by (simp add: r1(2))
  then have winner: "res_bind (fold_person_registry s1) (resolve_alias ns raw) = Inr (Some q)"
    using assms(10) r1 by (simp add: fold_person_registry_def read1 registry_snoc [OF r] resolve_alias_def resolve_person_def)
  have "bun \<noteq> fmempty" using assms(1) by (auto simp: bundle_aliases_def BUNDLE_KEY_TO_NAMESPACE_def)
  then show ?thesis
    using assms(4) refused winner read1 by (simp add: mint_person_core_def assms(1) Let_def)
qed

section \<open>Worked examples\<close>

definition run_env :: "nat \<Rightarrow> env" where
  "run_env k = ex_env\<lparr>env_stamp := (\<lambda>_. ''2026-08-02T1'' @ replicate k CHR ''1''),
     env_nonce := (\<lambda>_. ''p'' @ replicate k CHR ''i'')\<rparr>"

definition ann_bundle :: "(string, string) fmap" where
  "ann_bundle = fmap_of_list [(''github'', ''ann''), (''display'', ''Sam Lee'')]"

definition bob_bundle :: "(string, string) fmap" where
  "bob_bundle = fmap_of_list [(''github'', ''bob''), (''display'', ''Sam Lee'')]"

definition ann_store :: store where
  "ann_store = snd (mint_person_core run_env (\<lambda>_ s. s) ann_bundle empty_store)"

text \<open>Two people with one display name: the second is taken for the first, while its handle stays with the
  identity that was drawn for it.\<close>

theorem homonym_is_taken_over:
  "fst (mint_person_core run_env (\<lambda>_ s. s) ann_bundle empty_store) = Inr (Created, JStr ''p'') \<and>
   (case mint_person_core (\<lambda>k. run_env (k + 3)) (\<lambda>_ s. s) bob_bundle ann_store of
      (r, s) \<Rightarrow> r = Inr (CollisionResolved, JStr ''p'') \<and> alias_owner ''github'' ''bob'' s = Inr (Some ''piii''))"
  by code_simp

text \<open>The claim check of an alias reads the log before the lock is taken: two machines or processes that
  both read first both register the alias, and the later stamp owns it.\<close>

definition emit_alias_checked_at :: "store \<Rightarrow> env \<Rightarrow> string \<Rightarrow> string \<Rightarrow> string \<Rightarrow> dict op" where
  "emit_alias_checked_at read_store env person_id namespace raw_value =
     guarded (person_alias_added person_id namespace raw_value) (\<lambda>payload.
       guarded (alias_owner namespace (normalize_alias namespace raw_value) read_store) (\<lambda>existing_owner.
         if existing_owner \<noteq> None \<and> existing_owner \<noteq> Some person_id
         then raising (TrackerEntityError ''alias collision'')
         else emit env payload (JList [JStr namespace, JStr (normalize_alias namespace raw_value)])))"

lemma emit_alias_checked_atomic:
  "emit_alias_checked_at s env person_id namespace raw_value s = emit_person_alias_added env person_id namespace raw_value s"
  by (simp add: emit_alias_checked_at_def emit_person_alias_added_def)

theorem racing_alias_claims:
  "case emit_alias_checked_at empty_store (run_env 0) ''ann'' ''github'' ''sam'' empty_store of
     (Inl _, _) \<Rightarrow> False
   | (Inr _, s1) \<Rightarrow> alias_owner ''github'' ''sam'' s1 = Inr (Some ''ann'') \<and>
       (case emit_alias_checked_at empty_store (run_env 1) ''bob'' ''github'' ''sam'' s1 of
          (Inl _, _) \<Rightarrow> False
        | (Inr _, s2) \<Rightarrow> alias_owner ''github'' ''sam'' s2 = Inr (Some ''bob''))"
  by code_simp

text \<open>Assigning does not look the item up: an edge for an item that no event created is stored.\<close>

theorem unknown_item_assigned:
  "case assign (run_env 0) False False ''nowhere'' (Some ''ann'') ''watcher'' empty_store of
     (r, s) \<Rightarrow> r = Inr True \<and> s \<noteq> empty_store"
  by code_simp

text \<open>A numeric id that was registered for a person who was merged away: the alias resolves to the
  survivor, whose ownership entry has no slug.\<close>

definition merged_events :: "dict list" where
  "merged_events =
     [ex_fact ''e1'' [(''kind'', ''person_alias_added''), (''namespace'', ''github_id''),
        (''normalized_value'', ''7''), (''person_id'', ''ann'')],
      ex_fact ''e2'' [(''kind'', ''person_merged''), (''from_id'', ''ann''), (''into_id'', ''bob'')],
      ex_fact ''e3'' [(''kind'', ''item_person_added''), (''item_id'', ''itm''), (''person_id'', ''ann''),
        (''role'', ''assignee'')]]"

definition merged_store :: store where
  "merged_store = \<lparr>dir_exists = True, live = [(''rig'', map (\<lambda>e. Line (JObj e)) merged_events)], rotated = []\<rparr>"

theorem merged_github_id_lost:
  "res_bind (fold_person_registry merged_store) (resolve_alias ''github_id'' ''7'') = Inr (Some (JStr ''bob'')) \<and>
   fold_ownership (\<lambda>_. []) ''itm'' merged_store merged_store = Inr {|(JStr ''bob'', JStr ''assignee'', None)|} \<and>
   derive_contributor_slug (\<lambda>_. []) (JInt 7) = Some ''000000000''"
  by code_simp

section \<open>Witnesses\<close>

lemma social_owner: "alias_owner ''email'' (normalize_alias ''email'' ''A@X'') ex_social = Inr (Some ''ann'')"
  by code_simp

lemma social_bundle: "bundle_aliases (fmap_of_list [(''email'', ''A@X'')]) = [(''email'', ''A@X'')]"
  by code_simp

lemma social_clock: "clock_ahead (run_env 0) ex_social_events"
  by code_simp

theorem mint_joins_owner_witness:
  "\<exists>q s1. mint_person_core run_env (\<lambda>_ s. s) (fmap_of_list [(''email'', ''A@X'')]) ex_social =
     (Inr (CollisionResolved, q), s1)"
proof -
  let ?b = "fmap_of_list [(''email'', ''A@X'')]"
  let ?em = "emit_person_created (run_env 0) (mint_person_id (run_env 0))
      (case fmlookup ?b ''display'' of None \<Rightarrow> [] | Some d \<Rightarrow> d) ex_social"
  have "case ?em of (Inr e, _) \<Rightarrow> event_id e \<notin> event_id ` set ex_social_events | (Inl _, _) \<Rightarrow> False" by code_simp
  then obtain e s1 where em: "?em = (Inr e, s1)" "event_id e \<notin> event_id ` set ex_social_events"
    by (cases ?em) (auto split: sum.splits)
  have pid: "''ann'' \<noteq> mint_person_id (run_env 0)" by code_simp
  have "list_all (\<lambda>x. dget x ''person_id'' \<noteq> JStr []) ex_social_events" by code_simp
  then have ids: "\<forall>x \<in> set ex_social_events. dget x ''person_id'' \<noteq> JStr []" by (simp add: list_all_iff)
  have "case resolve_person (JStr ''ann'') ex_registry of Inr _ \<Rightarrow> True | Inl _ \<Rightarrow> False" by code_simp
  then obtain q where q: "resolve_person (JStr ''ann'') ex_registry = Inr q" by (auto split: sum.splits)
  show ?thesis
    using mint_joins_owner [where envs = run_env, OF social_bundle social_owner pid em(1) ex_social_facts(1) social_clock em(2) ids
        ex_social_facts(3) q] by blast
qed

lemma social_owned: "\<exists>owners. fold_ownership (\<lambda>_. []) ''itm'' ex_social ex_social = Inr owners"
proof -
  have "case fold_ownership (\<lambda>_. []) ''itm'' ex_social ex_social of Inr _ \<Rightarrow> True | Inl _ \<Rightarrow> False" by code_simp
  then show ?thesis by (auto split: sum.splits)
qed

theorem ownership_of_survivors_witness:
  "\<exists>owners. fold_ownership (\<lambda>_. []) ''itm'' ex_social ex_social = Inr owners \<and>
     (\<forall>p role slug. (p, role, slug) |\<in>| owners \<longrightarrow> p = JNull \<or> resolve_person p ex_registry = Inr p)"
proof -
  obtain owners where o: "fold_ownership (\<lambda>_. []) ''itm'' ex_social ex_social = Inr owners" using social_owned by blast
  then show ?thesis using ownership_of_survivors [OF ex_social_facts(1) o ex_social_facts(3)] by blast
qed

theorem assign_updates_ownership_witness:
  "\<exists>s' owners' slug. assign (run_env 0) False False ''itm'' (Some ''cat'') ''watcher'' ex_social = (Inr True, s') \<and>
     fold_ownership (\<lambda>_. []) ''itm'' s' s' = Inr owners' \<and> (JStr ''cat'', JStr ''watcher'', slug) |\<in>| owners'"
proof -
  let ?a = "assign (run_env 0) False False ''itm'' (Some ''cat'') ''watcher'' ex_social"
  have "case ?a of (Inr b, _) \<Rightarrow> b | (Inl _, _) \<Rightarrow> False" by code_simp
  then obtain s' where a: "?a = (Inr True, s')" by (cases ?a) (auto split: sum.splits)
  have fresh: "edge_event_id (run_env 0) (\<not> False) ''itm'' (Some ''cat'') ''watcher'' \<notin> event_id ` set ex_social_events"
    by code_simp
  have q: "survivor ex_registry (Some ''cat'') = Inr (JStr ''cat'')" by code_simp
  obtain owners where o: "fold_ownership (\<lambda>_. []) ''itm'' ex_social ex_social = Inr owners" using social_owned by blast
  show ?thesis
    using assign_updates_ownership [OF a ex_social_facts(1) social_clock fresh _ ex_social_facts(3) q o] a by auto
qed

end
