(* ===== verification/Tracker_Envelope.thy ===== *)
theory Tracker_Envelope
  imports Tracker_Membership
begin

text \<open>
  The export of the log (\<open>coordinator_core/tracker_envelope.py\<close>): one object that holds every applied event
  and one entry per item with its projects.
\<close>

section \<open>The envelope\<close>

definition TRACKER_ITEMS_KEY :: string where
  "TRACKER_ITEMS_KEY = ''tracker_items''"

definition TRACKER_EVENTS_KEY :: string where
  "TRACKER_EVENTS_KEY = ''tracker_events''"

definition envelope_item :: "(json, json list) fmap \<Rightarrow> dict \<Rightarrow> json list res" where
  "envelope_item projects_by_item event =
     (let item_id = dget event ''item_id'' in
      if dget event ''kind'' \<noteq> JStr ''item_created'' \<or> \<not> truthy item_id then Inr []
      else if \<not> hashable item_id then Inl TypeErr
      else (case fmlookup projects_by_item (py_norm item_id) of
              None \<Rightarrow> Inl (KeyErr ''item_id'')
            | Some projects \<Rightarrow>
                Inr [JObj (fmap_of_list
                  [(''id'', item_id), (''title'', dget event ''title''), (''body'', dget event ''body''),
                   (''created_at'', dget event ''created_at''), (''projects'', JList projects)])]))"

text \<open>The events and the membership come from two readings of the log: \<open>s\<close> and \<open>t\<close> are what they find.\<close>

definition build_ingest_envelope :: "store \<Rightarrow> store \<Rightarrow> dict res" where
  "build_ingest_envelope s t =
     res_bind (read_events s) (\<lambda>events.
     res_bind (fold_membership_wire t) (\<lambda>projects_by_item.
     res_bind (res_map (envelope_item projects_by_item) events) (\<lambda>items.
       Inr (fmap_of_list [(TRACKER_ITEMS_KEY, JList (concat items)),
         (TRACKER_EVENTS_KEY, JList (map JObj events))]))))"

section \<open>A later reading sees every earlier event\<close>

lemma store_step_lines:
  assumes "store_step s t" and "store_wf s"
  shows "store_wf t \<and> store_lines s \<subseteq># store_lines t \<and> (dir_exists s \<longrightarrow> dir_exists t)"
proof -
  have grow: "store_lines s \<subseteq># store_lines (write_live m (live_lines s m @ ls) s)" for m ls
    using store_lines_write_live [OF assms(2), of m "live_lines s m @ ls"] by simp
  have dir: "dir_exists (write_live m ls s)" for m ls by (simp add: write_live_def)
  from assms(1) show ?thesis
  proof cases
    case (one env ev key r)
    then show ?thesis
      by (cases rule: append_event_cases) (use assms(2) grow dir in auto)
  next
    case (batch env evs r)
    then show ?thesis
      by (cases rule: append_events_cases) (use assms(2) grow dir in auto)
  qed
qed

lemma store_steps_lines:
  "store_step\<^sup>*\<^sup>* s t \<Longrightarrow> store_wf s \<Longrightarrow>
     store_wf t \<and> store_lines s \<subseteq># store_lines t \<and> (dir_exists s \<longrightarrow> dir_exists t)"
proof (induction rule: rtranclp_induct)
  case (step t u)
  then show ?case using store_step_lines [OF step.hyps(2)] by (auto intro: subset_mset.order_trans)
qed simp

lemma read_events_mem:
  assumes "read_events s = Inr evs" and "dir_exists s"
  shows "e \<in> set evs \<longleftrightarrow> Line (JObj e) \<in># store_lines s \<and> is_applied e"
proof -
  obtain rs where rs: "concat (glob_shards s) = map (\<lambda>d. Line (JObj d)) rs"
    and evs: "evs = sort_key sort_id (filter is_applied rs)"
    using assms by (rule read_events_Inr)
  have "Line (JObj e) \<in># store_lines s \<longleftrightarrow> e \<in> set rs"
    unfolding mset_glob_shards [symmetric] rs by auto
  then show ?thesis by (auto simp: evs)
qed

lemma later_reading:
  assumes "store_step\<^sup>*\<^sup>* s t" and "store_wf s" and "read_events s = Inr evs" and "read_events t = Inr evs'"
  shows "set evs \<subseteq> set evs'"
proof (cases "dir_exists s")
  case True
  then have t: "store_lines s \<subseteq># store_lines t" "dir_exists t" using store_steps_lines [OF assms(1,2)] by auto
  then show ?thesis
    using read_events_mem [OF assms(3) True] read_events_mem [OF assms(4) t(2)] mset_subset_eqD by fastforce
next
  case False
  then show ?thesis using assms(3) by (simp add: read_events_def)
qed

section \<open>Completeness of the envelope\<close>

lemma membership_fold_hashable:
  "res_fold membership_step es m = Inr m' \<Longrightarrow> e \<in> set es \<Longrightarrow> dget e ''kind'' = JStr ''item_created'' \<Longrightarrow>
     truthy (dget e ''item_id'') \<Longrightarrow> hashable (dget e ''item_id'')"
proof (induction es arbitrary: m)
  case (Cons e' es)
  then obtain t where "membership_step e' m = Inr t" "res_fold membership_step es t = Inr m'"
    by (auto simp: res_bind_Inr_iff)
  then show ?case using Cons by (auto simp: membership_step_def Let_def split: if_splits)
qed simp

lemma sorted_members_nonempty: "sorted_members ps = Inr xs \<Longrightarrow> ps \<noteq> {||} \<Longrightarrow> xs \<noteq> []"
proof -
  assume xs: "sorted_members ps = Inr xs" and ne: "ps \<noteq> {||}"
  have "fset (order_key |`| ps) \<noteq> {}" using ne by auto
  then have "sorted_list_of_fset (order_key |`| ps) \<noteq> []"
    using sorted_list_of_fset_simps(1) [of "order_key |`| ps"] by force
  then show "xs \<noteq> []" using xs by (auto simp: sorted_members_def split: if_splits)
qed

lemma wire_Inr:
  assumes "fold_membership_wire t = Inr wire"
  obtains folded where "fold_membership t = Inr folded"
    and "\<And>i ps. fmlookup folded i = Some ps \<Longrightarrow> ps \<noteq> {||} \<and>
      (\<exists>xs. sorted_members ps = Inr xs \<and> fmlookup wire i = Some xs \<and> xs \<noteq> [])"
proof -
  obtain folded where f: "fold_membership t = Inr folded"
      and ok: "\<not> fBex (fmran folded) (\<lambda>ps. sorted_members ps = Inl TypeErr)"
      and wire: "wire = fmmap (\<lambda>ps. case sorted_members ps of Inr xs \<Rightarrow> xs | Inl _ \<Rightarrow> []) folded"
    using assms by (auto simp: fold_membership_wire_def res_bind_Inr_iff split: if_splits)
  have "ps \<noteq> {||} \<and> (\<exists>xs. sorted_members ps = Inr xs \<and> fmlookup wire i = Some xs \<and> xs \<noteq> [])"
    if look: "fmlookup folded i = Some ps" for i ps
  proof -
    have ne: "ps \<noteq> {||}" using f look by (elim fold_membership_Inr) (auto split: if_splits)
    have "ps |\<in>| fmran folded" using look by (rule fmranI)
    then have "sorted_members ps \<noteq> Inl TypeErr" using ok by blast
    then obtain xs where xs: "sorted_members ps = Inr xs" by (auto simp: sorted_members_def split: if_splits)
    then show ?thesis using ne sorted_members_nonempty [OF xs ne] look wire by simp
  qed
  with f show ?thesis by (rule that)
qed

text \<open>Whatever other writers append between the two readings, the envelope exists whenever the
  membership can be folded; it carries the events unmodified and in reading order, and exactly one entry
  per item that the log created, with the item's own fields and its sorted, never empty projects.\<close>

theorem envelope_complete:
  assumes "store_wf s" and "read_events s = Inr evs" and "store_step\<^sup>*\<^sup>* s t"
    and "fold_membership_wire t = Inr wire" and "fold_membership t = Inr folded"
  shows "\<exists>items. build_ingest_envelope s t = Inr (fmap_of_list
      [(TRACKER_ITEMS_KEY, JList items), (TRACKER_EVENTS_KEY, JList (map JObj evs))]) \<and>
    list_all2 (\<lambda>item e. \<exists>ps xs. fmlookup folded (py_norm (dget e ''item_id'')) = Some ps \<and>
        sorted_members ps = Inr xs \<and> xs \<noteq> [] \<and>
        item = JObj (fmap_of_list [(''id'', dget e ''item_id''), (''title'', dget e ''title''),
          (''body'', dget e ''body''), (''created_at'', dget e ''created_at''), (''projects'', JList xs)]))
      items (filter (\<lambda>e. dget e ''kind'' = JStr ''item_created'' \<and> truthy (dget e ''item_id'')) evs)"
proof -
  obtain evs' m where evs': "read_events t = Inr evs'" "res_fold membership_step evs' fmempty = Inr m"
    using assms(5) by (rule fold_membership_Inr)
  have sub: "set evs \<subseteq> set evs'" using assms(3,1,2) evs'(1) by (rule later_reading)
  let ?item = "\<lambda>e xs. JObj (fmap_of_list [(''id'', dget e ''item_id''), (''title'', dget e ''title''),
          (''body'', dget e ''body''), (''created_at'', dget e ''created_at''), (''projects'', JList xs)])"
  let ?ok = "\<lambda>e. dget e ''kind'' = JStr ''item_created'' \<and> truthy (dget e ''item_id'')"
  have known: "\<exists>ps xs. fmlookup folded (py_norm (dget e ''item_id'')) = Some ps \<and> sorted_members ps = Inr xs \<and>
      xs \<noteq> [] \<and> envelope_item wire e = Inr [?item e xs]" if e: "e \<in> set evs" "?ok e" for e
  proof -
    have mem: "e \<in> set evs'" using e(1) sub by blast
    then have "mentions_item e (py_norm (dget e ''item_id''))" using e(2) by (simp add: mentions_item_def)
    then have "py_norm (dget e ''item_id'') |\<in>| fmdom m" using membership_fold_dom [OF evs'(2)] mem by blast
    moreover have "fmdom folded = fmdom m"
      using assms(5) evs' by (elim fold_membership_Inr) auto
    ultimately obtain ps where ps: "fmlookup folded (py_norm (dget e ''item_id'')) = Some ps"
      by (metis fmdom_notI not_None_eq)
    then obtain xs where "sorted_members ps = Inr xs" "xs \<noteq> []"
        "fmlookup wire (py_norm (dget e ''item_id'')) = Some xs"
      using wire_Inr [OF assms(4)] assms(5) by (metis sum.inject(2))
    then show ?thesis
      using ps e(2) membership_fold_hashable [OF evs'(2) mem] by (auto simp: envelope_item_def Let_def)
  qed
  have "\<exists>items. res_map (envelope_item wire) es = Inr items \<and>
      list_all2 (\<lambda>item e. \<exists>ps xs. fmlookup folded (py_norm (dget e ''item_id'')) = Some ps \<and>
        sorted_members ps = Inr xs \<and> xs \<noteq> [] \<and> item = ?item e xs) (concat items) (filter ?ok es)"
    if "set es \<subseteq> set evs" for es
    using that
  proof (induction es)
    case (Cons e es)
    then obtain items where items: "res_map (envelope_item wire) es = Inr items"
      "list_all2 (\<lambda>item e. \<exists>ps xs. fmlookup folded (py_norm (dget e ''item_id'')) = Some ps \<and>
        sorted_members ps = Inr xs \<and> xs \<noteq> [] \<and> item = ?item e xs) (concat items) (filter ?ok es)" by auto
    show ?case
    proof (cases "?ok e")
      case True
      then show ?thesis using known [of e] Cons.prems items by force
    next
      case False
      then have "envelope_item wire e = Inr []" by (auto simp: envelope_item_def Let_def)
      then show ?thesis using False items by auto
    qed
  qed simp
  from this [of evs] show ?thesis using assms(2,4) by (auto simp: build_ingest_envelope_def)
qed

definition late_event :: dict where
  "late_event = ex_event ''evt-late''"

text \<open>A log of one item in two projects, to which a note is appended between the readings.\<close>

definition item_store :: store where
  "item_store = \<lparr>dir_exists = True, live = [(''rig'', map (\<lambda>e. Line (JObj e))
     [fmupd ''kind'' (JStr ''item_created'') (fmupd ''item_id'' (JStr ''itm'') (ex_event ''evt-a'')),
      fmupd ''kind'' (JStr ''item_project_added'') (fmupd ''item_id'' (JStr ''itm'')
        (fmupd ''project_id'' (JStr ''ui'') (ex_event ''evt-b''))),
      fmupd ''kind'' (JStr ''item_project_added'') (fmupd ''item_id'' (JStr ''itm'')
        (fmupd ''project_id'' (JStr ''core'') (ex_event ''evt-c'')))])], rotated = []\<rparr>"

theorem envelope_complete_witness:
  "\<exists>t env items. store_step item_store t \<and> build_ingest_envelope item_store t = Inr env \<and>
     fmlookup env TRACKER_ITEMS_KEY = Some (JList items)"
proof -
  let ?app = "append_event (ex_env\<lparr>env_slug := ''lap''\<rparr>) late_event None item_store"
  define t where "t = snd ?app"
  have wf: "store_wf item_store" by code_simp
  have "case read_events item_store of Inr _ \<Rightarrow> True | Inl _ \<Rightarrow> False" by code_simp
  then obtain evs where evs: "read_events item_store = Inr evs" by (auto split: sum.splits)
  have step: "store_step item_store t" unfolding t_def by (rule store_step.one) (rule surjective_pairing)
  have "case fold_membership_wire t of Inr _ \<Rightarrow> True | Inl _ \<Rightarrow> False" unfolding t_def by code_simp
  then obtain wire where wire: "fold_membership_wire t = Inr wire" by (auto split: sum.splits)
  then obtain folded where folded: "fold_membership t = Inr folded"
    by (auto simp: fold_membership_wire_def res_bind_Inr_iff)
  have "fmlookup (fmap_of_list [(TRACKER_ITEMS_KEY, JList items), (TRACKER_EVENTS_KEY, JList es)])
      TRACKER_ITEMS_KEY = Some (JList items)" for items es by simp
  then show ?thesis
    using envelope_complete [OF wf evs r_into_rtranclp [of store_step, OF step] wire folded] step by metis
qed

end
