(* ===== verification/Tracker_Holder.thy ===== *)
theory Tracker_Holder
  imports Tracker_Ids
begin

text \<open>
  Where a write goes (\<open>coordinator_core/tracker_holder.py\<close>), on top of the machine-local registry
  (\<open>registry_get\<close> of \<open>coordinator_core/machine_resolver.py\<close>). Paths are strings; whether a path exists and
  what it resolves to are parameters.
\<close>

section \<open>The registry\<close>

text \<open>A parsed TOML value: a scalar as \<open>str\<close> shows it, a list of such, or a table.\<close>

datatype toml = Scalar string | Items "string list" | Table "(string \<times> toml) list"

text \<open>\<open>out.update(...)\<close>: the last occurrence of a key stays.\<close>

function flatten_toml :: "string \<Rightarrow> (string \<times> toml) list \<Rightarrow> string \<rightharpoonup> toml" where
  "flatten_toml pre [] = Map.empty"
| "flatten_toml pre ((k, v) # rest) =
     (if k = ''schema'' \<or> k = ''concerns'' then flatten_toml pre rest
      else (case v of
              Table entries \<Rightarrow> flatten_toml (pre @ k @ ''.'') entries ++ flatten_toml pre rest
            | _ \<Rightarrow> [pre @ k \<mapsto> v] ++ flatten_toml pre rest))"
  by pat_completeness auto
termination
  by (relation "measure (\<lambda>(_, es). size_list (size_prod (\<lambda>_. 0) size) es)") auto

text \<open>\<open>str.upper\<close>; the keys of the registry are ASCII.\<close>

definition upper_char :: "char \<Rightarrow> char" where
  "upper_char c = (if in_range (CHR ''a'') (CHR ''z'') c then char_of (of_char c - 32 :: nat) else c)"

definition env_override_key :: "string \<Rightarrow> string" where
  "env_override_key key = ''MACHINE_LOCAL_'' @ map (\<lambda>c. if c = CHR ''.'' then CHR ''_'' else upper_char c) key"

fun join_lines :: "string list \<Rightarrow> string" where
  "join_lines [] = []"
| "join_lines [x] = x"
| "join_lines (x # xs) = x @ [CHR 0x0A] @ join_lines xs"

fun toml_str :: "toml \<Rightarrow> string" where
  "toml_str (Scalar s) = s"
| "toml_str (Items xs) = join_lines xs"
| "toml_str (Table _) = []"

fun first_declared :: "string \<Rightarrow> (string \<times> toml) list list \<Rightarrow> string option" where
  "first_declared key [] = None"
| "first_declared key (f # fs) =
     (case flatten_toml [] f key of
        Some v \<Rightarrow> if toml_str v \<noteq> [] then Some (toml_str v) else first_declared key fs
      | None \<Rightarrow> first_declared key fs)"

text \<open>\<open>files\<close> are \<open>registry.local.toml\<close> and \<open>registry.toml\<close>.\<close>

definition registry_get_exact :: "(string \<Rightarrow> string option) \<Rightarrow> (string \<times> toml) list list \<Rightarrow> string \<Rightarrow> string option" where
  "registry_get_exact getenv files key =
     (case getenv (env_override_key key) of
        Some v \<Rightarrow> if v \<noteq> [] then Some v else first_declared key files
      | None \<Rightarrow> first_declared key files)"

definition content_root_pair :: "string \<Rightarrow> string option" where
  "content_root_pair key =
     (if key = ''repos.content_root'' then Some ''repos.doe_claude''
      else if key = ''repos.doe_claude'' then Some ''repos.content_root'' else None)"

definition registry_get :: "(string \<Rightarrow> string option) \<Rightarrow> (string \<times> toml) list list \<Rightarrow> string \<Rightarrow> string option" where
  "registry_get getenv files key =
     (case registry_get_exact getenv files key of
        Some v \<Rightarrow> Some v
      | None \<Rightarrow> (case content_root_pair key of
                  Some key' \<Rightarrow> registry_get_exact getenv files key'
                | None \<Rightarrow> None))"

section \<open>The holder\<close>

text \<open>What the resolution reads of the host: the registry, which paths exist, and the path that
  \<open>Path.resolve\<close> gives.\<close>

record host =
  registry_of :: "string \<Rightarrow> string option"
  path_exists :: "string \<Rightarrow> bool"
  resolve_path :: "string \<Rightarrow> string"

text \<open>The \<open>RuntimeError\<close>s, one constructor per rung.\<close>

datatype holder_error =
    HolderUnset
  | HolderKeyUnset
  | HolderNotCloned
  | SourceTreeUnknown
  | HolderIsSourceTree
  | HolderIsCaller
  | EmptyOwner
  | NotAMember
  | OwnerKeyUnset
  | OwnerNotCloned

definition ROLE_KEY :: string where
  "ROLE_KEY = ''tracker.holder_repo''"

definition SOURCE_TREE_KEY :: string where
  "SOURCE_TREE_KEY = ''repos.claude_klabauter''"

definition claude_klabauter_source_tree :: "host \<Rightarrow> holder_error + string" where
  "claude_klabauter_source_tree h =
     (case registry_of h SOURCE_TREE_KEY of
        Some v \<Rightarrow> if v = [] then Inl SourceTreeUnknown else Inr v
      | None \<Rightarrow> Inl SourceTreeUnknown)"

definition resolve_repos_key_for_slug :: "host \<Rightarrow> string \<Rightarrow> holder_error + string" where
  "resolve_repos_key_for_slug h slug =
     (case registry_of h (''repo_slug.'' @ slug) of
        Some v \<Rightarrow> if v = [] then Inl NotAMember else Inr v
      | None \<Rightarrow> Inl NotAMember)"

definition holder_repo_root :: "host \<Rightarrow> holder_error + string" where
  "holder_repo_root h =
     (case registry_of h ROLE_KEY of
        None \<Rightarrow> Inl HolderUnset
      | Some holder_key \<Rightarrow>
          if holder_key = [] then Inl HolderUnset
          else (case registry_of h (''repos.'' @ holder_key) of
                  None \<Rightarrow> Inl HolderKeyUnset
                | Some holder_path \<Rightarrow>
                    if holder_path = [] then Inl HolderKeyUnset
                    else if \<not> path_exists h holder_path then Inl HolderNotCloned
                    else (case claude_klabauter_source_tree h of
                            Inl e \<Rightarrow> Inl e
                          | Inr source \<Rightarrow>
                              if resolve_path h holder_path = resolve_path h source then Inl HolderIsSourceTree
                              else Inr holder_path)))"

definition write_root_for :: "host \<Rightarrow> string option \<Rightarrow> string \<Rightarrow> holder_error + string" where
  "write_root_for h owning_repo repo_root =
     (case owning_repo of
        None \<Rightarrow>
          (case holder_repo_root h of
             Inl e \<Rightarrow> Inl e
           | Inr resolved \<Rightarrow>
               if resolve_path h resolved = resolve_path h repo_root then Inl HolderIsCaller else Inr resolved)
      | Some slug \<Rightarrow>
          if slug = [] then Inl EmptyOwner
          else (case resolve_repos_key_for_slug h slug of
                  Inl e \<Rightarrow> Inl e
                | Inr repo_key \<Rightarrow>
                    (case registry_of h (''repos.'' @ repo_key) of
                       None \<Rightarrow> Inl OwnerKeyUnset
                     | Some owner_path \<Rightarrow>
                         if owner_path = [] then Inl OwnerKeyUnset
                         else if \<not> path_exists h owner_path then Inl OwnerNotCloned
                         else Inr owner_path)))"

section \<open>What a resolved root guarantees\<close>

lemma first_declared_nonempty: "first_declared key fs = Some v \<Longrightarrow> v \<noteq> []"
  by (induction fs) (auto split: option.splits if_splits)

lemma registry_get_nonempty: "registry_get getenv files key = Some v \<Longrightarrow> v \<noteq> []"
  by (auto simp: registry_get_def registry_get_exact_def dest: first_declared_nonempty split: option.splits if_splits)

text \<open>A write never lands by default: a root that is returned exists on disk; for an unowned write it
  is the designated holder, which is neither the engine's own source tree nor the caller's repository,
  and for a stated owner it is the repository registered under that slug, whatever the holder is set to.\<close>

theorem write_root_resolved:
  "(case write_root_for h owner repo_root of
      Inl e \<Rightarrow> True
    | Inr root \<Rightarrow>
        path_exists h root \<and> root \<noteq> [] \<and>
        (case owner of
           None \<Rightarrow> resolve_path h root \<noteq> resolve_path h repo_root \<and>
             (\<exists>key source. registry_of h ROLE_KEY = Some key \<and> registry_of h (''repos.'' @ key) = Some root \<and>
                registry_of h SOURCE_TREE_KEY = Some source \<and> resolve_path h root \<noteq> resolve_path h source)
         | Some slug \<Rightarrow> slug \<noteq> [] \<and> (\<exists>key. registry_of h (''repo_slug.'' @ slug) = Some key \<and>
                registry_of h (''repos.'' @ key) = Some root))) \<and>
   write_root_for (h\<lparr>registry_of := (registry_of h)(ROLE_KEY := v)\<rparr>) (Some name) repo_root =
      write_root_for h (Some name) repo_root"
proof (rule conjI)
  have keys: "''repo_slug.'' @ slug \<noteq> ROLE_KEY" "''repos.'' @ key \<noteq> ROLE_KEY" for slug key :: string
    by (simp_all add: ROLE_KEY_def)
  then show "write_root_for (h\<lparr>registry_of := (registry_of h)(ROLE_KEY := v)\<rparr>) (Some name) repo_root =
      write_root_for h (Some name) repo_root"
    unfolding write_root_for_def resolve_repos_key_for_slug_def
    by (auto split: option.splits sum.splits if_splits)
qed (auto simp: write_root_for_def resolve_repos_key_for_slug_def holder_repo_root_def
    claude_klabauter_source_tree_def split: option.splits sum.splits if_splits)

end
