(* ===== verification/Tracker_Push.thy ===== *)
theory Tracker_Push
  imports Tracker_Entities Tracker_Holder
begin

text \<open>
  Accepting an item event from outside (\<open>coordinator_core/ops/tracker/push_suggestion.py\<close>): the owner of
  the event decides whether it is appended to the caller's own log or delivered, as one new file, to the
  inbox of another repository.

  The content of a delivered file is the record of its fields; git (\<open>check-ignore\<close>, the commit) and the
  layout of the receiver's inbox are parameters. Registry values do not contain the text by which the
  module recognises the refusal of an unknown slug.
\<close>

section \<open>Requests\<close>

datatype push_error =
    Malformed
  | Unauthorized
  | SchemaStale
  | DuplicateDelivery
  | KeyMisuse json
  | Refused
  | StoreFailure pyerr
  | HolderFailure holder_error

definition CONTRACT_VERSION :: int where
  "CONTRACT_VERSION = 1"

definition resolve_owning_repo :: "dict \<Rightarrow> push_error + string option" where
  "resolve_owning_repo event =
     (case (if dget event ''scope'' = JStr ''fleet-authored''
            then (case dget event ''authority'' of
                    JObj authority \<Rightarrow>
                      if truthy (dget authority ''emitter_repo'') then Inr (dget authority ''emitter_repo'')
                      else Inl Malformed
                  | _ \<Rightarrow> Inl Malformed)
            else Inr (dget event ''repo'')) of
        Inl e \<Rightarrow> Inl e
      | Inr JNull \<Rightarrow> Inr None
      | Inr (JStr s) \<Rightarrow> Inr (if s = [] then None else Some s)
      | Inr _ \<Rightarrow> Inl Malformed)"

definition mint_push_event_id :: "env \<Rightarrow> dict \<Rightarrow> string option \<Rightarrow> string" where
  "mint_push_event_id env event idempotency_key =
     (let nonce = (case idempotency_key of
                     Some k \<Rightarrow> JList [JStr ''k'', JStr k]
                   | None \<Rightarrow> JList [JStr ''t'', JStr (env_stamp env 0)]) in
      ''evt-'' @ env_slug env @ ''-'' @ take 12 (env_sha env (JList [JObj event, nonce])))"

section \<open>Delivery to a peer\<close>

record envelope_file =
  envelope_kind :: string
  envelope_owner :: "string option"
  delivered_at :: string
  sensitivity_tier :: json
  envelope_event :: dict

definition EVENT_KIND_FRONTMATTER_LABEL :: string where
  "EVENT_KIND_FRONTMATTER_LABEL = ''sovereign-tracker-event''"

definition compose_envelope :: "env \<Rightarrow> string option \<Rightarrow> dict \<Rightarrow> envelope_file" where
  "compose_envelope env owning_repo event =
     \<lparr>envelope_kind = EVENT_KIND_FRONTMATTER_LABEL, envelope_owner = owning_repo,
      delivered_at = env_stamp env 1, sensitivity_tier = dget event ''sensitivity_tier'', envelope_event = event\<rparr>"

record receiver =
  inbox_root :: "string \<Rightarrow> string"
  resolved_parent :: "string \<Rightarrow> string"
  check_ignore :: "string \<Rightarrow> string \<Rightarrow> int"
  commit_refusal :: "string \<Rightarrow> string \<Rightarrow> string option"

record push_state =
  own_log :: store
  peer_files :: "string \<rightharpoonup> envelope_file"

datatype delivery = Local dict | Peer string "string option"

definition deliver_envelope ::
  "env \<Rightarrow> receiver \<Rightarrow> string \<Rightarrow> string option \<Rightarrow> dict \<Rightarrow> push_state \<Rightarrow> (push_error + delivery) \<times> push_state" where
  "deliver_envelope env rc target_root owning_repo event st =
     (case dget event ''id'' of
        JStr minted \<Rightarrow>
          if minted = [] then (Inl Refused, st)
          else let target = inbox_root rc target_root @ ''/tracker-event-'' @ minted @ ''.md'' in
            if resolved_parent rc target \<noteq> inbox_root rc target_root then (Inl Refused, st)
            else if check_ignore rc target_root target = 0 then (Inl Refused, st)
            else if check_ignore rc target_root target \<noteq> 1 then (Inl Refused, st)
            else if peer_files st target \<noteq> None then (Inl DuplicateDelivery, st)
            else (Inr (Peer target (commit_refusal rc target_root target)),
                  st\<lparr>peer_files := (peer_files st)(target \<mapsto> compose_envelope env owning_repo event)\<rparr>)
      | _ \<Rightarrow> (Inl Refused, st))"

definition write_local :: "env \<Rightarrow> dict \<Rightarrow> string option \<Rightarrow> push_state \<Rightarrow> (push_error + delivery) \<times> push_state" where
  "write_local env event idempotency_key st =
     (case append_event env event idempotency_key (own_log st) of
        (Inr stored, s) \<Rightarrow> (Inr (Local stored), st\<lparr>own_log := s\<rparr>)
      | (Inl (KeyMisuseError bound), s) \<Rightarrow> (Inl (KeyMisuse bound), st\<lparr>own_log := s\<rparr>)
      | (Inl e, s) \<Rightarrow> (Inl (StoreFailure e), st\<lparr>own_log := s\<rparr>))"

section \<open>The operation\<close>

definition stamped_push_event :: "env \<Rightarrow> dict \<Rightarrow> string option \<Rightarrow> dict" where
  "stamped_push_event env event idempotency_key =
     (let event' = fmupd ''id'' (JStr (mint_push_event_id env event idempotency_key)) event in
      case idempotency_key of None \<Rightarrow> event' | Some k \<Rightarrow> fmupd ''idempotency_key'' (JStr k) event')"

definition push_suggestion_sync ::
  "env \<Rightarrow> host \<Rightarrow> receiver \<Rightarrow> string \<Rightarrow> dict \<Rightarrow> string option \<Rightarrow> push_state \<Rightarrow> (push_error + delivery) \<times> push_state" where
  "push_suggestion_sync env h rc worktree event idempotency_key st =
     (case resolve_owning_repo event of
        Inl e \<Rightarrow> (Inl e, st)
      | Inr owning_repo \<Rightarrow>
          let event' = stamped_push_event env event idempotency_key in
          (case write_root_for h owning_repo worktree of
             Inl NotAMember \<Rightarrow> (Inl Unauthorized, st)
           | Inl e \<Rightarrow> (Inl (HolderFailure e), st)
           | Inr target_root \<Rightarrow>
               if resolve_path h target_root = resolve_path h worktree
               then write_local env event' idempotency_key st
               else deliver_envelope env rc target_root owning_repo event' st))"

fun contract_check :: "json \<Rightarrow> push_error + unit" where
  "contract_check JNull = Inr ()"
| "contract_check (JInt n) = (if n < CONTRACT_VERSION then Inl SchemaStale else Inr ())"
| "contract_check _ = Inl Malformed"

fun key_check :: "json \<Rightarrow> push_error + string option" where
  "key_check JNull = Inr None"
| "key_check (JStr k) = (if py_strip k = [] then Inl Malformed else Inr (Some k))"
| "key_check _ = Inl Malformed"

text \<open>\<open>mismatch\<close> is the verdict of \<open>check_repo_root\<close>.\<close>

definition push_suggestion ::
  "env \<Rightarrow> host \<Rightarrow> receiver \<Rightarrow> string \<Rightarrow> bool \<Rightarrow> dict \<Rightarrow> push_state \<Rightarrow> (push_error + delivery) \<times> push_state" where
  "push_suggestion env h rc worktree mismatch params st =
     (if mismatch then (Inl Malformed, st)
      else (case dget params ''event'' of
        JObj event \<Rightarrow>
          if has_key event ''id'' then (Inl Malformed, st)
          else (case contract_check (dget params ''contract_version'') of
            Inl e \<Rightarrow> (Inl e, st)
          | Inr _ \<Rightarrow>
              (case key_check (dget params ''idempotency_key'') of
                 Inl e \<Rightarrow> (Inl e, st)
               | Inr idempotency_key \<Rightarrow> push_suggestion_sync env h rc worktree event idempotency_key st))
      | _ \<Rightarrow> (Inl Malformed, st)))"

section \<open>Where an event goes\<close>

lemma append_event_error: "append_event env ev key s = (Inl e, s') \<Longrightarrow> s' = s"
  by (erule append_event_cases) auto

lemma write_local_cases:
  assumes "write_local env event key st = (r, st')"
  shows "peer_files st' = peer_files st \<and> (\<forall>e. r = Inl e \<longrightarrow> st' = st)"
proof -
  obtain a s where "append_event env event key (own_log st) = (a, s)" by force
  then show ?thesis
    using assms append_event_error [of env event key "own_log st"]
    by (cases a) (auto simp: write_local_def split: pyerr.splits)
qed

lemma deliver_cases:
  assumes "deliver_envelope env rc root owner event st = (r, st')"
  shows "own_log st' = own_log st \<and> (\<forall>e. r = Inl e \<longrightarrow> st' = st) \<and>
    (st' \<noteq> st \<longrightarrow> (\<exists>p. peer_files st p = None \<and> resolved_parent rc p = inbox_root rc root \<and>
       peer_files st' = (peer_files st)(p \<mapsto> compose_envelope env owner event)))"
  using assms by (auto simp: deliver_envelope_def Let_def split: json.splits if_splits)

text \<open>One push changes at most one place. A refused push changes nothing; the own log grows only
  for a stated owner that resolves to this very repository, so an unowned event never lands in the
  repository that happens to receive it; and a delivery creates one new file in the inbox of the root
  the owner resolves to, never overwriting one.\<close>

theorem push_routing:
  assumes "push_suggestion env h rc worktree mismatch params st = (r, st')"
  shows "(\<forall>e. r = Inl e \<longrightarrow> st' = st) \<and>
    (st' \<noteq> st \<longrightarrow> (\<exists>event owner root.
       dget params ''event'' = JObj event \<and> resolve_owning_repo event = Inr owner \<and>
       write_root_for h owner worktree = Inr root \<and>
       (if resolve_path h root = resolve_path h worktree
        then owner \<noteq> None \<and> peer_files st' = peer_files st
        else own_log st' = own_log st \<and>
          (\<exists>p key. peer_files st p = None \<and> resolved_parent rc p = inbox_root rc root \<and>
             peer_files st' = (peer_files st)(p \<mapsto>
               compose_envelope env owner (stamped_push_event env event key))))))"
proof (cases "\<exists>event key. dget params ''event'' = JObj event \<and>
    push_suggestion_sync env h rc worktree event key st = (r, st')")
  case False
  then have "(\<exists>e. r = Inl e) \<and> st' = st"
    using assms by (auto simp: push_suggestion_def split: if_splits json.splits sum.splits)
  then show ?thesis by auto
next
  case True
  then obtain event key where e: "dget params ''event'' = JObj event"
    and run: "push_suggestion_sync env h rc worktree event key st = (r, st')" by blast
  show ?thesis
  proof (cases "\<exists>owner root. resolve_owning_repo event = Inr owner \<and> write_root_for h owner worktree = Inr root")
    case False
    then have "(\<exists>e. r = Inl e) \<and> st' = st"
      using run by (auto simp: push_suggestion_sync_def Let_def split: sum.splits holder_error.splits)
    then show ?thesis by auto
  next
    case True
    then obtain owner root where o: "resolve_owning_repo event = Inr owner"
      and root: "write_root_for h owner worktree = Inr root" by blast
    let ?event = "stamped_push_event env event key"
    show ?thesis
    proof (cases "resolve_path h root = resolve_path h worktree")
      case True
      then have "write_local env ?event key st = (r, st')" using run o root by (simp add: push_suggestion_sync_def)
      moreover have "owner \<noteq> None"
        using root True by (cases owner) (auto simp: write_root_for_def split: sum.splits if_splits)
      ultimately show ?thesis using write_local_cases e o root True by fastforce
    next
      case False
      then have "deliver_envelope env rc root owner ?event st = (r, st')"
        using run o root by (simp add: push_suggestion_sync_def)
      from deliver_cases [OF this] show ?thesis using e o root False by fastforce
    qed
  qed
qed

section \<open>Retries\<close>

lemma append_same_key:
  assumes "append_event env ev (Some k) s = (Inr stored, s')" and "s' \<noteq> s"
    and "dget ev ''idempotency_key'' = JStr k" and "env_slug env' = env_slug env"
    and "append_event env' ev' (Some k) s' = (r, s'')"
  shows "s'' = s' \<and> (\<forall>d. r = Inr d \<longrightarrow> d \<in> set (own_records (env_slug env) s') \<and>
    dget d ''idempotency_key'' = JStr k \<and> py_eq (JObj (stable_payload d)) (JObj (stable_payload ev')))"
proof -
  have stored: "stored \<in> set (obj_records (peer_lines s' (env_slug env))) \<and> dget stored ''idempotency_key'' = JStr k"
    using assms(1-3) by (cases rule: append_event_cases) (auto simp: peer_lines_eq dget_stamp_event set_obj_records)
  from assms(5) show ?thesis
  proof (cases rule: append_event_cases)
    case (retry d)
    then show ?thesis
      using scan_lines_retry [OF retry(3)] assms(4) by (auto simp: own_records_def)
  next
    case (appended seq w c clock)
    then have "check_key_collision (Some k) ev' stored = Clear"
      using scan_lines_cases [OF appended(3), of stored] stored assms(4) by (simp del: check_key_collision.simps)
    then show ?thesis using stored by (auto split: if_splits)
  qed auto
qed

lemma push_cases:
  assumes "push_suggestion env h rc worktree mismatch params st = (r, st')"
  shows "own_log st' = own_log st \<and> (\<forall>d. r \<noteq> Inr (Local d)) \<or>
    (\<exists>event key x. dget params ''event'' = JObj event \<and> key_check (dget params ''idempotency_key'') = Inr key \<and>
       append_event env (stamped_push_event env event key) key (own_log st) = (x, own_log st') \<and>
       (\<forall>d. r = Inr (Local d) \<longleftrightarrow> x = Inr d))"
proof (cases "\<exists>event key. dget params ''event'' = JObj event \<and> key_check (dget params ''idempotency_key'') = Inr key \<and>
    push_suggestion_sync env h rc worktree event key st = (r, st')")
  case False
  then have "(\<exists>e. r = Inl e) \<and> st' = st"
    using assms by (auto simp: push_suggestion_def split: if_splits json.splits sum.splits)
  then show ?thesis by auto
next
  case True
  then obtain event key where e: "dget params ''event'' = JObj event"
    and key: "key_check (dget params ''idempotency_key'') = Inr key"
    and run: "push_suggestion_sync env h rc worktree event key st = (r, st')" by blast
  let ?event = "stamped_push_event env event key"
  consider "(\<exists>e. r = Inl e) \<and> st' = st" | owner root where "deliver_envelope env rc root owner ?event st = (r, st')"
    | "write_local env ?event key st = (r, st')"
    using run by (auto simp: push_suggestion_sync_def Let_def split: sum.splits holder_error.splits if_splits)
  then show ?thesis
  proof cases
    case (2 owner root)
    then show ?thesis using deliver_cases [OF 2]
      by (auto simp: deliver_envelope_def Let_def split: json.splits if_splits)
  next
    case 3
    obtain a s where "append_event env ?event key (own_log st) = (a, s)" by force
    moreover from this 3 have "own_log st' = s \<and> (\<forall>d. r = Inr (Local d) \<longleftrightarrow> a = Inr d)"
      by (cases a) (auto simp: write_local_def split: pyerr.splits)
    ultimately show ?thesis using e key by auto
  qed auto
qed

lemma stable_payload_stamped:
  "stable_payload (stamped_push_event env event (Some k)) = stable_payload (fmupd ''idempotency_key'' (JStr k) event)"
  by (rule fmap_ext) (simp add: stable_payload_def stamped_push_event_def VOLATILE_EVENT_FIELDS_def)

text \<open>Under one idempotency key the own log receives at most one event: after a push that was
  stored, any later push with that key on the same machine stores nothing, and when it succeeds locally
  it returns an event stored under the key with the same stable payload.\<close>

theorem push_under_key_at_most_once:
  assumes "push_suggestion env h rc worktree False params st = (Inr (Local stored), st')"
    and "own_log st' \<noteq> own_log st" and "dget params ''idempotency_key'' = JStr k"
    and "env_slug env' = env_slug env" and "dget params' ''idempotency_key'' = JStr k"
    and "push_suggestion env' h' rc' worktree' mismatch params' st' = (r, st'')"
  shows "own_log st'' = own_log st' \<and>
    (\<forall>d. r = Inr (Local d) \<longrightarrow> d \<in> set (own_records (env_slug env) (own_log st')) \<and>
       dget d ''idempotency_key'' = JStr k \<and>
       (\<exists>event. dget params' ''event'' = JObj event \<and>
          py_eq (JObj (stable_payload d)) (JObj (stable_payload (fmupd ''idempotency_key'' (JStr k) event)))))"
proof -
  obtain event key x where first: "key_check (dget params ''idempotency_key'') = Inr key"
      "append_event env (stamped_push_event env event key) key (own_log st) = (x, own_log st')" "x = Inr stored"
    using push_cases [OF assms(1)] assms(2) by blast
  then have key: "key = Some k" using assms(3) by (auto split: if_splits)
  have field: "dget (stamped_push_event env event (Some k)) ''idempotency_key'' = JStr k"
    by (simp add: stamped_push_event_def)
  from push_cases [OF assms(6)] show ?thesis
  proof (elim disjE exE conjE)
    fix event' key' y
    assume e: "dget params' ''event'' = JObj event'" and k': "key_check (dget params' ''idempotency_key'') = Inr key'"
      and app: "append_event env' (stamped_push_event env' event' key') key' (own_log st') = (y, own_log st'')"
      and y: "\<forall>d. r = Inr (Local d) \<longleftrightarrow> y = Inr d"
    have k: "key' = Some k" using k' assms(5) by (auto split: if_splits)
    have "own_log st'' = own_log st' \<and> (\<forall>d. y = Inr d \<longrightarrow> d \<in> set (own_records (env_slug env) (own_log st')) \<and>
        dget d ''idempotency_key'' = JStr k \<and>
        py_eq (JObj (stable_payload d)) (JObj (stable_payload (stamped_push_event env' event' (Some k)))))"
      using first(2) [unfolded key first(3)] assms(2) field assms(4) app [unfolded k] by (rule append_same_key)
    then show ?thesis using y e by (auto simp: stable_payload_stamped)
  qed auto
qed

section \<open>Examples\<close>

definition ex_host :: host where
  "ex_host = \<lparr>registry_of = map_of [(''tracker.holder_repo'', ''other''), (''repos.other'', ''/r/other''),
      (''repos.claude_klabauter'', ''/r/engine''), (''repo_slug.me/app'', ''app''), (''repos.app'', ''/r/app'')],
     path_exists = (\<lambda>p. p \<in> {''/r/other'', ''/r/engine'', ''/r/app''}), resolve_path = (\<lambda>p. p)\<rparr>"

definition ex_receiver :: receiver where
  "ex_receiver = \<lparr>inbox_root = (\<lambda>r. r @ ''/inbox''), resolved_parent = (\<lambda>p. take 14 p),
     check_ignore = (\<lambda>_ _. 1), commit_refusal = (\<lambda>_ _. None)\<rparr>"

definition ex_push_params :: "string \<Rightarrow> string \<Rightarrow> dict" where
  "ex_push_params repo stamp = fmap_of_list
     [(''event'', JObj (fmap_of_list [(''kind'', JStr ''item_created''), (''repo'', JStr repo),
        (''observed_at'', JStr stamp)])), (''idempotency_key'', JStr ''k7'')]"

definition ex_state :: push_state where
  "ex_state = \<lparr>own_log = empty_store, peer_files = (\<lambda>_. None)\<rparr>"

text \<open>An event without an owner goes to the holder's inbox.\<close>

theorem push_routing_witness:
  "\<exists>r st' root. push_suggestion ex_env ex_host ex_receiver ''/r/app'' False (ex_push_params [] ''t1'') ex_state = (r, st') \<and>
     own_log st' = empty_store \<and> st' \<noteq> ex_state \<and> write_root_for ex_host None ''/r/app'' = Inr root"
proof -
  let ?p = "push_suggestion ex_env ex_host ex_receiver ''/r/app'' False (ex_push_params [] ''t1'') ex_state"
  obtain r st' where p: "?p = (r, st')" by force
  have "case fst ?p of Inr (Peer path _) \<Rightarrow> peer_files (snd ?p) path \<noteq> None | _ \<Rightarrow> False" by code_simp
  then obtain path where "peer_files st' path \<noteq> None"
    unfolding p fst_conv snd_conv by (auto split: sum.splits delivery.splits)
  then have ne: "st' \<noteq> ex_state" by (auto simp: ex_state_def)
  have none: "case dget (ex_push_params [] ''t1'') ''event'' of JObj e \<Rightarrow> resolve_owning_repo e = Inr None | _ \<Rightarrow> False"
    by code_simp
  show ?thesis using push_routing [OF p] ne none p by (auto simp: ex_state_def split: if_splits)
qed

theorem push_under_key_at_most_once_witness:
  "\<exists>stored st' r st''.
     push_suggestion ex_env ex_host ex_receiver ''/r/app'' False (ex_push_params ''me/app'' ''t1'') ex_state =
       (Inr (Local stored), st') \<and>
     push_suggestion ex_env ex_host ex_receiver ''/r/app'' False (ex_push_params ''me/app'' ''t2'') st' = (r, st'') \<and>
     own_log st'' = own_log st'"
proof -
  let ?p = "push_suggestion ex_env ex_host ex_receiver ''/r/app'' False (ex_push_params ''me/app'' ''t1'') ex_state"
  have "case ?p of (Inr (Local _), st') \<Rightarrow> own_log st' \<noteq> empty_store | _ \<Rightarrow> False" by code_simp
  then obtain stored st' where p: "?p = (Inr (Local stored), st')" and ne: "own_log st' \<noteq> own_log ex_state"
    by (cases ?p) (auto simp: ex_state_def split: sum.splits delivery.splits)
  obtain r st'' where q: "push_suggestion ex_env ex_host ex_receiver ''/r/app'' False (ex_push_params ''me/app'' ''t2'') st' = (r, st'')"
    by force
  have key: "dget (ex_push_params ''me/app'' s) ''idempotency_key'' = JStr ''k7''" for s
    by (simp add: ex_push_params_def dget_def)
  show ?thesis using push_under_key_at_most_once [OF p ne key refl key q] p q by blast
qed

text \<open>An event whose body carries an \<open>idempotency_key\<close> of its own, pushed without the parameter, is stored
  with it: the key is bound without having been checked, and two events come to hold it.\<close>

definition ex_smuggled :: dict where
  "ex_smuggled = fmap_of_list
     [(''event'', JObj (fmap_of_list [(''kind'', JStr ''item_created''), (''repo'', JStr ''me/app''),
        (''observed_at'', JStr ''t1''), (''idempotency_key'', JStr ''k7'')]))]"

theorem smuggled_key_is_stored:
  "case push_suggestion ex_env ex_host ex_receiver ''/r/app'' False ex_smuggled ex_state of (_, st1) \<Rightarrow>
   (case push_suggestion (ex_env\<lparr>env_stamp := (\<lambda>_. ''later'')\<rparr>) ex_host ex_receiver ''/r/app'' False ex_smuggled st1 of
      (_, st2) \<Rightarrow>
        map (\<lambda>d. dget d ''idempotency_key'') (own_records ''rig'' (own_log st2)) = [JStr ''k7'', JStr ''k7''])"
  by code_simp

end
