(* ===== verification/Tracker_Handlers.thy ===== *)
theory Tracker_Handlers
  imports Tracker_Policy Tracker_Observed
begin

text \<open>
  The remaining operations of \<open>coordinator_core/ops/tracker\<close>: \<open>completion_policy.py\<close>
  (\<open>tracker.assert_code_complete\<close>), \<open>render_status.py\<close> and \<open>fold_observed_set.py\<close>. Each handler first
  compares the repository the caller names with its own (\<open>check_repo_root\<close>, here the parameter
  \<open>mismatch\<close>) and answers a mismatch without touching the log.
\<close>

section \<open>Parameters\<close>

text \<open>A parameter that has to be a string with more than blanks.\<close>

fun text_param :: "json \<Rightarrow> string res" where
  "text_param (JStr s) = (if py_strip s = [] then Inl (ValueErr ''must be a non-empty string'') else Inr s)"
| "text_param _ = Inl (ValueErr ''must be a non-empty string'')"

fun reachable_param :: "json \<Rightarrow> bool option res" where
  "reachable_param JNull = Inr None"
| "reachable_param (JBool b) = Inr (Some b)"
| "reachable_param _ = Inl (ValueErr ''must be bool or None'')"

text \<open>\<open>reject_invalid_closure_fidelity\<close> on an arbitrary value, its \<open>TrackerEntityError\<close> turned into a
  \<open>ValueError\<close>; looking up a list or an object in the set of values raises.\<close>

fun fidelity_param :: "json \<Rightarrow> string res" where
  "fidelity_param (JStr s) =
     (case reject_invalid_closure_fidelity s of Inl _ \<Rightarrow> Inl (ValueErr ''invalid closure_fidelity'') | Inr _ \<Rightarrow> Inr s)"
| "fidelity_param v = Inl (if hashable v then ValueErr ''invalid closure_fidelity'' else TypeErr)"

section \<open>Asserting code completion\<close>

datatype 'a answer = RepoMismatch | Answer 'a

text \<open>\<open>source_observation_id\<close> is taken from the request as it is, a string or null.\<close>

definition assert_code_complete :: "env \<Rightarrow> bool \<Rightarrow> dict \<Rightarrow> string option \<Rightarrow> dict answer op" where
  "assert_code_complete env mismatch params source_observation_id s =
     (if mismatch then (Inr RepoMismatch, s)
      else guarded (text_param (dget params ''item_id'')) (\<lambda>item_id.
        guarded (text_param (dget params ''sha'')) (\<lambda>commit.
        guarded (text_param (dget params ''actor'')) (\<lambda>actor.
        guarded (reachable_param (dget params ''reachable_on_default_branch'')) (\<lambda>reachable.
        guarded (fidelity_param (dget_or params ''closure_fidelity'' (JStr DEFAULT_CLOSURE_FIDELITY))) (\<lambda>fidelity s.
          case emit_code_complete_assert env item_id
              \<lparr>sha = commit, trailer_bound = truthy (dget params ''trailer_bound''),
               reachable_on_default_branch = reachable\<rparr> actor source_observation_id fidelity s of
            (Inl e, s') \<Rightarrow> (Inl e, s') | (Inr event, s') \<Rightarrow> (Inr (Answer event), s')))))) s)"

section \<open>Rendering and folding\<close>

definition render_status_op :: "bool \<Rightarrow> dict \<Rightarrow> store \<Rightarrow> string res" where
  "render_status_op mismatch params s =
     (if mismatch then Inl (ValueErr ''repo_root mismatch'')
      else res_bind (text_param (dget params ''item_id'')) (\<lambda>item_id. render_status item_id s))"

datatype fold_result = NoStore | NoOp | Appended dict

definition run_fold_observed_set :: "env \<Rightarrow> fold_result op" where
  "run_fold_observed_set env s =
     (if \<not> dir_exists s then (Inr NoStore, s)
      else (case fold_observed_set env s of
              (Inl e, s') \<Rightarrow> (Inl e, s')
            | (Inr None, s') \<Rightarrow> (Inr NoOp, s')
            | (Inr (Some marker), s') \<Rightarrow> (Inr (Appended marker), s')))"

definition fold_observed_set_op :: "env \<Rightarrow> bool \<Rightarrow> fold_result answer op" where
  "fold_observed_set_op env mismatch s =
     (if mismatch then (Inr RepoMismatch, s)
      else (case run_fold_observed_set env s of
              (Inl e, s') \<Rightarrow> (Inl e, s') | (Inr r, s') \<Rightarrow> (Inr (Answer r), s')))"

section \<open>The request decides\<close>

definition request_verified :: "dict \<Rightarrow> bool" where
  "request_verified params =
     (truthy (dget params ''trailer_bound'') \<and> dget params ''reachable_on_default_branch'' = JBool True \<and>
      dget params ''closure_fidelity'' = JStr ''auto-observable'')"

lemma fidelity_param_Inr: "fidelity_param v = Inr f \<Longrightarrow> v = JStr f \<and> f \<in> set CLOSURE_FIDELITY_VALUES"
  by (cases v) (auto simp: reject_invalid_closure_fidelity_def split: if_splits)

lemma reachable_param_Inr: "reachable_param v = Inr b \<Longrightarrow> b = Some True \<longleftrightarrow> v = JBool True"
  by (cases v) auto

text \<open>A request that omits something never asserts: unless it states that the commit carries the
  trailer, was found on the default branch, and that the item is auto-observable (an absent fidelity is
  not), the operation leaves every reading of the log and the rendered status of every item as they were.\<close>

theorem incomplete_request_is_quiet:
  assumes "assert_code_complete env mismatch params src s = (r, s')" and "log_ok s evs"
    and "\<not> request_verified params"
  shows "read_events s' = Inr evs \<and> render_status_op m req s' = render_status_op m req s"
proof -
  have "read_events s' = read_events s"
  proof (cases "s' = s")
    case False
    then obtain item commit actor reachable fidelity r' where
        reach: "reachable_param (dget params ''reachable_on_default_branch'') = Inr reachable"
        and fid: "fidelity_param (dget_or params ''closure_fidelity'' (JStr DEFAULT_CLOSURE_FIDELITY)) = Inr fidelity"
        and em: "emit_code_complete_assert env item \<lparr>sha = commit, trailer_bound = truthy (dget params ''trailer_bound''),
          reachable_on_default_branch = reachable\<rparr> actor src fidelity s = (r', s')"
      using assms(1) by (auto simp: assert_code_complete_def guarded_def split: if_splits sum.splits prod.splits)
    have "dget_or params ''closure_fidelity'' (JStr DEFAULT_CLOSURE_FIDELITY) = JStr fidelity"
      and "fidelity \<in> set CLOSURE_FIDELITY_VALUES" using fidelity_param_Inr [OF fid] by blast+
    then have "\<not> verified \<lparr>sha = commit, trailer_bound = truthy (dget params ''trailer_bound''),
        reachable_on_default_branch = reachable\<rparr> fidelity"
      using assms(3) reachable_param_Inr [OF reach]
      by (auto simp: verified_def request_verified_def CLOSURE_FIDELITY_VALUES_def DEFAULT_CLOSURE_FIDELITY_def
          dget_def dget_or_def split: option.splits)
    then show ?thesis using unverified_quiet [OF em assms(2)] by blast
  qed simp
  then show ?thesis
    using assms(2) status_of_reading [of s' s] by (simp add: render_status_op_def log_ok_def res_bind_def split: sum.splits)
qed

text \<open>Folding is opt-in by existence: a repository without a log gets none.\<close>

lemma fold_needs_store: "\<not> dir_exists s \<Longrightarrow> fold_observed_set_op env False s = (Inr (Answer NoStore), s)"
  by (simp add: fold_observed_set_op_def run_fold_observed_set_def)

definition ex_request :: dict where
  "ex_request = fmap_of_list [(''item_id'', JStr ''itm''), (''sha'', JStr ''abc''), (''actor'', JStr ''eve''),
     (''trailer_bound'', JBool True), (''reachable_on_default_branch'', JBool True)]"

theorem incomplete_request_is_quiet_witness:
  "\<exists>s'. snd (assert_code_complete Tracker_Cascade.ex_later False ex_request None ex_done) = s' \<and> s' \<noteq> ex_done \<and>
     read_events s' = Inr ex_done_events"
proof -
  let ?r = "assert_code_complete Tracker_Cascade.ex_later False ex_request None ex_done"
  have "snd ?r \<noteq> ex_done" "\<not> request_verified ex_request" by code_simp+
  moreover have "?r = (fst ?r, snd ?r)" by simp
  ultimately show ?thesis using incomplete_request_is_quiet [OF _ ex_done_log] by blast
qed

end
