(* ===== verification/Dag_Meta.thy ===== *)
theory Dag_Meta
  imports Tracker_Person
begin

text \<open>
  The front matter of a handoff (\<open>coordinator_core/dag.py\<close>, \<open>_strip_inline_comment\<close> to
  \<open>_parse_frontmatter\<close>): a reader for the subset of YAML that handoffs are written in.

  The content of a file is the decoded text. A mapping is an association list in the order of its
  keys, as a Python dictionary keeps it. A floating-point value is represented by its \<open>repr\<close>, and
  the parameter \<open>flt\<close> of the readers stands for the conversion of the language: \<open>flt s\<close> is the \<open>repr\<close>
  of \<open>float(s)\<close> where \<open>s\<close> reads as a finite number, and \<open>None\<close> otherwise.
\<close>

section \<open>Text\<close>

abbreviation NL :: char where "NL \<equiv> CHR 0x0A"
abbreviation TAB :: char where "TAB \<equiv> CHR 0x09"
abbreviation DQ :: char where "DQ \<equiv> CHR 0x22"
abbreviation SQ :: char where "SQ \<equiv> CHR 0x27"
abbreviation BSL :: char where "BSL \<equiv> CHR 0x5C"
abbreviation BLANK :: char where "BLANK \<equiv> CHR '' ''"

definition py_lstrip :: "string \<Rightarrow> string" where
  "py_lstrip s = dropWhile is_space s"

definition py_rstrip :: "string \<Rightarrow> string" where
  "py_rstrip s = rev (dropWhile is_space (rev s))"

definition indent_of :: "string \<Rightarrow> nat" where
  "indent_of raw = length raw - length (py_lstrip raw)"

definition starts_with :: "string \<Rightarrow> string \<Rightarrow> bool" where
  "starts_with pre s = (take (length pre) s = pre)"

definition ends_in :: "string \<Rightarrow> string \<Rightarrow> bool" where
  "ends_in suf s = (length suf \<le> length s \<and> drop (length s - length suf) s = suf)"

fun split_on :: "char \<Rightarrow> string \<Rightarrow> string list" where
  "split_on sep [] = [[]]"
| "split_on sep (c # cs) =
     (if c = sep then [] # split_on sep cs
      else (case split_on sep cs of [] \<Rightarrow> [[c]] | x # xs \<Rightarrow> (c # x) # xs))"

fun join_with :: "string \<Rightarrow> string list \<Rightarrow> string" where
  "join_with sep [] = []"
| "join_with sep [x] = x"
| "join_with sep (x # y # xs) = x @ sep @ join_with sep (y # xs)"

text \<open>\<open>s.replace(pat, rep)\<close> of a nonempty pattern.\<close>

function replace_all :: "string \<Rightarrow> string \<Rightarrow> string \<Rightarrow> string" where
  "replace_all pat rep s =
     (case s of
        [] \<Rightarrow> []
      | c # cs \<Rightarrow>
          if pat \<noteq> [] \<and> starts_with pat s then rep @ replace_all pat rep (drop (length pat) s)
          else c # replace_all pat rep cs)"
  by pat_completeness auto
termination
  by (relation "measure (\<lambda>(pat, rep, s). length s)") (auto simp: starts_with_def)

declare replace_all.simps [simp del]

section \<open>Values\<close>

datatype yaml =
    YNull
  | YBool bool
  | YInt int
  | YFloat string
  | YStr string
  | YList "yaml list"
  | YMap "(string \<times> yaml) list"

type_synonym meta = "(string \<times> yaml) list"

definition meta_get :: "meta \<Rightarrow> string \<Rightarrow> yaml" where
  "meta_get m k = (case map_of m k of None \<Rightarrow> YNull | Some v \<Rightarrow> v)"

definition str_int :: "int \<Rightarrow> string" where
  "str_int n = (if n < 0 then CHR ''-'' # decimal (- n) else decimal n)"

section \<open>Scalars\<close>

text \<open>\<open>_strip_inline_comment\<close>: \<open>pre\<close> is the text read so far, reversed.\<close>

fun cut_comment :: "bool \<Rightarrow> bool \<Rightarrow> string \<Rightarrow> string \<Rightarrow> string option" where
  "cut_comment in_single in_double pre [] = None"
| "cut_comment in_single in_double pre (c # cs) =
     (if c = DQ \<and> \<not> in_single then cut_comment in_single (\<not> in_double) (c # pre) cs
      else if c = SQ \<and> \<not> in_double then
        (if in_single \<and> cs \<noteq> [] \<and> hd cs = SQ then cut_comment in_single in_double (c # pre) cs
         else cut_comment (\<not> in_single) in_double (c # pre) cs)
      else if c = CHR ''#'' \<and> \<not> in_single \<and> \<not> in_double \<and> pre \<noteq> [] \<and> hd pre \<in> {BLANK, TAB} \<and>
              (cs = [] \<or> hd cs \<in> {BLANK, TAB})
        then Some (py_rstrip (rev pre))
      else cut_comment in_single in_double (c # pre) cs)"

definition strip_inline_comment :: "string \<Rightarrow> string" where
  "strip_inline_comment text = (case cut_comment False False [] text of None \<Rightarrow> text | Some s \<Rightarrow> s)"

definition quoted_by :: "char \<Rightarrow> string \<Rightarrow> bool" where
  "quoted_by q s = (2 \<le> length s \<and> hd s = q \<and> last s = q)"

definition parse_scalar :: "(string \<Rightarrow> string option) \<Rightarrow> string \<Rightarrow> yaml" where
  "parse_scalar flt raw =
     (let text = py_strip (strip_inline_comment raw) in
      if text = [] \<or> text = ''null'' \<or> text = ''~'' then YNull
      else if text = ''true'' then YBool True
      else if text = ''false'' then YBool False
      else (case (case py_int text of None \<Rightarrow> None | Some n \<Rightarrow> if str_int n = text then Some n else None) of
        Some n \<Rightarrow> YInt n
      | None \<Rightarrow>
         (case flt text of
            Some r \<Rightarrow> YFloat r
          | None \<Rightarrow>
              if quoted_by DQ text
                then YStr (replace_all [BSL, BSL] [BSL] (replace_all [BSL, DQ] [DQ] (butlast (tl text))))
              else if quoted_by SQ text then YStr (replace_all [SQ, SQ] [SQ] (butlast (tl text)))
              else YStr text)))"

text \<open>\<open>_parse_inline_list\<close>: \<open>cur\<close> is the item being read, reversed.\<close>

definition add_item :: "(string \<Rightarrow> string option) \<Rightarrow> string \<Rightarrow> yaml list \<Rightarrow> yaml list" where
  "add_item flt cur items =
     (let item = py_strip (rev cur) in if item = [] then items else parse_scalar flt item # items)"

fun inline_items :: "(string \<Rightarrow> string option) \<Rightarrow> bool \<Rightarrow> bool \<Rightarrow> string \<Rightarrow> string \<Rightarrow> yaml list" where
  "inline_items flt in_single in_double cur [] = add_item flt cur []"
| "inline_items flt in_single in_double cur (c # cs) =
     (if c = DQ \<and> \<not> in_single then inline_items flt in_single (\<not> in_double) (c # cur) cs
      else if c = SQ \<and> \<not> in_double then inline_items flt (\<not> in_single) in_double (c # cur) cs
      else if c = CHR '','' \<and> \<not> in_single \<and> \<not> in_double
        then add_item flt cur (inline_items flt in_single in_double [] cs)
      else inline_items flt in_single in_double (c # cur) cs)"

definition parse_inline_list :: "(string \<Rightarrow> string option) \<Rightarrow> string \<Rightarrow> yaml list" where
  "parse_inline_list flt raw =
     (let text = py_strip raw in
      if starts_with ''['' text \<and> ends_in '']'' text then
        (let inner = py_strip (butlast (tl text)) in
         if inner = [] then [] else inline_items flt False False [] inner)
      else [])"

section \<open>Block scalars and folded quotes\<close>

text \<open>\<open>_BLOCK_SCALAR_RE\<close>: an indicator, a sign and a digit in either order, an optional comment.\<close>

definition after_modifiers :: "string \<Rightarrow> string list" where
  "after_modifiers s =
     (let sign = (\<lambda>c. c = CHR ''+'' \<or> c = CHR ''-'') in
      s # (case s of
             [] \<Rightarrow> []
           | c # cs \<Rightarrow>
               (if sign c \<or> is_dec c then [cs] else []) @
               (case cs of
                  [] \<Rightarrow> []
                | d # ds \<Rightarrow> if (sign c \<and> is_dec d) \<or> (is_dec c \<and> sign d) then [ds] else [])))"

definition is_block_scalar :: "string \<Rightarrow> bool" where
  "is_block_scalar s =
     (case s of
        [] \<Rightarrow> False
      | c # cs \<Rightarrow> (c = CHR ''|'' \<or> c = CHR ''>'') \<and>
          list_ex (\<lambda>r. let t = py_lstrip r in t = [] \<or> (hd t = CHR ''#'' \<and> NL \<notin> set t)) (after_modifiers cs))"

fun block_body :: "nat \<Rightarrow> string list \<Rightarrow> string list \<times> string list" where
  "block_body key_indent [] = ([], [])"
| "block_body key_indent (raw # rest) =
     (if py_strip raw = [] then (let (b, r) = block_body key_indent rest in ([] # b, r))
      else if indent_of raw \<le> key_indent then ([], raw # rest)
      else (let (b, r) = block_body key_indent rest in (raw # b, r)))"

definition consume_block_scalar :: "nat \<Rightarrow> string list \<Rightarrow> string \<times> string list" where
  "consume_block_scalar key_indent rest =
     (let (body, after) = block_body key_indent rest;
          trimmed = rev (dropWhile (\<lambda>l. l = []) (rev body));
          strip_indent = (case filter (\<lambda>l. py_strip l \<noteq> []) trimmed of [] \<Rightarrow> 0 | l # _ \<Rightarrow> indent_of l) in
      (join_with [NL] (map (\<lambda>l. if l = [] then [] else drop strip_indent l) trimmed), after))"

text \<open>\<open>_closes_quote\<close>: \<open>prev\<close> is the character before the position, if any.\<close>

fun closes_from :: "char \<Rightarrow> char option \<Rightarrow> string \<Rightarrow> bool" where
  "closes_from q prev [] = False"
| "closes_from q prev (c # cs) =
     (if c \<noteq> q then closes_from q (Some c) cs
      else if q = SQ \<and> cs \<noteq> [] \<and> hd cs = SQ then closes_from q (Some SQ) (tl cs)
      else if q = DQ \<and> prev = Some BSL then closes_from q (Some c) cs
      else True)"

definition closes_quote :: "char \<Rightarrow> string \<Rightarrow> bool" where
  "closes_quote q value = closes_from q None (drop 1 value)"

fun fold_quoted :: "char \<Rightarrow> string list \<Rightarrow> string list \<times> string list" where
  "fold_quoted q [] = ([], [])"
| "fold_quoted q (l # ls) =
     (let n = py_strip l in
      if n = [] then ([], l # ls)
      else if closes_quote q (q # n) then ([n], ls)
      else (let (f, r) = fold_quoted q ls in (n # f, r)))"

lemma block_body_shorter: "length (snd (block_body k ls)) \<le> length ls"
  by (induction ls) (auto split: prod.splits)

lemma consume_block_shorter: "length (snd (consume_block_scalar k ls)) \<le> length ls"
  using block_body_shorter [of k ls] by (auto simp: consume_block_scalar_def Let_def split: prod.splits)

lemma fold_quoted_shorter: "length (snd (fold_quoted q ls)) \<le> length ls"
  by (induction q ls rule: fold_quoted.induct) (auto simp: Let_def split: prod.splits)

lemma dropWhile_twice_shorter: "length (dropWhile P (dropWhile Q ls)) \<le> length ls"
  using length_dropWhile_le [of P "dropWhile Q ls"] length_dropWhile_le [of Q ls] by (rule order_trans)

section \<open>Blocks\<close>

definition significant :: "string \<Rightarrow> bool" where
  "significant raw = (let s = py_strip raw in s \<noteq> [] \<and> hd s \<noteq> CHR ''#'')"

text \<open>The text before and after the first colon.\<close>

definition split_colon :: "string \<Rightarrow> (string \<times> string) option" where
  "split_colon s =
     (if CHR '':'' \<in> set s
      then Some (takeWhile (\<lambda>c. c \<noteq> CHR '':'') s, tl (dropWhile (\<lambda>c. c \<noteq> CHR '':'') s))
      else None)"

definition is_key_char :: "char \<Rightarrow> bool" where
  "is_key_char c = (in_range CHR ''a'' CHR ''z'' c \<or> in_range CHR ''A'' CHR ''Z'' c \<or> is_dec c \<or>
     c = CHR ''_'' \<or> c = CHR ''-'')"

text \<open>\<open>_LIST_ENTRY_KEY_RE\<close>.\<close>

definition is_entry_key :: "string \<Rightarrow> bool" where
  "is_entry_key s =
     (s \<noteq> [] \<and> is_key_char (hd s) \<and> \<not> is_dec (hd s) \<and> hd s \<noteq> CHR ''-'' \<and>
      (let r = dropWhile is_space (dropWhile is_key_char s) in
       r \<noteq> [] \<and> hd r = CHR '':'' \<and> (tl r = [] \<or> is_space (hd (tl r)))))"

text \<open>
  \<open>_parse_yaml_block\<close>, \<open>_parse_yaml_list_block\<close> and \<open>_parse_yaml_mapping_block\<close>: the lines not read yet
  and, for a mapping, the acc read so far. A list entry \<open>- key: value\<close> is read as the mapping of its
  dash line, indented past the dash, and of the lines indented deeper than the dash.
\<close>

function parse_block :: "(string \<Rightarrow> string option) \<Rightarrow> nat \<Rightarrow> string list \<Rightarrow> yaml"
  and parse_items :: "(string \<Rightarrow> string option) \<Rightarrow> nat \<Rightarrow> string list \<Rightarrow> yaml list"
  and parse_mapping :: "(string \<Rightarrow> string option) \<Rightarrow> nat \<Rightarrow> string list \<Rightarrow> meta \<Rightarrow> meta" where
  "parse_block flt base lines =
     (case dropWhile (\<lambda>l. \<not> significant l) lines of
        [] \<Rightarrow> YMap []
      | raw # _ \<Rightarrow>
          if indent_of raw < base then YMap []
          else if starts_with ''- '' (py_strip raw) \<or> py_strip raw = ''-'' then YList (parse_items flt base lines)
          else YMap (parse_mapping flt base lines []))"
| "parse_items flt base [] = []"
| "parse_items flt base (raw # rest) =
     (let stripped = py_strip raw; indent = indent_of raw in
      if \<not> significant raw then parse_items flt base rest
      else if indent < base then []
      else if stripped = ''-'' then YNull # parse_items flt base rest
      else if starts_with ''- '' stripped then
        (let item = py_strip (drop 2 stripped) in
         if is_entry_key item then
           YMap (parse_mapping flt (indent + 1)
             ((replicate (indent + 1) BLANK @ item) # takeWhile (\<lambda>l. significant l \<longrightarrow> indent < indent_of l) rest) []) #
           parse_items flt base (dropWhile (\<lambda>l. significant l \<longrightarrow> indent < indent_of l) rest)
         else parse_scalar flt item # parse_items flt base rest)
      else parse_items flt base rest)"
| "parse_mapping flt base [] acc = acc"
| "parse_mapping flt base (raw # rest) acc =
     (let indent = indent_of raw in
      if \<not> significant raw then parse_mapping flt base rest acc
      else if indent < base then acc
      else (case split_colon (py_strip raw) of
        None \<Rightarrow> parse_mapping flt base rest acc
      | Some (k, v) \<Rightarrow>
         (let key = py_strip k; value = py_strip v in
          if value = [] \<or> hd value = CHR ''#'' then
            (let next = dropWhile (\<lambda>l. \<not> significant l) rest in
             if next \<noteq> [] \<and> indent < indent_of (hd next) then
               parse_mapping flt base
                 (dropWhile (\<lambda>l. significant l \<longrightarrow> indent_of (hd next) \<le> indent_of l) next)
                 (AList.update key (parse_block flt (indent_of (hd next)) next) acc)
             else parse_mapping flt base rest (AList.update key YNull acc))
          else if is_block_scalar value then
            parse_mapping flt base (snd (consume_block_scalar indent rest))
              (AList.update key (YStr (fst (consume_block_scalar indent rest))) acc)
          else (let bare = strip_inline_comment value in
            if starts_with ''['' bare \<and> ends_in '']'' bare then
              parse_mapping flt base rest (AList.update key (YList (parse_inline_list flt bare)) acc)
            else if hd value \<in> {DQ, SQ} \<and> \<not> closes_quote (hd value) value then
              parse_mapping flt base (snd (fold_quoted (hd value) rest))
                (AList.update key
                  (parse_scalar flt (join_with [BLANK] (value # fst (fold_quoted (hd value) rest)))) acc)
            else parse_mapping flt base rest (AList.update key (parse_scalar flt value) acc)))))"
  by pat_completeness auto
termination
proof (relation "measure (\<lambda>x. case x of
    Inl (flt, base, ls) \<Rightarrow> 3 * length ls + 2
  | Inr (Inl (flt, base, ls)) \<Rightarrow> 3 * length ls + 1
  | Inr (Inr (flt, base, ls, acc)) \<Rightarrow> 3 * length ls)", goal_cases)
qed (auto simp: length_takeWhile_le less_Suc_eq_le length_dropWhile_le dropWhile_twice_shorter
  consume_block_shorter fold_quoted_shorter mult_less_mono2 intro: le_imp_less_Suc
  intro!: le_less_trans [OF mult_le_mono2 [OF length_dropWhile_le]]
    le_less_trans [OF mult_le_mono2 [OF dropWhile_twice_shorter]]
    le_less_trans [OF mult_le_mono2 [OF consume_block_shorter]]
    le_less_trans [OF mult_le_mono2 [OF fold_quoted_shorter]])

section \<open>The front matter of a file\<close>

text \<open>The text after the first occurrence of a marker.\<close>

fun after_marker :: "string \<Rightarrow> string \<Rightarrow> string option" where
  "after_marker mark [] = None"
| "after_marker mark (c # cs) =
     (if starts_with mark (c # cs) then Some (drop (length mark) (c # cs)) else after_marker mark cs)"

lemma after_marker_shorter: "after_marker mark s = Some r \<Longrightarrow> length r \<le> length s"
  by (induction mark s rule: after_marker.induct) (auto split: if_splits)

text \<open>The prologue of HTML comments; \<open>None\<close> where one of them is not closed.\<close>

function skip_comments :: "string \<Rightarrow> string option" where
  "skip_comments s =
     (let t = py_lstrip s in
      if starts_with ''<!--'' t then
        (case after_marker ''-->'' (drop 4 t) of None \<Rightarrow> None | Some r \<Rightarrow> skip_comments r)
      else Some t)"
  by pat_completeness auto
termination
proof (relation "measure length", goal_cases)
  case (2 s t r)
  have "t \<noteq> []" using 2(2) by (auto simp: starts_with_def)
  then have "length (drop 4 t) < length t" by simp
  moreover have "length t \<le> length s" by (simp add: 2(1) py_lstrip_def length_dropWhile_le)
  ultimately show ?case using after_marker_shorter [OF 2(3)] by simp
qed simp

declare skip_comments.simps [simp del]

definition is_fence :: "string \<Rightarrow> bool" where
  "is_fence l = (starts_with ''---'' l \<and> list_all is_space (drop 3 l))"

definition parse_frontmatter :: "(string \<Rightarrow> string option) \<Rightarrow> string \<Rightarrow> meta" where
  "parse_frontmatter flt content =
     (case skip_comments content of
        None \<Rightarrow> []
      | Some remaining \<Rightarrow>
          if \<not> starts_with ''---'' remaining then []
          else (let after_first = drop 3 remaining in
            if NL \<notin> set after_first then []
            else if py_strip (takeWhile (\<lambda>c. c \<noteq> NL) after_first) \<noteq> [] then []
            else (let ls = split_on NL (tl (dropWhile (\<lambda>c. c \<noteq> NL) after_first)) in
              if list_ex is_fence ls
              then parse_mapping flt 0 (takeWhile (\<lambda>l. \<not> is_fence l) ls @ [[]]) []
              else [])))"

section \<open>The scan for the id\<close>

datatype scanned = Fallback | Absent | Found string

definition RAW_SCAN_WINDOW_BYTES :: int where
  "RAW_SCAN_WINDOW_BYTES = 4096"

text \<open>
  The first \<open>n\<close> bytes of a text in UTF-8, decoded again: a code point from 128 takes two bytes, and half
  of one reads as a replacement character, which \<open>CHR 0xFF\<close> stands for.
\<close>

fun window :: "int \<Rightarrow> string \<Rightarrow> string" where
  "window n [] = []"
| "window n (c # cs) =
     (if n \<le> 0 then []
      else if (of_char c :: nat) < 128 then c # window (n - 1) cs
      else if n = 1 then [CHR 0xFF]
      else c # window (n - 2) cs)"

definition is_blank :: "char \<Rightarrow> bool" where
  "is_blank c = (c = BLANK \<or> c = TAB)"

text \<open>\<open>_RAW_SCAN_HANDOFF_ID_RE\<close> on one line.\<close>

definition id_line :: "string \<Rightarrow> string option" where
  "id_line l =
     (if starts_with ''handoff_id:'' l then
        (let v = dropWhile is_blank (drop 11 l) in
         if v = [] \<or> is_space (hd v) then None else Some (rev (dropWhile is_blank (rev v))))
      else None)"

fun first_id :: "string list \<Rightarrow> string option" where
  "first_id [] = None"
| "first_id (l # ls) = (case id_line l of None \<Rightarrow> first_id ls | Some v \<Rightarrow> Some v)"

definition raw_scan_handoff_id :: "string option \<Rightarrow> scanned" where
  "raw_scan_handoff_id content =
     (case content of
        None \<Rightarrow> Fallback
      | Some raw \<Rightarrow>
         (case skip_comments (replace_all [CHR 0x0D, NL] [NL] (window RAW_SCAN_WINDOW_BYTES raw)) of
            None \<Rightarrow> Fallback
          | Some text \<Rightarrow>
              if \<not> starts_with ''---'' text then Fallback
              else if NL \<notin> set text then Fallback
              else (let ls = split_on NL (tl (dropWhile (\<lambda>c. c \<noteq> NL) text)) in
                if \<not> list_ex is_fence ls then Fallback
                else (case first_id (takeWhile (\<lambda>c. c \<noteq> NL) text # takeWhile (\<lambda>l. \<not> is_fence l) ls) of
                  None \<Rightarrow> Absent
                | Some v \<Rightarrow>
                    if hd v \<in> {DQ, SQ, CHR ''|'', CHR ''>''} \<or> CHR ''#'' \<in> set v then Fallback else Found v))))"

section \<open>The parse cache\<close>

text \<open>
  \<open>_read_meta\<close> of a path that is absolute and normalised: \<open>content\<close> is what the file holds now (\<open>None\<close> when
  it cannot be read), \<open>sha\<close> the digest of a content. The cache keeps its entries in the order they were
  made.
\<close>

type_synonym parse_cache = "((string \<times> string) \<times> meta) list"

definition MAX_FRONTMATTER_CACHE :: nat where
  "MAX_FRONTMATTER_CACHE = 4096"

definition read_meta_cached ::
    "(string \<Rightarrow> string option) \<Rightarrow> (string \<Rightarrow> string) \<Rightarrow> parse_cache \<Rightarrow> string \<Rightarrow> string option \<Rightarrow> meta \<times> parse_cache" where
  "read_meta_cached flt sha_of cache path content =
     (case content of
        None \<Rightarrow> ([], cache)
      | Some raw \<Rightarrow>
          (let key = (path, sha_of raw) in
           case map_of cache key of
             Some m \<Rightarrow> (m, cache)
           | None \<Rightarrow>
              (let parsed = parse_frontmatter flt raw;
                   kept = (if MAX_FRONTMATTER_CACHE \<le> length cache
                           then drop (MAX_FRONTMATTER_CACHE div 2) cache else cache) in
               (parsed, AList.update key parsed kept))))"

text \<open>A sequence of reads, each with the path and what the file holds at that moment.\<close>

fun read_metas ::
    "(string \<Rightarrow> string option) \<Rightarrow> (string \<Rightarrow> string) \<Rightarrow> parse_cache \<Rightarrow> (string \<times> string option) list \<Rightarrow> meta list \<times> parse_cache" where
  "read_metas flt sha_of cache [] = ([], cache)"
| "read_metas flt sha_of cache ((path, content) # reads) =
     (let (m, cache') = read_meta_cached flt sha_of cache path content;
          (ms, cache'') = read_metas flt sha_of cache' reads in
      (m # ms, cache''))"

definition content_meta :: "(string \<Rightarrow> string option) \<Rightarrow> string option \<Rightarrow> meta" where
  "content_meta flt content = (case content of None \<Rightarrow> [] | Some raw \<Rightarrow> parse_frontmatter flt raw)"

text \<open>Every entry was parsed from a content with its digest, and the size is bounded.\<close>

definition cache_ok :: "(string \<Rightarrow> string option) \<Rightarrow> (string \<Rightarrow> string) \<Rightarrow> string set \<Rightarrow> parse_cache \<Rightarrow> bool" where
  "cache_ok flt sha_of texts cache \<longleftrightarrow>
     length cache \<le> MAX_FRONTMATTER_CACHE \<and>
     (\<forall>(key, m) \<in> set cache. \<exists>raw \<in> texts. snd key = sha_of raw \<and> m = parse_frontmatter flt raw)"

lemma length_update_le: "length (AList.update k v al) \<le> Suc (length al)"
  by (induction al) auto

lemma cache_step:
  assumes ok: "cache_ok flt sha_of texts cache" and inj: "inj_on sha_of texts"
    and mem: "set_option content \<subseteq> texts"
  shows "fst (read_meta_cached flt sha_of cache path content) = content_meta flt content"
    and "cache_ok flt sha_of texts (snd (read_meta_cached flt sha_of cache path content))"
proof -
  have hit: "m = parse_frontmatter flt raw" if "map_of cache (path, sha_of raw) = Some m" "raw \<in> texts" for raw m
  proof -
    from that(1) have "((path, sha_of raw), m) \<in> set cache" by (rule map_of_SomeD)
    then obtain raw' where "raw' \<in> texts" "sha_of raw = sha_of raw'" "m = parse_frontmatter flt raw'"
      using ok by (force simp: cache_ok_def)
    then show ?thesis using that(2) inj by (auto dest: inj_onD)
  qed
  show "fst (read_meta_cached flt sha_of cache path content) = content_meta flt content"
    using mem by (cases content) (auto simp: read_meta_cached_def content_meta_def Let_def hit split: option.split)
  show "cache_ok flt sha_of texts (snd (read_meta_cached flt sha_of cache path content))"
  proof (cases content)
    case None
    then show ?thesis using ok by (simp add: read_meta_cached_def)
  next
    case (Some raw)
    define kept where "kept = (if MAX_FRONTMATTER_CACHE \<le> length cache
      then drop (MAX_FRONTMATTER_CACHE div 2) cache else cache)"
    have small: "length kept < MAX_FRONTMATTER_CACHE" and sub: "set kept \<subseteq> set cache"
      using ok by (auto simp: kept_def cache_ok_def MAX_FRONTMATTER_CACHE_def dest: in_set_dropD)
    have "cache_ok flt sha_of texts (AList.update (path, sha_of raw) (parse_frontmatter flt raw) kept)"
      unfolding cache_ok_def
    proof (intro conjI ballI)
      show "length (AList.update (path, sha_of raw) (parse_frontmatter flt raw) kept) \<le> MAX_FRONTMATTER_CACHE"
        using small length_update_le [of "(path, sha_of raw)" "parse_frontmatter flt raw" kept] by simp
      fix e assume "e \<in> set (AList.update (path, sha_of raw) (parse_frontmatter flt raw) kept)"
      then have "e \<in> set kept \<or> e = ((path, sha_of raw), parse_frontmatter flt raw)"
        by (induction kept) (auto split: if_splits)
      then show "case e of (key, m) \<Rightarrow> \<exists>raw \<in> texts. snd key = sha_of raw \<and> m = parse_frontmatter flt raw"
        using sub ok Some mem by (auto simp: cache_ok_def)
    qed
    then show ?thesis
      using Some ok by (auto simp: read_meta_cached_def Let_def kept_def split: option.split)
  qed
qed

lemma cache_run:
  assumes "inj_on sha_of texts"
  shows "cache_ok flt sha_of texts cache \<Longrightarrow> (\<Union>(p, c) \<in> set reads. set_option c) \<subseteq> texts \<Longrightarrow>
    fst (read_metas flt sha_of cache reads) = map (\<lambda>(p, c). content_meta flt c) reads \<and>
    cache_ok flt sha_of texts (snd (read_metas flt sha_of cache reads))"
proof (induction reads arbitrary: cache)
  case (Cons pc reads)
  obtain p c where pc: "pc = (p, c)" by (cases pc)
  have c: "set_option c \<subseteq> texts" and rest: "(\<Union>(p, c) \<in> set reads. set_option c) \<subseteq> texts"
    using Cons.prems(2) by (auto simp: pc)
  note step = cache_step [OF Cons.prems(1) assms c, of p]
  show ?case
    using Cons.IH [OF step(2) rest] step(1) by (auto simp: pc split: prod.splits)
qed simp

text \<open>Reading through the parse cache returns what parsing the file as it is now returns, however often
  the file changed between the reads and whatever was evicted, as long as the digest separates the contents
  read; and the cache never holds more than its 4096 entries.\<close>

theorem cache_transparent:
  assumes "inj_on sha_of (\<Union>(path, content) \<in> set reads. set_option content)"
  shows "fst (read_metas flt sha_of [] reads) = map (\<lambda>(path, content). content_meta flt content) reads \<and>
    length (snd (read_metas flt sha_of [] reads)) \<le> MAX_FRONTMATTER_CACHE"
  using cache_run [OF assms, of flt "[]" reads] by (auto simp: cache_ok_def)

end
