(* ===== verification/Dag_Paths.thy ===== *)
theory Dag_Paths
  imports Dag_Meta
begin

text \<open>
  Paths as the lineage walk handles them: the functions of Python's \<open>posixpath\<close> it calls, and a file
  system of regular files and directories without symbolic links, in which a path is looked up
  component by component.
\<close>

section \<open>posixpath\<close>

abbreviation SLASH :: char where "SLASH \<equiv> CHR ''/''"

definition isabs :: "string \<Rightarrow> bool" where
  "isabs p = starts_with [SLASH] p"

definition path_join :: "string \<Rightarrow> string \<Rightarrow> string" where
  "path_join a b =
     (if isabs b then b
      else if a = [] \<or> last a = SLASH then a @ b
      else a @ [SLASH] @ b)"

fun path_joins :: "string \<Rightarrow> string list \<Rightarrow> string" where
  "path_joins a [] = a"
| "path_joins a (b # bs) = path_joins (path_join a b) bs"

text \<open>The component loop of \<open>normpath\<close>; \<open>acc\<close> is reversed.\<close>

fun norm_comps :: "bool \<Rightarrow> string list \<Rightarrow> string list \<Rightarrow> string list" where
  "norm_comps absolute acc [] = rev acc"
| "norm_comps absolute acc (c # cs) =
     (if c = [] \<or> c = ''.'' then norm_comps absolute acc cs
      else if c \<noteq> ''..'' \<or> (\<not> absolute \<and> acc = []) \<or> (acc \<noteq> [] \<and> hd acc = ''..'') then norm_comps absolute (c # acc) cs
      else norm_comps absolute (tl acc) cs)"

definition leading_slashes :: "string \<Rightarrow> string" where
  "leading_slashes p =
     (if starts_with [SLASH, SLASH] p \<and> \<not> starts_with [SLASH, SLASH, SLASH] p then [SLASH, SLASH]
      else if isabs p then [SLASH] else [])"

definition normpath :: "string \<Rightarrow> string" where
  "normpath p =
     (if p = [] then ''.''
      else (let q = leading_slashes p @ join_with [SLASH] (norm_comps (isabs p) [] (split_on SLASH p)) in
        if q = [] then ''.'' else q))"

definition abspath :: "string \<Rightarrow> string \<Rightarrow> string" where
  "abspath cwd p = normpath (if isabs p then p else path_join cwd p)"

definition basename :: "string \<Rightarrow> string" where
  "basename p = rev (takeWhile (\<lambda>c. c \<noteq> SLASH) (rev p))"

definition dirname :: "string \<Rightarrow> string" where
  "dirname p =
     (let head = rev (dropWhile (\<lambda>c. c \<noteq> SLASH) (rev p)) in
      if list_all (\<lambda>c. c = SLASH) head then head else rev (dropWhile (\<lambda>c. c = SLASH) (rev head)))"

section \<open>The file system\<close>

text \<open>Objects are named by the components of their absolute path; the root is the empty list.\<close>

record disk =
  dk_files :: "(string list \<times> string) list"
  dk_dirs :: "string list list"
  dk_cwd :: string

definition is_dir :: "disk \<Rightarrow> string list \<Rightarrow> bool" where
  "is_dir d cs = (cs = [] \<or> cs \<in> set (dk_dirs d))"

definition is_object :: "disk \<Rightarrow> string list \<Rightarrow> bool" where
  "is_object d cs = (is_dir d cs \<or> cs \<in> fst ` set (dk_files d))"

text \<open>The object a sequence of components leads to: every step starts in a directory.\<close>

fun walk_comps :: "disk \<Rightarrow> string list \<Rightarrow> string list \<Rightarrow> string list option" where
  "walk_comps d cur [] = Some cur"
| "walk_comps d cur (c # cs) =
     (if \<not> is_dir d cur then None
      else if c = [] \<or> c = ''.'' then walk_comps d cur cs
      else if c = ''..'' then walk_comps d (butlast cur) cs
      else if is_object d (cur @ [c]) then walk_comps d (cur @ [c]) cs
      else None)"

definition locate :: "disk \<Rightarrow> string \<Rightarrow> string list option" where
  "locate d p =
     (if p = [] then None else walk_comps d [] (split_on SLASH (path_join (dk_cwd d) p)))"

definition disk_exists :: "disk \<Rightarrow> string \<Rightarrow> bool" where
  "disk_exists d p = (locate d p \<noteq> None)"

definition disk_isdir :: "disk \<Rightarrow> string \<Rightarrow> bool" where
  "disk_isdir d p = (case locate d p of None \<Rightarrow> False | Some cs \<Rightarrow> is_dir d cs)"

definition disk_isfile :: "disk \<Rightarrow> string \<Rightarrow> bool" where
  "disk_isfile d p = (case locate d p of None \<Rightarrow> False | Some cs \<Rightarrow> \<not> is_dir d cs)"

text \<open>Reading a file raises, here \<open>None\<close>, unless the path leads to a regular file.\<close>

definition file_content :: "disk \<Rightarrow> string \<Rightarrow> string option" where
  "file_content d p =
     (case locate d p of None \<Rightarrow> None | Some cs \<Rightarrow> if is_dir d cs then None else map_of (dk_files d) cs)"

text \<open>\<open>os.listdir\<close> in the order of the system.\<close>

definition names_in :: "string list \<Rightarrow> string list list \<Rightarrow> string list" where
  "names_in cs objs = map last (filter (\<lambda>p. p \<noteq> [] \<and> butlast p = cs) objs)"

definition listdir :: "disk \<Rightarrow> string list \<Rightarrow> string list" where
  "listdir d cs = names_in cs (map fst (dk_files d) @ dk_dirs d)"

text \<open>\<open>os.walk\<close>, top_dir down: the full names of all regular files below a directory.\<close>

definition below :: "disk \<Rightarrow> string list \<Rightarrow> string list set" where
  "below d cs = {p \<in> set (dk_dirs d). length cs < length p}"

function walk_files :: "disk \<Rightarrow> string \<Rightarrow> string list \<Rightarrow> string list" where
  "walk_files d top_dir cs =
     map (path_join top_dir) (names_in cs (map fst (dk_files d))) @
     concat (map (\<lambda>n. walk_files d (path_join top_dir n) (cs @ [n])) (names_in cs (dk_dirs d)))"
  by pat_completeness auto
termination
proof (relation "measure (\<lambda>(d, top_dir, cs). card (below d cs))", goal_cases)
  case (2 d top_dir cs n)
  then have "cs @ [n] \<in> set (dk_dirs d)"
    by (auto simp: names_in_def)
  then have "cs @ [n] \<in> below d cs" by (simp add: below_def)
  moreover have "cs @ [n] \<notin> below d (cs @ [n])" by (simp add: below_def)
  moreover have "below d (cs @ [n]) \<subseteq> below d cs" unfolding below_def by auto
  ultimately have "below d (cs @ [n]) \<subset> below d cs" by blast
  moreover have "finite (below d cs)" by (simp add: below_def)
  ultimately show ?case by (simp add: psubset_card_mono)
qed simp

declare walk_files.simps [simp del]

end
