(* ===== verification/Dag_Lineage.thy ===== *)
theory Dag_Lineage
  imports Dag_Paths
begin

text \<open>
  The edges of a handoff, the resolution of their targets and the forward walk over them
  (\<open>coordinator_core/dag.py\<close>, \<open>EDGE_KIND_META\<close> to \<open>walk_forward\<close>).

  \<open>world\<close> is what a call reads: the file system, the conversion of numbers (see \<open>Dag_Meta\<close>) and the
  answer of git to whether a path was ever tracked in a repository. A set of edge kinds is a list in the
  order in which it is iterated.
\<close>

record world =
  w_disk :: disk
  w_flt :: "string \<Rightarrow> string option"
  w_git :: "string \<Rightarrow> string \<Rightarrow> bool"

section \<open>Values as text\<close>

definition hex_digit :: "nat \<Rightarrow> char" where
  "hex_digit n = ''0123456789abcdef'' ! n"

definition repr_char :: "char \<Rightarrow> char \<Rightarrow> string" where
  "repr_char q c = (let n = (of_char c :: nat) in
     if c = q \<or> c = BSL then [BSL, c]
     else if c = TAB then [BSL, CHR ''t'']
     else if c = NL then [BSL, CHR ''n'']
     else if n = 13 then [BSL, CHR ''r'']
     else if n < 32 \<or> (127 \<le> n \<and> n \<le> 160) \<or> n = 173 then [BSL, CHR ''x'', hex_digit (n div 16), hex_digit (n mod 16)]
     else [c])"

definition repr_str :: "string \<Rightarrow> string" where
  "repr_str s =
     (let q = (if SQ \<in> set s \<and> DQ \<notin> set s then DQ else SQ) in [q] @ concat (map (repr_char q) s) @ [q])"

fun py_repr :: "yaml \<Rightarrow> string" where
  "py_repr YNull = ''None''"
| "py_repr (YBool b) = (if b then ''True'' else ''False'')"
| "py_repr (YInt n) = str_int n"
| "py_repr (YFloat r) = r"
| "py_repr (YStr s) = repr_str s"
| "py_repr (YList xs) = ''['' @ join_with '', '' (map py_repr xs) @ '']''"
| "py_repr (YMap m) = ''{'' @ join_with '', '' (map (\<lambda>(k, v). repr_str k @ '': '' @ py_repr v) m) @ ''}''"

text \<open>\<open>str(v)\<close>.\<close>

definition py_str :: "yaml \<Rightarrow> string" where
  "py_str v = (case v of YStr s \<Rightarrow> s | _ \<Rightarrow> py_repr v)"

section \<open>Edges\<close>

text \<open>A kind of edge: its field, and whether the field holds a list.\<close>

definition EDGE_KIND_META :: "string \<rightharpoonup> string \<times> bool" where
  "EDGE_KIND_META = map_of
     [(''predecessor'', (''predecessor'', False)),
      (''additional_predecessors'', (''additional_predecessors'', True)),
      (''forked_from'', (''forked_from'', False)),
      (''origin_handoff'', (''origin_handoff'', False))]"

definition EDGE_KIND_FIELD_ALIASES :: "string \<rightharpoonup> string list" where
  "EDGE_KIND_FIELD_ALIASES = map_of
     [(''predecessor'', [''predecessor_id'']), (''origin_handoff'', [''origin_handoff_id''])]"

definition aliases_of :: "string \<Rightarrow> string list" where
  "aliases_of kind = (case EDGE_KIND_FIELD_ALIASES kind of None \<Rightarrow> [] | Some fs \<Rightarrow> fs)"

definition ARCHIVAL_EDGE_KINDS :: "string list" where
  "ARCHIVAL_EDGE_KINDS = [''predecessor'', ''additional_predecessors'', ''forked_from'']"

definition CONTINUATION_EDGE_KINDS :: "string list" where
  "CONTINUATION_EDGE_KINDS = [''predecessor'', ''additional_predecessors'']"

definition ref_of :: "yaml \<Rightarrow> string list" where
  "ref_of v =
     (if v = YNull then []
      else (let s = py_strip (py_str v) in if s = [] \<or> s = ''none'' \<or> s = ''null'' then [] else [s]))"

definition field_refs :: "bool \<Rightarrow> yaml \<Rightarrow> string list" where
  "field_refs multi v =
     (if multi then (case v of YList items \<Rightarrow> concat (map ref_of items) | _ \<Rightarrow> []) else ref_of v)"

definition handoff_edges :: "bool \<Rightarrow> string list \<Rightarrow> meta \<Rightarrow> string list" where
  "handoff_edges include_aliases kinds m = concat (map (\<lambda>kind.
     (case EDGE_KIND_META kind of
        None \<Rightarrow> []
      | Some (field, multi) \<Rightarrow> concat (map (\<lambda>f. field_refs multi (meta_get m f))
          (field # (if include_aliases then aliases_of kind else []))))) kinds)"

section \<open>Reading the corpus\<close>

definition read_meta :: "world \<Rightarrow> string \<Rightarrow> meta" where
  "read_meta w path =
     content_meta (w_flt w) (file_content (w_disk w) (abspath (dk_cwd (w_disk w)) path))"

definition scan_handoff_corpus_paths :: "disk \<Rightarrow> string \<Rightarrow> string list" where
  "scan_handoff_corpus_paths d repo_root =
     (let state_dir = path_joins repo_root [''state'', ''handoffs''];
          archive_dir = path_joins repo_root [''archive'', ''handoffs''];
          is_md = (\<lambda>p. ends_in ''.md'' p \<and> disk_isfile d p) in
      (case locate d state_dir of
         None \<Rightarrow> []
       | Some cs \<Rightarrow> if is_dir d cs then filter is_md (map (path_join state_dir) (listdir d cs)) else []) @
      (case locate d archive_dir of
         None \<Rightarrow> []
       | Some cs \<Rightarrow> if is_dir d cs then filter is_md (walk_files d archive_dir cs) else []))"

text \<open>The \<open>handoff_id\<close> of a file: from the caller's parsed metadata, or scanned, or parsed.\<close>

definition handoff_id_of :: "world \<Rightarrow> (string \<Rightarrow> meta option) option \<Rightarrow> string \<Rightarrow> yaml" where
  "handoff_id_of w metas p =
     (case metas of
        Some given \<Rightarrow>
          (case given (abspath (dk_cwd (w_disk w)) p) of
             Some m \<Rightarrow> meta_get m ''handoff_id''
           | None \<Rightarrow> meta_get (read_meta w p) ''handoff_id'')
      | None \<Rightarrow>
          (case raw_scan_handoff_id (file_content (w_disk w) p) of
             Found v \<Rightarrow> YStr v
           | Absent \<Rightarrow> YNull
           | Fallback \<Rightarrow> meta_get (read_meta w p) ''handoff_id''))"

type_synonym id_index = "(string \<times> string) list"

fun index_ids :: "world \<Rightarrow> (string \<Rightarrow> meta option) option \<Rightarrow> id_index \<Rightarrow> string list \<Rightarrow> id_index" where
  "index_ids w metas index [] = index"
| "index_ids w metas index (p # ps) =
     (let hid = handoff_id_of w metas p; s = py_strip (py_str hid) in
      if hid = YNull \<or> s = [] then index_ids w metas index ps
      else index_ids w metas (AList.update s (abspath (dk_cwd (w_disk w)) p) index) ps)"

definition build_handoff_id_index :: "world \<Rightarrow> (string \<Rightarrow> meta option) option \<Rightarrow> string list \<Rightarrow> id_index" where
  "build_handoff_id_index w metas paths = index_ids w metas [] paths"

section \<open>Resolution\<close>

text \<open>A git history that was read beforehand: the paths found, and whether it is complete.\<close>

type_synonym history = "string set \<times> bool"

definition ever_tracked :: "world \<Rightarrow> history option \<Rightarrow> string \<Rightarrow> string \<Rightarrow> bool" where
  "ever_tracked w cache repo_root rel =
     (let key = replace_all [BSL] [SLASH] rel in
      case cache of
        None \<Rightarrow> w_git w repo_root key
      | Some (known, complete) \<Rightarrow>
          if key \<in> known then True else if complete then False else w_git w repo_root key)"

definition BATON_FAMILY_DIRS :: "string list" where
  "BATON_FAMILY_DIRS = [''state/handoffs'', ''archive/handoffs'']"

definition ref_names_foreign_family :: "string \<Rightarrow> bool" where
  "ref_names_foreign_family ref =
     (let ref_dir = strip_by (\<lambda>c. c = SLASH) (dirname (replace_all [BSL] [SLASH] (normpath ref))) in
      ref_dir \<noteq> [] \<and>
      \<not> list_ex (\<lambda>family. ref_dir = family \<or> starts_with (family @ ''/'') ref_dir) BATON_FAMILY_DIRS)"

definition is_sha_ref :: "string \<Rightarrow> bool" where
  "is_sha_ref s = (7 \<le> length s \<and> length s \<le> 40 \<and> list_all is_hex_char s)"

text \<open>The entries \<open>YYYY-MM\<close> of the archive directory; the regular expression tolerates a final newline.\<close>

definition is_month :: "string \<Rightarrow> bool" where
  "is_month e =
     (let b = (if length e = 8 \<and> last e = NL then butlast e else e) in
      length b = 7 \<and> list_all is_dec (take 4 b) \<and> b ! 4 = CHR ''-'' \<and> list_all is_dec (drop 5 b))"

definition month_entries :: "disk \<Rightarrow> string \<Rightarrow> string list" where
  "month_entries d archive_dir =
     (case locate d archive_dir of
        None \<Rightarrow> []
      | Some cs \<Rightarrow> if is_dir d cs then filter is_month (listdir d cs) else [])"

definition ref_candidates :: "string \<Rightarrow> string \<Rightarrow> string \<Rightarrow> string list" where
  "ref_candidates target handoff_dir repo_root =
     (let base = basename target in
      [normpath (path_join handoff_dir target), normpath (path_join repo_root target)] @
      (if ref_names_foreign_family target then []
       else [normpath (path_joins repo_root [''state'', ''handoffs'', base]),
             normpath (path_joins repo_root [''archive'', ''handoffs'', target]),
             normpath (path_joins repo_root [''archive'', ''handoffs'', base])]))"

definition archive_of :: "string \<Rightarrow> string" where
  "archive_of repo_root = normpath (path_joins repo_root [''archive'', ''handoffs''])"

definition unusable_ref :: "string \<Rightarrow> bool" where
  "unusable_ref target = (target = [] \<or> target = ''none'' \<or> target = ''null'' \<or> is_sha_ref target)"

definition resolve_target_on_disk :: "world \<Rightarrow> id_index \<Rightarrow> string \<Rightarrow> string \<Rightarrow> string \<Rightarrow> string option" where
  "resolve_target_on_disk w index ref handoff_dir repo_root =
     (let d = w_disk w; target = py_strip ref in
      if unusable_ref target then None
      else if \<not> ends_in ''.md'' target \<and> map_of index target \<noteq> None then map_of index target
      else if isabs target then (if disk_exists d target then Some target else None)
      else (case filter (disk_exists d) (ref_candidates target handoff_dir repo_root) of
        found # _ \<Rightarrow> Some found
      | [] \<Rightarrow>
          if ref_names_foreign_family target then None
          else (case filter (disk_exists d) (map (\<lambda>entry. path_joins (archive_of repo_root) [entry, basename target])
                  (month_entries d (archive_of repo_root))) of
            found # _ \<Rightarrow> Some found
          | [] \<Rightarrow> None)))"

text \<open>A path relative to the repository, if it is below it.\<close>

definition below_root :: "string \<Rightarrow> string \<Rightarrow> string option" where
  "below_root repo_root p =
     (let slash = (\<lambda>c. c = SLASH \<or> c = BSL); root = rev (dropWhile slash (rev repo_root)) in
      if starts_with root p then Some (dropWhile slash (drop (length root) p)) else None)"

definition GIT_HISTORY :: string where
  "GIT_HISTORY = ''git-history''"

definition history_paths :: "disk \<Rightarrow> string \<Rightarrow> string \<Rightarrow> string \<Rightarrow> string list" where
  "history_paths d target handoff_dir repo_root =
     (let base = basename target; foreign = ref_names_foreign_family target in
      List.map_filter (below_root repo_root) (ref_candidates target handoff_dir repo_root) @
      (if starts_with_date base \<and> \<not> foreign then [''archive/handoffs/'' @ take 7 base @ ''/'' @ base] else []) @
      (if foreign then []
       else map (\<lambda>entry. ''archive/handoffs/'' @ entry @ ''/'' @ base) (month_entries d (archive_of repo_root))))"

definition resolve_target ::
    "world \<Rightarrow> id_index \<Rightarrow> history option \<Rightarrow> bool \<Rightarrow> string \<Rightarrow> string \<Rightarrow> string \<Rightarrow> string option" where
  "resolve_target w index cache include_history_tier ref handoff_dir repo_root =
     (let found = resolve_target_on_disk w index ref handoff_dir repo_root;
          target = py_strip ref; tracked = ever_tracked w cache repo_root in
      if found \<noteq> None \<or> \<not> include_history_tier \<or> repo_root = [] then found
      else if unusable_ref target then None
      else if isabs target then
        (case below_root repo_root target of
           None \<Rightarrow> None
         | Some rel \<Rightarrow> if tracked rel then Some GIT_HISTORY else None)
      else if tracked target \<or> list_ex tracked (history_paths (w_disk w) target handoff_dir repo_root)
        then Some GIT_HISTORY
      else None)"

definition repo_root_from_handoff_dir :: "string \<Rightarrow> string" where
  "repo_root_from_handoff_dir handoff_dir = normpath (path_joins handoff_dir [''..'', ''..''])"

end
