(* ===== verification/Dag_Walk.thy ===== *)
theory Dag_Walk
  imports Dag_Lineage
begin

text \<open>
  The forward walk over the lineage of a handoff (\<open>walk_forward\<close> of \<open>coordinator_core/dag.py\<close>): a
  depth-first search with an explicit stack, a gray set (entered, not left) and a black set (left, or
  refused by the caller's gate). It ends on every corpus; it visits what is reachable, each path once; and
  it ends early exactly on a cycle or a reference that resolves nowhere.
\<close>

section \<open>The walk\<close>

text \<open>The parameters of a walk once the defaults are filled in.\<close>

record walk_opts =
  wo_kinds :: "string list"
  wo_gate :: "meta \<Rightarrow> bool"
  wo_handoff_dir :: string
  wo_repo_root :: string
  wo_history :: bool
  wo_aliases :: bool
  wo_index :: id_index

definition node_edges :: "walk_opts \<Rightarrow> meta \<Rightarrow> string list" where
  "node_edges opts m = handoff_edges (wo_aliases opts) (wo_kinds opts) m"

definition resolve_edge :: "world \<Rightarrow> walk_opts \<Rightarrow> string \<Rightarrow> string option" where
  "resolve_edge w opts ref =
     resolve_target w (wo_index opts) None (wo_history opts) ref (wo_handoff_dir opts) (wo_repo_root opts)"

text \<open>The paths to push, and whether the node misses a link.\<close>

definition edges_to_push :: "world \<Rightarrow> walk_opts \<Rightarrow> meta \<Rightarrow> string list" where
  "edges_to_push w opts m =
     filter (\<lambda>t. t \<noteq> GIT_HISTORY) (List.map_filter (resolve_edge w opts) (node_edges opts m))"

definition misses_link :: "world \<Rightarrow> walk_opts \<Rightarrow> meta \<Rightarrow> bool" where
  "misses_link w opts m =
     ((\<not> wo_aliases opts \<and> list_ex (\<lambda>kind. aliases_of kind \<noteq> [] \<and> handoff_edges False [kind] m = [] \<and>
         handoff_edges True [kind] m \<noteq> []) (wo_kinds opts)) \<or>
      list_ex (\<lambda>ref. resolve_edge w opts ref = None) (node_edges opts m))"

datatype frame = Enter string | Exit string

primrec frame_path :: "frame \<Rightarrow> string" where
  "frame_path (Enter p) = p"
| "frame_path (Exit p) = p"

record walk =
  wk_nodes :: "(string \<times> meta) list"
  wk_paths :: "string list"
  wk_early :: string
  wk_gray :: "string list"
  wk_black :: "string list"

definition LINEAGE_CYCLE :: string where
  "LINEAGE_CYCLE = ''lineage-cycle''"

definition MISSING_LINK :: string where
  "MISSING_LINK = ''missing-link''"

text \<open>The body of the loop for a path that is entered for the first time and passes the gate.\<close>

definition open_node :: "world \<Rightarrow> walk_opts \<Rightarrow> string \<Rightarrow> walk \<Rightarrow> walk" where
  "open_node w opts p st =
     (let m = read_meta w p in
      st\<lparr>wk_gray := p # wk_gray st, wk_nodes := AList.update p m (wk_nodes st), wk_paths := wk_paths st @ [p],
         wk_early := (if misses_link w opts m then MISSING_LINK else wk_early st)\<rparr>)"

text \<open>The references of all files: what a walk can be sent to.\<close>

definition all_targets :: "world \<Rightarrow> walk_opts \<Rightarrow> string set" where
  "all_targets w opts = (\<Union>content \<in> snd ` set (dk_files (w_disk w)).
     set (edges_to_push w opts (parse_frontmatter (w_flt w) content)))"

lemma finite_all_targets [simp]: "finite (all_targets w opts)"
  by (simp add: all_targets_def)

lemma node_edges_Nil [simp]: "node_edges opts [] = []"
  by (auto simp: node_edges_def handoff_edges_def field_refs_def ref_of_def meta_get_def split: option.split)

lemma edges_to_push_targets: "set (edges_to_push w opts (read_meta w p)) \<subseteq> all_targets w opts"
proof (cases "file_content (w_disk w) (abspath (dk_cwd (w_disk w)) p)")
  case None
  then show ?thesis by (simp add: read_meta_def content_meta_def edges_to_push_def List.map_filter_def)
next
  case (Some content)
  then have "content \<in> snd ` set (dk_files (w_disk w))"
    by (force simp: file_content_def dest: map_of_SomeD split: option.splits if_splits)
  then show ?thesis using Some by (auto simp: read_meta_def content_meta_def all_targets_def)
qed

definition pending :: "world \<Rightarrow> walk_opts \<Rightarrow> frame list \<Rightarrow> walk \<Rightarrow> string set" where
  "pending w opts fs st = (all_targets w opts \<union> frame_path ` set fs) - (set (wk_gray st) \<union> set (wk_black st))"

lemma finite_pending [simp]: "finite (pending w opts fs st)"
  by (simp add: pending_def)

lemma card_le_lex: "finite B \<Longrightarrow> A \<subseteq> B \<Longrightarrow> card A < card B \<or> card A = card B"
  by (meson card_mono le_neq_implies_less)

function walk_loop :: "world \<Rightarrow> walk_opts \<Rightarrow> frame list \<Rightarrow> walk \<Rightarrow> walk" where
  "walk_loop w opts [] st = st"
| "walk_loop w opts (Exit p # fs) st =
     walk_loop w opts fs (st\<lparr>wk_gray := removeAll p (wk_gray st), wk_black := List.insert p (wk_black st)\<rparr>)"
| "walk_loop w opts (Enter p # fs) st =
     (if p \<in> set (wk_black st) then walk_loop w opts fs st
      else if p \<in> set (wk_gray st) then walk_loop w opts fs (st\<lparr>wk_early := LINEAGE_CYCLE\<rparr>)
      else if \<not> wo_gate opts (read_meta w p) then walk_loop w opts fs (st\<lparr>wk_black := List.insert p (wk_black st)\<rparr>)
      else walk_loop w opts (map Enter (edges_to_push w opts (read_meta w p)) @ Exit p # fs) (open_node w opts p st))"
  by pat_completeness auto
termination
proof (relation "measures [\<lambda>(w, opts, fs, st). card (pending w opts fs st), \<lambda>(w, opts, fs, st). length fs]", goal_cases)
  case (2 w opts p fs st)
  have "pending w opts fs (st\<lparr>wk_gray := removeAll p (wk_gray st), wk_black := List.insert p (wk_black st)\<rparr>)
      \<subseteq> pending w opts (Exit p # fs) st"
    by (auto simp: pending_def)
  from card_le_lex [OF finite_pending this] show ?case by simp
next
  case (3 w opts p fs st)
  have "pending w opts fs st \<subseteq> pending w opts (Enter p # fs) st" by (auto simp: pending_def)
  from card_le_lex [OF finite_pending this] show ?case by simp
next
  case (4 w opts p fs st)
  have "pending w opts fs (st\<lparr>wk_early := LINEAGE_CYCLE\<rparr>) \<subseteq> pending w opts (Enter p # fs) st"
    by (auto simp: pending_def)
  from card_le_lex [OF finite_pending this] show ?case by simp
next
  case (5 w opts p fs st)
  have "pending w opts fs (st\<lparr>wk_black := List.insert p (wk_black st)\<rparr>) \<subset> pending w opts (Enter p # fs) st"
    using 5 by (auto simp: pending_def)
  then show ?case by (simp add: psubset_card_mono)
next
  case (6 w opts p fs st)
  have "pending w opts (map Enter (edges_to_push w opts (read_meta w p)) @ Exit p # fs) (open_node w opts p st)
      \<subset> pending w opts (Enter p # fs) st"
    using 6 edges_to_push_targets [of w opts p] by (auto simp: pending_def open_node_def Let_def image_Un)
  then show ?case by (simp add: psubset_card_mono)
qed simp

text \<open>\<open>walk_forward\<close> with its optional arguments; \<open>None\<close> stands for a default.\<close>

definition fill_opts ::
    "world \<Rightarrow> string \<Rightarrow> string list option \<Rightarrow> (meta \<Rightarrow> bool) option \<Rightarrow> string option \<Rightarrow> string option \<Rightarrow> bool \<Rightarrow> bool
     \<Rightarrow> walk_opts" where
  "fill_opts w abs_start edge_kinds node_gate handoff_dir repo_root include_history_tier follow_id_aliases =
     (let kinds = (case edge_kinds of None \<Rightarrow> [''predecessor''] | Some ks \<Rightarrow> ks);
          dir = (case handoff_dir of None \<Rightarrow> dirname abs_start | Some h \<Rightarrow> h);
          root = (case repo_root of None \<Rightarrow> repo_root_from_handoff_dir dir | Some r \<Rightarrow> r) in
      \<lparr>wo_kinds = kinds, wo_gate = (case node_gate of None \<Rightarrow> (\<lambda>m. True) | Some g \<Rightarrow> g),
       wo_handoff_dir = dir, wo_repo_root = root, wo_history = include_history_tier, wo_aliases = follow_id_aliases,
       wo_index = (if follow_id_aliases \<and> root \<noteq> [] \<and> list_ex (\<lambda>k. aliases_of k \<noteq> []) kinds
                   then build_handoff_id_index w None (scan_handoff_corpus_paths (w_disk w) root) else [])\<rparr>)"

definition walk_start :: walk where
  "walk_start = \<lparr>wk_nodes = [], wk_paths = [], wk_early = [], wk_gray = [], wk_black = []\<rparr>"

definition walk_from :: "world \<Rightarrow> walk_opts \<Rightarrow> string \<Rightarrow> walk" where
  "walk_from w opts start = walk_loop w opts [Enter start] walk_start"

definition walk_forward ::
    "world \<Rightarrow> string \<Rightarrow> string list option \<Rightarrow> (meta \<Rightarrow> bool) option \<Rightarrow> string option \<Rightarrow> string option \<Rightarrow> bool \<Rightarrow> bool
     \<Rightarrow> (string \<times> meta) list \<times> string list \<times> string" where
  "walk_forward w start edge_kinds node_gate handoff_dir repo_root include_history_tier follow_id_aliases =
     (let abs_start = abspath (dk_cwd (w_disk w)) start;
          st = walk_from w (fill_opts w abs_start edge_kinds node_gate handoff_dir repo_root
                 include_history_tier follow_id_aliases) abs_start in
      (wk_nodes st, wk_paths st, wk_early st))"

section \<open>What the walk should visit\<close>

definition gated :: "world \<Rightarrow> walk_opts \<Rightarrow> string \<Rightarrow> bool" where
  "gated w opts p = wo_gate opts (read_meta w p)"

definition succs :: "world \<Rightarrow> walk_opts \<Rightarrow> string \<Rightarrow> string set" where
  "succs w opts p = set (edges_to_push w opts (read_meta w p))"

inductive walk_reach :: "world \<Rightarrow> walk_opts \<Rightarrow> string \<Rightarrow> string \<Rightarrow> bool" for w opts start where
  reach_start: "gated w opts start \<Longrightarrow> walk_reach w opts start start"
| reach_step: "walk_reach w opts start p \<Longrightarrow> q \<in> succs w opts p \<Longrightarrow> gated w opts q \<Longrightarrow> walk_reach w opts start q"

definition walk_edges :: "world \<Rightarrow> walk_opts \<Rightarrow> string \<Rightarrow> (string \<times> string) set" where
  "walk_edges w opts start =
     {(p, q). walk_reach w opts start p \<and> walk_reach w opts start q \<and> q \<in> succs w opts p}"

lemma walk_reach_gated: "walk_reach w opts start p \<Longrightarrow> gated w opts p"
  by (induction rule: walk_reach.induct)

section \<open>The invariant of the stack\<close>

fun exits :: "frame list \<Rightarrow> string list" where
  "exits [] = []"
| "exits (Enter p # fs) = exits fs"
| "exits (Exit p # fs) = p # exits fs"

lemma exits_children [simp]: "exits (map Enter ps @ fs) = exits fs"
  by (induction ps) auto

text \<open>A frame was pushed by the node of the next exit below it.\<close>

definition pushed_by :: "world \<Rightarrow> walk_opts \<Rightarrow> string \<Rightarrow> string list \<Rightarrow> string \<Rightarrow> bool" where
  "pushed_by w opts start es q = (case es of [] \<Rightarrow> q = start | e # _ \<Rightarrow> q \<in> succs w opts e)"

fun stack_ok :: "world \<Rightarrow> walk_opts \<Rightarrow> string \<Rightarrow> frame list \<Rightarrow> bool" where
  "stack_ok w opts start [] = True"
| "stack_ok w opts start (f # fs) = (pushed_by w opts start (exits fs) (frame_path f) \<and> stack_ok w opts start fs)"

lemma stack_ok_children:
  "stack_ok w opts start fs \<Longrightarrow> (\<And>p. p \<in> set ps \<Longrightarrow> pushed_by w opts start (exits fs) p) \<Longrightarrow>
   stack_ok w opts start (map Enter ps @ fs)"
  by (induction ps) auto

text \<open>Every node being left finds its targets closed already, or above it on the stack.\<close>

fun targets_above :: "world \<Rightarrow> walk_opts \<Rightarrow> string set \<Rightarrow> frame list \<Rightarrow> bool" where
  "targets_above w opts S [] = True"
| "targets_above w opts S (Enter q # fs) = targets_above w opts (insert q S) fs"
| "targets_above w opts S (Exit p # fs) = (succs w opts p \<subseteq> S \<and> targets_above w opts (insert p S) fs)"

lemma targets_above_mono: "targets_above w opts S fs \<Longrightarrow> S \<subseteq> T \<Longrightarrow> targets_above w opts T fs"
proof (induction w opts S fs arbitrary: T rule: targets_above.induct)
  case (2 w opts S q fs)
  then show ?case by (meson insert_mono targets_above.simps(2))
next
  case (3 w opts S p fs)
  then show ?case by (meson insert_mono order_trans targets_above.simps(3))
qed simp

lemma targets_above_children:
  "targets_above w opts (S \<union> set ps) fs \<Longrightarrow> targets_above w opts S (map Enter ps @ fs)"
  by (induction ps arbitrary: S) auto

text \<open>Closed nodes, the latest first: every target of one that passed the gate was closed before it.\<close>

fun closed_order :: "world \<Rightarrow> walk_opts \<Rightarrow> string list \<Rightarrow> bool" where
  "closed_order w opts [] = True"
| "closed_order w opts (p # ps) =
     (p \<notin> set ps \<and> (gated w opts p \<longrightarrow> succs w opts p \<subseteq> set ps) \<and> closed_order w opts ps)"

lemma acyclic_add_source:
  assumes "acyclic r" and "p \<notin> Range r" and "p \<notin> S"
  shows "acyclic (r \<union> {p} \<times> S)"
proof (rule acyclicI, rule allI, rule notI)
  fix x assume loop: "(x, x) \<in> (r \<union> {p} \<times> S)\<^sup>+"
  then obtain y where "(y, x) \<in> r \<union> {p} \<times> S" by (meson tranclE)
  then have x: "x \<noteq> p" using assms by auto
  have "(x, y) \<in> r\<^sup>+" if "(x, y) \<in> (r \<union> {p} \<times> S)\<^sup>+" for y
    using that
  proof (induction rule: trancl_induct)
    case (base y)
    then show ?case using x by auto
  next
    case (step y z)
    then have "y \<noteq> p" using assms(2) by (metis Range.intros tranclD2)
    then show ?case using step by (auto intro: trancl_into_trancl)
  qed
  with loop assms(1) show False by (auto simp: acyclic_def)
qed

lemma closed_order_acyclic:
  "closed_order w opts ps \<Longrightarrow> acyclic {(p, q). p \<in> set ps \<and> gated w opts p \<and> q \<in> succs w opts p} \<and>
    (\<forall>p \<in> set ps. gated w opts p \<longrightarrow> succs w opts p \<subseteq> set ps)"
proof (induction ps)
  case (Cons a ps)
  let ?r = "{(p, q). p \<in> set ps \<and> gated w opts p \<and> q \<in> succs w opts p}"
  let ?S = "if gated w opts a then succs w opts a else {}"
  have IH: "acyclic ?r" "\<forall>p \<in> set ps. gated w opts p \<longrightarrow> succs w opts p \<subseteq> set ps" using Cons by auto
  moreover have "a \<notin> Range ?r" using IH(2) Cons.prems by auto
  moreover have "a \<notin> ?S" using Cons.prems by auto
  ultimately have "acyclic (?r \<union> {a} \<times> ?S)" by (intro acyclic_add_source)
  moreover have "{(p, q). p \<in> set (a # ps) \<and> gated w opts p \<and> q \<in> succs w opts p} = ?r \<union> {a} \<times> ?S" by auto
  ultimately show ?case using IH(2) Cons.prems by auto
qed (simp add: acyclic_def)

definition flag_ok :: "world \<Rightarrow> walk_opts \<Rightarrow> string \<Rightarrow> string list \<Rightarrow> string \<Rightarrow> bool" where
  "flag_ok w opts start paths early =
     ((early = [] \<and> (\<forall>p \<in> set paths. \<not> misses_link w opts (read_meta w p))) \<or>
      (early = LINEAGE_CYCLE \<and> \<not> acyclic (walk_edges w opts start)) \<or>
      (early = MISSING_LINK \<and> (\<exists>p. walk_reach w opts start p \<and> misses_link w opts (read_meta w p))))"

text \<open>What has been visited, what is still to come, and what the flag says.\<close>

definition visited_ok :: "world \<Rightarrow> walk_opts \<Rightarrow> string \<Rightarrow> walk \<Rightarrow> bool" where
  "visited_ok w opts start st \<longleftrightarrow>
     distinct (wk_paths st) \<and> wk_nodes st = map (\<lambda>p. (p, read_meta w p)) (wk_paths st) \<and>
     set (wk_paths st) = set (wk_gray st) \<union> {p \<in> set (wk_black st). gated w opts p} \<and>
     set (wk_gray st) \<inter> set (wk_black st) = {} \<and>
     (\<forall>p \<in> set (wk_paths st). walk_reach w opts start p)"

definition covered_ok :: "world \<Rightarrow> walk_opts \<Rightarrow> string \<Rightarrow> frame list \<Rightarrow> walk \<Rightarrow> bool" where
  "covered_ok w opts start fs st \<longleftrightarrow>
     insert start (\<Union>p \<in> set (wk_paths st). succs w opts p) \<subseteq>
       set (wk_gray st) \<union> set (wk_black st) \<union> frame_path ` set fs"

definition order_ok :: "world \<Rightarrow> walk_opts \<Rightarrow> string \<Rightarrow> frame list \<Rightarrow> walk \<Rightarrow> bool" where
  "order_ok w opts start fs st \<longleftrightarrow>
     flag_ok w opts start (wk_paths st) (wk_early st) \<and>
     (wk_early st = [] \<longrightarrow> targets_above w opts (set (wk_black st)) fs \<and> closed_order w opts (wk_black st))"

definition stack_inv :: "world \<Rightarrow> walk_opts \<Rightarrow> string \<Rightarrow> frame list \<Rightarrow> walk \<Rightarrow> bool" where
  "stack_inv w opts start fs st \<longleftrightarrow>
     exits fs = wk_gray st \<and> distinct (exits fs) \<and> stack_ok w opts start fs"

definition walk_inv :: "world \<Rightarrow> walk_opts \<Rightarrow> string \<Rightarrow> frame list \<Rightarrow> walk \<Rightarrow> bool" where
  "walk_inv w opts start fs st \<longleftrightarrow>
     visited_ok w opts start st \<and> covered_ok w opts start fs st \<and> stack_inv w opts start fs st \<and>
     order_ok w opts start fs st"

lemma stack_path:
  "stack_ok w opts start fs \<Longrightarrow> exits fs = e # es \<Longrightarrow> g \<in> set (e # es) \<Longrightarrow>
   (\<And>p. p \<in> set (exits fs) \<Longrightarrow> walk_reach w opts start p) \<Longrightarrow> (g, e) \<in> (walk_edges w opts start)\<^sup>*"
proof (induction fs arbitrary: e es)
  case (Cons f fs)
  show ?case
  proof (cases f)
    case (Enter q)
    then show ?thesis using Cons by simp
  next
    case (Exit q)
    then have e: "e = q" "es = exits fs" using Cons.prems by auto
    show ?thesis
    proof (cases "g = e")
      case False
      then have g: "g \<in> set (exits fs)" using Cons.prems e by auto
      then obtain e' es' where es: "exits fs = e' # es'" by (cases "exits fs") auto
      have "(g, e') \<in> (walk_edges w opts start)\<^sup>*" using Cons es g e by auto
      moreover have "(e', e) \<in> walk_edges w opts start"
        using Cons.prems e Exit es by (auto simp: walk_edges_def pushed_by_def)
      ultimately show ?thesis by (rule rtrancl_into_rtrancl)
    qed simp
  qed
qed simp

lemma back_edge_cycle:
  assumes "stack_ok w opts start fs" and "pushed_by w opts start (exits fs) p" and "p \<in> set (exits fs)"
    and "\<And>q. q \<in> set (exits fs) \<Longrightarrow> walk_reach w opts start q"
  shows "\<not> acyclic (walk_edges w opts start)"
proof -
  obtain e es where es: "exits fs = e # es" using assms(3) by (cases "exits fs") auto
  have "(p, e) \<in> (walk_edges w opts start)\<^sup>*" using stack_path [OF assms(1) es] assms(3,4) es by auto
  moreover have "(e, p) \<in> walk_edges w opts start"
    using assms es by (auto simp: walk_edges_def pushed_by_def)
  ultimately have "(p, p) \<in> (walk_edges w opts start)\<^sup>+" by (rule rtrancl_into_trancl1)
  then show ?thesis by (auto simp: acyclic_def)
qed

lemma pushed_reach:
  assumes "pushed_by w opts start es p" and "gated w opts p" and "\<And>q. q \<in> set es \<Longrightarrow> walk_reach w opts start q"
  shows "walk_reach w opts start p"
  using assms by (cases es) (auto simp: pushed_by_def intro: walk_reach.intros)

section \<open>Preservation\<close>

lemma inv_exit:
  assumes "walk_inv w opts start (Exit p # fs) st"
  shows "walk_inv w opts start fs
    (st\<lparr>wk_gray := removeAll p (wk_gray st), wk_black := List.insert p (wk_black st)\<rparr>)" (is "walk_inv _ _ _ _ ?st")
proof -
  have gray: "wk_gray st = p # exits fs" and d: "p \<notin> set (exits fs)"
    using assms by (auto simp: walk_inv_def stack_inv_def)
  then have gray': "removeAll p (wk_gray st) = exits fs" by (simp add: removeAll_id)
  have black: "p \<notin> set (wk_black st)" and g: "gated w opts p"
    using assms gray by (auto simp: walk_inv_def visited_ok_def dest!: bspec walk_reach_gated)
  have "visited_ok w opts start ?st"
    using assms gray gray' d g unfolding walk_inv_def visited_ok_def by auto
  moreover have "covered_ok w opts start fs ?st"
    using assms gray gray' unfolding walk_inv_def covered_ok_def by auto
  moreover have "stack_inv w opts start fs ?st"
    using assms gray gray' unfolding walk_inv_def stack_inv_def by auto
  moreover have "order_ok w opts start fs ?st"
    using assms black unfolding walk_inv_def order_ok_def by auto
  ultimately show ?thesis by (simp add: walk_inv_def)
qed

lemma inv_skip:
  assumes "walk_inv w opts start (Enter p # fs) st" and "p \<in> set (wk_black st)"
  shows "walk_inv w opts start fs st"
  using assms by (auto simp: walk_inv_def covered_ok_def stack_inv_def order_ok_def insert_absorb)

lemma inv_cycle:
  assumes "walk_inv w opts start (Enter p # fs) st" and "p \<in> set (wk_gray st)"
  shows "walk_inv w opts start fs (st\<lparr>wk_early := LINEAGE_CYCLE\<rparr>)" (is "walk_inv _ _ _ _ ?st")
proof -
  have "\<forall>q \<in> set (wk_gray st). walk_reach w opts start q"
    using assms(1) unfolding walk_inv_def visited_ok_def by blast
  then have "\<not> acyclic (walk_edges w opts start)"
    using assms unfolding walk_inv_def stack_inv_def
    by (intro back_edge_cycle [of w opts start fs p]) auto
  then have "order_ok w opts start fs ?st" by (simp add: order_ok_def flag_ok_def LINEAGE_CYCLE_def)
  moreover have "visited_ok w opts start ?st" using assms unfolding walk_inv_def visited_ok_def by simp
  moreover have "covered_ok w opts start fs ?st" using assms unfolding walk_inv_def covered_ok_def by auto
  moreover have "stack_inv w opts start fs ?st" using assms unfolding walk_inv_def stack_inv_def by auto
  ultimately show ?thesis by (simp add: walk_inv_def)
qed

lemma inv_gate:
  assumes "walk_inv w opts start (Enter p # fs) st" and "p \<notin> set (wk_black st)" and "p \<notin> set (wk_gray st)"
    and "\<not> gated w opts p"
  shows "walk_inv w opts start fs (st\<lparr>wk_black := List.insert p (wk_black st)\<rparr>)" (is "walk_inv _ _ _ _ ?st")
proof -
  have "visited_ok w opts start ?st" using assms unfolding walk_inv_def visited_ok_def by auto
  moreover have "covered_ok w opts start fs ?st" using assms unfolding walk_inv_def covered_ok_def by auto
  moreover have "stack_inv w opts start fs ?st" using assms unfolding walk_inv_def stack_inv_def by auto
  moreover have "order_ok w opts start fs ?st" using assms unfolding walk_inv_def order_ok_def by auto
  ultimately show ?thesis by (simp add: walk_inv_def)
qed

lemma update_new: "k \<notin> fst ` set al \<Longrightarrow> AList.update k v al = al @ [(k, v)]"
  by (induction al) auto

lemma inv_open:
  assumes "walk_inv w opts start (Enter p # fs) st" and "p \<notin> set (wk_black st)" and "p \<notin> set (wk_gray st)"
    and "gated w opts p"
  shows "walk_inv w opts start (map Enter (edges_to_push w opts (read_meta w p)) @ Exit p # fs) (open_node w opts p st)"
    (is "walk_inv _ _ _ ?fs ?st")
proof -
  have reach: "walk_reach w opts start p"
  proof (rule pushed_reach [OF _ assms(4)])
    show "pushed_by w opts start (exits fs) p" using assms(1) by (auto simp: walk_inv_def stack_inv_def)
    have "\<forall>q \<in> set (wk_gray st). walk_reach w opts start q"
      using assms(1) unfolding walk_inv_def visited_ok_def by blast
    then show "\<And>q. q \<in> set (exits fs) \<Longrightarrow> walk_reach w opts start q"
      using assms(1) by (auto simp: walk_inv_def stack_inv_def)
  qed
  have new: "p \<notin> set (wk_paths st)" using assms unfolding walk_inv_def visited_ok_def by auto
  have "visited_ok w opts start ?st"
    using assms reach new unfolding walk_inv_def visited_ok_def open_node_def Let_def
    by (auto simp: update_new image_image)
  moreover have "covered_ok w opts start ?fs ?st"
    using assms unfolding walk_inv_def covered_ok_def open_node_def Let_def succs_def by (auto simp: image_Un image_image)
  moreover have "stack_inv w opts start ?fs ?st"
    using assms unfolding walk_inv_def stack_inv_def open_node_def Let_def
    by (auto simp: pushed_by_def succs_def intro!: stack_ok_children)
  moreover have "order_ok w opts start ?fs ?st"
    using assms reach unfolding walk_inv_def order_ok_def open_node_def Let_def flag_ok_def
    by (auto simp: succs_def LINEAGE_CYCLE_def MISSING_LINK_def intro!: targets_above_children elim!: targets_above_mono)
  ultimately show ?thesis by (simp add: walk_inv_def)
qed

lemma walk_loop_inv:
  "walk_inv w opts start fs st \<Longrightarrow> walk_inv w opts start [] (walk_loop w opts fs st)"
proof (induction w opts fs st rule: walk_loop.induct)
  case (3 w opts p fs st)
  then show ?case
    using inv_skip [OF 3(5)] inv_cycle [OF 3(5)] inv_gate [OF 3(5)] inv_open [OF 3(5)]
    by (auto simp: gated_def)
qed (auto intro: inv_exit)

section \<open>The result\<close>

lemma walk_from_inv: "walk_inv w opts start [] (walk_from w opts start)"
  unfolding walk_from_def
  by (rule walk_loop_inv)
    (simp add: walk_inv_def visited_ok_def covered_ok_def stack_inv_def order_ok_def flag_ok_def pushed_by_def
      walk_start_def)

lemma walk_from_black:
  "wk_gray (walk_from w opts start) = []"
  "start \<in> set (wk_black (walk_from w opts start))"
  "set (wk_paths (walk_from w opts start)) = {p \<in> set (wk_black (walk_from w opts start)). gated w opts p}"
  using walk_from_inv [of w opts start]
  by (auto simp: walk_inv_def visited_ok_def covered_ok_def stack_inv_def)

lemma walk_from_paths: "set (wk_paths (walk_from w opts start)) = {p. walk_reach w opts start p}"
proof (rule equalityI; rule subsetI)
  fix p assume "p \<in> set (wk_paths (walk_from w opts start))"
  then show "p \<in> {p. walk_reach w opts start p}"
    using walk_from_inv [of w opts start] unfolding walk_inv_def visited_ok_def by blast
next
  fix p assume "p \<in> {p. walk_reach w opts start p}"
  then have "walk_reach w opts start p" by simp
  then show "p \<in> set (wk_paths (walk_from w opts start))"
  proof (induction rule: walk_reach.induct)
    case reach_start
    then show ?case using walk_from_black(2) [of start w opts] walk_from_black(3) [of w opts start] by simp
  next
    case (reach_step p q)
    then show ?case
      using walk_from_inv [of w opts start] walk_from_black(1,3) [of w opts start]
      unfolding walk_inv_def covered_ok_def by auto
  qed
qed

lemma walk_from_early:
  fixes w opts start
  defines "paths \<equiv> wk_paths (walk_from w opts start)" and "early \<equiv> wk_early (walk_from w opts start)"
  defines "misses \<equiv> {p \<in> set paths. misses_link w opts (read_meta w p)}"
    and "edges \<equiv> {(p, q). p \<in> set paths \<and> q \<in> set paths \<and> q \<in> succs w opts p}"
  shows "if early = [] then misses = {} \<and> acyclic edges
    else if early = ''lineage-cycle'' then \<not> acyclic edges
    else early = ''missing-link'' \<and> misses \<noteq> {}"
proof -
  let ?st = "walk_from w opts start"
  have flag: "flag_ok w opts start paths early" and ord: "early = [] \<Longrightarrow> closed_order w opts (wk_black ?st)"
    using walk_from_inv [of w opts start] by (auto simp: walk_inv_def order_ok_def paths_def early_def)
  have reach: "walk_reach w opts start p \<longleftrightarrow> p \<in> set paths" for p
    using walk_from_paths [of w opts start] unfolding paths_def by blast
  then have edges: "walk_edges w opts start = edges" by (simp add: walk_edges_def edges_def)
  have "acyclic edges" if "early = []"
  proof (rule acyclic_subset)
    show "acyclic {(p, q). p \<in> set (wk_black ?st) \<and> gated w opts p \<and> q \<in> succs w opts p}"
      using closed_order_acyclic [OF ord [OF that]] by blast
    show "edges \<subseteq> {(p, q). p \<in> set (wk_black ?st) \<and> gated w opts p \<and> q \<in> succs w opts p}"
      using walk_from_black(3) [of w opts start] by (auto simp: edges_def paths_def)
  qed
  then show ?thesis
    using flag unfolding flag_ok_def edges reach LINEAGE_CYCLE_def MISSING_LINK_def misses_def by auto
qed

text \<open>C37. The forward walk ends on every corpus. It visits exactly what can be reached from the start over the
  resolved edges through nodes that pass the gate, each path once, and returns each with the metadata its
  file has.\<close>

theorem walk_visits_reachable:
  "case walk_forward w start edge_kinds gate dir root history follow of (nodes, paths, early) \<Rightarrow>
     distinct paths \<and> nodes = map (\<lambda>p. (p, read_meta w p)) paths \<and>
     set paths = {p. walk_reach w
       (fill_opts w (abspath (dk_cwd (w_disk w)) start) edge_kinds gate dir root history follow)
       (abspath (dk_cwd (w_disk w)) start) p}"
proof -
  have "walk_inv w opts s [] (walk_from w opts s)" for opts s by (rule walk_from_inv)
  then show ?thesis
    by (auto simp: walk_forward_def Let_def walk_from_paths walk_inv_def visited_ok_def)
qed

text \<open>C38. The walk ends without a flag exactly where no visited node misses a link and the visited nodes have
  no cycle; the flag \<open>lineage-cycle\<close> is set only where there is a cycle among them and \<open>missing-link\<close> only
  where one of them misses a link.\<close>

theorem walk_flag_sound_complete:
  "case walk_forward w start edge_kinds gate dir root history follow of (nodes, paths, early) \<Rightarrow>
     (let s = abspath (dk_cwd (w_disk w)) start;
          opts = fill_opts w s edge_kinds gate dir root history follow;
          misses = {p \<in> set paths. misses_link w opts (read_meta w p)};
          edges = {(p, q). p \<in> set paths \<and> q \<in> set paths \<and> q \<in> succs w opts p} in
      if early = [] then misses = {} \<and> acyclic edges
      else if early = ''lineage-cycle'' then \<not> acyclic edges
      else early = ''missing-link'' \<and> misses \<noteq> {})"
  unfolding walk_forward_def Let_def prod.case by (rule walk_from_early)

section \<open>Examples\<close>

definition ex_md :: "string \<Rightarrow> string" where
  "ex_md body = ''---'' @ [NL] @ body @ [NL] @ ''---'' @ [NL]"

definition ex_world :: "(string list \<times> string) list \<Rightarrow> world" where
  "ex_world files = \<lparr>w_disk = \<lparr>dk_files = files,
     dk_dirs = [[''r''], [''r'', ''state''], [''r'', ''state'', ''handoffs'']], dk_cwd = ''/''\<rparr>,
     w_flt = (\<lambda>_. None), w_git = (\<lambda>_ _. False)\<rparr>"

definition in_handoffs :: "string \<Rightarrow> string list" where
  "in_handoffs n = [''r'', ''state'', ''handoffs'', n]"

text \<open>A diamond is no cycle.\<close>

end
