(* ===== verification/Dag_Refs.thy ===== *)
theory Dag_Refs
  imports Dag_Lineage
begin

text \<open>
  Who points at a handoff (\<open>coordinator_core/dag.py\<close>, \<open>build_reverse_edge_index\<close> to
  \<open>check_lineage_reachability\<close>, and \<open>reverse_membership\<close> of \<open>coordinator_core/archival.py\<close>): a scan of all
  nodes for one target, the index that answers many targets after one scan, the live children of a
  handoff, and the references of a handoff that resolve nowhere.
\<close>

section \<open>One scan per target\<close>

definition has_aliases :: "string list \<Rightarrow> bool" where
  "has_aliases kinds = list_ex (\<lambda>k. aliases_of k \<noteq> []) kinds"

definition ids_for :: "world \<Rightarrow> (string \<Rightarrow> meta option) option \<Rightarrow> string list \<Rightarrow> string list \<Rightarrow> id_index" where
  "ids_for w metas kinds paths = (if has_aliases kinds then build_handoff_id_index w metas paths else [])"

definition abs_of :: "world \<Rightarrow> string \<Rightarrow> string" where
  "abs_of w p = abspath (dk_cwd (w_disk w)) p"

definition exclude_set :: "world \<Rightarrow> string list option \<Rightarrow> string list" where
  "exclude_set w exclude =
     (case exclude of None \<Rightarrow> [] | Some xs \<Rightarrow> map (abs_of w) (filter (\<lambda>x. x \<noteq> []) xs))"

definition scan_dir :: "string option \<Rightarrow> string list \<Rightarrow> string res" where
  "scan_dir handoff_dir live_set =
     (case handoff_dir of
        Some d \<Rightarrow> Inr d
      | None \<Rightarrow> (case live_set of p # _ \<Rightarrow> Inr (dirname p) | [] \<Rightarrow> Inl (ValueErr ''handoff_dir'')))"

text \<open>Whether a reference of the node \<open>p\<close> names the target.\<close>

definition ref_names_target :: "world \<Rightarrow> id_index \<Rightarrow> string \<Rightarrow> string \<Rightarrow> string \<Rightarrow> string \<Rightarrow> bool" where
  "ref_names_target w index repo_root abs_target p ref =
     (let resolved = resolve_target_on_disk w index ref (dirname p) repo_root in
      if resolved = None \<or> resolved = Some GIT_HISTORY
      then \<not> ref_names_foreign_family ref \<and> basename ref = basename abs_target
      else abs_of w (the resolved) = abs_target)"

definition referenced_by ::
    "world \<Rightarrow> string \<Rightarrow> string list \<Rightarrow> string list option \<Rightarrow> string option \<Rightarrow> string list option \<Rightarrow>
     (bool \<times> string list) res" where
  "referenced_by w target live_set edge_kinds handoff_dir exclude =
     (let kinds = (case edge_kinds of None \<Rightarrow> ARCHIVAL_EDGE_KINDS | Some ks \<Rightarrow> ks) in
      res_bind (scan_dir handoff_dir live_set) (\<lambda>dir.
        (let repo_root = repo_root_from_handoff_dir dir;
             excluded = exclude_set w exclude;
             filtered = (if excluded = [] then live_set else filter (\<lambda>p. abs_of w p \<notin> set excluded) live_set);
             index = ids_for w None kinds filtered;
             referencers = filter (\<lambda>p. list_ex (ref_names_target w index repo_root (abs_of w target) p)
               (handoff_edges True kinds (read_meta w p))) filtered in
         Inr (referencers \<noteq> [], referencers))))"

section \<open>The reverse index\<close>

record rev_index =
  ri_abspath :: "(string \<times> (string \<times> string) list) list"
  ri_basename :: "(string \<times> (string \<times> string) list) list"
  ri_live_set_size :: nat
  ri_edge_kinds :: "string list"

definition bucket :: "(string \<times> (string \<times> string) list) list \<Rightarrow> string \<Rightarrow> (string \<times> string) list" where
  "bucket al k = (case map_of al k of None \<Rightarrow> [] | Some xs \<Rightarrow> xs)"

definition bucket_add ::
    "string \<Rightarrow> string \<times> string \<Rightarrow> (string \<times> (string \<times> string) list) list \<Rightarrow> (string \<times> (string \<times> string) list) list" where
  "bucket_add k x al = AList.update k (bucket al k @ [x]) al"

text \<open>One reference of one node: under the path it resolves to, or under its last component.\<close>

definition index_ref ::
    "world \<Rightarrow> id_index \<Rightarrow> string \<Rightarrow> string \<Rightarrow> string \<Rightarrow> string \<Rightarrow> rev_index \<Rightarrow> rev_index" where
  "index_ref w index repo_root p kind ref ix =
     (let resolved = resolve_target_on_disk w index ref (dirname p) repo_root in
      if resolved = None \<or> resolved = Some GIT_HISTORY
      then (if ref_names_foreign_family ref then ix
            else ix\<lparr>ri_basename := bucket_add (basename ref) (p, kind) (ri_basename ix)\<rparr>)
      else ix\<lparr>ri_abspath := bucket_add (abs_of w (the resolved)) (p, kind) (ri_abspath ix)\<rparr>)"

definition index_node ::
    "world \<Rightarrow> id_index \<Rightarrow> string \<Rightarrow> string list \<Rightarrow> (string \<Rightarrow> meta option) option \<Rightarrow> string \<Rightarrow> rev_index \<Rightarrow> rev_index" where
  "index_node w index repo_root kinds metas p ix =
     (let m = (case metas of None \<Rightarrow> read_meta w p
                | Some given \<Rightarrow> (case given p of Some m \<Rightarrow> m | None \<Rightarrow> read_meta w p)) in
      fold (\<lambda>kind ix. fold (index_ref w index repo_root p kind) (handoff_edges True [kind] m) ix) kinds ix)"

definition build_reverse_edge_index ::
    "world \<Rightarrow> string list \<Rightarrow> string option \<Rightarrow> string list option \<Rightarrow> (string \<Rightarrow> meta option) option \<Rightarrow>
     string list option \<Rightarrow> rev_index res" where
  "build_reverse_edge_index w live_set handoff_dir id_index_source metas edge_kinds =
     res_bind (scan_dir handoff_dir live_set) (\<lambda>dir.
       (let repo_root = repo_root_from_handoff_dir dir;
            kinds = (case edge_kinds of None \<Rightarrow> ARCHIVAL_EDGE_KINDS | Some ks \<Rightarrow> ks);
            index = ids_for w metas kinds (case id_index_source of None \<Rightarrow> live_set | Some src \<Rightarrow> src) in
        Inr (fold (index_node w index repo_root kinds metas) live_set
          \<lparr>ri_abspath = [], ri_basename = [], ri_live_set_size = length live_set, ri_edge_kinds = kinds\<rparr>)))"

fun collect_hits :: "string list \<Rightarrow> string list \<Rightarrow> string list \<Rightarrow> (string \<times> string) list \<Rightarrow> string list" where
  "collect_hits kinds excluded seen [] = []"
| "collect_hits kinds excluded seen ((p, kind) # hits) =
     (if kind \<notin> set kinds then collect_hits kinds excluded seen hits
      else if p \<in> set seen \<or> p \<in> set excluded then collect_hits kinds excluded seen hits
      else p # collect_hits kinds excluded (p # seen) hits)"

definition referenced_by_indexed ::
    "world \<Rightarrow> string \<Rightarrow> rev_index \<Rightarrow> string list option \<Rightarrow> string list option \<Rightarrow> (bool \<times> string list) res" where
  "referenced_by_indexed w target ix edge_kinds exclude =
     (let kinds = (case edge_kinds of None \<Rightarrow> ARCHIVAL_EDGE_KINDS | Some ks \<Rightarrow> ks) in
      if \<not> set kinds \<subseteq> set (ri_edge_kinds ix) then Inl (ValueErr ''edge_kinds'')
      else (let abs_target = abs_of w target;
                hits = bucket (ri_abspath ix) abs_target @ bucket (ri_basename ix) (basename abs_target);
                referencers = collect_hits kinds (exclude_set w exclude) [] hits in
            Inr (referencers \<noteq> [], referencers)))"

section \<open>What the index holds\<close>

lemma set_bucket_add [simp]:
  "set (bucket (bucket_add k x al) k') = set (bucket al k') \<union> (if k = k' then {x} else {})"
  by (cases "k = k'") (simp_all add: bucket_def bucket_add_def update_conv' split: option.split)

lemma index_ref_kinds [simp]: "ri_edge_kinds (index_ref w index root p kind ref ix) = ri_edge_kinds ix"
  by (simp add: index_ref_def Let_def)

abbreviation hits_of :: "world \<Rightarrow> string \<Rightarrow> rev_index \<Rightarrow> (string \<times> string) set" where
  "hits_of w t ix \<equiv> set (bucket (ri_abspath ix) t) \<union> set (bucket (ri_basename ix) (basename t))"

lemma index_ref_hits:
  "hits_of w t (index_ref w index root p kind ref ix) =
     hits_of w t ix \<union> (if ref_names_target w index root t p ref then {(p, kind)} else {})"
  by (auto simp: index_ref_def ref_names_target_def Let_def)

lemma fold_hits:
  assumes "\<And>a ix. hits_of w t (f a ix) = hits_of w t ix \<union> H a"
  shows "hits_of w t (fold f as ix) = hits_of w t ix \<union> (\<Union>a \<in> set as. H a)"
  by (induction as arbitrary: ix) (auto simp: assms)

lemma fold_kinds:
  assumes "\<And>a ix. ri_edge_kinds (f a ix) = ri_edge_kinds ix"
  shows "ri_edge_kinds (fold f as ix) = ri_edge_kinds ix"
  by (induction as arbitrary: ix) (auto simp: assms)

lemma index_node_kinds: "ri_edge_kinds (index_node w index root kinds metas p ix) = ri_edge_kinds ix"
  by (simp add: index_node_def Let_def fold_kinds)

lemma index_refs_hits:
  "hits_of w t (fold (index_ref w index root p kind) refs ix) =
     hits_of w t ix \<union> (if list_ex (ref_names_target w index root t p) refs then {(p, kind)} else {})"
  by (induction refs arbitrary: ix) (simp_all only: fold_simps comp_apply index_ref_hits list_ex_iff, auto)

lemma index_node_hits:
  "hits_of w t (index_node w index root kinds None p ix) = hits_of w t ix \<union>
     {(p, kind) | kind. kind \<in> set kinds \<and>
        list_ex (ref_names_target w index root t p) (handoff_edges True [kind] (read_meta w p))}"
proof -
  have "(\<Union>kind \<in> set kinds. if list_ex (ref_names_target w index root t p) (handoff_edges True [kind] m)
      then {(p, kind)} else {}) =
    {(p, kind) | kind. kind \<in> set kinds \<and> list_ex (ref_names_target w index root t p) (handoff_edges True [kind] m)}" for m
    by auto
  then show ?thesis
    unfolding index_node_def Let_def option.case by (subst fold_hits [OF index_refs_hits]) simp
qed

lemma mem_collect_hits:
  "q \<in> set (collect_hits kinds excluded seen hits) \<longleftrightarrow>
     q \<notin> set seen \<and> q \<notin> set excluded \<and> (\<exists>kind. kind \<in> set kinds \<and> (q, kind) \<in> set hits)"
proof (induction kinds excluded seen hits rule: collect_hits.induct)
  case (2 kinds excluded seen p kind hits)
  show ?case
  proof (cases "kind \<in> set kinds \<and> p \<notin> set seen \<and> p \<notin> set excluded")
    case True
    then show ?thesis using 2(3) by (cases "q = p") auto
  next
    case False
    then show ?thesis using 2(1,2) by (cases "kind \<in> set kinds") auto
  qed
qed simp

lemma set_collect_hits:
  "set (collect_hits kinds excluded seen hits) =
     {p. p \<notin> set seen \<and> p \<notin> set excluded \<and> (\<exists>kind. kind \<in> set kinds \<and> (p, kind) \<in> set hits)}"
  by (simp add: set_eq_iff mem_collect_hits)

lemma distinct_collect_hits: "distinct (collect_hits kinds excluded seen hits)"
  by (induction kinds excluded seen hits rule: collect_hits.induct) (auto simp: set_collect_hits)

lemma set_handoff_edges:
  "set (handoff_edges al kinds m) = (\<Union>kind \<in> set kinds. set (handoff_edges al [kind] m))"
  by (auto simp: handoff_edges_def)

lemma index_ids_filter:
  "(\<And>p. p \<in> set ps \<Longrightarrow> \<not> P p \<Longrightarrow> handoff_id_of w metas p = YNull) \<Longrightarrow>
   index_ids w metas index (filter P ps) = index_ids w metas index ps"
  by (induction ps arbitrary: index) (auto simp: Let_def)

lemma ids_for_filter:
  assumes "has_aliases ks = has_aliases ks'"
    and "\<And>p. p \<in> set ps \<Longrightarrow> \<not> P p \<Longrightarrow> handoff_id_of w metas p = YNull"
  shows "ids_for w metas ks (filter P ps) = ids_for w metas ks' ps"
  using assms index_ids_filter [of ps P w metas "[]"] by (simp add: ids_for_def build_handoff_id_index_def)

lemma build_index_Inr:
  assumes "scan_dir handoff_dir live_set = Inr dir"
  shows "\<exists>ix. build_reverse_edge_index w live_set handoff_dir None None (Some kinds) = Inr ix \<and>
    ri_edge_kinds ix = kinds \<and>
    (\<forall>t. hits_of w t ix = {(p, kind) | p kind. p \<in> set live_set \<and> kind \<in> set kinds \<and>
       list_ex (ref_names_target w (ids_for w None kinds live_set) (repo_root_from_handoff_dir dir) t p)
         (handoff_edges True [kind] (read_meta w p))})"
  unfolding build_reverse_edge_index_def assms res_bind_simps Let_def option.case
  by (rule exI, rule conjI, rule refl, rule conjI, subst fold_kinds [OF index_node_kinds], simp,
    rule allI, subst fold_hits [OF index_node_hits]) (auto simp: bucket_def)

lemma reverse_index_agrees:
  assumes "scan_dir handoff_dir live_set = Inr dir"
    and "set kinds \<subseteq> set all_kinds" and "has_aliases kinds = has_aliases all_kinds"
    and "\<forall>p \<in> set live_set. abs_of w p = p"
    and "\<forall>p \<in> set live_set \<inter> set (exclude_set w exclude). handoff_id_of w None p = YNull"
  shows "\<exists>ix b ps ps'. build_reverse_edge_index w live_set handoff_dir None None (Some all_kinds) = Inr ix \<and>
    referenced_by_indexed w target ix (Some kinds) exclude = Inr (b, ps) \<and>
    referenced_by w target live_set (Some kinds) handoff_dir exclude = Inr (b, ps') \<and>
    set ps = set ps' \<and> distinct ps"
proof -
  define ex where "ex = exclude_set w exclude"
  define root where "root = repo_root_from_handoff_dir dir"
  define t where "t = abs_of w target"
  define ids where "ids = ids_for w None all_kinds live_set"
  obtain ix where ix: "build_reverse_edge_index w live_set handoff_dir None None (Some all_kinds) = Inr ix"
    "ri_edge_kinds ix = all_kinds"
    "hits_of w t ix = {(p, kind) | p kind. p \<in> set live_set \<and> kind \<in> set all_kinds \<and>
       list_ex (ref_names_target w ids root t p) (handoff_edges True [kind] (read_meta w p))}"
    using build_index_Inr [OF assms(1), of w all_kinds] unfolding root_def t_def ids_def by blast
  define filtered where "filtered = (if ex = [] then live_set else filter (\<lambda>p. abs_of w p \<notin> set ex) live_set)"
  have filtered: "filtered = filter (\<lambda>p. p \<notin> set ex) live_set"
    using assms(4) by (auto simp: filtered_def intro!: filter_cong)
  have ids: "ids_for w None kinds filtered = ids"
    unfolding filtered ids_def using assms(3,5) by (intro ids_for_filter) (auto simp: ex_def)
  define ps' where "ps' = filter (\<lambda>p. list_ex (ref_names_target w ids root t p)
    (handoff_edges True kinds (read_meta w p))) filtered"
  define ps where "ps = collect_hits kinds ex [] (bucket (ri_abspath ix) t @ bucket (ri_basename ix) (basename t))"
  have "set ps = {p. p \<notin> set ex \<and> (\<exists>kind \<in> set kinds. (p, kind) \<in> hits_of w t ix)}"
    by (auto simp: ps_def set_collect_hits)
  also have "\<dots> = set ps'"
    unfolding ps'_def filtered ix(3) list_ex_iff set_filter set_handoff_edges [of True kinds]
    using assms(2) by auto
  finally have same: "set ps = set ps'" .
  then have "(ps \<noteq> []) = (ps' \<noteq> [])" by auto
  then have "referenced_by_indexed w target ix (Some kinds) exclude = Inr (ps' \<noteq> [], ps)"
    using ix(2) assms(2) unfolding referenced_by_indexed_def Let_def ps_def t_def ex_def by simp
  moreover have "referenced_by w target live_set (Some kinds) handoff_dir exclude = Inr (ps' \<noteq> [], ps')"
    unfolding referenced_by_def Let_def option.case assms(1) res_bind_simps ex_def [symmetric]
      filtered_def [symmetric] root_def [symmetric] t_def [symmetric] ids ps'_def [symmetric] ..
  moreover have "distinct ps" by (simp add: ps_def distinct_collect_hits)
  ultimately show ?thesis using ix(1) same by blast
qed

text \<open>C39. One scan answers as many targets as are asked: over live nodes given by absolute paths, and as long
  as the index was built for kinds that are asked for and no excluded node carries a handoff id, the reverse
  index names exactly the referencers that scanning all nodes for the target finds.\<close>

theorem reverse_index_equivalent:
  assumes "scan_dir handoff_dir live_set = Inr dir"
    and "set kinds \<subseteq> set all_kinds" and "has_aliases kinds = has_aliases all_kinds"
    and "\<forall>p \<in> set live_set. abs_of w p = p"
    and "\<forall>p \<in> set live_set \<inter> set (exclude_set w exclude). handoff_id_of w None p = YNull"
  shows "\<exists>ix b ps ps'. build_reverse_edge_index w live_set handoff_dir None None (Some all_kinds) = Inr ix \<and>
    referenced_by_indexed w target ix (Some kinds) exclude = Inr (b, ps) \<and>
    referenced_by w target live_set (Some kinds) handoff_dir exclude = Inr (b, ps') \<and>
    set ps = set ps' \<and> distinct ps"
  by (rule reverse_index_agrees [OF assms])

section \<open>Live children\<close>

text \<open>\<open>_is_terminal_or_archived_child\<close> of \<open>archival.py\<close>; \<open>text_field\<close> is \<open>(m.get(k) or "").strip().lower()\<close>, which
  raises on a value that is neither false nor a string.\<close>

fun yaml_truthy :: "yaml \<Rightarrow> bool" where
  "yaml_truthy YNull = False"
| "yaml_truthy (YBool b) = b"
| "yaml_truthy (YInt n) = (n \<noteq> 0)"
| "yaml_truthy (YFloat r) = (r \<noteq> ''0.0'' \<and> r \<noteq> ''-0.0'')"
| "yaml_truthy (YStr s) = (s \<noteq> [])"
| "yaml_truthy (YList xs) = (xs \<noteq> [])"
| "yaml_truthy (YMap m) = (m \<noteq> [])"

definition text_field :: "meta \<Rightarrow> string \<Rightarrow> string res" where
  "text_field m k =
     (case meta_get m k of
        YStr s \<Rightarrow> Inr (py_lower (py_strip s))
      | v \<Rightarrow> if yaml_truthy v then Inl AttributeErr else Inr [])"

definition HANDOFF_TERMINAL_DEPLOYMENT :: "string list" where
  "HANDOFF_TERMINAL_DEPLOYMENT = [''shipped'', ''abandoned'', ''continued'', ''closed'']"

definition HANDOFF_TERMINAL_STATUS :: "string list" where
  "HANDOFF_TERMINAL_STATUS = [''consumed'', ''superseded'', ''claimed'']"

definition HANDOFF_ARCHIVAL_TERMINAL_STATUSES :: "string list" where
  "HANDOFF_ARCHIVAL_TERMINAL_STATUSES = HANDOFF_TERMINAL_STATUS @ [''abandoned'']"

fun consecutive :: "'a \<Rightarrow> 'a \<Rightarrow> 'a list \<Rightarrow> bool" where
  "consecutive a b (x # y # xs) = ((x = a \<and> y = b) \<or> consecutive a b (y # xs))"
| "consecutive a b _ = False"

definition path_parts :: "string \<Rightarrow> string list" where
  "path_parts p = filter (\<lambda>c. c \<noteq> [] \<and> c \<noteq> ''.'') (split_on SLASH p)"

definition archived_path :: "string \<Rightarrow> bool" where
  "archived_path p = consecutive ''archive'' ''handoffs'' (path_parts p)"

definition is_terminal_or_archived_child :: "world \<Rightarrow> string \<Rightarrow> bool res" where
  "is_terminal_or_archived_child w p =
     (if archived_path p then Inr True
      else (let m = read_meta w p in
        res_bind (text_field m ''status'') (\<lambda>status.
        res_bind (text_field m ''deployment_state'') (\<lambda>deployment.
          if deployment \<in> set HANDOFF_TERMINAL_DEPLOYMENT then Inr True
          else if status \<notin> set HANDOFF_ARCHIVAL_TERMINAL_STATUSES then Inr False
          else if status \<in> {''consumed'', ''claimed''} then Inr (deployment = [])
          else Inr True))))"

fun live_children :: "world \<Rightarrow> string list \<Rightarrow> string list res" where
  "live_children w [] = Inr []"
| "live_children w (c # cs) =
     res_bind (is_terminal_or_archived_child w c) (\<lambda>gone.
     res_bind (live_children w cs) (\<lambda>kept. Inr (if gone then kept else c # kept)))"

definition reverse_membership ::
    "world \<Rightarrow> string \<Rightarrow> string list option \<Rightarrow> string list option \<Rightarrow> string list option \<Rightarrow> rev_index option \<Rightarrow>
     string set res" where
  "reverse_membership w node_path dag_index exclude edge_kinds index =
     (case dag_index of
        None \<Rightarrow> Inl (ValueErr ''dag_index'')
      | Some [] \<Rightarrow> Inl (ValueErr ''dag_index'')
      | Some live_paths \<Rightarrow>
          res_bind
            (case index of
               Some ix \<Rightarrow> referenced_by_indexed w (abs_of w node_path) ix edge_kinds exclude
             | None \<Rightarrow> referenced_by w (abs_of w node_path) live_paths edge_kinds None exclude)
            (\<lambda>(found, ps). res_bind (live_children w ps) (\<lambda>cs. Inr (set cs))))"

lemma live_children_Inr:
  "live_children w cs = Inr kept \<Longrightarrow>
   set kept = {c \<in> set cs. is_terminal_or_archived_child w c = Inr False}"
  by (induction cs arbitrary: kept) (auto simp: res_bind_Inr_iff split: if_splits)

lemma live_children_Inl:
  "(\<exists>e. live_children w cs = Inl e) \<longleftrightarrow> (\<exists>c \<in> set cs. \<exists>e. is_terminal_or_archived_child w c = Inl e)"
proof (induction cs)
  case (Cons c cs)
  then show ?case
    by (cases "is_terminal_or_archived_child w c"; cases "live_children w cs") auto
qed simp

lemma text_field_error: "text_field m k = Inl e \<Longrightarrow> e = AttributeErr"
  by (cases "meta_get m k") (auto simp: text_field_def split: if_splits)

lemma terminal_child_error: "is_terminal_or_archived_child w c = Inl e \<Longrightarrow> e = AttributeErr"
  by (cases "text_field (read_meta w c) ''status''"; cases "text_field (read_meta w c) ''deployment_state''")
    (auto simp: is_terminal_or_archived_child_def Let_def dest: text_field_error split: if_splits)

lemma live_children_error: "live_children w cs = Inl e \<Longrightarrow> e = AttributeErr"
  by (induction cs) (auto simp: res_bind_def dest: terminal_child_error split: sum.splits)

text \<open>The answer depends on the set of the referencers only.\<close>

lemma live_children_set_cong:
  assumes "set ps = set ps'"
  shows "res_bind (live_children w ps) (\<lambda>cs. Inr (set cs)) = res_bind (live_children w ps') (\<lambda>cs. Inr (set cs))"
proof (cases "\<exists>e. live_children w ps = Inl e")
  case True
  then have "\<exists>e. live_children w ps' = Inl e" using assms by (simp add: live_children_Inl)
  with True have "live_children w ps = Inl AttributeErr" "live_children w ps' = Inl AttributeErr"
    using live_children_error by blast+
  then show ?thesis by simp
next
  case False
  moreover from this have "\<not> (\<exists>e. live_children w ps' = Inl e)" using assms by (simp add: live_children_Inl)
  ultimately obtain cs cs' where "live_children w ps = Inr cs" "live_children w ps' = Inr cs'"
    by (metis sum.exhaust)
  then show ?thesis using assms by (simp add: live_children_Inr)
qed

text \<open>The live children of a handoff are the same whether they are looked up in a reverse index or found by
  a scan: over nodes given by absolute paths, for kinds the index covers, with no id on an excluded node.\<close>

theorem live_children_from_index:
  assumes "build_reverse_edge_index w dag_index None None None (Some all_kinds) = Inr ix"
    and "set kinds \<subseteq> set all_kinds" and "has_aliases kinds = has_aliases all_kinds"
    and "\<forall>p \<in> set dag_index. abs_of w p = p"
    and "\<forall>p \<in> set dag_index \<inter> set (exclude_set w exclude). handoff_id_of w None p = YNull"
  shows "reverse_membership w node (Some dag_index) exclude (Some kinds) (Some ix) =
    reverse_membership w node (Some dag_index) exclude (Some kinds) None"
proof (cases dag_index)
  case (Cons p ps)
  then have dir: "scan_dir None dag_index = Inr (dirname p)" by (simp add: scan_dir_def)
  from reverse_index_agrees [OF dir assms(2-5), of "abs_of w node"]
  obtain b xs ys where "referenced_by_indexed w (abs_of w node) ix (Some kinds) exclude = Inr (b, xs)"
    "referenced_by w (abs_of w node) dag_index (Some kinds) None exclude = Inr (b, ys)" "set xs = set ys"
    using assms(1) by auto
  then show ?thesis using Cons by (simp add: reverse_membership_def live_children_set_cong [of xs ys])
qed (simp add: reverse_membership_def)

section \<open>References that resolve nowhere\<close>

definition WAIVED_DANGLING_PREDECESSORS :: "(string \<times> string) list" where
  "WAIVED_DANGLING_PREDECESSORS =
     [(''archive/handoffs/2026-06-28_081122_d5714a02-8a54-4897-babf-457e5833ed9c.md'',
       ''state/handoffs/2026-06-27_224629_roadmap-stub-numbering-dependency-order.md''),
      (''archive/handoffs/2026-06-28_081627_52b35ed9-0b63-47fa-a501-a93734abff15.md'',
       ''state/handoffs/2026-06-27_223611_pickup-liveness-canonical-not-raw-pid.md''),
      (''archive/handoffs/2026-06-30_040412_e92b195b-799d-4e54-8baf-75882a82e659.md'',
       ''state/handoffs/2026-06-28_080820_eff4f4ab-5277-4e3c-8362-e0c229a2b9dc.md''),
      (''archive/handoffs/2026-06/2026-06-30_114057_80de4efd-6159-4812-a16f-7c8dc8578c9e.md'',
       ''2026-06-30_033536_b7d4f348.md''),
      (''archive/handoffs/2026-06/2026-06-30_185537_d92000f8.md'',
       ''state/handoffs/2026-06-27_095007_roadmap-ccos-7.md'')]"

definition check_field ::
    "world \<Rightarrow> history option \<Rightarrow> string \<Rightarrow> string \<Rightarrow> string option \<Rightarrow> string \<Rightarrow> yaml \<Rightarrow> (string \<times> string) list" where
  "check_field w cache dir repo_root waived field raw =
     (if raw = YNull then []
      else (let value = py_strip (py_str raw) in
        if value = [] \<or> value = ''none'' \<or> value = ''null'' then []
        else if waived = Some value then []
        else if resolve_target w [] cache True value dir repo_root = None then [(field, value)]
        else []))"

text \<open>\<open>check_lineage_reachability\<close>: the fields that fail, with their text.\<close>

definition check_lineage_reachability ::
    "world \<Rightarrow> meta \<Rightarrow> string \<Rightarrow> string option \<Rightarrow> string option \<Rightarrow> history option \<Rightarrow> (string \<times> string) list" where
  "check_lineage_reachability w m repo_root handoff_dir record_rel cache =
     (if m = [] then []
      else (let dir = (case handoff_dir of Some d \<Rightarrow> if d = [] then path_joins repo_root [''state'', ''handoffs''] else d
                       | None \<Rightarrow> path_joins repo_root [''state'', ''handoffs'']);
                waived = (case record_rel of None \<Rightarrow> None
                          | Some r \<Rightarrow> if r = [] then None else map_of WAIVED_DANGLING_PREDECESSORS r);
                check = check_field w cache dir repo_root waived in
        (if meta_get m ''kind'' = YStr ''recovery'' then [] else check ''predecessor'' (meta_get m ''predecessor'')) @
        check ''forked_from'' (meta_get m ''forked_from'') @
        check ''origin_handoff'' (meta_get m ''origin_handoff'') @
        (case meta_get m ''additional_predecessors'' of
           YList items \<Rightarrow> concat (map (\<lambda>i.
             check (''additional_predecessors['' @ decimal (int i) @ '']'') (items ! i)) [0..<length items])
         | _ \<Rightarrow> [])))"

end
