(* ===== verification/Dag_Check.thy ===== *)
theory Dag_Check
  imports Dag_Walk Dag_Refs
begin

text \<open>
  How the parts of \<open>coordinator_core/dag.py\<close> fit together: a corpus that passes the reachability check is
  walked without a missing link. Worked examples, and what they show of the code.
\<close>

section \<open>A clean corpus has no missing link\<close>

lemma resolve_with_index:
  "resolve_target w [] None True ref dir root \<noteq> None \<Longrightarrow> resolve_target w index None True ref dir root \<noteq> None"
  by (auto simp: resolve_target_def resolve_target_on_disk_def Let_def split: if_splits option.splits list.splits)

definition ref_found :: "world \<Rightarrow> string \<Rightarrow> string \<Rightarrow> string \<Rightarrow> bool" where
  "ref_found w dir root ref = (resolve_target w [] None True ref dir root \<noteq> None)"

lemma check_field_clean:
  assumes "check_field w None dir root None field v = []" and "ref \<in> set (ref_of v)"
  shows "ref_found w dir root ref"
  using assms by (auto simp: ref_found_def check_field_def ref_of_def Let_def split: if_splits)

text \<open>What a clean record may say: it passes the check, is no recovery handoff and names nothing by id only.\<close>

definition clean_record :: "world \<Rightarrow> string \<Rightarrow> string \<Rightarrow> meta \<Rightarrow> bool" where
  "clean_record w dir root m =
     (check_lineage_reachability w m root (Some dir) None None = [] \<and> meta_get m ''kind'' \<noteq> YStr ''recovery'' \<and>
      meta_get m ''predecessor_id'' = YNull \<and> meta_get m ''origin_handoff_id'' = YNull)"

lemma clean_items:
  assumes "\<forall>i < length items. check_field w None dir root None (f i) (items ! i) = []"
    and "v \<in> set items" and "ref \<in> set (ref_of v)"
  shows "ref_found w dir root ref"
  using assms by (metis in_set_conv_nth check_field_clean)

lemma edge_kind_cases:
  "EDGE_KIND_META kind = Some fm \<Longrightarrow>
   (kind = ''predecessor'' \<and> fm = (''predecessor'', False) \<and> aliases_of kind = [''predecessor_id'']) \<or>
   (kind = ''additional_predecessors'' \<and> fm = (''additional_predecessors'', True) \<and> aliases_of kind = []) \<or>
   (kind = ''forked_from'' \<and> fm = (''forked_from'', False) \<and> aliases_of kind = []) \<or>
   (kind = ''origin_handoff'' \<and> fm = (''origin_handoff'', False) \<and> aliases_of kind = [''origin_handoff_id''])"
  by (auto simp: EDGE_KIND_META_def aliases_of_def EDGE_KIND_FIELD_ALIASES_def split: if_splits)

lemma refs_null [simp]: "ref_of YNull = []" "field_refs multi YNull = []"
  by (simp_all add: field_refs_def ref_of_def)

lemma clean_edges:
  assumes clean: "clean_record w dir root m" and "dir \<noteq> []" and ref: "ref \<in> set (handoff_edges al kinds m)"
  shows "ref_found w dir root ref"
proof (cases "m = []")
  case True
  then show ?thesis using ref node_edges_Nil [of "\<lparr>wo_kinds = kinds, wo_gate = (\<lambda>_. True), wo_handoff_dir = [],
    wo_repo_root = [], wo_history = True, wo_aliases = al, wo_index = []\<rparr>"] by (simp add: node_edges_def)
next
  case False
  have pred: "check_field w None dir root None ''predecessor'' (meta_get m ''predecessor'') = []"
    and fork: "check_field w None dir root None ''forked_from'' (meta_get m ''forked_from'') = []"
    and orig: "check_field w None dir root None ''origin_handoff'' (meta_get m ''origin_handoff'') = []"
    and add: "meta_get m ''additional_predecessors'' = YList items \<Longrightarrow> i < length items \<Longrightarrow>
      check_field w None dir root None (''additional_predecessors['' @ decimal (int i) @ '']'') (items ! i) = []" for items i
    using clean False assms(2) by (auto simp: clean_record_def check_lineage_reachability_def Let_def)
  from ref obtain kind field multi f where kind: "EDGE_KIND_META kind = Some (field, multi)"
    "f \<in> set (field # (if al then aliases_of kind else []))" "ref \<in> set (field_refs multi (meta_get m f))"
    by (auto simp: handoff_edges_def split: option.splits if_splits dest!: sym [of "Some _"])
  have null: "meta_get m ''predecessor_id'' = YNull" "meta_get m ''origin_handoff_id'' = YNull"
    using clean by (auto simp: clean_record_def)
  have items: "\<exists>items v. meta_get m ''additional_predecessors'' = YList items \<and> v \<in> set items \<and> ref \<in> set (ref_of v)"
    if "ref \<in> set (field_refs True (meta_get m ''additional_predecessors''))"
    using that by (cases "meta_get m ''additional_predecessors''") (auto simp: field_refs_def)
  show ?thesis
    using edge_kind_cases [OF kind(1)] kind(2,3) null
    by (auto simp: field_refs_def [of False] split: if_splits dest!: items
        intro: check_field_clean [OF pred] check_field_clean [OF fork] check_field_clean [OF orig]
          clean_items [OF allI [OF impI [OF add]]])
qed

text \<open>Where every node that can be reached passes the reachability check against the directory and the
  repository of the walk, is no recovery handoff and names nothing by id only, the walk reports no missing link:
  its flag is empty, or a cycle.\<close>

theorem clean_lineage_no_missing_link:
  assumes "dir \<noteq> []"
    and "\<forall>p. walk_reach w (fill_opts w (abs_of w start) edge_kinds gate (Some dir) (Some root) True follow) (abs_of w start) p
      \<longrightarrow> clean_record w dir root (read_meta w p)"
  shows "snd (snd (walk_forward w start edge_kinds gate (Some dir) (Some root) True follow)) \<in> {[], ''lineage-cycle''}"
proof -
  define opts where "opts = fill_opts w (abs_of w start) edge_kinds gate (Some dir) (Some root) True follow"
  have opts: "wo_handoff_dir opts = dir" "wo_repo_root opts = root" "wo_history opts"
    by (simp_all add: opts_def fill_opts_def Let_def)
  have "\<not> misses_link w opts (read_meta w p)" if "walk_reach w opts (abs_of w start) p" for p
  proof -
    have clean: "clean_record w dir root (read_meta w p)" using that assms(2) by (simp add: opts_def)
    then have null: "meta_get (read_meta w p) ''predecessor_id'' = YNull"
      "meta_get (read_meta w p) ''origin_handoff_id'' = YNull" by (auto simp: clean_record_def)
    have "handoff_edges True [kind] (read_meta w p) = handoff_edges False [kind] (read_meta w p)" for kind
      using edge_kind_cases [of kind] null by (auto simp: handoff_edges_def split: option.split)
    moreover have "resolve_edge w opts ref \<noteq> None" if "ref \<in> set (node_edges opts (read_meta w p))" for ref
      using clean_edges [OF clean assms(1)] that opts unfolding node_edges_def resolve_edge_def
      by (simp add: resolve_with_index ref_found_def del: not_None_eq)
    ultimately show ?thesis by (auto simp: misses_link_def list_ex_iff)
  qed
  then have "{p. walk_reach w opts (abs_of w start) p \<and> misses_link w opts (read_meta w p)} = {}" by blast
  then show ?thesis
    using walk_from_early [of w opts "abs_of w start"]
    unfolding walk_forward_def Let_def prod.sel opts_def [symmetric] abs_of_def [symmetric]
    by (auto simp: walk_from_paths split: if_splits)
qed

section \<open>Examples\<close>

definition ex_dir :: string where
  "ex_dir = ''/r/state/handoffs''"

definition ex_node :: "string \<Rightarrow> string" where
  "ex_node n = ex_dir @ ''/'' @ n"

text \<open>A diamond is no cycle.\<close>

lemma diamond_is_no_cycle:
  "snd (walk_forward (ex_world
      [(in_handoffs ''a.md'', ex_md ''additional_predecessors: [b.md, c.md]''),
       (in_handoffs ''b.md'', ex_md ''predecessor: d.md''), (in_handoffs ''c.md'', ex_md ''predecessor: d.md''),
       (in_handoffs ''d.md'', ex_md ''kind: spine'')])
     (ex_node ''a.md'') (Some CONTINUATION_EDGE_KINDS) None None None True False) =
   (map ex_node [''a.md'', ''b.md'', ''d.md'', ''c.md''], [])"
  by code_simp

text \<open>An absolute reference is not normalised, so that one file is visited under two names; here the cycle is
  reported one visit late.\<close>

lemma one_file_two_names:
  "snd (walk_forward (ex_world [(in_handoffs ''a.md'', ex_md ''predecessor: /r/./state/handoffs/a.md'')])
     (ex_node ''a.md'') None None None None True False) =
   ([''/r/state/handoffs/a.md'', ''/r/./state/handoffs/a.md''], ''lineage-cycle'')"
  by code_simp

text \<open>The flag holds the last finding: a missing link found later hides a cycle found earlier.\<close>

lemma later_missing_link_hides_cycle:
  "snd (walk_forward (ex_world
      [(in_handoffs ''a.md'', ex_md ''additional_predecessors: [a.md, b.md]''),
       (in_handoffs ''b.md'', ex_md ''predecessor: c.md'')])
     (ex_node ''a.md'') (Some CONTINUATION_EDGE_KINDS) None None None True False) =
   (map ex_node [''a.md'', ''b.md''], ''missing-link'')"
  by code_simp

text \<open>The crash commit that a recovery handoff carries as its predecessor passes the reachability check but is a
  missing link for the walk.\<close>

definition ex_recovery :: world where
  "ex_recovery = ex_world [(in_handoffs ''a.md'', ex_md (''kind: recovery'' @ [NL] @ ''predecessor: 1f3a9bc''))]"

lemma recovery_is_missing_link:
  "check_lineage_reachability ex_recovery (read_meta ex_recovery (ex_node ''a.md'')) ''/r'' (Some ex_dir) None None = []"
  "snd (walk_forward ex_recovery (ex_node ''a.md'') None None None None True False) = ([ex_node ''a.md''], ''missing-link'')"
  by code_simp+

text \<open>Excluding the target itself from the scan, as two callers do, drops its id from the index of ids: a successor
  that names it by id only is not found. The reverse index finds it.\<close>

definition ex_succ :: world where
  "ex_succ = ex_world [(in_handoffs ''a.md'', ex_md ''handoff_id: hnd-1''),
     (in_handoffs ''b.md'', ex_md ''predecessor_id: hnd-1'')]"

definition ex_succ_nodes :: "string list" where
  "ex_succ_nodes = [ex_node ''a.md'', ex_node ''b.md'']"

lemma ex_succ_ids:
  "ids_for ex_succ None CONTINUATION_EDGE_KINDS ex_succ_nodes = [(''hnd-1'', ex_node ''a.md'')]"
  "ids_for ex_succ None CONTINUATION_EDGE_KINDS [ex_node ''b.md''] = []"
  by code_simp+

lemma ex_succ_edges:
  "handoff_edges True CONTINUATION_EDGE_KINDS (read_meta ex_succ (ex_node ''a.md'')) = []"
  "handoff_edges True CONTINUATION_EDGE_KINDS (read_meta ex_succ (ex_node ''b.md'')) = [''hnd-1'']"
  by code_simp+

lemma ex_succ_refs:
  "ref_names_target ex_succ [(''hnd-1'', ex_node ''a.md'')] ''/r'' (ex_node ''a.md'') (ex_node ''b.md'') ''hnd-1''"
  "\<not> ref_names_target ex_succ [] ''/r'' (ex_node ''a.md'') (ex_node ''b.md'') ''hnd-1''"
  by code_simp+

lemma ex_succ_paths:
  "abs_of ex_succ (ex_node ''a.md'') = ex_node ''a.md''" "abs_of ex_succ (ex_node ''b.md'') = ex_node ''b.md''"
  "repo_root_from_handoff_dir ex_dir = ''/r''" "ex_node ''a.md'' \<noteq> ex_node ''b.md''" "ex_node ''a.md'' \<noteq> []"
  by code_simp+

lemma excluded_target_loses_id_references:
  "referenced_by ex_succ (ex_node ''a.md'') ex_succ_nodes (Some CONTINUATION_EDGE_KINDS)
     (Some ex_dir) (Some [ex_node ''a.md'']) = Inr (False, [])"
  "referenced_by ex_succ (ex_node ''a.md'') ex_succ_nodes (Some CONTINUATION_EDGE_KINDS)
     (Some ex_dir) None = Inr (True, [ex_node ''b.md''])"
  using ex_succ_ids ex_succ_paths
  by (auto simp: referenced_by_def scan_dir_def exclude_set_def Let_def ex_succ_nodes_def ex_succ_edges ex_succ_refs)

section \<open>Witnesses\<close>

theorem cache_transparent_witness:
  "fst (read_metas (\<lambda>_. None) id []
     [(''p'', Some (ex_md ''kind: spine'')), (''p'', Some (ex_md ''kind: fork'')), (''q'', None),
      (''p'', Some (ex_md ''kind: spine''))]) =
   [[(''kind'', YStr ''spine'')], [(''kind'', YStr ''fork'')], [], [(''kind'', YStr ''spine'')]]"
proof -
  have "parse_frontmatter (\<lambda>_. None) (ex_md ''kind: spine'') = [(''kind'', YStr ''spine'')]"
    "parse_frontmatter (\<lambda>_. None) (ex_md ''kind: fork'') = [(''kind'', YStr ''fork'')]" by code_simp+
  then show ?thesis
    using cache_transparent [of id "[(''p'', Some (ex_md ''kind: spine'')), (''p'', Some (ex_md ''kind: fork'')),
      (''q'', None), (''p'', Some (ex_md ''kind: spine''))]" "\<lambda>_. None"]
    by (simp add: content_meta_def)
qed

lemma ex_succ_scan:
  "scan_dir (Some ex_dir) ex_succ_nodes = Inr ex_dir" "scan_dir None ex_succ_nodes = Inr (dirname (ex_node ''a.md''))"
  by (simp_all add: scan_dir_def ex_succ_nodes_def)

lemma ex_succ_kinds:
  "set CONTINUATION_EDGE_KINDS \<subseteq> set ARCHIVAL_EDGE_KINDS" "has_aliases CONTINUATION_EDGE_KINDS = has_aliases ARCHIVAL_EDGE_KINDS"
  by code_simp+

lemma ex_succ_excluded:
  "\<forall>p \<in> set ex_succ_nodes \<inter> set (exclude_set ex_succ (Some [ex_node ''b.md''])). handoff_id_of ex_succ None p = YNull"
  "\<forall>p \<in> set ex_succ_nodes. abs_of ex_succ p = p"
proof -
  have "handoff_id_of ex_succ None (ex_node ''b.md'') = YNull" by code_simp
  moreover have "ex_node ''b.md'' \<noteq> []" by code_simp
  ultimately show "\<forall>p \<in> set ex_succ_nodes \<inter> set (exclude_set ex_succ (Some [ex_node ''b.md''])).
      handoff_id_of ex_succ None p = YNull"
    by (auto simp: exclude_set_def ex_succ_paths)
  show "\<forall>p \<in> set ex_succ_nodes. abs_of ex_succ p = p" by (simp add: ex_succ_nodes_def ex_succ_paths)
qed

theorem reverse_index_equivalent_witness:
  "\<exists>ix b ps ps'. build_reverse_edge_index ex_succ ex_succ_nodes (Some ex_dir) None None (Some ARCHIVAL_EDGE_KINDS) = Inr ix \<and>
    referenced_by_indexed ex_succ (ex_node ''a.md'') ix (Some CONTINUATION_EDGE_KINDS) (Some [ex_node ''b.md'']) = Inr (b, ps) \<and>
    referenced_by ex_succ (ex_node ''a.md'') ex_succ_nodes (Some CONTINUATION_EDGE_KINDS) (Some ex_dir)
      (Some [ex_node ''b.md'']) = Inr (b, ps') \<and> set ps = set ps' \<and> distinct ps"
  by (rule reverse_index_equivalent [OF ex_succ_scan(1) ex_succ_kinds ex_succ_excluded(2,1)])

theorem live_children_from_index_witness:
  "\<exists>ix. build_reverse_edge_index ex_succ ex_succ_nodes None None None (Some ARCHIVAL_EDGE_KINDS) = Inr ix \<and>
    reverse_membership ex_succ (ex_node ''a.md'') (Some ex_succ_nodes) (Some [ex_node ''b.md'']) (Some CONTINUATION_EDGE_KINDS) (Some ix) =
    reverse_membership ex_succ (ex_node ''a.md'') (Some ex_succ_nodes) (Some [ex_node ''b.md'']) (Some CONTINUATION_EDGE_KINDS) None"
proof -
  obtain ix where ix: "build_reverse_edge_index ex_succ ex_succ_nodes None None None (Some ARCHIVAL_EDGE_KINDS) = Inr ix"
    using build_index_Inr [OF ex_succ_scan(2)] by blast
  from live_children_from_index [OF ix ex_succ_kinds ex_succ_excluded(2,1)] show ?thesis using ix by blast
qed

definition ex_chain :: world where
  "ex_chain = ex_world [(in_handoffs ''a.md'', ex_md ''predecessor: b.md''), (in_handoffs ''b.md'', ex_md ''kind: spine'')]"

lemma ex_chain_paths:
  "fst (snd (walk_forward ex_chain (ex_node ''a.md'') None None (Some ex_dir) (Some ''/r'') True False)) =
     [ex_node ''a.md'', ex_node ''b.md'']"
  by code_simp

lemma ex_chain_meta:
  "read_meta ex_chain (ex_node ''a.md'') = [(''predecessor'', YStr ''b.md'')]"
  "read_meta ex_chain (ex_node ''b.md'') = [(''kind'', YStr ''spine'')]"
  by code_simp+

lemma ex_chain_resolves: "resolve_target ex_chain [] None True ''b.md'' ex_dir ''/r'' \<noteq> None"
  by code_simp

lemma ex_chain_strip: "py_strip ''b.md'' = ''b.md''"
  by code_simp

lemma ex_chain_dir: "ex_dir \<noteq> []"
  by (simp add: ex_dir_def)

lemma ex_chain_clean:
  "clean_record ex_chain ex_dir ''/r'' (read_meta ex_chain (ex_node ''a.md''))"
  "clean_record ex_chain ex_dir ''/r'' (read_meta ex_chain (ex_node ''b.md''))"
  using ex_chain_resolves
  by (simp_all add: clean_record_def ex_chain_meta ex_chain_dir Let_def check_lineage_reachability_def check_field_def meta_get_def
      py_str_def ex_chain_strip)

theorem clean_lineage_no_missing_link_witness:
  "snd (snd (walk_forward ex_chain (ex_node ''a.md'') None None (Some ex_dir) (Some ''/r'') True False))
     \<in> {[], ''lineage-cycle''}"
proof (rule clean_lineage_no_missing_link [OF ex_chain_dir], intro allI impI)
  let ?s = "abs_of ex_chain (ex_node ''a.md'')"
  let ?opts = "fill_opts ex_chain ?s None None (Some ex_dir) (Some ''/r'') True False"
  fix p assume reach: "walk_reach ex_chain ?opts ?s p"
  have "wk_paths (walk_from ex_chain ?opts ?s) = [ex_node ''a.md'', ex_node ''b.md'']"
    using ex_chain_paths unfolding walk_forward_def Let_def prod.sel abs_of_def .
  then have "p \<in> {ex_node ''a.md'', ex_node ''b.md''}" using reach walk_from_paths [of ex_chain ?opts ?s] by simp
  then show "clean_record ex_chain ex_dir ''/r'' (read_meta ex_chain p)" using ex_chain_clean by auto
qed

end
