(* ===== verification/Dag_Render.thy ===== *)
theory Dag_Render
  imports Dag_Lineage
begin

text \<open>
  Front matter written plainly is read back: a handoff whose header has one \<open>key: value\<close> line per field,
  with values that need no quoting, parses to exactly these fields whatever follows the header, and the scan
  for the id (\<open>_raw_scan_handoff_id\<close>), which reads at most 4096 bytes with regular expressions, finds the id
  that the parser finds.
\<close>

section \<open>Plain headers\<close>

definition trimmed :: "string \<Rightarrow> bool" where
  "trimmed s = (s \<noteq> [] \<and> \<not> is_space (hd s) \<and> \<not> is_space (last s) \<and> NL \<notin> set s \<and> CHR 0x0D \<notin> set s)"

definition plain_key :: "string \<Rightarrow> bool" where
  "plain_key k = (trimmed k \<and> CHR '':'' \<notin> set k \<and> hd k \<noteq> CHR ''#'')"

text \<open>A value that is read as itself: no comment, quote, list or block marker, and no word of YAML.\<close>

definition plain_value :: "(string \<Rightarrow> string option) \<Rightarrow> string \<Rightarrow> bool" where
  "plain_value flt v =
     (trimmed v \<and> CHR ''#'' \<notin> set v \<and> hd v \<notin> {DQ, SQ, CHR ''|'', CHR ''>'', CHR ''[''} \<and>
      v \<notin> {''null'', ''~'', ''true'', ''false''} \<and> py_int v = None \<and> flt v = None)"

definition field_line :: "string \<times> string \<Rightarrow> string" where
  "field_line kv = fst kv @ '': '' @ snd kv"

definition render_header :: "(string \<times> string) list \<Rightarrow> string" where
  "render_header kvs = ''---'' @ [NL] @ concat (map (\<lambda>kv. field_line kv @ [NL]) kvs) @ ''---'' @ [NL]"

definition plain_fields :: "(string \<Rightarrow> string option) \<Rightarrow> (string \<times> string) list \<Rightarrow> bool" where
  "plain_fields flt kvs = (distinct (map fst kvs) \<and> (\<forall>(k, v) \<in> set kvs. plain_key k \<and> plain_value flt v))"

section \<open>Lines\<close>

lemma colon_blank [simp]: "\<not> is_space CHR '':''" "is_space BLANK" "\<not> is_space CHR ''-''" "\<not> is_space CHR ''#''"
  by code_simp+

lemma py_strip_trimmed: "trimmed s \<Longrightarrow> py_strip s = s"
  by (simp add: trimmed_def py_strip_def strip_by_idle)

lemma py_strip_blank: "trimmed s \<Longrightarrow> py_strip (BLANK # s) = s"
  using py_strip_trimmed [of s] by (simp add: py_strip_def strip_by_def)

lemma trimmed_field_line: "plain_key k \<Longrightarrow> plain_value flt v \<Longrightarrow> trimmed (field_line (k, v))"
  by (auto simp: trimmed_def plain_key_def plain_value_def field_line_def)

lemma split_on_line: "sep \<notin> set l \<Longrightarrow> split_on sep (l @ sep # rest) = l # split_on sep rest"
  by (induction l) auto

lemma split_on_lines:
  "(\<And>l. l \<in> set ls \<Longrightarrow> sep \<notin> set l) \<Longrightarrow>
   split_on sep (concat (map (\<lambda>l. l @ [sep]) ls) @ rest) = ls @ split_on sep rest"
  by (induction ls) (auto simp: split_on_line)

lemma split_colon_field: "CHR '':'' \<notin> set k \<Longrightarrow> split_colon (k @ '': '' @ v) = Some (k, BLANK # v)"
proof -
  assume "CHR '':'' \<notin> set k"
  then have "takeWhile (\<lambda>c. c \<noteq> CHR '':'') (k @ '': '' @ v) = k"
    "dropWhile (\<lambda>c. c \<noteq> CHR '':'') (k @ '': '' @ v) = '': '' @ v"
    by (induction k) auto
  then show ?thesis by (simp add: split_colon_def)
qed

lemma fence_chars:
  assumes "is_fence l" and "c \<in> set l"
  shows "c = CHR ''-'' \<or> is_space c"
proof -
  have "take 3 l = ''---''" using assms(1) by (simp add: is_fence_def starts_with_def numeral_3_eq_3)
  then have "l = ''---'' @ drop 3 l" by (metis append_take_drop_id)
  then have "c \<in> set ''---'' \<or> c \<in> set (drop 3 l)" using assms(2) by (metis Un_iff set_append)
  then show ?thesis using assms(1) by (auto simp: is_fence_def list_all_iff)
qed

lemma field_not_fence: "\<not> is_fence (field_line kv)"
  using fence_chars [of "field_line kv" "CHR '':''"] by (auto simp: field_line_def)

lemma line_no_NL: "plain_key k \<Longrightarrow> plain_value flt v \<Longrightarrow> NL \<notin> set (field_line (k, v))"
  by (auto simp: plain_key_def plain_value_def trimmed_def field_line_def)

section \<open>The parser\<close>

lemma cut_comment_idle: "CHR ''#'' \<notin> set s \<Longrightarrow> cut_comment sq dq pre s = None"
  by (induction s arbitrary: sq dq pre) auto

lemma parse_plain_value: "plain_value flt v \<Longrightarrow> parse_scalar flt v = YStr v"
  by (auto simp: plain_value_def parse_scalar_def strip_inline_comment_def cut_comment_idle py_strip_trimmed
      quoted_by_def trimmed_def Let_def)

lemma parse_field:
  assumes "plain_key k" and "plain_value flt v"
  shows "parse_mapping flt 0 (field_line (k, v) # rest) acc = parse_mapping flt 0 rest (AList.update k (YStr v) acc)"
proof -
  have line: "py_strip (field_line (k, v)) = field_line (k, v)"
    by (rule py_strip_trimmed [OF trimmed_field_line [OF assms]])
  have sig: "significant (field_line (k, v))"
    using assms(1) unfolding significant_def Let_def line by (auto simp: field_line_def plain_key_def trimmed_def)
  have colon: "split_colon (py_strip (field_line (k, v))) = Some (k, BLANK # v)"
    using assms(1) unfolding line by (auto simp: field_line_def split_colon_field [simplified] plain_key_def)
  have key: "py_strip k = k" and val: "py_strip (BLANK # v) = v"
    using assms by (auto simp: plain_key_def plain_value_def py_strip_trimmed py_strip_blank)
  have comment: "strip_inline_comment v = v" using assms(2)
    by (simp add: strip_inline_comment_def cut_comment_idle plain_value_def)
  have v: "v \<noteq> []" "hd v \<noteq> CHR ''#''" "hd v \<notin> {DQ, SQ}" "\<not> is_block_scalar v" "\<not> starts_with ''['' v"
    using assms(2) by (cases v; auto simp: plain_value_def trimmed_def is_block_scalar_def starts_with_def)+
  show ?thesis
    using sig v parse_plain_value [OF assms(2)] by (simp add: colon key val comment Let_def)
qed

lemma parse_fields:
  "\<forall>(k, v) \<in> set kvs. plain_key k \<and> plain_value flt v \<Longrightarrow>
   parse_mapping flt 0 (map field_line kvs @ [[]]) acc = fold (\<lambda>(k, v). AList.update k (YStr v)) kvs acc"
proof (induction kvs arbitrary: acc)
  case Nil
  show ?case by (simp add: significant_def py_strip_def strip_by_def)
next
  case (Cons kv kvs)
  then show ?case using parse_field by (cases kv) auto
qed

lemma update_absent: "k \<notin> fst ` set al \<Longrightarrow> AList.update k v al = al @ [(k, v)]"
  by (induction al) auto

lemma fold_update_distinct:
  "distinct (map fst acc @ map fst kvs) \<Longrightarrow>
   fold (\<lambda>(k, v). AList.update k (YStr v)) kvs acc = acc @ map (\<lambda>(k, v). (k, YStr v)) kvs"
  by (induction kvs arbitrary: acc) (auto simp: update_absent)

lemma render_lines:
  "plain_fields flt kvs \<Longrightarrow> split_on NL (concat (map (\<lambda>kv. field_line kv @ [NL]) kvs) @ ''---'' @ NL # body) =
     map field_line kvs @ ''---'' # split_on NL body"
proof -
  assume "plain_fields flt kvs"
  then have "NL \<notin> set l" if "l \<in> set (map field_line kvs)" for l
    using that line_no_NL by (fastforce simp: plain_fields_def)
  from split_on_lines [of "map field_line kvs" NL, OF this] show ?thesis
    by (simp add: comp_def split_on_line [of NL "''---''", simplified])
qed

lemma fence_line: "is_fence ''---''" by code_simp

lemma lines_before_fence:
  "takeWhile (\<lambda>l. \<not> is_fence l) (map field_line kvs @ ''---'' # ls) = map field_line kvs"
  by (induction kvs) (auto simp: field_not_fence fence_line)

lemma skip_render: "skip_comments (''---'' @ s) = Some (''---'' @ s)"
  by (subst skip_comments.simps) (simp add: py_lstrip_def starts_with_def)

lemma frontmatter_roundtrip_eq:
  assumes "plain_fields flt kvs"
  shows "parse_frontmatter flt (render_header kvs @ body) = map (\<lambda>(k, v). (k, YStr v)) kvs"
proof -
  have "skip_comments (render_header kvs @ body) = Some (render_header kvs @ body)"
    using skip_render by (simp add: render_header_def)
  moreover have "list_ex is_fence (map field_line kvs @ ''---'' # split_on NL body)" by (simp add: fence_line)
  moreover have "parse_mapping flt 0 (map field_line kvs @ [[]]) [] = map (\<lambda>(k, v). (k, YStr v)) kvs"
    using assms parse_fields [of kvs flt "[]"] fold_update_distinct [of "[]" kvs] by (simp add: plain_fields_def)
  ultimately show ?thesis
    by (simp add: parse_frontmatter_def render_header_def starts_with_def render_lines [OF assms, simplified]
        lines_before_fence [simplified] py_strip_def strip_by_def Let_def)
qed

text \<open>C40. A header written with one plain line per field is read back as exactly these fields in their order,
  whatever text follows it.\<close>

theorem frontmatter_roundtrip:
  assumes "plain_fields flt kvs"
  shows "parse_frontmatter flt (render_header kvs @ body) = map (\<lambda>(k, v). (k, YStr v)) kvs"
  by (rule frontmatter_roundtrip_eq [OF assms])

section \<open>The scan\<close>

definition byte_length :: "string \<Rightarrow> int" where
  "byte_length s = sum_list (map (\<lambda>c. if (of_char c :: nat) < 128 then 1 else 2) s)"

lemma byte_length_Cons: "byte_length (c # s) = (if (of_char c :: nat) < 128 then 1 else 2) + byte_length s"
  by (simp add: byte_length_def)

lemma byte_length_nonneg: "0 \<le> byte_length s"
  by (induction s) (auto simp: byte_length_def)

lemma window_prefix: "byte_length h \<le> n \<Longrightarrow> window n (h @ b) = h @ window (n - byte_length h) b"
proof (induction h arbitrary: n)
  case (Cons c h)
  then show ?case
    using byte_length_nonneg [of h] Cons.IH [of "n - 1"] Cons.IH [of "n - 2"]
    by (auto simp: byte_length_Cons algebra_simps)
qed (simp add: byte_length_def)

lemma replace_prefix: "CHR 0x0D \<notin> set h \<Longrightarrow> replace_all [CHR 0x0D, NL] [NL] (h @ r) = h @ replace_all [CHR 0x0D, NL] [NL] r"
proof (induction h)
  case (Cons c h)
  then show ?case by (subst replace_all.simps) (auto simp: starts_with_def)
qed simp

lemma header_no_CR:
  assumes "plain_fields flt kvs" shows "CHR 0x0D \<notin> set (render_header kvs)"
proof -
  have "CHR 0x0D \<notin> set (field_line (k, v))" if "(k, v) \<in> set kvs" for k v
    using that assms by (auto simp: plain_fields_def plain_key_def plain_value_def trimmed_def field_line_def)
  then show ?thesis by (auto simp: render_header_def)
qed

lemma trimmed_not_blank: "trimmed v \<Longrightarrow> dropWhile is_blank v = v \<and> dropWhile is_blank (rev v) = rev v"
proof -
  assume t: "trimmed v"
  have "\<not> is_blank c" if "\<not> is_space c" for c
    using that by (auto simp: is_blank_def is_space_def)
  then show ?thesis using t by (simp add: trimmed_def dropWhile_eq_self_iff hd_rev)
qed

lemma starts_with_append: "starts_with pre s \<Longrightarrow> s = pre @ drop (length pre) s"
  unfolding starts_with_def by (metis append_take_drop_id)

lemma key_of_field: "CHR '':'' \<notin> set k \<Longrightarrow> takeWhile (\<lambda>c. c \<noteq> CHR '':'') (k @ CHR '':'' # v) = k"
  by (induction k) auto

lemma starts_with_key:
  assumes "CHR '':'' \<notin> set k"
  shows "starts_with ''handoff_id:'' (k @ '': '' @ v) \<longleftrightarrow> k = ''handoff_id''"
proof
  assume "starts_with ''handoff_id:'' (k @ '': '' @ v)"
  from starts_with_append [OF this] obtain r where "k @ CHR '':'' # BLANK # v = ''handoff_id'' @ CHR '':'' # r"
    by simp
  then have "takeWhile (\<lambda>c. c \<noteq> CHR '':'') (k @ CHR '':'' # BLANK # v) =
      takeWhile (\<lambda>c. c \<noteq> CHR '':'') (''handoff_id'' @ CHR '':'' # r)"
    by (simp only:)
  then show "k = ''handoff_id''"
    unfolding key_of_field [OF assms] by simp
qed (simp add: starts_with_def)

lemma id_line_field:
  assumes "plain_key k" and "plain_value flt v"
  shows "id_line (field_line (k, v)) = (if k = ''handoff_id'' then Some v else None)"
proof -
  have "CHR '':'' \<notin> set k" using assms(1) by (simp add: plain_key_def)
  moreover have "trimmed v" using assms(2) by (simp add: plain_value_def)
  moreover have "is_blank BLANK" by (simp add: is_blank_def)
  ultimately show ?thesis
    using starts_with_key [of k v] trimmed_not_blank [of v]
    by (auto simp: id_line_def field_line_def Let_def trimmed_def)
qed

lemma first_id_fields:
  "plain_fields flt kvs \<Longrightarrow> first_id (map field_line kvs) = map_of kvs ''handoff_id''"
proof (induction kvs)
  case (Cons kv kvs)
  obtain k v where kv: "kv = (k, v)" by (cases kv)
  with Cons.prems have kv': "plain_key k" "plain_value flt v" and "plain_fields flt kvs"
    by (auto simp: plain_fields_def)
  then show ?case using Cons.IH id_line_field [OF kv'] by (auto simp: kv)
qed simp

text \<open>Over plain headers that fit into the window of 4096 bytes, the scan for the handoff id gives what the
  full parser gives: the id where there is one, and its absence where there is none; it never falls back.\<close>

theorem raw_scan_agrees:
  assumes "plain_fields flt kvs" and "byte_length (render_header kvs) \<le> RAW_SCAN_WINDOW_BYTES"
  shows "raw_scan_handoff_id (Some (render_header kvs @ body)) =
    (case meta_get (parse_frontmatter flt (render_header kvs @ body)) ''handoff_id'' of
       YStr hid \<Rightarrow> Found hid | _ \<Rightarrow> Absent)"
proof -
  obtain b where b: "replace_all [CHR 0x0D, NL] [NL] (window RAW_SCAN_WINDOW_BYTES (render_header kvs @ body)) =
      render_header kvs @ b"
    using window_prefix [OF assms(2)] replace_prefix [OF header_no_CR [OF assms(1)]] by simp
  have skip: "skip_comments (render_header kvs @ b) = Some (render_header kvs @ b)"
    using skip_render by (simp add: render_header_def)
  have "id_line ''---'' = None" by code_simp
  then have "raw_scan_handoff_id (Some (render_header kvs @ body)) =
    (case map_of kvs ''handoff_id'' of None \<Rightarrow> Absent
     | Some v \<Rightarrow> if hd v \<in> {DQ, SQ, CHR ''|'', CHR ''>''} \<or> CHR ''#'' \<in> set v then Fallback else Found v)"
    using first_id_fields [OF assms(1)]
    by (simp add: raw_scan_handoff_id_def b skip)
      (simp add: render_header_def starts_with_def render_lines [OF assms(1), simplified]
        lines_before_fence [simplified] fence_line Let_def)
  moreover have "meta_get (map (\<lambda>(k, v). (k, YStr v)) kvs) ''handoff_id'' =
    (case map_of kvs ''handoff_id'' of None \<Rightarrow> YNull | Some v \<Rightarrow> YStr v)"
    by (simp add: meta_get_def map_of_map split: option.split)
  moreover have "hd v \<notin> {DQ, SQ, CHR ''|'', CHR ''>''} \<and> CHR ''#'' \<notin> set v" if "map_of kvs ''handoff_id'' = Some v" for v
    using map_of_SomeD [OF that] assms(1) by (auto simp: plain_fields_def plain_value_def)
  ultimately show ?thesis
    unfolding frontmatter_roundtrip_eq [OF assms(1)] by (auto split: option.split)
qed

section \<open>Examples\<close>

definition ex_fields :: "(string \<times> string) list" where
  "ex_fields = [(''title'', ''The first''), (''handoff_id'', ''hnd-7f''), (''predecessor'', ''state/handoffs/a.md'')]"

lemma ex_fields_plain: "plain_fields (\<lambda>_. None) ex_fields"
  by code_simp

theorem frontmatter_roundtrip_witness:
  "parse_frontmatter (\<lambda>_. None) (render_header ex_fields @ ''handoff_id: other'') =
     [(''title'', YStr ''The first''), (''handoff_id'', YStr ''hnd-7f''), (''predecessor'', YStr ''state/handoffs/a.md'')]"
  using frontmatter_roundtrip [OF ex_fields_plain, of "''handoff_id: other''"] by (simp add: ex_fields_def)

theorem raw_scan_agrees_witness:
  "raw_scan_handoff_id (Some (render_header ex_fields @ ''handoff_id: other'')) = Found ''hnd-7f''"
proof -
  have "byte_length (render_header ex_fields) \<le> RAW_SCAN_WINDOW_BYTES"
    unfolding RAW_SCAN_WINDOW_BYTES_def by code_simp
  from raw_scan_agrees [OF ex_fields_plain this, of "''handoff_id: other''"] show ?thesis
    unfolding frontmatter_roundtrip_eq [OF ex_fields_plain] by (simp add: ex_fields_def meta_get_def)
qed

text \<open>Where the value is a word of YAML the scan and the parser differ: the scan reports the text \<open>null\<close> as an
  id, which the parser reads as no value.\<close>

lemma raw_scan_reads_null:
  "raw_scan_handoff_id (Some (render_header [(''handoff_id'', ''null'')])) = Found ''null''"
  "meta_get (parse_frontmatter (\<lambda>_. None) (render_header [(''handoff_id'', ''null'')])) ''handoff_id'' = YNull"
proof -
  have "window 4096 (render_header [(''handoff_id'', ''null'')]) = render_header [(''handoff_id'', ''null'')]"
    using window_prefix [of "render_header [(''handoff_id'', ''null'')]" 4096 "[]"] by code_simp
  then show "raw_scan_handoff_id (Some (render_header [(''handoff_id'', ''null'')])) = Found ''null''"
    by (simp add: raw_scan_handoff_id_def RAW_SCAN_WINDOW_BYTES_def) code_simp
qed code_simp

text \<open>An apostrophe doubled inside single quotes ends the quotation for the comment remover, so that the rest
  of the value is cut at the next number sign.\<close>

lemma doubled_quote_loses_text:
  "parse_scalar (\<lambda>_. None) [SQ, CHR ''i'', CHR ''t'', SQ, SQ, CHR ''s'', BLANK, CHR ''#'', BLANK, CHR ''1'', SQ] =
     YStr [SQ, CHR ''i'', CHR ''t'', SQ, SQ, CHR ''s'']"
  by code_simp

end
