(* ===== verification/Claim_Host.thy ===== *)
theory Claim_Host
  imports Complex_Main Dag_Meta Tracker_Status_Table
begin

text \<open>
  Who a process is and which sessions are live, as the claim layer asks it
  (\<open>coordinator_core/session/core.py\<close>, \<open>harness_registry.py\<close> and \<open>liveness.py\<close>).

  A \<open>caller\<close> is what one process sees while an operation runs: its process id and environment, the
  identity its request carried, the clock, the records the harness keeps of its sessions, the
  \<open>meta.json\<close> of the sessions of this repository and the processes of the machine. The conversions of
  the Python library (\<open>datetime.fromisoformat\<close>, \<open>strptime\<close>, \<open>float\<close>, \<open>str\<close> of a container) and the probes of
  the operating system and of \<open>psutil\<close> are functions of the caller. \<open>h_lease\<close> is the lease in minutes as the
  module reads it when it is imported. The platform is POSIX.
\<close>

section \<open>Numbers and text\<close>

text \<open>\<open>int(x)\<close> of a number.\<close>

definition truncated :: "rat \<Rightarrow> int" where
  "truncated q = (if 0 \<le> q then \<lfloor>q\<rfloor> else \<lceil>q\<rceil>)"

text \<open>Every run of white space as one blank, as \<open>re.sub(r"\s+", " ", s)\<close> leaves it.\<close>

fun squeeze :: "bool \<Rightarrow> string \<Rightarrow> string" where
  "squeeze in_run [] = []"
| "squeeze in_run (c # cs) =
     (if is_space c then (if in_run then squeeze True cs else BLANK # squeeze True cs)
      else c # squeeze False cs)"

section \<open>The caller\<close>

text \<open>What \<open>psutil\<close> knows of a process id: its birth instant, that it is gone, or nothing certain.\<close>

datatype birth = Born int | Gone | Ambiguous | No_psutil

text \<open>A directory: its own time and the size and time of each regular file in it.\<close>

type_synonym dir_stat = "int \<times> (int \<times> int) list"

text \<open>A handoff of the repository: its path, its text (\<open>None\<close> when unreadable) and whether \<open>HEAD\<close> has it.\<close>

record handoff_file =
  hf_path :: string
  hf_text :: "string option"
  hf_landed :: bool

text \<open>
  A claim directory is named by the session hub it lies in, its class, and the components of its name.
  The last fields of a caller are the answers of the file system: which creations, writes, removals and
  renames it refuses, and the handoffs of the worktree of a hub (\<open>None\<close> when they cannot be listed).
\<close>

type_synonym claim_key = "string \<times> string \<times> string list"

text \<open>A record of the registry. A warm process keeps its last snapshot of the registry for two seconds: \<open>h_cached\<close> is the
  one it holds, if that is young enough.\<close>

record registry_record =
  rr_pid :: int
  rr_start_epoch :: rat
  rr_cwd :: "string option"
  rr_name :: "string option"
  rr_messaging_socket_path :: "string option"
  rr_status :: "string option"
  rr_waiting_for :: "string option"

record caller =
  h_pid :: int
  h_env :: "string \<Rightarrow> string"
  h_override :: string
  h_warm :: bool
  h_now :: int
  h_now_iso :: string
  h_sessions_dir :: string
  h_git_root :: "string \<Rightarrow> bool"
  h_registry :: "(string \<times> json option) list option"
  h_cached :: "(string \<times> registry_record) list option"
  h_proc_start :: "json \<Rightarrow> rat option"
  h_birth :: "int \<Rightarrow> birth"
  h_running :: "int \<Rightarrow> bool"
  h_strptime :: "string \<Rightarrow> int option"
  h_fromiso :: "string \<Rightarrow> int option"
  h_float :: "string \<Rightarrow> rat option"
  h_str :: "json \<Rightarrow> string"
  h_meta :: "string \<Rightarrow> json option"
  h_sdir :: "string \<Rightarrow> dir_stat option"
  h_lease :: int
  h_handoffs :: "string \<Rightarrow> handoff_file list option"
  h_mkdir_denied :: "claim_key \<Rightarrow> bool"
  h_write_denied :: "claim_key \<Rightarrow> string \<Rightarrow> bool"
  h_rm_denied :: "claim_key \<Rightarrow> bool"
  h_rename_denied :: "claim_key \<Rightarrow> bool"

definition STABLE_PID_EPOCH_TOLERANCE_SECS :: int where
  "STABLE_PID_EPOCH_TOLERANCE_SECS = 2"

definition THIRTY_MIN :: int where
  "THIRTY_MIN = 30 * 60"

section \<open>Identity\<close>

definition SESSION_ENV_PRECEDENCE :: "string list" where
  "SESSION_ENV_PRECEDENCE = [''COORDINATOR_SESSION_ID'', ''CLAUDE_SESSION_ID'', ''CLAUDE_CODE_SESSION_ID'']"

definition session_env_candidates :: "caller \<Rightarrow> string list" where
  "session_env_candidates h = filter (\<lambda>v. v \<noteq> []) (map (h_env h) SESSION_ENV_PRECEDENCE)"

definition carried_session_id :: "caller \<Rightarrow> string" where
  "carried_session_id h = h_override h"

definition resolve_session_id :: "caller \<Rightarrow> string" where
  "resolve_session_id h =
     (if h_override h \<noteq> [] then h_override h
      else (case session_env_candidates h of [] \<Rightarrow> [] | sid # rest \<Rightarrow> sid))"

definition attributable_session_id :: "caller \<Rightarrow> string" where
  "attributable_session_id h = (if h_warm h then carried_session_id h else resolve_session_id h)"

section \<open>Times\<close>

definition iso_to_epoch :: "caller \<Rightarrow> string \<Rightarrow> int" where
  "iso_to_epoch h stamp =
     (if stamp = [] then 0
      else (case h_fromiso h (if ends_in ''Z'' stamp then butlast stamp else stamp) of None \<Rightarrow> 0 | Some e \<Rightarrow> e))"

definition lstart_to_epoch :: "caller \<Rightarrow> string \<Rightarrow> int" where
  "lstart_to_epoch h lstart =
     (if lstart = [] then 0
      else (case h_strptime h (py_strip (squeeze False lstart)) of None \<Rightarrow> 0 | Some e \<Rightarrow> e))"

section \<open>Processes\<close>

definition pid_alive :: "caller \<Rightarrow> string \<Rightarrow> bool" where
  "pid_alive h pid = (case py_int pid of None \<Rightarrow> False | Some n \<Rightarrow> 0 < n \<and> h_running h n)"

text \<open>\<open>None\<close> where the function raises \<open>MissingPsutilError\<close>.\<close>

definition stable_pid_alive :: "caller \<Rightarrow> string \<Rightarrow> string \<Rightarrow> string \<Rightarrow> bool option" where
  "stable_pid_alive h pid stored_lstart stored_start_epoch =
     (case py_int pid of
        None \<Rightarrow> Some False
      | Some n \<Rightarrow>
          if n \<le> 0 then Some False
          else (case h_birth h n of
              No_psutil \<Rightarrow> None
            | Ambiguous \<Rightarrow> Some True
            | Gone \<Rightarrow> Some False
            | Born now \<Rightarrow>
                if stored_start_epoch \<noteq> [] \<and> stored_start_epoch \<noteq> ''0'' then
                  (case py_int stored_start_epoch of
                     None \<Rightarrow> Some False
                   | Some e \<Rightarrow> Some (\<bar>now - e\<bar> \<le> STABLE_PID_EPOCH_TOLERANCE_SECS))
                else if stored_lstart = [] then Some False
                else (let legacy = lstart_to_epoch h stored_lstart in
                  if legacy = 0 then Some False
                  else Some (\<bar>now - legacy\<bar> \<le> STABLE_PID_EPOCH_TOLERANCE_SECS))))"

section \<open>The harness's session records\<close>

definition nonempty_text :: "json \<Rightarrow> string option" where
  "nonempty_text v = (case v of JStr s \<Rightarrow> if s = [] then None else Some s | _ \<Rightarrow> None)"

text \<open>\<open>_parse_one\<close> on the document a file holds; \<open>None\<close> for a file that cannot be read or decoded.\<close>

definition parse_one :: "caller \<Rightarrow> json option \<Rightarrow> (string \<times> registry_record) option" where
  "parse_one h doc =
     (case doc of
        Some (JObj data) \<Rightarrow>
          (case (nonempty_text (dget data ''sessionId''), dget data ''pid'', h_proc_start h (dget data ''procStart'')) of
             (Some session_id, JInt pid, Some start_epoch) \<Rightarrow>
               if pid \<le> 0 then None
               else Some (session_id,
                 \<lparr>rr_pid = pid, rr_start_epoch = start_epoch, rr_cwd = nonempty_text (dget data ''cwd''),
                  rr_name = nonempty_text (dget data ''name''),
                  rr_messaging_socket_path = nonempty_text (dget data ''messagingSocketPath''),
                  rr_status = nonempty_text (dget data ''status''),
                  rr_waiting_for = nonempty_text (dget data ''waitingFor'')\<rparr>)
           | _ \<Rightarrow> None)
      | _ \<Rightarrow> None)"

text \<open>\<open>snapshot\<close>: the files in the order of the directory; a later record of a session replaces an earlier.\<close>

definition snapshot :: "caller \<Rightarrow> (string \<times> registry_record) list" where
  "snapshot h =
     (case h_registry h of
        None \<Rightarrow> []
      | Some files \<Rightarrow> fold (\<lambda>(f, doc) acc. case parse_one h doc of None \<Rightarrow> acc | Some (s, r) \<Rightarrow> AList.update s r acc) files [])"

definition cached_registry_lookup :: "caller \<Rightarrow> string \<Rightarrow> registry_record option" where
  "cached_registry_lookup h sid = map_of (case h_cached h of None \<Rightarrow> snapshot h | Some cached \<Rightarrow> cached) sid"

definition record_for_pid :: "caller \<Rightarrow> int \<Rightarrow> (string \<times> registry_record) option" where
  "record_for_pid h pid =
     (if pid \<le> 0 then None
      else (case h_registry h of
          None \<Rightarrow> None
        | Some files \<Rightarrow> (case map_of files (str_int pid @ ''.json'') of None \<Rightarrow> None | Some doc \<Rightarrow> parse_one h doc)))"

section \<open>The record of a session\<close>

text \<open>\<open>read_meta_field\<close> of the session directory of \<open>sid\<close>.\<close>

definition read_meta_field :: "caller \<Rightarrow> string \<Rightarrow> string \<Rightarrow> string" where
  "read_meta_field h sid field =
     (case h_meta h sid of
        Some (JObj data) \<Rightarrow>
          (case dget_or data field (JStr []) of
             JStr s \<Rightarrow> s
           | JNull \<Rightarrow> []
           | JBool b \<Rightarrow> if b then ''true'' else ''false''
           | JInt i \<Rightarrow> str_int i
           | v \<Rightarrow> h_str h v)
      | _ \<Rightarrow> [])"

definition is_session_live :: "int \<Rightarrow> bool" where
  "is_session_live elapsed_sec = (0 \<le> elapsed_sec \<and> elapsed_sec < THIRTY_MIN)"

text \<open>The newest nonempty regular file of a session directory, else the directory itself.\<close>

definition dir_recency_fallback_epoch :: "caller \<Rightarrow> string \<Rightarrow> int" where
  "dir_recency_fallback_epoch h sid =
     (case h_sdir h sid of
        None \<Rightarrow> 0
      | Some (dir_mtime, files) \<Rightarrow>
          (let newest = fold (\<lambda>(size, mtime) acc. if size = 0 then acc else max acc mtime) files 0 in
           if newest \<noteq> 0 then newest else dir_mtime))"

definition holder_repointed :: "caller \<Rightarrow> string \<Rightarrow> string \<Rightarrow> string \<Rightarrow> bool" where
  "holder_repointed h sid stable_pid stable_pid_start_epoch =
     (if stable_pid_start_epoch = [] then False
      else (case py_int stable_pid of
          None \<Rightarrow> False
        | Some pid \<Rightarrow>
           (case record_for_pid h pid of
              None \<Rightarrow> False
            | Some (record_sid, r) \<Rightarrow>
                if record_sid = sid then False
                else (case h_float h stable_pid_start_epoch of
                    None \<Rightarrow> False
                  | Some e \<Rightarrow> \<bar>rr_start_epoch r - e\<bar> \<le> of_int STABLE_PID_EPOCH_TOLERANCE_SECS))))"

section \<open>Liveness\<close>

definition has_session_dir :: "caller \<Rightarrow> string \<Rightarrow> bool" where
  "has_session_dir h sid = (h_sessions_dir h \<noteq> [] \<and> h_sdir h sid \<noteq> None)"

text \<open>The three sources, each with the name of the arm that decides: the harness's registry, the recorded
  process, the recency of the session directory.\<close>

definition registry_confirms :: "caller \<Rightarrow> string \<Rightarrow> bool" where
  "registry_confirms h sid =
     (case cached_registry_lookup h sid of
        None \<Rightarrow> False
      | Some r \<Rightarrow> stable_pid_alive h (str_int (rr_pid r)) [] (str_int (truncated (rr_start_epoch r))) = Some True)"

definition recency_verdict :: "caller \<Rightarrow> string \<Rightarrow> bool \<times> string \<times> (string \<times> string) option" where
  "recency_verdict h sid =
     (let last_iso = read_meta_field h sid ''last_activity'';
          last_epoch = (if last_iso = [] then dir_recency_fallback_epoch h sid else iso_to_epoch h last_iso);
          elapsed = max 0 (h_now h - last_epoch)
      in (is_session_live elapsed, if last_iso \<noteq> [] then ''recency-window'' else ''recency-window-mtime'', None))"

definition decide_session_live :: "caller \<Rightarrow> string \<Rightarrow> bool \<times> string \<times> (string \<times> string) option" where
  "decide_session_live h sid =
     (if sid = [] then (False, ''unknown'', None)
      else if registry_confirms h sid then
        (True, if has_session_dir h sid then ''harness-registry'' else ''harness-registry-elsewhere'', None)
      else if \<not> has_session_dir h sid then (False, ''unknown'', None)
      else
        (let stable_pid = read_meta_field h sid ''stable_pid'';
             lstart = read_meta_field h sid ''stable_pid_lstart'';
             start_epoch = read_meta_field h sid ''stable_pid_start_epoch''
         in if stable_pid \<noteq> [] \<and> (lstart \<noteq> [] \<or> start_epoch \<noteq> []) then
              (if holder_repointed h sid stable_pid start_epoch then (False, ''harness-registry-superseded'', None)
               else (case stable_pid_alive h stable_pid lstart start_epoch of
                   Some alive \<Rightarrow> (alive, ''stable-pid'', Some (sid, stable_pid))
                 | None \<Rightarrow> (True, ''unknown'', None)))
            else recency_verdict h sid))"

definition session_live :: "caller \<Rightarrow> string \<Rightarrow> bool" where
  "session_live h sid = fst (decide_session_live h sid)"

end
