(* ===== verification/Claim_Store.thy ===== *)
theory Claim_Store
  imports Claim_Host Dag_Paths
begin

text \<open>
  The claim directories on disk and what can be read off one of them
  (\<open>coordinator_core/session/claims.py\<close> and the claim predicates of \<open>liveness.py\<close>).

  A claim is a directory that holds one short text per file; the relinquishment marker is a JSON
  document, or undecodable. Reading a directory that is not there is reading an empty one. Of a name
  given as a path only the components count, as \<open>pathlib\<close> joins them; names that start with a slash and
  components \<open>..\<close> are not modelled.
\<close>

section \<open>Claim directories\<close>

record claim_dir =
  cd_files :: "string \<rightharpoonup> string"
  cd_marker :: "json option option"

type_synonym claims = "claim_key \<rightharpoonup> claim_dir"

definition empty_dir :: claim_dir where
  "empty_dir = \<lparr>cd_files = Map.empty, cd_marker = None\<rparr>"

definition dir_at :: "claims \<Rightarrow> claim_key \<Rightarrow> claim_dir" where
  "dir_at st k = (case st k of None \<Rightarrow> empty_dir | Some d \<Rightarrow> d)"

definition comps :: "string \<Rightarrow> string list" where
  "comps name = filter (\<lambda>c. c \<noteq> [] \<and> c \<noteq> ''.'') (split_on SLASH name)"

definition inside :: "claim_key \<Rightarrow> claim_key \<Rightarrow> bool" where
  "inside k k' =
     (case (k, k') of ((b, c, p), (b', c', p')) \<Rightarrow> b = b' \<and> c = c' \<and> take (length p) p' = p)"

definition parent_exists :: "claims \<Rightarrow> claim_key \<Rightarrow> bool" where
  "parent_exists st k = (case k of (b, c, p) \<Rightarrow> p = [] \<or> st (b, c, butlast p) \<noteq> None)"

text \<open>The names of the directory and of the one it lies in.\<close>

definition dir_name :: "claim_key \<Rightarrow> string" where
  "dir_name k = (case k of (b, c, p) \<Rightarrow> if p = [] then c @ ''-claims'' else last p)"

definition parent_name :: "claim_key \<Rightarrow> string" where
  "parent_name k =
     (case k of (b, c, p) \<Rightarrow>
        if p = [] then ''coordinator-sessions''
        else if butlast p = [] then c @ ''-claims'' else last (butlast p))"

section \<open>File system calls\<close>

datatype mkdir_result = Made claims | Exists | Failed

definition os_mkdir :: "caller \<Rightarrow> claim_key \<Rightarrow> claims \<Rightarrow> mkdir_result" where
  "os_mkdir h k st =
     (if st k \<noteq> None then Exists
      else if \<not> parent_exists st k \<or> h_mkdir_denied h k then Failed
      else Made (st(k \<mapsto> empty_dir)))"

text \<open>\<open>mkdir(parents=True, exist_ok=True)\<close> of the directory of a class, its errors ignored.\<close>

definition make_claims_dir :: "caller \<Rightarrow> string \<Rightarrow> string \<Rightarrow> claims \<Rightarrow> claims" where
  "make_claims_dir h base cls st =
     (if st (base, cls, []) \<noteq> None \<or> h_mkdir_denied h (base, cls, []) then st
      else st((base, cls, []) \<mapsto> empty_dir))"

text \<open>\<open>shutil.rmtree(d, ignore_errors=True)\<close>; where the system refuses, nothing is removed.\<close>

definition rmtree :: "caller \<Rightarrow> claim_key \<Rightarrow> claims \<Rightarrow> claims" where
  "rmtree h k st =
     (if st k = None \<or> h_rm_denied h k then st else (\<lambda>k'. if inside k k' then None else st k'))"

text \<open>\<open>write_text\<close>; \<open>None\<close> where it raises \<open>OSError\<close>.\<close>

definition write_field :: "caller \<Rightarrow> claim_key \<Rightarrow> string \<Rightarrow> string \<Rightarrow> claims \<Rightarrow> claims option" where
  "write_field h k f t st =
     (case st k of
        None \<Rightarrow> None
      | Some d \<Rightarrow> if h_write_denied h k f then None else Some (st(k \<mapsto> d\<lparr>cd_files := (cd_files d)(f \<mapsto> t)\<rparr>)))"

text \<open>A list of files written in turn: the store reached and whether all of them were written.\<close>

fun write_fields :: "caller \<Rightarrow> claim_key \<Rightarrow> (string \<times> string) list \<Rightarrow> claims \<Rightarrow> claims \<times> bool" where
  "write_fields h k [] st = (st, True)"
| "write_fields h k ((f, t) # rest) st =
     (case write_field h k f t st of None \<Rightarrow> (st, False) | Some st' \<Rightarrow> write_fields h k rest st')"

section \<open>The fields of a claim\<close>

text \<open>Text mode reads every line end as a newline.\<close>

definition universal_newlines :: "string \<Rightarrow> string" where
  "universal_newlines t = map (\<lambda>c. if c = CR then NL else c) (replace_all [CR, NL] [NL] t)"

definition text_line :: "string \<Rightarrow> string" where
  "text_line t = t @ [NL]"

definition read_claim_field :: "claim_dir \<Rightarrow> string \<Rightarrow> string" where
  "read_claim_field d f =
     (case cd_files d f of None \<Rightarrow> [] | Some t \<Rightarrow> py_strip (universal_newlines t))"

definition CLAIM_STAGE_BRIEF :: string where "CLAIM_STAGE_BRIEF = ''brief''"
definition CLAIM_STAGE_APPLY :: string where "CLAIM_STAGE_APPLY = ''apply''"

definition claim_stage :: "claim_dir \<Rightarrow> string" where
  "claim_stage d = (if read_claim_field d ''stage'' = CLAIM_STAGE_BRIEF then CLAIM_STAGE_BRIEF else CLAIM_STAGE_APPLY)"

definition claim_age_minutes :: "caller \<Rightarrow> claim_dir \<Rightarrow> int option" where
  "claim_age_minutes h d =
     (let raw = read_claim_field d ''claimed_at'' in
      if raw = [] then None
      else (let claimed_epoch = iso_to_epoch h raw in
        if claimed_epoch \<le> 0 then None
        else (let elapsed = h_now h - claimed_epoch in Some ((if elapsed > 0 then elapsed else 0) div 60))))"

definition brief_lease_expired :: "caller \<Rightarrow> claim_dir \<Rightarrow> bool" where
  "brief_lease_expired h d =
     (if claim_stage d \<noteq> CLAIM_STAGE_BRIEF then False
      else (case claim_age_minutes h d of None \<Rightarrow> False | Some age \<Rightarrow> age > h_lease h))"

definition claim_stamped :: "claim_dir \<Rightarrow> bool" where
  "claim_stamped d = (cd_files d ''stamped'' \<noteq> None)"

text \<open>The label of the holder in messages: an empty \<open>session_id\<close> file reads as the empty string.\<close>

definition read_holder :: "claim_dir \<Rightarrow> string" where
  "read_holder d =
     (if cd_files d ''session_id'' \<noteq> None then read_claim_field d ''session_id''
      else if cd_files d ''pid'' \<noteq> None then read_claim_field d ''pid'' else ''unknown'')"

section \<open>Liveness and identity of the holder\<close>

definition claim_holder_live :: "caller \<Rightarrow> claim_dir \<Rightarrow> bool" where
  "claim_holder_live h d =
     (if cd_files d ''session_id'' \<noteq> None then session_live h (read_claim_field d ''session_id'')
      else pid_alive h (read_claim_field d ''pid''))"

definition claim_held_by_me :: "caller \<Rightarrow> claim_dir \<Rightarrow> string \<Rightarrow> bool" where
  "claim_held_by_me h d my_sid =
     (let my = (if my_sid = [] then attributable_session_id h else my_sid) in
      if cd_files d ''session_id'' \<noteq> None then my \<noteq> [] \<and> read_claim_field d ''session_id'' = my
      else read_claim_field d ''pid'' = str_int (h_pid h))"

section \<open>A field of a front matter\<close>

text \<open>\<open>ops/read_frontmatter_field.py\<close>: the first line that starts with the name and a colon.\<close>

definition line_body :: "string \<Rightarrow> string" where
  "line_body l =
     (if ends_in [CR, NL] l then take (length l - 2) l
      else if l \<noteq> [] \<and> is_break (last l) then butlast l else l)"

fun extract_field :: "string list \<Rightarrow> string \<Rightarrow> string option" where
  "extract_field [] field = None"
| "extract_field (l # ls) field =
     (if starts_with (field @ '':'') (line_body l) then Some (drop (length field + 1) (line_body l))
      else extract_field ls field)"

definition normalize_field :: "string \<Rightarrow> string" where
  "normalize_field raw =
     (let v = py_lstrip raw;
          v = (if CHR ''#'' \<in> set v
               then rev (dropWhile is_blank (rev (takeWhile (\<lambda>c. c \<noteq> CHR ''#'') v))) else v);
          v = py_strip v;
          v = (if 2 \<le> length v \<and> hd v = last v \<and> (hd v = DQ \<or> hd v = SQ) then butlast (tl v) else v)
      in if v = ''null'' then [] else v)"

definition read_frontmatter_field :: "string option \<Rightarrow> string \<Rightarrow> string" where
  "read_frontmatter_field text field =
     (case text of
        None \<Rightarrow> []
      | Some t \<Rightarrow> (case extract_field (splitlines t) field of None \<Rightarrow> [] | Some raw \<Rightarrow> normalize_field raw))"

section \<open>Relinquishment\<close>

datatype evidence =
    Marker string "string option" "string option"
  | Derived string string

definition read_relinquishment_marker :: "claim_dir \<Rightarrow> string \<Rightarrow> evidence option" where
  "read_relinquishment_marker d holder =
     (case cd_marker d of
        Some (Some (JObj data)) \<Rightarrow>
          if dget data ''session_id'' = JStr holder
          then Some (Marker holder (as_str (dget data ''at'')) (as_str (dget data ''handoff''))) else None
      | _ \<Rightarrow> None)"

definition plan_path :: "claim_key \<Rightarrow> string" where
  "plan_path k = ''docs/plans/'' @ dir_name k @ ''.md''"

definition slashes :: "string \<Rightarrow> string" where
  "slashes s = map (\<lambda>c. if c = BSL then SLASH else c) s"

definition names_holder :: "claim_key \<Rightarrow> string \<Rightarrow> string option \<Rightarrow> bool" where
  "names_holder k holder text =
     (read_frontmatter_field text ''authoring_session'' = holder
      \<and> slashes (read_frontmatter_field text ''governing_plan'') = plan_path k)"

definition supplies_evidence :: "claim_key \<Rightarrow> string \<Rightarrow> handoff_file \<Rightarrow> bool" where
  "supplies_evidence k holder f =
     (case hf_text f of
        None \<Rightarrow> False
      | Some raw \<Rightarrow> after_marker holder raw \<noteq> None \<and> names_holder k holder (Some raw) \<and> hf_landed f)"

definition derived_relinquishment_evidence :: "caller \<Rightarrow> claim_key \<Rightarrow> string \<Rightarrow> evidence option" where
  "derived_relinquishment_evidence h k holder =
     (case h_handoffs h (fst k) of
        None \<Rightarrow> None
      | Some files \<Rightarrow>
          (case find (supplies_evidence k holder) files of
             None \<Rightarrow> None | Some f \<Rightarrow> Some (Derived holder (hf_path f))))"

definition claim_holder_relinquished :: "caller \<Rightarrow> claim_key \<Rightarrow> claim_dir \<Rightarrow> evidence option" where
  "claim_holder_relinquished h k d =
     (let holder = read_claim_field d ''session_id'' in
      if holder = [] then None
      else (case read_relinquishment_marker d holder of
          Some e \<Rightarrow> Some e
        | None \<Rightarrow> if parent_name k \<noteq> ''plan-claims'' then None else derived_relinquishment_evidence h k holder))"

definition evidence_still_holds :: "caller \<Rightarrow> claim_key \<Rightarrow> claim_dir \<Rightarrow> evidence \<Rightarrow> string \<Rightarrow> bool" where
  "evidence_still_holds h k d e holder =
     (case e of
        Marker _ _ _ \<Rightarrow> read_relinquishment_marker d holder \<noteq> None
      | Derived _ path \<Rightarrow>
          path \<noteq> [] \<and>
          (case h_handoffs h (fst k) of
             None \<Rightarrow> False
           | Some files \<Rightarrow>
              (case find (\<lambda>f. hf_path f = path) files of None \<Rightarrow> False | Some f \<Rightarrow> names_holder k holder (hf_text f))))"

end
