(* ===== verification/Claim_Ops.thy ===== *)
theory Claim_Ops
  imports Claim_Store
begin

text \<open>
  The operations on claims (\<open>coordinator_core/session/claims.py\<close>), each a function of the caller of its
  caller and the claims on disk. A result pairs the claims left behind with the value returned or the
  exception raised. Messages on the error stream are left out, and with them the advisory reports.
\<close>

datatype claim_err = Value_Error | OS_Error | Relocation_Error

type_synonym 'a claim_outcome = "claims \<times> (claim_err + 'a)"

section \<open>Where a claim lives\<close>

text \<open>\<open>_claim_base\<close>; \<open>None\<close> for a root that is no repository and outside of one.\<close>

definition claim_base :: "caller \<Rightarrow> string \<Rightarrow> string option" where
  "claim_base h baton_repo_root =
     (if baton_repo_root \<noteq> [] then
        (if h_git_root h baton_repo_root then Some (path_join baton_repo_root ''.git/coordinator-sessions'') else None)
      else if h_sessions_dir h = [] then None else Some (h_sessions_dir h))"

definition claim_dir_for :: "caller \<Rightarrow> string \<Rightarrow> string \<Rightarrow> string \<Rightarrow> claim_key option" where
  "claim_dir_for h cls name baton_repo_root =
     (case claim_base h baton_repo_root of None \<Rightarrow> None | Some base \<Rightarrow> Some (base, cls, comps name))"

definition ARTIFACT_CLASS_PATH :: string where "ARTIFACT_CLASS_PATH = ''artifact''"
definition ROW_CLAIM_CLASS :: string where "ROW_CLAIM_CLASS = ''row''"

definition CLASSED_CLAIM_CLASSES :: "string list" where
  "CLASSED_CLAIM_CLASSES = [''handoff'', ''memo'', ''plan'', ''artifact'', ''row'']"

text \<open>\<open>row_claim_key\<close>; \<open>None\<close> where it raises \<open>ValueError\<close>.\<close>

definition stem :: "string \<Rightarrow> string" where
  "stem name = rev (tl (dropWhile (\<lambda>c. c \<noteq> CHR ''.'') (rev name)))"

definition row_claim_key :: "string \<Rightarrow> string option" where
  "row_claim_key row =
     (let parts = filter (\<lambda>p. p \<noteq> []) (split_on SLASH (slashes row)) in
      if length parts < 2 then None
      else (let name = last parts; dir = last (butlast parts) in
        if \<not> (ends_in ''.yaml'' name \<or> ends_in ''.yml'' name) \<or> dir = ''.'' \<or> dir = ''..'' then None
        else Some (dir @ ''--'' @ stem name)))"

text \<open>The name a class keys its claim by.\<close>

definition key_name :: "string \<Rightarrow> string \<Rightarrow> string option" where
  "key_name cls name = (if cls = ROW_CLAIM_CLASS then row_claim_key name else Some name)"

section \<open>Taking a claim\<close>

text \<open>\<open>takeover\<close> is what a takeover records: the former holder, the evidence and the justification.\<close>

definition claim_meta :: "caller \<Rightarrow> string \<Rightarrow> string \<Rightarrow> (string \<times> string \<times> string) option \<Rightarrow> (string \<times> string) list" where
  "claim_meta h sid stage takeover =
     [(''pid'', text_line (str_int (h_pid h))), (''session_id'', text_line sid),
      (''claimed_at'', text_line (h_now_iso h)), (''stage'', text_line stage)] @
     (case takeover of
        None \<Rightarrow> []
      | Some (taken_from, evidence, justification) \<Rightarrow>
          [(''taken_from_session_id'', text_line taken_from), (''takeover_evidence'', text_line evidence),
           (''justification'', text_line justification)])"

definition write_claim_meta ::
  "caller \<Rightarrow> claim_key \<Rightarrow> string \<Rightarrow> string \<Rightarrow> (string \<times> string \<times> string) option \<Rightarrow> claims \<Rightarrow> bool claim_outcome" where
  "write_claim_meta h k sid stage takeover st =
     (case write_fields h k (claim_meta h sid stage takeover) st of
        (st', written) \<Rightarrow> (st', if written then Inr True else Inl OS_Error))"

text \<open>The claim is mine by the id this call resolved, or by another id of this process's environment.\<close>

definition held_by_self :: "caller \<Rightarrow> claim_dir \<Rightarrow> string \<Rightarrow> bool" where
  "held_by_self h d sid =
     (claim_held_by_me h d sid
      \<or> (read_claim_field d ''session_id'' \<noteq> []
         \<and> read_claim_field d ''session_id'' \<in> set (session_env_candidates h)))"

definition touch_brief_claim :: "caller \<Rightarrow> string \<Rightarrow> string \<Rightarrow> string \<Rightarrow> claims \<Rightarrow> bool claim_outcome" where
  "touch_brief_claim h cls name baton_repo_root st =
     (if cls = [] \<or> name = [] then (st, Inl Value_Error)
      else (let sid = resolve_session_id h in
        if sid = [] then (st, Inr False)
        else (case claim_dir_for h cls name baton_repo_root of
            None \<Rightarrow> (st, Inr False)
          | Some k \<Rightarrow>
             (case st k of
                None \<Rightarrow> (st, Inr False)
              | Some d \<Rightarrow>
                  if \<not> claim_held_by_me h d sid then (st, Inr False)
                  else if claim_stage d \<noteq> CLAIM_STAGE_BRIEF then (st, Inr False)
                  else (case write_field h k ''claimed_at'' (text_line (h_now_iso h)) st of
                      None \<Rightarrow> (st, Inr False) | Some st' \<Rightarrow> (st', Inr True))))))"

text \<open>The removal and the new directory of a takeover.\<close>

definition retake :: "caller \<Rightarrow> claim_key \<Rightarrow> string \<Rightarrow> string \<Rightarrow> claims \<Rightarrow> bool claim_outcome" where
  "retake h k sid stage st =
     (let st1 = rmtree h k st in
      case os_mkdir h k st1 of
        Made st2 \<Rightarrow> write_claim_meta h k sid stage None st2
      | _ \<Rightarrow> (st1, Inr False))"

definition claim_artifact :: "caller \<Rightarrow> string \<Rightarrow> string \<Rightarrow> string \<Rightarrow> string \<Rightarrow> claims \<Rightarrow> bool claim_outcome" where
  "claim_artifact h cls name baton_repo_root stage st =
     (if cls = [] \<or> name = [] then (st, Inl Value_Error)
      else if cls = ARTIFACT_CLASS_PATH then (st, Inr False)
      else (case key_name cls name of
          None \<Rightarrow> (st, Inl Value_Error)
        | Some key \<Rightarrow>
           (let stage' = (if cls = ROW_CLAIM_CLASS then CLAIM_STAGE_BRIEF else stage);
                sid = resolve_session_id h
            in if sid = [] then (st, Inr False)
               else (case claim_base h baton_repo_root of
                   None \<Rightarrow> (st, Inr False)
                 | Some base \<Rightarrow>
                    (let k = (base, cls, comps key); st1 = make_claims_dir h base cls st in
                     case os_mkdir h k st1 of
                       Made st2 \<Rightarrow> write_claim_meta h k sid stage' None st2
                     | Failed \<Rightarrow> (st1, Inr False)
                     | Exists \<Rightarrow>
                        (let d = dir_at st1 k in
                         if cls = ''plan'' \<and> held_by_self h d sid then (st1, Inr True)
                         else if cls = ROW_CLAIM_CLASS \<and> held_by_self h d sid then
                           (case touch_brief_claim h cls key baton_repo_root st1 of
                              (st2, Inl e) \<Rightarrow> (st2, Inl e) | (st2, Inr _) \<Rightarrow> (st2, Inr True))
                         else if claim_holder_live h d \<and> \<not> brief_lease_expired h d then (st1, Inr False)
                         else retake h k sid stage' st1))))))"

definition claim_handoff :: "caller \<Rightarrow> string \<Rightarrow> string \<Rightarrow> claims \<Rightarrow> bool claim_outcome" where
  "claim_handoff h name baton_repo_root = claim_artifact h ''handoff'' name baton_repo_root CLAIM_STAGE_APPLY"

definition claim_memo :: "caller \<Rightarrow> string \<Rightarrow> string \<Rightarrow> claims \<Rightarrow> bool claim_outcome" where
  "claim_memo h name baton_repo_root = claim_artifact h ''memo'' name baton_repo_root CLAIM_STAGE_APPLY"

section \<open>The stage of a claim\<close>

text \<open>The common shape of \<open>promote_claim_stage\<close> and \<open>demote_claim_stage_to_brief\<close>.\<close>

definition set_claim_stage :: "string \<Rightarrow> caller \<Rightarrow> string \<Rightarrow> string \<Rightarrow> string \<Rightarrow> claims \<Rightarrow> bool claim_outcome" where
  "set_claim_stage stage h cls name baton_repo_root st =
     (if cls = [] \<or> name = [] then (st, Inl Value_Error)
      else (let sid = resolve_session_id h in
        if sid = [] then (st, Inr False)
        else (case claim_dir_for h cls name baton_repo_root of
            None \<Rightarrow> (st, Inr False)
          | Some k \<Rightarrow>
             (case st k of
                None \<Rightarrow> (st, Inr False)
              | Some d \<Rightarrow>
                  if \<not> claim_held_by_me h d sid then (st, Inr False)
                  else if claim_stage d = stage then (st, Inr True)
                  else (case write_field h k ''stage'' (text_line stage) st of
                      None \<Rightarrow> (st, Inr False) | Some st' \<Rightarrow> (st', Inr True))))))"

definition promote_claim_stage :: "caller \<Rightarrow> string \<Rightarrow> string \<Rightarrow> string \<Rightarrow> claims \<Rightarrow> bool claim_outcome" where
  "promote_claim_stage = set_claim_stage CLAIM_STAGE_APPLY"

definition demote_claim_stage_to_brief :: "caller \<Rightarrow> string \<Rightarrow> string \<Rightarrow> string \<Rightarrow> claims \<Rightarrow> bool claim_outcome" where
  "demote_claim_stage_to_brief = set_claim_stage CLAIM_STAGE_BRIEF"

text \<open>Markers in the directory itself, written by whoever names it.\<close>

definition mark_file :: "string \<Rightarrow> caller \<Rightarrow> claim_key \<Rightarrow> claims \<Rightarrow> claims \<times> bool" where
  "mark_file f h k st =
     (case write_field h k f (text_line (h_now_iso h)) st of None \<Rightarrow> (st, False) | Some st' \<Rightarrow> (st', True))"

definition mark_claim_stamped :: "caller \<Rightarrow> claim_key \<Rightarrow> claims \<Rightarrow> claims \<times> bool" where
  "mark_claim_stamped = mark_file ''stamped''"

definition stamp_plan_claim_fired :: "caller \<Rightarrow> claim_key \<Rightarrow> claims \<Rightarrow> claims \<times> bool" where
  "stamp_plan_claim_fired = mark_file ''last_fired_at''"

section \<open>Renaming\<close>

text \<open>\<open>os.replace\<close> of a directory onto a name that does not exist: everything inside moves along.\<close>

definition move_dir :: "claim_key \<Rightarrow> claim_key \<Rightarrow> claims \<Rightarrow> claims" where
  "move_dir k k' st =
     (case (k, k') of ((b, c, p), (b', c', p')) \<Rightarrow>
        (\<lambda>q. if inside k' q then (case q of (bq, cq, pq) \<Rightarrow> st (b, c, p @ drop (length p') pq))
             else if inside k q then None else st q))"

definition relocate_artifact_claim :: "caller \<Rightarrow> string \<Rightarrow> string \<Rightarrow> string \<Rightarrow> string \<Rightarrow> claims \<Rightarrow> bool claim_outcome" where
  "relocate_artifact_claim h cls old_name new_name baton_repo_root st =
     (if cls = [] \<or> old_name = [] \<or> new_name = [] then (st, Inl Value_Error)
      else if old_name = new_name then (st, Inr True)
      else (case claim_base h baton_repo_root of
          None \<Rightarrow> (st, Inr False)
        | Some base \<Rightarrow>
           (let k = (base, cls, comps old_name); k' = (base, cls, comps new_name) in
            if st k = None then (st, Inr True)
            else if st k' \<noteq> None then (st, Inr False)
            else if h_rename_denied h k \<or> \<not> parent_exists st k' \<or> inside k k' then (st, Inl Relocation_Error)
            else (move_dir k k' st, Inr True))))"

definition relocate_handoff_claim :: "caller \<Rightarrow> string \<Rightarrow> string \<Rightarrow> string \<Rightarrow> claims \<Rightarrow> bool claim_outcome" where
  "relocate_handoff_claim h old_name new_name = relocate_artifact_claim h ''handoff'' old_name new_name"

definition follow_handoff_claim :: "caller \<Rightarrow> string \<Rightarrow> string \<Rightarrow> string \<Rightarrow> claims \<Rightarrow> bool claim_outcome" where
  "follow_handoff_claim h sid old_name new_name st =
     (if sid = [] \<or> old_name = [] \<or> new_name = [] \<or> old_name = new_name then (st, Inr False)
      else (case claim_base h [] of
          None \<Rightarrow> (st, Inr False)
        | Some base \<Rightarrow>
           (let k = (base, ''handoff'', comps old_name); k' = (base, ''handoff'', comps new_name);
                holder = (\<lambda>q. read_claim_field (dir_at st q) ''session_id'')
            in if st k = None then (st, Inr (st k' \<noteq> None \<and> holder k' = sid))
               else if holder k \<noteq> sid then (st, Inr False)
               else if st k' \<noteq> None then
                 (if holder k' \<noteq> sid then (st, Inr False)
                  else (let st1 = rmtree h k st in (st1, Inr (st1 k = None))))
               else relocate_artifact_claim h ''handoff'' old_name new_name [] st)))"

section \<open>Asking who blocks a row\<close>

definition row_claim_blocker :: "caller \<Rightarrow> string \<Rightarrow> string \<Rightarrow> string \<Rightarrow> claims \<Rightarrow> string option" where
  "row_claim_blocker h base row_key my_sid st =
     (case st (base, ROW_CLAIM_CLASS, comps row_key) of
        None \<Rightarrow> None
      | Some d \<Rightarrow>
         (let held = read_claim_field d ''session_id''; own = session_env_candidates h in
          if held \<noteq> [] \<and> held = my_sid then None
          else if held \<noteq> [] \<and> my_sid \<noteq> [] \<and> my_sid \<in> set own \<and> held \<in> set own then None
          else if \<not> claim_holder_live h d \<or> brief_lease_expired h d then None
          else Some (if held \<noteq> [] then held else read_holder d)))"

section \<open>Releasing\<close>

datatype release_result = Released | Already_Absent | Held_By_Another | Invalid_Class

text \<open>
  The holder is read twice before the directory goes: \<open>st\<close> is what the first reading sees and \<open>st'\<close> what
  the second one and the removal see.
\<close>

definition release_between ::
  "caller \<Rightarrow> string \<Rightarrow> string \<Rightarrow> string \<Rightarrow> string option \<Rightarrow> claims \<Rightarrow> claims \<Rightarrow> release_result claim_outcome" where
  "release_between h cls name baton_repo_root my_sid st st' =
     (if cls = [] \<or> name = [] then (st', Inl Value_Error)
      else if cls \<notin> set CLASSED_CLAIM_CLASSES then (st', Inr Invalid_Class)
      else (case key_name cls name of
          None \<Rightarrow> (st', Inl Value_Error)
        | Some key \<Rightarrow>
           (case claim_dir_for h cls key baton_repo_root of
              None \<Rightarrow> (st', Inr Already_Absent)
            | Some k \<Rightarrow>
                if st k = None then (st', Inr Already_Absent)
                else (let my = (case my_sid of None \<Rightarrow> resolve_session_id h | Some s \<Rightarrow> s) in
                  if \<not> claim_held_by_me h (dir_at st k) my then (st', Inr Held_By_Another)
                  else if \<not> claim_held_by_me h (dir_at st' k) my then (st', Inr Held_By_Another)
                  else (rmtree h k st', Inr Released)))))"

definition release_artifact_outcome ::
  "caller \<Rightarrow> string \<Rightarrow> string \<Rightarrow> string \<Rightarrow> string option \<Rightarrow> claims \<Rightarrow> release_result claim_outcome" where
  "release_artifact_outcome h cls name baton_repo_root my_sid st =
     release_between h cls name baton_repo_root my_sid st st"

text \<open>\<open>release_artifact\<close> of a class other than the path class.\<close>

definition release_artifact ::
  "caller \<Rightarrow> string \<Rightarrow> string \<Rightarrow> string \<Rightarrow> string option \<Rightarrow> claims \<Rightarrow> bool claim_outcome" where
  "release_artifact h cls name baton_repo_root my_sid st =
     (case release_artifact_outcome h cls name baton_repo_root my_sid st of
        (st', Inl e) \<Rightarrow> (st', Inl e) | (st', Inr r) \<Rightarrow> (st', Inr (r \<noteq> Invalid_Class)))"

definition relinquished_doc :: "caller \<Rightarrow> string \<Rightarrow> json" where
  "relinquished_doc h sid = JObj (fmap_of_list [(''session_id'', JStr sid), (''at'', JStr (h_now_iso h))])"

definition release_or_relinquish_artifact ::
  "caller \<Rightarrow> string \<Rightarrow> string \<Rightarrow> string \<Rightarrow> string option \<Rightarrow> claims \<Rightarrow> bool claim_outcome" where
  "release_or_relinquish_artifact h cls name baton_repo_root my_sid st =
     (case release_artifact h cls name baton_repo_root my_sid st of
        (st1, Inl e) \<Rightarrow> (st1, Inl e)
      | (st1, Inr released) \<Rightarrow>
          if cls \<noteq> ''plan'' then (st1, Inr released)
          else (case claim_dir_for h cls name baton_repo_root of
              None \<Rightarrow> (st1, Inr released)
            | Some k \<Rightarrow>
               (case st1 k of
                  None \<Rightarrow> (st1, Inr released)
                | Some d \<Rightarrow>
                   (let recorded = read_claim_field d ''session_id'' in
                    if recorded = [] then (st1, Inr released)
                    else if recorded \<notin> set (session_env_candidates h) \<and> my_sid \<noteq> Some recorded then (st1, Inr released)
                    else if h_warm h \<and> carried_session_id h = [] then (st1, Inr released)
                    else if h_write_denied h k ''relinquished.json'' then (st1, Inr released)
                    else (st1(k \<mapsto> d\<lparr>cd_marker := Some (Some (relinquished_doc h recorded))\<rparr>), Inr released)))))"

section \<open>Clearing a dead claim\<close>

text \<open>As \<open>release_between\<close>: the holder is asked for in \<open>st\<close> and again in \<open>st'\<close>, by \<open>h\<close> and by \<open>h'\<close>.\<close>

definition clear_between :: "caller \<Rightarrow> caller \<Rightarrow> string \<Rightarrow> string \<Rightarrow> string \<Rightarrow> claims \<Rightarrow> claims \<Rightarrow> bool claim_outcome" where
  "clear_between h h' cls name baton_repo_root st st' =
     (if cls = [] \<or> name = [] then (st', Inl Value_Error)
      else if cls \<notin> set CLASSED_CLAIM_CLASSES then (st', Inr False)
      else (case key_name cls name of
          None \<Rightarrow> (st', Inl Value_Error)
        | Some key \<Rightarrow>
            if baton_repo_root \<noteq> [] \<and> \<not> h_git_root h baton_repo_root then (st', Inr False)
            else (case claim_dir_for h cls key baton_repo_root of
                None \<Rightarrow> (st', Inr True)
              | Some k \<Rightarrow>
                  if st k = None then (st', Inr True)
                  else if claim_holder_live h (dir_at st k) then (st', Inr False)
                  else if claim_holder_live h' (dir_at st' k) then (st', Inr False)
                  else (rmtree h' k st', Inr True))))"

text \<open>\<open>clear_claim_if_dead\<close> of a class other than the path class.\<close>

definition clear_claim_if_dead :: "caller \<Rightarrow> string \<Rightarrow> string \<Rightarrow> string \<Rightarrow> claims \<Rightarrow> bool claim_outcome" where
  "clear_claim_if_dead h cls name baton_repo_root st = clear_between h h cls name baton_repo_root st st"

section \<open>Taking over a relinquished plan\<close>

definition evidence_text :: "evidence \<Rightarrow> string" where
  "evidence_text e =
     (case e of Marker _ _ _ \<Rightarrow> ''marker relinquished.json'' | Derived _ path \<Rightarrow> ''derived '' @ path)"

definition take_over_between ::
  "caller \<Rightarrow> caller \<Rightarrow> string \<Rightarrow> string \<Rightarrow> string \<Rightarrow> claims \<Rightarrow> claims \<Rightarrow> bool claim_outcome" where
  "take_over_between h h' name justification baton_repo_root st st' =
     (if name = [] then (st', Inl Value_Error)
      else if py_strip justification = [] then (st', Inr False)
      else (let sid = resolve_session_id h in
        if sid = [] then (st', Inr False)
        else (case claim_dir_for h ''plan'' name baton_repo_root of
            None \<Rightarrow> (st', Inr False)
          | Some k \<Rightarrow>
             (case st k of
                None \<Rightarrow> (st', Inr False)
              | Some d \<Rightarrow>
                  if claim_held_by_me h d sid then (st', Inr True)
                  else (let held_sid = read_claim_field d ''session_id'' in
                    case claim_holder_relinquished h k d of
                      None \<Rightarrow> (st', Inr False)
                    | Some e \<Rightarrow>
                       (case st' k of
                          None \<Rightarrow> (st', Inr False)
                        | Some d' \<Rightarrow>
                            if read_claim_field d' ''session_id'' \<noteq> held_sid then (st', Inr False)
                            else if \<not> evidence_still_holds h' k d' e held_sid then (st', Inr False)
                            else (let st1 = rmtree h' k st' in
                              case os_mkdir h' k st1 of
                                Made st2 \<Rightarrow>
                                  write_claim_meta h' k sid CLAIM_STAGE_APPLY
                                    (Some (held_sid, evidence_text e, justification)) st2
                              | Exists \<Rightarrow> (st1, Inr False)
                              | Failed \<Rightarrow> (st1, Inl OS_Error))))))))"

definition take_over_claim :: "caller \<Rightarrow> string \<Rightarrow> string \<Rightarrow> string \<Rightarrow> claims \<Rightarrow> bool claim_outcome" where
  "take_over_claim h name justification baton_repo_root st =
     take_over_between h h name justification baton_repo_root st st"

end
