(* ===== verification/Claim_Protocol.thy ===== *)
theory Claim_Protocol
  imports Claim_Ops
begin

text \<open>
  What the claim operations promise when each of them runs undisturbed: what they read back of what they
  wrote, what they leave alone, the lock they implement, and what a holder keeps through any sequence of
  operations of its peers.
\<close>

section \<open>Reading back a field\<close>

text \<open>A text that a line of a claim file keeps: no carriage return, no white space at its ends.\<close>

definition line_text :: "string \<Rightarrow> bool" where
  "line_text s = (s \<noteq> [] \<and> CR \<notin> set s \<and> \<not> is_space (hd s) \<and> \<not> is_space (last s))"

lemma replace_all_absent: "c \<notin> set t \<Longrightarrow> replace_all (c # cs) r t = t"
  by (induction t) (simp_all add: replace_all.simps [of _ _ "[]"] replace_all.simps [of _ _ "_ # _"] starts_with_def
    eq_commute [of _ c])

lemma universal_newlines_plain: "CR \<notin> set t \<Longrightarrow> universal_newlines t = t"
  by (auto simp: universal_newlines_def replace_all_absent intro!: map_idI)

lemma is_space_NL: "is_space NL"
  by (simp add: is_space_def)

lemma py_strip_line:
  assumes "line_text s"
  shows "py_strip (text_line s) = s"
proof -
  have "dropWhile is_space (text_line s) = text_line s"
    using assms by (simp add: line_text_def text_line_def dropWhile_eq_self_iff hd_append)
  moreover have "dropWhile is_space (rev (text_line s)) = rev s"
    using assms by (simp add: line_text_def text_line_def is_space_NL dropWhile_eq_self_iff hd_rev)
  ultimately show ?thesis by (simp add: py_strip_def strip_by_def)
qed

lemma line_no_CR: "line_text s \<Longrightarrow> CR \<notin> set (text_line s)"
  by (simp add: line_text_def text_line_def)

lemma read_back:
  "line_text s \<Longrightarrow> cd_files d f = Some (text_line s) \<Longrightarrow> read_claim_field d f = s"
  by (simp add: read_claim_field_def universal_newlines_plain py_strip_line line_no_CR)

lemma plain_stages [simp]: "line_text CLAIM_STAGE_BRIEF" "line_text CLAIM_STAGE_APPLY"
  by (simp_all add: line_text_def CLAIM_STAGE_BRIEF_def CLAIM_STAGE_APPLY_def is_space_def)

lemma stages_differ [simp]: "CLAIM_STAGE_BRIEF \<noteq> CLAIM_STAGE_APPLY" "CLAIM_STAGE_APPLY \<noteq> CLAIM_STAGE_BRIEF"
  by (simp_all add: CLAIM_STAGE_BRIEF_def CLAIM_STAGE_APPLY_def)

section \<open>What is left alone\<close>

lemma inside_refl [simp]: "inside k k"
  by (cases k) (simp add: inside_def)

lemma inside_one: "inside (b, c, p) (b', c', [x]) \<longleftrightarrow> b = b' \<and> c = c' \<and> (p = [] \<or> p = [x])"
  by (cases p) (auto simp: inside_def)

lemma write_field_frame: "write_field h k f t st = Some st' \<Longrightarrow> q \<noteq> k \<Longrightarrow> st' q = st q"
  by (auto simp: write_field_def split: option.splits if_splits)

lemma write_fields_frame: "q \<noteq> k \<Longrightarrow> fst (write_fields h k fs st) q = st q"
  by (induction h k fs st rule: write_fields.induct) (auto simp: write_field_frame split: option.splits)

lemma write_claim_meta_frame: "q \<noteq> k \<Longrightarrow> fst (write_claim_meta h k sid stage t st) q = st q"
  using write_fields_frame [of q k h "claim_meta h sid stage t" st]
  by (auto simp: write_claim_meta_def split: prod.splits)

lemma rmtree_frame: "\<not> inside k q \<Longrightarrow> rmtree h k st q = st q"
  by (simp add: rmtree_def)

lemma os_mkdir_frame: "os_mkdir h k st = Made st' \<Longrightarrow> q \<noteq> k \<Longrightarrow> st' q = st q"
  by (auto simp: os_mkdir_def split: if_splits)

lemma make_claims_dir_frame: "st q \<noteq> None \<Longrightarrow> make_claims_dir h b c st q = st q"
  by (auto simp: make_claims_dir_def)

lemma not_inside_neq: "\<not> inside k q \<Longrightarrow> q \<noteq> k"
  by auto

lemma retake_frame: "\<not> inside k q \<Longrightarrow> fst (retake h k sid stage st) q = st q"
  by (auto simp: retake_def Let_def rmtree_frame os_mkdir_frame write_claim_meta_frame not_inside_neq
      split: mkdir_result.splits)

lemma touch_frame:
  assumes "\<And>k. claim_dir_for h cls name baton = Some k \<Longrightarrow> q \<noteq> k"
  shows "fst (touch_brief_claim h cls name baton st) q = st q"
  using assms by (auto simp: touch_brief_claim_def Let_def write_field_frame split: option.splits)

lemma set_stage_frame:
  assumes "\<And>k. claim_dir_for h cls name baton = Some k \<Longrightarrow> q \<noteq> k"
  shows "fst (set_claim_stage stage h cls name baton st) q = st q"
  using assms by (auto simp: set_claim_stage_def Let_def write_field_frame split: option.splits)

section \<open>The lock\<close>

text \<open>
  The abstract view of a claim: nobody's, or a session's at a stage. \<open>acquire\<close> is what a session that asks
  for it gets: a free lock, its own lock where the class lets it come back, a lock that may be taken.
\<close>

type_synonym lock = "(string \<times> string) option"

definition owner :: "claims \<Rightarrow> claim_key \<Rightarrow> lock" where
  "owner st k = (case st k of None \<Rightarrow> None | Some d \<Rightarrow> Some (read_claim_field d ''session_id'', claim_stage d))"

fun acquire :: "bool \<Rightarrow> bool \<Rightarrow> string \<Rightarrow> string \<Rightarrow> lock \<Rightarrow> lock \<times> bool" where
  "acquire own takeable me stage None = (Some (me, stage), True)"
| "acquire own takeable me stage (Some held) =
     (if own then (Some held, True) else if takeable then (Some (me, stage), True) else (Some held, False))"

text \<open>A caller whose file system refuses nothing.\<close>

definition obliging :: "caller \<Rightarrow> bool" where
  "obliging h =
     (h_mkdir_denied h = (\<lambda>_. False) \<and> h_rm_denied h = (\<lambda>_. False) \<and> h_write_denied h = (\<lambda>_ _. False))"

text \<open>The ids under which a process recognises a claim as its own.\<close>

definition my_ids :: "caller \<Rightarrow> string list" where
  "my_ids h = resolve_session_id h # session_env_candidates h"

lemma claim_meta_written:
  assumes "obliging h" and "st k = Some d"
  shows "write_claim_meta h k sid stage None st =
    (st(k \<mapsto> d\<lparr>cd_files := (cd_files d)(''pid'' \<mapsto> text_line (str_int (h_pid h)), ''session_id'' \<mapsto> text_line sid,
       ''claimed_at'' \<mapsto> text_line (h_now_iso h), ''stage'' \<mapsto> text_line stage)\<rparr>), Inr True)"
  using assms by (simp add: write_claim_meta_def claim_meta_def write_field_def obliging_def)

lemma owner_written:
  assumes "line_text sid" and "stage \<in> {CLAIM_STAGE_BRIEF, CLAIM_STAGE_APPLY}"
  shows "owner (st(k \<mapsto> d\<lparr>cd_files := m(''session_id'' \<mapsto> text_line sid, ''claimed_at'' \<mapsto> t, ''stage'' \<mapsto> text_line stage)\<rparr>)) k =
    Some (sid, stage)"
proof -
  let ?d = "d\<lparr>cd_files := m(''session_id'' \<mapsto> text_line sid, ''claimed_at'' \<mapsto> t, ''stage'' \<mapsto> text_line stage)\<rparr>"
  have "read_claim_field ?d ''session_id'' = sid"
    by (rule read_back [OF assms(1)]) simp
  moreover have "read_claim_field ?d ''stage'' = stage"
    by (rule read_back) (use assms(2) in auto)
  ultimately show ?thesis
    using assms(2) by (auto simp: owner_def claim_stage_def)
qed

lemma made_claim_owner:
  assumes "obliging h" and "line_text sid" and "stage \<in> {CLAIM_STAGE_BRIEF, CLAIM_STAGE_APPLY}"
    and "os_mkdir h k st = Made st'"
  shows "snd (write_claim_meta h k sid stage None st') = Inr True"
    and "owner (fst (write_claim_meta h k sid stage None st')) k = Some (sid, stage)"
proof -
  have "st' k = Some empty_dir" using assms(4) by (auto simp: os_mkdir_def split: if_splits)
  note w = claim_meta_written [where st = st' and k = k and d = empty_dir and h = h and sid = sid and stage = stage,
    OF assms(1) this]
  show "snd (write_claim_meta h k sid stage None st') = Inr True" by (simp add: w)
  show "owner (fst (write_claim_meta h k sid stage None st')) k = Some (sid, stage)"
    by (simp only: w fst_conv owner_written [OF assms(2,3)])
qed

lemma os_mkdir_free:
  assumes "obliging h" and "st (b, c, [x]) = None" and "st (b, c, []) \<noteq> None"
  shows "os_mkdir h (b, c, [x]) st = Made (st((b, c, [x]) \<mapsto> empty_dir))"
  using assms by (auto simp: os_mkdir_def parent_exists_def obliging_def)

lemma retake_owner:
  assumes "obliging h" and "line_text sid" and "stage \<in> {CLAIM_STAGE_BRIEF, CLAIM_STAGE_APPLY}"
    and "st (b, c, []) \<noteq> None"
  shows "snd (retake h (b, c, [x]) sid stage st) = Inr True"
    and "owner (fst (retake h (b, c, [x]) sid stage st)) (b, c, [x]) = Some (sid, stage)"
proof -
  let ?k = "(b, c, [x])" and ?st = "rmtree h (b, c, [x]) st"
  have "?st ?k = None" using assms(1) by (simp add: rmtree_def obliging_def)
  moreover have "?st (b, c, []) \<noteq> None" using assms(4) by (simp add: rmtree_frame inside_def)
  ultimately have m: "os_mkdir h ?k ?st = Made (?st(?k \<mapsto> empty_dir))"
    by (rule os_mkdir_free [where st = ?st and h = h, OF assms(1)])
  show "snd (retake h ?k sid stage st) = Inr True"
    and "owner (fst (retake h ?k sid stage st)) ?k = Some (sid, stage)"
    using made_claim_owner [OF assms(1,2,3) m] by (simp_all add: retake_def Let_def m)
qed

lemma owner_touch: "owner (fst (touch_brief_claim h cls name baton st)) k = owner st k"
proof (cases "fst (touch_brief_claim h cls name baton st) = st")
  case False
  then obtain k' d where "st k' = Some d"
    and "fst (touch_brief_claim h cls name baton st) =
      st(k' \<mapsto> d\<lparr>cd_files := (cd_files d)(''claimed_at'' \<mapsto> text_line (h_now_iso h))\<rparr>)"
    by (auto simp: touch_brief_claim_def Let_def write_field_def split: option.splits if_splits)
  then show ?thesis
    by (auto simp: owner_def claim_stage_def read_claim_field_def)
qed simp

lemma touch_no_error: "cls \<noteq> [] \<Longrightarrow> name \<noteq> [] \<Longrightarrow> \<exists>b. snd (touch_brief_claim h cls name baton st) = Inr b"
  by (auto simp: touch_brief_claim_def Let_def split: option.splits)

lemma held_by_self_ids:
  assumes "cd_files d ''session_id'' \<noteq> None" and "resolve_session_id h \<noteq> []"
  shows "held_by_self h d (resolve_session_id h) \<longleftrightarrow>
    read_claim_field d ''session_id'' \<noteq> [] \<and> read_claim_field d ''session_id'' \<in> set (my_ids h)"
  using assms by (auto simp: held_by_self_def claim_held_by_me_def my_ids_def)

lemma key_nonempty: "comps key = [x] \<Longrightarrow> key \<noteq> []"
  by (auto simp: comps_def)

text \<open>A request that leads to the claim directory \<open>k\<close>.\<close>

definition names_claim :: "caller \<Rightarrow> string \<Rightarrow> string \<Rightarrow> string \<Rightarrow> claim_key \<Rightarrow> bool" where
  "names_claim h cls name baton k =
     (cls \<noteq> [] \<and> cls \<noteq> ARTIFACT_CLASS_PATH \<and> name \<noteq> [] \<and>
      (case (key_name cls name, claim_base h baton) of
         (Some key, Some base) \<Rightarrow> length (comps key) = 1 \<and> k = (base, cls, comps key)
       | _ \<Rightarrow> False))"

definition may_reenter :: "caller \<Rightarrow> string \<Rightarrow> claim_dir \<Rightarrow> bool" where
  "may_reenter h cls d =
     (cls \<in> {''plan'', ROW_CLAIM_CLASS} \<and> read_claim_field d ''session_id'' \<noteq> []
      \<and> read_claim_field d ''session_id'' \<in> set (my_ids h))"

definition takeable :: "caller \<Rightarrow> claim_dir \<Rightarrow> bool" where
  "takeable h d = (\<not> session_live h (read_claim_field d ''session_id'') \<or> brief_lease_expired h d)"

lemma names_claimE:
  assumes "names_claim h cls name baton k"
  obtains key base x where "cls \<noteq> []" "cls \<noteq> ARTIFACT_CLASS_PATH" "name \<noteq> []" "key_name cls name = Some key"
    "comps key = [x]" "claim_base h baton = Some base" "k = (base, cls, [x])"
  using assms by (auto simp: names_claim_def length_Suc_conv split: option.splits)

text \<open>The stage a request asks for: rows are only ever reserved.\<close>

definition asked_stage :: "string \<Rightarrow> string \<Rightarrow> string" where
  "asked_stage cls stage = (if cls = ROW_CLAIM_CLASS then CLAIM_STAGE_BRIEF else stage)"

lemma claim_artifact_at:
  assumes "names_claim h cls name baton k" and "resolve_session_id h \<noteq> []"
  obtains key where "key \<noteq> []" and "\<And>stage st. claim_artifact h cls name baton stage st =
    (let st1 = make_claims_dir h (fst k) cls st; sid = resolve_session_id h; d = dir_at st1 k in
     case os_mkdir h k st1 of
       Made st2 \<Rightarrow> write_claim_meta h k sid (asked_stage cls stage) None st2
     | Failed \<Rightarrow> (st1, Inr False)
     | Exists \<Rightarrow>
         if cls = ''plan'' \<and> held_by_self h d sid then (st1, Inr True)
         else if cls = ROW_CLAIM_CLASS \<and> held_by_self h d sid then
           (case touch_brief_claim h cls key baton st1 of (s, Inl e) \<Rightarrow> (s, Inl e) | (s, Inr _) \<Rightarrow> (s, Inr True))
         else if claim_holder_live h d \<and> \<not> brief_lease_expired h d then (st1, Inr False)
         else retake h k sid (asked_stage cls stage) st1)"
proof -
  obtain key base x where req: "cls \<noteq> []" "cls \<noteq> ARTIFACT_CLASS_PATH" "name \<noteq> []" "key_name cls name = Some key"
    "comps key = [x]" "claim_base h baton = Some base" "k = (base, cls, [x])"
    using assms(1) by (rule names_claimE)
  show thesis
  proof (rule that)
    show "key \<noteq> []" by (rule key_nonempty [OF req(5)])
  qed (simp only: claim_artifact_def Let_def asked_stage_def req assms(2) simp_thms if_False option.case fst_conv)
qed

lemma claim_dirs:
  assumes "names_claim h cls name baton k" and "obliging h"
  shows "make_claims_dir h (fst k) cls st k = st k"
    and "st k = None \<Longrightarrow> os_mkdir h k (make_claims_dir h (fst k) cls st) = Made ((make_claims_dir h (fst k) cls st)(k \<mapsto> empty_dir))"
    and "line_text sid \<Longrightarrow> stage \<in> {CLAIM_STAGE_BRIEF, CLAIM_STAGE_APPLY} \<Longrightarrow>
      snd (retake h k sid stage (make_claims_dir h (fst k) cls st)) = Inr True
      \<and> owner (fst (retake h k sid stage (make_claims_dir h (fst k) cls st))) k = Some (sid, stage)"
proof -
  obtain base x where k: "k = (base, cls, [x])" using assms(1) by (rule names_claimE)
  let ?st1 = "make_claims_dir h base cls st"
  have class_dir: "?st1 (base, cls, []) \<noteq> None"
    using assms(2) by (simp add: make_claims_dir_def obliging_def)
  show same: "make_claims_dir h (fst k) cls st k = st k" by (simp add: k make_claims_dir_def)
  show "os_mkdir h k (make_claims_dir h (fst k) cls st) = Made ((make_claims_dir h (fst k) cls st)(k \<mapsto> empty_dir))"
    if "st k = None"
    using os_mkdir_free [where st = ?st1 and b = base and c = cls and x = x and h = h] assms(2) class_dir same that k
    by simp
  show "snd (retake h k sid stage (make_claims_dir h (fst k) cls st)) = Inr True
      \<and> owner (fst (retake h k sid stage (make_claims_dir h (fst k) cls st))) k = Some (sid, stage)"
    if "line_text sid" "stage \<in> {CLAIM_STAGE_BRIEF, CLAIM_STAGE_APPLY}"
    using retake_owner [where st = ?st1 and b = base and c = cls and x = x and h = h, OF assms(2) that class_dir]
    by (simp add: k)
qed

lemma claim_held_result:
  assumes "names_claim h cls name baton k" and "obliging h" and "line_text (resolve_session_id h)"
    and "stage \<in> {CLAIM_STAGE_BRIEF, CLAIM_STAGE_APPLY}"
    and there: "st k = Some d" and sfile: "cd_files d ''session_id'' \<noteq> None"
  shows "(case acquire (may_reenter h cls d) (takeable h d) (resolve_session_id h) (asked_stage cls stage) (owner st k) of
      (held, granted) \<Rightarrow> owner (fst (claim_artifact h cls name baton stage st)) k = held
        \<and> snd (claim_artifact h cls name baton stage st) = Inr granted)"
proof -
  let ?sid = "resolve_session_id h" and ?st1 = "make_claims_dir h (fst k) cls st"
  have sid0: "?sid \<noteq> []" using assms(3) by (simp add: line_text_def)
  obtain key where key0: "key \<noteq> []" and step: "\<And>stage st. claim_artifact h cls name baton stage st =
    (let st1 = make_claims_dir h (fst k) cls st; sid = resolve_session_id h; d = dir_at st1 k in
     case os_mkdir h k st1 of
       Made st2 \<Rightarrow> write_claim_meta h k sid (asked_stage cls stage) None st2
     | Failed \<Rightarrow> (st1, Inr False)
     | Exists \<Rightarrow>
         if cls = ''plan'' \<and> held_by_self h d sid then (st1, Inr True)
         else if cls = ROW_CLAIM_CLASS \<and> held_by_self h d sid then
           (case touch_brief_claim h cls key baton st1 of (s, Inl e) \<Rightarrow> (s, Inl e) | (s, Inr _) \<Rightarrow> (s, Inr True))
         else if claim_holder_live h d \<and> \<not> brief_lease_expired h d then (st1, Inr False)
         else retake h k sid (asked_stage cls stage) st1)"
    using claim_artifact_at [OF assms(1) sid0] by blast
  have cls0: "cls \<noteq> []" using assms(1) by (simp add: names_claim_def)
  have same: "?st1 k = Some d" using claim_dirs(1) [OF assms(1,2)] there by simp
  have ex: "os_mkdir h k ?st1 = Exists" "dir_at ?st1 k = d" by (simp_all add: os_mkdir_def same dir_at_def)
  have stage1: "asked_stage cls stage \<in> {CLAIM_STAGE_BRIEF, CLAIM_STAGE_APPLY}"
    using assms(4) by (auto simp: asked_stage_def)
  note taken = claim_dirs(3) [OF assms(1,2,3) stage1, of st]
  have live: "claim_holder_live h d \<and> \<not> brief_lease_expired h d \<longleftrightarrow> \<not> takeable h d"
    using sfile by (simp add: claim_holder_live_def takeable_def)
  have self: "may_reenter h cls d \<longleftrightarrow> (cls = ''plan'' \<or> cls = ROW_CLAIM_CLASS) \<and> held_by_self h d ?sid"
    using held_by_self_ids [OF sfile sid0] by (auto simp: may_reenter_def)
  have owner: "owner ?st1 k = owner st k" "owner st k = Some (read_claim_field d ''session_id'', claim_stage d)"
    by (simp_all add: owner_def same there)
  have touch: "(case touch_brief_claim h c key baton s of (s', Inl e) \<Rightarrow> (s', Inl e) | (s', Inr _) \<Rightarrow> (s', Inr True)) =
      (fst (touch_brief_claim h c key baton s), Inr True)" if "c \<noteq> []" for c s
    using touch_no_error [OF that key0, of h baton s] by (auto split: prod.splits sum.splits)
  show ?thesis
    using taken owner_touch [of h cls key baton ?st1 k] owner
    by (cases "may_reenter h cls d"; cases "takeable h d") (auto simp: step Let_def ex live touch self cls0 ROW_CLAIM_CLASS_def)
qed

text \<open>C19. \<open>claim_artifact\<close> implements the lock: where the file system refuses nothing, it grants or refuses a claim
  and leaves it with an owner and a stage exactly as \<open>acquire\<close> says. A free artifact is granted; a plan or
  a row already held under one of the caller's ids is granted again and keeps its stage; a claim whose holder
  is not live, or whose reservation has outlived its lease, passes to the caller; any other is refused.\<close>

theorem claim_implements_lock:
  assumes "names_claim h cls name baton k" and "obliging h" and "line_text (resolve_session_id h)"
    and "stage \<in> {CLAIM_STAGE_BRIEF, CLAIM_STAGE_APPLY}"
    and proper: "st k = None \<or> cd_files (dir_at st k) ''session_id'' \<noteq> None"
    and run: "claim_artifact h cls name baton stage st = (st', r)"
  shows "(case acquire (may_reenter h cls (dir_at st k)) (takeable h (dir_at st k)) (resolve_session_id h)
             (asked_stage cls stage) (owner st k) of
           (held, granted) \<Rightarrow> owner st' k = held \<and> r = Inr granted)"
proof (cases "st k")
  case None
  have res: "st' = fst (claim_artifact h cls name baton stage st)" "r = snd (claim_artifact h cls name baton stage st)"
    by (simp_all add: run)
  have sid0: "resolve_session_id h \<noteq> []" using assms(3) by (simp add: line_text_def)
  have stage1: "asked_stage cls stage \<in> {CLAIM_STAGE_BRIEF, CLAIM_STAGE_APPLY}"
    using assms(4) by (auto simp: asked_stage_def)
  note made = claim_dirs(2) [where st = st, OF assms(1,2) None]
  have "owner st k = None" by (simp add: owner_def None)
  moreover have "claim_artifact h cls name baton stage st =
      write_claim_meta h k (resolve_session_id h) (asked_stage cls stage) None ((make_claims_dir h (fst k) cls st)(k \<mapsto> empty_dir))"
    by (rule claim_artifact_at [OF assms(1) sid0]) (simp only: Let_def made mkdir_result.case)
  ultimately show ?thesis
    using made_claim_owner [OF assms(2,3) stage1 made] by (simp add: res)
next
  case (Some d)
  then show ?thesis
    using claim_held_result [where st = st and d = d, OF assms(1-4) Some] proper run by (simp add: dir_at_def)
qed

end
