(* ===== verification/Claim_Peers.thy ===== *)
theory Claim_Peers
  imports Claim_Protocol
begin

text \<open>
  A session that holds a claim at the apply stage, and is live, keeps it through any sequence of claim
  operations of other sessions. The operations that look twice before they remove a directory are given
  a first reading taken at any earlier moment, so that the sequence covers every interleaving in which the
  second reading and the removal are not separated.
\<close>

section \<open>Operations as data\<close>

datatype claim_op =
    Claim string string string string
  | Touch string string string
  | Promote string string string
  | Demote string string string
  | Stamp claim_key
  | Fire claim_key
  | Relocate string string string string
  | Follow string string string
  | Release string string string "string option" claims
  | Relinquish string string string "string option"
  | Clear string string string caller claims
  | Take_Over string string string caller claims

fun run_op :: "caller \<Rightarrow> claim_op \<Rightarrow> claims \<Rightarrow> claims" where
  "run_op h (Claim cls name baton stage) st = fst (claim_artifact h cls name baton stage st)"
| "run_op h (Touch cls name baton) st = fst (touch_brief_claim h cls name baton st)"
| "run_op h (Promote cls name baton) st = fst (promote_claim_stage h cls name baton st)"
| "run_op h (Demote cls name baton) st = fst (demote_claim_stage_to_brief h cls name baton st)"
| "run_op h (Stamp k) st = fst (mark_claim_stamped h k st)"
| "run_op h (Fire k) st = fst (stamp_plan_claim_fired h k st)"
| "run_op h (Relocate cls old_name new_name baton) st = fst (relocate_artifact_claim h cls old_name new_name baton st)"
| "run_op h (Follow sid old_name new_name) st = fst (follow_handoff_claim h sid old_name new_name st)"
| "run_op h (Release cls name baton my_sid before) st = fst (release_between h cls name baton my_sid before st)"
| "run_op h (Relinquish cls name baton my_sid) st = fst (release_or_relinquish_artifact h cls name baton my_sid st)"
| "run_op h (Clear cls name baton h0 before) st = fst (clear_between h0 h cls name baton before st)"
| "run_op h (Take_Over name justification baton h0 before) st =
     fst (take_over_between h0 h name justification baton before st)"

definition run_ops :: "(caller \<times> claim_op) list \<Rightarrow> claims \<Rightarrow> claims" where
  "run_ops = fold (\<lambda>(h, op). run_op h op)"

text \<open>
  What a sequence of operations owes to each of its members: a property that every admissible operation
  keeps is kept by every sequence of them.
\<close>

locale kept_by_each =
  fixes run :: "'op \<Rightarrow> 'state \<Rightarrow> 'state"
    and admissible :: "'op \<Rightarrow> bool"
    and kept :: "'state \<Rightarrow> bool"
  assumes keeps: "admissible op \<Longrightarrow> kept st \<Longrightarrow> kept (run op st)"
begin

lemma kept_by_all: "list_all admissible ops \<Longrightarrow> kept st \<Longrightarrow> kept (fold run ops st)"
  by (induction ops arbitrary: st) (simp_all add: keeps)

end

section \<open>Peers\<close>

text \<open>The claim \<open>k\<close> is the session's at the apply stage, and no marker says it has been given up.\<close>

definition holds :: "claims \<Rightarrow> claim_key \<Rightarrow> string \<Rightarrow> bool" where
  "holds st k s =
     (case st k of
        None \<Rightarrow> False
      | Some d \<Rightarrow> cd_files d ''session_id'' \<noteq> None \<and> read_claim_field d ''session_id'' = s
          \<and> claim_stage d = CLAIM_STAGE_APPLY \<and> read_relinquishment_marker d s = None)"

text \<open>A process that knows itself under other names than \<open>s\<close>.\<close>

definition stranger :: "string \<Rightarrow> caller \<Rightarrow> bool" where
  "stranger s h = (s \<notin> set (my_ids h))"

text \<open>What this caller sees: the session is live, and no handoff says that it gave up \<open>k\<close>.\<close>

definition sees_live :: "claim_key \<Rightarrow> string \<Rightarrow> caller \<Rightarrow> bool" where
  "sees_live k s h =
     (session_live h s \<and>
      (case h_handoffs h (fst k) of None \<Rightarrow> True | Some files \<Rightarrow> list_all (\<lambda>f. \<not> names_holder k s (hf_text f)) files))"

text \<open>A name with at least one component.\<close>

definition proper_name :: "string \<Rightarrow> string \<Rightarrow> bool" where
  "proper_name cls name = (case key_name cls name of None \<Rightarrow> True | Some key \<Rightarrow> comps key \<noteq> [])"

text \<open>
  An operation that names artifacts by proper names, does not pass the holder's id off as its own, and
  does not rename the artifact the claim is on.
\<close>

fun well_behaved :: "claim_key \<Rightarrow> string \<Rightarrow> caller \<Rightarrow> claim_op \<Rightarrow> bool" where
  "well_behaved k s h (Claim cls name baton stage) = proper_name cls name"
| "well_behaved k s h (Relocate cls old_name new_name baton) =
     (claim_dir_for h cls old_name baton \<noteq> Some k \<and> comps old_name \<noteq> [] \<and> comps new_name \<noteq> [])"
| "well_behaved k s h (Follow sid old_name new_name) = (sid \<noteq> s \<and> comps old_name \<noteq> [] \<and> comps new_name \<noteq> [])"
| "well_behaved k s h (Release cls name baton my_sid before) = (proper_name cls name \<and> my_sid \<noteq> Some s)"
| "well_behaved k s h (Relinquish cls name baton my_sid) = (proper_name cls name \<and> my_sid \<noteq> Some s)"
| "well_behaved k s h (Clear cls name baton h0 before) = proper_name cls name"
| "well_behaved k s h (Take_Over name justification baton h0 before) = (comps name \<noteq> [])"
| "well_behaved k s h _ = True"

section \<open>Each operation spares the claim\<close>

lemma holds_same: "st' k = st k \<Longrightarrow> holds st k s \<Longrightarrow> holds st' k s"
  by (simp add: holds_def)

lemma holdsE:
  assumes "holds st k s"
  obtains d where "st k = Some d" "cd_files d ''session_id'' \<noteq> None" "read_claim_field d ''session_id'' = s"
    "claim_stage d = CLAIM_STAGE_APPLY" "read_relinquishment_marker d s = None"
  using assms by (auto simp: holds_def split: option.splits)

lemma stranger_ids:
  assumes "stranger s h"
  shows "resolve_session_id h \<noteq> s" "s \<notin> set (session_env_candidates h)" "s \<noteq> [] \<Longrightarrow> attributable_session_id h \<noteq> s"
  using assms by (auto simp: stranger_def my_ids_def attributable_session_id_def carried_session_id_def
      resolve_session_id_def split: if_splits)

lemma not_held_by_peer:
  assumes "cd_files d ''session_id'' \<noteq> None" and "read_claim_field d ''session_id'' = s" and "s \<noteq> []"
    and "stranger s h" and "my \<noteq> s"
  shows "\<not> claim_held_by_me h d my"
  using assms stranger_ids [OF assms(4)] by (auto simp: claim_held_by_me_def Let_def)

lemma not_self:
  assumes "cd_files d ''session_id'' \<noteq> None" and "read_claim_field d ''session_id'' = s" and "s \<noteq> []"
    and "stranger s h"
  shows "\<not> held_by_self h d (resolve_session_id h)"
  using not_held_by_peer [OF assms] stranger_ids [OF assms(4)] assms(2) by (auto simp: held_by_self_def)

lemma apply_never_expires: "claim_stage d = CLAIM_STAGE_APPLY \<Longrightarrow> \<not> brief_lease_expired h d"
  by (simp add: brief_lease_expired_def)

lemma key_apart: "p \<noteq> [] \<Longrightarrow> (b', c', p) \<noteq> (b, c, [x]) \<Longrightarrow> \<not> inside (b', c', p) (b, c, [x])"
  by (auto simp: inside_one)

lemma fst_keep:
  "fst (case r of (s, Inl e) \<Rightarrow> (s, Inl e) | (s, Inr b) \<Rightarrow> (s, Inr True)) = fst (r :: bool claim_outcome)"
  by (cases r; cases "snd r") auto

lemma claim_frame:
  assumes key: "key_name cls name = Some key" and base: "claim_base h baton = Some base"
    and out: "\<not> inside (base, cls, comps key) q" and there: "st q \<noteq> None"
  shows "fst (claim_artifact h cls name baton stage st) q = st q"
proof (cases "cls = [] \<or> name = [] \<or> cls = ARTIFACT_CLASS_PATH \<or> resolve_session_id h = []")
  case True
  then show ?thesis by (auto simp: claim_artifact_def Let_def key)
next
  case False
  let ?k = "(base, cls, comps key)" and ?st1 = "make_claims_dir h base cls st"
  have same: "?st1 q = st q" by (rule make_claims_dir_frame) (rule there)
  have neq: "q \<noteq> ?k" using out by auto
  have touch: "fst (touch_brief_claim h cls key baton ?st1) q = ?st1 q"
    by (rule touch_frame) (use neq in \<open>auto simp: claim_dir_for_def base\<close>)
  show ?thesis
  proof (cases "os_mkdir h ?k ?st1")
    case (Made st2)
    then show ?thesis
      using False key base same os_mkdir_frame [OF Made neq] write_claim_meta_frame [OF neq]
      by (simp add: claim_artifact_def Let_def)
  next
    case Exists
    then show ?thesis
      using False key base same touch retake_frame [OF out]
      by (auto simp: claim_artifact_def Let_def fst_keep)
  next
    case Failed
    then show ?thesis
      using False key base same by (simp add: claim_artifact_def Let_def)
  qed
qed

lemma claim_spares:
  assumes k: "k = (b, c, [x])" and held: "holds st k s" and "s \<noteq> []" and "stranger s h" and "session_live h s"
    and name: "proper_name cls name"
  shows "fst (claim_artifact h cls name baton stage st) k = st k"
proof -
  obtain d where d: "st k = Some d" "cd_files d ''session_id'' \<noteq> None" "read_claim_field d ''session_id'' = s"
    "claim_stage d = CLAIM_STAGE_APPLY" using held by (rule holdsE)
  have same: "make_claims_dir h base cls st k = st k" for base
    by (rule make_claims_dir_frame) (simp add: d)
  have mine: "\<not> held_by_self h d (resolve_session_id h)" by (rule not_self [OF d(2,3) assms(3,4)])
  have live: "claim_holder_live h d" using d(2,3) assms(5) by (simp add: claim_holder_live_def)
  have fresh: "\<not> brief_lease_expired h d" by (rule apply_never_expires [OF d(4)])
  have spare: "fst (claim_artifact h cls name baton stage st) k = st k"
    if key: "key_name cls name = Some key" and base: "claim_base h baton = Some base" for key base
  proof (cases "(base, cls, comps key) = k")
    case True
    have "os_mkdir h k (make_claims_dir h base cls st) = Exists" "dir_at (make_claims_dir h base cls st) k = d"
      by (simp_all add: os_mkdir_def dir_at_def same d)
    then show ?thesis
      using mine live fresh key base True same by (simp add: claim_artifact_def Let_def)
  next
    case False
    have "comps key \<noteq> []" using name key by (simp add: proper_name_def)
    then have out: "\<not> inside (base, cls, comps key) k" using False unfolding k by (rule key_apart)
    show ?thesis by (rule claim_frame [OF key base out]) (simp add: d)
  qed
  show ?thesis
  proof (cases "key_name cls name = None \<or> claim_base h baton = None")
    case True
    then show ?thesis by (auto simp: claim_artifact_def Let_def split: option.splits)
  qed (use spare in auto)
qed

lemma touch_spares:
  assumes held: "holds st k s" and "s \<noteq> []" and "stranger s h"
  shows "fst (touch_brief_claim h cls name baton st) k = st k"
proof (cases "claim_dir_for h cls name baton = Some k")
  case True
  obtain d where d: "st k = Some d" "cd_files d ''session_id'' \<noteq> None" "read_claim_field d ''session_id'' = s"
    using held by (rule holdsE)
  have "\<not> claim_held_by_me h d (resolve_session_id h)"
    using not_held_by_peer [OF d(2,3) assms(2,3)] stranger_ids [OF assms(3)] by blast
  then show ?thesis using True d(1) by (simp add: touch_brief_claim_def Let_def)
qed (auto intro: touch_frame)

lemma set_stage_spares:
  assumes held: "holds st k s" and "s \<noteq> []" and "stranger s h"
  shows "fst (set_claim_stage stage h cls name baton st) k = st k"
proof (cases "claim_dir_for h cls name baton = Some k")
  case True
  obtain d where d: "st k = Some d" "cd_files d ''session_id'' \<noteq> None" "read_claim_field d ''session_id'' = s"
    using held by (rule holdsE)
  have "\<not> claim_held_by_me h d (resolve_session_id h)"
    using not_held_by_peer [OF d(2,3) assms(2,3)] stranger_ids [OF assms(3)] by blast
  then show ?thesis using True d(1) by (simp add: set_claim_stage_def Let_def)
qed (auto intro: set_stage_frame)

lemma mark_spares:
  assumes held: "holds st k s" and "f \<noteq> ''session_id''" and "f \<noteq> ''stage''"
  shows "holds (fst (mark_file f h k' st)) k s"
proof (cases "k' = k")
  case True
  obtain d where d: "st k = Some d" "cd_files d ''session_id'' \<noteq> None" "read_claim_field d ''session_id'' = s"
    "claim_stage d = CLAIM_STAGE_APPLY" "read_relinquishment_marker d s = None" using held by (rule holdsE)
  let ?d = "d\<lparr>cd_files := (cd_files d)(f \<mapsto> text_line (h_now_iso h))\<rparr>"
  have "read_claim_field ?d ''session_id'' = s" "claim_stage ?d = CLAIM_STAGE_APPLY"
    "read_relinquishment_marker ?d s = None" "cd_files ?d ''session_id'' \<noteq> None"
    using d assms(2,3) by (simp_all add: read_claim_field_def claim_stage_def read_relinquishment_marker_def)
  then show ?thesis
    using held d(1) by (simp add: mark_file_def write_field_def True holds_def)
next
  case False
  then show ?thesis
    using held by (intro holds_same [OF _ held])
      (auto simp: mark_file_def write_field_frame split: option.splits)
qed

lemma move_frame:
  assumes "\<not> inside k q" and "\<not> inside k' q"
  shows "move_dir k k' st q = st q"
  using assms by (cases k; cases k') (simp add: move_dir_def)

lemma relocate_spares:
  assumes k: "k = (b, c, [x])" and there: "st k \<noteq> None"
    and old: "claim_dir_for h cls old_name baton \<noteq> Some k" and names: "comps old_name \<noteq> []" "comps new_name \<noteq> []"
  shows "fst (relocate_artifact_claim h cls old_name new_name baton st) k = st k"
proof (cases "claim_base h baton")
  case None
  then show ?thesis by (simp add: relocate_artifact_claim_def)
next
  case (Some base)
  let ?o = "(base, cls, comps old_name)" and ?n = "(base, cls, comps new_name)"
  have "\<not> inside ?o k"
    using old names(1) Some unfolding k claim_dir_for_def by (intro key_apart) auto
  moreover have "\<not> inside ?n k" if "st ?n = None"
    using that there names(2) unfolding k by (intro key_apart) auto
  ultimately show ?thesis
    by (auto simp: relocate_artifact_claim_def Let_def Some move_frame)
qed

lemma follow_spares:
  assumes k: "k = (b, c, [x])" and held: "holds st k s" and "sid \<noteq> s"
    and names: "comps old_name \<noteq> []" "comps new_name \<noteq> []"
  shows "fst (follow_handoff_claim h sid old_name new_name st) k = st k"
proof (cases "claim_base h []")
  case None
  then show ?thesis by (simp add: follow_handoff_claim_def)
next
  case (Some base)
  obtain d where d: "st k = Some d" "read_claim_field d ''session_id'' = s" using held by (rule holdsE)
  let ?o = "(base, ''handoff'', comps old_name)"
  show ?thesis
  proof (cases "?o = k")
    case True
    then show ?thesis
      using d assms(3) by (simp add: follow_handoff_claim_def Let_def Some dir_at_def)
  next
    case False
    then have "rmtree h ?o st k = st k"
      using names(1) unfolding k by (intro rmtree_frame key_apart) auto
    moreover have "fst (relocate_artifact_claim h ''handoff'' old_name new_name [] st) k = st k"
      by (rule relocate_spares [OF k _ _ names]) (use d False in \<open>auto simp: claim_dir_for_def Some\<close>)
    ultimately show ?thesis by (simp add: follow_handoff_claim_def Let_def Some)
  qed
qed

lemma key_of_request:
  assumes "key_name cls name = Some key" and "claim_dir_for h cls key baton = Some k'"
    and "proper_name cls name" and "k = (b, c, [x])" and "k' \<noteq> k"
  shows "\<not> inside k' k"
  using assms by (auto simp: claim_dir_for_def proper_name_def inside_one split: option.splits)

lemma release_spares:
  assumes k: "k = (b, c, [x])" and held: "holds st k s" and "s \<noteq> []" and "stranger s h"
    and name: "proper_name cls name" and "my_sid \<noteq> Some s"
  shows "fst (release_between h cls name baton my_sid before st) k = st k"
proof -
  obtain d where d: "st k = Some d" "cd_files d ''session_id'' \<noteq> None" "read_claim_field d ''session_id'' = s"
    using held by (rule holdsE)
  let ?my = "case my_sid of None \<Rightarrow> resolve_session_id h | Some i \<Rightarrow> i"
  have "?my \<noteq> s" using assms(6) stranger_ids [OF assms(4)] by (auto split: option.splits)
  then have mine: "\<not> claim_held_by_me h d ?my" by (rule not_held_by_peer [OF d(2,3) assms(3,4)])
  show ?thesis
  proof (cases "\<exists>key. key_name cls name = Some key \<and> claim_dir_for h cls key baton = Some k")
    case True
    then show ?thesis using mine d(1) by (auto simp: release_between_def Let_def dir_at_def)
  next
    case False
    have "rmtree h k' st k = st k"
      if "key_name cls name = Some key" "claim_dir_for h cls key baton = Some k'" for key k'
      by (rule rmtree_frame, rule key_of_request [OF that name k]) (use that False in auto)
    then show ?thesis by (auto simp: release_between_def Let_def split: option.splits)
  qed
qed

lemma relinquish_spares:
  assumes k: "k = (b, c, [x])" and held: "holds st k s" and "s \<noteq> []" and "stranger s h"
    and name: "proper_name cls name" and "my_sid \<noteq> Some s"
  shows "fst (release_or_relinquish_artifact h cls name baton my_sid st) k = st k"
proof -
  let ?r = "release_artifact h cls name baton my_sid st"
  have "fst ?r k = st k"
    using release_spares [OF assms] by (auto simp: release_artifact_def release_artifact_outcome_def
        split: prod.splits sum.splits) (metis fst_conv)+
  moreover have "fst (release_or_relinquish_artifact h cls name baton my_sid st) k = fst ?r k"
  proof (cases "claim_dir_for h cls name baton = Some k")
    case True
    obtain d where d: "st k = Some d" "read_claim_field d ''session_id'' = s" using held by (rule holdsE)
    then have "fst ?r k = Some d" by (simp add: \<open>fst ?r k = st k\<close>)
    then show ?thesis
      using True d(2) assms(6) stranger_ids [OF assms(4)]
      by (cases ?r; cases "snd ?r") (auto simp: release_or_relinquish_artifact_def Let_def)
  next
    case False
    then show ?thesis
      by (cases ?r; cases "snd ?r") (auto simp: release_or_relinquish_artifact_def Let_def split: option.splits)
  qed
  ultimately show ?thesis by simp
qed

lemma clear_spares:
  assumes k: "k = (b, c, [x])" and held: "holds st k s" and "session_live h s" and name: "proper_name cls name"
  shows "fst (clear_between h0 h cls name baton before st) k = st k"
proof -
  obtain d where d: "st k = Some d" "cd_files d ''session_id'' \<noteq> None" "read_claim_field d ''session_id'' = s"
    using held by (rule holdsE)
  have live: "claim_holder_live h d" using d assms(3) by (simp add: claim_holder_live_def)
  show ?thesis
  proof (cases "\<exists>key. key_name cls name = Some key \<and> claim_dir_for h0 cls key baton = Some k")
    case True
    then show ?thesis using live d(1) by (auto simp: clear_between_def dir_at_def)
  next
    case False
    have "rmtree h k' st k = st k"
      if "key_name cls name = Some key" "claim_dir_for h0 cls key baton = Some k'" for key k'
      by (rule rmtree_frame, rule key_of_request [OF that name k]) (use that False in auto)
    then show ?thesis by (auto simp: clear_between_def split: option.splits)
  qed
qed

lemma no_evidence_left:
  assumes "sees_live k s h" and "read_relinquishment_marker d s = None"
  shows "\<not> evidence_still_holds h k d e s"
proof (cases e)
  case (Derived holder path)
  show ?thesis
  proof (cases "h_handoffs h (fst k)")
    case (Some files)
    have "\<not> names_holder k s (hf_text f)" if "find (\<lambda>f. hf_path f = path) files = Some f" for f
      using that assms(1) Some by (auto simp: sees_live_def list_all_iff find_Some_iff)
    then show ?thesis using Derived Some by (auto simp: evidence_still_holds_def split: option.splits)
  qed (simp add: Derived evidence_still_holds_def)
qed (use assms(2) in \<open>simp add: evidence_still_holds_def\<close>)

lemma take_over_spares:
  assumes k: "k = (b, c, [x])" and held: "holds st k s" and "sees_live k s h" and name: "comps name \<noteq> []"
  shows "fst (take_over_between h0 h name justification baton before st) k = st k"
proof -
  obtain d where d: "st k = Some d" "read_claim_field d ''session_id'' = s" "read_relinquishment_marker d s = None"
    using held by (rule holdsE)
  note refuse = no_evidence_left [OF assms(3) d(3)]
  have out: "\<not> inside k' k" if "claim_dir_for h0 ''plan'' name baton = Some k'" "k' \<noteq> k" for k'
    using that name unfolding k by (auto simp: claim_dir_for_def inside_one split: option.splits)
  have away: "fst (case os_mkdir h k' (rmtree h k' st) of
       Made st2 \<Rightarrow> write_claim_meta h k' sid CLAIM_STAGE_APPLY t st2
     | Exists \<Rightarrow> (rmtree h k' st, Inr False) | Failed \<Rightarrow> (rmtree h k' st, Inl OS_Error)) k = st k"
    if "\<not> inside k' k" for k' sid t
    using that by (auto simp: rmtree_frame os_mkdir_frame write_claim_meta_frame not_inside_neq
        split: mkdir_result.splits)
  show ?thesis
  proof (cases "claim_dir_for h0 ''plan'' name baton")
    case None
    then show ?thesis by (simp add: take_over_between_def Let_def)
  next
    case (Some k')
    show ?thesis
    proof (cases "k' = k")
      case True
      then show ?thesis
        using d refuse Some by (auto simp: take_over_between_def Let_def split: option.splits)
    next
      case False
      note gone = away [OF out [OF Some False]]
      show ?thesis
        by (auto simp: take_over_between_def Let_def Some gone split: option.splits simp del: split_paired_All)
    qed
  qed
qed

section \<open>Any sequence of operations\<close>

lemma op_spares:
  assumes k: "k = (b, c, [x])" and held: "holds st k s" and "s \<noteq> []" and "stranger s h" and "sees_live k s h"
    and "well_behaved k s h op"
  shows "holds (run_op h op st) k s"
proof -
  have live: "session_live h s" using assms(5) by (simp add: sees_live_def)
  have there: "st k \<noteq> None" using held by (auto elim: holdsE)
  note same = holds_same [OF _ held]
  show ?thesis
  proof (cases op)
    case (Claim cls name baton stage)
    then show ?thesis using assms(6) by (auto intro: same claim_spares [OF k held assms(3,4) live])
  next
    case (Touch cls name baton)
    then show ?thesis by (auto intro: same touch_spares [OF held assms(3,4)])
  next
    case (Promote cls name baton)
    then show ?thesis by (auto simp: promote_claim_stage_def intro: same set_stage_spares [OF held assms(3,4)])
  next
    case (Demote cls name baton)
    then show ?thesis
      by (auto simp: demote_claim_stage_to_brief_def intro: same set_stage_spares [OF held assms(3,4)])
  next
    case (Stamp k')
    then show ?thesis by (auto simp: mark_claim_stamped_def intro: mark_spares [OF held])
  next
    case (Fire k')
    then show ?thesis by (auto simp: stamp_plan_claim_fired_def intro: mark_spares [OF held])
  next
    case (Relocate cls old_name new_name baton)
    then show ?thesis using assms(6) by (auto intro!: same relocate_spares [OF k] there)
  next
    case (Follow sid old_name new_name)
    then show ?thesis using assms(6) by (auto intro: same follow_spares [OF k held])
  next
    case (Release cls name baton my_sid before)
    then show ?thesis using assms(6) by (auto intro: same release_spares [OF k held assms(3,4)])
  next
    case (Relinquish cls name baton my_sid)
    then show ?thesis using assms(6) by (auto intro: same relinquish_spares [OF k held assms(3,4)])
  next
    case (Clear cls name baton h0 before)
    then show ?thesis using assms(6) by (auto intro: same clear_spares [OF k held live])
  next
    case (Take_Over name justification baton h0 before)
    then show ?thesis using assms(6) by (auto intro: same take_over_spares [OF k held assms(5)])
  qed
qed

text \<open>An operation of a peer, as it is run by a caller that sees the holder live.\<close>

definition peer_op :: "claim_key \<Rightarrow> string \<Rightarrow> caller \<times> claim_op \<Rightarrow> bool" where
  "peer_op k s = (\<lambda>(h, op). stranger s h \<and> sees_live k s h \<and> well_behaved k s h op)"

interpretation held_claim: kept_by_each "\<lambda>(h, op). run_op h op" "\<lambda>hop. s \<noteq> [] \<and> peer_op (b, c, [x]) s hop"
    "\<lambda>st. holds st (b, c, [x]) s" for s b c x
  by unfold_locales (auto simp: peer_op_def intro: op_spares)

text \<open>C18. A session that holds a claim at the apply stage keeps it through any sequence of claims, lease and stage
  changes, stamps, renames, releases, relinquishments, clearings and takeovers of its peers: the directory still names the
  session at the apply stage. A peer is a process that knows itself under other ids, sees the session live and finds no
  handoff that says the session gave the artifact up; its operations name artifacts by names with at least one component
  (a peer that claims a single dot would take the directory above all claims), do not pass the session's id off as
  their own and do not rename the artifact itself. The first readings of the operations that read twice may be arbitrarily
  old.\<close>

theorem live_claim_survives:
  assumes k: "k = (b, c, [x])" and "holds st k s" and "s \<noteq> []"
    and "list_all (peer_op k s) ops"
  shows "holds (run_ops ops st) k s"
  using held_claim.kept_by_all [of s b c x ops st] assms by (simp add: run_ops_def)

section \<open>An example\<close>

text \<open>A process whose environment names a session; every session was active a second ago.\<close>

definition ex_caller :: "int \<Rightarrow> string \<Rightarrow> caller" where
  "ex_caller pid sid =
     \<lparr>h_pid = pid, h_env = (\<lambda>v. if v = ''CLAUDE_SESSION_ID'' then sid else []), h_override = [], h_warm = False,
      h_now = 100000, h_now_iso = ''1970-01-02T03:46:40Z'', h_sessions_dir = ''/r/.git/coordinator-sessions'',
      h_git_root = (\<lambda>_. False), h_registry = None, h_cached = None, h_proc_start = (\<lambda>_. None), h_birth = (\<lambda>_. Gone),
      h_running = (\<lambda>_. False), h_strptime = (\<lambda>_. None),
      h_fromiso = (\<lambda>t. if t = ''1970-01-02T03:46:40'' then Some 100000 else if t = ''1970-01-01T23:20:00'' then Some 84000
        else None),
      h_float = (\<lambda>_. None), h_str = (\<lambda>_. []), h_meta = (\<lambda>_. None), h_sdir = (\<lambda>_. Some (99999, [])),
      h_lease = 240, h_handoffs = (\<lambda>_. Some []), h_mkdir_denied = (\<lambda>_. False), h_write_denied = (\<lambda>_ _. False),
      h_rm_denied = (\<lambda>_. False), h_rename_denied = (\<lambda>_. False)\<rparr>"

definition ex_hub :: string where "ex_hub = ''/r/.git/coordinator-sessions''"

definition ex_claim_dir :: "string \<Rightarrow> string \<Rightarrow> string \<Rightarrow> claim_dir" where
  "ex_claim_dir sid claimed_at stage =
     \<lparr>cd_files = [''pid'' \<mapsto> text_line ''7'', ''session_id'' \<mapsto> text_line sid, ''claimed_at'' \<mapsto> text_line claimed_at,
        ''stage'' \<mapsto> text_line stage], cd_marker = None\<rparr>"

lemma ex_caller_ids: "sid \<noteq> [] \<Longrightarrow> resolve_session_id (ex_caller pid sid) = sid"
  "set (session_env_candidates (ex_caller pid sid)) \<subseteq> {sid}"
  by (auto simp: resolve_session_id_def session_env_candidates_def ex_caller_def SESSION_ENV_PRECEDENCE_def)

lemma ex_caller_live: "sid \<noteq> [] \<Longrightarrow> session_live (ex_caller pid me) sid"
  by (simp add: session_live_def decide_session_live_def registry_confirms_def cached_registry_lookup_def snapshot_def
      has_session_dir_def read_meta_field_def recency_verdict_def dir_recency_fallback_epoch_def is_session_live_def
      THIRTY_MIN_def ex_caller_def Let_def)

lemma ex_claim_dir_fields [simp]:
  "line_text sid \<Longrightarrow> read_claim_field (ex_claim_dir sid t stage) ''session_id'' = sid"
  "line_text stage \<Longrightarrow> read_claim_field (ex_claim_dir sid t stage) ''stage'' = stage"
  "line_text t \<Longrightarrow> read_claim_field (ex_claim_dir sid t stage) ''claimed_at'' = t"
  "cd_files (ex_claim_dir sid t stage) ''session_id'' = Some (text_line sid)" "cd_marker (ex_claim_dir sid t stage) = None"
  by (simp_all add: ex_claim_dir_def read_back)

theorem live_claim_survives_witness:
  "holds (run_ops [(ex_caller 11 ''bob'', Claim ''plan'' ''p'' [] CLAIM_STAGE_APPLY),
                   (ex_caller 11 ''bob'', Clear ''plan'' ''p'' [] (ex_caller 11 ''bob'') Map.empty),
                   (ex_caller 12 ''eve'', Release ''plan'' ''p'' [] None Map.empty),
                   (ex_caller 12 ''eve'', Take_Over ''p'' ''stuck'' [] (ex_caller 12 ''eve'') Map.empty)]
           [(ex_hub, ''plan'', []) \<mapsto> empty_dir,
            (ex_hub, ''plan'', [''p'']) \<mapsto> ex_claim_dir ''alice'' ''1970-01-02T03:46:40Z'' CLAIM_STAGE_APPLY])
     (ex_hub, ''plan'', [''p'']) ''alice''"
proof (rule live_claim_survives [OF refl])
  have plain: "line_text ''alice''" by (simp add: line_text_def is_space_def)
  show "holds [(ex_hub, ''plan'', []) \<mapsto> empty_dir,
      (ex_hub, ''plan'', [''p'']) \<mapsto> ex_claim_dir ''alice'' ''1970-01-02T03:46:40Z'' CLAIM_STAGE_APPLY]
     (ex_hub, ''plan'', [''p'']) ''alice''"
    by (simp add: holds_def plain claim_stage_def read_relinquishment_marker_def)
  have "stranger ''alice'' (ex_caller pid sid)" if "sid \<noteq> ''alice''" "sid \<noteq> []" for pid sid
    using ex_caller_ids [where sid = sid and pid = pid] that by (auto simp: stranger_def my_ids_def)
  moreover have "sees_live k ''alice'' (ex_caller pid sid)" for k pid sid
    using ex_caller_live [where sid = "''alice''" and pid = pid and me = sid] by (simp add: sees_live_def ex_caller_def)
  moreover have "comps ''p'' \<noteq> []" by (simp add: comps_def)
  ultimately show "list_all (peer_op (ex_hub, ''plan'', [''p'']) ''alice'')
    [(ex_caller 11 ''bob'', Claim ''plan'' ''p'' [] CLAIM_STAGE_APPLY),
     (ex_caller 11 ''bob'', Clear ''plan'' ''p'' [] (ex_caller 11 ''bob'') Map.empty),
     (ex_caller 12 ''eve'', Release ''plan'' ''p'' [] None Map.empty),
     (ex_caller 12 ''eve'', Take_Over ''p'' ''stuck'' [] (ex_caller 12 ''eve'') Map.empty)]"
    by (simp add: peer_op_def proper_name_def key_name_def ROW_CLAIM_CLASS_def)
qed simp

end
