(* ===== verification/Claim_Race.thy ===== *)
theory Claim_Race
  imports Claim_Peers
begin

text \<open>
  Several processes in \<open>claim_artifact\<close> on one artifact, interleaved at the file system calls: the two
  \<open>mkdir\<close>, each metadata file, the readings of the holder, the refreshing of a lease and the removal of a stale
  directory. A process acts on what it read earlier. Plans and rows have a re-entry branch: who finds the claim
  to be its own is told success without making the directory (\<open>Rejoined\<close>).
\<close>

section \<open>Steps\<close>

datatype progress =
    Start
  | Writing "(string \<times> string) list"
  | Look
  | Recall string
  | Refresh
  | Restamp
  | Rejoined
  | Inspect
  | Judge bool
  | Condemned
  | Retake
  | Returned bool
  | Raised

definition reentrant :: "string \<Rightarrow> bool" where
  "reentrant cls = (cls = ''plan'' \<or> cls = ROW_CLAIM_CLASS)"

text \<open>\<open>Recall\<close> holds the session that was read from the directory; \<open>Refresh\<close> and \<open>Restamp\<close> are \<open>touch_brief_claim\<close>, whose
  result is ignored.\<close>

fun advance :: "caller \<Rightarrow> claim_key \<Rightarrow> string \<Rightarrow> claims \<Rightarrow> progress \<Rightarrow> claims \<times> progress" where
  "advance h k stage st Start =
     (if fst (snd k) = ARTIFACT_CLASS_PATH \<or> resolve_session_id h = [] then (st, Returned False)
      else (case os_mkdir h k st of
        Made st' \<Rightarrow> (st', Writing (claim_meta h (resolve_session_id h) stage None))
      | Exists \<Rightarrow> (st, if reentrant (fst (snd k)) then Look else Inspect)
      | Failed \<Rightarrow> (st, Returned False)))"
| "advance h k stage st (Writing []) = (st, Returned True)"
| "advance h k stage st (Writing ((f, t) # rest)) =
     (case write_field h k f t st of None \<Rightarrow> (st, Raised) | Some st' \<Rightarrow> (st', Writing rest))"
| "advance h k stage st Look = (st, Recall (read_claim_field (dir_at st k) ''session_id''))"
| "advance h k stage st (Recall held_sid) =
     (st, if claim_held_by_me h (dir_at st k) (resolve_session_id h)
             \<or> (held_sid \<noteq> [] \<and> held_sid \<in> set (session_env_candidates h))
          then (if fst (snd k) = ''plan'' then Rejoined else Refresh) else Inspect)"
| "advance h k stage st Refresh =
     (st, if st k \<noteq> None \<and> claim_held_by_me h (dir_at st k) (resolve_session_id h)
             \<and> claim_stage (dir_at st k) = CLAIM_STAGE_BRIEF then Restamp else Rejoined)"
| "advance h k stage st Restamp =
     (case write_field h k ''claimed_at'' (text_line (h_now_iso h)) st of None \<Rightarrow> (st, Rejoined) | Some st' \<Rightarrow> (st', Rejoined))"
| "advance h k stage st Rejoined = (st, Rejoined)"
| "advance h k stage st Inspect = (st, Judge (brief_lease_expired h (dir_at st k)))"
| "advance h k stage st (Judge expired) =
     (st, if claim_holder_live h (dir_at st k) \<and> \<not> expired then Returned False else Condemned)"
| "advance h k stage st Condemned = (rmtree h k st, Retake)"
| "advance h k stage st Retake =
     (case os_mkdir h k st of
        Made st' \<Rightarrow> (st', Writing (claim_meta h (resolve_session_id h) stage None))
      | _ \<Rightarrow> (st, Returned False))"
| "advance h k stage st (Returned b) = (st, Returned b)"
| "advance h k stage st Raised = (st, Raised)"

text \<open>
  The states that processes \<open>0, 1, \<dots>\<close> reach from a store and a point in each of them, with the number of
  removals on the way.
\<close>

inductive race ::
  "(nat \<Rightarrow> caller) \<Rightarrow> claim_key \<Rightarrow> string \<Rightarrow> claims \<Rightarrow> (nat \<Rightarrow> progress) \<Rightarrow> claims \<Rightarrow> (nat \<Rightarrow> progress) \<Rightarrow> nat \<Rightarrow> bool"
  for H k stage st0 pc0 where
  here: "race H k stage st0 pc0 st0 pc0 0"
| step: "race H k stage st0 pc0 st pc n \<Longrightarrow> advance (H i) k stage st (pc i) = (st', p) \<Longrightarrow>
    race H k stage st0 pc0 st' (pc(i := p)) (if pc i = Condemned then Suc n else n)"

inductive_cases raceE: "race H k stage st0 pc0 st pc n"

text \<open>The run that a schedule, a list of process numbers, gives.\<close>

fun follow_schedule ::
  "(nat \<Rightarrow> caller) \<Rightarrow> claim_key \<Rightarrow> string \<Rightarrow> nat list \<Rightarrow> claims \<Rightarrow> (nat \<Rightarrow> progress) \<Rightarrow> claims \<times> (nat \<Rightarrow> progress)" where
  "follow_schedule H k stage [] st pc = (st, pc)"
| "follow_schedule H k stage (i # sch) st pc =
     (case advance (H i) k stage st (pc i) of (st', p) \<Rightarrow> follow_schedule H k stage sch st' (pc(i := p)))"

lemma schedule_race:
  "race H k stage st0 pc0 st pc n \<Longrightarrow> follow_schedule H k stage sch st pc = (st', pc') \<Longrightarrow>
    \<exists>m. race H k stage st0 pc0 st' pc' m"
proof (induction H k stage sch st pc arbitrary: n rule: follow_schedule.induct)
  case (2 H k stage i sch st pc)
  obtain st1 p where "advance (H i) k stage st (pc i) = (st1, p)" by (cases "advance (H i) k stage st (pc i)")
  then show ?case using 2 race.step [OF 2(2)] by fastforce
qed auto

section \<open>One process alone\<close>

text \<open>The end of a process as the outcome of the call.\<close>

fun ended :: "claims \<times> progress \<Rightarrow> bool claim_outcome option" where
  "ended (st, Returned b) = Some (st, Inr b)"
| "ended (st, Rejoined) = Some (st, Inr True)"
| "ended (st, Raised) = Some (st, Inl OS_Error)"
| "ended (st, _) = None"

lemma alone_writes:
  "((\<lambda>(st, p). advance h k stage st p) ^^ Suc (length fs + n)) (st, Writing fs) =
    (case write_fields h k fs st of (st', ok) \<Rightarrow> (st', if ok then Returned True else Raised))"
proof (induction fs arbitrary: st)
  case Nil
  have "((\<lambda>(st, p). advance h k stage st p) ^^ n) (st, Returned True) = (st, Returned True)"
    by (induction n) auto
  then show ?case by (simp add: funpow_swap1)
next
  case (Cons ft fs)
  obtain f t where ft: "ft = (f, t)" by (cases ft)
  have stuck: "((\<lambda>(st, p). advance h k stage st p) ^^ m) (st, Raised) = (st, Raised)" for m
    by (induction m) auto
  show ?case
  proof (cases "write_field h k f t st")
    case None
    then show ?thesis by (simp add: ft funpow_Suc_right stuck del: funpow.simps)
  next
    case (Some st')
    then show ?thesis using Cons [of st'] by (simp add: ft funpow_Suc_right del: funpow.simps)
  qed
qed

lemma alone_meta:
  assumes "5 \<le> m"
  shows "((\<lambda>(st, p). advance h k stage st p) ^^ m) (st, Writing (claim_meta h sid g None)) =
    (case write_claim_meta h k sid g None st of
       (st', Inr b) \<Rightarrow> (st', Returned True) | (st', Inl e) \<Rightarrow> (st', Raised))"
proof -
  have "m = Suc (length (claim_meta h sid g None) + (m - 5))"
    using assms by (simp add: claim_meta_def)
  then show ?thesis
    using alone_writes [where h = h and k = k and stage = stage and fs = "claim_meta h sid g None" and n = "m - 5" and st = st]
    by (simp add: write_claim_meta_def del: funpow.simps split: prod.splits)
qed

lemma alone_returned: "((\<lambda>(st, p). advance h k stage st p) ^^ m) (st, Returned b) = (st, Returned b)"
  by (induction m) auto

text \<open>The calls of one process that runs undisturbed.\<close>

definition run_alone :: "nat \<Rightarrow> caller \<Rightarrow> claim_key \<Rightarrow> string \<Rightarrow> claims \<Rightarrow> progress \<Rightarrow> claims \<times> progress" where
  "run_alone m h k stage st p = ((\<lambda>(st, p). advance h k stage st p) ^^ m) (st, p)"

lemma run_alone_Suc:
  "run_alone (Suc m) h k stage st p = (case advance h k stage st p of (st', p') \<Rightarrow> run_alone m h k stage st' p')"
  by (simp add: run_alone_def funpow_Suc_right del: funpow.simps split: prod.splits)

lemma run_alone_ends:
  "run_alone m h k stage st (Returned b) = (st, Returned b)"
  "5 \<le> m \<Longrightarrow> ended (run_alone m h k stage st (Writing (claim_meta h sid g None))) =
    Some (write_claim_meta h k sid g None st)"
  by (simp_all add: run_alone_def alone_returned alone_meta)
    (auto simp: write_claim_meta_def split: prod.splits)

lemma run_alone_retake:
  "6 \<le> m \<Longrightarrow> ended (run_alone (Suc m) h k stage st Condemned) = Some (retake h k (resolve_session_id h) stage st)"
  by (cases m) (auto simp: run_alone_Suc retake_def Let_def run_alone_ends split: mkdir_result.splits)

lemma alone_rejoined: "run_alone m h k stage st Rejoined = (st, Rejoined)"
  unfolding run_alone_def by (induction m) auto

lemma run_alone_inspect:
  assumes "6 \<le> m"
  shows "ended (run_alone (Suc (Suc (Suc m))) h k stage st Inspect) = Some
    (if claim_holder_live h (dir_at st k) \<and> \<not> brief_lease_expired h (dir_at st k) then (st, Inr False)
     else retake h k (resolve_session_id h) stage st)"
proof -
  have "run_alone (Suc (Suc (Suc m))) h k stage st Inspect = run_alone (Suc (Suc m)) h k stage st (Judge (brief_lease_expired h (dir_at st k)))"
    by (subst run_alone_Suc) simp
  also have "\<dots> = run_alone (Suc m) h k stage st
      (if claim_holder_live h (dir_at st k) \<and> \<not> brief_lease_expired h (dir_at st k) then Returned False else Condemned)"
    by (subst run_alone_Suc) simp
  finally show ?thesis by (simp add: run_alone_ends run_alone_retake [OF assms])
qed

text \<open>What a process without a claim of its own on the artifact is told.\<close>

lemma run_alone_start:
  assumes "6 \<le> m" and "resolve_session_id h \<noteq> []" and "fst (snd k) \<noteq> ARTIFACT_CLASS_PATH" and "\<not> reentrant (fst (snd k))"
  shows "ended (run_alone (Suc (Suc (Suc (Suc m)))) h k stage st Start) = Some (case os_mkdir h k st of
     Made st' \<Rightarrow> write_claim_meta h k (resolve_session_id h) stage None st'
   | Failed \<Rightarrow> (st, Inr False)
   | Exists \<Rightarrow> (if claim_holder_live h (dir_at st k) \<and> \<not> brief_lease_expired h (dir_at st k) then (st, Inr False)
       else retake h k (resolve_session_id h) stage st))"
proof (cases "os_mkdir h k st")
  case (Made st')
  then show ?thesis using assms by (subst run_alone_Suc) (simp add: run_alone_ends)
next
  case Exists
  have "run_alone (Suc (Suc (Suc (Suc m)))) h k stage st Start = run_alone (Suc (Suc (Suc m))) h k stage st Inspect"
    using assms by (subst run_alone_Suc) (simp add: Exists)
  then show ?thesis by (simp add: Exists run_alone_inspect [OF assms(1)])
next
  case Failed
  then show ?thesis using assms by (subst run_alone_Suc) (simp add: run_alone_ends)
qed

text \<open>On a handoff or a memo the interleaved steps are the function: a process that runs alone from its start has
  after ten steps returned, or raised, what \<open>claim_artifact\<close> computes, and left the same claims on disk.\<close>

theorem steps_compute_claim:
  assumes "names_claim h cls name baton k" and "cls \<in> {''handoff'', ''memo''}" and "resolve_session_id h \<noteq> []"
  shows "ended (run_alone 10 h k stage (make_claims_dir h (fst k) cls st) Start) =
    Some (claim_artifact h cls name baton stage st)"
proof -
  obtain key base x where req: "name \<noteq> []" "key_name cls name = Some key" "comps key = [x]"
    "claim_base h baton = Some base" "k = (base, cls, [x])"
    using assms(1) by (rule names_claimE)
  have cls: "cls \<noteq> []" "cls \<noteq> ARTIFACT_CLASS_PATH" "cls \<noteq> ROW_CLAIM_CLASS" "cls \<noteq> ''plan''"
    using assms(2) by (auto simp: ARTIFACT_CLASS_PATH_def ROW_CLAIM_CLASS_def)
  have "ended (run_alone 10 h k stage (make_claims_dir h (fst k) cls st) Start) =
      Some (case os_mkdir h k (make_claims_dir h (fst k) cls st) of
       Made st' \<Rightarrow> write_claim_meta h k (resolve_session_id h) stage None st'
     | Failed \<Rightarrow> (make_claims_dir h (fst k) cls st, Inr False)
     | Exists \<Rightarrow> (if claim_holder_live h (dir_at (make_claims_dir h (fst k) cls st) k)
           \<and> \<not> brief_lease_expired h (dir_at (make_claims_dir h (fst k) cls st) k)
         then (make_claims_dir h (fst k) cls st, Inr False)
         else retake h k (resolve_session_id h) stage (make_claims_dir h (fst k) cls st)))"
    using run_alone_start [of 6 h k stage "make_claims_dir h (fst k) cls st"] assms(3) cls req(5)
    by (simp add: reentrant_def)
  then show ?thesis
    using req assms(3) cls by (simp add: claim_artifact_def Let_def split: mkdir_result.splits)
qed

section \<open>How many can win\<close>

text \<open>A process that has made the directory and was not told otherwise.\<close>

fun won :: "progress \<Rightarrow> bool" where
  "won (Writing fs) = True"
| "won Raised = True"
| "won (Returned b) = b"
| "won _ = False"

definition winners :: "(nat \<Rightarrow> progress) \<Rightarrow> nat set" where
  "winners pc = {i. won (pc i)}"

lemma winners_insert: "winners (pc(j := p)) = (if won p then insert j (winners pc) else winners pc - {j})"
  by (auto simp: winners_def)

lemma os_mkdir_Made: "os_mkdir h k st = Made st' \<Longrightarrow> st k = None \<and> st' k \<noteq> None"
  by (auto simp: os_mkdir_def split: if_splits)

lemma write_field_there: "write_field h k f t st = Some st' \<Longrightarrow> st k \<noteq> None \<and> st' k \<noteq> None"
  by (auto simp: write_field_def split: option.splits if_splits)

text \<open>A step makes a winner only by creating the directory, and frees the name only by removing it.\<close>

definition slot :: "claims \<Rightarrow> claim_key \<Rightarrow> nat" where
  "slot st k = (if st k = None then 1 else 0)"

definition seat :: "progress \<Rightarrow> nat" where
  "seat p = (if won p then 1 else 0)"

lemma advance_balance:
  "advance h k stage st p = (st', p') \<Longrightarrow> seat p' + slot st' k \<le> seat p + slot st k + (if p = Condemned then 1 else 0)"
  by (cases "(h, k, stage, st, p)" rule: advance.cases)
     (auto simp: seat_def slot_def split: mkdir_result.splits option.splits if_splits
        dest!: os_mkdir_Made write_field_there)

lemma winners_update:
  assumes "finite (winners pc)"
  shows "finite (winners (pc(j := p)))"
    and "card (winners (pc(j := p))) + seat (pc j) = card (winners pc) + seat p"
proof -
  show "finite (winners (pc(j := p)))" using assms by (simp add: winners_insert)
  have "won (pc j) \<longleftrightarrow> j \<in> winners pc" by (simp add: winners_def)
  moreover have "j \<in> winners pc \<Longrightarrow> 0 < card (winners pc)" using assms by (auto simp: card_gt_0_iff)
  ultimately show "card (winners (pc(j := p))) + seat (pc j) = card (winners pc) + seat p"
    using assms by (cases "j \<in> winners pc"; cases "won p")
      (simp_all add: winners_insert seat_def insert_absorb card_Suc_Diff1)
qed

lemma race_balance:
  assumes "race H k stage st0 pc0 st pc n" and "finite (winners pc0)"
  shows "finite (winners pc) \<and> card (winners pc) + slot st k \<le> card (winners pc0) + slot st0 k + n"
  using assms(1)
proof (induction rule: race.induct)
  case here
  then show ?case using assms(2) by simp
next
  case (step st pc n i st' p)
  then have fin: "finite (winners pc)" by simp
  have "seat p + slot st' k \<le> seat (pc i) + slot st k + (if pc i = Condemned then 1 else 0)"
    by (rule advance_balance [OF step.hyps(2)])
  then show ?case
    using step.IH winners_update [OF fin, of i p] by (simp add: fun_upd_def split: if_splits)
qed

text \<open>The files of the directory that name its holder, the text in each of them, and when a process takes a text for
  its own.\<close>

definition marked_own :: "caller \<Rightarrow> string \<times> string \<Rightarrow> bool" where
  "marked_own h ft =
     (let v = py_strip (universal_newlines (snd ft)) in
      fst ft = ''session_id'' \<and> v \<noteq> [] \<and> v \<in> set (my_ids h) \<or> fst ft = ''pid'' \<and> v = str_int (h_pid h))"

text \<open>A text comes from the store at the beginning, or a process that made the directory wrote it.\<close>

definition mark_of :: "(nat \<Rightarrow> caller) \<Rightarrow> claim_key \<Rightarrow> string \<Rightarrow> claims \<Rightarrow> (nat \<Rightarrow> progress) \<Rightarrow> string \<times> string \<Rightarrow> bool" where
  "mark_of H k stage st0 pc ft =
     ((\<exists>d. st0 k = Some d \<and> cd_files d (fst ft) = Some (snd ft)) \<or>
      (\<exists>j. won (pc j) \<and> ft \<in> set (claim_meta (H j) (resolve_session_id (H j)) stage None)))"

definition holder_file :: "string \<Rightarrow> bool" where
  "holder_file f = (f = ''session_id'' \<or> f = ''pid'')"

text \<open>A process has recognised the maker of the directory, or the holder it found at the beginning, as itself; it has read
  a session from the directory.\<close>

definition recognised :: "(nat \<Rightarrow> caller) \<Rightarrow> claim_key \<Rightarrow> string \<Rightarrow> claims \<Rightarrow> (nat \<Rightarrow> progress) \<Rightarrow> nat \<Rightarrow> bool" where
  "recognised H k stage st0 pc i = (\<exists>ft. mark_of H k stage st0 pc ft \<and> marked_own (H i) ft)"

definition was_read :: "(nat \<Rightarrow> caller) \<Rightarrow> claim_key \<Rightarrow> string \<Rightarrow> claims \<Rightarrow> (nat \<Rightarrow> progress) \<Rightarrow> string \<Rightarrow> bool" where
  "was_read H k stage st0 pc held_sid =
     (\<exists>t. held_sid = py_strip (universal_newlines t) \<and> mark_of H k stage st0 pc (''session_id'', t))"

text \<open>What a point of a process owes to such texts.\<close>

fun justified :: "(nat \<Rightarrow> caller) \<Rightarrow> claim_key \<Rightarrow> string \<Rightarrow> claims \<Rightarrow> (nat \<Rightarrow> progress) \<Rightarrow> nat \<Rightarrow> progress \<Rightarrow> bool" where
  "justified H k stage st0 pc i (Writing fs) = (set fs \<subseteq> set (claim_meta (H i) (resolve_session_id (H i)) stage None))"
| "justified H k stage st0 pc i Look = (resolve_session_id (H i) \<noteq> [] \<and> reentrant (fst (snd k)))"
| "justified H k stage st0 pc i (Recall held_sid) =
     (resolve_session_id (H i) \<noteq> [] \<and> reentrant (fst (snd k)) \<and>
      (held_sid \<noteq> [] \<longrightarrow> was_read H k stage st0 pc held_sid))"
| "justified H k stage st0 pc i Refresh = (reentrant (fst (snd k)) \<and> recognised H k stage st0 pc i)"
| "justified H k stage st0 pc i Restamp = (reentrant (fst (snd k)) \<and> recognised H k stage st0 pc i)"
| "justified H k stage st0 pc i Rejoined = (reentrant (fst (snd k)) \<and> recognised H k stage st0 pc i)"
| "justified H k stage st0 pc i _ = True"

definition marks_known :: "(nat \<Rightarrow> caller) \<Rightarrow> claim_key \<Rightarrow> string \<Rightarrow> claims \<Rightarrow> claims \<Rightarrow> (nat \<Rightarrow> progress) \<Rightarrow> bool" where
  "marks_known H k stage st0 st pc =
     ((\<forall>f t. holder_file f \<and> cd_files (dir_at st k) f = Some t \<longrightarrow> mark_of H k stage st0 pc (f, t)) \<and>
      (\<forall>i. justified H k stage st0 pc i (pc i)))"

lemma mark_of_mono: "mark_of H k stage st0 pc ft \<Longrightarrow> (\<And>j. won (pc j) \<Longrightarrow> won (pc' j)) \<Longrightarrow> mark_of H k stage st0 pc' ft"
  unfolding mark_of_def by blast

lemma recognised_mono:
  assumes "\<And>j. won (pc j) \<Longrightarrow> won (pc' j)"
  shows "recognised H k stage st0 pc i \<Longrightarrow> recognised H k stage st0 pc' i"
    and "was_read H k stage st0 pc t \<Longrightarrow> was_read H k stage st0 pc' t"
proof -
  have "mark_of H k stage st0 pc ft \<Longrightarrow> mark_of H k stage st0 pc' ft" for ft by (rule mark_of_mono [OF _ assms])
  then show "recognised H k stage st0 pc i \<Longrightarrow> recognised H k stage st0 pc' i"
    "was_read H k stage st0 pc t \<Longrightarrow> was_read H k stage st0 pc' t"
    unfolding recognised_def was_read_def by blast+
qed

lemma justified_mono:
  assumes "\<And>j. won (pc j) \<Longrightarrow> won (pc' j)"
  shows "justified H k stage st0 pc i p \<Longrightarrow> justified H k stage st0 pc' i p"
  using recognised_mono [OF assms] by (cases p) auto

lemma won_stays: "advance h k stage st p = (st', p') \<Longrightarrow> won p \<Longrightarrow> won p'"
  by (cases "(h, k, stage, st, p)" rule: advance.cases) (auto split: option.splits)

lemma held_by_me_mark:
  assumes "claim_held_by_me h d (resolve_session_id h)" and "resolve_session_id h \<noteq> []" and "\<And>f t. holder_file f \<Longrightarrow> cd_files d f = Some t \<Longrightarrow> Q (f, t)"
    and "str_int (h_pid h) \<noteq> []"
  shows "\<exists>ft. Q ft \<and> marked_own h ft"
proof (cases "cd_files d ''session_id''")
  case (Some t)
  then have "Q (''session_id'', t)" "marked_own h (''session_id'', t)"
    using assms by (auto simp: holder_file_def marked_own_def claim_held_by_me_def read_claim_field_def my_ids_def)
  then show ?thesis by blast
next
  case None
  then have pid: "read_claim_field d ''pid'' = str_int (h_pid h)" using assms(1) by (simp add: claim_held_by_me_def)
  then obtain t where "cd_files d ''pid'' = Some t" using assms(4) by (auto simp: read_claim_field_def split: option.splits)
  then have "Q (''pid'', t)" "marked_own h (''pid'', t)"
    using assms(3) pid by (auto simp: holder_file_def marked_own_def read_claim_field_def)
  then show ?thesis by blast
qed

lemma str_int_nonempty: "str_int n \<noteq> []"
proof -
  have "decimal m \<noteq> []" for m by (subst decimal.simps) simp
  then show ?thesis by (simp add: str_int_def)
qed

lemma dir_files_step:
  assumes "advance h k stage st p = (st', p')" and "cd_files (dir_at st' k) f = Some t"
  shows "cd_files (dir_at st k) f = Some t \<or> (\<exists>fs. p = Writing ((f, t) # fs)) \<or> f = ''claimed_at''"
  using assms
  by (cases "(h, k, stage, st, p)" rule: advance.cases)
     (auto simp: os_mkdir_def rmtree_def write_field_def dir_at_def empty_dir_def inside_def split: if_splits option.splits)

lemma mark_step:
  assumes known: "marks_known H k stage st0 st pc" and step: "advance (H i) k stage st (pc i) = (st', p)"
  shows "marks_known H k stage st0 st' (pc(i := p))"
proof -
  let ?pc = "pc(i := p)"
  have won: "won (pc j) \<Longrightarrow> won (?pc j)" for j using won_stays [OF step] by auto
  have keep: "mark_of H k stage st0 pc ft \<Longrightarrow> mark_of H k stage st0 ?pc ft" for ft using mark_of_mono won by blast
  have files: "mark_of H k stage st0 pc (f, t)" if "holder_file f" "cd_files (dir_at st k) f = Some t" for f t
    using known that by (simp add: marks_known_def)
  have here: "justified H k stage st0 pc i (pc i)" using known by (simp add: marks_known_def)
  have "mark_of H k stage st0 ?pc (f, t)" if hf: "holder_file f" and t: "cd_files (dir_at st' k) f = Some t" for f t
  proof -
    consider "cd_files (dir_at st k) f = Some t" | fs where "pc i = Writing ((f, t) # fs)"
      using dir_files_step [OF step t] hf by (auto simp: holder_file_def)
    then show ?thesis
    proof cases
      case 1
      then show ?thesis using files [OF hf] keep by blast
    next
      case (2 fs)
      then have "(f, t) \<in> set (claim_meta (H i) (resolve_session_id (H i)) stage None)" using here by simp
      then have "mark_of H k stage st0 pc (f, t)" unfolding mark_of_def using 2 by (metis won.simps(1))
      then show ?thesis by (rule keep)
    qed
  qed
  moreover have "justified H k stage st0 ?pc i p"
  proof -
    have mine: "recognised H k stage st0 ?pc i"
      if "claim_held_by_me (H i) (dir_at st k) (resolve_session_id (H i))" "resolve_session_id (H i) \<noteq> []"
      using held_by_me_mark [OF that, of "mark_of H k stage st0 ?pc"] files keep str_int_nonempty
      unfolding recognised_def by blast
    have named: "recognised H k stage st0 ?pc i"
      if env: "held \<noteq> []" "held \<in> set (session_env_candidates (H i))" and read: "was_read H k stage st0 pc held" for held
    proof -
      obtain t where t: "held = py_strip (universal_newlines t)" "mark_of H k stage st0 pc (''session_id'', t)"
        using read by (auto simp: was_read_def)
      then have "marked_own (H i) (''session_id'', t)" using env by (simp add: marked_own_def Let_def my_ids_def)
      then show ?thesis using keep [OF t(2)] unfolding recognised_def by blast
    qed
    have look: "was_read H k stage st0 ?pc (read_claim_field (dir_at st k) ''session_id'')"
      if "read_claim_field (dir_at st k) ''session_id'' \<noteq> []"
      using that files [of "''session_id''"] keep
      by (auto simp: read_claim_field_def holder_file_def was_read_def split: option.splits)
    have again: "recognised H k stage st0 ?pc i" if "recognised H k stage st0 pc i"
      using recognised_mono(1) [OF won that] .
    show ?thesis
    proof (cases "pc i")
      case Look
      then show ?thesis using step here look by (auto simp del: fun_upd_apply)
    next
      case (Recall held)
      then show ?thesis using step here mine named by (auto simp del: fun_upd_apply split: if_splits)
    next
      case (Writing fs)
      then show ?thesis using step here by (cases fs) (auto split: option.splits)
    qed (use step here again in \<open>auto simp del: fun_upd_apply split: mkdir_result.splits option.splits if_splits\<close>)
  qed
  moreover have "justified H k stage st0 ?pc j (?pc j)" if "j \<noteq> i" for j
  proof -
    have "justified H k stage st0 pc j (pc j)" using known by (simp add: marks_known_def)
    from justified_mono [where pc = pc and pc' = ?pc, OF won this] show ?thesis using that by simp
  qed
  ultimately show ?thesis unfolding marks_known_def by (metis fun_upd_same)
qed

lemma race_marks:
  assumes "race H k stage st0 (\<lambda>_. Start) st pc n"
  shows "marks_known H k stage st0 st pc"
  using assms
proof (induction rule: race.induct)
  case here
  then show ?case by (auto simp: marks_known_def mark_of_def dir_at_def empty_dir_def split: option.splits)
next
  case (step st pc n i st' p)
  then show ?case using mark_step by blast
qed

text \<open>C20. When processes start together on an artifact of any class, then in every interleaving the number of those
  that are told success for having made the directory is at most the number of removals, plus one if the
  artifact was free at the beginning: without a takeover a claim is granted once, and a held one not at all.
  Nobody else is told success but by re-entry, on a plan or a row only, and who re-enters has read its own session
  id, or its own process id, in a file that one of these makers wrote or that was there at the beginning.\<close>

theorem winners_bounded:
  assumes "race H k stage st0 (\<lambda>_. Start) st pc n"
  shows "finite {i. pc i = Returned True} \<and>
    card {i. pc i = Returned True} \<le> n + (if st0 k = None then 1 else 0) \<and>
    (\<forall>i. pc i = Rejoined \<longrightarrow> reentrant (fst (snd k)) \<and> recognised H k stage st0 pc i)"
proof (intro conjI allI impI)
  have b: "finite (winners pc) \<and> card (winners pc) + slot st k \<le> slot st0 k + n"
    using race_balance [OF assms] by (simp add: winners_def)
  have "{i. pc i = Returned True} \<subseteq> winners pc" by (auto simp: winners_def)
  then have "finite {i. pc i = Returned True}" and "card {i. pc i = Returned True} \<le> card (winners pc)"
    using b by (auto intro: finite_subset card_mono)
  then show "finite {i. pc i = Returned True}" and "card {i. pc i = Returned True} \<le> n + (if st0 k = None then 1 else 0)"
    using b by (auto simp: slot_def)
  fix i assume "pc i = Rejoined"
  moreover have "justified H k stage st0 pc i (pc i)" using race_marks [OF assms] by (simp add: marks_known_def)
  ultimately show "reentrant (fst (snd k))" "recognised H k stage st0 pc i" by simp_all
qed

section \<open>A claim that is seen\<close>

text \<open>A process that has not yet condemned the directory, nor is filling it.\<close>

fun idle :: "progress \<Rightarrow> bool" where
  "idle (Writing fs) = False"
| "idle (Judge expired) = (\<not> expired)"
| "idle Condemned = False"
| "idle Retake = False"
| "idle Look = False"
| "idle (Recall held_sid) = False"
| "idle Refresh = False"
| "idle Restamp = False"
| "idle _ = True"

text \<open>A complete claim, on no plan or row, whose holder every process sees live and whose lease none sees expired.\<close>

definition claim_settled :: "(nat \<Rightarrow> caller) \<Rightarrow> claim_key \<Rightarrow> claims \<Rightarrow> (nat \<Rightarrow> progress) \<Rightarrow> bool" where
  "claim_settled H k st pc =
     (st k \<noteq> None \<and> \<not> reentrant (fst (snd k)) \<and> (\<forall>i. idle (pc i)) \<and>
      (\<forall>i. claim_holder_live (H i) (dir_at st k) \<and> \<not> brief_lease_expired (H i) (dir_at st k)))"

lemma settled_step:
  assumes "st k \<noteq> None" and "\<not> reentrant (fst (snd k))" and "idle p" and "claim_holder_live h (dir_at st k)" and "\<not> brief_lease_expired h (dir_at st k)"
    and "advance h k stage st p = (st', p')"
  shows "st' = st \<and> idle p' \<and> p \<noteq> Condemned \<and> (p' = Returned True \<longleftrightarrow> p = Returned True)"
  using assms by (cases p) (auto simp: os_mkdir_def split: if_splits)

text \<open>A claim that is seen is safe from interleaving: once the directory is complete, its holder is live
  and no process has condemned it on an earlier reading, no continuation of the race removes or changes
  any directory, and nobody joins those who were told that they hold it.\<close>

theorem settled_claim_stable:
  assumes "claim_settled H k st pc" and "race H k stage st pc st' pc' n"
  shows "st' = st \<and> n = 0 \<and> {i. pc' i = Returned True} = {i. pc i = Returned True}"
proof -
  have "st' = st \<and> n = 0 \<and> (\<forall>i. idle (pc' i)) \<and> {i. pc' i = Returned True} = {i. pc i = Returned True}"
    using assms(2)
  proof (induction rule: race.induct)
    case here
    then show ?case using assms(1) by (simp add: claim_settled_def)
  next
    case (step st1 pc1 m i st2 p)
    then have "st1 = st" "m = 0" "idle (pc1 i)" "\<forall>i. idle (pc1 i)"
      and same: "{i. pc1 i = Returned True} = {i. pc i = Returned True}" by auto
    moreover from this have "st2 = st \<and> idle p \<and> pc1 i \<noteq> Condemned \<and> (p = Returned True \<longleftrightarrow> pc1 i = Returned True)"
      using settled_step [of st k "pc1 i" "H i" stage st2 p] assms(1) step.hyps(2) by (auto simp: claim_settled_def)
    moreover from this have "{j. (pc1(i := p)) j = Returned True} = {j. pc1 j = Returned True}" by auto
    ultimately show ?case by (auto simp: fun_upd_def)
  qed
  then show ?thesis by simp
qed

section \<open>Races\<close>

text \<open>Sessions \<open>bob\<close> and \<open>eve\<close> are live, no other session is.\<close>

definition ex_racer :: "nat \<Rightarrow> caller" where
  "ex_racer i = (ex_caller (int i) (if i = 0 then ''bob'' else ''eve''))
     \<lparr>h_sdir := (\<lambda>s. if s = ''bob'' \<or> s = ''eve'' then Some (99999, []) else None)\<rparr>"

definition ex_key :: claim_key where "ex_key = (ex_hub, ''handoff'', [''h.md''])"

definition ex_stale :: claims where
  "ex_stale = [(ex_hub, ''handoff'', []) \<mapsto> empty_dir, ex_key \<mapsto> ex_claim_dir ''zed'' ''1970-01-02T03:46:40Z'' ''apply'']"

definition ex_free :: claims where
  "ex_free = [(ex_hub, ''handoff'', []) \<mapsto> empty_dir]"

definition both_won :: "claims \<times> (nat \<Rightarrow> progress) \<Rightarrow> bool" where
  "both_won s = (snd s 0 = Returned True \<and> snd s 1 = Returned True)"

text \<open>
  Two processes that both find the stale claim: the second removes the directory that the first has made in
  the meantime, its own \<open>mkdir\<close> succeeds, and both are told that they hold the claim.
\<close>

lemma takers_both_win:
  "both_won (follow_schedule ex_racer ex_key ''apply''
     [0, 0, 0, 1, 1, 1, 0, 0, 0, 0, 0, 0, 0, 1, 1, 1, 1, 1, 1, 1] ex_stale (\<lambda>_. Start))"
  by code_simp

text \<open>
  No stale claim is needed: a process that looks between the other's \<open>mkdir\<close> and its first metadata file
  finds no holder and takes the claim over.
\<close>

lemma fresh_claim_taken_over:
  "both_won (follow_schedule ex_racer ex_key ''apply''
     [0, 1, 1, 1, 0, 0, 0, 0, 0, 1, 1, 1, 1, 1, 1, 1] ex_free (\<lambda>_. Start))"
  by code_simp

text \<open>Or the writer finds its directory gone, and the call raises the error of the operating system.\<close>

lemma fresh_claim_raises:
  "snd (follow_schedule ex_racer ex_key ''apply'' [0, 1, 1, 1, 1, 0] ex_free (\<lambda>_. Start)) 0 = Raised"
  by code_simp

theorem steps_compute_claim_witness:
  "ended (run_alone 10 (ex_racer 0) ex_key ''apply'' (make_claims_dir (ex_racer 0) ex_hub ''handoff'' ex_stale) Start) =
    Some (claim_artifact (ex_racer 0) ''handoff'' ''h.md'' [] ''apply'' ex_stale)"
proof -
  have "names_claim (ex_racer 0) ''handoff'' ''h.md'' [] ex_key" by code_simp
  moreover have "resolve_session_id (ex_racer 0) \<noteq> []" by code_simp
  ultimately show ?thesis
    using steps_compute_claim [of "ex_racer 0" "''handoff''" "''h.md''" "[]" ex_key "''apply''" ex_stale]
    by (simp add: ex_key_def)
qed

definition ex_race_plan :: claim_key where "ex_race_plan = (ex_hub, ''plan'', [''p''])"

definition ex_sessions :: "nat \<Rightarrow> caller" where
  "ex_sessions i = (ex_racer i)\<lparr>h_env := h_env (ex_racer 1)\<rparr>"

text \<open>On a plan a second process of the same session is told success too.\<close>

lemma plan_reentry:
  "case follow_schedule ex_sessions ex_race_plan ''apply'' [0, 0, 0, 0, 0, 0, 1, 1, 1] [(ex_hub, ''plan'', []) \<mapsto> empty_dir] (\<lambda>_. Start) of
     (st, pc) \<Rightarrow> pc 0 = Returned True \<and> pc 1 = Rejoined"
  by code_simp

theorem winners_bounded_witness:
  "(\<exists>st pc n. race ex_racer ex_key ''apply'' ex_stale (\<lambda>_. Start) st pc n
     \<and> pc 0 = Returned True \<and> pc 1 = Returned True \<and> card {i. pc i = Returned True} \<le> n) \<and>
   (\<exists>st pc n. race ex_sessions ex_race_plan ''apply'' [(ex_hub, ''plan'', []) \<mapsto> empty_dir] (\<lambda>_. Start) st pc n
     \<and> pc 0 = Returned True \<and> pc 1 = Rejoined
     \<and> recognised ex_sessions ex_race_plan ''apply'' [(ex_hub, ''plan'', []) \<mapsto> empty_dir] pc 1)"
proof
  obtain st pc where run: "follow_schedule ex_racer ex_key ''apply''
     [0, 0, 0, 1, 1, 1, 0, 0, 0, 0, 0, 0, 0, 1, 1, 1, 1, 1, 1, 1] ex_stale (\<lambda>_. Start) = (st, pc)" by fastforce
  then obtain n where race: "race ex_racer ex_key ''apply'' ex_stale (\<lambda>_. Start) st pc n"
    using schedule_race [OF race.here run] by blast
  have "ex_stale ex_key \<noteq> None" by (simp add: ex_stale_def)
  then have "card {i. pc i = Returned True} \<le> n" using winners_bounded [OF race] by auto
  moreover have "pc 0 = Returned True" "pc 1 = Returned True" using takers_both_win unfolding run both_won_def by auto
  ultimately show "\<exists>st pc n. race ex_racer ex_key ''apply'' ex_stale (\<lambda>_. Start) st pc n
     \<and> pc 0 = Returned True \<and> pc 1 = Returned True \<and> card {i. pc i = Returned True} \<le> n"
    using race by blast
next
  let ?st0 = "[(ex_hub, ''plan'', []) \<mapsto> empty_dir]"
  obtain st pc where run: "follow_schedule ex_sessions ex_race_plan ''apply'' [0, 0, 0, 0, 0, 0, 1, 1, 1] ?st0 (\<lambda>_. Start) = (st, pc)"
    by fastforce
  then obtain n where race: "race ex_sessions ex_race_plan ''apply'' ?st0 (\<lambda>_. Start) st pc n"
    using schedule_race [OF race.here run] by blast
  show "\<exists>st pc n. race ex_sessions ex_race_plan ''apply'' ?st0 (\<lambda>_. Start) st pc n \<and> pc 0 = Returned True \<and> pc 1 = Rejoined
     \<and> recognised ex_sessions ex_race_plan ''apply'' ?st0 pc 1"
  proof -
    have "pc 0 = Returned True" "pc 1 = Rejoined" using plan_reentry unfolding run by auto
    then show ?thesis using race winners_bounded [OF race] by blast
  qed
qed

definition ex_held :: claims where
  "ex_held = [(ex_hub, ''handoff'', []) \<mapsto> empty_dir, ex_key \<mapsto> ex_claim_dir ''bob'' ''1970-01-02T03:46:40Z'' ''apply'']"

lemma ex_held_settled: "claim_settled ex_racer ex_key ex_held ((\<lambda>_. Start)(0 := Returned True))"
proof -
  have bob: "line_text ''bob''" "line_text ''apply''" by (simp_all add: line_text_def is_space_def)
  have d: "dir_at ex_held ex_key = ex_claim_dir ''bob'' ''1970-01-02T03:46:40Z'' ''apply''"
    by (simp add: dir_at_def ex_held_def)
  have "claim_holder_live (ex_racer i) (dir_at ex_held ex_key)" for i
    by (simp add: claim_holder_live_def d bob session_live_def decide_session_live_def registry_confirms_def
        cached_registry_lookup_def snapshot_def has_session_dir_def read_meta_field_def recency_verdict_def
        dir_recency_fallback_epoch_def is_session_live_def THIRTY_MIN_def ex_racer_def ex_caller_def Let_def)
  moreover have "\<not> brief_lease_expired h (dir_at ex_held ex_key)" for h
    by (simp add: brief_lease_expired_def claim_stage_def d bob CLAIM_STAGE_BRIEF_def CLAIM_STAGE_APPLY_def)
  ultimately show ?thesis by (simp add: claim_settled_def ex_held_def ex_key_def reentrant_def ROW_CLAIM_CLASS_def)
qed

theorem settled_claim_stable_witness:
  "\<exists>pc. race ex_racer ex_key ''apply'' ex_held ((\<lambda>_. Start)(0 := Returned True)) ex_held pc 0
     \<and> pc 1 = Returned False \<and> {i. pc i = Returned True} = {0}"
proof -
  let ?pc = "(\<lambda>_. Start)(0 := Returned True)"
  obtain st pc where run: "follow_schedule ex_racer ex_key ''apply'' [1, 2, 1, 1, 2] ex_held ?pc = (st, pc)" by fastforce
  then obtain n where race: "race ex_racer ex_key ''apply'' ex_held ?pc st pc n"
    using schedule_race [OF race.here run] by blast
  have "snd (follow_schedule ex_racer ex_key ''apply'' [1, 2, 1, 1, 2] ex_held ?pc) 1 = Returned False" by code_simp
  then have "pc 1 = Returned False" unfolding run by simp
  moreover have "st = ex_held \<and> n = 0 \<and> {i. pc i = Returned True} = {i. ?pc i = Returned True}"
    by (rule settled_claim_stable [OF ex_held_settled race])
  moreover have "{i. ?pc i = Returned True} = {0}" by auto
  ultimately show ?thesis using race by auto
qed

end
