(* ===== verification/Claim_Moves.thy ===== *)
theory Claim_Moves
  imports Claim_Race
begin

text \<open>
  Claims that change hands or names: the takeover of a plan whose holder has given it up, the claim that
  follows a baton to its successor, and examples of what the operations do at the edges of their
  contracts.
\<close>

section \<open>Takeover\<close>

text \<open>
  The session has given up the artifact: a marker in its claim names it, or a handoff that \<open>HEAD\<close> has
  names it as author and the artifact as its plan.
\<close>

definition gave_up :: "caller \<Rightarrow> claim_key \<Rightarrow> claim_dir \<Rightarrow> string \<Rightarrow> bool" where
  "gave_up h k d s =
     ((case cd_marker d of Some (Some (JObj data)) \<Rightarrow> dget data ''session_id'' = JStr s | _ \<Rightarrow> False) \<or>
      (case h_handoffs h (fst k) of
         None \<Rightarrow> False
       | Some files \<Rightarrow> list_ex (\<lambda>f. hf_landed f \<and> names_holder k s (hf_text f)) files))"

lemma marker_names:
  "read_relinquishment_marker d s \<noteq> None \<longleftrightarrow>
    (case cd_marker d of Some (Some (JObj data)) \<Rightarrow> dget data ''session_id'' = JStr s | _ \<Rightarrow> False)"
  by (auto simp: read_relinquishment_marker_def split: option.splits json.splits)

lemma relinquished_gave_up:
  assumes "claim_holder_relinquished h k d = Some e"
  shows "gave_up h k d (read_claim_field d ''session_id'')"
proof (cases "read_relinquishment_marker d (read_claim_field d ''session_id'')")
  case (Some e')
  then show ?thesis using marker_names [of d "read_claim_field d ''session_id''"] by (simp add: gave_up_def)
next
  case None
  then obtain files f where "h_handoffs h (fst k) = Some files"
    and "find (supplies_evidence k (read_claim_field d ''session_id'')) files = Some f"
    using assms by (auto simp: claim_holder_relinquished_def derived_relinquishment_evidence_def Let_def
        split: if_splits option.splits)
  then have "f \<in> set files" "supplies_evidence k (read_claim_field d ''session_id'') f" "h_handoffs h (fst k) = Some files"
    by (auto simp: find_Some_iff)
  then show ?thesis
    by (auto simp: gave_up_def supplies_evidence_def list_ex_iff split: option.splits)
qed

lemma take_over_meta:
  assumes "obliging h" and "st k = Some d" and "line_text sid" and "line_text held"
  shows "snd (write_claim_meta h k sid CLAIM_STAGE_APPLY (Some (held, ev, why)) st) = Inr True"
    and "read_claim_field (dir_at (fst (write_claim_meta h k sid CLAIM_STAGE_APPLY (Some (held, ev, why)) st)) k) ''session_id'' = sid"
    and "read_claim_field (dir_at (fst (write_claim_meta h k sid CLAIM_STAGE_APPLY (Some (held, ev, why)) st)) k) ''taken_from_session_id'' = held"
    and "claim_stage (dir_at (fst (write_claim_meta h k sid CLAIM_STAGE_APPLY (Some (held, ev, why)) st)) k) = CLAIM_STAGE_APPLY"
proof -
  let ?d = "d\<lparr>cd_files := (cd_files d)(''pid'' \<mapsto> text_line (str_int (h_pid h)), ''session_id'' \<mapsto> text_line sid,
    ''claimed_at'' \<mapsto> text_line (h_now_iso h), ''stage'' \<mapsto> text_line CLAIM_STAGE_APPLY, ''taken_from_session_id'' \<mapsto> text_line held,
    ''takeover_evidence'' \<mapsto> text_line ev, ''justification'' \<mapsto> text_line why)\<rparr>"
  have w: "write_claim_meta h k sid CLAIM_STAGE_APPLY (Some (held, ev, why)) st = (st(k \<mapsto> ?d), Inr True)"
    using assms by (simp add: write_claim_meta_def claim_meta_def write_field_def obliging_def)
  then show "snd (write_claim_meta h k sid CLAIM_STAGE_APPLY (Some (held, ev, why)) st) = Inr True" by simp
  have "read_claim_field ?d ''session_id'' = sid" by (rule read_back [OF assms(3)]) simp
  then show "read_claim_field (dir_at (fst (write_claim_meta h k sid CLAIM_STAGE_APPLY (Some (held, ev, why)) st)) k) ''session_id'' = sid"
    by (simp add: w dir_at_def)
  have "read_claim_field ?d ''taken_from_session_id'' = held" by (rule read_back [OF assms(4)]) simp
  then show "read_claim_field (dir_at (fst (write_claim_meta h k sid CLAIM_STAGE_APPLY (Some (held, ev, why)) st)) k) ''taken_from_session_id'' = held"
    by (simp add: w dir_at_def)
  have "read_claim_field ?d ''stage'' = CLAIM_STAGE_APPLY" by (rule read_back) simp_all
  then have "claim_stage ?d = CLAIM_STAGE_APPLY" unfolding claim_stage_def by (simp only: stages_differ if_False)
  then show "claim_stage (dir_at (fst (write_claim_meta h k sid CLAIM_STAGE_APPLY (Some (held, ev, why)) st)) k) = CLAIM_STAGE_APPLY"
    by (simp add: w dir_at_def)
qed

text \<open>C22. A takeover is granted on evidence only, and on evidence that still holds: when \<open>take_over_claim\<close>
  succeeds on a claim the caller did not hold, the holder recorded at the first reading had given the plan
  up, the second reading found the same holder and verified the evidence again, a justification was
  given, and the new claim names the caller and the session it was taken from.\<close>

theorem takeover_needs_evidence:
  assumes "take_over_between h h' name why baton st st' = (st'', Inr True)"
    and "claim_dir_for h ''plan'' name baton = Some k" and "st k = Some d"
    and "\<not> claim_held_by_me h d (resolve_session_id h)" and "held = read_claim_field d ''session_id''"
    and "obliging h'" and "line_text (resolve_session_id h)" and "line_text held"
  shows "py_strip why \<noteq> [] \<and> gave_up h k d held
    \<and> st' k \<noteq> None \<and> read_claim_field (dir_at st' k) ''session_id'' = held
    \<and> (\<exists>e. claim_holder_relinquished h k d = Some e \<and> evidence_still_holds h' k (dir_at st' k) e held)
    \<and> owner st'' k = Some (resolve_session_id h, CLAIM_STAGE_APPLY)
    \<and> read_claim_field (dir_at st'' k) ''taken_from_session_id'' = held"
proof -
  let ?sid = "resolve_session_id h"
  have sid: "?sid \<noteq> []" using assms(7) by (simp add: line_text_def)
  obtain e d' where e: "claim_holder_relinquished h k d = Some e" and d': "st' k = Some d'"
    and same: "read_claim_field d' ''session_id'' = held" and still: "evidence_still_holds h' k d' e held"
    and why: "py_strip why \<noteq> []"
    and run: "(case os_mkdir h' k (rmtree h' k st') of
        Made st2 \<Rightarrow> write_claim_meta h' k ?sid CLAIM_STAGE_APPLY (Some (held, evidence_text e, why)) st2
      | Exists \<Rightarrow> (rmtree h' k st', Inr False) | Failed \<Rightarrow> (rmtree h' k st', Inl OS_Error)) = (st'', Inr True)"
    using assms(1-5) sid by (auto simp: take_over_between_def Let_def split: if_splits option.splits)
  obtain st2 where made: "os_mkdir h' k (rmtree h' k st') = Made st2"
    and w: "write_claim_meta h' k ?sid CLAIM_STAGE_APPLY (Some (held, evidence_text e, why)) st2 = (st'', Inr True)"
    using run by (auto split: mkdir_result.splits)
  have "st2 k = Some empty_dir" using made by (auto simp: os_mkdir_def split: if_splits)
  note meta = take_over_meta [where k = k and h = h' and st = st2 and d = empty_dir and sid = ?sid and held = held
      and ev = "evidence_text e" and why = why, OF assms(6) this assms(7,8), unfolded w fst_conv]
  have "st'' k \<noteq> None"
  proof
    assume "st'' k = None"
    then have "read_claim_field (dir_at st'' k) ''session_id'' = []" by (simp add: dir_at_def read_claim_field_def empty_dir_def)
    then show False using meta(2) sid by simp
  qed
  then have "owner st'' k = Some (?sid, CLAIM_STAGE_APPLY)"
    using meta(2,4) by (auto simp: owner_def dir_at_def split: option.splits)
  then show ?thesis
    using why relinquished_gave_up [OF e] d' same still e meta(3) assms(5) by (auto simp: dir_at_def)
qed

section \<open>A claim follows its baton\<close>

definition held_by :: "claims \<Rightarrow> claim_key \<Rightarrow> string \<Rightarrow> bool" where
  "held_by st k sid = (case st k of None \<Rightarrow> False | Some d \<Rightarrow> read_claim_field d ''session_id'' = sid)"

lemma move_dir_at:
  assumes "k = (b, c, [x])" and "k' = (b, c, [y])" and "x \<noteq> y"
  shows "move_dir k k' st k' = st k" "move_dir k k' st k = None"
  using assms by (simp_all add: move_dir_def inside_def)

text \<open>The outcomes of \<open>follow_handoff_claim\<close> for two names of one component.\<close>

lemma follow_cases:
  assumes "obliging h" and "h_rename_denied h = (\<lambda>_. False)" and "claim_base h [] = Some base"
    and "comps old_name = [x]" and "comps new_name = [y]" and "x \<noteq> y" and "sid \<noteq> []"
    and "st (base, ''handoff'', []) \<noteq> None"
    and k: "k = (base, ''handoff'', [x])" and k': "k' = (base, ''handoff'', [y])"
  shows "follow_handoff_claim h sid old_name new_name st =
     (if st k = None then (st, Inr (held_by st k' sid))
      else if \<not> held_by st k sid then (st, Inr False)
      else if st k' = None then (move_dir k k' st, Inr True)
      else if \<not> held_by st k' sid then (st, Inr False)
      else (rmtree h k st, Inr True))"
proof -
  have names: "old_name \<noteq> []" "new_name \<noteq> []" "old_name \<noteq> new_name"
    using assms(4-6) key_nonempty by auto
  have apart: "k \<noteq> k'" "\<not> inside k k'" using assms(6) k k' by (auto simp: inside_def)
  have "parent_exists st k'" using assms(8) by (simp add: parent_exists_def k')
  moreover have "rmtree h k st k = None" using assms(1) by (simp add: rmtree_def obliging_def)
  moreover have "held_by st q sid \<longleftrightarrow> st q \<noteq> None \<and> read_claim_field (dir_at st q) ''session_id'' = sid" for q
    by (auto simp: held_by_def dir_at_def split: option.splits)
  ultimately show ?thesis
    using assms(2,3,7) names apart
    by (auto simp: follow_handoff_claim_def relocate_artifact_claim_def Let_def assms(4,5) simp flip: k k')
qed

text \<open>\<open>follow_handoff_claim\<close> moves a session's claim from a baton to its successor: it succeeds exactly when
  afterwards the session holds the new name and nothing is claimed under the old one; a claim that is moved
  keeps its content; when it refuses, nothing has changed; and no other claim is touched either way.\<close>

theorem follow_moves_claim:
  assumes "obliging h" and "h_rename_denied h = (\<lambda>_. False)" and "claim_base h [] = Some base"
    and "comps old_name = [x]" and "comps new_name = [y]" and "x \<noteq> y" and "sid \<noteq> []"
    and "st (base, ''handoff'', []) \<noteq> None"
    and k: "k = (base, ''handoff'', [x])" and k': "k' = (base, ''handoff'', [y])"
    and run: "follow_handoff_claim h sid old_name new_name st = (st', r)"
  shows "r = Inr (held_by st' k' sid \<and> st' k = None)
    \<and> (r = Inr False \<longrightarrow> st' = st)
    \<and> (r = Inr True \<and> st k' = None \<longrightarrow> st' k' = st k)
    \<and> (\<forall>q. \<not> inside k q \<and> \<not> inside k' q \<longrightarrow> st' q = st q)"
proof -
  have apart: "\<not> inside k k'" using assms(6) k k' by (auto simp: inside_def)
  note moved = move_dir_at [OF k k' assms(6), of st]
  have gone: "rmtree h k st k = None" using assms(1) by (simp add: rmtree_def obliging_def)
  have kept: "rmtree h k st k' = st k'" by (rule rmtree_frame [OF apart])
  have new: "held_by (move_dir k k' st) k' sid = held_by st k sid" "held_by (rmtree h k st) k' sid = held_by st k' sid"
    by (simp_all add: held_by_def moved kept)
  have none: "st q = None \<Longrightarrow> \<not> held_by st q sid" for q by (simp add: held_by_def)
  have run': "(if st k = None then (st, Inr (held_by st k' sid))
      else if \<not> held_by st k sid then (st, Inr False)
      else if st k' = None then (move_dir k k' st, Inr True)
      else if \<not> held_by st k' sid then (st, Inr False)
      else (rmtree h k st, Inr True)) = (st', r)"
    using run unfolding follow_cases [where st = st, OF assms(1-10)] .
  consider (free) "st k = None" | (foreign) "st k \<noteq> None" "\<not> held_by st k sid"
    | (move) "held_by st k sid" "st k' = None" | (taken) "held_by st k sid" "st k' \<noteq> None" "\<not> held_by st k' sid"
    | (both) "held_by st k sid" "st k' \<noteq> None" "held_by st k' sid" by blast
  then show ?thesis
  proof cases
    case free
    then have "st' = st" "r = Inr (held_by st k' sid)" using run' by auto
    then show ?thesis using free by simp
  next
    case foreign
    then have "st' = st" "r = Inr False" using run' by auto
    then show ?thesis using foreign by simp
  next
    case move
    then have "st k \<noteq> None" using none by blast
    then have "st' = move_dir k k' st" "r = Inr True" using run' move by auto
    then show ?thesis using move by (simp add: new moved move_frame)
  next
    case taken
    then have "st k \<noteq> None" using none by blast
    then have "st' = st" "r = Inr False" using run' taken by auto
    then show ?thesis using taken by simp
  next
    case both
    then have "st k \<noteq> None" using none by blast
    then have "st' = rmtree h k st" "r = Inr True" using run' both by auto
    then show ?thesis using both by (auto simp: new gone rmtree_frame)
  qed
qed

section \<open>Witnesses\<close>

definition ex_plan :: claim_key where "ex_plan = (ex_hub, ''plan'', [''p''])"

text \<open>A plan held by \<open>alice\<close>, who left a marker that she gave it up.\<close>

definition ex_given_up :: claim_dir where
  "ex_given_up = (ex_claim_dir ''alice'' ''1970-01-02T03:46:40Z'' ''apply'')
     \<lparr>cd_marker := Some (Some (relinquished_doc (ex_caller 1 ''alice'') ''alice''))\<rparr>"

definition ex_given_up_store :: claims where
  "ex_given_up_store = [(ex_hub, ''plan'', []) \<mapsto> empty_dir, ex_plan \<mapsto> ex_given_up]"

lemma ex_obliging: "obliging (ex_caller pid sid)"
  by (simp add: obliging_def ex_caller_def)

lemma ex_names: "line_text ''alice''" "line_text ''bob''"
  by (simp_all add: line_text_def is_space_def)

theorem takeover_needs_evidence_witness:
  "\<exists>st''. take_over_claim (ex_caller 2 ''bob'') ''p'' ''handed off'' [] ex_given_up_store = (st'', Inr True)
     \<and> owner st'' ex_plan = Some (''bob'', CLAIM_STAGE_APPLY)
     \<and> read_claim_field (dir_at st'' ex_plan) ''taken_from_session_id'' = ''alice''"
proof -
  let ?h = "ex_caller 2 ''bob''"
  have "snd (take_over_claim ?h ''p'' ''handed off'' [] ex_given_up_store) = Inr True" by code_simp
  then obtain st'' where run: "take_over_claim ?h ''p'' ''handed off'' [] ex_given_up_store = (st'', Inr True)"
    by (metis prod.collapse)
  have key: "claim_dir_for ?h ''plan'' ''p'' [] = Some ex_plan" by code_simp
  have there: "ex_given_up_store ex_plan = Some ex_given_up" by (simp add: ex_given_up_store_def)
  have alice: "read_claim_field ex_given_up ''session_id'' = ''alice''" by code_simp
  have mine: "\<not> claim_held_by_me ?h ex_given_up (resolve_session_id ?h)" by code_simp
  have bob: "resolve_session_id ?h = ''bob''" by code_simp
  show ?thesis
    using takeover_needs_evidence [OF run [unfolded take_over_claim_def] key there mine refl ex_obliging] run
    by (simp add: bob alice ex_names)
qed

definition ex_baton :: claims where
  "ex_baton = [(ex_hub, ''handoff'', []) \<mapsto> empty_dir,
     ex_key \<mapsto> ex_claim_dir ''alice'' ''1970-01-02T03:46:40Z'' ''apply'']"

theorem follow_moves_claim_witness:
  "\<exists>st'. follow_handoff_claim (ex_caller 1 ''alice'') ''alice'' ''h.md'' ''i.md'' ex_baton = (st', Inr True)
     \<and> st' ex_key = None \<and> st' (ex_hub, ''handoff'', [''i.md'']) = ex_baton ex_key"
proof -
  let ?h = "ex_caller 1 ''alice''"
  have "snd (follow_handoff_claim ?h ''alice'' ''h.md'' ''i.md'' ex_baton) = Inr True" by code_simp
  then obtain st' where run: "follow_handoff_claim ?h ''alice'' ''h.md'' ''i.md'' ex_baton = (st', Inr True)"
    by (metis prod.collapse)
  have base: "claim_base ?h [] = Some ex_hub" by code_simp
  have names: "comps ''h.md'' = [''h.md'']" "comps ''i.md'' = [''i.md'']" by code_simp+
  have free: "h_rename_denied ?h = (\<lambda>_. False)" by (simp add: ex_caller_def)
  have hub: "ex_baton (ex_hub, ''handoff'', []) \<noteq> None" by code_simp
  have new: "ex_baton (ex_hub, ''handoff'', [''i.md'']) = None" by code_simp
  note moved = follow_moves_claim [OF ex_obliging free base names _ _ hub ex_key_def refl run]
  show ?thesis using moved run new by simp
qed

theorem claim_implements_lock_witness:
  "\<exists>st'. claim_artifact (ex_caller 2 ''bob'') ''handoff'' ''h.md'' [] ''apply'' ex_baton = (st', Inr False)
     \<and> owner st' ex_key = Some (''alice'', ''apply'')"
proof -
  let ?h = "ex_caller 2 ''bob''"
  obtain st' r where run: "claim_artifact ?h ''handoff'' ''h.md'' [] ''apply'' ex_baton = (st', r)" by fastforce
  have "names_claim ?h ''handoff'' ''h.md'' [] ex_key" by code_simp
  moreover have "resolve_session_id ?h = ''bob''" by code_simp
  moreover have "''apply'' \<in> {CLAIM_STAGE_BRIEF, CLAIM_STAGE_APPLY}" by code_simp
  moreover have "cd_files (dir_at ex_baton ex_key) ''session_id'' \<noteq> None" by code_simp
  moreover have "\<not> may_reenter ?h ''handoff'' (dir_at ex_baton ex_key)" "\<not> takeable ?h (dir_at ex_baton ex_key)"
    by code_simp+
  moreover have "owner ex_baton ex_key = Some (''alice'', ''apply'')" by code_simp
  ultimately show ?thesis
    using claim_implements_lock [where h = ?h and st = ex_baton and k = ex_key, OF _ ex_obliging _ _ _ run] run
    by (simp add: ex_names)
qed

section \<open>At the edges\<close>

text \<open>
  A reservation handed back by \<open>demote_claim_stage_to_brief\<close> is measured from the day it was first taken:
  the claim that a peer is refused before the demotion, it gets the moment after, from a live holder.
\<close>

definition ex_long_apply :: claims where
  "ex_long_apply = [(ex_hub, ''handoff'', []) \<mapsto> empty_dir,
     ex_key \<mapsto> ex_claim_dir ''alice'' ''1970-01-01T23:20:00Z'' ''apply'']"

lemma demoted_claim_is_taken:
  "snd (claim_artifact (ex_caller 2 ''bob'') ''handoff'' ''h.md'' [] ''brief'' ex_long_apply) = Inr False"
  "snd (demote_claim_stage_to_brief (ex_caller 1 ''alice'') ''handoff'' ''h.md'' [] ex_long_apply) = Inr True"
  "snd (claim_artifact (ex_caller 2 ''bob'') ''handoff'' ''h.md'' [] ''brief''
     (fst (demote_claim_stage_to_brief (ex_caller 1 ''alice'') ''handoff'' ''h.md'' [] ex_long_apply))) = Inr True"
  "session_live (ex_caller 2 ''bob'') ''alice''"
  by code_simp+

text \<open>
  A session that comes back to its row under another of its ids is told that it holds the row, but the lease
  is not refreshed: the refresh compares the recorded holder with the first id only.
\<close>

definition ex_two_ids :: caller where
  "ex_two_ids = (ex_caller 1 ''alice'')
     \<lparr>h_env := (\<lambda>v. if v = ''CLAUDE_SESSION_ID'' then ''new'' else if v = ''CLAUDE_CODE_SESSION_ID'' then ''alice'' else [])\<rparr>"

definition ex_row :: claim_key where "ex_row = (ex_hub, ''row'', [''bugs--r''])"

definition ex_row_store :: claims where
  "ex_row_store = [(ex_hub, ''row'', []) \<mapsto> empty_dir, ex_row \<mapsto> ex_claim_dir ''alice'' ''1970-01-01T23:20:00Z'' ''brief'']"

lemma row_lease_not_refreshed:
  "snd (claim_artifact ex_two_ids ''row'' ''state/bugs/r.yaml'' [] ''brief'' ex_row_store) = Inr True"
  "read_claim_field (dir_at (fst (claim_artifact ex_two_ids ''row'' ''state/bugs/r.yaml'' [] ''brief'' ex_row_store)) ex_row)
     ''claimed_at'' = ''1970-01-01T23:20:00Z''"
  "snd (claim_artifact (ex_caller 2 ''bob'') ''row'' ''state/bugs/r.yaml'' [] ''brief''
     (fst (claim_artifact ex_two_ids ''row'' ''state/bugs/r.yaml'' [] ''brief'' ex_row_store))) = Inr True"
  by code_simp+

text \<open>A name that is the directory of the class itself is taken over, and every claim of the class goes.\<close>

lemma dot_takes_all:
  "snd (claim_artifact (ex_caller 2 ''bob'') ''handoff'' ''.'' [] ''apply'' ex_baton) = Inr True"
  "fst (claim_artifact (ex_caller 2 ''bob'') ''handoff'' ''.'' [] ''apply'' ex_baton) ex_key = None"
  "holds ex_baton ex_key ''alice''"
  by code_simp+

text \<open>The key of a row is not unique among rows.\<close>

lemma row_keys_collide:
  "row_claim_key ''state/a/b--c.yaml'' = row_claim_key ''state/a--b/c.yaml''"
  "row_claim_key ''state/bugs/r.yaml'' = row_claim_key ''archive/bugs/r.yml''"
  by code_simp+

text \<open>A release whose removal the system refuses is reported as done.\<close>

lemma refused_removal_reported:
  "snd (release_artifact_outcome ((ex_caller 1 ''alice'')\<lparr>h_rm_denied := (\<lambda>_. True)\<rparr>) ''handoff'' ''h.md'' [] None ex_baton)
     = Inr Released"
  "held_by (fst (release_artifact_outcome ((ex_caller 1 ''alice'')\<lparr>h_rm_denied := (\<lambda>_. True)\<rparr>) ''handoff'' ''h.md'' [] None ex_baton))
     ex_key ''alice''"
  by code_simp+

text \<open>A session that holds the new name, and not the old one, is told otherwise when a peer holds the old one.\<close>

definition ex_two_batons :: claims where
  "ex_two_batons = ex_baton((ex_hub, ''handoff'', [''i.md'']) \<mapsto> ex_claim_dir ''bob'' ''1970-01-02T03:46:40Z'' ''apply'')"

lemma follow_refused_though_holding:
  "snd (follow_handoff_claim (ex_caller 2 ''bob'') ''bob'' ''h.md'' ''i.md'' ex_two_batons) = Inr False"
  "held_by ex_two_batons (ex_hub, ''handoff'', [''i.md'']) ''bob''" "\<not> held_by ex_two_batons ex_key ''bob''"
  by code_simp+

end
