(* ===== verification/Touch_Json.thy ===== *)
theory Touch_Json
  imports Dag_Paths
begin

text \<open>
  JSON text as the record of touched files is written in it: \<open>json.dumps\<close> with the compact separators,
  \<open>json.loads\<close>, and the conversions between numbers and text they rest on.

  In this part a string of the language is kept as its UTF-8 encoding (a lone surrogate in its three-byte
  form), so that a decoded line and the bytes it came from are the same characters.

  A finite float is a whole number of units of \<open>2 ^ -1074\<close>, the distance of the smallest two doubles: the
  order of the floats is the order of the units. The sign of zero is not kept. \<open>nearest\<close> rounds a fraction
  to the nearest double, ties to even; \<open>float_repr\<close> searches the shortest decimal that rounds back.

  The depth of nesting that the interpreter accepts is a parameter; deeper text raises \<open>RecursionError\<close>.
\<close>

section \<open>UTF-8\<close>

definition chr :: "int \<Rightarrow> char" where
  "chr n = char_of n"

definition ord :: "char \<Rightarrow> int" where
  "ord c = of_char c"

definition utf8 :: "int \<Rightarrow> string" where
  "utf8 n =
     (if n < 0x80 then [chr n]
      else if n < 0x800 then [chr (0xC0 + n div 64), chr (0x80 + n mod 64)]
      else if n < 0x10000 then [chr (0xE0 + n div 4096), chr (0x80 + n div 64 mod 64), chr (0x80 + n mod 64)]
      else [chr (0xF0 + n div 262144), chr (0x80 + n div 4096 mod 64), chr (0x80 + n div 64 mod 64),
            chr (0x80 + n mod 64)])"

text \<open>How many bytes follow a leading byte, and the bits it contributes.\<close>

definition tail_bytes :: "int \<Rightarrow> nat" where
  "tail_bytes b = (if b < 0xC0 then 0 else if b < 0xE0 then 1 else if b < 0xF0 then 2 else 3)"

definition lead_bits :: "int \<Rightarrow> int" where
  "lead_bits b = (if b < 0xC0 then b else if b < 0xE0 then b - 0xC0 else if b < 0xF0 then b - 0xE0 else b - 0xF0)"

function code_points :: "string \<Rightarrow> int list" where
  "code_points s =
     (case s of
        [] \<Rightarrow> []
      | c # cs \<Rightarrow>
          (let k = tail_bytes (ord c) in
           if length cs < k then ord c # code_points cs
           else foldl (\<lambda>v d. v * 64 + (ord d - 0x80)) (lead_bits (ord c)) (take k cs) # code_points (drop k cs)))"
  by pat_completeness auto
termination
  by (relation "measure length") auto

declare code_points.simps [simp del]

definition surrogate :: "int \<Rightarrow> bool" where
  "surrogate n = (0xD800 \<le> n \<and> n \<le> 0xDFFF)"

text \<open>\<open>bytes.decode("utf-8")\<close> accepts what encodes a sequence of scalar values, each in its shortest form.\<close>

definition utf8_ok :: "string \<Rightarrow> bool" where
  "utf8_ok s = (let ns = code_points s in
     list_all (\<lambda>n. 0 \<le> n \<and> n < 0x110000 \<and> \<not> surrogate n) ns \<and> concat (map utf8 ns) = s)"

section \<open>Floats\<close>

datatype py_float = Units int | Infinite bool | Nan

definition SCALE :: int where
  "SCALE = 2 ^ 1074"

function bit_len :: "int \<Rightarrow> nat" where
  "bit_len n = (if n \<le> 0 then 0 else Suc (bit_len (n div 2)))"
  by pat_completeness auto
termination
  by (relation "measure nat") auto

declare bit_len.simps [simp del]

text \<open>\<open>n / d\<close> to the nearest whole number, a tie to the even one.\<close>

definition half_even :: "int \<Rightarrow> int \<Rightarrow> int" where
  "half_even n d =
     (let q = n div d; r = n mod d in if 2 * r < d \<or> (2 * r = d \<and> even q) then q else q + 1)"

definition nearest :: "int \<Rightarrow> int \<Rightarrow> py_float" where
  "nearest n d =
     (let a = \<bar>n\<bar> * SCALE;
          u = 2 ^ (bit_len (a div d) - 53);
          m = half_even a (d * u) * u in
      if 2 ^ 1024 * SCALE \<le> m then Infinite (n < 0) else Units (sgn n * m))"

fun float_less :: "py_float \<Rightarrow> py_float \<Rightarrow> bool" where
  "float_less (Units a) (Units b) = (a < b)"
| "float_less (Units _) (Infinite negative) = (\<not> negative)"
| "float_less (Infinite negative) (Units _) = negative"
| "float_less (Infinite a) (Infinite b) = (a \<and> \<not> b)"
| "float_less _ _ = False"

fun float_eq :: "py_float \<Rightarrow> py_float \<Rightarrow> bool" where
  "float_eq Nan _ = False"
| "float_eq _ Nan = False"
| "float_eq a b = (a = b)"

definition zeros :: "nat \<Rightarrow> string" where
  "zeros n = replicate n CHR ''0''"

text \<open>\<open>repr\<close> of a float, from the digits and the place \<open>pt\<close> of the decimal point.\<close>

definition float_layout :: "string \<Rightarrow> int \<Rightarrow> string" where
  "float_layout ds pt =
     (if pt \<le> -4 \<or> 16 < pt then
        (let e = pt - 1; digits = decimal \<bar>e\<bar> in
         take 1 ds @ (if tl ds = [] then [] else ''.'' @ tl ds) @ ''e'' @ (if e < 0 then ''-'' else ''+'') @
         (if length digits < 2 then ''0'' else []) @ digits)
      else if pt \<le> 0 then ''0.'' @ zeros (nat (- pt)) @ ds
      else if int (length ds) \<le> pt then ds @ zeros (nat pt - length ds) @ ''.0''
      else take (nat pt) ds @ ''.'' @ drop (nat pt) ds)"

text \<open>The exponent of the leading digit of \<open>a / SCALE\<close> below 1: the number of factors 10 it takes to reach 1.\<close>

fun below_one :: "nat \<Rightarrow> int \<Rightarrow> nat" where
  "below_one 0 a = 0"
| "below_one (Suc n) a = (if SCALE \<le> a then 0 else Suc (below_one n (a * 10)))"

definition lead_exponent :: "int \<Rightarrow> int" where
  "lead_exponent a =
     (if SCALE \<le> a then int (length (decimal (a div SCALE))) - 1 else - int (below_one 400 a))"

text \<open>The decimal of \<open>k\<close> digits nearest to \<open>a / SCALE\<close>, as a fraction and as digits.\<close>

definition power_ratio :: "int \<Rightarrow> int \<times> int" where
  "power_ratio e = (if 0 \<le> e then (10 ^ nat e, 1) else (1, 10 ^ nat (- e)))"

definition round_digits :: "int \<Rightarrow> nat \<Rightarrow> int" where
  "round_digits a k =
     (case power_ratio (lead_exponent a - int k + 1) of (up, dn) \<Rightarrow> half_even (a * dn) (SCALE * up))"

definition digits_back :: "int \<Rightarrow> nat \<Rightarrow> bool" where
  "digits_back a k =
     (case power_ratio (lead_exponent a - int k + 1) of (up, dn) \<Rightarrow>
        nearest (round_digits a k * up) dn = Units a)"

fun shortest :: "nat \<Rightarrow> nat \<Rightarrow> int \<Rightarrow> nat" where
  "shortest 0 k a = k"
| "shortest (Suc n) k a = (if digits_back a k then k else shortest n (Suc k) a)"

fun float_repr :: "py_float \<Rightarrow> string" where
  "float_repr Nan = ''NaN''"
| "float_repr (Infinite negative) = (if negative then ''-Infinity'' else ''Infinity'')"
| "float_repr (Units u) =
     (if u = 0 then ''0.0''
      else (let k = shortest 16 1 \<bar>u\<bar>;
                ds = decimal (round_digits \<bar>u\<bar> k);
                pt = lead_exponent \<bar>u\<bar> + 1 + (int (length ds) - int k);
                sig = rev (dropWhile (\<lambda>c. c = CHR ''0'') (rev ds)) in
            (if u < 0 then ''-'' else []) @ float_layout sig pt))"

section \<open>Numbers from text\<close>

text \<open>The value of a decimal literal: its digits with the point removed, the number of digits after the
  point, and the exponent.\<close>

definition literal_float :: "bool \<Rightarrow> string \<Rightarrow> nat \<Rightarrow> int \<Rightarrow> py_float" where
  "literal_float negative ds places e =
     (let n = (if negative then - digits_value 10 ds else digits_value 10 ds) in
      (case power_ratio (e - int places) of (up, dn) \<Rightarrow> nearest (n * up) dn))"

definition take_sign :: "string \<Rightarrow> bool \<times> string" where
  "take_sign s = (if starts_with ''-'' s then (True, tl s) else if starts_with ''+'' s then (False, tl s) else (False, s))"

definition is_exp :: "char \<Rightarrow> bool" where
  "is_exp c = (c = CHR ''e'' \<or> c = CHR ''E'')"

text \<open>A fraction (\<open>.\<close> and digits) and an exponent at the head of a text, and what follows them.\<close>

definition take_fraction :: "string \<Rightarrow> string \<times> string" where
  "take_fraction s =
     (let ds = takeWhile is_dec (tl s) in
      if starts_with ''.'' s \<and> ds \<noteq> [] then (ds, drop (length ds) (tl s)) else ([], s))"

definition take_exponent :: "string \<Rightarrow> int option \<times> string" where
  "take_exponent s =
     (case take_sign (tl s) of (negative, r) \<Rightarrow>
        (let ds = takeWhile is_dec r in
         if s \<noteq> [] \<and> is_exp (hd s) \<and> ds \<noteq> []
           then (Some (if negative then - digits_value 10 ds else digits_value 10 ds), drop (length ds) r)
           else (None, s)))"

text \<open>\<open>float(s)\<close> of a string: blanks around it, a sign, single underscores between digits, and the names
  of the infinities and of not-a-number in any case.\<close>

definition plain_digits :: "string \<Rightarrow> string option" where
  "plain_digits s = (if s = [] then Some [] else drop_underscores s)"

definition lower :: "char \<Rightarrow> char" where
  "lower c = (if CHR ''A'' \<le> c \<and> c \<le> CHR ''Z'' then chr (ord c + 32) else c)"

definition is_digit_or_underscore :: "char \<Rightarrow> bool" where
  "is_digit_or_underscore c = (is_dec c \<or> c = CHR ''_'')"

definition float_of_text :: "string \<Rightarrow> py_float option" where
  "float_of_text raw =
     (case take_sign (py_strip raw) of (negative, s) \<Rightarrow>
        (let name = map lower s;
             whole = takeWhile is_digit_or_underscore s;
             after = dropWhile is_digit_or_underscore s;
             part = (if starts_with ''.'' after then takeWhile is_digit_or_underscore (tl after) else []);
             rest = (if starts_with ''.'' after then dropWhile is_digit_or_underscore (tl after) else after);
             digits = (case take_sign (tl rest) of (_, r) \<Rightarrow> r) in
         if name = ''inf'' \<or> name = ''infinity'' then Some (Infinite negative)
         else if name = ''nan'' then Some Nan
         else if whole = [] \<and> part = [] then None
         else (case (plain_digits whole, plain_digits part) of
                 (Some w, Some p) \<Rightarrow>
                    (if rest = [] then Some (literal_float negative (w @ p) (length p) 0)
                     else if is_exp (hd rest) then
                       (case drop_underscores digits of
                          None \<Rightarrow> None
                        | Some ds \<Rightarrow> Some (literal_float negative (w @ p) (length p)
                            (if fst (take_sign (tl rest)) then - digits_value 10 ds else digits_value 10 ds)))
                     else None)
               | _ \<Rightarrow> None)))"

section \<open>Reading JSON\<close>

datatype jval =
    NullV
  | BoolV bool
  | IntV int
  | FloatV py_float
  | TextV string
  | ListV "jval list"
  | ObjV "(string \<times> jval) list"

text \<open>The outcome of a scanner: a value and the text after it, or the exception raised
  (\<open>JSONDecodeError\<close>, the \<open>ValueError\<close> of an integer of too many digits, \<open>RecursionError\<close>).\<close>

datatype 'a scanned_text = Bad | Big | Deep | Got 'a string

fun scan_bind :: "'a scanned_text \<Rightarrow> ('a \<Rightarrow> string \<Rightarrow> 'b scanned_text) \<Rightarrow> 'b scanned_text" where
  "scan_bind (Got v r) f = f v r"
| "scan_bind Bad f = Bad"
| "scan_bind Big f = Big"
| "scan_bind Deep f = Deep"

definition is_json_space :: "char \<Rightarrow> bool" where
  "is_json_space c = (c = BLANK \<or> c = TAB \<or> c = NL \<or> c = CHR 0x0D)"

definition skip :: "string \<Rightarrow> string" where
  "skip s = dropWhile is_json_space s"

definition hex_value :: "char \<Rightarrow> int option" where
  "hex_value c =
     (if CHR ''0'' \<le> c \<and> c \<le> CHR ''9'' then Some (ord c - 48)
      else if CHR ''a'' \<le> c \<and> c \<le> CHR ''f'' then Some (ord c - 87)
      else if CHR ''A'' \<le> c \<and> c \<le> CHR ''F'' then Some (ord c - 55)
      else None)"

fun hex4 :: "string \<Rightarrow> int option" where
  "hex4 (a # b # c # d # r) =
     (case (hex_value a, hex_value b, hex_value c, hex_value d) of
        (Some w, Some x, Some y, Some z) \<Rightarrow> Some (w * 4096 + x * 256 + y * 16 + z)
      | _ \<Rightarrow> None)"
| "hex4 _ = None"

definition unescape :: "char \<Rightarrow> char option" where
  "unescape c =
     map_of [(DQ, DQ), (BSL, BSL), (SLASH, SLASH), (CHR ''b'', CHR 0x08), (CHR ''f'', CHR 0x0C),
       (CHR ''n'', NL), (CHR ''r'', CHR 0x0D), (CHR ''t'', TAB)] c"

definition low_surrogate :: "string \<Rightarrow> int option" where
  "low_surrogate s =
     (if starts_with [BSL, CHR ''u''] s
        then (case hex4 (drop 2 s) of None \<Rightarrow> None
              | Some m \<Rightarrow> if 0xDC00 \<le> m \<and> m \<le> 0xDFFF then Some m else None)
        else None)"

abbreviation prepend :: "string \<Rightarrow> string scanned_text \<Rightarrow> string scanned_text" where
  "prepend x t \<equiv> scan_bind t (\<lambda>s r. Got (x @ s) r)"

function scan_string :: "string \<Rightarrow> string scanned_text" where
  "scan_string s =
     (case s of
        [] \<Rightarrow> Bad
      | c # cs \<Rightarrow>
          if c = DQ then Got [] cs
          else if c = BSL then
            (case cs of
               [] \<Rightarrow> Bad
             | e # r \<Rightarrow>
                 if e = CHR ''u'' then
                   (case hex4 r of
                      None \<Rightarrow> Bad
                    | Some n \<Rightarrow>
                       (case (if 0xD800 \<le> n \<and> n \<le> 0xDBFF then low_surrogate (drop 4 r) else None) of
                          Some m \<Rightarrow> prepend (utf8 (0x10000 + (n - 0xD800) * 1024 + (m - 0xDC00))) (scan_string (drop 10 r))
                        | None \<Rightarrow> prepend (utf8 n) (scan_string (drop 4 r))))
                 else (case unescape e of None \<Rightarrow> Bad | Some x \<Rightarrow> prepend [x] (scan_string r)))
          else if ord c < 0x20 then Bad
          else prepend [c] (scan_string cs))"
  by pat_completeness auto
termination
  by (relation "measure length") auto

declare scan_string.simps [simp del]

definition MAX_INT_DIGITS :: nat where
  "MAX_INT_DIGITS = 4300"

text \<open>The whole part of a number: a single zero, or digits that do not start with one.\<close>

definition whole_digits :: "string \<Rightarrow> string" where
  "whole_digits s = (let ds = takeWhile is_dec s in if ds \<noteq> [] \<and> hd ds = CHR ''0'' then ''0'' else ds)"

definition scan_magnitude :: "bool \<Rightarrow> string \<Rightarrow> jval scanned_text" where
  "scan_magnitude negative s =
     (let ds = whole_digits s in
      if ds = [] then Bad
      else (case take_fraction (drop (length ds) s) of (fr, s2) \<Rightarrow>
            (case take_exponent s2 of (ex, s3) \<Rightarrow>
               if fr = [] \<and> ex = None then
                 (if MAX_INT_DIGITS < length ds then Big
                  else Got (IntV (if negative then - digits_value 10 ds else digits_value 10 ds)) s3)
               else Got (FloatV (literal_float negative (ds @ fr) (length fr) (case ex of None \<Rightarrow> 0 | Some e \<Rightarrow> e))) s3)))"

definition scan_number :: "string \<Rightarrow> jval scanned_text" where
  "scan_number s = (if starts_with ''-'' s then scan_magnitude True (tl s) else scan_magnitude False s)"

definition scan_word :: "string \<Rightarrow> jval \<Rightarrow> string \<Rightarrow> jval scanned_text \<Rightarrow> jval scanned_text" where
  "scan_word w v s otherwise = (if starts_with w s then Got v (drop (length w) s) else otherwise)"

definition scan_leaf :: "string \<Rightarrow> jval scanned_text" where
  "scan_leaf s =
     (if starts_with [DQ] s then scan_bind (scan_string (tl s)) (\<lambda>t r. Got (TextV t) r)
      else if starts_with ''{'' s \<or> starts_with ''['' s then Deep
      else scan_word ''null'' NullV s (scan_word ''true'' (BoolV True) s (scan_word ''false'' (BoolV False) s
            (scan_word ''NaN'' (FloatV Nan) s (scan_word ''Infinity'' (FloatV (Infinite False)) s
              (scan_word ''-Infinity'' (FloatV (Infinite True)) s (scan_number s)))))))"

text \<open>The members of an object and the items of an array; \<open>n\<close> bounds their number by the length of the text.\<close>

fun scan_members :: "(string \<Rightarrow> jval scanned_text) \<Rightarrow> nat \<Rightarrow> string \<Rightarrow> (string \<times> jval) list scanned_text" where
  "scan_members f 0 s = Bad"
| "scan_members f (Suc n) s =
     (if \<not> starts_with [DQ] s then Bad
      else scan_bind (scan_string (tl s)) (\<lambda>k r.
        if \<not> starts_with '':'' (skip r) then Bad
        else scan_bind (f (skip (tl (skip r)))) (\<lambda>v r'.
          if starts_with ''}'' (skip r') then Got [(k, v)] (tl (skip r'))
          else if starts_with '','' (skip r')
            then scan_bind (scan_members f n (skip (tl (skip r')))) (\<lambda>kvs r''. Got ((k, v) # kvs) r'')
          else Bad)))"

fun scan_items :: "(string \<Rightarrow> jval scanned_text) \<Rightarrow> nat \<Rightarrow> string \<Rightarrow> jval list scanned_text" where
  "scan_items f 0 s = Bad"
| "scan_items f (Suc n) s =
     scan_bind (f s) (\<lambda>v r.
       if starts_with '']'' (skip r) then Got [v] (tl (skip r))
       else if starts_with '','' (skip r)
         then scan_bind (scan_items f n (skip (tl (skip r)))) (\<lambda>vs r'. Got (v # vs) r')
       else Bad)"

definition dict_of :: "(string \<times> jval) list \<Rightarrow> (string \<times> jval) list" where
  "dict_of kvs = foldl (\<lambda>d kv. AList.update (fst kv) (snd kv) d) [] kvs"

definition scan_object :: "(string \<Rightarrow> jval scanned_text) \<Rightarrow> string \<Rightarrow> jval scanned_text" where
  "scan_object f s =
     (if starts_with ''}'' (skip s) then Got (ObjV []) (tl (skip s))
      else scan_bind (scan_members f (Suc (length s)) (skip s)) (\<lambda>kvs r. Got (ObjV (dict_of kvs)) r))"

definition scan_array :: "(string \<Rightarrow> jval scanned_text) \<Rightarrow> string \<Rightarrow> jval scanned_text" where
  "scan_array f s =
     (if starts_with '']'' (skip s) then Got (ListV []) (tl (skip s))
      else scan_bind (scan_items f (Suc (length s)) (skip s)) (\<lambda>vs r. Got (ListV vs) r))"

fun scan_value :: "nat \<Rightarrow> string \<Rightarrow> jval scanned_text" where
  "scan_value 0 s = scan_leaf s"
| "scan_value (Suc d) s =
     (if starts_with ''{'' s then scan_object (scan_value d) (tl s)
      else if starts_with ''['' s then scan_array (scan_value d) (tl s)
      else scan_leaf s)"

definition BOM :: string where
  "BOM = [chr 0xEF, chr 0xBB, chr 0xBF]"

definition loads :: "nat \<Rightarrow> string \<Rightarrow> jval scanned_text" where
  "loads lim s =
     (if starts_with BOM s then Bad
      else scan_bind (scan_value lim (skip s)) (\<lambda>v r. if skip r = [] then Got v [] else Bad))"

section \<open>Writing JSON\<close>

definition hex_char :: "int \<Rightarrow> char" where
  "hex_char n = BASE36_DIGITS ! nat n"

definition u_escape :: "int \<Rightarrow> string" where
  "u_escape n = [BSL, CHR ''u'', hex_char (n div 4096 mod 16), hex_char (n div 256 mod 16),
     hex_char (n div 16 mod 16), hex_char (n mod 16)]"

definition escape :: "int \<Rightarrow> string" where
  "escape n =
     (if n = 0x22 then [BSL, DQ] else if n = 0x5C then [BSL, BSL]
      else if n = 0x0A then [BSL, CHR ''n''] else if n = 0x0D then [BSL, CHR ''r'']
      else if n = 0x09 then [BSL, CHR ''t''] else if n = 0x0C then [BSL, CHR ''f'']
      else if n = 0x08 then [BSL, CHR ''b'']
      else if 0x20 \<le> n \<and> n < 0x7F then [chr n]
      else if n < 0x10000 then u_escape n
      else u_escape (0xD800 + (n - 0x10000) div 1024 mod 1024) @ u_escape (0xDC00 + (n - 0x10000) mod 1024))"

definition quote :: "string \<Rightarrow> string" where
  "quote s = [DQ] @ concat (map escape (code_points s)) @ [DQ]"

fun dumps :: "jval \<Rightarrow> string" where
  "dumps NullV = ''null''"
| "dumps (BoolV b) = (if b then ''true'' else ''false'')"
| "dumps (IntV n) = str_int n"
| "dumps (FloatV t) = float_repr t"
| "dumps (TextV s) = quote s"
| "dumps (ListV vs) = ''['' @ join_with '','' (map dumps vs) @ '']''"
| "dumps (ObjV kvs) = ''{'' @ join_with '','' (map (\<lambda>kv. quote (fst kv) @ '':'' @ dumps (snd kv)) kvs) @ ''}''"

section \<open>Strings are read back\<close>

lemma ord_chr [simp]: "0 \<le> n \<Longrightarrow> n < 256 \<Longrightarrow> ord (chr n) = n"
  by (simp add: ord_def chr_def)

lemma chr_ord [simp]: "chr (ord c) = c"
  by (simp add: ord_def chr_def)

lemma ord_bounds: "0 \<le> ord c" "ord c < 256"
  using of_char_mod_256 [of c, where 'a = int] pos_mod_sign [of 256 "of_char c"] pos_mod_bound [of 256 "of_char c"]
  by (simp_all add: ord_def)

definition scalar :: "int \<Rightarrow> bool" where
  "scalar n = (0 \<le> n \<and> n < 0x110000 \<and> \<not> surrogate n)"

lemma small_cases: "0 \<le> (k::int) \<Longrightarrow> k < 16 \<Longrightarrow> k \<in> {0, 1, 2, 3, 4, 5, 6, 7, 8, 9, 10, 11, 12, 13, 14, 15}"
  by (simp; presburger)

lemma hex_value_digit [simp]: "0 \<le> k \<Longrightarrow> k < 16 \<Longrightarrow> hex_value (hex_char k) = Some k"
  by (drule (1) small_cases, simp only: insert_iff empty_iff)
    (elim disjE; simp add: hex_char_def hex_value_def BASE36_DIGITS_def ord_def)

lemma four_digits:
  "\<lbrakk>n = a * 16 + r0; a = b * 16 + r1; b = c * 16 + r2\<rbrakk> \<Longrightarrow> c * 4096 + r2 * 256 + r1 * 16 + r0 = (n::int)"
  by simp

lemma hex_split: "n div 4096 * 4096 + n div 256 mod 16 * 256 + n div 16 mod 16 * 16 + n mod 16 = (n::int)"
proof -
  have "n div 256 = n div 16 div 16" "n div 4096 = n div 16 div 16 div 16"
    using zdiv_zmult2_eq [of 16 n 16] zdiv_zmult2_eq [of 16 "n" 256] zdiv_zmult2_eq [of 16 "n div 16" 16] by simp_all
  then show ?thesis
    by (simp only:) (rule four_digits [OF div_mult_mod_eq [symmetric] div_mult_mod_eq [symmetric] div_mult_mod_eq [symmetric]])
qed

lemma hex4_digits:
  "\<lbrakk>0 \<le> w; w < 16; 0 \<le> x; x < 16; 0 \<le> y; y < 16; 0 \<le> z; z < 16\<rbrakk> \<Longrightarrow>
   hex4 (hex_char w # hex_char x # hex_char y # hex_char z # r) = Some (w * 4096 + x * 256 + y * 16 + z)"
  by simp

lemma hex4_u_escape:
  assumes "0 \<le> n" "n < 0x10000"
  shows "hex4 (hex_char (n div 4096 mod 16) # hex_char (n div 256 mod 16) # hex_char (n div 16 mod 16) #
      hex_char (n mod 16) # r) = Some n"
proof -
  have "0 \<le> n div 4096" "n div 4096 < 16" using assms by (simp_all add: div_less_iff_less_mult)
  then have top: "n div 4096 mod 16 = n div 4096" by (rule mod_pos_pos_trivial)
  have "hex4 (hex_char (n div 4096 mod 16) # hex_char (n div 256 mod 16) # hex_char (n div 16 mod 16) #
      hex_char (n mod 16) # r) = Some (n div 4096 mod 16 * 4096 + n div 256 mod 16 * 256 + n div 16 mod 16 * 16 + n mod 16)"
    by (rule hex4_digits) simp_all
  then show ?thesis unfolding top hex_split .
qed

lemma scan_string_Cons:
  "scan_string (DQ # r) = Got [] r"
  "e \<noteq> CHR ''u'' \<Longrightarrow> scan_string (BSL # e # r) =
     (case unescape e of None \<Rightarrow> Bad | Some x \<Rightarrow> prepend [x] (scan_string r))"
  "c \<noteq> DQ \<Longrightarrow> c \<noteq> BSL \<Longrightarrow> 0x20 \<le> ord c \<Longrightarrow> scan_string (c # r) = prepend [c] (scan_string r)"
  by (simp_all add: scan_string.simps [of "_ # _"])

lemma scan_string_u:
  assumes "0 \<le> n" "n < 0x10000" "\<not> (0xD800 \<le> n \<and> n \<le> 0xDBFF)"
  shows "scan_string (u_escape n @ r) = prepend (utf8 n) (scan_string r)"
  using assms(3) by (subst scan_string.simps)
    (auto simp: u_escape_def hex4_u_escape [OF assms(1,2)] eval_nat_numeral simp del: hex4.simps)

lemma scan_string_pair:
  assumes "0 \<le> a" "a < 1024" "0 \<le> b" "b < 1024"
  shows "scan_string (u_escape (0xD800 + a) @ u_escape (0xDC00 + b) @ r) =
    prepend (utf8 (0x10000 + a * 1024 + b)) (scan_string r)"
proof -
  have "hex4 (drop 2 (u_escape (0xDC00 + b)) @ r) = Some (0xDC00 + b)"
    using assms hex4_u_escape [of "0xDC00 + b" r] by (simp add: u_escape_def del: hex4.simps)
  moreover have "hex4 (drop 2 (u_escape (0xD800 + a)) @ q) = Some (0xD800 + a)" for q
    using assms hex4_u_escape [of "0xD800 + a" q] by (simp add: u_escape_def del: hex4.simps)
  ultimately show ?thesis using assms
    by (subst scan_string.simps)
      (simp add: u_escape_def low_surrogate_def starts_with_def eval_nat_numeral algebra_simps del: hex4.simps)
qed

lemma chr_eqI: "ord c = n \<Longrightarrow> chr n = c"
  by auto

lemma chr_eq: "0 \<le> m \<Longrightarrow> m < 256 \<Longrightarrow> 0 \<le> n \<Longrightarrow> n < 256 \<Longrightarrow> chr m = chr n \<longleftrightarrow> m = n"
  by (metis ord_chr)

lemma special_codes: "chr 34 = DQ" "chr 92 = BSL" "chr 10 = NL" "chr 13 = CHR 0x0D" "chr 9 = TAB"
  "chr 12 = CHR 0x0C" "chr 8 = CHR 0x08"
  by (rule chr_eqI; simp add: ord_def)+

lemma scan_string_escape:
  assumes "scalar n" shows "scan_string (escape n @ r) = prepend (utf8 n) (scan_string r)"
proof (cases "n < 0x10000")
  case True
  show ?thesis
  proof (cases "n \<in> {0x22, 0x5C, 0x0A, 0x0D, 0x09, 0x0C, 0x08}")
    case True
    then show ?thesis by (auto simp: escape_def utf8_def scan_string_Cons unescape_def special_codes)
  next
    case False
    show ?thesis
    proof (cases "0x20 \<le> n \<and> n < 0x7F")
      case True
      then have "ord (chr n) = n" by simp
      then have "chr n \<noteq> DQ" "chr n \<noteq> BSL" "0x20 \<le> ord (chr n)" using False True
        by (auto simp: special_codes [symmetric] chr_eq)
      then show ?thesis using False True by (auto simp: escape_def utf8_def scan_string_Cons)
    next
      case no: False
      then have "escape n = u_escape n" using False \<open>n < 0x10000\<close> by (auto simp: escape_def)
      moreover have "scan_string (u_escape n @ r) = prepend (utf8 n) (scan_string r)"
        using assms \<open>n < 0x10000\<close> by (intro scan_string_u) (auto simp: scalar_def surrogate_def)
      ultimately show ?thesis by simp
    qed
  qed
next
  case False
  define m where "m = n - 0x10000"
  have m: "0 \<le> m" "m < 0x100000" using False assms by (simp_all add: m_def scalar_def)
  then have a: "0 \<le> m div 1024" "m div 1024 < 1024" by (simp_all add: div_less_iff_less_mult)
  have "escape n = u_escape (0xD800 + m div 1024) @ u_escape (0xDC00 + m mod 1024)"
    using False a by (simp add: escape_def m_def [symmetric] mod_pos_pos_trivial)
  moreover have "0x10000 + m div 1024 * 1024 + m mod 1024 = n"
    using div_mult_mod_eq [of m 1024] by (simp add: m_def)
  ultimately show ?thesis using scan_string_pair [OF a, of "m mod 1024"] by simp
qed

lemma scan_string_escapes:
  "list_all scalar ns \<Longrightarrow> scan_string (concat (map escape ns) @ DQ # r) = Got (concat (map utf8 ns)) r"
  by (induction ns) (simp_all add: scan_string_Cons scan_string_escape)

lemma utf8_okD: "utf8_ok s \<Longrightarrow> list_all scalar (code_points s) \<and> concat (map utf8 (code_points s)) = s"
  by (simp add: utf8_ok_def Let_def scalar_def list_all_iff)

theorem quote_roundtrip: "utf8_ok s \<Longrightarrow> scan_string (tl (quote s) @ r) = Got s r"
  using scan_string_escapes [of "code_points s" r] utf8_okD [of s] by (simp add: quote_def)

section \<open>Values are read back\<close>

definition delim :: "string \<Rightarrow> bool" where
  "delim r = (r = [] \<or> hd r = CHR '','' \<or> hd r = CHR '']'' \<or> hd r = CHR ''}'')"

lemma delim_simps [simp]: "delim []" "delim (CHR '','' # r)" "delim (CHR '']'' # r)" "delim (CHR ''}'' # r)"
  by (simp_all add: delim_def)

lemma starts_with_Nil [simp]: "starts_with [] s"
  by (simp add: starts_with_def)

lemma starts_with_Cons [simp]: "starts_with (a # w) s = (case s of [] \<Rightarrow> False | c # cs \<Rightarrow> c = a \<and> starts_with w cs)"
  by (cases s) (auto simp: starts_with_def)

lemma starts_with_delim:
  "\<lbrakk>delim r; CHR '','' \<notin> set w; CHR '']'' \<notin> set w; CHR ''}'' \<notin> set w\<rbrakk> \<Longrightarrow> starts_with w (s @ r) = starts_with w s"
  by (induction w arbitrary: s) (auto simp: delim_def split: list.splits)

lemma length_takeWhile_diff [simp]: "length (takeWhile p s) - length s = 0"
  by (simp add: length_takeWhile_le)

lemma delim_not_dec [simp]: "\<not> is_dec CHR '',''" "\<not> is_dec CHR '']''" "\<not> is_dec CHR ''}''"
  by (simp_all add: is_dec_def in_range_def)

lemma takeWhile_delim [simp]: "delim r \<Longrightarrow> takeWhile is_dec (s @ r) = takeWhile is_dec s"
  by (induction s) (auto simp: delim_def takeWhile_eq_Nil_iff)

lemma take_sign_delim: "delim r \<Longrightarrow> take_sign (s @ r) = (fst (take_sign s), snd (take_sign s) @ r)"
  by (cases s) (auto simp: take_sign_def delim_def split: list.splits)

lemma drop_takeWhile_append: "drop (length (takeWhile p s)) (s @ r) = drop (length (takeWhile p s)) s @ r"
  using length_takeWhile_le [of p s] by simp

lemma take_fraction_delim: "delim r \<Longrightarrow> take_fraction (s @ r) = (fst (take_fraction s), snd (take_fraction s) @ r)"
  by (cases s) (auto simp: take_fraction_def delim_def Let_def drop_takeWhile_append split: list.splits)

lemma take_exponent_delim: "delim r \<Longrightarrow> take_exponent (s @ r) = (fst (take_exponent s), snd (take_exponent s) @ r)"
  by (cases s) (auto simp: take_exponent_def delim_def Let_def is_exp_def take_sign_delim [unfolded delim_def]
      takeWhile_delim [unfolded delim_def] drop_takeWhile_append split: prod.splits)

lemma whole_digits_length [simp]: "length (whole_digits s) - length s = 0"
  using length_takeWhile_le [of is_dec s] by (cases s) (auto simp: whole_digits_def Let_def)

lemma whole_digits_delim [simp]: "delim r \<Longrightarrow> whole_digits (s @ r) = whole_digits s"
  by (simp add: whole_digits_def)

lemma scan_magnitude_delim:
  "scan_magnitude negative s = Got v [] \<Longrightarrow> delim r \<Longrightarrow> scan_magnitude negative (s @ r) = Got v r"
  by (auto simp: scan_magnitude_def Let_def take_fraction_delim take_exponent_delim
      split: prod.splits if_splits)

lemma scan_magnitude_Nil [simp]: "scan_magnitude negative [] = Bad"
  by (simp add: scan_magnitude_def whole_digits_def)

lemma scan_number_delim:
  "scan_number s = Got v [] \<Longrightarrow> delim r \<Longrightarrow> scan_number (s @ r) = Got v r"
  using scan_magnitude_delim [of False s v r] scan_magnitude_delim [of True "tl s" v r]
  by (cases s) (auto simp: scan_number_def split: if_splits)

definition open_char :: "char \<Rightarrow> bool" where
  "open_char c = (c = DQ \<or> c = CHR ''{'' \<or> c = CHR ''['')"

lemma scan_word_delim:
  assumes "scan_word w x s t = Got v []" "t = Got v [] \<Longrightarrow> t' = Got v r" "delim r"
    "CHR '','' \<notin> set w" "CHR '']'' \<notin> set w" "CHR ''}'' \<notin> set w"
  shows "scan_word w x (s @ r) t' = Got v r"
  using assms starts_with_delim [OF assms(3-6), of s]
  by (auto simp: scan_word_def starts_with_def split: if_splits)

lemma scan_leaf_delim:
  assumes "scan_leaf s = Got v []" "delim r" "s \<noteq> []" "\<not> open_char (hd s)"
  shows "scan_leaf (s @ r) = Got v r"
proof -
  have plain: "scan_leaf t = scan_word ''null'' NullV t (scan_word ''true'' (BoolV True) t (scan_word ''false'' (BoolV False) t
            (scan_word ''NaN'' (FloatV Nan) t (scan_word ''Infinity'' (FloatV (Infinite False)) t
              (scan_word ''-Infinity'' (FloatV (Infinite True)) t (scan_number t))))))"
    if "t \<noteq> []" "\<not> open_char (hd t)" for t
    using that by (cases t) (auto simp: scan_leaf_def open_char_def)
  show ?thesis
    using assms(1) plain [OF assms(3,4)] plain [of "s @ r"] assms(3,4)
    by (auto intro!: scan_word_delim [OF _ _ assms(2)] scan_number_delim [OF _ assms(2)])
qed

section \<open>Numbers are read back\<close>

lemma digit_mem: "0 \<le> k \<Longrightarrow> k < 10 \<Longrightarrow> is_dec (BASE36_DIGITS ! nat k)"
proof -
  have "list_all (\<lambda>d. is_dec (BASE36_DIGITS ! d)) [0..<10]" by code_simp
  then show "0 \<le> k \<Longrightarrow> k < 10 \<Longrightarrow> is_dec (BASE36_DIGITS ! nat k)" by (auto simp: list_all_iff nat_less_iff)
qed

lemma decimal_facts:
  "0 \<le> n \<Longrightarrow> list_all is_dec (decimal n) \<and> decimal n \<noteq> [] \<and> digits_value 10 (decimal n) = n \<and>
     (hd (decimal n) = CHR ''0'' \<longrightarrow> n = 0)"
proof (induction n rule: decimal.induct)
  case (1 n)
  show ?case
  proof (cases "n < 10")
    case True
    have "list_all (\<lambda>d. BASE36_DIGITS ! d = CHR ''0'' \<longrightarrow> d = 0) [0..<10]" by code_simp
    then have "BASE36_DIGITS ! nat n = CHR ''0'' \<longrightarrow> n = 0" using True 1 by (auto simp: list_all_iff nat_less_iff)
    then show ?thesis using True 1 digits_value_snoc [of 10 "[]"]
      by (simp add: decimal.simps [of n] digit_mem digit_value_nth)
  next
    case False
    then have "0 \<le> n div 10" "0 < n div 10" using 1 by (simp_all add: pos_imp_zdiv_pos_iff)
    then show ?thesis using 1 False
      by (simp add: decimal.simps [of n] digit_mem digit_value_nth hd_append)
  qed
qed

lemma takeWhile_all: "list_all p s \<Longrightarrow> takeWhile p s = s"
  by (induction s) auto

lemma scan_magnitude_decimal:
  assumes "0 \<le> n" "length (decimal n) \<le> MAX_INT_DIGITS"
  shows "scan_magnitude negative (decimal n) = Got (IntV (if negative then - n else n)) []"
proof -
  have "whole_digits (decimal n) = decimal n"
  proof (cases "hd (decimal n) = CHR ''0''")
    case True
    then have "n = 0" using decimal_facts [OF assms(1)] by blast
    moreover have "decimal 0 = ''0''" by (simp add: decimal.simps [of 0] BASE36_DIGITS_def)
    ultimately show ?thesis by (simp add: whole_digits_def is_dec_def in_range_def)
  next
    case False
    then show ?thesis using decimal_facts [OF assms(1)] by (simp add: whole_digits_def takeWhile_all)
  qed
  then show ?thesis using assms decimal_facts [OF assms(1)]
    by (simp add: scan_magnitude_def take_fraction_def take_exponent_def take_sign_def)
qed

section \<open>Texts are read back\<close>

text \<open>A float whose printed form reads as the same float, and the values that the reader returns as they
  were written: integers within the limit, valid text, distinct keys, nesting within the depth.\<close>

definition reads_back :: "py_float \<Rightarrow> bool" where
  "reads_back t = (scan_leaf (float_repr t) = Got (FloatV t) [])"

fun leaf_fits :: "jval \<Rightarrow> bool" where
  "leaf_fits NullV = True"
| "leaf_fits (BoolV b) = True"
| "leaf_fits (IntV n) = (length (decimal \<bar>n\<bar>) \<le> MAX_INT_DIGITS)"
| "leaf_fits (FloatV t) = reads_back t"
| "leaf_fits (TextV s) = utf8_ok s"
| "leaf_fits _ = False"

primrec fits :: "nat \<Rightarrow> jval \<Rightarrow> bool" where
  "fits 0 v = leaf_fits v"
| "fits (Suc d) v =
     (case v of
        ListV vs \<Rightarrow> list_all (fits d) vs
      | ObjV kvs \<Rightarrow> distinct (map fst kvs) \<and> list_all (\<lambda>kv. utf8_ok (fst kv) \<and> fits d (snd kv)) kvs
      | _ \<Rightarrow> leaf_fits v)"

definition plain_head :: "string \<Rightarrow> bool" where
  "plain_head s = (s \<noteq> [] \<and> \<not> is_json_space (hd s) \<and> hd s \<notin> {chr 0xEF, CHR '']'', CHR ''}''})"

lemma bom_char [simp]: "chr 0xEF = CHR 0xEF"
  by (rule chr_eqI) (simp add: ord_def)

lemma dec_plain: "is_dec c \<Longrightarrow> \<not> is_json_space c \<and> c \<notin> {CHR 0xEF, CHR '']'', CHR ''}''} \<and> \<not> open_char c \<and> c \<noteq> CHR ''-'' \<and> c \<notin> set ''ntfNI''"
  by (auto simp: is_dec_def in_range_def is_json_space_def open_char_def)

lemma skip_plain [simp]: "plain_head s \<Longrightarrow> skip (s @ r) = s @ r"
  by (cases s) (auto simp: plain_head_def skip_def)

lemma number_needs_digit: "scan_number s = Got v r \<Longrightarrow> s \<noteq> [] \<and> (is_dec (hd s) \<or> hd s = CHR ''-'')"
  by (cases s) (auto simp: scan_number_def scan_magnitude_def whole_digits_def Let_def split: if_splits)

lemma leaf_plain_head: "scan_leaf s = Got v r \<Longrightarrow> plain_head s"
proof (cases s)
  case (Cons c cs)
  assume "scan_leaf s = Got v r"
  then have "c \<in> {DQ, CHR ''n'', CHR ''t'', CHR ''f'', CHR ''N'', CHR ''I'', CHR ''-''} \<or> is_dec c"
    using Cons number_needs_digit [of s v r] by (auto simp: scan_leaf_def scan_word_def split: if_splits)
  then show ?thesis using Cons dec_plain [of c]
    by (auto simp: plain_head_def is_json_space_def)
qed (simp add: scan_leaf_def scan_word_def scan_number_def)

lemma leaf_roundtrip:
  assumes "leaf_fits v" "delim r"
  shows "scan_leaf (dumps v @ r) = Got v r \<and> plain_head (dumps v)"
proof -
  have number: "scan_leaf (str_int n) = Got (IntV n) []" if n: "length (decimal \<bar>n\<bar>) \<le> MAX_INT_DIGITS" for n
  proof -
    obtain c cs where d: "decimal \<bar>n\<bar> = c # cs" "is_dec c"
      using decimal_facts [of "\<bar>n\<bar>"] by (cases "decimal \<bar>n\<bar>") auto
    have "scan_number (str_int n) = Got (IntV n) []"
      using scan_magnitude_decimal [of "\<bar>n\<bar>"] n d dec_plain [OF d(2)]
      by (auto simp: scan_number_def str_int_def abs_if split: if_splits)
    then show ?thesis using d dec_plain [OF d(2)]
      by (auto simp: scan_leaf_def scan_word_def str_int_def open_char_def abs_if split: if_splits)
  qed
  have open_head: "\<not> open_char (hd s)" if "scan_leaf s = Got x []" "\<forall>t. x \<noteq> TextV t" for s x
    using that by (cases s) (auto simp: scan_leaf_def open_char_def scan_word_def scan_number_def
        elim!: scan_bind.elims)
  have "scan_leaf (dumps v) = Got v []"
    using assms(1) number quote_roundtrip [where r = "[]"]
    by (cases v) (auto simp: reads_back_def scan_leaf_def scan_word_def quote_def starts_with_def)
  then show ?thesis
  proof (cases "\<exists>s. v = TextV s")
    case True
    then show ?thesis using assms quote_roundtrip [of _ r]
      by (auto simp: scan_leaf_def quote_def plain_head_def is_json_space_def)
  next
    case False
    then show ?thesis
      using \<open>scan_leaf (dumps v) = Got v []\<close> scan_leaf_delim [OF _ assms(2)] leaf_plain_head open_head
      by (auto simp: plain_head_def)
  qed
qed

lemma update_new_key: "k \<notin> fst ` set d \<Longrightarrow> AList.update k v d = d @ [(k, v)]"
  by (induction d) auto

lemma dict_of_distinct: "distinct (map fst kvs) \<Longrightarrow> dict_of kvs = kvs"
proof -
  have "distinct (map fst (d @ kvs)) \<Longrightarrow> foldl (\<lambda>d kv. AList.update (fst kv) (snd kv) d) d kvs = d @ kvs" for d
  proof (induction kvs arbitrary: d)
    case (Cons kv kvs)
    have "AList.update (fst kv) (snd kv) d = d @ [kv]" using Cons.prems update_new_key [of "fst kv" d "snd kv"] by auto
    then show ?case using Cons.prems Cons.IH [of "d @ [kv]"] by simp
  qed simp
  then show "distinct (map fst kvs) \<Longrightarrow> dict_of kvs = kvs" by (simp add: dict_of_def)
qed

lemma skip_Cons [simp]: "skip (c # s) = (if is_json_space c then skip s else c # s)"
  by (simp add: skip_def)

lemma not_space [simp]: "\<not> is_json_space CHR '',''" "\<not> is_json_space CHR '':''" "\<not> is_json_space CHR ''}''"
  "\<not> is_json_space CHR '']''" "\<not> is_json_space DQ" "\<not> is_json_space CHR ''{''" "\<not> is_json_space CHR ''[''"
  by (simp_all add: is_json_space_def)

lemma join_with_Cons: "xs \<noteq> [] \<Longrightarrow> join_with sep (x # xs) = x @ sep @ join_with sep xs"
  by (cases xs) auto

lemma scan_items_roundtrip:
  "\<lbrakk>vs \<noteq> []; length vs \<le> n;
    \<And>v r. v \<in> set vs \<Longrightarrow> delim r \<Longrightarrow> f (g v @ r) = Got v r \<and> plain_head (g v)\<rbrakk> \<Longrightarrow>
   scan_items f n (join_with '','' (map g vs) @ CHR '']'' # r) = Got vs r"
proof (induction vs arbitrary: n)
  case (Cons v vs)
  obtain m where n: "n = Suc m" using Cons.prems(2) by (cases n) auto
  show ?case
  proof (cases "vs = []")
    case True
    then show ?thesis using n Cons.prems(3) [of v "CHR '']'' # r"] by simp
  next
    case False
    have "plain_head (g (hd vs))" using Cons.prems(3) [of "hd vs" "[]"] False by simp
    then have "skip (join_with '','' (map g vs) @ CHR '']'' # r) = join_with '','' (map g vs) @ CHR '']'' # r"
      using False by (cases vs; cases "tl vs") auto
    then show ?thesis
      using n False Cons.IH [of m] Cons.prems Cons.prems(3) [of v "CHR '','' # join_with '','' (map g vs) @ CHR '']'' # r"]
      by (simp add: join_with_Cons)
  qed
qed simp

lemma scan_members_roundtrip:
  "\<lbrakk>kvs \<noteq> []; length kvs \<le> n;
    \<And>k v r. (k, v) \<in> set kvs \<Longrightarrow> delim r \<Longrightarrow> utf8_ok k \<and> f (g v @ r) = Got v r \<and> plain_head (g v)\<rbrakk> \<Longrightarrow>
   scan_members f n (join_with '','' (map (\<lambda>kv. quote (fst kv) @ '':'' @ g (snd kv)) kvs) @ CHR ''}'' # r) = Got kvs r"
proof (induction kvs arbitrary: n)
  case (Cons kv kvs)
  obtain k v where kv: "kv = (k, v)" by fastforce
  obtain m where n: "n = Suc m" using Cons.prems(2) by (cases n) auto
  obtain w where key: "quote k = DQ # w" "\<And>q. scan_string (w @ q) = Got k q"
    using Cons.prems(3) [of k v "[]"] kv quote_roundtrip [of k] by (auto simp: quote_def)
  have val: "f (g v @ q) = Got v q" "skip (g v @ q) = g v @ q" if "delim q" for q
    using Cons.prems(3) [of k v q] kv that by simp_all
  show ?case
  proof (cases "kvs = []")
    case True
    then show ?thesis using n kv key val [of "CHR ''}'' # r"] by simp
  next
    case False
    let ?rest = "join_with '','' (map (\<lambda>kv. quote (fst kv) @ '':'' @ g (snd kv)) kvs) @ CHR ''}'' # r"
    have "skip ?rest = ?rest" using False by (cases kvs; cases "tl kvs") (auto simp: quote_def)
    moreover have "scan_members f m ?rest = Got kvs r"
    proof (rule Cons.IH)
      show "kvs \<noteq> []" "length kvs \<le> m" using False n Cons.prems(2) by simp_all
      show "utf8_ok k \<and> f (g v @ q) = Got v q \<and> plain_head (g v)" if "(k, v) \<in> set kvs" "delim q" for k v q
        using that Cons.prems(3) [of k v q] by simp
    qed
    ultimately show ?thesis
      using n kv False key val [of "CHR '','' # ?rest"] by (simp add: join_with_Cons)
  qed
qed simp

lemma length_join: "list_all (\<lambda>x. x \<noteq> []) xs \<Longrightarrow> length xs \<le> length (join_with sep xs)"
  by (induction sep xs rule: join_with.induct) (auto simp: Suc_le_eq intro: le_less_trans)

lemma plain_head_join: "xs \<noteq> [] \<Longrightarrow> plain_head (hd xs) \<Longrightarrow> plain_head (join_with sep xs)"
  by (cases xs; cases "tl xs") (auto simp: plain_head_def)

lemma plain_not_close: "plain_head s \<Longrightarrow> \<not> starts_with '']'' (s @ r) \<and> \<not> starts_with ''}'' (s @ r)"
  by (cases s) (auto simp: plain_head_def)

lemma scan_array_roundtrip:
  assumes "\<And>v r. v \<in> set vs \<Longrightarrow> delim r \<Longrightarrow> f (g v @ r) = Got v r \<and> plain_head (g v)"
  shows "scan_array f (join_with '','' (map g vs) @ CHR '']'' # r) = Got (ListV vs) r"
proof (cases "vs = []")
  case False
  let ?s = "join_with '','' (map g vs)"
  have "plain_head ?s" using False assms [of "hd vs" "[]"] by (intro plain_head_join) (simp_all add: hd_map)
  moreover have "list_all (\<lambda>x. x \<noteq> []) (map g vs)" using assms [of _ "[]"] by (auto simp: list_all_iff plain_head_def)
  then have "length vs \<le> length ?s" using length_join [of "map g vs"] by simp
  then have "scan_items f (Suc (length (?s @ CHR '']'' # r))) (?s @ CHR '']'' # r) = Got vs r"
    using False assms by (intro scan_items_roundtrip) simp_all
  ultimately show ?thesis using plain_not_close [of ?s] unfolding scan_array_def by (simp del: starts_with_Cons)
qed (simp add: scan_array_def)

lemma scan_object_roundtrip:
  assumes "\<And>k v r. (k, v) \<in> set kvs \<Longrightarrow> delim r \<Longrightarrow> utf8_ok k \<and> f (g v @ r) = Got v r \<and> plain_head (g v)"
    and "distinct (map fst kvs)"
  shows "scan_object f (join_with '','' (map (\<lambda>kv. quote (fst kv) @ '':'' @ g (snd kv)) kvs) @ CHR ''}'' # r) =
    Got (ObjV kvs) r"
proof (cases "kvs = []")
  case False
  let ?xs = "map (\<lambda>kv. quote (fst kv) @ '':'' @ g (snd kv)) kvs"
  let ?s = "join_with '','' ?xs"
  have "plain_head ?s" using False by (intro plain_head_join) (simp_all add: hd_map quote_def plain_head_def)
  moreover have "length kvs \<le> length ?s" using length_join [of ?xs] by (simp add: list_all_iff)
  then have "scan_members f (Suc (length (?s @ CHR ''}'' # r))) (?s @ CHR ''}'' # r) = Got kvs r"
    using False assms(1) by (intro scan_members_roundtrip) simp_all
  ultimately show ?thesis
    using plain_not_close [of ?s] dict_of_distinct [OF assms(2)] unfolding scan_object_def by (simp del: starts_with_Cons)
qed (simp add: scan_object_def)

theorem value_roundtrip:
  "fits d v \<Longrightarrow> delim r \<Longrightarrow> scan_value d (dumps v @ r) = Got v r \<and> plain_head (dumps v)"
proof (induction d arbitrary: v r)
  case 0
  then show ?case using leaf_roundtrip [of v r] by simp
next
  case (Suc d)
  consider vs where "v = ListV vs" | kvs where "v = ObjV kvs" | "leaf_fits v"
    using Suc.prems(1) by (cases v) auto
  then show ?case
  proof cases
    case 1
    then show ?thesis using Suc scan_array_roundtrip [of vs "scan_value d" dumps r]
      by (auto simp: list_all_iff plain_head_def is_json_space_def)
  next
    case 2
    then have "scan_object (scan_value d) (join_with '','' (map (\<lambda>kv. quote (fst kv) @ '':'' @ dumps (snd kv)) kvs) @ CHR ''}'' # r) =
        Got (ObjV kvs) r"
      using Suc by (intro scan_object_roundtrip) (force simp: list_all_iff)+
    then show ?thesis using 2 by (auto simp: plain_head_def is_json_space_def)
  next
    case 3
    then have "scan_leaf (dumps v @ r) = Got v r" "plain_head (dumps v)" using leaf_roundtrip Suc.prems(2) by auto
    moreover have "\<not> starts_with ''{'' (dumps v @ r)" "\<not> starts_with ''['' (dumps v @ r)"
      using calculation by (cases "dumps v @ r"; auto simp: scan_leaf_def)+
    ultimately show ?thesis by simp
  qed
qed

theorem json_roundtrip: "fits d v \<Longrightarrow> loads d (dumps v) = Got v []"
  using value_roundtrip [of d v "[]"] skip_plain [of "dumps v" "[]"]
  by (cases "dumps v") (auto simp: loads_def BOM_def plain_head_def skip_def)

section \<open>The bounds on members and items are enough\<close>

text \<open>A scanner consumes text, so no more than one member or item is found per character: a larger bound
  reads the same.\<close>

definition consumes :: "(string \<Rightarrow> 'a scanned_text) \<Rightarrow> bool" where
  "consumes f = (\<forall>s v r. f s = Got v r \<longrightarrow> length r < length s)"

lemma scan_bind_Got: "scan_bind t f = Got v r \<longleftrightarrow> (\<exists>x q. t = Got x q \<and> f x q = Got v r)"
  by (cases t) auto

lemma scan_bind_cong: "(\<And>v r. t = Got v r \<Longrightarrow> f v r = g v r) \<Longrightarrow> scan_bind t f = scan_bind t g"
  by (cases t) auto

lemma length_skip: "length (skip s) \<le> length s"
  by (simp add: skip_def length_dropWhile_le)

lemma scan_string_shorter: "scan_string s = Got v r \<Longrightarrow> length r < length s"
proof (induction s arbitrary: v r rule: scan_string.induct)
  case (1 s)
  show ?case
  proof (cases s)
    case (Cons c cs)
    then show ?thesis using 1
      by (subst (asm) (5) scan_string.simps)
        (auto simp: scan_bind_Got split: if_splits list.splits option.splits; fastforce)
  qed (use 1(5) in \<open>simp add: scan_string.simps\<close>)
qed

lemma after_separator: "length r < length s \<Longrightarrow> length s \<le> n \<Longrightarrow> length (skip (tl (skip r))) < n"
  using length_skip [of r] length_skip [of "tl (skip r)"] by simp

lemma scan_items_bound:
  assumes "consumes f"
  shows "length s < n \<Longrightarrow> length s < m \<Longrightarrow> scan_items f n s = scan_items f m s"
proof (induction n arbitrary: s m)
  case (Suc n)
  obtain k where m: "m = Suc k" using Suc.prems by (cases m) auto
  have "scan_items f n (skip (tl (skip r))) = scan_items f k (skip (tl (skip r)))" if "f s = Got v r" for v r
    using assms that Suc.prems m after_separator [of r s] by (intro Suc.IH) (auto simp: consumes_def)
  then show ?case using m by (cases "f s") auto
qed simp

lemma scan_members_bound:
  assumes "consumes f"
  shows "length s < n \<Longrightarrow> length s < m \<Longrightarrow> scan_members f n s = scan_members f m s"
proof (induction n arbitrary: s m)
  case (Suc n)
  obtain k where m: "m = Suc k" using Suc.prems by (cases m) auto
  have "scan_members f n (skip (tl (skip q))) = scan_members f k (skip (tl (skip q)))"
    if "scan_string (tl s) = Got w r" "f (skip (tl (skip r))) = Got v q" for w r v q
  proof -
    have "length r < length s" using scan_string_shorter [OF that(1)] by simp
    moreover have "length q < length (skip (tl (skip r)))" using assms that(2) by (auto simp: consumes_def)
    ultimately have "length q < length s" using length_skip [of r] length_skip [of "tl (skip r)"] by simp
    then show ?thesis using Suc.prems m after_separator [of q s] by (intro Suc.IH) auto
  qed
  then show ?case using m by (auto intro!: scan_bind_cong)
qed simp

lemma take_lengths:
  "length (snd (take_fraction s)) \<le> length s" "length (snd (take_exponent s)) \<le> length s"
  by (cases s; auto simp: take_fraction_def take_exponent_def take_sign_def Let_def split: prod.splits if_splits)+

lemma scan_magnitude_shorter:
  assumes "scan_magnitude negative s = Got v r" shows "length r < length s"
proof -
  let ?t = "drop (length (whole_digits s)) s"
  have "whole_digits s \<noteq> []" "r = snd (take_exponent (snd (take_fraction ?t)))"
    using assms by (auto simp: scan_magnitude_def Let_def split: prod.splits if_splits)
  moreover have "length (snd (take_exponent (snd (take_fraction ?t)))) \<le> length ?t"
    using take_lengths(1) [of ?t] take_lengths(2) [of "snd (take_fraction ?t)"] by simp
  moreover have "s \<noteq> []" using calculation(1) by (auto simp: whole_digits_def)
  ultimately show ?thesis by (cases "whole_digits s"; cases s) auto
qed

lemma scan_leaf_consumes: "consumes scan_leaf"
proof -
  have "length r < length s" if "scan_leaf s = Got v r" for s v r
    using that scan_string_shorter [of "tl s"] scan_magnitude_shorter [of True "tl s" v r] scan_magnitude_shorter [of False s v r]
    by (cases s) (auto simp: scan_leaf_def scan_word_def scan_number_def scan_bind_Got less_Suc_eq_le
        dest: less_imp_le split: if_splits list.splits)
  then show ?thesis by (simp add: consumes_def)
qed

lemma scan_items_shorter: "consumes f \<Longrightarrow> scan_items f n s = Got v r \<Longrightarrow> length r < length s"
proof (induction n arbitrary: s v r)
  case (Suc n)
  obtain x q where x: "f s = Got x q" using Suc.prems(2) by (auto simp: scan_bind_Got)
  then have "length q < length s" using Suc.prems(1) by (auto simp: consumes_def)
  then show ?case using x Suc.prems(2) Suc.IH [OF Suc.prems(1), of "skip (tl (skip q))"] length_skip [of q]
      length_skip [of "tl (skip q)"]
    by (fastforce simp: scan_bind_Got split: if_splits)
qed simp

lemma scan_members_shorter: "consumes f \<Longrightarrow> scan_members f n s = Got v r \<Longrightarrow> length r < length s"
proof (induction n arbitrary: s v r)
  case (Suc n)
  obtain w p x q where x: "scan_string (tl s) = Got w p" "f (skip (tl (skip p))) = Got x q"
    using Suc.prems(2) by (auto simp: scan_bind_Got split: if_splits)
  then have "length q < length (skip (tl (skip p)))" using Suc.prems(1) by (auto simp: consumes_def)
  moreover have "length p < length s" using scan_string_shorter [OF x(1)] by simp
  ultimately have "length q < length s" using length_skip [of p] length_skip [of "tl (skip p)"] by simp
  then show ?case using x Suc.prems(2) Suc.IH [OF Suc.prems(1), of "skip (tl (skip q))"] length_skip [of q]
      length_skip [of "tl (skip q)"]
    by (fastforce simp: scan_bind_Got split: if_splits)
qed simp

lemma length_tl: "s \<noteq> [] \<Longrightarrow> length (tl s) < length s"
  by (cases s) auto

lemma scan_object_shorter:
  assumes "consumes f" "scan_object f s = Got v r" shows "length r < length s"
proof (cases "skip s = [] \<or> \<not> starts_with ''}'' (skip s)")
  case True
  then obtain x where "scan_members f (Suc (length s)) (skip s) = Got x r"
    using assms(2) by (auto simp: scan_object_def scan_bind_Got split: if_splits)
  then show ?thesis using scan_members_shorter [OF assms(1)] length_skip [of s] by (metis less_le_trans)
next
  case False
  then show ?thesis using assms(2) length_skip [of s] length_tl [of "skip s"] by (simp add: scan_object_def)
qed

lemma scan_array_shorter:
  assumes "consumes f" "scan_array f s = Got v r" shows "length r < length s"
proof (cases "skip s = [] \<or> \<not> starts_with '']'' (skip s)")
  case True
  then obtain x where "scan_items f (Suc (length s)) (skip s) = Got x r"
    using assms(2) by (auto simp: scan_array_def scan_bind_Got split: if_splits)
  then show ?thesis using scan_items_shorter [OF assms(1)] length_skip [of s] by (metis less_le_trans)
next
  case False
  then show ?thesis using assms(2) length_skip [of s] length_tl [of "skip s"] by (simp add: scan_array_def)
qed

lemma scan_value_consumes: "consumes (scan_value d)"
proof (induction d)
  case (Suc d)
  have "length r < length s" if "scan_value (Suc d) s = Got v r" for s v r
  proof (cases s)
    case Nil
    then show ?thesis using that by (simp add: scan_leaf_def scan_word_def scan_number_def)
  next
    case (Cons c cs)
    have "scan_object (scan_value d) cs = Got v r \<or> scan_array (scan_value d) cs = Got v r \<or> scan_leaf s = Got v r"
      using that unfolding Cons scan_value.simps by (simp split: if_splits)
    then show ?thesis
      using scan_object_shorter [OF Suc, of cs] scan_array_shorter [OF Suc, of cs] scan_leaf_consumes Cons
      by (metis consumes_def length_Cons less_SucI)
  qed
  then show ?case by (simp add: consumes_def)
qed (use scan_leaf_consumes in \<open>simp add: consumes_def\<close>)

text \<open>So the bounds of \<open>scan_object\<close> and \<open>scan_array\<close> are never the reason for a refusal.\<close>

lemma scan_bounds_enough:
  assumes "length s < n"
  shows "scan_members (scan_value d) n (skip s) = scan_members (scan_value d) (Suc (length s)) (skip s)"
    "scan_items (scan_value d) n (skip s) = scan_items (scan_value d) (Suc (length s)) (skip s)"
  using assms length_skip [of s]
  by (intro scan_members_bound [OF scan_value_consumes] scan_items_bound [OF scan_value_consumes]; simp)+

end
