(* ===== verification/Touch_Line.thy ===== *)
theory Touch_Line
  imports Touch_Json Claim_Host
begin

text \<open>
  One line of the record of touched files (\<open>session/touch_record.py\<close>): the event it carries, its
  encoder and decoder, and the split of a file into complete lines. \<open>encode_line\<close> normalises the path
  (\<open>session/path_dialect.py\<close>) and refuses absolute paths and long lines; \<open>decode_line\<close> accepts any JSON
  object with usable fields. The exceptions that \<open>decode_line\<close> does not turn into \<open>MalformedRecordLine\<close>
  are outcomes of their own.
\<close>

section \<open>Events\<close>

record touch_event =
  schema_version :: int
  verb :: string
  stamp :: py_float
  session_id :: string
  agent_id :: "string option"
  path :: string
  content_hash :: "string option"
  writer_name :: "string option"
  kind :: "string option"

definition SCHEMA_VERSION :: int where "SCHEMA_VERSION = 1"
definition VERB_TOUCH :: string where "VERB_TOUCH = ''T''"
definition VERB_RELEASE :: string where "VERB_RELEASE = ''R''"
definition VALID_VERBS :: "string list" where "VALID_VERBS = [VERB_TOUCH, VERB_RELEASE]"
definition KIND_WRITE :: string where "KIND_WRITE = ''w''"
definition KIND_READ :: string where "KIND_READ = ''r''"
definition VALID_KINDS :: "string list" where "VALID_KINDS = [KIND_WRITE, KIND_READ]"
definition MAX_ENCODED_LINE_LEN :: nat where "MAX_ENCODED_LINE_LEN = 4096"

lemmas touch_constants = VERB_TOUCH_def VERB_RELEASE_def VALID_VERBS_def KIND_WRITE_def KIND_READ_def VALID_KINDS_def

definition canonicalize_relative_path :: "string \<Rightarrow> string" where
  "canonicalize_relative_path p = normpath (replace_all [BSL] [SLASH] p)"

definition is_letter :: "char \<Rightarrow> bool" where
  "is_letter c = (in_range (CHR ''A'') (CHR ''Z'') c \<or> in_range (CHR ''a'') (CHR ''z'') c)"

definition is_out_of_worktree :: "string \<Rightarrow> bool" where
  "is_out_of_worktree p = ((p \<noteq> [] \<and> is_letter (hd p) \<and> starts_with '':'' (tl p)) \<or> starts_with [SLASH] p)"

section \<open>Encoding\<close>

datatype encode_error = Bad_Argument | Out_Of_Worktree | Line_Too_Long

definition optional_text :: "string option \<Rightarrow> jval" where
  "optional_text t = (case t of None \<Rightarrow> NullV | Some s \<Rightarrow> TextV s)"

definition optional_field :: "string \<Rightarrow> string option \<Rightarrow> (string \<times> jval) list" where
  "optional_field k t = (case t of None \<Rightarrow> [] | Some s \<Rightarrow> [(k, TextV s)])"

definition record_fields :: "touch_event \<Rightarrow> (string \<times> jval) list" where
  "record_fields e = [(''v'', IntV SCHEMA_VERSION), (''verb'', TextV (verb e)), (''ts'', FloatV (stamp e)),
     (''sid'', TextV (session_id e)), (''agent'', optional_text (agent_id e)), (''path'', TextV (path e))] @
     optional_field ''hash'' (content_hash e) @ optional_field ''name'' (writer_name e) @
     optional_field ''kind'' (kind e)"

definition record_value :: "touch_event \<Rightarrow> jval" where
  "record_value e = ObjV (record_fields e)"

text \<open>\<open>encode_line\<close>; the arguments are the fields of an event whose stamp is the given one or the clock's.\<close>

definition encode_line :: "bool \<Rightarrow> touch_event \<Rightarrow> encode_error + string" where
  "encode_line allow_absolute e =
     (if verb e \<notin> set VALID_VERBS then Inl Bad_Argument
      else if \<exists>k \<in> set_option (kind e). k \<notin> set VALID_KINDS then Inl Bad_Argument
      else
        (let normalized_path = canonicalize_relative_path (path e) in
         if is_out_of_worktree normalized_path \<and> \<not> (allow_absolute \<and> verb e = VERB_RELEASE) then Inl Out_Of_Worktree
         else
           (let encoded = dumps (record_value (e\<lparr>path := normalized_path\<rparr>)) @ [NL] in
            if MAX_ENCODED_LINE_LEN \<le> length encoded then Inl Line_Too_Long else Inr encoded)))"

section \<open>Decoding\<close>

datatype decode_error = Malformed_Line | Raises_Value_Error | Raises_Overflow_Error | Raises_Recursion_Error

type_synonym 'a decoded = "decode_error + 'a"

fun decode_bind :: "'a decoded \<Rightarrow> ('a \<Rightarrow> 'b decoded) \<Rightarrow> 'b decoded" where
  "decode_bind (Inl x) f = Inl x"
| "decode_bind (Inr a) f = f a"

text \<open>\<open>int(x)\<close> and \<open>float(x)\<close>: \<open>KeyError\<close>, \<open>TypeError\<close> and \<open>ValueError\<close> are caught, \<open>OverflowError\<close> is not.\<close>

fun int_of_value :: "jval \<Rightarrow> int decoded" where
  "int_of_value (IntV n) = Inr n"
| "int_of_value (BoolV b) = Inr (if b then 1 else 0)"
| "int_of_value (FloatV (Units u)) = Inr (sgn u * (\<bar>u\<bar> div SCALE))"
| "int_of_value (FloatV (Infinite _)) = Inl Raises_Overflow_Error"
| "int_of_value (TextV s) = (case py_int s of None \<Rightarrow> Inl Malformed_Line | Some n \<Rightarrow> Inr n)"
| "int_of_value _ = Inl Malformed_Line"

fun float_of_value :: "jval \<Rightarrow> py_float decoded" where
  "float_of_value (FloatV t) = Inr t"
| "float_of_value (IntV n) = (case nearest n 1 of Infinite _ \<Rightarrow> Inl Raises_Overflow_Error | t \<Rightarrow> Inr t)"
| "float_of_value (BoolV b) = Inr (if b then Units SCALE else Units 0)"
| "float_of_value (TextV s) = (case float_of_text s of None \<Rightarrow> Inl Malformed_Line | Some t \<Rightarrow> Inr t)"
| "float_of_value _ = Inl Malformed_Line"

definition field_value :: "(string \<times> jval) list \<Rightarrow> string \<Rightarrow> jval decoded" where
  "field_value rec k = (case map_of rec k of None \<Rightarrow> Inl Malformed_Line | Some v \<Rightarrow> Inr v)"

definition get_value :: "(string \<times> jval) list \<Rightarrow> string \<Rightarrow> jval" where
  "get_value rec k = (case map_of rec k of None \<Rightarrow> NullV | Some v \<Rightarrow> v)"

text \<open>An optional string, and a string that is required to be nonempty.\<close>

fun text_or_null :: "jval \<Rightarrow> string option decoded" where
  "text_or_null NullV = Inr None"
| "text_or_null (TextV s) = Inr (Some s)"
| "text_or_null _ = Inl Malformed_Line"

fun nonempty_value :: "jval \<Rightarrow> string decoded" where
  "nonempty_value (TextV s) = (if s = [] then Inl Malformed_Line else Inr s)"
| "nonempty_value _ = Inl Malformed_Line"

fun known_value :: "string list \<Rightarrow> jval \<Rightarrow> string decoded" where
  "known_value known (TextV s) = (if s \<in> set known then Inr s else Inl Malformed_Line)"
| "known_value known _ = Inl Malformed_Line"

definition known_or_null :: "string list \<Rightarrow> jval \<Rightarrow> string option decoded" where
  "known_or_null known v =
     (if v = NullV then Inr None else decode_bind (known_value known v) (\<lambda>s. Inr (Some s)))"

definition event_of_fields :: "(string \<times> jval) list \<Rightarrow> touch_event decoded" where
  "event_of_fields rec =
     decode_bind (decode_bind (field_value rec ''v'') int_of_value) (\<lambda>version.
     decode_bind (field_value rec ''verb'') (\<lambda>vb.
     decode_bind (decode_bind (field_value rec ''ts'') float_of_value) (\<lambda>ts.
     decode_bind (field_value rec ''sid'') (\<lambda>sid.
     decode_bind (field_value rec ''agent'') (\<lambda>agent.
     decode_bind (field_value rec ''path'') (\<lambda>pth.
     decode_bind (text_or_null (get_value rec ''hash'')) (\<lambda>digest.
     decode_bind (text_or_null (get_value rec ''name'')) (\<lambda>nm.
     decode_bind (known_or_null VALID_KINDS (get_value rec ''kind'')) (\<lambda>kd.
     decode_bind (known_value VALID_VERBS vb) (\<lambda>vb'.
     decode_bind (nonempty_value sid) (\<lambda>sid'.
     decode_bind (text_or_null agent) (\<lambda>agent'.
     decode_bind (nonempty_value pth) (\<lambda>pth'.
       Inr \<lparr>schema_version = version, verb = vb', stamp = ts, session_id = sid', agent_id = agent', path = pth',
         content_hash = digest, writer_name = nm, kind = kd\<rparr>)))))))))))))"

definition strip_newlines :: "string \<Rightarrow> string" where
  "strip_newlines s = rev (dropWhile (\<lambda>c. c = NL) (rev s))"

definition decode_line :: "nat \<Rightarrow> string \<Rightarrow> touch_event decoded" where
  "decode_line depth line =
     (if \<not> utf8_ok line then Inl Malformed_Line
      else (case loads depth (strip_newlines line) of
              Bad \<Rightarrow> Inl Malformed_Line
            | Big \<Rightarrow> Inl Raises_Value_Error
            | Deep \<Rightarrow> Inl Raises_Recursion_Error
            | Got (ObjV rec) _ \<Rightarrow> event_of_fields rec
            | Got _ _ \<Rightarrow> Inl Malformed_Line))"

section \<open>Files of lines\<close>

definition iter_complete_lines :: "string \<Rightarrow> string list" where
  "iter_complete_lines raw = map (\<lambda>l. l @ [NL]) (filter (\<lambda>l. l \<noteq> []) (butlast (split_on NL raw)))"

text \<open>\<open>record_carries_content\<close>; \<open>None\<close> is a file that cannot be read. A byte that does not decode is
  replaced by a character that is not blank.\<close>

definition unicode_space :: "int \<Rightarrow> bool" where
  "unicode_space n = ((9 \<le> n \<and> n \<le> 13) \<or> (28 \<le> n \<and> n \<le> 32) \<or> (0x2000 \<le> n \<and> n \<le> 0x200A) \<or>
     n \<in> {0x85, 0xA0, 0x1680, 0x2028, 0x2029, 0x202F, 0x205F, 0x3000})"

definition record_carries_content :: "string option \<Rightarrow> bool" where
  "record_carries_content content =
     (case content of None \<Rightarrow> False
      | Some raw \<Rightarrow> \<not> (utf8_ok raw \<and> list_all unicode_space (code_points raw)))"

definition kind_blocks_a_peer_commit :: "string option \<Rightarrow> bool" where
  "kind_blocks_a_peer_commit k = (k \<noteq> Some KIND_READ)"

section \<open>A written line is ASCII without a line break\<close>

definition ascii_line :: "string \<Rightarrow> bool" where
  "ascii_line s = list_all (\<lambda>c. ord c < 0x80 \<and> c \<noteq> NL) s"

lemma ascii_line_append [simp]: "ascii_line (s @ t) \<longleftrightarrow> ascii_line s \<and> ascii_line t"
  by (simp add: ascii_line_def)

lemma ascii_line_Nil [simp]: "ascii_line []"
  by (simp add: ascii_line_def)

lemma ascii_line_Cons [simp]: "ascii_line (c # s) \<longleftrightarrow> ord c < 0x80 \<and> c \<noteq> NL \<and> ascii_line s"
  by (simp add: ascii_line_def)

lemma ord_literal [simp]: "ord DQ = 34" "ord BSL = 92" "ord CHR ''u'' = 117" "ord CHR '','' = 44" "ord CHR '':'' = 58"
  "ord CHR ''{'' = 123" "ord CHR ''}'' = 125" "ord CHR ''['' = 91" "ord CHR '']'' = 93"
  by (simp_all add: ord_def)

lemma ascii_digit: "ascii_line [BASE36_DIGITS ! nat k]" if "k < 36" for k
proof -
  have "list_all (\<lambda>d. ascii_line [BASE36_DIGITS ! d]) [0..<36]" by code_simp
  then show ?thesis using that by (auto simp: list_all_iff nat_less_iff)
qed

lemma ascii_decimal [simp]: "ascii_line (decimal n)"
proof (induction n rule: decimal.induct)
  case (1 n)
  then show ?case using ascii_digit [of n] ascii_digit [of "n mod 10"] by (subst decimal.simps) auto
qed

lemma code_points_ascii: "list_all (\<lambda>c. ord c < 0x80) s \<Longrightarrow> code_points s = map ord s"
proof (induction s)
  case (Cons c s)
  then show ?case by (subst code_points.simps) (simp add: tail_bytes_def lead_bits_def Let_def)
qed (simp add: code_points.simps)

lemma utf8_ascii: "list_all (\<lambda>c. ord c < 0x80) s \<Longrightarrow> concat (map utf8 (map ord s)) = s"
  by (induction s) (auto simp: utf8_def)

lemma ascii_utf8_ok: "list_all (\<lambda>c. ord c < 0x80) s \<Longrightarrow> utf8_ok s"
  using ord_bounds by (auto simp: utf8_ok_def code_points_ascii utf8_ascii list_all_iff surrogate_def Let_def
      simp del: map_map)

lemma ascii_escape: "scalar n \<Longrightarrow> ascii_line (escape n)"
proof -
  have hex: "ascii_line [hex_char (m mod 16)]" for m
    using ascii_digit [of "m mod 16"] by (simp add: hex_char_def)
  have u: "ascii_line (u_escape m)" for m
    using hex [of "m div 4096"] hex [of "m div 256"] hex [of "m div 16"] hex [of m] by (simp add: u_escape_def)
  have plain: "32 \<le> n \<Longrightarrow> n < 127 \<Longrightarrow> ascii_line [chr n]"
    using chr_eq [of n 10] by (auto simp: special_codes)
  show "scalar n \<Longrightarrow> ascii_line (escape n)"
    using u plain by (auto simp: escape_def ord_def)
qed

lemma ascii_quote: "utf8_ok s \<Longrightarrow> ascii_line (quote s)"
  using utf8_okD [of s] ascii_escape by (auto simp: quote_def ascii_line_def list_all_iff)

lemma ascii_zeros [simp]: "ascii_line (zeros n)"
  by (auto simp: zeros_def ascii_line_def list_all_iff ord_def)

lemma ascii_sub: "ascii_line s \<Longrightarrow> set t \<subseteq> set s \<Longrightarrow> ascii_line t"
  by (auto simp: ascii_line_def list_all_iff)

lemma ascii_tl: "ascii_line ds \<Longrightarrow> ascii_line (tl ds)"
  by (cases ds) auto

lemma ascii_layout: "ascii_line ds \<Longrightarrow> ascii_line (float_layout ds pt)"
  using ascii_tl [of ds] ascii_sub [of ds "take (nat pt) ds"] ascii_sub [of ds "drop (nat pt) ds"]
    ascii_sub [of ds "take 1 ds"]
  by (auto simp: float_layout_def Let_def ord_def set_take_subset set_drop_subset)

lemma ascii_word: "list_all (\<lambda>c. (of_char c :: int) < 0x80 \<and> c \<noteq> NL) s \<Longrightarrow> ascii_line s"
  by (simp add: ascii_line_def ord_def)

lemma ascii_float: "ascii_line (float_repr t)"
proof (cases t)
  case (Units u)
  have "ascii_line (rev (dropWhile (\<lambda>c. c = CHR ''0'') (rev (decimal n))))" for n
    by (rule ascii_sub [of "decimal n"]) (auto dest: set_dropWhileD)
  then show ?thesis
    using Units ascii_layout by (auto simp: Let_def ord_def intro: ascii_word)
qed (auto simp: ord_def intro: ascii_word)

section \<open>A written line is read back\<close>

text \<open>What an event must satisfy for its line to be readable: text that encodes, an integer-like stamp or any
  float whose printed form reads back, a nonempty session.\<close>

definition readable_event :: "touch_event \<Rightarrow> bool" where
  "readable_event e =
     (session_id e \<noteq> [] \<and> reads_back (stamp e) \<and>
      list_all utf8_ok [session_id e, canonicalize_relative_path (path e)] \<and>
      list_all (\<lambda>t. \<forall>s \<in> set_option t. utf8_ok s) [agent_id e, content_hash e, writer_name e])"

lemma literal_ok [simp]: "utf8_ok ''v''" "utf8_ok ''verb''" "utf8_ok ''ts''" "utf8_ok ''sid''" "utf8_ok ''agent''"
  "utf8_ok ''path''" "utf8_ok ''hash''" "utf8_ok ''name''" "utf8_ok ''kind''" "utf8_ok ''T''" "utf8_ok ''R''"
  "utf8_ok ''w''" "utf8_ok ''r''"
  by (rule ascii_utf8_ok; simp add: ord_def)+

lemma fits_optional_text: "\<forall>s \<in> set_option t. utf8_ok s \<Longrightarrow> fits d (optional_text t)"
  by (cases d; cases t) (auto simp: optional_text_def)

lemma fits_text [simp]: "fits d (TextV s) = utf8_ok s" "fits d (FloatV t) = reads_back t"
  "fits d (IntV n) = (length (decimal \<bar>n\<bar>) \<le> MAX_INT_DIGITS)"
  by (cases d; simp)+

lemma record_keys: "distinct (map fst (record_fields e))"
  by (cases "content_hash e"; cases "writer_name e"; cases "kind e") (simp_all add: record_fields_def optional_field_def)

lemma known_text_ok: "v \<in> set VALID_VERBS \<Longrightarrow> utf8_ok v" "k \<in> set VALID_KINDS \<Longrightarrow> utf8_ok k"
  by (auto simp: touch_constants)

lemma optional_field_all:
  "list_all P (optional_field k t) \<longleftrightarrow> (\<forall>s \<in> set_option t. P (k, TextV s))"
  by (cases t) (simp_all add: optional_field_def)

lemma version_digits: "length (decimal \<bar>SCHEMA_VERSION\<bar>) \<le> MAX_INT_DIGITS"
  by (simp add: decimal.simps [of 1] MAX_INT_DIGITS_def SCHEMA_VERSION_def)

lemma readable_fields:
  assumes "verb e \<in> set VALID_VERBS" "\<forall>k \<in> set_option (kind e). k \<in> set VALID_KINDS"
    "readable_event e" "utf8_ok p"
  shows "list_all (\<lambda>kv. utf8_ok (fst kv) \<and> fits d (snd kv)) (record_fields (e\<lparr>path := p\<rparr>))"
  using assms fits_optional_text [of "agent_id e" d] known_text_ok version_digits
  by (simp add: record_fields_def readable_event_def optional_field_all)

lemma record_value_fits:
  assumes "verb e \<in> set VALID_VERBS" "\<forall>k \<in> set_option (kind e). k \<in> set VALID_KINDS"
    "readable_event e" "utf8_ok p"
  shows "fits (Suc d) (record_value (e\<lparr>path := p\<rparr>))"
  using readable_fields [OF assms, of d] record_keys [of "e\<lparr>path := p\<rparr>"] by (simp add: record_value_def)

lemma strip_newlines_line: "s \<noteq> [] \<Longrightarrow> last s \<noteq> NL \<Longrightarrow> strip_newlines (s @ [NL]) = s"
  by (cases s rule: rev_cases) (auto simp: strip_newlines_def)

definition plain_record :: "string \<Rightarrow> bool" where
  "plain_record l = (\<exists>s. l = s @ [NL] \<and> s \<noteq> [] \<and> NL \<notin> set s)"

lemma encode_line_Inr:
  assumes "encode_line b e = Inr l"
  shows "verb e \<in> set VALID_VERBS" "\<forall>k \<in> set_option (kind e). k \<in> set VALID_KINDS"
    "l = dumps (record_value (e\<lparr>path := canonicalize_relative_path (path e)\<rparr>)) @ [NL]"
    "length l < MAX_ENCODED_LINE_LEN"
    "is_out_of_worktree (canonicalize_relative_path (path e)) \<Longrightarrow> b \<and> verb e = VERB_RELEASE"
  using assms by (auto simp: encode_line_def Let_def split: if_splits)

lemma ascii_join: "list_all ascii_line xs \<Longrightarrow> ascii_line sep \<Longrightarrow> ascii_line (join_with sep xs)"
  by (induction sep xs rule: join_with.induct) auto

lemma ascii_leaf: "fits 0 v \<Longrightarrow> ascii_line (dumps v)"
  by (cases v) (auto simp: ascii_quote ascii_float str_int_def ord_def intro: ascii_word)

lemma ascii_optional_text: "\<forall>s \<in> set_option t. utf8_ok s \<Longrightarrow> fits 0 (optional_text t)"
  by (cases t) (auto simp: optional_text_def)

lemma ascii_record:
  assumes "verb e \<in> set VALID_VERBS" "\<forall>k \<in> set_option (kind e). k \<in> set VALID_KINDS"
    "readable_event e" "utf8_ok p"
  shows "ascii_line (dumps (record_value (e\<lparr>path := p\<rparr>)))"
proof -
  have "list_all ascii_line (map (\<lambda>kv. quote (fst kv) @ '':'' @ dumps (snd kv)) (record_fields (e\<lparr>path := p\<rparr>)))"
    using readable_fields [OF assms, of 0] ascii_quote ascii_leaf by (auto simp: list_all_iff)
  then show ?thesis
    using ascii_join [of _ "'',''"] by (simp add: record_value_def)
qed

lemma normpath_nonempty [simp]: "normpath p \<noteq> []"
  by (simp add: normpath_def Let_def)

lemma known_value_mem: "s \<in> set known \<Longrightarrow> known_value known (TextV s) = Inr s"
  by simp

lemma text_or_null_optional [simp]: "text_or_null (optional_text t) = Inr t"
  by (cases t) (simp_all add: optional_text_def)

lemma get_optional: "text_or_null (get_value (optional_field k t) k) = Inr t"
  by (cases t) (simp_all add: optional_field_def get_value_def)

lemma map_of_optional: "k \<noteq> k' \<Longrightarrow> map_of (optional_field k t @ xs) k' = map_of xs k'"
  by (cases t) (simp_all add: optional_field_def)

lemma get_kind: "\<forall>k \<in> set_option t. k \<in> set known \<Longrightarrow>
    known_or_null known (get_value (optional_field ''kind'' t) ''kind'') = Inr t"
  by (cases t) (simp_all add: optional_field_def get_value_def known_or_null_def)

lemma map_of_optional_same: "map_of (optional_field k t @ xs) k = (case t of None \<Rightarrow> map_of xs k | Some s \<Rightarrow> Some (TextV s))"
  by (cases t) (simp_all add: optional_field_def)

lemma event_of_record_fields:
  assumes "verb e \<in> set VALID_VERBS" "\<forall>k \<in> set_option (kind e). k \<in> set VALID_KINDS"
    "session_id e \<noteq> []" "path e \<noteq> []"
  shows "event_of_fields (record_fields e) = Inr (e\<lparr>schema_version := SCHEMA_VERSION\<rparr>)"
proof -
  have fields: "field_value (record_fields e) ''v'' = Inr (IntV SCHEMA_VERSION)"
    "field_value (record_fields e) ''verb'' = Inr (TextV (verb e))"
    "field_value (record_fields e) ''ts'' = Inr (FloatV (stamp e))"
    "field_value (record_fields e) ''sid'' = Inr (TextV (session_id e))"
    "field_value (record_fields e) ''agent'' = Inr (optional_text (agent_id e))"
    "field_value (record_fields e) ''path'' = Inr (TextV (path e))"
    by (simp_all add: field_value_def record_fields_def)
  have optional: "text_or_null (get_value (record_fields e) ''hash'') = Inr (content_hash e)"
    "text_or_null (get_value (record_fields e) ''name'') = Inr (writer_name e)"
    "known_or_null VALID_KINDS (get_value (record_fields e) ''kind'') = Inr (kind e)"
    using assms(2)
    by (cases "content_hash e"; cases "writer_name e"; cases "kind e";
        simp add: record_fields_def optional_field_def get_value_def known_or_null_def)+
  show ?thesis
    using assms unfolding event_of_fields_def fields optional decode_bind.simps int_of_value.simps float_of_value.simps
    by simp
qed

text \<open>The round trip of a line. It holds for the whole event, up to the normalised path and the version written.\<close>

lemma line_roundtrip_eq:
  assumes "encode_line b e = Inr l" "readable_event e"
  shows "decode_line (Suc d) l = Inr (e\<lparr>schema_version := SCHEMA_VERSION, path := canonicalize_relative_path (path e)\<rparr>)"
proof -
  note enc = encode_line_Inr [OF assms(1)]
  let ?e = "e\<lparr>path := canonicalize_relative_path (path e)\<rparr>"
  let ?s = "dumps (record_value ?e)"
  have ok: "utf8_ok (canonicalize_relative_path (path e))" using assms(2) by (simp add: readable_event_def)
  have "ascii_line ?s" by (rule ascii_record [OF enc(1,2) assms(2) ok])
  then have "utf8_ok l" using enc(3) by (intro ascii_utf8_ok) (auto simp: ascii_line_def list_all_iff ord_def)
  moreover have "strip_newlines l = ?s"
    unfolding enc(3) by (rule strip_newlines_line) (simp_all add: record_value_def)
  moreover have "loads (Suc d) ?s = Got (record_value ?e) []"
    by (rule json_roundtrip [OF record_value_fits [OF enc(1,2) assms(2) ok]])
  moreover have "event_of_fields (record_fields ?e) = Inr (?e\<lparr>schema_version := SCHEMA_VERSION\<rparr>)"
    using assms(2) enc(1,2) by (intro event_of_record_fields) (auto simp: readable_event_def canonicalize_relative_path_def)
  ultimately show ?thesis by (simp add: decode_line_def record_value_def)
qed

lemma encoded_plain: "encode_line b e = Inr l \<Longrightarrow> readable_event e \<Longrightarrow> plain_record l"
proof -
  assume a: "encode_line b e = Inr l" "readable_event e"
  note enc = encode_line_Inr [OF a(1)]
  have "ascii_line (dumps (record_value (e\<lparr>path := canonicalize_relative_path (path e)\<rparr>)))"
    using ascii_record [OF enc(1,2) a(2)] a(2) by (simp add: readable_event_def)
  then show "plain_record l" using enc(3) by (auto simp: plain_record_def ascii_line_def list_all_iff record_value_def)
qed

section \<open>Framing\<close>

lemma split_on_break: "c \<notin> set s \<Longrightarrow> split_on c (s @ c # t) = s # split_on c t"
  by (induction s) auto

lemma split_on_nonempty: "split_on c s \<noteq> []"
  by (induction s) (auto split: list.splits)

lemma split_on_none: "c \<notin> set s \<Longrightarrow> split_on c s = [s]"
  by (induction s) auto

lemma iter_lines_Cons:
  "plain_record l \<Longrightarrow> iter_complete_lines (l @ raw) = l # iter_complete_lines raw"
  using split_on_nonempty [of NL raw] by (auto simp: plain_record_def iter_complete_lines_def split_on_break)

lemma iter_lines_fragment: "NL \<notin> set s \<Longrightarrow> iter_complete_lines s = []"
  by (simp add: iter_complete_lines_def split_on_none)

lemma iter_lines_concat:
  "list_all plain_record ls \<Longrightarrow> iter_complete_lines (concat ls @ raw) = ls @ iter_complete_lines raw"
  by (induction ls) (simp_all add: iter_lines_Cons)

text \<open>A torn write at the end of a file is dropped, and everything before it is read as it was written.\<close>

lemma torn_tail_ignored:
  "list_all plain_record ls \<Longrightarrow> NL \<notin> set fragment \<Longrightarrow> iter_complete_lines (concat ls @ fragment) = ls"
  by (simp add: iter_lines_concat iter_lines_fragment)

end
