(* ===== verification/Touch_Fold.thy ===== *)
theory Touch_Fold
  imports Touch_Line
begin

text \<open>
  The folds of \<open>session/touch_record.py\<close>: the last event of every path (\<open>last_verb_wins\<close>), the kind a path
  is held with (\<open>held_kind\<close>), the merge of independently written streams (\<open>merge_across_streams\<close>), and the
  compaction of a file to its fold (\<open>compact_record\<close>). A dictionary is an association list in the order of
  its keys.
\<close>

section \<open>Association lists\<close>

lemma map_of_update_pair: "map_of (AList.update k v d) k' = (if k' = k then Some v else map_of d k')"
  by (simp add: update_conv)

lemma map_of_delete_pair: "map_of (AList.delete k d) k' = (if k' = k then None else map_of d k')"
  by (simp add: delete_conv)

lemmas alist_simps = map_of_update_pair map_of_delete_pair

section \<open>The folds of one stream\<close>

type_synonym claim_map = "(string \<times> touch_event) list"

definition lvw_step :: "claim_map \<times> string list \<Rightarrow> touch_event \<Rightarrow> claim_map \<times> string list" where
  "lvw_step st e =
     (case st of (latest, order) \<Rightarrow>
        (AList.update (path e) e latest,
         if map_of latest (path e) = None then order @ [path e] else order))"

definition last_verb_wins :: "touch_event list \<Rightarrow> touch_event list" where
  "last_verb_wins es =
     (case foldl lvw_step ([], []) es of (latest, order) \<Rightarrow> map (\<lambda>p. the (map_of latest p)) order)"

text \<open>\<open>{e.path: e for e in _last_verb_wins(events)}\<close>.\<close>

definition claims_of :: "touch_event list \<Rightarrow> claim_map" where
  "claims_of es = map (\<lambda>e. (path e, e)) (last_verb_wins es)"

definition hold_step :: "(string \<times> string option list) list \<Rightarrow> touch_event \<Rightarrow> (string \<times> string option list) list" where
  "hold_step since e =
     (if verb e = VERB_RELEASE then AList.delete (path e) since
      else AList.update (path e) ((case map_of since (path e) of None \<Rightarrow> [] | Some ks \<Rightarrow> ks) @ [kind e]) since)"

definition kind_of_hold :: "string option list \<Rightarrow> string option" where
  "kind_of_hold ks =
     (if Some KIND_WRITE \<in> set ks then Some KIND_WRITE
      else if list_ex (\<lambda>k. k \<noteq> Some KIND_READ) ks then None
      else Some KIND_READ)"

definition held_kind :: "touch_event list \<Rightarrow> (string \<times> string option) list" where
  "held_kind es = map (\<lambda>(p, ks). (p, kind_of_hold ks)) (foldl hold_step [] es)"

section \<open>What the folds compute\<close>

text \<open>The events of a path, the last one, and the kinds of the touches since its last release.\<close>

definition events_on :: "string \<Rightarrow> touch_event list \<Rightarrow> touch_event list" where
  "events_on p es = filter (\<lambda>e. path e = p) es"

definition last_on :: "string \<Rightarrow> touch_event list \<Rightarrow> touch_event option" where
  "last_on p es = (if events_on p es = [] then None else Some (last (events_on p es)))"

definition kinds_since_release :: "string \<Rightarrow> touch_event list \<Rightarrow> string option list" where
  "kinds_since_release p es =
     map kind (rev (takeWhile (\<lambda>e. verb e \<noteq> VERB_RELEASE) (rev (events_on p es))))"

lemma events_on_snoc: "events_on p (es @ [e]) = (if path e = p then events_on p es @ [e] else events_on p es)"
  by (simp add: events_on_def)

lemma last_on_snoc: "last_on p (es @ [e]) = (if path e = p then Some e else last_on p es)"
  by (simp add: last_on_def events_on_snoc)

lemma last_on_Nil [simp]: "last_on p [] = None"
  by (simp add: last_on_def events_on_def)

lemma last_on_Some: "last_on p es = Some e \<Longrightarrow> e \<in> set es \<and> path e = p"
  using last_in_set [of "events_on p es"] by (auto simp: last_on_def events_on_def split: if_splits)

lemma last_on_None: "last_on p es = None \<longleftrightarrow> p \<notin> path ` set es"
  by (auto simp: last_on_def events_on_def filter_empty_conv)

lemma kinds_snoc: "kinds_since_release p (es @ [e]) =
    (if path e = p then (if verb e = VERB_RELEASE then [] else kinds_since_release p es @ [kind e])
     else kinds_since_release p es)"
  by (simp add: kinds_since_release_def events_on_snoc)

lemma kinds_Nil [simp]: "kinds_since_release p [] = []"
  by (simp add: kinds_since_release_def events_on_def)

lemma lvw_step_pair: "lvw_step (latest, order) e =
    (AList.update (path e) e latest, if map_of latest (path e) = None then order @ [path e] else order)"
  by (simp add: lvw_step_def)

lemma lvw_fold:
  "map_of (fst (foldl lvw_step ([], []) es)) p = last_on p es \<and>
   set (snd (foldl lvw_step ([], []) es)) = path ` set es \<and> distinct (snd (foldl lvw_step ([], []) es))"
proof (induction es arbitrary: p rule: rev_induct)
  case (snoc e es)
  obtain latest order where st: "foldl lvw_step ([], []) es = (latest, order)" by fastforce
  show ?case using snoc [unfolded st] last_on_None [of "path e" es]
    by (auto simp: st lvw_step_pair alist_simps last_on_snoc)
qed simp

lemma set_last_verb_wins: "e \<in> set (last_verb_wins es) \<longleftrightarrow> last_on (path e) es = Some e"
proof -
  obtain latest order where st: "foldl lvw_step ([], []) es = (latest, order)" by fastforce
  have "map_of latest p = last_on p es" "set order = path ` set es" for p
    using lvw_fold [of es p] st by simp_all
  then have "e \<in> set (last_verb_wins es) \<longleftrightarrow> (\<exists>x \<in> set es. e = the (last_on (path x) es))"
    by (simp add: last_verb_wins_def st image_iff)
  moreover have "last_on (path e) es = Some e" if "x \<in> set es" "e = the (last_on (path x) es)" for x
  proof -
    have "last_on (path x) es = Some e" using that last_on_None [of "path x" es] by auto
    then show ?thesis using last_on_Some by fastforce
  qed
  moreover have "e \<in> set es \<and> e = the (last_on (path e) es)" if "last_on (path e) es = Some e"
    using that last_on_Some [OF that] by simp
  ultimately show ?thesis by blast
qed

lemma paths_last_verb_wins: "distinct (map path (last_verb_wins es))"
proof -
  obtain latest order where st: "foldl lvw_step ([], []) es = (latest, order)" by fastforce
  have m: "map_of latest p = last_on p es" "set order = path ` set es" "distinct order" for p
    using lvw_fold [of es p] st by simp_all
  have "path (the (last_on p es)) = p" if "p \<in> set order" for p
    using that m(2) last_on_None [of p es] last_on_Some [of p es] by auto
  then have "map path (last_verb_wins es) = order"
    by (simp add: last_verb_wins_def st m(1) map_idI)
  then show ?thesis using m(3) by simp
qed

lemma claims_of_eq: "map_of (claims_of es) p = last_on p es"
proof -
  have dist: "distinct (map fst (claims_of es))" using paths_last_verb_wins by (simp add: claims_of_def comp_def)
  show ?thesis
  proof (cases "last_on p es")
    case None
    then have "p \<notin> fst ` set (claims_of es)"
      by (auto simp: claims_of_def set_last_verb_wins)
    then show ?thesis using None by (simp add: map_of_eq_None_iff)
  next
    case (Some e)
    then have "(p, e) \<in> set (claims_of es)"
      using set_last_verb_wins [of e es] last_on_Some [OF Some] by (auto simp: claims_of_def)
    then show ?thesis using dist Some by simp
  qed
qed

lemma distinct_claims [simp]: "distinct (map fst (claims_of es))"
  using paths_last_verb_wins by (simp add: claims_of_def comp_def)

lemma hold_fold:
  "map_of (foldl hold_step [] es) p = (if kinds_since_release p es = [] then None else Some (kinds_since_release p es))"
  by (induction es arbitrary: p rule: rev_induct) (auto simp: hold_step_def alist_simps kinds_snoc)

theorem held_kind_eq:
  "map_of (held_kind es) p =
     (if kinds_since_release p es = [] then None else Some (kind_of_hold (kinds_since_release p es)))"
  by (simp add: held_kind_def map_of_map hold_fold)

text \<open>A path is held exactly when its last event is a touch.\<close>

lemma held_iff_touched: "kinds_since_release p es \<noteq> [] \<longleftrightarrow> (\<exists>e. last_on p es = Some e \<and> verb e \<noteq> VERB_RELEASE)"
  by (induction es rule: rev_induct) (auto simp: kinds_snoc last_on_snoc)

lemma kind_of_hold_blocks: "kind_blocks_a_peer_commit (kind_of_hold ks) \<longleftrightarrow> list_ex (\<lambda>k. k \<noteq> Some KIND_READ) ks"
  by (auto simp: kind_of_hold_def kind_blocks_a_peer_commit_def touch_constants list_ex_iff)

section \<open>Merging streams\<close>

text \<open>\<open>wins_over e f\<close>: the merge replaces \<open>f\<close> by the later event \<open>e\<close> of another stream.\<close>

definition wins_over :: "touch_event \<Rightarrow> touch_event \<Rightarrow> bool" where
  "wins_over e f =
     (float_less (stamp f) (stamp e) \<or>
      (float_eq (stamp e) (stamp f) \<and> verb e = VERB_TOUCH \<and> verb f = VERB_RELEASE))"

definition merge_one :: "claim_map \<Rightarrow> string \<times> touch_event \<Rightarrow> claim_map" where
  "merge_one merged pe =
     (case map_of merged (fst pe) of
        None \<Rightarrow> AList.update (fst pe) (snd pe) merged
      | Some f \<Rightarrow> if wins_over (snd pe) f then AList.update (fst pe) (snd pe) merged else merged)"

definition merge_across_streams :: "claim_map list \<Rightarrow> claim_map" where
  "merge_across_streams streams = foldl (foldl merge_one) [] streams"

lemma merge_one_lookup: "map_of (merge_one m pe) p =
    (if p = fst pe then
       (case map_of m p of None \<Rightarrow> Some (snd pe) | Some f \<Rightarrow> Some (if wins_over (snd pe) f then snd pe else f))
     else map_of m p)"
  by (auto simp: merge_one_def alist_simps split: option.splits)

text \<open>The events that the streams hold for a path, in the order of the merge, and the one that survives.\<close>

definition entries_on :: "string \<Rightarrow> claim_map list \<Rightarrow> touch_event list" where
  "entries_on p streams = map snd (filter (\<lambda>pe. fst pe = p) (concat streams))"

fun merge_survivor :: "touch_event option \<Rightarrow> touch_event list \<Rightarrow> touch_event option" where
  "merge_survivor w [] = w"
| "merge_survivor None (e # es) = merge_survivor (Some e) es"
| "merge_survivor (Some f) (e # es) = merge_survivor (Some (if wins_over e f then e else f)) es"

lemma merge_fold: "map_of (foldl merge_one m pes) p = merge_survivor (map_of m p) (map snd (filter (\<lambda>pe. fst pe = p) pes))"
  by (induction pes arbitrary: m) (auto simp: merge_one_lookup split: option.splits)

lemma foldl_foldl: "foldl (foldl f) a xss = foldl f a (concat xss)"
  by (induction xss arbitrary: a) simp_all

theorem merge_eq: "map_of (merge_across_streams streams) p = merge_survivor None (entries_on p streams)"
  by (simp add: merge_across_streams_def foldl_foldl merge_fold entries_on_def)

section \<open>The order behind the merge\<close>

text \<open>Events that carry a stamp other than not-a-number are ordered by stamp, a touch above a release.\<close>

definition comparable :: "touch_event \<Rightarrow> bool" where
  "comparable e = (stamp e \<noteq> Nan \<and> verb e \<in> set VALID_VERBS)"

fun stamp_rank :: "py_float \<Rightarrow> int \<times> int" where
  "stamp_rank (Units u) = (0, u)"
| "stamp_rank (Infinite negative) = (if negative then -1 else 1, 0)"
| "stamp_rank Nan = (2, 0)"

definition event_rank :: "touch_event \<Rightarrow> (int \<times> int) \<times> bool" where
  "event_rank e = (stamp_rank (stamp e), verb e = VERB_TOUCH)"

lemma float_less_rank: "s \<noteq> Nan \<Longrightarrow> t \<noteq> Nan \<Longrightarrow> float_less s t \<longleftrightarrow> stamp_rank s < stamp_rank t"
  by (cases s; cases t) auto

lemma float_eq_rank: "s \<noteq> Nan \<Longrightarrow> t \<noteq> Nan \<Longrightarrow> float_eq s t \<longleftrightarrow> stamp_rank s = stamp_rank t"
  by (cases s; cases t) auto

lemma stamp_rank_inj: "stamp_rank s = stamp_rank t \<Longrightarrow> s = t"
  by (cases s; cases t) (auto split: if_splits)

lemma pair_less: "(a, b) < (c, d) \<longleftrightarrow> a < c \<or> (a = c \<and> b < d)" for a c :: "'a::linorder" and b d :: "'b::order"
  by (auto simp: less_prod_def)

lemma wins_over_rank: "comparable e \<Longrightarrow> comparable f \<Longrightarrow> wins_over e f \<longleftrightarrow> event_rank f < event_rank e"
  by (auto simp: wins_over_def comparable_def event_rank_def float_less_rank float_eq_rank touch_constants pair_less [of "stamp_rank (stamp f)"])

lemma event_rank_eq: "comparable e \<Longrightarrow> comparable f \<Longrightarrow> event_rank e = event_rank f \<Longrightarrow> stamp e = stamp f \<and> verb e = verb f"
  using stamp_rank_inj by (auto simp: event_rank_def comparable_def touch_constants)

lemma survivor_Some:
  "list_all comparable (f # es) \<Longrightarrow>
   \<exists>e. merge_survivor (Some f) es = Some e \<and> e \<in> set (f # es) \<and> (\<forall>g \<in> set (f # es). event_rank g \<le> event_rank e)"
proof (induction es arbitrary: f)
  case (Cons e es)
  define w where "w = (if wins_over e f then e else f)"
  have ranks: "event_rank f \<le> event_rank w" "event_rank e \<le> event_rank w" "comparable w" "w \<in> {e, f}"
    using Cons.prems wins_over_rank [of e f] by (auto simp: w_def)
  then obtain v where "merge_survivor (Some w) es = Some v" "v \<in> set (w # es)" "\<forall>g \<in> set (w # es). event_rank g \<le> event_rank v"
    using Cons.IH [of w] Cons.prems by auto
  then show ?case using ranks by (auto simp: w_def [symmetric] intro: order_trans)
qed simp

lemma survivor_winner:
  assumes "list_all comparable es"
  shows "(merge_survivor None es = None \<longleftrightarrow> es = []) \<and>
    (\<forall>e. merge_survivor None es = Some e \<longrightarrow> e \<in> set es \<and> (\<forall>g \<in> set es. event_rank g \<le> event_rank e))"
proof (cases es)
  case (Cons f fs)
  then show ?thesis using survivor_Some [of f fs] assms by fastforce
qed simp

end
