(* ===== verification/Touch_Compact.thy ===== *)
theory Touch_Compact
  imports Touch_Fold
begin

text \<open>
  Normalised paths are stable (\<open>canonicalize_relative_path\<close> twice is once), and \<open>compact_record\<close> rewrites a
  file to the last event of every path. The claims read from the compacted file are those of the
  original without their kinds: \<open>compact_record\<close> does not pass \<open>kind\<close> to the encoder.
\<close>

section \<open>Normal paths\<close>

definition plain_component :: "string \<Rightarrow> bool" where
  "plain_component c = (c \<noteq> [] \<and> c \<noteq> ''.'' \<and> SLASH \<notin> set c)"

text \<open>What the loop of \<open>normpath\<close> leaves: parents only at the front, and none below the root.\<close>

definition normal_comps :: "bool \<Rightarrow> string list \<Rightarrow> bool" where
  "normal_comps absolute cs =
     (list_all plain_component cs \<and>
      (\<exists>ups rest. cs = ups @ rest \<and> list_all (\<lambda>c. c = ''..'') ups \<and> ''..'' \<notin> set rest \<and> (absolute \<longrightarrow> ups = [])))"

lemma no_slash_split: "c \<in> set (split_on SLASH p) \<Longrightarrow> SLASH \<notin> set c"
  by (induction p arbitrary: c) (auto split: if_splits list.splits)

lemma norm_comps_keep:
  "\<lbrakk>list_all plain_component cs; ''..'' \<notin> set cs \<or> (\<not> absolute \<and> list_all (\<lambda>c. c = ''..'') acc)\<rbrakk> \<Longrightarrow>
   (\<exists>ups rest. cs = ups @ rest \<and> list_all (\<lambda>c. c = ''..'') ups \<and> ''..'' \<notin> set rest) \<Longrightarrow>
   norm_comps absolute acc cs = rev acc @ cs"
proof (induction cs arbitrary: acc)
  case (Cons c cs)
  obtain ups rest where u: "c # cs = ups @ rest" "list_all (\<lambda>c. c = ''..'') ups" "''..'' \<notin> set rest"
    using Cons.prems(3) by blast
  have c: "c \<noteq> []" "c \<noteq> ''.''" using Cons.prems(1) by (simp_all add: plain_component_def)
  have "norm_comps absolute (c # acc) cs = rev (c # acc) @ cs"
  proof (rule Cons.IH)
    show "list_all plain_component cs" using Cons.prems(1) by simp
    show "''..'' \<notin> set cs \<or> (\<not> absolute \<and> list_all (\<lambda>c. c = ''..'') (c # acc))"
      using Cons.prems(2) u by (cases ups) auto
    show "\<exists>ups rest. cs = ups @ rest \<and> list_all (\<lambda>c. c = ''..'') ups \<and> ''..'' \<notin> set rest"
      using u by (cases ups) (auto intro: exI [of _ "[]"])
  qed
  moreover have "c \<noteq> ''..'' \<or> (\<not> absolute \<and> acc = []) \<or> (acc \<noteq> [] \<and> hd acc = ''..'')"
    using Cons.prems(2) by (cases acc) auto
  ultimately show ?case using c by simp
qed simp

lemma normal_comps_fixed: "normal_comps absolute cs \<Longrightarrow> norm_comps absolute [] cs = cs"
  using norm_comps_keep [of cs absolute "[]"]
  by (fastforce simp: normal_comps_def)

lemma normal_compsI:
  "\<lbrakk>list_all plain_component (ups @ rest); list_all (\<lambda>c. c = ''..'') ups; ''..'' \<notin> set rest; absolute \<Longrightarrow> ups = []\<rbrakk> \<Longrightarrow>
   normal_comps absolute (ups @ rest)"
  unfolding normal_comps_def by blast

lemma normal_comps_snoc:
  assumes "normal_comps absolute cs" "plain_component c" "c \<noteq> ''..''"
  shows "normal_comps absolute (cs @ [c])"
proof -
  obtain ups rest where "cs = ups @ rest" "list_all (\<lambda>c. c = ''..'') ups" "''..'' \<notin> set rest" "absolute \<longrightarrow> ups = []"
    "list_all plain_component cs"
    using assms(1) unfolding normal_comps_def by blast
  then show ?thesis using normal_compsI [of ups "rest @ [c]" absolute] assms(2,3) by simp
qed

lemma normal_comps_up:
  assumes "normal_comps absolute cs" "(\<not> absolute \<and> cs = []) \<or> (cs \<noteq> [] \<and> last cs = ''..'')"
  shows "normal_comps absolute (cs @ [''..''])"
proof -
  obtain ups rest where u: "cs = ups @ rest" "list_all (\<lambda>c. c = ''..'') ups" "''..'' \<notin> set rest" "absolute \<longrightarrow> ups = []"
    "list_all plain_component cs"
    using assms(1) unfolding normal_comps_def by blast
  have "rest = []" using assms(2) u(1,3) by (cases rest rule: rev_cases) auto
  then have "\<not> absolute" using assms(2) u by auto
  then show ?thesis using u \<open>rest = []\<close> normal_compsI [of "ups @ [''..'']" "[]" absolute]
    by (simp add: plain_component_def)
qed

lemma normal_comps_butlast:
  assumes "normal_comps absolute cs" shows "normal_comps absolute (butlast cs)"
proof -
  obtain ups rest where u: "cs = ups @ rest" "list_all (\<lambda>c. c = ''..'') ups" "''..'' \<notin> set rest" "absolute \<longrightarrow> ups = []"
    "list_all plain_component cs"
    using assms unfolding normal_comps_def by blast
  show ?thesis
  proof (cases "rest = []")
    case True
    then show ?thesis using u normal_compsI [of "butlast ups" "[]" absolute]
      by (auto simp: list_all_iff dest: in_set_butlastD)
  next
    case False
    then show ?thesis using u normal_compsI [of ups "butlast rest" absolute]
      by (auto simp: butlast_append list_all_iff dest: in_set_butlastD)
  qed
qed

lemma norm_comps_normal:
  "\<lbrakk>normal_comps absolute (rev acc); \<forall>c \<in> set cs. SLASH \<notin> set c\<rbrakk> \<Longrightarrow> normal_comps absolute (norm_comps absolute acc cs)"
proof (induction cs arbitrary: acc)
  case (Cons c cs)
  have last: "acc \<noteq> [] \<Longrightarrow> last (rev acc) = hd acc" by (cases acc) auto
  have plain: "c \<noteq> [] \<Longrightarrow> c \<noteq> ''.'' \<Longrightarrow> plain_component c" using Cons.prems(2) by (simp add: plain_component_def)
  have tl: "butlast (rev acc) = rev (tl acc)" by (cases acc) auto
  consider "c = [] \<or> c = ''.''" | "c \<noteq> [] \<and> c \<noteq> ''.'' \<and> c \<noteq> ''..''"
    | "c = ''..'' \<and> ((\<not> absolute \<and> acc = []) \<or> (acc \<noteq> [] \<and> hd acc = ''..''))"
    | "c = ''..'' \<and> \<not> ((\<not> absolute \<and> acc = []) \<or> (acc \<noteq> [] \<and> hd acc = ''..''))" by blast
  then show ?case
  proof cases
    case 2
    then show ?thesis using Cons normal_comps_snoc [of absolute "rev acc" c] plain by simp
  next
    case 3
    then show ?thesis using Cons normal_comps_up [of absolute "rev acc"] last by auto
  next
    case 4
    then have "norm_comps absolute acc (c # cs) = norm_comps absolute (tl acc) cs" by auto
    moreover have "normal_comps absolute (rev (tl acc))" using normal_comps_butlast [OF Cons.prems(1)] tl by simp
    ultimately show ?thesis using Cons by simp
  qed (use Cons in auto)
qed simp

lemma slash_join: "list_all (\<lambda>c. SLASH \<notin> set c) cs \<Longrightarrow> cs \<noteq> [] \<Longrightarrow> split_on SLASH (join_with [SLASH] cs) = cs"
proof (induction "[SLASH]" cs rule: join_with.induct)
  case (3 x y xs)
  then show ?case using split_on_break [of SLASH x "join_with [SLASH] (y # xs)"] by simp
qed (auto simp: split_on_none)

text \<open>Idempotence, for the three shapes of a leading run of slashes.\<close>

lemma comps_facts:
  assumes "normal_comps absolute cs"
  shows "list_all (\<lambda>c. SLASH \<notin> set c) cs" "norm_comps absolute [] cs = cs" "cs \<noteq> [] \<Longrightarrow> hd cs \<noteq> []"
  using assms normal_comps_fixed [OF assms] by (auto simp: normal_comps_def plain_component_def list_all_iff)

lemma join_no_lead: "cs \<noteq> [] \<Longrightarrow> hd cs \<noteq> [] \<Longrightarrow> SLASH \<notin> set (hd cs) \<Longrightarrow>
    \<exists>c r. join_with [SLASH] cs = c # r \<and> c \<noteq> SLASH"
  by (cases cs; cases "tl cs"; cases "hd cs") auto

theorem normpath_idempotent: "normpath (normpath p) = normpath p"
proof (cases "p = []")
  case True
  show ?thesis unfolding True by code_simp
next
  case False
  define cs where "cs = norm_comps (isabs p) [] (split_on SLASH p)"
  define lead where "lead = leading_slashes p"
  have normal: "normal_comps (isabs p) cs"
    unfolding cs_def by (rule norm_comps_normal) (auto simp: normal_comps_def no_slash_split)
  note facts = comps_facts [OF normal]
  have norm: "normpath p = (if lead @ join_with [SLASH] cs = [] then ''.'' else lead @ join_with [SLASH] cs)"
    using False by (simp add: normpath_def Let_def cs_def lead_def)
  have lead: "lead = [] \<and> \<not> isabs p \<or> lead = [SLASH] \<and> isabs p \<or> lead = [SLASH, SLASH] \<and> isabs p"
    by (auto simp: lead_def leading_slashes_def isabs_def split: list.splits)
  show ?thesis
  proof (cases "cs = []")
    case True
    then show ?thesis using norm lead by (elim disjE) (simp_all, code_simp+)
  next
    case False
    obtain c r where j: "join_with [SLASH] cs = c # r" "c \<noteq> SLASH"
      using join_no_lead [OF False facts(3) [OF False]] facts(1) False by (auto simp: list_all_iff)
    have split: "split_on SLASH (lead @ join_with [SLASH] cs) = map (\<lambda>_. []) lead @ cs"
      using slash_join [OF facts(1) False] lead by auto
    have "isabs (lead @ join_with [SLASH] cs) = isabs p" "leading_slashes (lead @ join_with [SLASH] cs) = lead"
      using lead j by (auto simp: isabs_def leading_slashes_def)
    moreover have "norm_comps (isabs p) [] (map (\<lambda>_. []) lead @ cs) = cs" using lead facts(2) by auto
    ultimately show ?thesis using norm j split by (simp add: normpath_def Let_def)
  qed
qed

lemma set_norm_comps: "set (norm_comps absolute acc cs) \<subseteq> set acc \<union> set cs"
proof (induction cs arbitrary: acc)
  case (Cons c cs)
  have "set (tl acc) \<subseteq> set acc" by (cases acc) auto
  then show ?case using Cons [of acc] Cons [of "c # acc"] Cons [of "tl acc"] by auto
qed simp

lemma set_split_on: "c \<in> set (split_on x p) \<Longrightarrow> set c \<subseteq> set p"
proof (induction p arbitrary: c)
  case (Cons a p)
  obtain y ys where y: "split_on x p = y # ys" using split_on_nonempty [of x p] by (cases "split_on x p") auto
  then show ?case using Cons.IH [of y] Cons.IH [of c] Cons.prems by (auto split: if_splits)
qed simp

lemma set_join_with: "set (join_with sep xs) \<subseteq> set sep \<union> \<Union> (set ` set xs)"
  by (induction sep xs rule: join_with.induct) auto

lemma set_normpath: "set (normpath p) \<subseteq> set p \<union> {SLASH, CHR ''.''}"
proof -
  have "set (join_with [SLASH] (norm_comps (isabs p) [] (split_on SLASH p))) \<subseteq> set p \<union> {SLASH}"
    using set_join_with [of "[SLASH]" "norm_comps (isabs p) [] (split_on SLASH p)"]
      set_norm_comps [of "isabs p" "[]" "split_on SLASH p"] set_split_on [of _ SLASH p] by fastforce
  moreover have "set (leading_slashes p) \<subseteq> {SLASH}" by (auto simp: leading_slashes_def)
  ultimately show ?thesis by (auto simp: normpath_def Let_def)
qed

lemma replace_all_single: "replace_all [a] [b] s = map (\<lambda>c. if c = a then b else c) s"
  by (induction s) (subst replace_all.simps, simp)+

theorem canonical_idempotent: "canonicalize_relative_path (canonicalize_relative_path p) = canonicalize_relative_path p"
proof -
  define q where "q = replace_all [BSL] [SLASH] p"
  have "BSL \<notin> set q" by (auto simp: q_def replace_all_single split: if_splits)
  then have "BSL \<notin> set (normpath q)" using set_normpath [of q] by auto
  then have "replace_all [BSL] [SLASH] (normpath q) = normpath q"
    unfolding replace_all_single by (intro map_idI) auto
  then show ?thesis by (simp add: canonicalize_relative_path_def q_def [symmetric] normpath_idempotent)
qed

section \<open>Compaction\<close>

text \<open>Decoding the lines of a file: the events, and how many lines were malformed; other exceptions end it.\<close>

fun decode_lines :: "nat \<Rightarrow> string list \<Rightarrow> (touch_event list \<times> nat) decoded" where
  "decode_lines depth [] = Inr ([], 0)"
| "decode_lines depth (l # ls) =
     (case decode_line depth l of
        Inl Malformed_Line \<Rightarrow> decode_bind (decode_lines depth ls) (\<lambda>(es, n). Inr (es, Suc n))
      | Inl x \<Rightarrow> Inl x
      | Inr e \<Rightarrow> decode_bind (decode_lines depth ls) (\<lambda>(es, n). Inr (e # es, n)))"

fun encode_all :: "touch_event list \<Rightarrow> encode_error + string" where
  "encode_all [] = Inr []"
| "encode_all (e # es) =
     (case encode_line False e of
        Inl x \<Rightarrow> Inl x
      | Inr l \<Rightarrow> (case encode_all es of Inl x \<Rightarrow> Inl x | Inr body \<Rightarrow> Inr (l @ body)))"

text \<open>\<open>compact_record\<close> of a file with the given content: the new content, or the exception raised by the
  decoder or the encoder. The kind of an event is not among the arguments that it encodes.\<close>

definition compact_record :: "nat \<Rightarrow> string \<Rightarrow> (decode_error + encode_error) + string" where
  "compact_record depth raw =
     (case decode_lines depth (iter_complete_lines raw) of
        Inl x \<Rightarrow> Inl (Inl x)
      | Inr (es, _) \<Rightarrow>
          (case encode_all (map (\<lambda>e. e\<lparr>kind := None\<rparr>) (last_verb_wins es)) of
             Inl x \<Rightarrow> Inl (Inr x)
           | Inr body \<Rightarrow> Inr body))"

text \<open>An event as the decoder returns it from a line that the encoder wrote.\<close>

definition stored_event :: "touch_event \<Rightarrow> bool" where
  "stored_event e =
     (readable_event e \<and> schema_version e = SCHEMA_VERSION \<and> canonicalize_relative_path (path e) = path e)"

lemma stored_without_kind: "stored_event e \<Longrightarrow> stored_event (e\<lparr>kind := None\<rparr>)"
  by (auto simp: stored_event_def readable_event_def)

lemma decode_lines_append:
  "decode_lines depth (ls @ ms) = decode_bind (decode_lines depth ls) (\<lambda>(es, n).
     decode_bind (decode_lines depth ms) (\<lambda>(fs, m). Inr (es @ fs, n + m)))"
proof (induction ls)
  case Nil
  then show ?case by (cases "decode_lines depth ms") auto
next
  case (Cons l ls)
  then show ?case
    by (cases "decode_line depth l"; cases "decode_lines depth ls"; cases "decode_lines depth ms")
      (auto split: decode_error.splits)
qed

lemma encode_all_decoded:
  "\<lbrakk>encode_all es = Inr body; list_all stored_event es\<rbrakk> \<Longrightarrow>
   decode_lines (Suc d) (iter_complete_lines (body @ raw)) =
     decode_bind (decode_lines (Suc d) (iter_complete_lines raw)) (\<lambda>(fs, n). Inr (es @ fs, n))"
proof (induction es arbitrary: body)
  case Nil
  then show ?case by (cases "decode_lines (Suc d) (iter_complete_lines raw)") auto
next
  case (Cons e es)
  obtain l rest where l: "encode_line False e = Inr l" "encode_all es = Inr rest" "body = l @ rest"
    using Cons.prems(1) by (auto split: sum.splits)
  have "readable_event e" using Cons.prems(2) by (simp add: stored_event_def)
  then have "plain_record l" "decode_line (Suc d) l = Inr e"
    using encoded_plain [OF l(1)] line_roundtrip_eq [OF l(1), of d] Cons.prems(2)
    by (auto simp: stored_event_def)
  then show ?case using Cons l
    by (cases "decode_lines (Suc d) (iter_complete_lines raw)") (auto simp: iter_lines_Cons)
qed

lemma lvw_distinct_fold:
  "distinct (map path (ds @ es)) \<Longrightarrow>
   foldl lvw_step (map (\<lambda>e. (path e, e)) ds, map path ds) es = (map (\<lambda>e. (path e, e)) (ds @ es), map path (ds @ es))"
proof (induction es arbitrary: ds)
  case (Cons e es)
  have new: "path e \<notin> fst ` set (map (\<lambda>e. (path e, e)) ds)" using Cons.prems by (auto simp: image_image)
  then have "lvw_step (map (\<lambda>e. (path e, e)) ds, map path ds) e = (map (\<lambda>e. (path e, e)) (ds @ [e]), map path (ds @ [e]))"
    by (simp add: lvw_step_pair update_new_key map_of_eq_None_iff [THEN iffD2])
  then show ?case using Cons.IH [of "ds @ [e]"] Cons.prems by simp
qed simp

lemma last_verb_wins_distinct: "distinct (map path es) \<Longrightarrow> last_verb_wins es = es"
  using lvw_distinct_fold [of "[]" es]
proof -
  assume dist: "distinct (map path es)"
  then have "the (map_of (map (\<lambda>e. (path e, e)) es) (path x)) = x" if "x \<in> set es" for x
    using that by (subst map_of_eq_Some_iff [THEN iffD2]) (auto simp: comp_def)
  then show ?thesis using lvw_distinct_fold [of "[]" es] dist
    by (simp add: last_verb_wins_def map_idI)
qed

lemma stored_last: "list_all stored_event es \<Longrightarrow> list_all stored_event (last_verb_wins es)"
  using set_last_verb_wins last_on_Some by (fastforce simp: list_all_iff)

lemma compact_decoded:
  assumes "decode_lines (Suc d) (iter_complete_lines raw) = Inr (es, n)" "list_all stored_event es"
    "compact_record (Suc d) raw = Inr body"
  shows "decode_lines (Suc d) (iter_complete_lines body) = Inr (map (\<lambda>e. e\<lparr>kind := None\<rparr>) (last_verb_wins es), 0)"
    "encode_all (map (\<lambda>e. e\<lparr>kind := None\<rparr>) (last_verb_wins es)) = Inr body"
proof -
  show enc: "encode_all (map (\<lambda>e. e\<lparr>kind := None\<rparr>) (last_verb_wins es)) = Inr body"
    using assms(1,3) by (simp add: compact_record_def split: sum.splits)
  have "list_all stored_event (map (\<lambda>e. e\<lparr>kind := None\<rparr>) (last_verb_wins es))"
    using stored_last [OF assms(2)] stored_without_kind by (simp add: list_all_iff)
  from encode_all_decoded [OF enc this, of d "[]"]
  show "decode_lines (Suc d) (iter_complete_lines body) = Inr (map (\<lambda>e. e\<lparr>kind := None\<rparr>) (last_verb_wins es), 0)"
    by (simp add: iter_lines_fragment)
qed

lemma kindless_last: "last_on p (map (\<lambda>e. e\<lparr>kind := None\<rparr>) es) = map_option (\<lambda>e. e\<lparr>kind := None\<rparr>) (last_on p es)"
  by (induction es rule: rev_induct) (simp_all add: last_on_snoc)

lemma last_on_lvw: "last_on p (last_verb_wins es) = last_on p es"
proof -
  have "last_verb_wins (last_verb_wins es) = last_verb_wins es"
    by (rule last_verb_wins_distinct [OF paths_last_verb_wins])
  then show ?thesis using claims_of_eq [of "last_verb_wins es" p] claims_of_eq [of es p] by (simp add: claims_of_def)
qed

lemma kinds_distinct:
  assumes "distinct (map path es)"
  shows "kinds_since_release p es =
    (case last_on p es of None \<Rightarrow> [] | Some e \<Rightarrow> if verb e = VERB_RELEASE then [] else [kind e])"
  using assms
proof (induction es rule: rev_induct)
  case (snoc e es)
  then show ?case using last_on_None [of "path e" es] by (auto simp: kinds_snoc last_on_snoc)
qed simp

lemma compacted_hold:
  "map_of (held_kind (map (\<lambda>e. e\<lparr>kind := None\<rparr>) (last_verb_wins es))) p = map_option (\<lambda>_. None) (map_of (held_kind es) p)"
proof -
  let ?fs = "map (\<lambda>e. e\<lparr>kind := None\<rparr>) (last_verb_wins es)"
  have "distinct (map path ?fs)" using paths_last_verb_wins [of es] by (simp add: comp_def)
  from kinds_distinct [OF this, of p]
  have "kinds_since_release p ?fs = (case last_on p es of None \<Rightarrow> [] | Some e \<Rightarrow> if verb e = VERB_RELEASE then [] else [None])"
    by (simp add: kindless_last last_on_lvw split: option.splits)
  then show ?thesis using held_iff_touched [of p es]
    by (auto simp: held_kind_eq kind_of_hold_def split: option.splits)
qed

end
