(* ===== verification/Touch_Sink.thy ===== *)
theory Touch_Sink
  imports Touch_Compact
begin

text \<open>
  The files behind one record (\<open>session/touch_record.py\<close>): the live file, its rotated generations, the
  append path with its rotation by size, the reader of a whole family, and the cache of folds that reads
  only what was appended. A directory is the list of its entries in the order of the listing.

  A file carries its content and its modification time; \<open>Blocked\<close> is an entry that exists and whose
  content cannot be read (with its size and time). The system of one process (clock, process id, rotation
  counter, whether a rename succeeds) is the record \<open>writer\<close>. An append that does not land within its
  wait is one that happens later.
\<close>

section \<open>Directories\<close>

datatype node = Regular string int | Blocked nat int

type_synonym folder = "(string \<times> node) list"

fun node_size :: "node \<Rightarrow> nat" where
  "node_size (Regular content _) = length content"
| "node_size (Blocked n _) = n"

fun node_mtime :: "node \<Rightarrow> int" where
  "node_mtime (Regular _ t) = t"
| "node_mtime (Blocked _ t) = t"

definition RECORD_FILENAME :: string where "RECORD_FILENAME = ''touch-record.jsonl''"
definition MAX_RECORD_BYTES :: nat where "MAX_RECORD_BYTES = 256 * 1024"
definition MAX_SINK_BYTES :: nat where "MAX_SINK_BYTES = 64 * 1024 * 1024"
definition TAIL_ANCHOR_BYTES :: nat where "TAIL_ANCHOR_BYTES = 64"
definition FOLD_CACHE_MAX :: nat where "FOLD_CACHE_MAX = 8192"

section \<open>Generations\<close>

text \<open>The part of a rotated name after \<open>.rotated-\<close>: time, process and counter; \<open>$\<close> accepts a final line break.\<close>

definition ends_generation :: "string \<Rightarrow> bool" where
  "ends_generation s = (s = ''.jsonl'' \<or> s = ''.jsonl'' @ [NL])"

definition generation_key :: "string \<Rightarrow> (int \<times> int \<times> int) option" where
  "generation_key s =
     (let ts = takeWhile is_dec s; r1 = dropWhile is_dec s;
          pid = takeWhile is_dec (tl r1); r2 = dropWhile is_dec (tl r1);
          seq = takeWhile is_dec (tl r2); r3 = dropWhile is_dec (tl r2) in
      if ts = [] \<or> \<not> starts_with ''-'' r1 \<or> pid = [] then None
      else if ends_generation r2 then Some (digits_value 10 ts, digits_value 10 pid, 0)
      else if starts_with ''-'' r2 \<and> seq \<noteq> [] \<and> ends_generation r3
        then Some (digits_value 10 ts, digits_value 10 pid, digits_value 10 seq)
      else None)"

definition rotated_prefix :: "string \<Rightarrow> string" where
  "rotated_prefix name = name @ ''.rotated-''"

definition rotated_key :: "string \<Rightarrow> string \<Rightarrow> (int \<times> int \<times> int) option" where
  "rotated_key name entry =
     (if starts_with (rotated_prefix name) entry then generation_key (drop (length (rotated_prefix name)) entry) else None)"

definition rotated_members :: "string \<Rightarrow> folder \<Rightarrow> string list" where
  "rotated_members name dir =
     sort_key (\<lambda>m. the (rotated_key name m)) (filter (\<lambda>m. rotated_key name m \<noteq> None) (map fst dir))"

definition discover_family :: "string \<Rightarrow> folder \<Rightarrow> string list" where
  "discover_family name dir = rotated_members name dir @ (if map_of dir name = None then [] else [name])"

text \<open>\<open>dir_claim_listing\<close> of the entries of a claimant's directory: a claim surface, a back-pointer, a live
  file without rotated generations.\<close>

definition OWNER_POINTER_FILENAME :: string where "OWNER_POINTER_FILENAME = ''em-session-id.txt''"

definition dir_claim_listing :: "folder \<Rightarrow> bool \<times> bool \<times> bool" where
  "dir_claim_listing dir =
     (let live = map_of dir RECORD_FILENAME \<noteq> None;
          rotated = list_ex (\<lambda>m. rotated_key RECORD_FILENAME m \<noteq> None) (map fst dir);
          pointer = map_of dir OWNER_POINTER_FILENAME \<noteq> None in
      (live \<or> rotated, pointer, live \<and> \<not> rotated))"

section \<open>Reading a family\<close>

record sink_read =
  r_claims :: claim_map
  r_held :: "(string \<times> string option) list"
  r_degraded :: bool
  r_reasons :: "string list"

definition read_of :: "touch_event list \<Rightarrow> string list \<Rightarrow> sink_read" where
  "read_of es reasons = \<lparr>r_claims = claims_of es, r_held = held_kind es, r_degraded = (reasons \<noteq> []), r_reasons = reasons\<rparr>"

definition read_member :: "nat \<Rightarrow> folder \<Rightarrow> string \<Rightarrow> (touch_event list \<times> string list) decoded" where
  "read_member depth dir m =
     (case map_of dir m of
        None \<Rightarrow> Inr ([], [])
      | Some (Blocked _ _) \<Rightarrow> Inr ([], [''unreadable:'' @ m])
      | Some (Regular content _) \<Rightarrow>
          if MAX_SINK_BYTES < length content then Inr ([], [''unreadable:'' @ m])
          else decode_bind (decode_lines depth (iter_complete_lines content))
            (\<lambda>(es, n). Inr (es, replicate n (''malformed:'' @ m))))"

fun read_members :: "nat \<Rightarrow> folder \<Rightarrow> string list \<Rightarrow> (touch_event list \<times> string list) decoded" where
  "read_members depth dir [] = Inr ([], [])"
| "read_members depth dir (m # ms) =
     decode_bind (read_member depth dir m) (\<lambda>(es, rs).
       decode_bind (read_members depth dir ms) (\<lambda>(fs, qs). Inr (es @ fs, rs @ qs)))"

text \<open>The read of a family without the cache; this is what a healthy reader must see.\<close>

definition read_family :: "nat \<Rightarrow> string \<Rightarrow> folder \<Rightarrow> sink_read decoded" where
  "read_family depth name dir =
     decode_bind (read_members depth dir (discover_family name dir)) (\<lambda>(es, rs). Inr (read_of es rs))"

section \<open>The cache of folds\<close>

record fold_entry =
  f_size :: nat
  f_mtime :: int
  f_claims :: claim_map
  f_held :: "(string \<times> string option) list"
  f_offset :: nat
  f_anchor :: string
  f_rotated :: "string list"
  f_events :: "touch_event list"

type_synonym fold_cache = "(string \<times> fold_entry) list"

text \<open>\<open>raw.rfind(b"\n") + 1\<close>.\<close>

definition consumed :: "string \<Rightarrow> nat" where
  "consumed raw = length raw - length (takeWhile (\<lambda>c. c \<noteq> NL) (rev raw))"

definition anchor_at :: "string \<Rightarrow> nat \<Rightarrow> string" where
  "anchor_at joined e = drop (e - TAIL_ANCHOR_BYTES) (take e joined)"

definition remember_fold :: "string \<Rightarrow> fold_entry \<Rightarrow> fold_cache \<Rightarrow> fold_cache" where
  "remember_fold key entry cache = AList.update key entry (if FOLD_CACHE_MAX \<le> length cache then [] else cache)"

definition live_signature :: "string \<Rightarrow> folder \<Rightarrow> (nat \<times> int) option" where
  "live_signature name dir = map_option (\<lambda>n. (node_size n, node_mtime n)) (map_of dir name)"

text \<open>Decoding that stops at the first malformed line.\<close>

fun decode_strict :: "nat \<Rightarrow> string list \<Rightarrow> touch_event list option decoded" where
  "decode_strict depth [] = Inr (Some [])"
| "decode_strict depth (l # ls) =
     (case decode_line depth l of
        Inl Malformed_Line \<Rightarrow> Inr None
      | Inl x \<Rightarrow> Inl x
      | Inr e \<Rightarrow> decode_bind (decode_strict depth ls) (\<lambda>es. Inr (map_option ((#) e) es)))"

text \<open>\<open>_fold_grown_sink\<close>: \<open>None\<close> asks for a whole read.\<close>

definition fold_grown_sink :: "nat \<Rightarrow> string \<Rightarrow> folder \<Rightarrow> fold_entry \<Rightarrow> (sink_read \<times> fold_entry) option decoded" where
  "fold_grown_sink depth name dir cached =
     (case map_of dir name of
        Some (Regular content t) \<Rightarrow>
          if length content \<le> f_offset cached then Inr None
          else if rotated_members name dir \<noteq> f_rotated cached then Inr None
          else
            (let data = drop (f_offset cached - length (f_anchor cached)) content;
                 tail = drop (length (f_anchor cached)) data in
             if take (length (f_anchor cached)) data \<noteq> f_anchor cached then Inr None
             else decode_bind (decode_strict depth (iter_complete_lines tail)) (\<lambda>news.
               (case news of
                  None \<Rightarrow> Inr None
                | Some new_events \<Rightarrow>
                   (let es = f_events cached @ new_events;
                        upto = f_offset cached + consumed tail;
                        joined = f_anchor cached @ tail in
                    Inr (Some (read_of es [],
                      \<lparr>f_size = length content, f_mtime = t, f_claims = claims_of es, f_held = held_kind es,
                       f_offset = upto, f_anchor = anchor_at joined (length (f_anchor cached) + (upto - f_offset cached)),
                       f_rotated = f_rotated cached, f_events = es\<rparr>))))))
      | _ \<Rightarrow> Inr None)"

text \<open>The whole read, which is kept when the live file was read and nothing was degraded. A sink listed as a
  live file alone skips the listing of its directory.\<close>

definition whole_read :: "nat \<Rightarrow> string \<Rightarrow> string \<Rightarrow> folder \<Rightarrow> bool \<Rightarrow> fold_cache \<Rightarrow> sink_read decoded \<times> fold_cache" where
  "whole_read depth key name dir live_only cache =
     (let members = (if live_only then [name] else discover_family name dir) in
      (case read_members depth dir members of
         Inl x \<Rightarrow> (Inl x, cache)
       | Inr (es, rs) \<Rightarrow>
           (case (map_of dir name, rs) of
              (Some (Regular content t), []) \<Rightarrow>
                (Inr (read_of es rs),
                 remember_fold key
                   \<lparr>f_size = length content, f_mtime = t, f_claims = claims_of es, f_held = held_kind es,
                    f_offset = consumed content, f_anchor = anchor_at content (consumed content),
                    f_rotated = filter (\<lambda>m. m \<noteq> name) members, f_events = es\<rparr> cache)
            | _ \<Rightarrow> (Inr (read_of es rs), cache))))"

definition read_sink :: "nat \<Rightarrow> string \<Rightarrow> string \<Rightarrow> folder \<Rightarrow> bool \<Rightarrow> fold_cache \<Rightarrow> sink_read decoded \<times> fold_cache" where
  "read_sink depth key name dir live_only cache =
     (case map_of cache key of
        None \<Rightarrow> whole_read depth key name dir live_only cache
      | Some cached \<Rightarrow>
          if live_signature name dir = Some (f_size cached, f_mtime cached) then
            (Inr \<lparr>r_claims = f_claims cached, r_held = f_held cached, r_degraded = False, r_reasons = []\<rparr>, cache)
          else if live_signature name dir = None then whole_read depth key name dir live_only cache
          else
            (case fold_grown_sink depth name dir cached of
               Inl x \<Rightarrow> (Inl x, cache)
             | Inr None \<Rightarrow> whole_read depth key name dir live_only cache
             | Inr (Some (r, entry)) \<Rightarrow> (Inr r, remember_fold key entry cache)))"

section \<open>Appending\<close>

text \<open>What a writing process sees: the clock as a float and in milliseconds, the pid, the rotation counter,
  whether the rename of a rotation succeeds, the time its write gets, \<open>CLAUDE_PID\<close> and its own registry
  record (session and name).\<close>

record writer =
  w_now :: py_float
  w_ms :: int
  w_pid :: int
  w_seq :: int
  w_rename_ok :: bool
  w_mtime :: int
  w_claude_pid :: "string option"
  w_self :: "(string \<times> string option) option"

definition rotated_name :: "string \<Rightarrow> writer \<Rightarrow> string" where
  "rotated_name name w =
     rotated_prefix name @ decimal (w_ms w) @ ''-'' @ decimal (w_pid w) @ ''-'' @ decimal (w_seq w) @ ''.jsonl''"

definition rotate_oversized :: "string \<Rightarrow> writer \<Rightarrow> folder \<Rightarrow> folder" where
  "rotate_oversized name w dir =
     (case map_of dir name of
        Some n \<Rightarrow> if w_rename_ok w then AList.update (rotated_name name w) n (AList.delete name dir) else dir
      | None \<Rightarrow> dir)"

definition maybe_rotate :: "string \<Rightarrow> writer \<Rightarrow> folder \<Rightarrow> folder" where
  "maybe_rotate name w dir =
     (case map_of dir name of
        None \<Rightarrow> dir
      | Some n \<Rightarrow> if MAX_RECORD_BYTES \<le> node_size n then rotate_oversized name w dir else dir)"

text \<open>\<open>append_line\<close>: one write at the end of the file, which is created when absent.\<close>

definition append_text :: "string \<Rightarrow> string \<Rightarrow> int \<Rightarrow> folder \<Rightarrow> folder" where
  "append_text name text t dir =
     (case map_of dir name of
        None \<Rightarrow> AList.update name (Regular text t) dir
      | Some (Regular content _) \<Rightarrow> AList.update name (Regular (content @ text) t) dir
      | Some (Blocked n _) \<Rightarrow> AList.update name (Blocked (n + length text) t) dir)"

text \<open>The memo of the writer's identity is keyed by \<open>CLAUDE_PID\<close>; a name is stamped on an event of the
  writer's own session only.\<close>

type_synonym writer_memo = "(string option \<times> (string \<times> string option) option) option"

definition resolve_writer_name :: "writer \<Rightarrow> writer_memo \<Rightarrow> string \<Rightarrow> string option \<times> writer_memo" where
  "resolve_writer_name w memo sid =
     (let memo' = (case memo of
                     Some (k, _) \<Rightarrow> if k = w_claude_pid w then memo else Some (w_claude_pid w, w_self w)
                   | None \<Rightarrow> Some (w_claude_pid w, w_self w)) in
      (case memo' of
         Some (_, Some (wsid, nm)) \<Rightarrow> (if wsid = sid then nm else None, memo')
       | _ \<Rightarrow> (None, memo')))"

text \<open>The arguments of an append: the fields of an event, an optional stamp, and the name given or unset.\<close>

record request =
  q_event :: touch_event
  q_stamp :: "py_float option"
  q_name :: "string option option"

definition request_event :: "writer \<Rightarrow> writer_memo \<Rightarrow> request \<Rightarrow> touch_event \<times> writer_memo" where
  "request_event w memo q =
     (case (case q_name q of
              Some nm \<Rightarrow> (nm, memo)
            | None \<Rightarrow> resolve_writer_name w memo (session_id (q_event q))) of
        (nm, memo') \<Rightarrow>
          ((q_event q)\<lparr>stamp := (case q_stamp q of None \<Rightarrow> w_now w | Some t \<Rightarrow> t), writer_name := nm\<rparr>, memo'))"

definition append_touch_event :: "string \<Rightarrow> writer \<Rightarrow> writer_memo \<Rightarrow> request \<Rightarrow> folder \<Rightarrow> (encode_error + folder) \<times> writer_memo" where
  "append_touch_event name w memo q dir =
     (case request_event w memo q of
        (e, memo') \<Rightarrow>
          (case encode_line False e of
             Inl x \<Rightarrow> (Inl x, memo')
           | Inr encoded \<Rightarrow> (Inr (append_text name encoded (w_mtime w) (maybe_rotate name w dir)), memo')))"

text \<open>\<open>append_touch_events\<close>: lines that are too long are dropped alone, any other refusal comes before the write. The
  names resolved so far are kept per session.\<close>

definition batch_name :: "writer \<Rightarrow> writer_memo \<Rightarrow> (string \<times> string option) list \<Rightarrow> request \<Rightarrow>
    string option \<times> writer_memo \<times> (string \<times> string option) list" where
  "batch_name w memo names q =
     (case q_name q of
        Some nm \<Rightarrow> (nm, memo, names)
      | None \<Rightarrow>
         (let sid = session_id (q_event q) in
          (case map_of names sid of
             Some nm \<Rightarrow> (nm, memo, names)
           | None \<Rightarrow> (case resolve_writer_name w memo sid of (nm, memo') \<Rightarrow> (nm, memo', AList.update sid nm names)))))"

fun encode_batch :: "writer \<Rightarrow> writer_memo \<Rightarrow> (string \<times> string option) list \<Rightarrow> request list \<Rightarrow>
    (encode_error + (string list \<times> string list)) \<times> writer_memo" where
  "encode_batch w memo names [] = (Inr ([], []), memo)"
| "encode_batch w memo names (q # qs) =
     (case batch_name w memo names q of
        (nm, memo', names') \<Rightarrow>
          (case encode_line False ((q_event q)\<lparr>stamp := (case q_stamp q of None \<Rightarrow> w_now w | Some t \<Rightarrow> t), writer_name := nm\<rparr>) of
             Inl Line_Too_Long \<Rightarrow> encode_batch w memo' names' qs
           | Inl x \<Rightarrow> (Inl x, memo')
           | Inr l \<Rightarrow>
              (case encode_batch w memo' names' qs of
                 (Inl x, memo'') \<Rightarrow> (Inl x, memo'')
               | (Inr (ls, ps), memo'') \<Rightarrow>
                   (Inr (l # ls, canonicalize_relative_path (path (q_event q)) # ps), memo''))))"

definition append_touch_events :: "string \<Rightarrow> writer \<Rightarrow> writer_memo \<Rightarrow> request list \<Rightarrow> folder \<Rightarrow>
    (encode_error + (nat \<times> folder)) \<times> writer_memo" where
  "append_touch_events name w memo qs dir =
     (case encode_batch w memo [] qs of
        (Inl x, memo') \<Rightarrow> (Inl x, memo')
      | (Inr (ls, _), memo') \<Rightarrow>
          if ls = [] then (Inr (0, dir), memo')
          else (Inr (length ls, append_text name (concat ls) (w_mtime w) (maybe_rotate name w dir)), memo'))"

text \<open>\<open>append_touch_claims\<close>: one touch per nonempty path, a failure of one path is skipped.\<close>

definition touch_request :: "string \<Rightarrow> (string \<times> string) list \<Rightarrow> string option \<Rightarrow> string \<Rightarrow> request" where
  "touch_request sid digests kd rel =
     \<lparr>q_event = \<lparr>schema_version = SCHEMA_VERSION, verb = VERB_TOUCH, stamp = Units 0, session_id = sid,
        agent_id = None, path = rel, content_hash = map_of digests rel, writer_name = None, kind = kd\<rparr>,
      q_stamp = None, q_name = None\<rparr>"

fun append_touch_claims :: "(nat \<Rightarrow> writer) \<Rightarrow> writer_memo \<Rightarrow> string \<Rightarrow> (string \<times> string) list \<Rightarrow> string option \<Rightarrow>
    string list \<Rightarrow> folder \<Rightarrow> folder \<times> writer_memo" where
  "append_touch_claims w memo sid digests kd [] dir = (dir, memo)"
| "append_touch_claims w memo sid digests kd (rel # rels) dir =
     (if sid = [] then (dir, memo)
      else if rel = [] then append_touch_claims (\<lambda>n. w (Suc n)) memo sid digests kd rels dir
      else (case append_touch_event RECORD_FILENAME (w 0) memo (touch_request sid digests kd rel) dir of
              (Inl _, memo') \<Rightarrow> append_touch_claims (\<lambda>n. w (Suc n)) memo' sid digests kd rels dir
            | (Inr dir', memo') \<Rightarrow> append_touch_claims (\<lambda>n. w (Suc n)) memo' sid digests kd rels dir'))"

section \<open>The newest event of a session\<close>

text \<open>\<open>last_seen_events\<close>: from the newest line of the newest generation back, the first event of this session
  per wanted path. Members that cannot be read and malformed lines are skipped; any other exception
  leaves every path without an answer.\<close>

fun newest_first :: "nat \<Rightarrow> string \<Rightarrow> string list \<Rightarrow> string list \<Rightarrow> (string \<times> touch_event) list \<Rightarrow>
    (string list \<times> (string \<times> touch_event) list) decoded" where
  "newest_first depth sid [] pending found = Inr (pending, found)"
| "newest_first depth sid (l # ls) pending found =
     (if pending = [] then Inr (pending, found)
      else (case decode_line depth l of
              Inl Malformed_Line \<Rightarrow> newest_first depth sid ls pending found
            | Inl x \<Rightarrow> Inl x
            | Inr e \<Rightarrow>
                if path e \<in> set pending \<and> session_id e = sid
                  then newest_first depth sid ls (filter (\<lambda>p. p \<noteq> path e) pending) ((path e, e) # found)
                  else newest_first depth sid ls pending found))"

definition member_lines :: "folder \<Rightarrow> string \<Rightarrow> string list" where
  "member_lines dir m =
     (case map_of dir m of Some (Regular content _) \<Rightarrow> rev (iter_complete_lines content) | _ \<Rightarrow> [])"

definition last_seen_events :: "nat \<Rightarrow> string \<Rightarrow> string list \<Rightarrow> folder \<Rightarrow> (string \<times> (string option \<times> py_float) option) list" where
  "last_seen_events depth sid rel_paths dir =
     (let wanted = filter (\<lambda>p. p \<noteq> []) (remdups rel_paths);
          nothing = map (\<lambda>p. (p, None)) rel_paths in
      if sid = [] \<or> wanted = [] then nothing
      else
        (case newest_first depth sid (concat (map (member_lines dir) (rev (discover_family RECORD_FILENAME dir)))) wanted [] of
           Inl _ \<Rightarrow> nothing
         | Inr (_, found) \<Rightarrow>
             map (\<lambda>p. (p, map_option (\<lambda>e. (content_hash e, stamp e)) (map_of found p))) rel_paths))"

definition last_seen_hash :: "nat \<Rightarrow> string \<Rightarrow> string \<Rightarrow> folder \<Rightarrow> string option" where
  "last_seen_hash depth sid rel dir =
     (if rel = [] then None
      else (case map_of (last_seen_events depth sid [rel] dir) rel of Some (Some (digest, _)) \<Rightarrow> digest | _ \<Rightarrow> None))"

text \<open>\<open>is_stale\<close>, with the digest of the file on disk now (\<open>None\<close> when it cannot be read).\<close>

definition is_stale :: "string option \<Rightarrow> string option \<Rightarrow> bool" where
  "is_stale recorded now =
     (case (recorded, now) of
        (Some r, Some d) \<Rightarrow> r \<noteq> [] \<and> d \<noteq> r
      | _ \<Rightarrow> False)"

end
