(* ===== verification/Touch_History.thy ===== *)
theory Touch_History
  imports Touch_Sink
begin

text \<open>
  What the files of a record mean: the sequence of its events (\<open>touch_history\<close>), oldest generation first. An append
  adds its event at the end of that sequence, with or without a rotation; the cache of folds never shows
  anything else than a whole read; the newest recorded event of a session is the last of the sequence.
\<close>

section \<open>Healthy records\<close>

text \<open>The events of a record of which every member can be read and every complete line decodes.\<close>

definition touch_history :: "nat \<Rightarrow> string \<Rightarrow> folder \<Rightarrow> touch_event list option" where
  "touch_history depth name dir =
     (case read_members depth dir (discover_family name dir) of Inr (es, []) \<Rightarrow> Some es | _ \<Rightarrow> None)"

lemma history_read: "touch_history depth name dir = Some es \<Longrightarrow> read_family depth name dir = Inr (read_of es [])"
  by (auto simp: touch_history_def read_family_def split: sum.splits list.splits)

lemma decode_bind_Inr: "decode_bind x f = Inr y \<longleftrightarrow> (\<exists>a. x = Inr a \<and> f a = Inr y)"
  by (cases x) auto

lemma read_members_append: "read_members depth dir (ms @ ns) =
    decode_bind (read_members depth dir ms) (\<lambda>(es, rs).
      decode_bind (read_members depth dir ns) (\<lambda>(fs, qs). Inr (es @ fs, rs @ qs)))"
proof (induction ms)
  case Nil
  then show ?case by (cases "read_members depth dir ns") auto
next
  case (Cons m ms)
  then show ?case
    by (cases "read_member depth dir m"; cases "read_members depth dir ms"; cases "read_members depth dir ns") auto
qed

lemma read_members_cong: "(\<And>m. m \<in> set ms \<Longrightarrow> map_of dir m = map_of dir' m) \<Longrightarrow>
    read_members depth dir ms = read_members depth dir' ms"
  by (induction ms) (simp_all add: read_member_def)

lemma decode_lines_nth: "decode_lines depth ls = Inr (es, 0) \<longleftrightarrow> map (decode_line depth) ls = map Inr es"
proof (induction ls arbitrary: es)
  case (Cons l ls)
  show ?case
  proof (cases "decode_line depth l")
    case (Inl x)
    then show ?thesis by (cases x; cases "decode_lines depth ls"; cases es) auto
  next
    case (Inr e)
    then show ?thesis using Cons by (cases "decode_lines depth ls"; cases es) auto
  qed
qed (auto simp: eq_commute)

section \<open>Names of generations\<close>

lemma takeWhile_decimal: "0 \<le> n \<Longrightarrow> \<not> is_dec c \<Longrightarrow> takeWhile is_dec (decimal n @ c # r) = decimal n \<and>
    dropWhile is_dec (decimal n @ c # r) = c # r"
  using decimal_facts [of n] by (simp add: list_all_iff takeWhile_append dropWhile_append takeWhile_all)

lemma not_dec [simp]: "\<not> is_dec CHR ''-''" "\<not> is_dec CHR ''.''"
  by (simp_all add: is_dec_def in_range_def)

lemma generation_key_name:
  assumes "0 \<le> a" "0 \<le> b" "0 \<le> c"
  shows "generation_key (decimal a @ ''-'' @ decimal b @ ''-'' @ decimal c @ ''.jsonl'') = Some (a, b, c)"
proof -
  have nonempty: "decimal n \<noteq> []" if "0 \<le> n" for n using decimal_facts that by blast
  have "takeWhile is_dec (decimal c @ ''.jsonl'') = decimal c" "dropWhile is_dec (decimal c @ ''.jsonl'') = ''.jsonl''"
    using takeWhile_decimal [OF assms(3), of "CHR ''.''" "''jsonl''"] by simp_all
  then show ?thesis
    using takeWhile_decimal [OF assms(1), of "CHR ''-''"] takeWhile_decimal [OF assms(2), of "CHR ''-''"]
      nonempty [OF assms(1)] nonempty [OF assms(2)] nonempty [OF assms(3)]
      decimal_facts [OF assms(1)] decimal_facts [OF assms(2)] decimal_facts [OF assms(3)]
    by (simp add: generation_key_def ends_generation_def Let_def)
qed

lemma starts_with_prefix [simp]: "starts_with p (p @ s)"
  by (simp add: starts_with_def)

lemma rotated_key_name: "0 \<le> w_ms w \<Longrightarrow> 0 \<le> w_pid w \<Longrightarrow> 0 \<le> w_seq w \<Longrightarrow>
    rotated_key name (rotated_name name w) = Some (w_ms w, w_pid w, w_seq w)"
  using generation_key_name by (simp add: rotated_key_def rotated_name_def)

lemma live_not_rotated [simp]: "rotated_key name name = None"
  by (simp add: rotated_key_def rotated_prefix_def starts_with_def)

lemma rotated_not_live: "rotated_key name m \<noteq> None \<Longrightarrow> m \<noteq> name"
  by auto

lemma live_not_member: "name \<notin> set (rotated_members name dir)"
  by (auto simp: rotated_members_def)

section \<open>Members after a write\<close>

lemma read_members_family: "read_members depth dir (discover_family name dir) = read_members depth dir (rotated_members name dir @ [name])"
proof (cases "map_of dir name = None")
  case True
  then have "read_member depth dir name = Inr ([], [])" by (simp add: read_member_def)
  then show ?thesis using True
    by (cases "read_members depth dir (rotated_members name dir)") (auto simp: discover_family_def read_members_append)
qed (auto simp: discover_family_def)

lemma history_iff: "touch_history depth name dir = Some es \<longleftrightarrow>
    (\<exists>a b. read_members depth dir (rotated_members name dir) = Inr (a, []) \<and> read_member depth dir name = Inr (b, []) \<and> es = a @ b)"
  unfolding touch_history_def read_members_family read_members_append
  by (cases "read_members depth dir (rotated_members name dir)"; cases "read_member depth dir name")
    (auto split: list.splits)

lemma update_keys: "map fst (AList.update k v d) = (if k \<in> fst ` set d then map fst d else map fst d @ [k])"
  by (induction d) auto

lemma rotated_members_same:
  "filter (\<lambda>m. m \<noteq> name) (map fst dir') = filter (\<lambda>m. m \<noteq> name) (map fst dir) \<Longrightarrow> rotated_members name dir' = rotated_members name dir"
proof -
  have *: "filter (\<lambda>m. rotated_key name m \<noteq> None) xs =
      filter (\<lambda>m. rotated_key name m \<noteq> None) (filter (\<lambda>m. m \<noteq> name) xs)" for xs
    by (induction xs) auto
  assume "filter (\<lambda>m. m \<noteq> name) (map fst dir') = filter (\<lambda>m. m \<noteq> name) (map fst dir)"
  then show ?thesis unfolding rotated_members_def using * [of "map fst dir'"] * [of "map fst dir"] by simp
qed

lemma append_text_lookup: "m \<noteq> name \<Longrightarrow> map_of (append_text name text t dir) m = map_of dir m"
  by (auto simp: append_text_def alist_simps split: option.splits node.splits)

lemma append_text_keys: "filter (\<lambda>m. m \<noteq> name) (map fst (append_text name text t dir)) = filter (\<lambda>m. m \<noteq> name) (map fst dir)"
  by (auto simp: append_text_def update_keys split: option.splits node.splits)

lemma append_text_rotated: "rotated_members name (append_text name text t dir) = rotated_members name dir"
  by (rule rotated_members_same [OF append_text_keys])

lemma read_rotated_append: "read_members depth (append_text name text t dir) (rotated_members name dir) =
    read_members depth dir (rotated_members name dir)"
  using live_not_member [of name dir] by (intro read_members_cong append_text_lookup) auto

lemma insort_last: "\<forall>x \<in> set xs. f x < f y \<Longrightarrow> sort_key f (xs @ [y]) = sort_key f xs @ [y]"
proof (induction xs)
  case (Cons x xs)
  have "insort_key f x (zs @ [y]) = insort_key f x zs @ [y]" if "f x < f y" for zs
    using that by (induction zs) auto
  then show ?case using Cons by simp
qed simp

lemma delete_keys: "map fst (AList.delete k d) = filter (\<lambda>m. m \<noteq> k) (map fst d)"
  by (induction d) auto

lemma rotate_members:
  assumes "map_of dir name = Some n" "w_rename_ok w" "rotated_name name w \<notin> fst ` set dir"
    "0 \<le> w_ms w" "0 \<le> w_pid w" "0 \<le> w_seq w"
    "\<forall>m \<in> set (rotated_members name dir). the (rotated_key name m) < (w_ms w, w_pid w, w_seq w)"
  shows "rotated_members name (rotate_oversized name w dir) = rotated_members name dir @ [rotated_name name w]"
    "map_of (rotate_oversized name w dir) (rotated_name name w) = Some n"
    "map_of (rotate_oversized name w dir) name = None"
    "m \<noteq> name \<Longrightarrow> m \<noteq> rotated_name name w \<Longrightarrow> map_of (rotate_oversized name w dir) m = map_of dir m"
proof -
  let ?new = "rotated_name name w"
  have rot: "rotate_oversized name w dir = AList.update ?new n (AList.delete name dir)"
    using assms(1,2) by (simp add: rotate_oversized_def)
  have key: "rotated_key name ?new = Some (w_ms w, w_pid w, w_seq w)" using rotated_key_name assms(4-6) by blast
  have "?new \<notin> fst ` set (AList.delete name dir)" using assms(3) delete_keys [of name dir] by (metis (no_types, lifting) filter_is_subset image_set subsetD)
  then have "map fst (rotate_oversized name w dir) = filter (\<lambda>m. m \<noteq> name) (map fst dir) @ [?new]"
    by (simp add: rot update_keys delete_keys)
  moreover have "filter (\<lambda>m. rotated_key name m \<noteq> None) (filter (\<lambda>m. m \<noteq> name) xs) = filter (\<lambda>m. rotated_key name m \<noteq> None) xs" for xs
    by (induction xs) auto
  ultimately have "rotated_members name (rotate_oversized name w dir) =
      sort_key (\<lambda>m. the (rotated_key name m)) (filter (\<lambda>m. rotated_key name m \<noteq> None) (map fst dir) @ [?new])"
    using key by (simp add: rotated_members_def)
  also have "\<dots> = rotated_members name dir @ [?new]"
    unfolding rotated_members_def using assms(7) key by (subst insort_last) (auto simp: rotated_members_def)
  finally show "rotated_members name (rotate_oversized name w dir) = rotated_members name dir @ [?new]" .
  have "?new \<noteq> name" using key by auto
  then show "map_of (rotate_oversized name w dir) ?new = Some n" "map_of (rotate_oversized name w dir) name = None"
    "m \<noteq> name \<Longrightarrow> m \<noteq> ?new \<Longrightarrow> map_of (rotate_oversized name w dir) m = map_of dir m"
    by (auto simp: rot alist_simps)
qed

section \<open>An append extends the touch_history\<close>

definition framed :: "string \<Rightarrow> bool" where
  "framed raw = (raw = [] \<or> last raw = NL)"

lemma split_on_append: "split_on c (a @ c # b) = split_on c a @ split_on c b"
proof (induction a)
  case (Cons x a)
  obtain y ys where "split_on c a = y # ys" using split_on_nonempty by (metis neq_Nil_conv)
  then show ?case using Cons by auto
qed simp

lemma iter_lines_append: "framed a \<Longrightarrow> iter_complete_lines (a @ b) = iter_complete_lines a @ iter_complete_lines b"
proof (cases a rule: rev_cases)
  case (snoc a' c)
  assume "framed a"
  then have "c = NL" using snoc by (simp add: framed_def)
  then show ?thesis using snoc split_on_append [of NL a' b] split_on_append [of NL a' "[]"] split_on_nonempty [of NL b]
    by (simp add: iter_complete_lines_def butlast_append)
qed (simp add: iter_complete_lines_def)

text \<open>The live file of a healthy record: readable, ending in a line break, with room for one more line.\<close>

definition live_ok :: "string \<Rightarrow> folder \<Rightarrow> bool" where
  "live_ok name dir =
     (case map_of dir name of
        None \<Rightarrow> True
      | Some (Regular raw _) \<Rightarrow> framed raw \<and> length raw + MAX_ENCODED_LINE_LEN \<le> MAX_SINK_BYTES
      | Some (Blocked _ _) \<Rightarrow> False)"

text \<open>A rotation gets a name above all generations on disk.\<close>

definition rotates_forward :: "string \<Rightarrow> writer \<Rightarrow> folder \<Rightarrow> bool" where
  "rotates_forward name w dir =
     (0 \<le> w_ms w \<and> 0 \<le> w_pid w \<and> 0 \<le> w_seq w \<and> rotated_name name w \<notin> fst ` set dir \<and>
      (\<forall>m \<in> set (rotated_members name dir). the (rotated_key name m) < (w_ms w, w_pid w, w_seq w)))"

lemma read_node_other: "map_of dir m = Some n \<Longrightarrow> map_of dir' m' = Some n \<Longrightarrow>
    read_member depth dir m = Inr (es, []) \<Longrightarrow> read_member depth dir' m' = Inr (es, [])"
  by (cases n) (auto simp: read_member_def decode_bind_Inr split: if_splits)

lemma history_rotated:
  assumes "touch_history depth name dir = Some es" "rotates_forward name w dir"
  shows "touch_history depth name (maybe_rotate name w dir) = Some es"
proof (cases "maybe_rotate name w dir = dir")
  case False
  then obtain n where n: "map_of dir name = Some n" "w_rename_ok w" "maybe_rotate name w dir = rotate_oversized name w dir"
    by (auto simp: maybe_rotate_def rotate_oversized_def split: option.splits if_splits)
  obtain a b where ab: "read_members depth dir (rotated_members name dir) = Inr (a, [])"
    "read_member depth dir name = Inr (b, [])" "es = a @ b"
    using assms(1) by (auto simp: history_iff)
  let ?d = "rotate_oversized name w dir"
  have fwd: "rotated_name name w \<notin> fst ` set dir" "0 \<le> w_ms w" "0 \<le> w_pid w" "0 \<le> w_seq w"
    "\<forall>m \<in> set (rotated_members name dir). the (rotated_key name m) < (w_ms w, w_pid w, w_seq w)"
    using assms(2) by (simp_all add: rotates_forward_def)
  note rot = rotate_members [OF n(1,2) fwd]
  have old: "m \<noteq> name" "m \<noteq> rotated_name name w" if "m \<in> set (rotated_members name dir)" for m
    using that fwd(1) live_not_member [of name dir] by (force simp: rotated_members_def)+
  have "read_members depth ?d (rotated_members name dir) = Inr (a, [])"
    using ab(1) read_members_cong [of "rotated_members name dir" ?d dir depth] rot(4) old by simp
  moreover have "read_member depth ?d (rotated_name name w) = Inr (b, [])"
    by (rule read_node_other [OF n(1) rot(2) ab(2)])
  moreover have "read_member depth ?d name = Inr ([], [])" using rot(3) by (simp add: read_member_def)
  ultimately show ?thesis using ab(3) rot(1) n(3) by (simp add: history_iff read_members_append)
qed (use assms in simp)

lemma live_ok_rotated: "live_ok name dir \<Longrightarrow> rotates_forward name w dir \<Longrightarrow> live_ok name (maybe_rotate name w dir)"
  using rotate_members(3) [of dir name _ w]
  by (auto simp: maybe_rotate_def rotate_oversized_def rotates_forward_def live_ok_def split: option.splits)

lemma history_append_text:
  assumes "touch_history depth name dir = Some es" "live_ok name dir" "length text \<le> MAX_ENCODED_LINE_LEN"
    "decode_lines depth (iter_complete_lines text) = Inr (fs, 0)"
  shows "touch_history depth name (append_text name text t dir) = Some (es @ fs)"
proof -
  obtain a b where ab: "read_members depth dir (rotated_members name dir) = Inr (a, [])"
    "read_member depth dir name = Inr (b, [])" "es = a @ b"
    using assms(1) by (auto simp: history_iff)
  have "read_member depth (append_text name text t dir) name = Inr (b @ fs, [])"
  proof (cases "map_of dir name")
    case None
    then have "map_of (append_text name text t dir) name = Some (Regular text t)" by (simp add: append_text_def alist_simps)
    then show ?thesis using None ab(2) assms(3,4) by (simp add: read_member_def MAX_SINK_BYTES_def MAX_ENCODED_LINE_LEN_def)
  next
    case (Some n)
    then obtain raw u where n: "n = Regular raw u" "framed raw" "length raw + MAX_ENCODED_LINE_LEN \<le> MAX_SINK_BYTES"
      using assms(2) by (cases n) (auto simp: live_ok_def)
    have "decode_lines depth (iter_complete_lines raw) = Inr (b, 0)"
      using ab(2) Some n by (auto simp: read_member_def decode_bind_Inr split: if_splits)
    moreover have "map_of (append_text name text t dir) name = Some (Regular (raw @ text) t)"
      using Some n by (simp add: append_text_def alist_simps)
    ultimately show ?thesis using n assms(3,4)
      by (simp add: read_member_def iter_lines_append decode_lines_append)
  qed
  then show ?thesis using ab by (simp add: history_iff append_text_rotated read_rotated_append)
qed

theorem append_extends_history_eq:
  assumes "touch_history (Suc d) name dir = Some es" "live_ok name dir" "rotates_forward name w dir"
    "append_touch_event name w memo q dir = (Inr dir', memo')" "request_event w memo q = (e, m)" "readable_event e"
  shows "touch_history (Suc d) name dir' = Some (es @ [e\<lparr>schema_version := SCHEMA_VERSION, path := canonicalize_relative_path (path e)\<rparr>])"
proof -
  obtain l where l: "encode_line False e = Inr l" "dir' = append_text name l (w_mtime w) (maybe_rotate name w dir)"
    using assms(4,5) by (auto simp: append_touch_event_def split: sum.splits)
  have "length l \<le> MAX_ENCODED_LINE_LEN" using encode_line_Inr(4) [OF l(1)] by simp
  moreover have "decode_lines (Suc d) (iter_complete_lines l) =
      Inr ([e\<lparr>schema_version := SCHEMA_VERSION, path := canonicalize_relative_path (path e)\<rparr>], 0)"
    using iter_lines_Cons [OF encoded_plain [OF l(1) assms(6)], of "[]"] line_roundtrip_eq [OF l(1) assms(6), of d]
    by (simp add: iter_lines_fragment)
  ultimately show ?thesis unfolding l(2)
    by (rule history_append_text [OF history_rotated [OF assms(1,3)] live_ok_rotated [OF assms(2,3)]])
qed

section \<open>The cache is not observable\<close>

lemma takeWhile_suffix: "takeWhile p (rev raw) = rev (drop (length raw - length (takeWhile p (rev raw))) raw)"
  by (metis length_rev rev_rev_ident takeWhile_eq_take take_rev)

lemma consumed_facts:
  "consumed raw \<le> length raw" "framed (take (consumed raw) raw)" "NL \<notin> set (drop (consumed raw) raw)"
proof -
  define k where "k = length (takeWhile (\<lambda>c. c \<noteq> NL) (rev raw))"
  have k: "k \<le> length raw" using length_takeWhile_le [of _ "rev raw"] by (simp add: k_def)
  have c: "consumed raw = length raw - k" by (simp add: consumed_def k_def)
  show "consumed raw \<le> length raw" by (simp add: c)
  have "rev (takeWhile (\<lambda>c. c \<noteq> NL) (rev raw)) = drop (length raw - k) raw"
    by (subst takeWhile_suffix) (simp add: k_def)
  then have "drop (consumed raw) raw = rev (takeWhile (\<lambda>c. c \<noteq> NL) (rev raw))" by (simp add: c)
  then show "NL \<notin> set (drop (consumed raw) raw)" by (auto dest: set_takeWhileD)
  have d: "take (consumed raw) raw = rev (dropWhile (\<lambda>c. c \<noteq> NL) (rev raw))"
    using k by (simp add: c k_def dropWhile_eq_drop rev_drop rev_take)
  show "framed (take (consumed raw) raw)"
    unfolding d framed_def using hd_dropWhile [of "\<lambda>c. c \<noteq> NL" "rev raw"]
    by (cases "dropWhile (\<lambda>c. c \<noteq> NL) (rev raw) = []") (auto simp: last_rev)
qed

lemma iter_lines_prefix: "iter_complete_lines (take (consumed raw) raw) = iter_complete_lines raw"
  using iter_lines_append [OF consumed_facts(2), of raw "drop (consumed raw) raw"]
    iter_lines_fragment [OF consumed_facts(3), of raw] by simp

lemma iter_lines_consumed: "iter_complete_lines (raw @ rest2) =
    iter_complete_lines raw @ iter_complete_lines (drop (consumed raw) raw @ rest2)"
proof -
  have "iter_complete_lines (raw @ rest2) = iter_complete_lines (take (consumed raw) raw @ (drop (consumed raw) raw @ rest2))"
    using append_assoc [of "take (consumed raw) raw" "drop (consumed raw) raw" rest2] by (metis append_take_drop_id)
  also have "\<dots> = iter_complete_lines (take (consumed raw) raw) @ iter_complete_lines (drop (consumed raw) raw @ rest2)"
    by (rule iter_lines_append [OF consumed_facts(2)])
  also have "iter_complete_lines (take (consumed raw) raw) = iter_complete_lines raw"
    by (rule iter_lines_prefix)
  finally show ?thesis .
qed

lemma consumed_append: "consumed (raw @ rest2) = consumed raw + consumed (drop (consumed raw) raw @ rest2)"
proof -
  define rest where "rest = drop (consumed raw) raw"
  have split: "raw @ rest2 = take (consumed raw) raw @ (rest @ rest2)" by (simp add: rest_def)
  have len: "length (take (consumed raw) raw) = consumed raw" using consumed_facts(1) [of raw] by simp
  have all: "length (takeWhile (\<lambda>c. c \<noteq> NL) (rev (p @ z))) = length (takeWhile (\<lambda>c. c \<noteq> NL) (rev z))" if "framed p" for p z
  proof (cases "NL \<in> set z")
    case True
    then have "takeWhile (\<lambda>c. c \<noteq> NL) (rev z @ rev p) = takeWhile (\<lambda>c. c \<noteq> NL) (rev z)"
      by (intro takeWhile_append1 [of NL]) auto
    then show ?thesis by simp
  next
    case False
    then have "takeWhile (\<lambda>c. c \<noteq> NL) (rev z @ rev p) = rev z @ takeWhile (\<lambda>c. c \<noteq> NL) (rev p)"
      by (intro takeWhile_append2) auto
    moreover have "takeWhile (\<lambda>c. c \<noteq> NL) (rev p) = []"
      using that by (cases p rule: rev_cases) (auto simp: framed_def)
    ultimately have e1: "takeWhile (\<lambda>c. c \<noteq> NL) (rev z @ rev p) = rev z" by (simp only: append_Nil2)
    have e2: "takeWhile (\<lambda>c. c \<noteq> NL) (rev z) = rev z" using False by (auto simp: takeWhile_eq_all_conv)
    show ?thesis by (simp only: rev_append e1 e2)
  qed
  have "length (takeWhile (\<lambda>c. c \<noteq> NL) (rev (rest @ rest2))) \<le> length (rest @ rest2)"
    using length_takeWhile_le [of _ "rev (rest @ rest2)"] by (simp only: length_rev)
  then have "consumed (take (consumed raw) raw @ (rest @ rest2)) = consumed raw + consumed (rest @ rest2)"
    using all [OF consumed_facts(2), of raw "rest @ rest2"] len by (simp add: consumed_def [of "_ @ _"])
  then show ?thesis unfolding rest_def [symmetric] by (simp only: split)
qed

lemma decode_strict_lines: "decode_strict depth ls = Inr (Some es) \<longleftrightarrow> decode_lines depth ls = Inr (es, 0)"
proof (induction ls arbitrary: es)
  case (Cons l ls)
  show ?case
  proof (cases "decode_line depth l")
    case (Inl x)
    then show ?thesis by (cases x; cases "decode_lines depth ls") auto
  next
    case (Inr e)
    then show ?thesis using Cons by (cases "decode_strict depth ls"; cases "decode_lines depth ls"; cases es) (fastforce)+
  qed
qed auto

text \<open>An exception that is not a malformed line ends both decoders in the same way, unless a malformed line
  comes first.\<close>

lemma decode_strict_raise: "decode_strict depth ls = Inl x \<Longrightarrow> decode_lines depth ls = Inl x"
proof (induction ls)
  case (Cons l ls)
  then show ?case
    by (cases "decode_line depth l"; cases "decode_strict depth ls") (auto split: decode_error.splits)
qed simp

end
