(* ===== verification/Touch_Cache.thy ===== *)
theory Touch_Cache
  imports Touch_History
begin

text \<open>
  The cache of folds is not observable: along any run of appends (with their rotations), reads and evictions,
  a read through the cache answers what a whole read of the files answers. The conditions on a run are those
  the code counts on: a write moves the modification time forward, a rotation gets a name above
  the generations on disk, and the live file stays under the cap of a whole read.
\<close>

section \<open>What an entry says about the files\<close>

definition entry_events :: "nat \<Rightarrow> string \<Rightarrow> fold_entry \<Rightarrow> folder \<Rightarrow> string \<Rightarrow> bool" where
  "entry_events depth name en dir content =
     (f_size en = length content \<and> f_offset en = consumed content \<and> f_anchor en = anchor_at content (consumed content) \<and>
      f_claims en = claims_of (f_events en) \<and> f_held en = held_kind (f_events en) \<and>
      (\<exists>a b. read_members depth dir (rotated_members name dir) = Inr (a, []) \<and>
             decode_lines depth (iter_complete_lines content) = Inr (b, 0) \<and> f_events en = a @ b))"

definition entry_valid :: "nat \<Rightarrow> string \<Rightarrow> fold_entry \<Rightarrow> folder \<Rightarrow> int \<Rightarrow> bool" where
  "entry_valid depth name en dir c =
     ((rotated_members name dir = f_rotated en \<and>
       (\<exists>content ext t. map_of dir name = Some (Regular (content @ ext) t) \<and> length (content @ ext) \<le> MAX_SINK_BYTES \<and>
          (ext = [] \<and> t = f_mtime en \<or> f_mtime en < t) \<and> entry_events depth name en dir content)) \<or>
      (length (f_rotated en) < length (rotated_members name dir) \<and> f_mtime en \<le> c \<and>
       (\<forall>n. map_of dir name = Some n \<longrightarrow> f_mtime en < node_mtime n)))"

lemma read_family_parts: "read_family depth name dir =
    decode_bind (read_members depth dir (rotated_members name dir)) (\<lambda>(a, rs).
      decode_bind (read_member depth dir name) (\<lambda>(b, qs). Inr (read_of (a @ b) (rs @ qs))))"
  unfolding read_family_def read_members_family read_members_append
  by (cases "read_members depth dir (rotated_members name dir)"; cases "read_member depth dir name") auto

lemma read_live: "map_of dir name = Some (Regular content t) \<Longrightarrow> length content \<le> MAX_SINK_BYTES \<Longrightarrow>
    read_member depth dir name = decode_bind (decode_lines depth (iter_complete_lines content))
      (\<lambda>(es, n). Inr (es, replicate n (''malformed:'' @ name)))"
  by (simp add: read_member_def)

lemma filter_members: "filter (\<lambda>m. m \<noteq> name) (discover_family name dir) = rotated_members name dir"
  using live_not_member [of name dir] by (auto simp: discover_family_def filter_id_conv)

lemma remember_self [simp]: "map_of (remember_fold key en cache) key = Some en"
  by (simp add: remember_fold_def update_conv)

section \<open>A whole read\<close>

lemma whole_read_answer: "fst (whole_read depth key name dir False cache) = read_family depth name dir"
  unfolding whole_read_def read_family_def
  by (cases "read_members depth dir (discover_family name dir)") (auto split: option.splits node.splits list.splits)

lemma whole_read_keeps:
  assumes "map_of (snd (whole_read depth key name dir False cache)) key = Some en"
  shows "map_of cache key = Some en \<or> entry_valid depth name en dir c"
proof (cases "\<exists>es. read_members depth dir (discover_family name dir) = Inr (es, [])")
  case True
  then obtain es where es: "read_members depth dir (discover_family name dir) = Inr (es, [])" by blast
  then have h: "touch_history depth name dir = Some es" by (simp add: touch_history_def)
  show ?thesis
  proof (cases "\<exists>content t. map_of dir name = Some (Regular content t)")
    case True
    then obtain content t where live: "map_of dir name = Some (Regular content t)" by blast
    have en: "en = \<lparr>f_size = length content, f_mtime = t, f_claims = claims_of es, f_held = held_kind es,
        f_offset = consumed content, f_anchor = anchor_at content (consumed content),
        f_rotated = rotated_members name dir, f_events = es\<rparr>"
      using assms es live by (simp add: whole_read_def filter_members)
    obtain a b where ab: "read_members depth dir (rotated_members name dir) = Inr (a, [])"
      "read_member depth dir name = Inr (b, [])" "es = a @ b"
      using h by (auto simp: history_iff)
    have "length content \<le> MAX_SINK_BYTES" "decode_lines depth (iter_complete_lines content) = Inr (b, 0)"
      using ab(2) live by (auto simp: read_member_def decode_bind_Inr split: if_splits)
    then have "entry_valid depth name en dir c"
      using en live ab by (auto simp: entry_valid_def entry_events_def intro!: exI [of _ content] exI [of _ "[]"])
    then show ?thesis ..
  next
    case False
    then show ?thesis using assms es by (auto simp: whole_read_def split: option.splits node.splits)
  qed
next
  case False
  then show ?thesis using assms
    by (cases "read_members depth dir (discover_family name dir)") (auto simp: whole_read_def split: option.splits node.splits list.splits)
qed

section \<open>The fold of what was appended\<close>

lemma anchor_length: "e \<le> length raw \<Longrightarrow> length (anchor_at raw e) = e - (e - TAIL_ANCHOR_BYTES)"
  by (simp add: anchor_at_def)

lemma anchor_data:
  assumes "e \<le> length content"
  shows "drop (e - length (anchor_at content e)) (content @ ext) = anchor_at content e @ drop e content @ ext"
proof -
  have "e - length (anchor_at content e) = e - TAIL_ANCHOR_BYTES" using assms by (simp add: anchor_length)
  moreover have "drop (e - TAIL_ANCHOR_BYTES) content = anchor_at content e @ drop e content"
    using assms append_take_drop_id [of e content]
    by (metis anchor_at_def diff_le_self drop_append drop_take le_trans length_take min.absorb2 diff_is_0_eq drop_0)
  ultimately show ?thesis using assms by simp
qed

lemma anchor_grown:
  assumes "e \<le> length content"
  shows "anchor_at (anchor_at content e @ drop e content @ ext) (length (anchor_at content e) + k) = anchor_at (content @ ext) (e + k)"
proof -
  let ?T = TAIL_ANCHOR_BYTES
  have whole: "anchor_at content e @ drop e content @ ext = drop (e - ?T) (content @ ext)"
    using anchor_data [OF assms, of ext] assms by (simp add: anchor_length)
  have len: "length (anchor_at content e) + k = e + k - (e - ?T)" using assms by (simp add: anchor_length)
  have "anchor_at (drop (e - ?T) z) (e + k - (e - ?T)) = drop (e + k - (e - ?T) - ?T) (drop (e - ?T) (take (e + k) z))" for z
    by (simp only: anchor_at_def drop_take)
  moreover have "(e + k - (e - ?T) - ?T) + (e - ?T) = e + k - ?T" by simp
  ultimately have "anchor_at (drop (e - ?T) z) (e + k - (e - ?T)) = anchor_at z (e + k)" for z
    by (simp only: drop_drop anchor_at_def)
  then show ?thesis by (simp only: whole len)
qed

lemma exact_split: "drop (length p) (p @ z) = z" "take (length p) (p @ z) = p"
  by simp_all

lemma consumed_le: "consumed raw \<le> length raw"
  by (rule consumed_facts(1))

lemma decode_strict_cases:
  assumes "decode_lines depth ls = Inr (b, 0)"
  shows "decode_strict depth news = Inl x \<Longrightarrow> decode_lines depth (ls @ news) = Inl x"
    "decode_strict depth news = Inr (Some fs) \<Longrightarrow> decode_lines depth (ls @ news) = Inr (b @ fs, 0)"
  using assms decode_strict_raise [of depth news x] decode_strict_lines [of depth news fs]
  by (simp_all add: decode_lines_append)

lemma grown_fold:
  assumes valid: "entry_valid depth name en dir c" and answer: "fold_grown_sink depth name dir en = res"
  shows "res = Inl x \<Longrightarrow> read_family depth name dir = Inl x"
    "res = Inr (Some (r, en')) \<Longrightarrow> read_family depth name dir = Inr r \<and> entry_valid depth name en' dir c"
proof -
  have "(\<forall>x. res = Inl x \<longrightarrow> read_family depth name dir = Inl x) \<and>
    (\<forall>r en'. res = Inr (Some (r, en')) \<longrightarrow> read_family depth name dir = Inr r \<and> entry_valid depth name en' dir c)"
  proof (cases "rotated_members name dir = f_rotated en")
    case False
    then have "res = Inr None"
      using answer by (auto simp: fold_grown_sink_def split: option.splits node.splits if_splits)
    then show ?thesis by simp
  next
    case True
    then obtain content ext t where live: "map_of dir name = Some (Regular (content @ ext) t)"
      "length (content @ ext) \<le> MAX_SINK_BYTES" and ev: "entry_events depth name en dir content"
      using valid by (auto simp: entry_valid_def)
    let ?e = "consumed content" and ?tail = "drop (consumed content) content @ ext"
    have en: "f_offset en = ?e" "f_anchor en = anchor_at content ?e" using ev by (simp_all add: entry_events_def)
    obtain a b where ab: "read_members depth dir (rotated_members name dir) = Inr (a, [])"
      "decode_lines depth (iter_complete_lines content) = Inr (b, 0)" "f_events en = a @ b"
      using ev by (auto simp: entry_events_def)
    have lines: "iter_complete_lines (content @ ext) = iter_complete_lines content @ iter_complete_lines ?tail"
      by (rule iter_lines_consumed)
    have upto: "consumed (content @ ext) = ?e + consumed ?tail" by (rule consumed_append)
    note data = anchor_data [OF consumed_le, of content ext] and grown = anchor_grown [OF consumed_le, of content ext]
    have fam: "read_family depth name dir = decode_bind (decode_lines depth (iter_complete_lines content @ iter_complete_lines ?tail))
        (\<lambda>(es, n). Inr (read_of (a @ es) (replicate n (''malformed:'' @ name))))"
      unfolding read_family_parts read_live [OF live] ab(1) lines
      by (cases "decode_lines depth (iter_complete_lines content @ iter_complete_lines ?tail)") auto
    define made where "made fs = \<lparr>f_size = length (content @ ext), f_mtime = t, f_claims = claims_of (f_events en @ fs),
        f_held = held_kind (f_events en @ fs), f_offset = consumed (content @ ext),
        f_anchor = anchor_at (content @ ext) (consumed (content @ ext)), f_rotated = f_rotated en, f_events = f_events en @ fs\<rparr>" for fs
    have res: "res = Inr None \<or> res = decode_bind (decode_strict depth (iter_complete_lines ?tail))
        (\<lambda>news. case news of None \<Rightarrow> Inr None | Some fs \<Rightarrow> Inr (Some (read_of (f_events en @ fs) [], made fs)))"
      using answer
      by (cases "decode_strict depth (iter_complete_lines ?tail)")
        (auto simp: fold_grown_sink_def live en data exact_split True Let_def made_def upto grown
          simp del: drop_append take_append length_append split: if_splits option.splits)
    show ?thesis
    proof (cases "decode_strict depth (iter_complete_lines ?tail)")
      case (Inl x)
      then show ?thesis using res fam decode_strict_cases(1) [OF ab(2) Inl] by auto
    next
      case (Inr news)
      show ?thesis
      proof (cases news)
        case None
        then show ?thesis using res Inr by auto
      next
        case (Some fs)
        have dec: "decode_lines depth (iter_complete_lines (content @ ext)) = Inr (b @ fs, 0)"
          using decode_strict_cases(2) [OF ab(2)] Inr Some lines by simp
        then have "read_family depth name dir = Inr (read_of (f_events en @ fs) [])"
          unfolding fam lines [symmetric] by (simp add: ab(3))
        moreover have "entry_valid depth name (made fs) dir c"
          unfolding entry_valid_def
          by (intro disjI1 conjI exI [of _ "content @ ext"] exI [of _ "[]"] exI [of _ t])
            (use live True ab(1) ab(3) dec in \<open>simp_all add: entry_events_def made_def\<close>)
        ultimately show ?thesis using res Inr Some by auto
      qed
    qed
  qed
  then show "res = Inl x \<Longrightarrow> read_family depth name dir = Inl x"
    "res = Inr (Some (r, en')) \<Longrightarrow> read_family depth name dir = Inr r \<and> entry_valid depth name en' dir c" by auto
qed

section \<open>A read through the cache\<close>

lemma same_signature:
  assumes "entry_valid depth name en dir c" "live_signature name dir = Some (f_size en, f_mtime en)"
  shows "read_family depth name dir = Inr (read_of (f_events en) [])" "f_claims en = claims_of (f_events en)"
    "f_held en = held_kind (f_events en)"
proof -
  obtain content where live: "map_of dir name = Some (Regular content (f_mtime en))" "length content \<le> MAX_SINK_BYTES"
    and ev: "entry_events depth name en dir content"
    using assms by (auto simp: entry_valid_def live_signature_def)
  then show "f_claims en = claims_of (f_events en)" "f_held en = held_kind (f_events en)"
    "read_family depth name dir = Inr (read_of (f_events en) [])"
    unfolding read_family_parts read_live [OF live] by (auto simp: entry_events_def)
qed

definition cache_valid :: "nat \<Rightarrow> string \<Rightarrow> string \<Rightarrow> fold_cache \<Rightarrow> folder \<Rightarrow> int \<Rightarrow> bool" where
  "cache_valid depth key name cache dir c = (\<forall>en. map_of cache key = Some en \<longrightarrow> entry_valid depth name en dir c)"

lemma whole_read_valid:
  "cache_valid depth key name cache dir c \<Longrightarrow> cache_valid depth key name (snd (whole_read depth key name dir False cache)) dir c"
  using whole_read_keeps by (fastforce simp: cache_valid_def)

lemma read_sink_exact:
  assumes "cache_valid depth key name cache dir c"
  shows "fst (read_sink depth key name dir False cache) = read_family depth name dir"
    "cache_valid depth key name (snd (read_sink depth key name dir False cache)) dir c"
proof -
  have "fst (read_sink depth key name dir False cache) = read_family depth name dir \<and>
      cache_valid depth key name (snd (read_sink depth key name dir False cache)) dir c"
  proof (cases "map_of cache key")
    case None
    then show ?thesis using whole_read_answer whole_read_valid [OF assms] by (simp add: read_sink_def)
  next
    case (Some en)
    then have valid: "entry_valid depth name en dir c" using assms by (simp add: cache_valid_def)
    consider "live_signature name dir = Some (f_size en, f_mtime en)" | "live_signature name dir = None" |
      "live_signature name dir \<noteq> Some (f_size en, f_mtime en)" "live_signature name dir \<noteq> None" by blast
    then show ?thesis
    proof cases
      case 1
      then show ?thesis using Some same_signature [OF valid 1] assms by (simp add: read_sink_def read_of_def)
    next
      case 2
      then show ?thesis using Some whole_read_answer whole_read_valid [OF assms] by (simp add: read_sink_def)
    next
      case 3
      show ?thesis
      proof (cases "fold_grown_sink depth name dir en")
        case (Inl x)
        then show ?thesis using Some 3 grown_fold(1) [OF valid Inl] assms by (auto simp: read_sink_def)
      next
        case (Inr g)
        then show ?thesis
          using Some 3 grown_fold(2) [OF valid Inr] whole_read_answer whole_read_valid [OF assms]
          by (cases g) (auto simp: read_sink_def cache_valid_def)
      qed
    qed
  qed
  then show "fst (read_sink depth key name dir False cache) = read_family depth name dir"
    "cache_valid depth key name (snd (read_sink depth key name dir False cache)) dir c" by auto
qed

section \<open>Runs\<close>

text \<open>The files, the cache of a reading process, and a bound on the modification time of the live file.\<close>

type_synonym sink_system = "folder \<times> fold_cache \<times> int"

definition live_time :: "string \<Rightarrow> folder \<Rightarrow> int \<Rightarrow> bool" where
  "live_time name dir c = (case map_of dir name of None \<Rightarrow> True | Some n \<Rightarrow> node_mtime n \<le> c)"

definition live_room :: "string \<Rightarrow> folder \<Rightarrow> bool" where
  "live_room name dir = (case map_of dir name of None \<Rightarrow> True | Some n \<Rightarrow> node_size n \<le> MAX_SINK_BYTES)"

definition written :: "string \<Rightarrow> writer \<Rightarrow> string \<Rightarrow> folder \<Rightarrow> folder" where
  "written name w text dir = append_text name text (w_mtime w) (maybe_rotate name w dir)"

inductive sink_run :: "nat \<Rightarrow> string \<Rightarrow> string \<Rightarrow> sink_system \<Rightarrow> bool" for depth key name where
  start: "live_time name dir c \<Longrightarrow> sink_run depth key name (dir, [], c)"
| append: "sink_run depth key name (dir, cache, c) \<Longrightarrow> c < w_mtime w \<Longrightarrow> rotates_forward name w dir \<Longrightarrow>
    live_room name (written name w text dir) \<Longrightarrow> sink_run depth key name (written name w text dir, cache, w_mtime w)"
| readout: "sink_run depth key name (dir, cache, c) \<Longrightarrow>
    sink_run depth key name (dir, snd (read_sink depth key name dir False cache), c)"
| others: "sink_run depth key name (dir, cache, c) \<Longrightarrow> map_of cache' key = None \<or> map_of cache' key = map_of cache key \<Longrightarrow>
    sink_run depth key name (dir, cache', c)"

inductive_cases sink_runE: "sink_run depth key name (dir, cache, c)"

lemma live_written: "live_time name dir c \<Longrightarrow> c < w_mtime w \<Longrightarrow> live_time name (written name w text dir) (w_mtime w)"
  by (auto simp: live_time_def written_def append_text_def update_conv split: option.splits node.splits)

lemma written_mtime: "map_of (written name w text dir) name = Some n \<Longrightarrow> node_mtime n = w_mtime w"
  by (auto simp: written_def append_text_def update_conv split: option.splits node.splits)

lemma entry_written:
  assumes valid: "entry_valid depth name en dir c" and time: "live_time name dir c" "c < w_mtime w"
    and fwd: "rotates_forward name w dir" and room: "live_room name (written name w text dir)"
  shows "entry_valid depth name en (written name w text dir) (w_mtime w)"
proof -
  have kept: "f_mtime en \<le> c" using valid time(1) by (auto simp: entry_valid_def live_time_def)
  have later: "\<forall>n. map_of (written name w text dir) name = Some n \<longrightarrow> f_mtime en < node_mtime n"
    using kept time(2) written_mtime by fastforce
  have old: "length (f_rotated en) \<le> length (rotated_members name dir)" using valid by (auto simp: entry_valid_def)
  show ?thesis
  proof (cases "maybe_rotate name w dir = dir")
    case True
    then have wr: "written name w text dir = append_text name text (w_mtime w) dir" by (simp add: written_def)
    show ?thesis
    proof (cases "rotated_members name dir = f_rotated en")
      case same: True
      then obtain content ext t where live: "map_of dir name = Some (Regular (content @ ext) t)"
        and ev: "entry_events depth name en dir content"
        using valid by (auto simp: entry_valid_def)
      have new: "map_of (written name w text dir) name = Some (Regular (content @ ext @ text) (w_mtime w))"
        using live by (simp add: wr append_text_def update_conv)
      moreover have "length (content @ ext @ text) \<le> MAX_SINK_BYTES" using room new by (simp add: live_room_def)
      moreover have "entry_events depth name en (written name w text dir) content"
        using ev by (simp add: entry_events_def wr append_text_rotated read_rotated_append)
      ultimately show ?thesis
        using same kept time(2) unfolding entry_valid_def
        by (intro disjI1 conjI, simp add: wr append_text_rotated)
          (rule exI [of _ content], rule exI [of _ "ext @ text"], rule exI [of _ "w_mtime w"], simp)
    next
      case False
      then show ?thesis using valid later kept time(2) by (auto simp: entry_valid_def wr append_text_rotated)
    qed
  next
    case False
    then obtain n where n: "map_of dir name = Some n" "w_rename_ok w" "maybe_rotate name w dir = rotate_oversized name w dir"
      by (auto simp: maybe_rotate_def rotate_oversized_def split: option.splits if_splits)
    have "rotated_members name (written name w text dir) = rotated_members name dir @ [rotated_name name w]"
      using rotate_members(1) [OF n(1,2)] fwd n(3) by (simp add: written_def append_text_rotated rotates_forward_def)
    then show ?thesis using old later kept time(2) by (auto simp: entry_valid_def)
  qed
qed

lemma sink_run_valid: "sink_run depth key name s \<Longrightarrow>
    (case s of (dir, cache, c) \<Rightarrow> live_time name dir c \<and> cache_valid depth key name cache dir c)"
proof (induction rule: sink_run.induct)
  case (append dir cache c w added)
  then show ?case using live_written entry_written by (fastforce simp: cache_valid_def)
next
  case (readout dir cache c)
  then show ?case using read_sink_exact(2) by auto
next
  case (others dir cache c cache')
  then show ?case by (auto simp: cache_valid_def)
qed (auto simp: cache_valid_def)

theorem cache_exact_eq: "sink_run depth key name (dir, cache, c) \<Longrightarrow>
    fst (read_sink depth key name dir False cache) = read_family depth name dir"
  using sink_run_valid [of depth key name "(dir, cache, c)"] read_sink_exact(1) by auto

end
