(* ===== verification/Touch_Projection.thy ===== *)
theory Touch_Projection
  imports Touch_Cache
begin

text \<open>
  The claims that are live (\<open>session/touch_record.py\<close>, \<open>project_live_claims\<close>), the backfill of touches for
  files a shell wrote (\<open>reconcile_untouched_bash_writes\<close>), and the contract between a reader of many records
  and the cache of folds it reads through: the locale \<open>stream_reader\<close>.
\<close>

section \<open>Reading many records through one cache\<close>

text \<open>A record is its cache key, the name of its live file and its directory.\<close>

type_synonym sink = "string \<times> string \<times> folder"

fun read_streams :: "nat \<Rightarrow> sink list \<Rightarrow> fold_cache \<Rightarrow> sink_read list decoded \<times> fold_cache" where
  "read_streams depth [] cache = (Inr [], cache)"
| "read_streams depth ((key, name, dir) # sinks) cache =
     (case read_sink depth key name dir False cache of
        (Inl x, cache') \<Rightarrow> (Inl x, cache')
      | (Inr r, cache') \<Rightarrow>
          (case read_streams depth sinks cache' of
             (Inl x, cache'') \<Rightarrow> (Inl x, cache'')
           | (Inr rs, cache'') \<Rightarrow> (Inr (r # rs), cache'')))"

text \<open>The same sequence of reads over the files alone.\<close>

fun read_all :: "('k \<Rightarrow> 'e + 'r) \<Rightarrow> 'k list \<Rightarrow> 'e + 'r list" where
  "read_all whole [] = Inr []"
| "read_all whole (k # ks) =
     (case whole k of Inl x \<Rightarrow> Inl x
      | Inr r \<Rightarrow> (case read_all whole ks of Inl x \<Rightarrow> Inl x | Inr rs \<Rightarrow> Inr (r # rs)))"

fun read_each :: "('k \<Rightarrow> 'c \<Rightarrow> ('e + 'r) \<times> 'c) \<Rightarrow> 'k list \<Rightarrow> 'c \<Rightarrow> ('e + 'r list) \<times> 'c" where
  "read_each reader [] cache = (Inr [], cache)"
| "read_each reader (k # ks) cache =
     (case reader k cache of
        (Inl x, cache') \<Rightarrow> (Inl x, cache')
      | (Inr r, cache') \<Rightarrow>
          (case read_each reader ks cache' of
             (Inl x, cache'') \<Rightarrow> (Inl x, cache'')
           | (Inr rs, cache'') \<Rightarrow> (Inr (r # rs), cache'')))"

text \<open>
  What a client of the cache relies on: with an entry that is good for a record, the read answers the content
  of the record, and no read spoils the entry of any record.
\<close>

locale stream_reader =
  fixes reader :: "'k \<Rightarrow> 'c \<Rightarrow> ('e + 'r) \<times> 'c"
    and whole :: "'k \<Rightarrow> 'e + 'r"
    and good :: "'k \<Rightarrow> 'c \<Rightarrow> bool"
  assumes exact: "good k c \<Longrightarrow> fst (reader k c) = whole k"
    and keeps: "good k c \<Longrightarrow> good j c \<Longrightarrow> good j (snd (reader k c))"
begin

lemma each_exact:
  "\<forall>k \<in> set ks. good k c \<Longrightarrow> fst (read_each reader ks c) = read_all whole ks"
proof (induction ks arbitrary: c)
  case (Cons k ks)
  obtain a c' where step: "reader k c = (a, c')" by fastforce
  then have "a = whole k" "\<forall>j \<in> set ks. good j c'" using Cons.prems exact [of k c] keeps [of k c] by auto
  then show ?case using step Cons.IH [of c'] by (cases "read_each reader ks c'") (auto split: sum.splits)
qed simp

lemma each_keeps:
  "\<forall>k \<in> set ks. good k c \<Longrightarrow> good j c \<Longrightarrow> good j (snd (read_each reader ks c))"
proof (induction ks arbitrary: c)
  case (Cons k ks)
  obtain a c' where step: "reader k c = (a, c')" by fastforce
  then have "\<forall>i \<in> set ks. good i c'" "good j c'" using Cons.prems keeps [of k c] by auto
  then show ?case using step Cons.IH [of c'] by (cases "read_each reader ks c'") (auto split: sum.splits)
qed simp

end

text \<open>The cache of folds meets the contract, for records under different keys.\<close>

definition sink_good :: "nat \<Rightarrow> (string \<Rightarrow> string \<times> folder) \<Rightarrow> int \<Rightarrow> string \<Rightarrow> fold_cache \<Rightarrow> bool" where
  "sink_good depth files c key cache = cache_valid depth key (fst (files key)) cache (snd (files key)) c"

lemma remember_other: "j \<noteq> key \<Longrightarrow> map_of (remember_fold key en cache) j \<in> {None, map_of cache j}"
  by (auto simp: remember_fold_def update_conv)

lemma read_sink_other:
  assumes "j \<noteq> key"
  shows "map_of (snd (read_sink depth key name dir live_only cache)) j \<in> {None, map_of cache j}"
proof -
  have "map_of (snd (whole_read depth key name dir live_only cache)) j \<in> {None, map_of cache j}"
    using remember_other [OF assms] by (auto simp: whole_read_def Let_def split: sum.splits option.splits node.splits list.splits)
  then show ?thesis
    using remember_other [OF assms] by (auto simp: read_sink_def split: sum.splits option.splits)
qed

interpretation folds: stream_reader
  "\<lambda>key cache. read_sink depth key (fst (files key)) (snd (files key)) False cache"
  "\<lambda>key. read_family depth (fst (files key)) (snd (files key))"
  "sink_good depth files c" for depth files c
proof
  fix k cache assume "sink_good depth files c k cache"
  then show "fst (read_sink depth k (fst (files k)) (snd (files k)) False cache) = read_family depth (fst (files k)) (snd (files k))"
    by (simp add: sink_good_def read_sink_exact(1))
next
  fix k cache j assume k: "sink_good depth files c k cache" and j: "sink_good depth files c j cache"
  show "sink_good depth files c j (snd (read_sink depth k (fst (files k)) (snd (files k)) False cache))"
  proof (cases "j = k")
    case True
    then show ?thesis using k by (simp add: sink_good_def read_sink_exact(2))
  next
    case False
    from read_sink_other [OF this, of depth "fst (files k)" "snd (files k)" False cache] j show ?thesis
      by (auto simp: sink_good_def cache_valid_def)
  qed
qed

lemma read_streams_each: "read_streams depth (map (\<lambda>k. (k, files k)) keys) cache =
    read_each (\<lambda>key cache. read_sink depth key (fst (files key)) (snd (files key)) False cache) keys cache"
proof (induction keys arbitrary: cache)
  case (Cons k keys)
  obtain a c' where "read_sink depth k (fst (files k)) (snd (files k)) False cache = (a, c')" by fastforce
  then show ?case using Cons [of c'] by (cases "files k") (auto split: sum.splits)
qed simp

section \<open>The projection\<close>

record projection =
  p_claims :: claim_map
  p_degraded :: bool
  p_reasons :: "string list"

definition live_claim :: "caller \<Rightarrow> touch_event \<Rightarrow> bool" where
  "live_claim h e = (verb e = VERB_TOUCH \<and> session_live h (session_id e))"

definition projected :: "caller \<Rightarrow> sink_read list \<Rightarrow> projection" where
  "projected h rs =
     \<lparr>p_claims = filter (\<lambda>pe. live_claim h (snd pe)) (merge_across_streams (map r_claims rs)),
      p_degraded = list_ex r_degraded rs, p_reasons = concat (map r_reasons (filter r_degraded rs))\<rparr>"

definition project_live_claims :: "caller \<Rightarrow> nat \<Rightarrow> sink list \<Rightarrow> fold_cache \<Rightarrow> projection decoded \<times> fold_cache" where
  "project_live_claims h depth sinks cache =
     (case read_streams depth sinks cache of
        (Inl x, cache') \<Rightarrow> (Inl x, cache')
      | (Inr rs, cache') \<Rightarrow> (Inr (projected h rs), cache'))"

lemma distinct_merge_one: "distinct (map fst m) \<Longrightarrow> distinct (map fst (merge_one m pe))"
  by (auto simp: merge_one_def distinct_update split: option.splits)

lemma distinct_merge: "distinct (map fst (merge_across_streams streams))"
proof -
  have "distinct (map fst m) \<Longrightarrow> distinct (map fst (foldl merge_one m pes))" for m pes
    by (induction pes arbitrary: m) (simp_all add: distinct_merge_one)
  then show ?thesis by (simp add: merge_across_streams_def foldl_foldl)
qed

lemma map_of_filter_val: "distinct (map fst m) \<Longrightarrow>
    map_of (filter (\<lambda>pe. P (snd pe)) m) p = (case map_of m p of None \<Rightarrow> None | Some e \<Rightarrow> if P e then Some e else None)"
proof (induction m)
  case (Cons pe m)
  obtain q e where pe: "pe = (q, e)" by fastforce
  have none: "map_of m q = None" "map_of (filter (\<lambda>pe. P (snd pe)) m) q = None"
    using Cons.prems pe by (auto simp: map_of_eq_None_iff)
  show ?case using Cons pe none by (cases "p = q") auto
qed simp

text \<open>The last events that healthy records hold for a path, in the order in which they are merged.\<close>

definition last_events :: "string \<Rightarrow> touch_event list list \<Rightarrow> touch_event list" where
  "last_events p streams = concat (map (\<lambda>es. case last_on p es of None \<Rightarrow> [] | Some e \<Rightarrow> [e]) streams)"

lemma filter_key: "distinct (map fst m) \<Longrightarrow>
    map snd (filter (\<lambda>pe. fst pe = p) m) = (case map_of m p of None \<Rightarrow> [] | Some e \<Rightarrow> [e])"
proof (induction m)
  case (Cons pe m)
  obtain q e where "pe = (q, e)" by fastforce
  then show ?case using Cons by (auto simp: filter_empty_conv map_of_eq_None_iff [THEN iffD2] split: option.splits)
qed simp

lemma entries_claims: "entries_on p (map claims_of streams) = last_events p streams"
  by (induction streams) (simp_all add: entries_on_def last_events_def filter_key claims_of_eq)

lemma projected_claim: "map_of (p_claims (projected h (map (\<lambda>es. read_of es []) streams))) p =
    (case merge_survivor None (last_events p streams) of None \<Rightarrow> None | Some e \<Rightarrow> if live_claim h e then Some e else None)"
  by (simp add: projected_def read_of_def comp_def map_of_filter_val distinct_merge merge_eq entries_claims)

end
