(* ===== verification/Touch_Seen.thy ===== *)
theory Touch_Seen
  imports Touch_Projection
begin

text \<open>
  The last record of a session on a path (\<open>last_seen_events\<close>) against the history of its record, and the
  backfill of touches for files that a shell wrote (\<open>reconcile_untouched_bash_writes\<close>).
\<close>

section \<open>The newest own event\<close>

definition last_own :: "string \<Rightarrow> string \<Rightarrow> touch_event list \<Rightarrow> touch_event option" where
  "last_own sid p es = last_on p (filter (\<lambda>e. session_id e = sid) es)"

lemma last_own_snoc: "last_own sid p (es @ [e]) = (if path e = p \<and> session_id e = sid then Some e else last_own sid p es)"
  by (simp add: last_own_def last_on_snoc)

lemma newest_first_decoded:
  "map (decode_line depth) ls = map Inr (rev es) \<Longrightarrow>
   \<exists>pending' found'. newest_first depth sid ls pending found = Inr (pending', found') \<and>
     (\<forall>p. map_of found' p = (if p \<in> set pending then
        (case last_own sid p es of Some e \<Rightarrow> Some e | None \<Rightarrow> map_of found p) else map_of found p))"
proof (induction ls arbitrary: es pending found)
  case Nil
  then show ?case by (simp add: last_own_def)
next
  case (Cons l ls)
  then obtain es' e where es: "es = es' @ [e]" by (cases es rule: rev_cases) auto
  then have dec: "decode_line depth l = Inr e" "map (decode_line depth) ls = map Inr (rev es')" using Cons.prems by auto
  show ?case
  proof (cases "pending = []")
    case False
    show ?thesis
    proof (cases "path e \<in> set pending \<and> session_id e = sid")
      case True
      obtain pending' found' where "newest_first depth sid ls (filter (\<lambda>p. p \<noteq> path e) pending) ((path e, e) # found) = Inr (pending', found')"
        "\<forall>p. map_of found' p = (if p \<in> set (filter (\<lambda>p. p \<noteq> path e) pending) then
          (case last_own sid p es' of Some e \<Rightarrow> Some e | None \<Rightarrow> map_of ((path e, e) # found) p) else map_of ((path e, e) # found) p)"
        using Cons.IH [OF dec(2)] by blast
      then show ?thesis using True False dec(1) by (auto simp: es last_own_snoc split: option.splits)
    next
      case other: False
      obtain pending' found' where "newest_first depth sid ls pending found = Inr (pending', found')"
        "\<forall>p. map_of found' p = (if p \<in> set pending then
          (case last_own sid p es' of Some e \<Rightarrow> Some e | None \<Rightarrow> map_of found p) else map_of found p)"
        using Cons.IH [OF dec(2)] by blast
      then show ?thesis using other False dec(1) by (auto simp: es last_own_snoc split: option.splits)
    qed
  qed simp
qed

text \<open>The lines of a healthy record decode to its history.\<close>

definition member_raw :: "folder \<Rightarrow> string \<Rightarrow> string list" where
  "member_raw dir m = (case map_of dir m of Some (Regular content _) \<Rightarrow> iter_complete_lines content | _ \<Rightarrow> [])"

lemma member_decoded: "read_member depth dir m = Inr (es, []) \<Longrightarrow> map (decode_line depth) (member_raw dir m) = map Inr es"
  by (auto simp: read_member_def member_raw_def decode_bind_Inr decode_lines_nth [symmetric] split: option.splits node.splits if_splits)

lemma members_decoded: "read_members depth dir ms = Inr (es, []) \<Longrightarrow>
    map (decode_line depth) (concat (map (member_raw dir) ms)) = map Inr es"
  by (induction ms arbitrary: es) (auto simp: decode_bind_Inr member_decoded)

lemma lines_reversed: "concat (map (member_lines dir) (rev ms)) = rev (concat (map (member_raw dir) ms))"
proof (induction ms)
  case (Cons m ms)
  have "member_lines dir m = rev (member_raw dir m)"
    by (simp add: member_lines_def member_raw_def split: option.splits node.splits)
  then show ?case using Cons by simp
qed simp

theorem last_seen_eq:
  assumes "touch_history depth RECORD_FILENAME dir = Some es" "sid \<noteq> []" "p \<in> set rel_paths" "p \<noteq> []"
  shows "map_of (last_seen_events depth sid rel_paths dir) p = Some (map_option (\<lambda>e. (content_hash e, stamp e)) (last_own sid p es))"
proof -
  let ?fam = "discover_family RECORD_FILENAME dir" and ?wanted = "filter (\<lambda>p. p \<noteq> []) (remdups rel_paths)"
  have "read_members depth dir ?fam = Inr (es, [])" using assms(1) by (auto simp: touch_history_def split: sum.splits list.splits)
  then have "map (decode_line depth) (concat (map (member_lines dir) (rev ?fam))) = map Inr (rev es)"
    using members_decoded [of depth dir ?fam es] by (simp only: lines_reversed) (simp only: rev_map [symmetric])
  then obtain pending found where nf: "newest_first depth sid (concat (map (member_lines dir) (rev ?fam))) ?wanted [] = Inr (pending, found)"
    "\<forall>p. map_of found p = (if p \<in> set ?wanted then (case last_own sid p es of Some e \<Rightarrow> Some e | None \<Rightarrow> map_of [] p) else map_of [] p)"
    using newest_first_decoded by meson
  have "map_of found p = last_own sid p es" using nf(2) assms(3,4) by (simp split: option.splits)
  moreover have "?wanted \<noteq> []" using assms(3,4) by (auto simp: filter_empty_conv)
  moreover have "map_of (map (\<lambda>p. (p, f p)) rel_paths) p = Some (f p)" for f :: "string \<Rightarrow> (string option \<times> py_float) option"
    using assms(3) by (simp add: map_of_map_restrict)
  ultimately show ?thesis using assms(2) nf(1) by (simp add: last_seen_events_def Let_def)
qed

section \<open>Backfill\<close>

text \<open>\<open>session_started_at_epoch\<close> of the content of \<open>started_at\<close>, \<open>None\<close> when it cannot be read. The outer
  \<open>None\<close> is the exception of a file that is not UTF-8. An epoch is small enough to be a float.\<close>

definition stripped_text :: "string \<Rightarrow> string" where
  "stripped_text s = concat (map utf8 (rev (dropWhile unicode_space (rev (dropWhile unicode_space (code_points s))))))"

definition session_started_at_epoch :: "caller \<Rightarrow> string option \<Rightarrow> py_float option option" where
  "session_started_at_epoch h content =
     (case content of
        None \<Rightarrow> Some None
      | Some raw \<Rightarrow>
          if \<not> utf8_ok raw then None
          else if stripped_text raw = [] then Some None
          else (let epoch = iso_to_epoch h (stripped_text raw) in
                Some (if epoch = 0 then None else Some (nearest epoch 1))))"

text \<open>What the disk says of a candidate, resolved against the working directory: its modification time and
  the digest of its content (\<open>None\<close> when it can no longer be read).\<close>

type_synonym disk_state = "string \<Rightarrow> (py_float \<times> string option) option"

definition backfill_request :: "string \<Rightarrow> string option \<Rightarrow> py_float option \<Rightarrow> string \<Rightarrow> string option \<Rightarrow> request" where
  "backfill_request sid agent ts candidate digest =
     \<lparr>q_event = \<lparr>schema_version = SCHEMA_VERSION, verb = VERB_TOUCH, stamp = Units 0, session_id = sid,
        agent_id = agent, path = candidate, content_hash = digest, writer_name = None, kind = Some KIND_WRITE\<rparr>,
      q_stamp = ts, q_name = None\<rparr>"

definition in_window :: "disk_state \<Rightarrow> py_float \<Rightarrow> string \<Rightarrow> bool" where
  "in_window disk_state started candidate =
     (case disk_state candidate of None \<Rightarrow> False | Some (mtime, _) \<Rightarrow> \<not> float_less mtime started)"

fun backfill :: "string \<Rightarrow> (nat \<Rightarrow> writer) \<Rightarrow> writer_memo \<Rightarrow> string \<Rightarrow> string option \<Rightarrow> py_float option \<Rightarrow> disk_state \<Rightarrow> py_float \<Rightarrow>
    string list \<Rightarrow> folder \<Rightarrow> (encode_error + string list) \<times> folder" where
  "backfill name w memo sid agent ts disk_state started [] dir = (Inr [], dir)"
| "backfill name w memo sid agent ts disk_state started (c # cs) dir =
     (if \<not> in_window disk_state started c then backfill name w memo sid agent ts disk_state started cs dir
      else (case append_touch_event name (w 0) memo (backfill_request sid agent ts c (snd (the (disk_state c)))) dir of
              (Inl x, _) \<Rightarrow> (Inl x, dir)
            | (Inr dir', memo') \<Rightarrow>
                (case backfill name (\<lambda>n. w (Suc n)) memo' sid agent ts disk_state started cs dir' of
                   (Inl x, dir'') \<Rightarrow> (Inl x, dir'')
                 | (Inr attributed, dir'') \<Rightarrow> (Inr (c # attributed), dir''))))"

text \<open>The outer \<open>None\<close>: the session's start could not be decoded.\<close>

definition reconcile_untouched_bash_writes :: "caller \<Rightarrow> string option \<Rightarrow> string \<Rightarrow> (nat \<Rightarrow> writer) \<Rightarrow> writer_memo \<Rightarrow> string \<Rightarrow>
    string option \<Rightarrow> py_float option \<Rightarrow> disk_state \<Rightarrow> string list \<Rightarrow> folder \<Rightarrow> ((encode_error + string list) \<times> folder) option" where
  "reconcile_untouched_bash_writes h started name w memo sid agent ts disk_state candidates dir =
     (case session_started_at_epoch h started of
        None \<Rightarrow> None
      | Some None \<Rightarrow> Some (Inr [], dir)
      | Some (Some t) \<Rightarrow> Some (backfill name w memo sid agent ts disk_state t candidates dir))"

lemma backfill_attributes: "backfill name w memo sid agent ts disk_state started cs dir = (Inr ps, dir') \<Longrightarrow>
    ps = filter (in_window disk_state started) cs"
  by (induction cs arbitrary: w memo dir ps dir') (auto split: if_splits prod.splits sum.splits)

text \<open>Outside the window nothing is written.\<close>

lemma backfill_nothing: "\<forall>c \<in> set cs. \<not> in_window disk_state started c \<Longrightarrow>
    backfill name w memo sid agent ts disk_state started cs dir = (Inr [], dir)"
  by (induction cs) auto

end
