(* ===== verification/Touch_Walk.thy ===== *)
theory Touch_Walk
  imports Touch_Seen
begin

text \<open>
  The walk over all records of a repository (\<open>session/claim_index.py\<close>: \<open>_enumerate_claim_sinks\<close>, \<open>_fold_rows\<close>,
  \<open>_walk\<close>, \<open>rebuild\<close>): which records there are and who owns them, their folds merged per path and session, and
  whether the walk saw everything.

  A directory that cannot be listed is \<open>Sealed\<close>. The two deadlines of a walk are the answers of the clock
  at each check (\<open>caps\<close>). A back-pointer is written once, so the memo of its content is not kept.
  Rows with a stamp that is not a number are left by Python's sort in an order that depends on the algorithm of the
  sort; it is a parameter (\<open>nan_order\<close>).
\<close>

section \<open>The tree of sessions\<close>

datatype entry = Claimant folder | Sealed | No_Directory
datatype listing = Missing | Refused | Entries "(string \<times> entry) list"

record sessions_tree =
  t_base :: listing
  t_agents :: listing

datatype walk_error = Raised decode_error | Raised_Os_Error | Raised_Date_Error

type_synonym 'a walked = "walk_error + 'a"

fun walk_bind :: "'a walked \<Rightarrow> ('a \<Rightarrow> 'b walked) \<Rightarrow> 'b walked" where
  "walk_bind (Inl x) f = Inl x"
| "walk_bind (Inr a) f = f a"

lemma walk_bind_Inr: "walk_bind x f = Inr y \<longleftrightarrow> (\<exists>a. x = Inr a \<and> f a = Inr y)"
  by (cases x) auto

definition AGENTS_SUBDIR :: string where "AGENTS_SUBDIR = ''.agents''"
definition AGENT_OWNER_MAX_CHARS :: nat where "AGENT_OWNER_MAX_CHARS = 512"

text \<open>The first line of the back-pointer, and whether the read was conclusive.\<close>

definition first_line :: "string \<Rightarrow> string" where
  "first_line s =
     stripped_text (concat (map utf8 (take AGENT_OWNER_MAX_CHARS (takeWhile (\<lambda>n. n \<noteq> 10 \<and> n \<noteq> 13) (code_points s)))))"

definition agent_owner_sid :: "folder \<Rightarrow> (string \<times> bool) walked" where
  "agent_owner_sid dir =
     (case map_of dir OWNER_POINTER_FILENAME of
        None \<Rightarrow> Inr ([], True)
      | Some (Blocked _ _) \<Rightarrow> Inr ([], False)
      | Some (Regular content _) \<Rightarrow> if utf8_ok content then Inr (first_line content, True) else Inl (Raised Raises_Value_Error))"

text \<open>A record found by the walk: its name below the sessions directory, the session it counts for, the agent
  that wrote it, its directory, and whether it was listed as a live file alone.\<close>

record source =
  s_sink :: string
  s_sid :: string
  s_agent :: "string option"
  s_dir :: folder
  s_live :: bool

definition session_sink :: "string \<Rightarrow> string" where
  "session_sink n = n @ [SLASH] @ RECORD_FILENAME"

definition agent_sink :: "string \<Rightarrow> string" where
  "agent_sink n = AGENTS_SUBDIR @ [SLASH] @ n @ [SLASH] @ RECORD_FILENAME"

definition session_source :: "string \<Rightarrow> entry \<Rightarrow> (source option \<times> bool) walked" where
  "session_source n e =
     (if n = AGENTS_SUBDIR then Inr (None, True)
      else (case e of
          No_Directory \<Rightarrow> Inr (None, True)
        | Sealed \<Rightarrow> Inl Raised_Os_Error
        | Claimant dir \<Rightarrow>
            (case dir_claim_listing dir of
               (surface, pointer, live_only) \<Rightarrow>
                 if \<not> surface then Inr (None, True)
                 else walk_bind (if pointer then agent_owner_sid dir else Inr ([], True)) (\<lambda>(owner, conclusive).
                   Inr (Some (if owner \<noteq> [] \<and> owner \<noteq> n
                              then \<lparr>s_sink = session_sink n, s_sid = owner, s_agent = Some n, s_dir = dir, s_live = live_only\<rparr>
                              else \<lparr>s_sink = session_sink n, s_sid = n, s_agent = None, s_dir = dir, s_live = live_only\<rparr>),
                        conclusive)))))"

definition agent_source :: "string \<Rightarrow> entry \<Rightarrow> (source option \<times> bool) walked" where
  "agent_source n e =
     (case e of
        No_Directory \<Rightarrow> Inr (None, True)
      | Sealed \<Rightarrow> Inr (None, False)
      | Claimant dir \<Rightarrow> walk_bind (agent_owner_sid dir) (\<lambda>(owner, conclusive).
          if owner = [] then Inr (None, conclusive)
          else (case dir_claim_listing dir of
              (surface, _, live_only) \<Rightarrow>
                Inr (if surface then Some \<lparr>s_sink = agent_sink n, s_sid = owner, s_agent = Some n, s_dir = dir, s_live = live_only\<rparr>
                     else None, conclusive))))"

section \<open>Enumeration\<close>

text \<open>A row: an event of a stream, its path, the session and agent it counts for, and the held kinds of the stream.\<close>

record row =
  g_event :: touch_event
  g_path :: string
  g_sid :: string
  g_agent :: "string option"
  g_held :: "(string \<times> string option) list"

text \<open>What a walk asks of its surroundings: the deadlines at every check, and the order in which \<open>list.sort\<close> leaves
  rows when one of the stamps is not a number. Python compares such a stamp as neither less nor greater, so that the
  order is not that of the stamps, and the language does not fix it.\<close>

record caps =
  at_base :: "nat \<Rightarrow> bool"
  at_agents :: "nat \<Rightarrow> bool"
  listed_late :: bool
  at_sink :: "nat \<Rightarrow> bool"
  nan_order :: "row list \<Rightarrow> row list"

definition listed :: "listing \<Rightarrow> (string \<times> entry) list" where
  "listed l = (case l of Entries es \<Rightarrow> sort_key fst es | _ \<Rightarrow> [])"

text \<open>The sources of the entries, whether all were conclusive, and whether the deadline came first.\<close>

fun enumerate_entries :: "(nat \<Rightarrow> bool) \<Rightarrow> (string \<Rightarrow> entry \<Rightarrow> (source option \<times> bool) walked) \<Rightarrow> (string \<times> entry) list \<Rightarrow>
    (source list \<times> bool \<times> bool) walked" where
  "enumerate_entries expired f [] = Inr ([], True, False)"
| "enumerate_entries expired f ((n, e) # es) =
     (if expired 0 then Inr ([], True, True)
      else walk_bind (f n e) (\<lambda>(s, conclusive).
        walk_bind (enumerate_entries (\<lambda>i. expired (Suc i)) f es) (\<lambda>(ss, all_conclusive, late).
          Inr ((case s of None \<Rightarrow> ss | Some s \<Rightarrow> s # ss), conclusive \<and> all_conclusive, late))))"

definition enumerate_claim_sinks :: "caps \<Rightarrow> sessions_tree \<Rightarrow> (source list \<times> bool) walked" where
  "enumerate_claim_sinks caps tree =
     walk_bind (enumerate_entries (at_base caps) session_source (listed (t_base tree))) (\<lambda>(ss, ok, late).
       if late then Inr (ss, False)
       else walk_bind (enumerate_entries (at_agents caps) agent_source (listed (t_agents tree))) (\<lambda>(ags, ok', late').
         Inr (ss @ ags, ok \<and> ok' \<and> \<not> late' \<and> t_base tree \<noteq> Refused \<and> t_agents tree \<noteq> Refused)))"

section \<open>The reads\<close>

definition ABORT_CAUSE_EMPTY_BASE :: string where "ABORT_CAUSE_EMPTY_BASE = ''empty_base''"
definition ABORT_CAUSE_CAP_EXCEEDED :: string where "ABORT_CAUSE_CAP_EXCEEDED = ''cap_exceeded''"
definition ABORT_CAUSE_IO_ERROR :: string where "ABORT_CAUSE_IO_ERROR = ''io_error''"

definition source_rows :: "source \<Rightarrow> sink_read \<Rightarrow> row list" where
  "source_rows s r =
     map (\<lambda>(p, e). \<lparr>g_event = e, g_path = p, g_sid = s_sid s, g_agent = s_agent s, g_held = r_held r\<rparr>) (r_claims r)"

definition sink_key :: "string \<Rightarrow> source \<Rightarrow> string" where
  "sink_key base s = base @ [SLASH] @ s_sink s"

fun read_sources :: "nat \<Rightarrow> string \<Rightarrow> (nat \<Rightarrow> bool) \<Rightarrow> source list \<Rightarrow> fold_cache \<Rightarrow> (row list \<times> string list) walked \<times> fold_cache" where
  "read_sources depth base expired [] cache = (Inr ([], []), cache)"
| "read_sources depth base expired (s # ss) cache =
     (if expired 0 then (Inr ([], [ABORT_CAUSE_CAP_EXCEEDED]), cache)
      else (case read_sink depth (sink_key base s) RECORD_FILENAME (s_dir s) (s_live s) cache of
          (Inl x, cache') \<Rightarrow> (Inl (Raised x), cache')
        | (Inr r, cache') \<Rightarrow>
            (case read_sources depth base (\<lambda>i. expired (Suc i)) ss cache' of
               (Inl x, cache'') \<Rightarrow> (Inl x, cache'')
             | (Inr (rows, causes), cache'') \<Rightarrow>
                 (Inr (if r_degraded r then (rows, ABORT_CAUSE_IO_ERROR # causes) else (source_rows s r @ rows, causes)), cache''))))"

section \<open>The fold of the rows\<close>

record index_fold =
  i_claims :: "(string \<times> string list) list"
  i_edit :: "((string \<times> string) \<times> py_float) list"
  i_name :: "((string \<times> string) \<times> string) list"
  i_kind :: "((string \<times> string) \<times> string) list"
  i_held :: "((string \<times> string) \<times> string option) list"
  i_sources :: "((string \<times> string) \<times> string option list) list"

definition merge_held_kind :: "string option option \<Rightarrow> string option \<Rightarrow> string option" where
  "merge_held_kind current new =
     (case current of
        None \<Rightarrow> new
      | Some cur \<Rightarrow>
          if cur = Some KIND_WRITE \<or> new = Some KIND_WRITE then Some KIND_WRITE
          else if cur = None \<or> new = None then None
          else Some KIND_READ)"

definition added :: "'a \<Rightarrow> 'a list \<Rightarrow> 'a list" where
  "added x xs = (if x \<in> set xs then xs else xs @ [x])"

definition entries :: "('k \<times> 'a list) list \<Rightarrow> 'k \<Rightarrow> 'a list" where
  "entries d k = (case map_of d k of None \<Rightarrow> [] | Some xs \<Rightarrow> xs)"

definition put_text :: "'k \<Rightarrow> string option \<Rightarrow> ('k \<times> string) list \<Rightarrow> ('k \<times> string) list" where
  "put_text k t d = (case t of None \<Rightarrow> d | Some s \<Rightarrow> if s = [] then d else AList.update k s d)"

text \<open>\<open>datetime.fromtimestamp\<close> raises for the year 10000 and later.\<close>

definition date_ok :: "py_float \<Rightarrow> bool" where
  "date_ok t = float_less t (Units (253402300800 * SCALE))"

definition fold_row :: "index_fold \<Rightarrow> row \<Rightarrow> index_fold walked" where
  "fold_row st r =
     (let e = g_event r; p = g_path r; k = (g_path r, g_sid r) in
      if verb e = VERB_TOUCH then
        if float_less (Units 0) (stamp e) \<and> \<not> date_ok (stamp e) then Inl Raised_Date_Error
        else Inr \<lparr>i_claims = AList.update p (added (g_sid r) (entries (i_claims st) p)) (i_claims st),
          i_edit = (if float_less (Units 0) (stamp e) then AList.update k (stamp e) (i_edit st) else i_edit st),
          i_name = put_text k (writer_name e) (i_name st),
          i_kind = put_text k (kind e) (i_kind st),
          i_held = (case map_of (g_held r) p of
                      None \<Rightarrow> i_held st
                    | Some kd \<Rightarrow> AList.update k (merge_held_kind (map_of (i_held st) k) kd) (i_held st)),
          i_sources = AList.update k (added (g_agent r) (entries (i_sources st) k)) (i_sources st)\<rparr>
      else Inr \<lparr>i_claims = (if map_of (i_claims st) p = None then i_claims st
                          else AList.update p (removeAll (g_sid r) (entries (i_claims st) p)) (i_claims st)),
          i_edit = AList.delete k (i_edit st), i_name = AList.delete k (i_name st),
          i_kind = AList.delete k (i_kind st), i_held = AList.delete k (i_held st),
          i_sources = (if map_of (i_sources st) k = None then i_sources st
                       else AList.update k (removeAll (g_agent r) (entries (i_sources st) k)) (i_sources st))\<rparr>)"

fun fold_in_order :: "index_fold \<Rightarrow> row list \<Rightarrow> index_fold walked" where
  "fold_in_order st [] = Inr st"
| "fold_in_order st (r # rs) = walk_bind (fold_row st r) (\<lambda>st'. fold_in_order st' rs)"

definition NO_CLAIMS :: index_fold where
  "NO_CLAIMS = \<lparr>i_claims = [], i_edit = [], i_name = [], i_kind = [], i_held = [], i_sources = []\<rparr>"

definition numbered :: "row list \<Rightarrow> bool" where
  "numbered rows = list_all (\<lambda>r. stamp (g_event r) \<noteq> Nan) rows"

definition fold_rows :: "(row list \<Rightarrow> row list) \<Rightarrow> row list \<Rightarrow> index_fold walked" where
  "fold_rows unsorted rows =
     fold_in_order NO_CLAIMS (if numbered rows then sort_key (\<lambda>r. event_rank (g_event r)) rows else unsorted rows)"

section \<open>The walk\<close>

record index_state =
  x_fold :: index_fold
  x_complete :: bool
  x_cause :: "string option"

definition source_order :: "string option \<Rightarrow> bool \<times> string" where
  "source_order s = (case s of None \<Rightarrow> (False, []) | Some a \<Rightarrow> (True, a))"

definition tidy :: "index_fold \<Rightarrow> index_fold" where
  "tidy st = st\<lparr>i_claims := map (\<lambda>(p, sids). (p, sort sids)) (filter (\<lambda>(p, sids). sids \<noteq> []) (i_claims st)),
     i_sources := map (\<lambda>(k, ss). (k, sort_key source_order ss)) (filter (\<lambda>(k, ss). ss \<noteq> []) (i_sources st))\<rparr>"

definition walk_sessions :: "caps \<Rightarrow> nat \<Rightarrow> string \<Rightarrow> sessions_tree \<Rightarrow> fold_cache \<Rightarrow> index_state walked \<times> fold_cache" where
  "walk_sessions caps depth base tree cache =
     (case enumerate_claim_sinks caps tree of
        Inl x \<Rightarrow> (Inl x, cache)
      | Inr (sources, ok) \<Rightarrow>
          (case read_sources depth base (at_sink caps) sources cache of
             (Inl x, cache') \<Rightarrow> (Inl x, cache')
           | (Inr (rows, causes), cache') \<Rightarrow>
               (let all_causes = (if ok then [] else [if listed_late caps then ABORT_CAUSE_CAP_EXCEEDED else ABORT_CAUSE_IO_ERROR]) @ causes in
                (walk_bind (fold_rows (nan_order caps) rows) (\<lambda>st.
                   Inr \<lparr>x_fold = tidy st, x_complete = (all_causes = []),
                     x_cause = (if all_causes = [] then None else Some (hd all_causes))\<rparr>), cache'))))"

definition rebuild :: "caps \<Rightarrow> nat \<Rightarrow> string \<Rightarrow> sessions_tree \<Rightarrow> fold_cache \<Rightarrow> index_state walked \<times> fold_cache" where
  "rebuild caps depth base tree cache =
     (if base = [] then (Inr \<lparr>x_fold = NO_CLAIMS, x_complete = False, x_cause = Some ABORT_CAUSE_EMPTY_BASE\<rparr>, cache)
      else walk_sessions caps depth base tree cache)"

end
