(* ===== verification/Touch_Rows.thy ===== *)
theory Touch_Rows
  imports Touch_Walk
begin

text \<open>
  What the fold of the rows of a walk computes for one session and one path: the session claims the path when
  the row of the highest rank is a touch, and the kind of its hold is folded over the touches after its last release.
\<close>

section \<open>The rows of one session on one path\<close>

definition rows_on :: "string \<Rightarrow> string \<Rightarrow> row list \<Rightarrow> row list" where
  "rows_on p sid rs = filter (\<lambda>r. g_path r = p \<and> g_sid r = sid) rs"

text \<open>The touches after the last release.\<close>

definition touch_run :: "string \<Rightarrow> string \<Rightarrow> row list \<Rightarrow> row list" where
  "touch_run p sid rs = rev (takeWhile (\<lambda>r. verb (g_event r) = VERB_TOUCH) (rev (rows_on p sid rs)))"

fun merged_kind :: "string option option \<Rightarrow> string option list \<Rightarrow> string option option" where
  "merged_kind cur [] = cur"
| "merged_kind cur (k # ks) = merged_kind (Some (merge_held_kind cur k)) ks"

definition stream_kinds :: "row list \<Rightarrow> string option list" where
  "stream_kinds rs = concat (map (\<lambda>r. case map_of (g_held r) (g_path r) of None \<Rightarrow> [] | Some k \<Rightarrow> [k]) rs)"

lemma touch_run_snoc: "touch_run p sid (rs @ [r]) =
    (if g_path r = p \<and> g_sid r = sid then (if verb (g_event r) = VERB_TOUCH then touch_run p sid rs @ [r] else [])
     else touch_run p sid rs)"
  by (simp add: touch_run_def rows_on_def)

lemma touch_run_Nil [simp]: "touch_run p sid [] = []"
  by (simp add: touch_run_def rows_on_def)

lemma merged_kind_snoc: "merged_kind cur (ks @ [k]) = Some (merge_held_kind (merged_kind cur ks) k)"
  by (induction ks arbitrary: cur) auto

lemma stream_kinds_snoc: "stream_kinds (rs @ [r]) =
    stream_kinds rs @ (case map_of (g_held r) (g_path r) of None \<Rightarrow> [] | Some k \<Rightarrow> [k])"
  by (simp add: stream_kinds_def)

lemma stream_kinds_Nil [simp]: "stream_kinds [] = []"
  by (simp add: stream_kinds_def)

lemma fold_in_order_snoc: "fold_in_order st (rs @ [r]) = walk_bind (fold_in_order st rs) (\<lambda>st'. fold_row st' r)"
proof (induction rs arbitrary: st)
  case Nil
  then show ?case by (cases "fold_row st r") auto
next
  case (Cons q rs)
  then show ?case by (cases "fold_row st q") auto
qed

lemma entries_update: "entries (AList.update k v d) k' = (if k' = k then v else entries d k')"
  by (simp add: entries_def alist_simps)

lemma set_added [simp]: "set (added x xs) = insert x (set xs)"
  by (auto simp: added_def)

lemma fold_row_claims:
  assumes "fold_row st r = Inr st'"
  shows "set (entries (i_claims st') p) =
    (if g_path r \<noteq> p then set (entries (i_claims st) p)
     else if verb (g_event r) = VERB_TOUCH then insert (g_sid r) (set (entries (i_claims st) p))
     else set (entries (i_claims st) p) - {g_sid r})"
  using assms by (auto simp: fold_row_def Let_def entries_update split: if_splits) (auto simp: entries_def)

lemma fold_row_held:
  assumes "fold_row st r = Inr st'"
  shows "map_of (i_held st') (p, sid) =
    (if g_path r = p \<and> g_sid r = sid then
       (if verb (g_event r) = VERB_TOUCH then
          (case map_of (g_held r) p of None \<Rightarrow> map_of (i_held st) (p, sid)
           | Some k \<Rightarrow> Some (merge_held_kind (map_of (i_held st) (p, sid)) k))
        else None)
     else map_of (i_held st) (p, sid))"
  using assms by (auto simp: fold_row_def Let_def update_conv delete_conv split: if_splits option.splits)

lemma fold_in_order_facts:
  "fold_in_order NO_CLAIMS rs = Inr st \<Longrightarrow>
   (sid \<in> set (entries (i_claims st) p) \<longleftrightarrow> touch_run p sid rs \<noteq> []) \<and>
   map_of (i_held st) (p, sid) = merged_kind None (stream_kinds (touch_run p sid rs))"
proof (induction rs arbitrary: st p sid rule: rev_induct)
  case Nil
  then show ?case by (auto simp: NO_CLAIMS_def entries_def)
next
  case (snoc r rs)
  then obtain st' where st': "fold_in_order NO_CLAIMS rs = Inr st'" "fold_row st' r = Inr st"
    by (auto simp: fold_in_order_snoc walk_bind_Inr)
  note IH = snoc.IH [OF st'(1)]
  have "(sid \<in> set (entries (i_claims st) p)) = (touch_run p sid (rs @ [r]) \<noteq> [])"
    using IH [of sid p] unfolding fold_row_claims [OF st'(2)] touch_run_snoc by auto
  moreover have "map_of (i_held st) (p, sid) = merged_kind None (stream_kinds (touch_run p sid (rs @ [r])))"
    using IH [of sid p] unfolding fold_row_held [OF st'(2)] touch_run_snoc
    by (auto simp: stream_kinds_snoc merged_kind_snoc split: option.splits)
  ultimately show ?case ..
qed

section \<open>Kinds of holds\<close>

definition known_hold :: "string option \<Rightarrow> bool" where
  "known_hold k = (k = None \<or> k = Some KIND_WRITE \<or> k = Some KIND_READ)"

lemma known_kind_of_hold [simp]: "known_hold (kind_of_hold ks)"
  by (simp add: known_hold_def kind_of_hold_def)

lemma merge_known: "known_hold a \<Longrightarrow> known_hold b \<Longrightarrow> known_hold (merge_held_kind (Some a) b) \<and>
    (kind_blocks_a_peer_commit (merge_held_kind (Some a) b) \<longleftrightarrow> kind_blocks_a_peer_commit a \<or> kind_blocks_a_peer_commit b)"
  by (auto simp: known_hold_def merge_held_kind_def kind_blocks_a_peer_commit_def touch_constants)

text \<open>Merging the holds of two streams is the hold of all their touches.\<close>

lemma merge_kind_of_hold_eq: "ks \<noteq> [] \<Longrightarrow> ls \<noteq> [] \<Longrightarrow>
    merge_held_kind (Some (kind_of_hold ks)) (kind_of_hold ls) = kind_of_hold (ks @ ls)"
  by (auto simp: merge_held_kind_def kind_of_hold_def touch_constants)

lemma merged_blocks:
  "list_all known_hold ks \<Longrightarrow> cur \<noteq> None \<or> ks \<noteq> [] \<Longrightarrow> \<forall>c \<in> set_option cur. known_hold c \<Longrightarrow>
   \<exists>k. merged_kind cur ks = Some k \<and>
     (kind_blocks_a_peer_commit k \<longleftrightarrow> (\<exists>c \<in> set_option cur. kind_blocks_a_peer_commit c) \<or> list_ex kind_blocks_a_peer_commit ks)"
proof (induction ks arbitrary: cur)
  case Nil
  then show ?case by auto
next
  case (Cons k ks)
  show ?case
  proof (cases cur)
    case None
    then show ?thesis using Cons.IH [of "Some k"] Cons.prems by (simp add: merge_held_kind_def)
  next
    case (Some c)
    then have "known_hold c" "known_hold k" using Cons.prems by auto
    then show ?thesis using Some Cons.IH [of "Some (merge_held_kind (Some c) k)"] Cons.prems merge_known [of c k] by auto
  qed
qed

section \<open>The order of the rows\<close>

abbreviation row_rank :: "row \<Rightarrow> (int \<times> int) \<times> bool" where
  "row_rank r \<equiv> event_rank (g_event r)"

lemma rows_on_sorted: "rows_on p sid (sort_key row_rank rs) = sort_key row_rank (rows_on p sid rs)"
  by (simp add: rows_on_def filter_sort)

lemma last_sort_key:
  assumes "xs \<noteq> []" shows "last (sort_key f xs) \<in> set xs" "\<forall>x \<in> set xs. f x \<le> f (last (sort_key f xs))"
proof -
  have ne: "sort_key f xs \<noteq> []" using assms by (metis set_empty set_sort)
  show "last (sort_key f xs) \<in> set xs" using last_in_set [OF ne] by simp
  have s: "sorted (map f (sort_key f xs))" by simp
  obtain ys y where y: "sort_key f xs = ys @ [y]" using ne by (cases "sort_key f xs" rule: rev_cases) auto
  have "\<forall>x \<in> set (sort_key f xs). f x \<le> f y" using s unfolding y by (auto simp: sorted_append)
  then show "\<forall>x \<in> set xs. f x \<le> f (last (sort_key f xs))" unfolding set_sort by (simp add: y)
qed

text \<open>A touch that no later row of the same session and path releases is in the run of touches.\<close>

lemma in_touch_run:
  assumes "r \<in> set rs" "g_path r = p" "g_sid r = sid" "verb (g_event r) = VERB_TOUCH"
    "\<forall>q \<in> set rs. g_path q = p \<and> g_sid q = sid \<and> verb (g_event q) \<noteq> VERB_TOUCH \<longrightarrow> row_rank q < row_rank r"
  shows "r \<in> set (touch_run p sid (sort_key row_rank rs))"
proof -
  let ?L = "sort_key row_rank (rows_on p sid rs)"
  have "r \<in> set ?L" using assms(1-3) by (simp add: rows_on_def)
  then obtain a b where ab: "?L = a @ r # b" by (meson split_list)
  have "sorted (map row_rank ?L)" by simp
  then have above: "\<forall>q \<in> set b. row_rank r \<le> row_rank q" unfolding ab by (auto simp: sorted_append)
  have "\<forall>q \<in> set b. verb (g_event q) = VERB_TOUCH"
  proof
    fix q assume q: "q \<in> set b"
    then have "q \<in> set ?L" by (simp add: ab)
    then have "q \<in> set rs" "g_path q = p \<and> g_sid q = sid" by (auto simp: rows_on_def)
    moreover have "\<not> row_rank q < row_rank r" using above q by (simp add: not_less)
    ultimately show "verb (g_event q) = VERB_TOUCH" using assms(5) by blast
  qed
  then have "takeWhile (\<lambda>q. verb (g_event q) = VERB_TOUCH) (rev b @ r # rev a) =
      rev b @ r # takeWhile (\<lambda>q. verb (g_event q) = VERB_TOUCH) (rev a)"
    using assms(4) by (subst takeWhile_append2) auto
  then show ?thesis by (simp add: touch_run_def rows_on_sorted ab)
qed

lemma fold_rows_facts:
  assumes "fold_rows u rs = Inr st" "numbered rs"
  shows "sid \<in> set (entries (i_claims st) p) \<longleftrightarrow> touch_run p sid (sort_key row_rank rs) \<noteq> []"
    "map_of (i_held st) (p, sid) = merged_kind None (stream_kinds (touch_run p sid (sort_key row_rank rs)))"
  using fold_in_order_facts assms by (simp_all add: fold_rows_def)

lemma in_stream_kinds: "r \<in> set rs \<Longrightarrow> map_of (g_held r) (g_path r) = Some k \<Longrightarrow> k \<in> set (stream_kinds rs)"
  by (force simp: stream_kinds_def)

lemma stream_kinds_from: "k \<in> set (stream_kinds rs) \<Longrightarrow> \<exists>r \<in> set rs. map_of (g_held r) (g_path r) = Some k"
  by (auto simp: stream_kinds_def split: option.splits)

lemma stream_kinds_known: "\<forall>r \<in> set rs. \<forall>k \<in> ran (map_of (g_held r)). known_hold k \<Longrightarrow> list_all known_hold (stream_kinds rs)"
  using stream_kinds_from unfolding list_all_iff by (metis ranI)

lemma set_touch_run: "set (touch_run p sid rs) \<subseteq> set rs"
  by (auto simp: touch_run_def rows_on_def dest: set_takeWhileD)

text \<open>A touch with a blocking hold that no later row releases blocks the path.\<close>

lemma fold_rows_blocks:
  assumes fold: "fold_rows u rs = Inr st" "numbered rs" and r: "r \<in> set rs" "g_path r = p" "g_sid r = sid" "verb (g_event r) = VERB_TOUCH"
    and last: "\<forall>q \<in> set rs. g_path q = p \<and> g_sid q = sid \<and> verb (g_event q) \<noteq> VERB_TOUCH \<longrightarrow> row_rank q < row_rank r"
    and held: "map_of (g_held r) p = Some k" "kind_blocks_a_peer_commit k"
    and known: "\<forall>r \<in> set rs. \<forall>k \<in> ran (map_of (g_held r)). known_hold k"
  shows "sid \<in> set (entries (i_claims st) p)" "\<exists>k. map_of (i_held st) (p, sid) = Some k \<and> kind_blocks_a_peer_commit k"
proof -
  let ?run = "touch_run p sid (sort_key row_rank rs)"
  have run: "r \<in> set ?run" by (rule in_touch_run [OF r last])
  then have "?run \<noteq> []" by auto
  then show "sid \<in> set (entries (i_claims st) p)" using fold_rows_facts(1) [OF fold] by simp
  have k: "k \<in> set (stream_kinds ?run)" using in_stream_kinds [OF run] held(1) r(2) by simp
  have "list_all known_hold (stream_kinds ?run)"
    using known set_touch_run [of p sid "sort_key row_rank rs"] by (intro stream_kinds_known) (auto simp: subset_iff)
  moreover have "stream_kinds ?run \<noteq> []" using k by auto
  ultimately obtain k' where k': "merged_kind None (stream_kinds ?run) = Some k'"
    "kind_blocks_a_peer_commit k' \<longleftrightarrow> list_ex kind_blocks_a_peer_commit (stream_kinds ?run)"
    using merged_blocks [of "stream_kinds ?run" None] by auto
  have "kind_blocks_a_peer_commit k'" using k'(2) k held(2) by (auto simp: list_ex_iff)
  then show "\<exists>k. map_of (i_held st) (p, sid) = Some k \<and> kind_blocks_a_peer_commit k"
    using fold_rows_facts(2) [OF fold] k'(1) by simp
qed

end
