(* ===== verification/Touch_Ownership.thy ===== *)
theory Touch_Ownership
  imports Touch_Rows
begin

text \<open>
  The answers of \<open>session/claim_index.py\<close> to what a session may commit (\<open>commit_set\<close>), who holds a path
  (\<open>classify_paths\<close>) and who claims it (\<open>lookup\<close>, from a walk), and what a complete walk proves about the
  files behind it.
\<close>

section \<open>Who holds a path\<close>

datatype verdict = Mine | Held_By_Peer "string list" | Unclaimed | Unanswerable

definition hold_of :: "index_state \<Rightarrow> string \<Rightarrow> string \<Rightarrow> string option" where
  "hold_of x p sid = (case map_of (i_held (x_fold x)) (p, sid) of None \<Rightarrow> None | Some k \<Rightarrow> k)"

definition claimants :: "index_state \<Rightarrow> string \<Rightarrow> string list" where
  "claimants x p = entries (i_claims (x_fold x)) p"

definition classify_path :: "string \<Rightarrow> index_state \<Rightarrow> string \<Rightarrow> verdict" where
  "classify_path sid x raw =
     (let p = canonicalize_relative_path raw;
          peers = filter (\<lambda>c. c \<noteq> sid \<and> kind_blocks_a_peer_commit (hold_of x p c)) (claimants x p) in
      if peers \<noteq> [] then Held_By_Peer peers
      else if \<not> x_complete x then Unanswerable
      else if sid \<in> set (claimants x p) then Mine
      else Unclaimed)"

definition classify_paths :: "string \<Rightarrow> string list \<Rightarrow> caps \<Rightarrow> nat \<Rightarrow> string \<Rightarrow> sessions_tree \<Rightarrow> fold_cache \<Rightarrow>
    ((string \<times> verdict) list \<times> bool \<times> string option) walked \<times> fold_cache" where
  "classify_paths sid paths caps depth base tree cache =
     (case rebuild caps depth base tree cache of
        (x, cache') \<Rightarrow>
          (walk_bind x (\<lambda>x. Inr (map (\<lambda>p. (p, classify_path sid x p)) paths, x_complete x, x_cause x)), cache'))"

section \<open>What a session may commit\<close>

record commit_answer =
  c_paths :: "string list"
  c_contested :: "(string \<times> string list) list"
  c_complete :: bool
  c_cause :: "string option"
  c_peers :: "(string \<times> string list) list"
  c_agents :: "(string \<times> string list) list"
  c_read_only :: "string list"

definition others_on :: "string \<Rightarrow> string list \<Rightarrow> string list" where
  "others_on sid cs = filter (\<lambda>c. c \<noteq> sid) cs"

definition sources_on :: "index_state \<Rightarrow> string \<Rightarrow> string \<Rightarrow> string option list" where
  "sources_on x p sid = entries (i_sources (x_fold x)) (p, sid)"

definition agents_only :: "index_state \<Rightarrow> string \<Rightarrow> string \<Rightarrow> bool" where
  "agents_only x p sid = (sources_on x p sid \<noteq> [] \<and> None \<notin> set (sources_on x p sid))"

definition sole :: "string \<Rightarrow> string list \<Rightarrow> bool" where
  "sole sid cs = (sid \<in> set cs \<and> others_on sid cs = [])"

definition commit_of :: "string \<Rightarrow> index_state \<Rightarrow> commit_answer" where
  "commit_of sid x =
     (let cl = i_claims (x_fold x);
          alone = filter (\<lambda>(p, cs). sole sid cs) cl;
          own = filter (\<lambda>(p, cs). \<not> agents_only x p sid) alone in
      \<lparr>c_paths = sort (map fst (filter (\<lambda>(p, cs). hold_of x p sid \<noteq> Some KIND_READ) own)),
       c_contested = map (\<lambda>(p, cs). (p, others_on sid cs)) (filter (\<lambda>(p, cs). sid \<in> set cs \<and> others_on sid cs \<noteq> []) cl),
       c_complete = x_complete x, c_cause = x_cause x,
       c_peers = map (\<lambda>(p, cs). (p, others_on sid cs)) (filter (\<lambda>(p, cs). sid \<notin> set cs \<and> others_on sid cs \<noteq> []) cl),
       c_agents = map (\<lambda>(p, cs). (p, List.map_filter id (sources_on x p sid))) (filter (\<lambda>(p, cs). agents_only x p sid) alone),
       c_read_only = sort (map fst (filter (\<lambda>(p, cs). hold_of x p sid = Some KIND_READ) own))\<rparr>)"

definition commit_set :: "string \<Rightarrow> caps \<Rightarrow> nat \<Rightarrow> string \<Rightarrow> sessions_tree \<Rightarrow> fold_cache \<Rightarrow> commit_answer walked \<times> fold_cache" where
  "commit_set sid caps depth base tree cache =
     (case rebuild caps depth base tree cache of (x, cache') \<Rightarrow> (walk_bind x (\<lambda>x. Inr (commit_of sid x)), cache'))"

section \<open>Who claims a path\<close>

datatype claim_answer = Claimed_By "string list" | Unclaimed_Path | Cannot_Say

definition answer_for :: "index_state \<Rightarrow> string \<Rightarrow> claim_answer" where
  "answer_for x raw =
     (let cs = claimants x (canonicalize_relative_path raw) in
      if cs \<noteq> [] then Claimed_By cs else if \<not> x_complete x then Cannot_Say else Unclaimed_Path)"

text \<open>\<open>_held_from_maps\<close>: the paths each wanted session holds with a kind other than a read.\<close>

definition held_paths :: "string list \<Rightarrow> index_state \<Rightarrow> (string \<times> string list) list" where
  "held_paths wanted x =
     filter (\<lambda>(sid, ps). ps \<noteq> [])
       (map (\<lambda>sid. (sid, sort (map fst (filter (\<lambda>(p, cs). sid \<in> set cs \<and> hold_of x p sid \<noteq> Some KIND_READ) (i_claims (x_fold x)))))) wanted)"

text \<open>\<open>lookup\<close> when the walk answers.\<close>

definition lookup_by_walk :: "string list \<Rightarrow> caps \<Rightarrow> nat \<Rightarrow> string \<Rightarrow> sessions_tree \<Rightarrow> fold_cache \<Rightarrow>
    ((string \<times> claim_answer) list \<times> (string \<times> string list) list \<times> bool) walked \<times> fold_cache" where
  "lookup_by_walk paths caps depth base tree cache =
     (case rebuild caps depth base tree cache of
        (x, cache') \<Rightarrow>
          (walk_bind x (\<lambda>x.
             Inr (map (\<lambda>p. (p, answer_for x p)) paths,
                  held_paths (remdups (concat (map (\<lambda>p. claimants x (canonicalize_relative_path p)) paths))) x, x_complete x)), cache'))"

section \<open>The sources of a complete walk\<close>

lemma sort_nil [simp]: "(sort xs = []) = (xs = [])"
  by (metis set_empty set_sort)

lemma map_of_nonempty: "distinct (map fst d) \<Longrightarrow>
    entries (map (\<lambda>(p, xs). (p, f xs)) (filter (\<lambda>(p, xs). xs \<noteq> []) d)) p = (if entries d p = [] then [] else f (entries d p))"
proof (induction d)
  case (Cons q d)
  obtain k xs where q: "q = (k, xs)" by fastforce
  have "map_of d k = None" using Cons.prems q by (simp add: map_of_eq_None_iff)
  then show ?case using Cons q by (auto simp: entries_def)
qed (simp add: entries_def)

lemma fold_row_distinct: "fold_row st r = Inr st' \<Longrightarrow> distinct (map fst (i_claims st)) \<Longrightarrow> distinct (map fst (i_claims st'))"
  by (auto simp: fold_row_def Let_def distinct_update split: if_splits)

lemma fold_in_order_distinct: "fold_in_order st rs = Inr st' \<Longrightarrow> distinct (map fst (i_claims st)) \<Longrightarrow> distinct (map fst (i_claims st'))"
  by (induction rs arbitrary: st) (auto simp: walk_bind_Inr fold_row_distinct)

lemma fold_rows_distinct: "fold_rows u rows = Inr st \<Longrightarrow> distinct (map fst (i_claims st))"
  using fold_in_order_distinct by (fastforce simp: fold_rows_def NO_CLAIMS_def)

lemma tidy_claims: "fold_rows u rows = Inr st \<Longrightarrow> set (entries (i_claims (tidy st)) p) = set (entries (i_claims st) p)"
  using map_of_nonempty [OF fold_rows_distinct, of u rows st sort p] by (simp add: tidy_def)

lemma tidy_held [simp]: "i_held (tidy st) = i_held st"
  by (simp add: tidy_def)

text \<open>A read that is not degraded is the read of a healthy record.\<close>

lemma read_family_healthy:
  assumes "read_family depth name dir = Inr r" "\<not> r_degraded r"
  shows "\<exists>es. touch_history depth name dir = Some es \<and> r = read_of es []"
  using assms by (auto simp: read_family_def decode_bind_Inr read_of_def touch_history_def split: sum.splits list.splits prod.splits)

lemma listed_live: "dir_claim_listing dir = (surface, pointer, True) \<Longrightarrow>
    rotated_members RECORD_FILENAME dir = [] \<and> map_of dir RECORD_FILENAME \<noteq> None"
  by (auto simp: dir_claim_listing_def Let_def list_ex_iff rotated_members_def filter_empty_conv)

lemma read_sink_live:
  assumes "live_only \<Longrightarrow> rotated_members name dir = [] \<and> map_of dir name \<noteq> None"
  shows "read_sink depth key name dir live_only cache = read_sink depth key name dir False cache"
proof (cases live_only)
  case True
  then have "discover_family name dir = [name]" using assms by (simp add: discover_family_def)
  then have same: "whole_read depth key name dir True cache = whole_read depth key name dir False cache" by (simp add: whole_read_def)
  have live: "live_only = True" using True by simp
  show ?thesis unfolding read_sink_def live same ..
qed simp

definition source_ok :: "source \<Rightarrow> bool" where
  "source_ok s = (s_live s \<longrightarrow> rotated_members RECORD_FILENAME (s_dir s) = [] \<and> map_of (s_dir s) RECORD_FILENAME \<noteq> None)"

lemma session_source_ok: "session_source n e = Inr (Some s, ok) \<Longrightarrow> source_ok s"
  by (auto simp: session_source_def source_ok_def walk_bind_Inr split: if_splits entry.splits prod.splits dest: listed_live)

lemma agent_source_ok: "agent_source n e = Inr (Some s, ok) \<Longrightarrow> source_ok s"
  by (auto simp: agent_source_def source_ok_def walk_bind_Inr split: if_splits entry.splits prod.splits dest: listed_live)

lemma enumerate_entries_from: "enumerate_entries expired f es = Inr (ss, ok, late) \<Longrightarrow> s \<in> set ss \<Longrightarrow>
    \<exists>n e ok'. (n, e) \<in> set es \<and> f n e = Inr (Some s, ok')"
  by (induction es arbitrary: expired ss ok late) (fastforce simp: walk_bind_Inr split: if_splits option.splits)+

lemma enumerate_entries_all: "enumerate_entries expired f es = Inr (ss, ok, False) \<Longrightarrow> (n, e) \<in> set es \<Longrightarrow>
    f n e = Inr (Some s, ok') \<Longrightarrow> s \<in> set ss"
  by (induction es arbitrary: expired ss ok) (fastforce simp: walk_bind_Inr split: if_splits option.splits)+

lemma enumerated_from: "enumerate_claim_sinks caps tree = Inr (ss, ok) \<Longrightarrow> s \<in> set ss \<Longrightarrow>
    (\<exists>n e ok'. (n, e) \<in> set (listed (t_base tree)) \<and> session_source n e = Inr (Some s, ok')) \<or>
    (\<exists>n e ok'. (n, e) \<in> set (listed (t_agents tree)) \<and> agent_source n e = Inr (Some s, ok'))"
  by (auto simp: enumerate_claim_sinks_def walk_bind_Inr split: if_splits dest!: enumerate_entries_from [where s = s])

lemma enumerated_all:
  assumes "enumerate_claim_sinks caps tree = Inr (ss, True)"
  shows "(n, e) \<in> set (listed (t_base tree)) \<Longrightarrow> session_source n e = Inr (Some s, ok') \<Longrightarrow> s \<in> set ss"
    "(n, e) \<in> set (listed (t_agents tree)) \<Longrightarrow> agent_source n e = Inr (Some s, ok') \<Longrightarrow> s \<in> set ss"
  using assms by (auto simp: enumerate_claim_sinks_def walk_bind_Inr split: if_splits dest: enumerate_entries_all)

section \<open>A complete walk\<close>

text \<open>The files behind the sinks, by the key of the cache, and a cache that is good for them.\<close>

definition tree_good :: "nat \<Rightarrow> string \<Rightarrow> (string \<Rightarrow> folder) \<Rightarrow> fold_cache \<Rightarrow> bool" where
  "tree_good depth base files cache = (\<forall>key. \<exists>c. cache_valid depth key RECORD_FILENAME cache (files key) c)"

definition behind :: "string \<Rightarrow> (string \<Rightarrow> folder) \<Rightarrow> source \<Rightarrow> bool" where
  "behind base files s = (s_dir s = files (sink_key base s))"

lemma tree_good_read: "tree_good depth base files cache \<Longrightarrow> behind base files s \<Longrightarrow> source_ok s \<Longrightarrow>
    read_sink depth (sink_key base s) RECORD_FILENAME (s_dir s) (s_live s) cache = (a, cache') \<Longrightarrow>
    a = read_family depth RECORD_FILENAME (s_dir s) \<and> tree_good depth base files cache'"
proof -
  assume good: "tree_good depth base files cache" and b: "behind base files s" and "source_ok s"
    and r: "read_sink depth (sink_key base s) RECORD_FILENAME (s_dir s) (s_live s) cache = (a, cache')"
  let ?k = "sink_key base s"
  have rd: "read_sink depth ?k RECORD_FILENAME (s_dir s) False cache = (a, cache')"
    using r read_sink_live [of "s_live s" RECORD_FILENAME "s_dir s"] \<open>source_ok s\<close> by (simp add: source_ok_def)
  obtain c where c: "cache_valid depth ?k RECORD_FILENAME cache (s_dir s) c"
    using good b by (auto simp: tree_good_def behind_def)
  have "\<exists>c. cache_valid depth key RECORD_FILENAME cache' (files key) c" for key
  proof (cases "key = ?k")
    case True
    then show ?thesis using read_sink_exact(2) [OF c] rd b by (auto simp: behind_def)
  next
    case False
    have "map_of cache' key \<in> {None, map_of cache key}"
      using read_sink_other [OF False, of depth RECORD_FILENAME "s_dir s" False cache] rd by simp
    then show ?thesis using good unfolding tree_good_def cache_valid_def by fastforce
  qed
  then show ?thesis using read_sink_exact(1) [OF c] rd by (simp add: tree_good_def)
qed

definition events_of :: "nat \<Rightarrow> source \<Rightarrow> touch_event list" where
  "events_of depth s = the (touch_history depth RECORD_FILENAME (s_dir s))"

lemma read_sources_complete:
  "\<lbrakk>read_sources depth base expired ss cache = (Inr (rows, []), cache'); tree_good depth base files cache;
    \<forall>s \<in> set ss. behind base files s \<and> source_ok s\<rbrakk> \<Longrightarrow>
   rows = concat (map (\<lambda>s. source_rows s (read_of (events_of depth s) [])) ss) \<and>
   (\<forall>s \<in> set ss. touch_history depth RECORD_FILENAME (s_dir s) = Some (events_of depth s))"
proof (induction ss arbitrary: expired cache rows)
  case (Cons s ss)
  obtain a cache2 where rd: "read_sink depth (sink_key base s) RECORD_FILENAME (s_dir s) (s_live s) cache = (a, cache2)"
    by fastforce
  have a: "a = read_family depth RECORD_FILENAME (s_dir s)" "tree_good depth base files cache2"
    using tree_good_read [OF Cons.prems(2) _ _ rd] Cons.prems(3) by auto
  obtain r rows2 causes where r: "a = Inr r"
    "read_sources depth base (\<lambda>i. expired (Suc i)) ss cache2 = (Inr (rows2, causes), cache')"
    "(if r_degraded r then (rows2, ABORT_CAUSE_IO_ERROR # causes) else (source_rows s r @ rows2, causes)) = (rows, [])"
    using Cons.prems(1) rd by (auto split: if_splits sum.splits prod.splits)
  then have c: "\<not> r_degraded r" "causes = []" "rows = source_rows s r @ rows2" by (auto split: if_splits)
  obtain es where es: "touch_history depth RECORD_FILENAME (s_dir s) = Some es" "r = read_of es []"
    using read_family_healthy a(1) r(1) c(1) by metis
  then show ?case using Cons.IH [OF r(2) [unfolded c(2)] a(2)] Cons.prems(3) c(3) by (simp add: events_of_def)
qed simp

lemma walk_complete:
  assumes "rebuild caps depth base tree cache = (Inr x, cache')" "x_complete x" "tree_good depth base files cache"
    "\<forall>s. (\<exists>ss ok. enumerate_claim_sinks caps tree = Inr (ss, ok) \<and> s \<in> set ss) \<longrightarrow> behind base files s"
  obtains ss st where "enumerate_claim_sinks caps tree = Inr (ss, True)"
    "\<forall>s \<in> set ss. touch_history depth RECORD_FILENAME (s_dir s) = Some (events_of depth s)"
    "fold_rows (nan_order caps) (concat (map (\<lambda>s. source_rows s (read_of (events_of depth s) [])) ss)) = Inr st" "x_fold x = tidy st"
proof -
  have base: "base \<noteq> []" using assms(1,2) by (auto simp: rebuild_def)
  then obtain ss ok where en: "enumerate_claim_sinks caps tree = Inr (ss, ok)"
    using assms(1) by (auto simp: rebuild_def walk_sessions_def split: sum.splits)
  obtain rows causes where rs: "read_sources depth base (at_sink caps) ss cache = (Inr (rows, causes), cache')"
    using assms(1) base en by (auto simp: rebuild_def walk_sessions_def Let_def split: sum.splits prod.splits)
  obtain st where st: "fold_rows (nan_order caps) rows = Inr st" "x_fold x = tidy st" "ok" "causes = []"
    using assms(1,2) base en rs by (auto simp: rebuild_def walk_sessions_def Let_def walk_bind_Inr split: if_splits)
  have "source_ok s" if "s \<in> set ss" for s
    using enumerated_from [OF en that] session_source_ok agent_source_ok by blast
  then have "\<forall>s \<in> set ss. behind base files s \<and> source_ok s" using assms(4) en by blast
  from read_sources_complete [OF rs [unfolded st(4)] assms(3) this] en st(1,2) st(3) show ?thesis
    by (intro that) auto
qed

end
