(* ===== verification/Touch_Safety.thy ===== *)
theory Touch_Safety
  imports Touch_Ownership
begin

text \<open>
  Safety of the answers of a walk: what is declared free to commit is held by no other session, judged by the
  files themselves.
\<close>

section \<open>What a walk sees of a source\<close>

definition source_in :: "sessions_tree \<Rightarrow> source \<Rightarrow> bool" where
  "source_in tree s =
     ((\<exists>n e ok. (n, e) \<in> set (listed (t_base tree)) \<and> session_source n e = Inr (Some s, ok)) \<or>
      (\<exists>n e ok. (n, e) \<in> set (listed (t_agents tree)) \<and> agent_source n e = Inr (Some s, ok)))"

lemma source_row: "r \<in> set (source_rows s (read_of es [])) \<longleftrightarrow>
    (\<exists>p e. last_on p es = Some e \<and> r = \<lparr>g_event = e, g_path = p, g_sid = s_sid s, g_agent = s_agent s, g_held = held_kind es\<rparr>)"
proof -
  have "(p, e) \<in> set (claims_of es) \<longleftrightarrow> last_on p es = Some e" for p e
    using claims_of_eq [of es p] distinct_claims [of es] by (metis map_of_SomeD map_of_is_SomeI)
  then show ?thesis by (auto simp: source_rows_def read_of_def image_iff) force
qed

lemma known_held: "\<forall>k \<in> ran (map_of (held_kind es)). known_hold k"
  by (auto simp: ran_def held_kind_eq split: if_splits)

definition all_rows :: "nat \<Rightarrow> source list \<Rightarrow> row list" where
  "all_rows depth ss = concat (map (\<lambda>s. source_rows s (read_of (events_of depth s) [])) ss)"

lemma all_rows_iff: "r \<in> set (all_rows depth ss) \<longleftrightarrow>
    (\<exists>s \<in> set ss. \<exists>p e. last_on p (events_of depth s) = Some e \<and>
       r = \<lparr>g_event = e, g_path = p, g_sid = s_sid s, g_agent = s_agent s, g_held = held_kind (events_of depth s)\<rparr>)"
  by (simp add: all_rows_def source_row)

lemma all_rows_known: "\<forall>r \<in> set (all_rows depth ss). \<forall>k \<in> ran (map_of (g_held r)). known_hold k"
  using known_held by (auto simp: all_rows_iff)

text \<open>No release of the session's own is as late as the touch.\<close>

definition released_by :: "nat \<Rightarrow> sessions_tree \<Rightarrow> string \<Rightarrow> string \<Rightarrow> touch_event \<Rightarrow> bool" where
  "released_by depth tree sid p e =
     (\<exists>s e'. source_in tree s \<and> s_sid s = sid \<and> last_on p (events_of depth s) = Some e' \<and> verb e' \<noteq> VERB_TOUCH \<and>
        event_rank e \<le> event_rank e')"

definition well_founded_walk :: "nat \<Rightarrow> string \<Rightarrow> sessions_tree \<Rightarrow> (string \<Rightarrow> folder) \<Rightarrow> fold_cache \<Rightarrow> bool" where
  "well_founded_walk depth base tree files cache =
     (tree_good depth base files cache \<and> (\<forall>s. source_in tree s \<longrightarrow> behind base files s))"

text \<open>No record ends on a path with a stamp that is not a number.\<close>

definition stamps_numbered :: "nat \<Rightarrow> sessions_tree \<Rightarrow> bool" where
  "stamps_numbered depth tree =
     (\<forall>s p e. source_in tree s \<and> last_on p (events_of depth s) = Some e \<longrightarrow> stamp e \<noteq> Nan)"

lemma all_rows_numbered: "stamps_numbered depth tree \<Longrightarrow> \<forall>s \<in> set ss. source_in tree s \<Longrightarrow> numbered (all_rows depth ss)"
  by (fastforce simp: numbered_def list_all_iff all_rows_iff stamps_numbered_def)

text \<open>The rows of a complete walk, with the row of an unreleased touch and what no later row does to it.\<close>

lemma walk_row:
  assumes walk: "rebuild caps depth base tree cache = (Inr x, cache')" "x_complete x" "well_founded_walk depth base tree files cache"
    and s: "source_in tree s" "last_on p (events_of depth s) = Some e" "verb e = VERB_TOUCH"
    and num: "stamps_numbered depth tree" and kept: "\<not> released_by depth tree (s_sid s) p e"
  obtains rs st r where "fold_rows (nan_order caps) rs = Inr st" "numbered rs" "x_fold x = tidy st" "r \<in> set rs" "g_path r = p" "g_sid r = s_sid s"
    "verb (g_event r) = VERB_TOUCH" "g_held r = held_kind (events_of depth s)"
    "\<forall>q \<in> set rs. g_path q = p \<and> g_sid q = s_sid s \<and> verb (g_event q) \<noteq> VERB_TOUCH \<longrightarrow> row_rank q < row_rank r"
    "\<forall>r \<in> set rs. \<forall>k \<in> ran (map_of (g_held r)). known_hold k"
proof -
  have from_tree: "source_in tree s" if "enumerate_claim_sinks caps tree = Inr (ss, ok)" "s \<in> set ss" for ss ok s
    using enumerated_from [OF that] by (simp add: source_in_def)
  have behind: "\<forall>s. (\<exists>ss ok. enumerate_claim_sinks caps tree = Inr (ss, ok) \<and> s \<in> set ss) \<longrightarrow> behind base files s"
    using walk(3) from_tree by (auto simp: well_founded_walk_def)
  have good: "tree_good depth base files cache" using walk(3) by (simp add: well_founded_walk_def)
  obtain ss st where w: "enumerate_claim_sinks caps tree = Inr (ss, True)"
    "fold_rows (nan_order caps) (all_rows depth ss) = Inr st" "x_fold x = tidy st"
    by (rule walk_complete [OF walk(1,2) good behind], unfold all_rows_def [symmetric], blast)
  have "s \<in> set ss" using s(1) enumerated_all [OF w(1)] by (auto simp: source_in_def)
  define r where "r = \<lparr>g_event = e, g_path = p, g_sid = s_sid s, g_agent = s_agent s, g_held = held_kind (events_of depth s)\<rparr>"
  have r: "r \<in> set (all_rows depth ss)" "g_path r = p" "g_sid r = s_sid s" "verb (g_event r) = VERB_TOUCH"
    "g_held r = held_kind (events_of depth s)"
    using \<open>s \<in> set ss\<close> s(2,3) by (auto simp: r_def all_rows_iff)
  have "row_rank q < row_rank r" if q: "q \<in> set (all_rows depth ss)" "g_path q = p" "g_sid q = s_sid s" "verb (g_event q) \<noteq> VERB_TOUCH" for q
  proof -
    obtain s' e' where s': "s' \<in> set ss" "last_on p (events_of depth s') = Some e'" "s_sid s' = s_sid s" "g_event q = e'"
      using q(1-3) by (auto simp: all_rows_iff)
    then have "source_in tree s'" using from_tree [OF w(1)] by simp
    then have "\<not> event_rank e \<le> event_rank e'" using kept s' q(4) by (auto simp: released_by_def)
    then show ?thesis using s'(4) by (simp add: r_def not_le)
  qed
  then show ?thesis using that [OF w(2) all_rows_numbered [OF num] w(3) r] from_tree [OF w(1)] all_rows_known by blast
qed

lemma walk_claims:
  assumes "rebuild caps depth base tree cache = (Inr x, cache')" "x_complete x" "well_founded_walk depth base tree files cache"
    "source_in tree s" "last_on p (events_of depth s) = Some e" "verb e = VERB_TOUCH"
    "stamps_numbered depth tree" "\<not> released_by depth tree (s_sid s) p e"
  shows "s_sid s \<in> set (claimants x p)"
proof (rule walk_row [OF assms])
  fix rs st r assume w: "fold_rows (nan_order caps) rs = Inr st" "numbered rs" "x_fold x = tidy st" "r \<in> set rs" "g_path r = p" "g_sid r = s_sid s"
    "verb (g_event r) = VERB_TOUCH"
    "\<forall>q \<in> set rs. g_path q = p \<and> g_sid q = s_sid s \<and> verb (g_event q) \<noteq> VERB_TOUCH \<longrightarrow> row_rank q < row_rank r"
  have "touch_run p (s_sid s) (sort_key row_rank rs) \<noteq> []" using in_touch_run [OF w(4-8)] by auto
  then show ?thesis using fold_rows_facts(1) [OF w(1,2)] tidy_claims [OF w(1)] by (simp add: claimants_def w(3))
qed

lemma walk_blocks:
  assumes "rebuild caps depth base tree cache = (Inr x, cache')" "x_complete x" "well_founded_walk depth base tree files cache"
    "source_in tree s" "last_on p (events_of depth s) = Some e" "verb e = VERB_TOUCH"
    "stamps_numbered depth tree" "\<not> released_by depth tree (s_sid s) p e"
    and held: "map_of (held_kind (events_of depth s)) p = Some k" "kind_blocks_a_peer_commit k"
  shows "kind_blocks_a_peer_commit (hold_of x p (s_sid s))"
proof (rule walk_row [OF assms(1-8)])
  fix rs st r assume w: "fold_rows (nan_order caps) rs = Inr st" "numbered rs" "x_fold x = tidy st" "r \<in> set rs" "g_path r = p" "g_sid r = s_sid s"
    "verb (g_event r) = VERB_TOUCH" "g_held r = held_kind (events_of depth s)"
    "\<forall>q \<in> set rs. g_path q = p \<and> g_sid q = s_sid s \<and> verb (g_event q) \<noteq> VERB_TOUCH \<longrightarrow> row_rank q < row_rank r"
    "\<forall>r \<in> set rs. \<forall>k \<in> ran (map_of (g_held r)). known_hold k"
  have "map_of (g_held r) p = Some k" using held(1) w(8) by simp
  from fold_rows_blocks(2) [OF w(1,2,4-7,9) this held(2) w(10)]
  show ?thesis by (auto simp: hold_of_def w(3))
qed

text \<open>C23. When classify_paths says that a path is the session's own or unclaimed, then every record of another
  session that holds it for writing has been released by that session itself, no earlier than the touch. The
  cached folds the walk starts from are those of earlier states of the files, and no record ends on a path with a
  stamp that is not a number, which would leave the sorted rows out of order.\<close>
theorem free_path_is_released:
  assumes "rebuild caps depth base tree cache = (Inr x, cache')" "well_founded_walk depth base tree files cache"
    "classify_path me x raw \<in> {Mine, Unclaimed}" "source_in tree s" "s_sid s \<noteq> me"
    "last_on (canonicalize_relative_path raw) (events_of depth s) = Some e" "verb e = VERB_TOUCH"
    "map_of (held_kind (events_of depth s)) (canonicalize_relative_path raw) = Some k" "kind_blocks_a_peer_commit k"
    "stamps_numbered depth tree"
  shows "released_by depth tree (s_sid s) (canonicalize_relative_path raw) e"
proof (rule ccontr)
  assume kept: "\<not> released_by depth tree (s_sid s) (canonicalize_relative_path raw) e"
  have "x_complete x" using assms(3) by (auto simp: classify_path_def Let_def split: if_splits)
  from walk_claims [OF assms(1) this assms(2,4,6,7,10) kept] walk_blocks [OF assms(1) this assms(2,4,6,7,10) kept assms(8,9)]
    assms(3,5) show False
    by (auto simp: classify_path_def Let_def filter_empty_conv split: if_splits)
qed

section \<open>The parts of a commit set\<close>

lemma tidy_distinct:
  assumes "distinct (map fst (i_claims st))" shows "distinct (map fst (i_claims (tidy st)))"
proof -
  have "fst \<circ> (\<lambda>(p :: string, sids :: string list). (p, sort sids)) = fst" by auto
  then show ?thesis using assms by (simp add: tidy_def distinct_map_filter)
qed

lemma rebuild_tidy:
  assumes "rebuild caps depth base tree cache = (Inr x, cache')"
  shows "distinct (map fst (i_claims (x_fold x)))" "(p, cs) \<in> set (i_claims (x_fold x)) \<Longrightarrow> cs \<noteq> []"
proof -
  consider "x_fold x = NO_CLAIMS" | rows st where "fold_rows (nan_order caps) rows = Inr st" "x_fold x = tidy st"
    using assms by (auto simp: rebuild_def walk_sessions_def Let_def walk_bind_Inr split: if_splits sum.splits prod.splits)
  then have "distinct (map fst (i_claims (x_fold x))) \<and> ((p, cs) \<in> set (i_claims (x_fold x)) \<longrightarrow> cs \<noteq> [])"
  proof cases
    case 2
    then show ?thesis using tidy_distinct [OF fold_rows_distinct [OF 2(1)]] by (auto simp: tidy_def)
  qed (simp add: NO_CLAIMS_def)
  then show "distinct (map fst (i_claims (x_fold x)))" "(p, cs) \<in> set (i_claims (x_fold x)) \<Longrightarrow> cs \<noteq> []" by auto
qed

definition buckets :: "commit_answer \<Rightarrow> string \<Rightarrow> nat" where
  "buckets a p = length (filter id [p \<in> set (c_paths a), p \<in> set (c_read_only a), p \<in> fst ` set (c_contested a),
     p \<in> fst ` set (c_peers a), p \<in> fst ` set (c_agents a)])"

lemma commit_parts:
  fixes x sid
  defines "a \<equiv> commit_of sid x" and "cl \<equiv> i_claims (x_fold x)"
  shows "p \<in> set (c_paths a) \<longleftrightarrow> (\<exists>cs. (p, cs) \<in> set cl \<and> sole sid cs \<and> \<not> agents_only x p sid \<and> hold_of x p sid \<noteq> Some KIND_READ)"
    "p \<in> set (c_read_only a) \<longleftrightarrow> (\<exists>cs. (p, cs) \<in> set cl \<and> sole sid cs \<and> \<not> agents_only x p sid \<and> hold_of x p sid = Some KIND_READ)"
    "p \<in> fst ` set (c_contested a) \<longleftrightarrow> (\<exists>cs. (p, cs) \<in> set cl \<and> sid \<in> set cs \<and> others_on sid cs \<noteq> [])"
    "p \<in> fst ` set (c_peers a) \<longleftrightarrow> (\<exists>cs. (p, cs) \<in> set cl \<and> sid \<notin> set cs \<and> others_on sid cs \<noteq> [])"
    "p \<in> fst ` set (c_agents a) \<longleftrightarrow> (\<exists>cs. (p, cs) \<in> set cl \<and> sole sid cs \<and> agents_only x p sid)"
  by (force simp: a_def cl_def commit_of_def Let_def)+

text \<open>Every claimed path is in exactly one part of the answer.\<close>

theorem commit_partition:
  assumes "rebuild caps depth base tree cache = (Inr x, cache')" "(p, cs) \<in> set (i_claims (x_fold x))"
  shows "buckets (commit_of sid x) p = 1"
proof -
  note tidied = rebuild_tidy(1) [OF assms(1)] rebuild_tidy(2) [OF assms]
  have others: "others_on sid cs = [] \<longleftrightarrow> set cs \<subseteq> {sid}" by (auto simp: others_on_def filter_empty_conv)
  have someone: "sid \<notin> set cs \<Longrightarrow> others_on sid cs \<noteq> []" using tidied(2) others by (cases cs) auto
  have "(p, cs') \<in> set (i_claims (x_fold x)) \<longleftrightarrow> cs' = cs" for cs'
    using tidied(1) assms(2) by (metis map_of_is_SomeI option.inject)
  then have one: "(\<exists>cs'. (p, cs') \<in> set (i_claims (x_fold x)) \<and> Q cs') \<longleftrightarrow> Q cs" for Q by auto
  show ?thesis unfolding buckets_def commit_parts one
    using someone by (cases "sid \<in> set cs"; cases "others_on sid cs = []"; cases "agents_only x p sid") (auto simp: sole_def)
qed

text \<open>C24. A path that a complete walk offers to a session for committing is touched by no other session that has not
  released it itself, no earlier than the touch. As before the cached folds are those of earlier states of the
  files, and no record ends on a path with a stamp that is not a number.\<close>
theorem offered_path_is_released:
  assumes "rebuild caps depth base tree cache = (Inr x, cache')" "x_complete x" "well_founded_walk depth base tree files cache"
    "p \<in> set (c_paths (commit_of me x))" "source_in tree s" "s_sid s \<noteq> me"
    "last_on p (events_of depth s) = Some e" "verb e = VERB_TOUCH" "stamps_numbered depth tree"
  shows "released_by depth tree (s_sid s) p e"
proof (rule ccontr)
  assume kept: "\<not> released_by depth tree (s_sid s) p e"
  obtain cs where cs: "(p, cs) \<in> set (i_claims (x_fold x))" "sole me cs" using assms(4) unfolding commit_parts by blast
  then have "claimants x p = cs" using rebuild_tidy(1) [OF assms(1)] by (simp add: claimants_def entries_def)
  then show False using walk_claims [OF assms(1-3,5,7-9) kept] cs(2) assms(6)
    by (auto simp: sole_def others_on_def filter_empty_conv)
qed

end
