(* ===== verification/Touch_Index.thy ===== *)
theory Touch_Index
  imports Touch_Safety
begin

text \<open>
  The index of sink names (\<open>session/touch_record.py\<close>, from \<open>claim_index_dir\<close> to \<open>note_claim_in_index\<close>, and
  \<open>session/claim_index.py\<close>, \<open>_lookup_from_index\<close> with \<open>_begin_index\<close> and \<open>_finish_index\<close>): which sinks ever recorded
  an event of a path, kept beside the sessions and read instead of walking all of them.

  The index of one sessions directory is a record: whether its directory exists, its streams and its
  session lists by the digest of their key, the stamp \<open>COMPLETE\<close> and the token of a build. The digest
  (SHA-1 in hexadecimal) is a parameter. The memo of index files is keyed by size and time of files that only
  grow, and is not kept. The paths that the claimants hold (\<open>_fold_held\<close>) are computed by the caller on demand and
  are left out.
\<close>

section \<open>The index on disk_state\<close>

record claim_index =
  ix_made :: bool
  ix_streams :: "(string \<times> string list) list"
  ix_sids :: "(string \<times> string list) list"
  ix_stamped :: bool
  ix_token :: "string option"

type_synonym digest = "string \<Rightarrow> string"

definition NO_INDEX :: claim_index where
  "NO_INDEX = \<lparr>ix_made = False, ix_streams = [], ix_sids = [], ix_stamped = False, ix_token = None\<rparr>"

text \<open>\<open>sink_layout\<close> on the components of a normalised path: the sessions directory and the name below it.\<close>

definition sink_layout :: "string list \<Rightarrow> (string list \<times> string) option" where
  "sink_layout comps =
     (case rev comps of
        name # claimant # parent \<Rightarrow>
          if name \<noteq> RECORD_FILENAME then None
          else if claimant = [] \<or> claimant = AGENTS_SUBDIR then None
          else (case parent of
              p # grand \<Rightarrow>
                if p = AGENTS_SUBDIR then Some (rev grand, agent_sink claimant) else Some (rev parent, session_sink claimant)
            | [] \<Rightarrow> Some ([], session_sink claimant))
      | _ \<Rightarrow> None)"

text \<open>\<open>append_index_names\<close>: the names in their order, in one write.\<close>

definition append_names :: "string \<Rightarrow> string list \<Rightarrow> (string \<times> string list) list \<Rightarrow> (string \<times> string list) list" where
  "append_names d names streams = AList.update d (entries streams d @ sort names) streams"

section \<open>Recording a claim in the index\<close>

text \<open>What one process remembers to have indexed, and what the disk grants the next call: the append to the
  session list, the append to the stream, the removal of the stamp.\<close>

record indexed_memo =
  n_paths :: "(string \<times> string) list"
  n_sids :: "(string \<times> string) list"

record granted =
  ok_sid :: bool
  ok_path :: bool
  ok_remove :: bool

definition INDEXED_MAX :: nat where "INDEXED_MAX = 65536"

definition forget_indexed :: indexed_memo where
  "forget_indexed = \<lparr>n_paths = [], n_sids = []\<rparr>"

definition invalidate_claim_index :: "granted \<Rightarrow> claim_index \<Rightarrow> claim_index \<times> indexed_memo" where
  "invalidate_claim_index g ix = (if ok_remove g then ix\<lparr>ix_stamped := False\<rparr> else ix, forget_indexed)"

definition memo_size :: "indexed_memo \<Rightarrow> nat" where
  "memo_size m = length (n_paths m) + length (n_sids m)"

text \<open>The owner is the answer of \<open>attribute_sink\<close>, \<open>Inl\<close> when it raises.\<close>

definition note_claim_in_index :: "digest \<Rightarrow> granted \<Rightarrow> (string \<times> string option) option walked \<Rightarrow> string \<Rightarrow> string \<Rightarrow>
    claim_index \<times> indexed_memo \<Rightarrow> claim_index \<times> indexed_memo" where
  "note_claim_in_index dg g owner sink key st =
     (case st of (ix, m) \<Rightarrow>
        let d = dg key in
        if (d, sink) \<in> set (n_paths m) \<and> map_of (ix_streams ix) d \<noteq> None then (ix, m)
        else if \<not> ix_made ix then (ix, m)
        else (case owner of
            Inl _ \<Rightarrow> invalidate_claim_index g ix
          | Inr attributed \<Rightarrow>
              (let known = (case attributed of None \<Rightarrow> True | Some (sid, _) \<Rightarrow> (sink, sid) \<in> set (n_sids m)) in
               if \<not> known \<and> \<not> ok_sid g then invalidate_claim_index g ix
               else
                 (let ix' = (case attributed of
                               Some (sid, _) \<Rightarrow> if known then ix else ix\<lparr>ix_sids := append_names (dg sid) [sink] (ix_sids ix)\<rparr>
                             | None \<Rightarrow> ix);
                      m' = (case attributed of
                              Some (sid, _) \<Rightarrow> if known then m else m\<lparr>n_sids := (sink, sid) # n_sids m\<rparr>
                            | None \<Rightarrow> m) in
                  if \<not> ok_path g then invalidate_claim_index g ix'
                  else
                    (let m'' = (if INDEXED_MAX \<le> memo_size m' then forget_indexed else m') in
                     (ix'\<lparr>ix_streams := append_names d [sink] (ix_streams ix')\<rparr>, m''\<lparr>n_paths := (d, sink) # n_paths m''\<rparr>))))))"

section \<open>Looking a path up\<close>

text \<open>The directory behind a sink name, and \<open>attribute_sink\<close>.\<close>

definition entry_named :: "sessions_tree \<Rightarrow> string \<Rightarrow> entry" where
  "entry_named tree name =
     (let found = (\<lambda>l n. case map_of (listed l) n of None \<Rightarrow> No_Directory | Some e \<Rightarrow> e) in
      (case split_on SLASH name of
         [n, _] \<Rightarrow> found (t_base tree) n
       | [_, n, _] \<Rightarrow> found (t_agents tree) n
       | _ \<Rightarrow> No_Directory))"

definition entry_owner :: "entry \<Rightarrow> (string \<times> bool) walked" where
  "entry_owner e = (case e of Claimant dir \<Rightarrow> agent_owner_sid dir | Sealed \<Rightarrow> Inr ([], False) | No_Directory \<Rightarrow> Inr ([], True))"

definition attribute_sink :: "sessions_tree \<Rightarrow> string \<Rightarrow> ((string \<times> string option) option \<times> bool) walked" where
  "attribute_sink tree name =
     walk_bind (entry_owner (entry_named tree name)) (\<lambda>(owner, conclusive).
       (let parts = split_on SLASH name in
        if hd parts = AGENTS_SUBDIR then Inr (if owner = [] then None else Some (owner, Some (parts ! 1)), conclusive)
        else if owner \<noteq> [] \<and> owner \<noteq> hd parts then Inr (Some (owner, Some (hd parts)), conclusive)
        else Inr (Some (hd parts, None), conclusive)))"

text \<open>The state of one lookup: the folds so far, the cache, the checks of the clock made, the first cause.\<close>

record lookup_state =
  l_folds :: "(string \<times> (string \<times> string option \<times> sink_read) option) list"
  l_cache :: fold_cache
  l_tick :: nat
  l_cause :: "string option"

definition degrade :: "string \<Rightarrow> lookup_state \<Rightarrow> lookup_state" where
  "degrade cause st = st\<lparr>l_cause := (case l_cause st of None \<Rightarrow> Some cause | Some c \<Rightarrow> Some c)\<rparr>"

definition folded_as :: "string \<Rightarrow> (string \<times> string option \<times> sink_read) option \<Rightarrow> lookup_state \<Rightarrow> lookup_state" where
  "folded_as name f st = st\<lparr>l_folds := (name, f) # l_folds st\<rparr>"

definition fold_sink :: "(nat \<Rightarrow> bool) \<Rightarrow> nat \<Rightarrow> string \<Rightarrow> sessions_tree \<Rightarrow> string \<Rightarrow> lookup_state \<Rightarrow> lookup_state walked" where
  "fold_sink expired depth base tree name st =
     (if map_of (l_folds st) name \<noteq> None then Inr st
      else
        (let st1 = (folded_as name None st)\<lparr>l_tick := Suc (l_tick st)\<rparr> in
         if expired (l_tick st) then Inr (degrade ABORT_CAUSE_CAP_EXCEEDED st1)
         else walk_bind (attribute_sink tree name) (\<lambda>(owner, conclusive).
           (let st2 = (if conclusive then st1 else degrade ABORT_CAUSE_IO_ERROR st1) in
            (case owner of
               None \<Rightarrow> Inr st2
             | Some (sid, agent) \<Rightarrow>
                (case entry_named tree name of
                   Sealed \<Rightarrow> Inl Raised_Os_Error
                 | e \<Rightarrow>
                    (case read_sink depth (base @ [SLASH] @ name) RECORD_FILENAME (case e of Claimant dir \<Rightarrow> dir | _ \<Rightarrow> []) False (l_cache st2) of
                       (Inl x, _) \<Rightarrow> Inl (Raised x)
                     | (Inr r, cache) \<Rightarrow>
                         (let st3 = st2\<lparr>l_cache := cache\<rparr> in
                          Inr (if r_degraded r then degrade ABORT_CAUSE_IO_ERROR st3 else folded_as name (Some (sid, agent, r)) st3)))))))))"

text \<open>The rows of a path from the sinks its stream names.\<close>

fun lookup_rows :: "(nat \<Rightarrow> bool) \<Rightarrow> nat \<Rightarrow> string \<Rightarrow> sessions_tree \<Rightarrow> string \<Rightarrow> string list \<Rightarrow> lookup_state \<Rightarrow> (row list \<times> lookup_state) walked" where
  "lookup_rows expired depth base tree key [] st = Inr ([], st)"
| "lookup_rows expired depth base tree key (name # names) st =
     walk_bind (fold_sink expired depth base tree name st) (\<lambda>st'.
       walk_bind (lookup_rows expired depth base tree key names st') (\<lambda>(rows, st'').
         Inr ((case map_of (l_folds st') name of
                 Some (Some (sid, agent, r)) \<Rightarrow>
                   (case map_of (r_claims r) key of
                      Some e \<Rightarrow> [\<lparr>g_event = e, g_path = key, g_sid = sid, g_agent = agent, g_held = r_held r\<rparr>]
                    | None \<Rightarrow> [])
               | _ \<Rightarrow> []) @ rows, st'')))"

definition stream_of :: "digest \<Rightarrow> claim_index \<Rightarrow> string \<Rightarrow> string list" where
  "stream_of dg ix key = sort (remdups (entries (ix_streams ix) (dg key)))"

fun lookup_keys :: "(nat \<Rightarrow> bool) \<Rightarrow> nat \<Rightarrow> string \<Rightarrow> sessions_tree \<Rightarrow> digest \<Rightarrow> claim_index \<Rightarrow> string list \<Rightarrow> lookup_state \<Rightarrow>
    (row list \<times> lookup_state) walked" where
  "lookup_keys expired depth base tree dg ix [] st = Inr ([], st)"
| "lookup_keys expired depth base tree dg ix (key # keys) st =
     (let st1 = st\<lparr>l_tick := Suc (l_tick st)\<rparr> in
      if expired (l_tick st) then Inr ([], degrade ABORT_CAUSE_CAP_EXCEEDED st1)
      else walk_bind (lookup_rows expired depth base tree key (stream_of dg ix key) st1) (\<lambda>(rows, st2).
        walk_bind (lookup_keys expired depth base tree dg ix keys st2) (\<lambda>(rows', st3). Inr (rows @ rows', st3))))"

text \<open>\<open>_lookup_from_index\<close>: the state the answers are made of; \<open>None\<close> when the index does not serve the call. The
  iteration over the set of keys is in the order of the request; \<open>unsorted\<close> is the order of rows that cannot be sorted.\<close>

definition lookup_from_index :: "(nat \<Rightarrow> bool) \<Rightarrow> (row list \<Rightarrow> row list) \<Rightarrow> nat \<Rightarrow> string \<Rightarrow> sessions_tree \<Rightarrow> digest \<Rightarrow> claim_index \<Rightarrow> string list \<Rightarrow> fold_cache \<Rightarrow>
    index_state option walked" where
  "lookup_from_index expired unsorted depth base tree dg ix paths cache =
     (if \<not> ix_stamped ix then Inr None
      else
        (case walk_bind (lookup_keys expired depth base tree dg ix (remdups (map canonicalize_relative_path paths))
                 \<lparr>l_folds = [], l_cache = cache, l_tick = 0, l_cause = None\<rparr>)
               (\<lambda>(rows, st). walk_bind (fold_rows unsorted rows) (\<lambda>f.
                  Inr \<lparr>x_fold = tidy f, x_complete = (l_cause st = None), x_cause = l_cause st\<rparr>)) of
           Inl Raised_Os_Error \<Rightarrow> Inr None
         | Inl x \<Rightarrow> Inl x
         | Inr x \<Rightarrow> Inr (Some x)))"

section \<open>Building the index\<close>

text \<open>\<open>_begin_index\<close> when the file system grants it.\<close>

definition begin_index :: "string \<Rightarrow> claim_index \<times> indexed_memo" where
  "begin_index token = (NO_INDEX\<lparr>ix_made := True, ix_token := Some token\<rparr>, forget_indexed)"

text \<open>What the walk hands to \<open>on_sink\<close>: every record read cleanly, with the paths of its claims.\<close>

fun noted_sources :: "nat \<Rightarrow> string \<Rightarrow> (nat \<Rightarrow> bool) \<Rightarrow> source list \<Rightarrow> fold_cache \<Rightarrow> (source \<times> string list) list" where
  "noted_sources depth base expired [] cache = []"
| "noted_sources depth base expired (s # ss) cache =
     (if expired 0 then []
      else (case read_sink depth (sink_key base s) RECORD_FILENAME (s_dir s) (s_live s) cache of
          (Inl x, cache') \<Rightarrow> []
        | (Inr r, cache') \<Rightarrow>
            (if r_degraded r then [] else [(s, map fst (r_claims r))]) @ noted_sources depth base (\<lambda>i. expired (Suc i)) ss cache'))"

definition add_to :: "'k \<Rightarrow> 'a \<Rightarrow> ('k \<times> 'a list) list \<Rightarrow> ('k \<times> 'a list) list" where
  "add_to k x d = AList.update k (added x (entries d k)) d"

definition add_sink :: "(string \<times> string list) list \<Rightarrow> string \<times> string list \<Rightarrow> (string \<times> string list) list" where
  "add_sink d noted = foldl (\<lambda>d' key. add_to key (fst noted) d') d (snd noted)"

definition collected_names :: "(source \<times> string list) list \<Rightarrow> (string \<times> string list) list" where
  "collected_names notes = foldl add_sink [] (map (\<lambda>(s, keys). (s_sink s, keys)) notes)"

definition collected_sids :: "(source \<times> string list) list \<Rightarrow> (string \<times> string list) list" where
  "collected_sids notes = foldl (\<lambda>d (s, _). add_to (s_sid s) (s_sink s) d) [] notes"

text \<open>\<open>_unowned_agent_sinks\<close>: the records of agents whose back-pointer is absent, \<open>None\<close> when one cannot be read.\<close>

fun unowned_entries :: "nat \<Rightarrow> string \<Rightarrow> (string \<times> entry) list \<Rightarrow> fold_cache \<Rightarrow> (string \<times> string list) list option walked \<times> fold_cache" where
  "unowned_entries depth base [] cache = (Inr (Some []), cache)"
| "unowned_entries depth base ((n, e) # es) cache =
     (if e = No_Directory then unowned_entries depth base es cache
      else (case entry_owner e of
          Inl x \<Rightarrow> (Inl x, cache)
        | Inr (owner, conclusive) \<Rightarrow>
            (if \<not> conclusive then (Inr None, cache)
             else if owner \<noteq> [] then unowned_entries depth base es cache
             else
               (let dir = (case e of Claimant dir \<Rightarrow> dir | _ \<Rightarrow> []) in
                if discover_family RECORD_FILENAME dir = [] then unowned_entries depth base es cache
                else (case read_sink depth (base @ [SLASH] @ agent_sink n) RECORD_FILENAME dir False cache of
                    (Inl x, cache') \<Rightarrow> (Inl (Raised x), cache')
                  | (Inr r, cache') \<Rightarrow>
                      (if r_degraded r then (Inr None, cache')
                       else (case unowned_entries depth base es cache' of
                           (Inr (Some found), cache'') \<Rightarrow> (Inr (Some ((agent_sink n, map fst (r_claims r)) # found)), cache'')
                         | other \<Rightarrow> other)))))))"

definition unowned_agent_sinks :: "nat \<Rightarrow> string \<Rightarrow> sessions_tree \<Rightarrow> fold_cache \<Rightarrow> (string \<times> string list) list option walked \<times> fold_cache" where
  "unowned_agent_sinks depth base tree cache =
     (if t_agents tree = Refused then (Inr None, cache) else unowned_entries depth base (listed (t_agents tree)) cache)"

text \<open>\<open>_finish_index\<close> on what the disk holds by then: the streams the walk collected and those of the unowned agents,
  then the stamp, by the build whose token is still there. \<open>landing\<close> says how many appends succeed before one
  fails.\<close>

fun append_all :: "nat \<Rightarrow> (string \<times> string list) list \<Rightarrow> (string \<times> string list) list \<Rightarrow> (string \<times> string list) list \<times> nat option" where
  "append_all n [] streams = (streams, Some n)"
| "append_all 0 (x # xs) streams = (streams, None)"
| "append_all (Suc n) ((d, names) # xs) streams = append_all n xs (append_names d names streams)"

definition digested :: "digest \<Rightarrow> (string \<times> string list) list \<Rightarrow> (string \<times> string list) list" where
  "digested dg d = map (\<lambda>(k, names). (dg k, names)) d"

definition land_index :: "digest \<Rightarrow> granted \<Rightarrow> nat \<Rightarrow> string \<Rightarrow> (string \<times> string list) list \<Rightarrow> (string \<times> string list) list \<Rightarrow>
    claim_index \<Rightarrow> indexed_memo \<Rightarrow> claim_index \<times> indexed_memo" where
  "land_index dg g landing token sink_names sid_sinks ix m =
     (case append_all landing (digested dg sink_names) (ix_streams ix) of
        (streams, None) \<Rightarrow> invalidate_claim_index g (ix\<lparr>ix_streams := streams\<rparr>)
      | (streams, Some n) \<Rightarrow>
          (case append_all n (digested dg sid_sinks) (ix_sids ix) of
             (sids, None) \<Rightarrow> invalidate_claim_index g (ix\<lparr>ix_streams := streams, ix_sids := sids\<rparr>)
           | (sids, Some n') \<Rightarrow>
               (let ix' = ix\<lparr>ix_streams := streams, ix_sids := sids\<rparr> in
                if ix_token ix' \<noteq> Some token then (ix', m)
                else if n' = 0 then invalidate_claim_index g ix'
                else (ix'\<lparr>ix_stamped := True\<rparr>, m))))"

definition finish_index :: "digest \<Rightarrow> granted \<Rightarrow> nat \<Rightarrow> string \<Rightarrow> bool \<Rightarrow> (source \<times> string list) list \<Rightarrow>
    (string \<times> string list) list option walked \<Rightarrow> claim_index \<Rightarrow> indexed_memo \<Rightarrow> (claim_index \<times> indexed_memo) walked" where
  "finish_index dg g landing token walked_all notes unowned ix m =
     (if \<not> walked_all then Inr (ix, m)
      else (case unowned of
          Inl Raised_Os_Error \<Rightarrow> Inr (invalidate_claim_index g ix)
        | Inl x \<Rightarrow> Inl x
        | Inr None \<Rightarrow> Inr (ix, m)
        | Inr (Some extra) \<Rightarrow>
            Inr (land_index dg g landing token (foldl add_sink (collected_names notes) extra) (collected_sids notes) ix m)))"

text \<open>The walk of \<open>lookup\<close> that builds the index, with the index as others left it in the meantime.\<close>

definition build_index :: "digest \<Rightarrow> granted \<Rightarrow> nat \<Rightarrow> string \<Rightarrow> caps \<Rightarrow> nat \<Rightarrow> string \<Rightarrow> sessions_tree \<Rightarrow> fold_cache \<Rightarrow> claim_index \<Rightarrow>
    indexed_memo \<Rightarrow> (index_state \<times> claim_index \<times> indexed_memo) walked" where
  "build_index dg g landing token caps depth base tree cache ix m =
     (case rebuild caps depth base tree cache of
        (Inl x, _) \<Rightarrow> Inl x
      | (Inr x, cache') \<Rightarrow>
          walk_bind (enumerate_claim_sinks caps tree) (\<lambda>(ss, _).
            walk_bind (finish_index dg g landing token (x_complete x) (noted_sources depth base (at_sink caps) ss cache)
                (fst (unowned_agent_sinks depth base tree cache')) ix m) (\<lambda>(ix', m').
              Inr (x, ix', m'))))"

end
