(* ===== verification/Touch_Lookup.thy ===== *)
theory Touch_Lookup
  imports Touch_Index
begin

text \<open>
  A lookup from the index of sink names answers what a complete walk answers, when the streams of the index
  name at least the sinks that hold an event of the path; and the recording of a claim keeps that so.
\<close>

section \<open>Who claims a path, by the files\<close>

definition claim_holder :: "nat \<Rightarrow> sessions_tree \<Rightarrow> string \<Rightarrow> string \<Rightarrow> bool" where
  "claim_holder depth tree p sid =
     (\<exists>s e. source_in tree s \<and> s_sid s = sid \<and> last_on p (events_of depth s) = Some e \<and> verb e = VERB_TOUCH \<and>
        (\<forall>s' e'. source_in tree s' \<and> s_sid s' = sid \<and> last_on p (events_of depth s') = Some e' \<longrightarrow> event_rank e' \<le> event_rank e))"

lemma touch_run_iff: "touch_run p sid (sort_key row_rank rs) \<noteq> [] \<longleftrightarrow>
    (\<exists>r \<in> set (rows_on p sid rs). verb (g_event r) = VERB_TOUCH \<and> (\<forall>q \<in> set (rows_on p sid rs). row_rank q \<le> row_rank r))"
proof -
  let ?L = "sort_key row_rank (rows_on p sid rs)"
  have run: "touch_run p sid (sort_key row_rank rs) \<noteq> [] \<longleftrightarrow> rows_on p sid rs \<noteq> [] \<and> verb (g_event (last ?L)) = VERB_TOUCH"
  proof (cases ?L rule: rev_cases)
    case Nil
    then have "rows_on p sid rs = []" by (metis set_empty set_sort)
    then show ?thesis using Nil by (simp add: touch_run_def rows_on_sorted)
  next
    case (snoc ys y)
    then have "rows_on p sid rs \<noteq> []" by auto
    then show ?thesis using snoc by (simp add: touch_run_def rows_on_sorted)
  qed
  show ?thesis
  proof
    assume "touch_run p sid (sort_key row_rank rs) \<noteq> []"
    then show "\<exists>r \<in> set (rows_on p sid rs). verb (g_event r) = VERB_TOUCH \<and> (\<forall>q \<in> set (rows_on p sid rs). row_rank q \<le> row_rank r)"
      using run last_sort_key [of "rows_on p sid rs" row_rank] by blast
  next
    assume "\<exists>r \<in> set (rows_on p sid rs). verb (g_event r) = VERB_TOUCH \<and> (\<forall>q \<in> set (rows_on p sid rs). row_rank q \<le> row_rank r)"
    then obtain r where r: "r \<in> set (rows_on p sid rs)" "verb (g_event r) = VERB_TOUCH"
      "\<forall>q \<in> set (rows_on p sid rs). row_rank q \<le> row_rank r" by blast
    then have ne: "rows_on p sid rs \<noteq> []" by auto
    from last_sort_key [OF this, of row_rank] r have "row_rank (last ?L) = row_rank r" by (meson order_antisym)
    then have "verb (g_event (last ?L)) = VERB_TOUCH" using r(2) by (simp add: event_rank_def)
    then show "touch_run p sid (sort_key row_rank rs) \<noteq> []" using run ne by blast
  qed
qed

definition source_row_of :: "nat \<Rightarrow> string \<Rightarrow> source \<Rightarrow> touch_event \<Rightarrow> row" where
  "source_row_of depth p s e =
     \<lparr>g_event = e, g_path = p, g_sid = s_sid s, g_agent = s_agent s, g_held = held_kind (events_of depth s)\<rparr>"

text \<open>Rows on a path that are exactly those of the sources of the tree decide the claim by the files.\<close>

definition tree_row :: "nat \<Rightarrow> sessions_tree \<Rightarrow> string \<Rightarrow> row \<Rightarrow> bool" where
  "tree_row depth tree p r =
     (\<exists>s e. source_in tree s \<and> last_on p (events_of depth s) = Some e \<and>
        r = \<lparr>g_event = e, g_path = p, g_sid = s_sid s, g_agent = s_agent s, g_held = held_kind (events_of depth s)\<rparr>)"

lemma claimed_iff:
  assumes fold: "fold_rows u rs = Inr st" "numbered rs" "x_fold x = tidy st"
    and rows: "\<And>r. r \<in> set rs \<and> g_path r = p \<longleftrightarrow> tree_row depth tree p r"
  shows "sid \<in> set (claimants x p) \<longleftrightarrow> claim_holder depth tree p sid"
proof -
  have on: "r \<in> set (rows_on p sid rs) \<longleftrightarrow> tree_row depth tree p r \<and> g_sid r = sid" for r
    using rows by (auto simp: rows_on_def)
  have row: "tree_row depth tree p (source_row_of depth p s e)" if "source_in tree s" "last_on p (events_of depth s) = Some e" for s e
    using that by (auto simp: tree_row_def source_row_of_def)
  have "(\<exists>r \<in> set (rows_on p sid rs). verb (g_event r) = VERB_TOUCH \<and> (\<forall>q \<in> set (rows_on p sid rs). row_rank q \<le> row_rank r)) \<longleftrightarrow>
      claim_holder depth tree p sid"
  proof
    assume "\<exists>r \<in> set (rows_on p sid rs). verb (g_event r) = VERB_TOUCH \<and> (\<forall>q \<in> set (rows_on p sid rs). row_rank q \<le> row_rank r)"
    then obtain r where r: "tree_row depth tree p r" "g_sid r = sid" "verb (g_event r) = VERB_TOUCH"
      "\<forall>q \<in> set (rows_on p sid rs). row_rank q \<le> row_rank r" using on by blast
    then obtain s e where s: "source_in tree s" "last_on p (events_of depth s) = Some e" "s_sid s = sid" "g_event r = e"
      by (auto simp: tree_row_def)
    have "event_rank e' \<le> event_rank e" if "source_in tree s'" "s_sid s' = sid" "last_on p (events_of depth s') = Some e'" for s' e'
      using r(4) on [of "source_row_of depth p s' e'"] row [OF that(1,3)] that(2) s(4) by (fastforce simp: source_row_of_def)
    then show "claim_holder depth tree p sid" unfolding claim_holder_def using s r(3) by blast
  next
    assume "claim_holder depth tree p sid"
    then obtain s e where s: "source_in tree s" "s_sid s = sid" "last_on p (events_of depth s) = Some e" "verb e = VERB_TOUCH"
      "\<forall>s' e'. source_in tree s' \<and> s_sid s' = sid \<and> last_on p (events_of depth s') = Some e' \<longrightarrow> event_rank e' \<le> event_rank e"
      unfolding claim_holder_def by blast
    have in_rows: "source_row_of depth p s e \<in> set (rows_on p sid rs)"
      using on row [OF s(1,3)] s(2) by (simp add: source_row_of_def)
    have "row_rank q \<le> event_rank e" if "q \<in> set (rows_on p sid rs)" for q
      using that s(5) unfolding on tree_row_def by auto
    then show "\<exists>r \<in> set (rows_on p sid rs). verb (g_event r) = VERB_TOUCH \<and> (\<forall>q \<in> set (rows_on p sid rs). row_rank q \<le> row_rank r)"
      using in_rows s(4) by (intro bexI [of _ "source_row_of depth p s e"]) (simp_all add: source_row_of_def)
  qed
  then show ?thesis
    using fold_rows_facts(1) [OF fold(1,2), of sid p] tidy_claims [OF fold(1), of p] touch_run_iff [of p sid rs]
    by (simp add: claimants_def fold(3))
qed

lemma walk_claimed_iff:
  assumes "rebuild caps depth base tree cache = (Inr x, cache')" "x_complete x" "well_founded_walk depth base tree files cache"
    "stamps_numbered depth tree"
  shows "sid \<in> set (claimants x p) \<longleftrightarrow> claim_holder depth tree p sid"
proof -
  have from_tree: "source_in tree s" if "enumerate_claim_sinks caps tree = Inr (ss, ok)" "s \<in> set ss" for ss ok s
    using enumerated_from [OF that] by (simp add: source_in_def)
  have good: "tree_good depth base files cache"
    "\<forall>s. (\<exists>ss ok. enumerate_claim_sinks caps tree = Inr (ss, ok) \<and> s \<in> set ss) \<longrightarrow> behind base files s"
    using assms(3) from_tree by (auto simp: well_founded_walk_def)
  obtain ss st where w: "enumerate_claim_sinks caps tree = Inr (ss, True)"
    "fold_rows (nan_order caps) (all_rows depth ss) = Inr st" "x_fold x = tidy st"
    by (rule walk_complete [OF assms(1,2) good], unfold all_rows_def [symmetric], blast)
  have "s \<in> set ss \<longleftrightarrow> source_in tree s" for s
  proof
    show "s \<in> set ss \<Longrightarrow> source_in tree s" by (rule from_tree [OF w(1)])
    show "source_in tree s \<Longrightarrow> s \<in> set ss" using enumerated_all [OF w(1)] unfolding source_in_def by blast
  qed
  moreover from this have "numbered (all_rows depth ss)" using all_rows_numbered [OF assms(4)] by blast
  ultimately show ?thesis by (intro claimed_iff [OF w(2) _ w(3)]) (auto simp: all_rows_iff tree_row_def)
qed

section \<open>Sink names\<close>

definition plain_name :: "string \<Rightarrow> bool" where
  "plain_name n = (n \<noteq> [] \<and> SLASH \<notin> set n \<and> n \<noteq> AGENTS_SUBDIR)"

definition sink_name :: "string \<Rightarrow> bool" where
  "sink_name name = (\<exists>n. plain_name n \<and> (name = session_sink n \<or> name = agent_sink n))"

definition plain_tree :: "sessions_tree \<Rightarrow> bool" where
  "plain_tree tree =
     (distinct (map fst (listed (t_base tree))) \<and> distinct (map fst (listed (t_agents tree))) \<and>
      list_all (\<lambda>ne. fst ne = AGENTS_SUBDIR \<or> plain_name (fst ne)) (listed (t_base tree)) \<and>
      list_all (\<lambda>ne. plain_name (fst ne)) (listed (t_agents tree)))"

lemma split_sink: "plain_name n \<Longrightarrow> split_on SLASH (session_sink n) = [n, RECORD_FILENAME]"
  "plain_name n \<Longrightarrow> split_on SLASH (agent_sink n) = [AGENTS_SUBDIR, n, RECORD_FILENAME]"
proof -
  have parts: "split_on SLASH RECORD_FILENAME = [RECORD_FILENAME]" "SLASH \<notin> set AGENTS_SUBDIR" by code_simp+
  then show "plain_name n \<Longrightarrow> split_on SLASH (session_sink n) = [n, RECORD_FILENAME]"
    "plain_name n \<Longrightarrow> split_on SLASH (agent_sink n) = [AGENTS_SUBDIR, n, RECORD_FILENAME]"
    using split_on_break [of SLASH n] split_on_break [of SLASH AGENTS_SUBDIR]
    by (simp_all add: plain_name_def session_sink_def agent_sink_def)
qed

text \<open>The source that a sink name stands for.\<close>

definition sink_source :: "sessions_tree \<Rightarrow> string \<Rightarrow> source option" where
  "sink_source tree name =
     (case (attribute_sink tree name, entry_named tree name) of
        (Inr (Some (sid, agent), _), Claimant dir) \<Rightarrow> Some \<lparr>s_sink = name, s_sid = sid, s_agent = agent, s_dir = dir, s_live = False\<rparr>
      | (Inr (Some (sid, agent), _), No_Directory) \<Rightarrow> Some \<lparr>s_sink = name, s_sid = sid, s_agent = agent, s_dir = [], s_live = False\<rparr>
      | _ \<Rightarrow> None)"

definition same_source :: "source \<Rightarrow> source \<Rightarrow> bool" where
  "same_source s t = (s_sink s = s_sink t \<and> s_sid s = s_sid t \<and> s_agent s = s_agent t \<and> s_dir s = s_dir t)"

lemma map_of_listed: "distinct (map fst l) \<Longrightarrow> (n, e) \<in> set l \<Longrightarrow> map_of l n = Some e"
  by simp

lemma no_pointer: "dir_claim_listing dir = (surface, False, live_only) \<Longrightarrow> agent_owner_sid dir = Inr ([], True)"
  by (auto simp: dir_claim_listing_def Let_def agent_owner_sid_def)

lemma session_named:
  assumes "plain_tree tree" "plain_name n" "(n, e) \<in> set (listed (t_base tree))"
  shows "entry_named tree (session_sink n) = e"
  using assms map_of_listed [of "listed (t_base tree)" n e] by (simp add: entry_named_def split_sink plain_tree_def)

lemma agent_named:
  assumes "plain_tree tree" "plain_name n" "(n, e) \<in> set (listed (t_agents tree))"
  shows "entry_named tree (agent_sink n) = e"
  using assms map_of_listed [of "listed (t_agents tree)" n e] by (simp add: entry_named_def split_sink plain_tree_def)

lemma source_sink:
  assumes "plain_tree tree" "source_in tree s"
  shows "sink_name (s_sink s) \<and> (\<exists>t. sink_source tree (s_sink s) = Some t \<and> same_source s t)"
  using assms(2) unfolding source_in_def
proof (elim disjE exE conjE)
  fix n e ok assume n: "(n, e) \<in> set (listed (t_base tree))" "session_source n e = Inr (Some s, ok)"
  then obtain dir where dir: "e = Claimant dir" "n \<noteq> AGENTS_SUBDIR" by (auto simp: session_source_def split: if_splits entry.splits)
  then have plain: "plain_name n" using assms(1) n(1) by (auto simp: plain_tree_def list_all_iff)
  note named = session_named [OF assms(1) plain n(1)]
  have sink: "s_sink s = session_sink n" using n(2) dir by (auto simp: session_source_def walk_bind_Inr split: if_splits prod.splits)
  show ?thesis
    using n(2) dir plain named no_pointer unfolding sink
    by (auto simp: sink_name_def sink_source_def attribute_sink_def entry_owner_def split_sink session_source_def walk_bind_Inr
        same_source_def split: if_splits prod.splits)
next
  fix n e ok assume n: "(n, e) \<in> set (listed (t_agents tree))" "agent_source n e = Inr (Some s, ok)"
  then obtain dir where dir: "e = Claimant dir" by (auto simp: agent_source_def split: entry.splits)
  then have plain: "plain_name n" using assms(1) n(1) by (auto simp: plain_tree_def list_all_iff)
  note named = agent_named [OF assms(1) plain n(1)]
  have sink: "s_sink s = agent_sink n" using n(2) dir by (auto simp: agent_source_def walk_bind_Inr split: if_splits prod.splits)
  show ?thesis
    using n(2) dir plain named unfolding sink
    by (auto simp: sink_name_def sink_source_def attribute_sink_def entry_owner_def split_sink agent_source_def walk_bind_Inr
        same_source_def split: if_splits prod.splits)
qed

text \<open>What a sink name stands for is a source of the tree, unless nothing was recorded there.\<close>

lemma history_surface:
  assumes "touch_history depth RECORD_FILENAME dir = Some es" "es \<noteq> []" "dir_claim_listing dir = (surface, pointer, live_only)"
  shows surface
proof (rule ccontr)
  assume none: "\<not> surface"
  have "rotated_members RECORD_FILENAME dir = []" "map_of dir RECORD_FILENAME = None"
    using none assms(3) by (auto simp: dir_claim_listing_def Let_def rotated_members_def filter_empty_conv list_ex_iff)
  then have "discover_family RECORD_FILENAME dir = []" by (simp add: discover_family_def)
  then show False using assms(1,2) by (simp add: touch_history_def)
qed

lemma named_base: "plain_name n \<Longrightarrow> entry_named tree (session_sink n) = e \<Longrightarrow> e \<noteq> No_Directory \<Longrightarrow> (n, e) \<in> set (listed (t_base tree))"
  by (auto simp: entry_named_def split_sink split: option.splits dest: map_of_SomeD)

lemma named_agents: "plain_name n \<Longrightarrow> entry_named tree (agent_sink n) = e \<Longrightarrow> e \<noteq> No_Directory \<Longrightarrow> (n, e) \<in> set (listed (t_agents tree))"
  by (auto simp: entry_named_def split_sink split: option.splits dest: map_of_SomeD)

lemma sink_source_in:
  assumes "sink_name name" "sink_source tree name = Some t" "touch_history depth RECORD_FILENAME (s_dir t) = Some es" "es \<noteq> []"
  shows "\<exists>s. source_in tree s \<and> same_source s t"
proof -
  obtain n where n: "plain_name n" "name = session_sink n \<or> name = agent_sink n" using assms(1) by (auto simp: sink_name_def)
  have claimant: "entry_named tree name = Claimant (s_dir t)"
  proof (cases "entry_named tree name")
    case No_Directory
    then have "s_dir t = []" using assms(2) by (auto simp: sink_source_def split: sum.splits option.splits)
    then show ?thesis using assms(3,4) by (simp add: touch_history_def discover_family_def rotated_members_def)
  qed (use assms(2) in \<open>auto simp: sink_source_def split: sum.splits option.splits\<close>)
  obtain sid agent ok where found: "attribute_sink tree name = Inr (Some (sid, agent), ok)"
    and t: "\<lparr>s_sink = name, s_sid = sid, s_agent = agent, s_dir = s_dir t, s_live = False\<rparr> = t"
    using assms(2) claimant by (auto simp: sink_source_def split: sum.splits option.splits)
  have fields: "s_sid t = sid" "s_agent t = agent" "s_sink t = name"
    using arg_cong [OF t, of s_sid] arg_cong [OF t, of s_agent] arg_cong [OF t, of s_sink] by simp_all
  note att = found fields
  obtain owner ok' where owner: "agent_owner_sid (s_dir t) = Inr (owner, ok')"
    using att(1) claimant by (auto simp: attribute_sink_def entry_owner_def walk_bind_Inr)
  obtain pointer live_only where surf: "dir_claim_listing (s_dir t) = (True, pointer, live_only)"
    using history_surface [OF assms(3,4)] by (metis prod_cases3)
  show ?thesis using n(2)
  proof
    assume name: "name = session_sink n"
    have mem: "(n, Claimant (s_dir t)) \<in> set (listed (t_base tree))" using named_base [OF n(1), of tree "Claimant (s_dir t)"] claimant name by simp
    have unpointed: "\<not> pointer \<Longrightarrow> owner = []" using no_pointer surf owner by auto
    have "\<exists>s ok. session_source n (Claimant (s_dir t)) = Inr (Some s, ok) \<and> same_source s t"
      using n(1) att owner claimant surf unpointed unfolding name
      by (auto simp: session_source_def plain_name_def attribute_sink_def entry_owner_def split_sink [OF n(1)] same_source_def
          walk_bind_Inr split: if_splits)
    then show ?thesis using mem unfolding source_in_def by blast
  next
    assume name: "name = agent_sink n"
    have mem: "(n, Claimant (s_dir t)) \<in> set (listed (t_agents tree))" using named_agents [OF n(1), of tree "Claimant (s_dir t)"] claimant name by simp
    have "\<exists>s ok. agent_source n (Claimant (s_dir t)) = Inr (Some s, ok) \<and> same_source s t"
      using att owner claimant surf unfolding name
      by (auto simp: agent_source_def attribute_sink_def entry_owner_def split_sink [OF n(1)] same_source_def walk_bind_Inr split: if_splits)
    then show ?thesis using mem unfolding source_in_def by blast
  qed
qed

section \<open>The state of a lookup\<close>

definition fold_right :: "nat \<Rightarrow> sessions_tree \<Rightarrow> string \<Rightarrow> (string \<times> string option \<times> sink_read) option \<Rightarrow> bool" where
  "fold_right depth tree name f =
     (case f of
        None \<Rightarrow> sink_source tree name = None
      | Some (sid, agent, r) \<Rightarrow>
          (\<exists>t. sink_source tree name = Some t \<and> s_sid t = sid \<and> s_agent t = agent \<and>
             touch_history depth RECORD_FILENAME (s_dir t) = Some (events_of depth t) \<and> r = read_of (events_of depth t) []))"

definition lookup_ok :: "nat \<Rightarrow> string \<Rightarrow> sessions_tree \<Rightarrow> (string \<Rightarrow> folder) \<Rightarrow> lookup_state \<Rightarrow> bool" where
  "lookup_ok depth base tree files st =
     (l_cause st = None \<longrightarrow> tree_good depth base files (l_cache st) \<and>
        (\<forall>name f. map_of (l_folds st) name = Some f \<longrightarrow> fold_right depth tree name f))"

definition names_behind :: "string \<Rightarrow> sessions_tree \<Rightarrow> (string \<Rightarrow> folder) \<Rightarrow> bool" where
  "names_behind base tree files = (\<forall>name t. sink_source tree name = Some t \<longrightarrow> s_dir t = files (base @ [SLASH] @ name))"

lemma degrade_cause [simp]: "l_cause (degrade c st) \<noteq> None" "l_folds (degrade c st) = l_folds st"
  by (simp_all add: degrade_def split: option.splits)

lemma folded_fields [simp]: "l_folds (folded_as name f st) = (name, f) # l_folds st" "l_cache (folded_as name f st) = l_cache st"
  "l_cause (folded_as name f st) = l_cause st" "l_tick (folded_as name f st) = l_tick st"
  by (simp_all add: folded_as_def)

lemma read_named:
  assumes "names_behind base tree files" "sink_source tree name = Some t" "tree_good depth base files cache"
    "read_sink depth (base @ [SLASH] @ name) RECORD_FILENAME (s_dir t) False cache = (a, cache')"
  shows "a = read_family depth RECORD_FILENAME (s_dir t) \<and> tree_good depth base files cache'"
proof -
  define s where "s = t\<lparr>s_sink := name, s_live := False\<rparr>"
  have "behind base files s" "source_ok s" using assms(1,2) by (simp_all add: behind_def names_behind_def sink_key_def s_def source_ok_def)
  then show ?thesis using tree_good_read [OF assms(3), of s a cache'] assms(4) by (simp add: sink_key_def s_def)
qed

lemma fold_sink_ok:
  assumes "fold_sink expired depth base tree name st = Inr st'" "lookup_ok depth base tree files st" "names_behind base tree files"
  shows "lookup_ok depth base tree files st'" "l_cause st' = None \<Longrightarrow> l_cause st = None \<and> map_of (l_folds st') name \<noteq> None"
proof -
  have "lookup_ok depth base tree files st' \<and> (l_cause st' = None \<longrightarrow> l_cause st = None \<and> map_of (l_folds st') name \<noteq> None)"
  proof (cases "map_of (l_folds st) name")
    case (Some f)
    then show ?thesis using assms(1,2) by (simp add: fold_sink_def)
  next
    case None
    show ?thesis
    proof (cases "l_cause st' = None")
      case True
      let ?st1 = "(folded_as name None st)\<lparr>l_tick := Suc (l_tick st)\<rparr>"
      have clock: "\<not> expired (l_tick st)" using assms(1) None True by (auto simp: fold_sink_def)
      obtain owner conclusive where att: "attribute_sink tree name = Inr (owner, conclusive)"
        using assms(1) None clock by (auto simp: fold_sink_def Let_def walk_bind_Inr)
      show ?thesis
      proof (cases owner)
        case no_owner: None
        then have st': "st' = ?st1" "conclusive"
          using assms(1) None clock att True by (auto simp: fold_sink_def Let_def split: if_splits)
        have "sink_source tree name = None" using att no_owner by (simp add: sink_source_def)
        then show ?thesis using st' assms(2) by (auto simp: lookup_ok_def fold_right_def)
      next
        case (Some own)
        obtain sid agent where own: "own = (sid, agent)" by fastforce
        define dir where "dir = (case entry_named tree name of Claimant dir \<Rightarrow> dir | _ \<Rightarrow> [])"
        obtain t where t: "sink_source tree name = Some t" "s_sid t = sid" "s_agent t = agent" "s_dir t = dir"
          using assms(1) None clock att Some own
          by (auto simp: fold_sink_def Let_def sink_source_def dir_def split: entry.splits)
        obtain a cache where rd: "read_sink depth (base @ [SLASH] @ name) RECORD_FILENAME dir False (l_cache st) = (a, cache)" by fastforce
        have sealed: "entry_named tree name \<noteq> Sealed" using t(1) att Some own by (auto simp: sink_source_def)
        obtain r where r: "a = Inr r" "\<not> r_degraded r" "conclusive" "st' = folded_as name (Some (sid, agent, r)) (?st1\<lparr>l_cache := cache\<rparr>)"
          using assms(1) None clock att Some own rd sealed True
          by (auto simp: fold_sink_def Let_def dir_def degrade_def split: entry.splits sum.splits if_splits option.splits)
        have cause: "l_cause st = None" using True r(4) by simp
        then have good: "tree_good depth base files (l_cache st)" using assms(2) by (simp add: lookup_ok_def)
        have fam: "a = read_family depth RECORD_FILENAME dir" "tree_good depth base files cache"
          using read_named [OF assms(3) t(1) good, of a cache] rd t(4) by auto
        obtain es where es: "touch_history depth RECORD_FILENAME dir = Some es" "r = read_of es []"
          using read_family_healthy fam(1) r(1,2) by metis
        then have "fold_right depth tree name (Some (sid, agent, r))"
          using t by (auto simp: fold_right_def events_of_def)
        then show ?thesis using r(4) cause fam(2) assms(2) by (auto simp: lookup_ok_def)
      qed
    next
      case False
      then show ?thesis by (auto simp: lookup_ok_def)
    qed
  qed
  then show "lookup_ok depth base tree files st'" "l_cause st' = None \<Longrightarrow> l_cause st = None \<and> map_of (l_folds st') name \<noteq> None" by auto
qed

text \<open>The rows that the streams of a key give.\<close>

definition key_row :: "nat \<Rightarrow> sessions_tree \<Rightarrow> string \<Rightarrow> string set \<Rightarrow> row \<Rightarrow> bool" where
  "key_row depth tree key names r =
     (\<exists>name \<in> names. \<exists>t e. sink_source tree name = Some t \<and> touch_history depth RECORD_FILENAME (s_dir t) = Some (events_of depth t) \<and>
        last_on key (events_of depth t) = Some e \<and> r = source_row_of depth key t e)"

lemma named_rows:
  assumes "fold_right depth tree name f" "map_of (l_folds st) name = Some f"
  shows "r \<in> set (case map_of (l_folds st) name of
      Some (Some (sid, agent, rd)) \<Rightarrow>
        (case map_of (r_claims rd) key of
           Some e \<Rightarrow> [\<lparr>g_event = e, g_path = key, g_sid = sid, g_agent = agent, g_held = r_held rd\<rparr>]
         | None \<Rightarrow> [])
    | _ \<Rightarrow> []) \<longleftrightarrow> key_row depth tree key {name} r"
proof (cases f)
  case None
  then show ?thesis using assms by (simp add: fold_right_def key_row_def)
next
  case (Some g)
  obtain sid agent rd where g: "g = (sid, agent, rd)" by (cases g) auto
  then obtain t where "sink_source tree name = Some t" "s_sid t = sid" "s_agent t = agent"
    "touch_history depth RECORD_FILENAME (s_dir t) = Some (events_of depth t)" "rd = read_of (events_of depth t) []"
    using assms(1) Some by (auto simp: fold_right_def)
  then show ?thesis using assms(2) Some g
    by (auto simp: key_row_def source_row_of_def read_of_def claims_of_eq split: option.splits)
qed

lemma lookup_rows_ok:
  "\<lbrakk>lookup_rows expired depth base tree key names st = Inr (rows, st'); lookup_ok depth base tree files st;
    names_behind base tree files\<rbrakk> \<Longrightarrow>
   lookup_ok depth base tree files st' \<and>
   (l_cause st' = None \<longrightarrow> l_cause st = None \<and> (\<forall>r. r \<in> set rows \<longleftrightarrow> key_row depth tree key (set names) r))"
proof (induction names arbitrary: st rows)
  case Nil
  then show ?case by (simp add: key_row_def)
next
  case (Cons name names)
  obtain st1 rows1 where step: "fold_sink expired depth base tree name st = Inr st1"
    "lookup_rows expired depth base tree key names st1 = Inr (rows1, st')"
    "rows = (case map_of (l_folds st1) name of
        Some (Some (sid, agent, rd)) \<Rightarrow>
          (case map_of (r_claims rd) key of
             Some e \<Rightarrow> [\<lparr>g_event = e, g_path = key, g_sid = sid, g_agent = agent, g_held = r_held rd\<rparr>]
           | None \<Rightarrow> [])
      | _ \<Rightarrow> []) @ rows1"
    using Cons.prems(1) by (auto simp: walk_bind_Inr)
  note one = fold_sink_ok [OF step(1) Cons.prems(2,3)]
  note rest = Cons.IH [OF step(2) one(1) Cons.prems(3)]
  show ?case
  proof (cases "l_cause st' = None")
    case True
    then have st1: "l_cause st1 = None" using rest by blast
    then obtain f where f: "map_of (l_folds st1) name = Some f" using one(2) by auto
    then have "fold_right depth tree name f" using one(1) st1 by (simp add: lookup_ok_def)
    from named_rows [OF this f] have "r \<in> set rows \<longleftrightarrow> key_row depth tree key {name} r \<or> key_row depth tree key (set names) r" for r
      unfolding step(3) set_append Un_iff using rest True by blast
    then show ?thesis using rest one(2) [OF st1] by (auto simp: key_row_def)
  next
    case False
    then show ?thesis using rest by blast
  qed
qed

lemma set_stream [simp]: "set (stream_of dg ix key) = set (entries (ix_streams ix) (dg key))"
  by (simp add: stream_of_def)

lemma lookup_keys_ok:
  "\<lbrakk>lookup_keys expired depth base tree dg ix keys st = Inr (rows, st'); lookup_ok depth base tree files st;
    names_behind base tree files\<rbrakk> \<Longrightarrow>
   lookup_ok depth base tree files st' \<and>
   (l_cause st' = None \<longrightarrow> l_cause st = None \<and>
     (\<forall>r. r \<in> set rows \<longleftrightarrow> (\<exists>key \<in> set keys. key_row depth tree key (set (entries (ix_streams ix) (dg key))) r)))"
proof (induction keys arbitrary: st rows)
  case Nil
  then show ?case by simp
next
  case (Cons key keys)
  let ?st1 = "st\<lparr>l_tick := Suc (l_tick st)\<rparr>"
  have ok1: "lookup_ok depth base tree files ?st1" using Cons.prems(2) by (simp add: lookup_ok_def)
  show ?case
  proof (cases "expired (l_tick st)")
    case True
    then have "st' = degrade ABORT_CAUSE_CAP_EXCEEDED ?st1" using Cons.prems(1) by (simp add: Let_def)
    then show ?thesis by (auto simp: lookup_ok_def)
  next
    case False
    obtain rows1 st2 rows2 where step: "lookup_rows expired depth base tree key (stream_of dg ix key) ?st1 = Inr (rows1, st2)"
      "lookup_keys expired depth base tree dg ix keys st2 = Inr (rows2, st')" "rows = rows1 @ rows2"
      using Cons.prems(1) False by (auto simp: walk_bind_Inr Let_def)
    note one = lookup_rows_ok [OF step(1) ok1 Cons.prems(3)]
    note rest = Cons.IH [OF step(2) _ Cons.prems(3)]
    show ?thesis using one rest step(3) by auto
  qed
qed

section \<open>The index and the walk agree\<close>

text \<open>The index names, for a path, at least the sinks that hold an event of it.\<close>

definition covers :: "nat \<Rightarrow> sessions_tree \<Rightarrow> digest \<Rightarrow> claim_index \<Rightarrow> string \<Rightarrow> bool" where
  "covers depth tree dg ix p =
     (\<forall>s. source_in tree s \<and> last_on p (events_of depth s) \<noteq> None \<longrightarrow> s_sink s \<in> set (entries (ix_streams ix) (dg p)))"

lemma key_row_path: "key_row depth tree key names r \<Longrightarrow> g_path r = key"
  by (auto simp: key_row_def source_row_of_def)

lemma key_row_in_tree:
  assumes "key_row depth tree p (set names) r" "list_all sink_name names"
  shows "tree_row depth tree p r"
proof -
  obtain name t e where t: "name \<in> set names" "sink_source tree name = Some t"
    "touch_history depth RECORD_FILENAME (s_dir t) = Some (events_of depth t)" "last_on p (events_of depth t) = Some e" "r = source_row_of depth p t e"
    using assms(1) by (auto simp: key_row_def)
  then have "events_of depth t \<noteq> []" "sink_name name" using assms(2) by (auto simp: list_all_iff)
  then obtain s where s: "source_in tree s" "same_source s t" using sink_source_in [OF _ t(2,3)] by blast
  then have "events_of depth s = events_of depth t" by (simp add: events_of_def same_source_def)
  moreover from this s(2) t(5) have "r = source_row_of depth p s e" by (simp add: source_row_of_def same_source_def)
  ultimately show ?thesis using s(1) t(4) unfolding tree_row_def source_row_of_def by metis
qed

lemma tree_row_numbered: "tree_row depth tree p r \<Longrightarrow> stamps_numbered depth tree \<Longrightarrow> stamp (g_event r) \<noteq> Nan"
  by (auto simp: tree_row_def stamps_numbered_def)

text \<open>The streams of the paths asked for name sinks.\<close>

definition streams_named :: "digest \<Rightarrow> claim_index \<Rightarrow> string list \<Rightarrow> bool" where
  "streams_named dg ix paths =
     list_all (\<lambda>q. list_all sink_name (entries (ix_streams ix) (dg (canonicalize_relative_path q)))) paths"

lemma index_claimed_iff:
  assumes "lookup_from_index expired unsorted depth base tree dg ix paths cache = Inr (Some y)" "x_complete y"
    "p \<in> canonicalize_relative_path ` set paths" "plain_tree tree" "tree_good depth base files cache" "names_behind base tree files"
    "streams_named dg ix paths" "covers depth tree dg ix p"
    and num: "stamps_numbered depth tree" and healthy: "\<forall>s. source_in tree s \<longrightarrow> touch_history depth RECORD_FILENAME (s_dir s) = Some (events_of depth s)"
  shows "sid \<in> set (claimants y p) \<longleftrightarrow> claim_holder depth tree p sid"
proof -
  let ?keys = "remdups (map canonicalize_relative_path paths)"
  let ?st = "\<lparr>l_folds = [], l_cache = cache, l_tick = 0, l_cause = None\<rparr>"
  obtain rows st f where l: "lookup_keys expired depth base tree dg ix ?keys ?st = Inr (rows, st)" "fold_rows unsorted rows = Inr f"
    "x_fold y = tidy f" "x_complete y = (l_cause st = None)"
    using assms(1) by (auto simp: lookup_from_index_def walk_bind_Inr split: if_splits sum.splits walk_error.splits prod.splits)
  have "lookup_ok depth base tree files ?st" using assms(5) by (simp add: lookup_ok_def)
  from lookup_keys_ok [OF l(1) this assms(6)] assms(2) l(4)
  have rows: "r \<in> set rows \<longleftrightarrow> (\<exists>key \<in> set ?keys. key_row depth tree key (set (entries (ix_streams ix) (dg key))) r)" for r
    by simp
  have key: "p \<in> set ?keys" using assms(3) by auto
  have named: "list_all sink_name (entries (ix_streams ix) (dg q))" if "q \<in> set ?keys" for q
    using that assms(7) by (auto simp: streams_named_def list_all_iff)
  have "stamp (g_event r) \<noteq> Nan" if "r \<in> set rows" for r
    using that rows [of r] key_row_in_tree named tree_row_numbered num by metis
  then have numbered: "numbered rows" by (simp add: numbered_def list_all_iff)
  have "r \<in> set rows \<and> g_path r = p \<longleftrightarrow> key_row depth tree p (set (entries (ix_streams ix) (dg p))) r" for r
    using rows [of r] key key_row_path [of depth tree _ _ r] by blast
  moreover have "key_row depth tree p (set (entries (ix_streams ix) (dg p))) r \<longleftrightarrow> tree_row depth tree p r" for r
  proof
    assume "key_row depth tree p (set (entries (ix_streams ix) (dg p))) r"
    then show "tree_row depth tree p r" using key_row_in_tree named key by blast
  next
    assume "tree_row depth tree p r"
    then obtain s e where s: "source_in tree s" "last_on p (events_of depth s) = Some e" "r = source_row_of depth p s e"
      by (auto simp: tree_row_def source_row_of_def)
    obtain t where t: "sink_source tree (s_sink s) = Some t" "same_source s t" using source_sink [OF assms(4) s(1)] by blast
    have "s_sink s \<in> set (entries (ix_streams ix) (dg p))" using assms(8) s(1,2) by (auto simp: covers_def)
    moreover have "events_of depth s = events_of depth t" using t(2) by (simp add: events_of_def same_source_def)
    moreover from this s(3) t(2) have "r = source_row_of depth p t e" by (simp add: source_row_of_def same_source_def)
    moreover have "touch_history depth RECORD_FILENAME (s_dir t) = Some (events_of depth t)"
      using healthy s(1) t(2) \<open>events_of depth s = events_of depth t\<close> unfolding same_source_def by metis
    ultimately show "key_row depth tree p (set (entries (ix_streams ix) (dg p))) r"
      using s(2) t(1) unfolding key_row_def by metis
  qed
  ultimately show ?thesis by (intro claimed_iff [OF l(2) numbered l(3)]) blast
qed

end
