(* ===== verification/Touch_Serve.thy ===== *)
theory Touch_Serve
  imports Touch_Lookup
begin

text \<open>
  The index of sink names stays usable: a build from a complete walk names, under every path, the sinks that
  hold an event of it, and recording a claim keeps that so or takes the stamp away. So a lookup from the index
  answers what a complete walk answers.
\<close>

section \<open>The streams grow\<close>

lemma entries_add_to [simp]: "x \<in> set (entries (add_to k y d) j) \<longleftrightarrow> x \<in> set (entries d j) \<or> (j = k \<and> x = y)"
  by (auto simp: add_to_def entries_def update_conv' added_def)

lemma entries_append_names [simp]: "x \<in> set (entries (append_names d names st) j) \<longleftrightarrow> x \<in> set (entries st j) \<or> (j = d \<and> x \<in> set names)"
  by (auto simp: append_names_def entries_def update_conv')

lemma entries_add_keys: "x \<in> set (entries (foldl (\<lambda>d key. add_to key n d) d keys) j) \<longleftrightarrow>
    x \<in> set (entries d j) \<or> (x = n \<and> j \<in> set keys)"
  by (induction keys arbitrary: d) auto

lemma entries_add_sinks: "x \<in> set (entries (foldl add_sink d noted) j) \<longleftrightarrow>
    x \<in> set (entries d j) \<or> (\<exists>keys. (x, keys) \<in> set noted \<and> j \<in> set keys)"
proof (induction noted arbitrary: d)
  case (Cons nk noted)
  then show ?case by (cases nk) (auto simp: add_sink_def entries_add_keys)
qed simp

lemma append_all_grows: "x \<in> set (entries st j) \<Longrightarrow> x \<in> set (entries (fst (append_all n xs st)) j)"
  by (induction n xs st rule: append_all.induct) auto

lemma append_all_lands: "append_all n xs st = (st', Some n') \<Longrightarrow> (d, names) \<in> set xs \<Longrightarrow> x \<in> set names \<Longrightarrow> x \<in> set (entries st' d)"
proof (induction n xs st arbitrary: st' n' rule: append_all.induct)
  case (3 n d' names' xs st)
  then show ?case using append_all_grows [of x "append_names d' names' st" d n xs] by auto
qed auto

lemma entries_member: "x \<in> set (entries d k) \<Longrightarrow> \<exists>names. (k, names) \<in> set d \<and> x \<in> set names"
  by (cases "map_of d k") (auto simp: entries_def dest: map_of_SomeD)

lemma digested_member: "x \<in> set (entries d k) \<Longrightarrow> \<exists>names. (dg k, names) \<in> set (digested dg d) \<and> x \<in> set names"
  using entries_member by (fastforce simp: digested_def)

section \<open>An index that serves\<close>

text \<open>A stamped index names, under every path, the sinks that hold an event of it.\<close>

definition serves :: "nat \<Rightarrow> sessions_tree \<Rightarrow> digest \<Rightarrow> claim_index \<Rightarrow> bool" where
  "serves depth tree dg ix = (ix_stamped ix \<longrightarrow> (\<forall>p. covers depth tree dg ix p))"

lemma covers_grows: "covers depth tree dg ix p \<Longrightarrow> (\<And>x d. x \<in> set (entries (ix_streams ix) d) \<Longrightarrow> x \<in> set (entries (ix_streams ix') d)) \<Longrightarrow>
    covers depth tree dg ix' p"
  by (auto simp: covers_def)

lemma land_grows:
  assumes "land_index dg g landing token names sids ix m = (ix', m')" "x \<in> set (entries (ix_streams ix) d)"
  shows "x \<in> set (entries (ix_streams ix') d)"
proof -
  have "x \<in> set (entries (fst (append_all landing (digested dg names) (ix_streams ix))) d)" using append_all_grows assms(2) by blast
  then show ?thesis using assms(1)
    by (auto simp: land_index_def invalidate_claim_index_def Let_def split: prod.splits option.splits if_splits)
qed

lemma land_stamps:
  assumes "land_index dg g landing token names sids ix m = (ix', m')" "ix_stamped ix'"
  shows "ix_stamped ix \<or> (\<forall>k x. x \<in> set (entries names k) \<longrightarrow> x \<in> set (entries (ix_streams ix') (dg k)))"
proof (cases "append_all landing (digested dg names) (ix_streams ix)")
  case (Pair streams n)
  show ?thesis
  proof (cases n)
    case None
    then show ?thesis using assms Pair by (auto simp: land_index_def invalidate_claim_index_def split: if_splits)
  next
    case (Some n)
    then have "ix_streams ix' = streams"
      using assms Pair by (auto simp: land_index_def invalidate_claim_index_def Let_def split: prod.splits option.splits if_splits)
    moreover have "x \<in> set (entries streams (dg k))" if "x \<in> set (entries names k)" for x k
      using digested_member [OF that, of dg] append_all_lands [OF Pair [unfolded Some]] by blast
    ultimately show ?thesis by simp
  qed
qed

lemma noted_complete:
  "\<lbrakk>read_sources depth base expired ss cache = (Inr (rows, []), cache'); tree_good depth base files cache;
    \<forall>s \<in> set ss. behind base files s \<and> source_ok s; s \<in> set ss; last_on p (events_of depth s) \<noteq> None\<rbrakk> \<Longrightarrow>
   \<exists>keys. (s, keys) \<in> set (noted_sources depth base expired ss cache) \<and> p \<in> set keys"
proof (induction ss arbitrary: expired cache rows)
  case (Cons t ss)
  obtain a cache2 where rd: "read_sink depth (sink_key base t) RECORD_FILENAME (s_dir t) (s_live t) cache = (a, cache2)"
    by fastforce
  have a: "a = read_family depth RECORD_FILENAME (s_dir t)" "tree_good depth base files cache2"
    using tree_good_read [OF Cons.prems(2) _ _ rd] Cons.prems(3) by auto
  obtain r rows2 causes where r: "a = Inr r" "\<not> expired 0"
    "read_sources depth base (\<lambda>i. expired (Suc i)) ss cache2 = (Inr (rows2, causes), cache')"
    "(if r_degraded r then (rows2, ABORT_CAUSE_IO_ERROR # causes) else (source_rows t r @ rows2, causes)) = (rows, [])"
    using Cons.prems(1) rd by (auto split: if_splits sum.splits prod.splits)
  then have c: "\<not> r_degraded r" "causes = []" by (auto split: if_splits)
  obtain es where es: "touch_history depth RECORD_FILENAME (s_dir t) = Some es" "r = read_of es []"
    using read_family_healthy a(1) r(1) c(1) by metis
  have noted: "noted_sources depth base expired (t # ss) cache =
      (t, map fst (r_claims r)) # noted_sources depth base (\<lambda>i. expired (Suc i)) ss cache2"
    using rd r(1,2) c(1) by simp
  show ?case
  proof (cases "s = t")
    case True
    then have "last_on p es \<noteq> None" using Cons.prems(5) es(1) by (simp add: events_of_def)
    then have "p \<in> fst ` set (claims_of es)" using claims_of_eq [of es p] map_of_eq_None_iff [of "claims_of es" p] by metis
    then have "p \<in> set (map fst (r_claims r))" using es(2) by (simp add: read_of_def)
    then show ?thesis using True unfolding noted by (meson list.set_intros(1))
  next
    case False
    then have "\<exists>keys. (s, keys) \<in> set (noted_sources depth base (\<lambda>i. expired (Suc i)) ss cache2) \<and> p \<in> set keys"
      using Cons.IH [OF r(3) [unfolded c(2)] a(2)] Cons.prems(3-5) by auto
    then show ?thesis unfolding noted by auto
  qed
qed simp

section \<open>A build\<close>

lemma complete_reads:
  assumes "rebuild caps depth base tree cache = (Inr x, cache')" "x_complete x" "well_founded_walk depth base tree files cache"
  obtains ss rows where "enumerate_claim_sinks caps tree = Inr (ss, True)"
    "read_sources depth base (at_sink caps) ss cache = (Inr (rows, []), cache')"
    "\<forall>s. s \<in> set ss \<longleftrightarrow> source_in tree s" "\<forall>s \<in> set ss. behind base files s \<and> source_ok s"
proof -
  have base: "base \<noteq> []" using assms(1,2) by (auto simp: rebuild_def)
  then obtain ss ok where en: "enumerate_claim_sinks caps tree = Inr (ss, ok)"
    using assms(1) by (auto simp: rebuild_def walk_sessions_def split: sum.splits)
  obtain rows causes where rs: "read_sources depth base (at_sink caps) ss cache = (Inr (rows, causes), cache')"
    using assms(1) base en by (auto simp: rebuild_def walk_sessions_def Let_def split: sum.splits prod.splits)
  then have whole: "ok" "causes = []"
    using assms(1,2) base en by (auto simp: rebuild_def walk_sessions_def Let_def walk_bind_Inr split: if_splits)
  have en': "enumerate_claim_sinks caps tree = Inr (ss, True)" using en whole(1) by simp
  have all: "s \<in> set ss \<longleftrightarrow> source_in tree s" for s
  proof
    show "s \<in> set ss \<Longrightarrow> source_in tree s" using enumerated_from [OF en] by (simp add: source_in_def)
    show "source_in tree s \<Longrightarrow> s \<in> set ss" using enumerated_all [OF en'] unfolding source_in_def by blast
  qed
  have "source_ok s" if "s \<in> set ss" for s
    using enumerated_from [OF en that] session_source_ok agent_source_ok by blast
  then show ?thesis using en' rs whole all assms(3) by (intro that) (auto simp: well_founded_walk_def)
qed

text \<open>C27. a build keeps an index that serves, and makes one: whatever stood on disk when the streams were written
  (an empty index, or one others have written to meanwhile), after a build from a walk over healthy records a
  stamped index names, under every path, every sink that holds an event of it.\<close>

theorem built_index_serves:
  assumes "build_index dg g landing token caps depth base tree cache ix m = Inr (x, ix', m')"
    "well_founded_walk depth base tree files cache" "serves depth tree dg ix"
  shows "serves depth tree dg ix'"
proof -
  obtain cache' where walk: "rebuild caps depth base tree cache = (Inr x, cache')"
    using assms(1) by (auto simp: build_index_def walk_bind_Inr split: prod.splits sum.splits)
  obtain ss ok where en: "enumerate_claim_sinks caps tree = Inr (ss, ok)"
    using assms(1) walk by (auto simp: build_index_def walk_bind_Inr)
  let ?notes = "noted_sources depth base (at_sink caps) ss cache"
  have fin: "finish_index dg g landing token (x_complete x) ?notes (fst (unowned_agent_sinks depth base tree cache')) ix m = Inr (ix', m')"
    using assms(1) walk en by (simp add: build_index_def walk_bind_Inr)
  show ?thesis
  proof (cases "ix' = ix \<or> \<not> ix_stamped ix'")
    case False
    then obtain extra where l: "x_complete x"
      "land_index dg g landing token (foldl add_sink (collected_names ?notes) extra) (collected_sids ?notes) ix m = (ix', m')"
      using fin by (auto simp: finish_index_def invalidate_claim_index_def split: if_splits sum.splits walk_error.splits option.splits)
    obtain ss' rows' where whole: "enumerate_claim_sinks caps tree = Inr (ss', True)"
      "read_sources depth base (at_sink caps) ss' cache = (Inr (rows', []), cache')"
      "\<forall>s. s \<in> set ss' \<longleftrightarrow> source_in tree s" "\<forall>s \<in> set ss'. behind base files s \<and> source_ok s"
      using complete_reads [OF walk l(1) assms(2)] by metis
    then obtain rows where reads: "read_sources depth base (at_sink caps) ss cache = (Inr (rows, []), cache')"
      "\<forall>s. s \<in> set ss \<longleftrightarrow> source_in tree s" "\<forall>s \<in> set ss. behind base files s \<and> source_ok s"
      using en by auto
    have "covers depth tree dg ix' p" for p
    proof (cases "ix_stamped ix")
      case True
      then show ?thesis using assms(3) covers_grows land_grows [OF l(2)] unfolding serves_def by metis
    next
      case False
      have "s_sink s \<in> set (entries (ix_streams ix') (dg p))" if "source_in tree s" and ev: "last_on p (events_of depth s) \<noteq> None" for s
      proof -
        have good: "tree_good depth base files cache" using assms(2) by (simp add: well_founded_walk_def)
        have mem: "s \<in> set ss" using reads(2) that(1) by blast
        obtain keys where k: "(s, keys) \<in> set ?notes" "p \<in> set keys"
          using noted_complete [OF reads(1) good reads(3) mem ev] by (elim exE conjE)
        have "s_sink s \<in> set (entries (foldl add_sink (collected_names ?notes) extra) p)"
          using k by (force simp: entries_add_sinks collected_names_def)
        then show ?thesis using land_stamps [OF l(2)] False \<open>\<not> (ix' = ix \<or> \<not> ix_stamped ix')\<close> by blast
      qed
      then show ?thesis by (simp add: covers_def)
    qed
    then show ?thesis by (simp add: serves_def)
  qed (use assms(3) in \<open>auto simp: serves_def\<close>)
qed

section \<open>Recording a claim\<close>

text \<open>What the process remembers to have indexed is there.\<close>

definition memo_good :: "claim_index \<Rightarrow> indexed_memo \<Rightarrow> bool" where
  "memo_good ix m = (\<forall>(d, sink) \<in> set (n_paths m). sink \<in> set (entries (ix_streams ix) d))"

text \<open>The tree after an event on a path was appended to a sink.\<close>

definition one_more :: "nat \<Rightarrow> sessions_tree \<Rightarrow> sessions_tree \<Rightarrow> string \<Rightarrow> string \<Rightarrow> bool" where
  "one_more depth tree tree' sink key =
     (\<forall>s' p. source_in tree' s' \<and> last_on p (events_of depth s') \<noteq> None \<longrightarrow>
        (s_sink s' = sink \<and> p = key) \<or> (\<exists>s. source_in tree s \<and> s_sink s = s_sink s' \<and> last_on p (events_of depth s) \<noteq> None))"

lemma note_cases:
  assumes "note_claim_in_index dg g owner sink key (ix, m) = (ix', m')"
  obtains (Known) "ix' = ix" "m' = m" "(dg key, sink) \<in> set (n_paths m)"
    | (Unmade) "ix' = ix" "m' = m" "\<not> ix_made ix"
    | (Dropped) "ix_streams ix' = ix_streams ix" "ix_stamped ix' \<longrightarrow> \<not> ok_remove g" "n_paths m' = []"
    | (Appended) "ix_streams ix' = append_names (dg key) [sink] (ix_streams ix)" "ix_stamped ix' = ix_stamped ix"
        "set (n_paths m') \<subseteq> insert (dg key, sink) (set (n_paths m))"
  using assms
  by (auto simp: note_claim_in_index_def Let_def invalidate_claim_index_def forget_indexed_def subset_insertI split: if_splits sum.splits option.splits)

text \<open>C26. recording a claim keeps an index that serves: after an event on a path was appended to a sink, the index
  that the writer leaves either names the sink under the path or has lost its stamp, wherever the stamp can be
  removed; and what the process remembers to have indexed is there.\<close>

theorem noted_claim_serves:
  assumes "note_claim_in_index dg g owner sink key (ix, m) = (ix', m')" "serves depth tree dg ix" "memo_good ix m"
    "ix_stamped ix \<longrightarrow> ix_made ix" "ok_remove g" "one_more depth tree tree' sink key"
  shows "serves depth tree' dg ix' \<and> memo_good ix' m'"
proof -
  have serve: "serves depth tree' dg ix'"
    if named: "ix_stamped ix' \<longrightarrow> sink \<in> set (entries (ix_streams ix') (dg key)) \<and> ix_stamped ix"
      and grows: "\<And>x d. x \<in> set (entries (ix_streams ix) d) \<Longrightarrow> x \<in> set (entries (ix_streams ix') d)"
    using assms(2,6) named grows unfolding serves_def covers_def one_more_def by metis
  show ?thesis using assms(1)
  proof (cases rule: note_cases)
    case Known
    then show ?thesis using serve assms(3) by (auto simp: memo_good_def)
  next
    case Unmade
    then show ?thesis using serve assms(3,4) by auto
  next
    case Dropped
    then show ?thesis using serve assms(5) by (auto simp: memo_good_def)
  next
    case Appended
    then show ?thesis using serve assms(3) by (auto simp: memo_good_def)
  qed
qed

section \<open>The index and the walk\<close>

text \<open>The files of a tree by the keys of the cache of folds.\<close>

definition files_of :: "string \<Rightarrow> sessions_tree \<Rightarrow> string \<Rightarrow> folder" where
  "files_of base tree key = (case sink_source tree (drop (Suc (length base)) key) of None \<Rightarrow> [] | Some t \<Rightarrow> s_dir t)"

lemma files_of_names: "names_behind base tree (files_of base tree)"
  by (simp add: names_behind_def files_of_def)

lemma files_of_sources:
  assumes "plain_tree tree" "source_in tree s"
  shows "behind base (files_of base tree) s"
proof -
  obtain t where "sink_source tree (s_sink s) = Some t" "same_source s t" using source_sink [OF assms] by blast
  then show ?thesis by (simp add: behind_def sink_key_def files_of_def same_source_def)
qed

text \<open>C25. The index answers what the walk answers. Where a stamped index serves, its streams of the paths asked for
  name sinks, the directories have plain distinct names, the caches hold folds of earlier states of the files, and
  no record ends on a path with a stamp that is not a number, a complete lookup from the index and a complete walk
  over the same records find the same claimants of every path asked for.\<close>

theorem index_answers_as_walk:
  assumes "rebuild caps depth base tree cache = (Inr x, cache')" "x_complete x" "tree_good depth base (files_of base tree) cache"
    "lookup_from_index expired unsorted depth base tree dg ix paths warm = Inr (Some y)" "x_complete y" "tree_good depth base (files_of base tree) warm"
    "p \<in> canonicalize_relative_path ` set paths" "serves depth tree dg ix" "plain_tree tree"
    "streams_named dg ix paths" "stamps_numbered depth tree"
  shows "set (claimants y p) = set (claimants x p)"
proof -
  have wf: "well_founded_walk depth base tree (files_of base tree) cache"
    using assms(3) files_of_sources [OF assms(9)] by (simp add: well_founded_walk_def)
  have "ix_stamped ix" using assms(4) by (simp add: lookup_from_index_def split: if_splits)
  then have cov: "covers depth tree dg ix p" using assms(8) by (simp add: serves_def)
  obtain ss rows where reads: "read_sources depth base (at_sink caps) ss cache = (Inr (rows, []), cache')"
    "\<forall>s. s \<in> set ss \<longleftrightarrow> source_in tree s" "\<forall>s \<in> set ss. behind base (files_of base tree) s \<and> source_ok s"
    using complete_reads [OF assms(1,2) wf] by metis
  then have healthy: "\<forall>s. source_in tree s \<longrightarrow> touch_history depth RECORD_FILENAME (s_dir s) = Some (events_of depth s)"
    using read_sources_complete [OF reads(1) assms(3) reads(3)] by simp
  have "sid \<in> set (claimants y p) \<longleftrightarrow> claim_holder depth tree p sid" for sid
    by (rule index_claimed_iff [OF assms(4,5,7,9,6) files_of_names assms(10) cov assms(11) healthy])
  then show ?thesis using walk_claimed_iff [OF assms(1,2) wf assms(11)] by blast
qed

section \<open>A memo that outlives a reset\<close>

text \<open>A process that indexed a sink before another process built the index anew takes the file of another sink for
  its own note: the sink stays out of an index that is stamped.\<close>

lemma stale_memo_skips:
  assumes "(dg key, sink) \<in> set (n_paths m)" "map_of (ix_streams ix) (dg key) = Some names" "sink \<notin> set names" "ix_stamped ix"
  shows "note_claim_in_index dg g owner sink key (ix, m) = (ix, m)" "sink \<notin> set (entries (ix_streams ix) (dg key))"
  using assms by (simp_all add: note_claim_in_index_def Let_def entries_def)

end
