(* ===== verification/Touch_Claims.thy ===== *)
theory Touch_Claims
  imports Touch_Safety
begin

text \<open>
  The properties of the record of touched files: one line, a torn file, the exceptions of a read, compaction,
  appends, the cache, the projection of live claims, and the newest event of a session.
\<close>

section \<open>Lines\<close>

text \<open>C30. A line that the encoder wrote is read back as the event it was made of, with the path in its canonical
  form, is one complete line of a file whatever follows, and stays under the bound of an atomic write.\<close>
theorem touch_line_roundtrip:
  assumes "encode_line absolute_ok e = Inr l" "readable_event e"
  shows "decode_line (Suc d) l = Inr (e\<lparr>schema_version := SCHEMA_VERSION, path := canonicalize_relative_path (path e)\<rparr>) \<and>
    iter_complete_lines (l @ others) = l # iter_complete_lines others \<and> length l < MAX_ENCODED_LINE_LEN"
  using line_roundtrip_eq [OF assms] iter_lines_Cons [OF encoded_plain [OF assms]] encode_line_Inr(4) [OF assms(1)]
  by simp

text \<open>C36. Whatever line is decoded, the event has a known verb and kind, a session and a path.\<close>
theorem decoded_event_typed:
  assumes "decode_line depth l = Inr e"
  shows "verb e \<in> set VALID_VERBS \<and> session_id e \<noteq> [] \<and> path e \<noteq> [] \<and> kind e \<in> set (None # map Some VALID_KINDS)"
proof -
  obtain rec rst where rec: "event_of_fields rec = Inr e"
    using assms by (auto simp: decode_line_def split: if_splits scanned_text.splits jval.splits)
  have known: "known_value ks v = Inr s \<Longrightarrow> s \<in> set ks" for ks v s by (cases v) (auto split: if_splits)
  have nonempty: "nonempty_value v = Inr s \<Longrightarrow> s \<noteq> []" for v s by (cases v) (auto split: if_splits)
  have optional: "known_or_null ks v = Inr k \<Longrightarrow> k \<in> set (None # map Some ks)" for ks v k
    using known by (fastforce simp: known_or_null_def decode_bind_Inr split: if_splits)
  from rec show ?thesis
    using known nonempty optional by (fastforce simp: event_of_fields_def decode_bind_Inr)
qed

section \<open>Torn and damaged files\<close>

text \<open>C32. However a readable record is cut, a reader of the cut file sees a prefix of its events, and the events it
  misses are those of the lines after the last line break before the cut.\<close>
theorem torn_record_is_prefix:
  assumes "decode_lines depth (iter_complete_lines raw) = Inr (es, 0)"
  shows "\<exists>k. decode_lines depth (iter_complete_lines (take n raw)) = Inr (take k es, 0) \<and>
    decode_lines depth (iter_complete_lines (drop (consumed (take n raw)) raw)) = Inr (drop k es, 0)"
proof -
  define c where "c = consumed (take n raw)"
  have "c \<le> n" using consumed_facts(1) [of "take n raw"] by (simp add: c_def)
  then have cut: "take c (take n raw) = take c raw" by (simp add: min_def)
  have "iter_complete_lines raw = iter_complete_lines (take c raw) @ iter_complete_lines (drop c raw)"
    using iter_lines_append [of "take c raw" "drop c raw"] consumed_facts(2) [of "take n raw"] cut by (simp add: c_def)
  then obtain as bs where "decode_lines depth (iter_complete_lines (take c raw)) = Inr (as, 0)"
    "decode_lines depth (iter_complete_lines (drop c raw)) = Inr (bs, 0)" "es = as @ bs"
    using assms by (auto simp: decode_lines_append decode_bind_Inr)
  moreover have "iter_complete_lines (take n raw) = iter_complete_lines (take c raw)"
    using iter_lines_prefix [of "take n raw"] cut by (simp add: c_def)
  ultimately show ?thesis by (intro exI [of _ "length as"]) (simp add: c_def)
qed

text \<open>The lines of a member that decode, and the members of which something is missing.\<close>

definition unreadable :: "folder \<Rightarrow> string \<Rightarrow> bool" where
  "unreadable dir m =
     (case map_of dir m of None \<Rightarrow> False | Some (Blocked _ _) \<Rightarrow> True | Some (Regular content _) \<Rightarrow> MAX_SINK_BYTES < length content)"

definition good_lines :: "nat \<Rightarrow> folder \<Rightarrow> string \<Rightarrow> touch_event list" where
  "good_lines depth dir m =
     (if unreadable dir m then [] else concat (map (\<lambda>l. case decode_line depth l of Inr e \<Rightarrow> [e] | _ \<Rightarrow> []) (member_raw dir m)))"

definition damaged :: "nat \<Rightarrow> folder \<Rightarrow> string \<Rightarrow> bool" where
  "damaged depth dir m =
     (unreadable dir m \<or> list_ex (\<lambda>l. decode_line depth l = Inl Malformed_Line) (member_raw dir m))"

lemma decode_lines_good: "decode_lines depth ls = Inr (es, n) \<Longrightarrow>
    es = concat (map (\<lambda>l. case decode_line depth l of Inr e \<Rightarrow> [e] | _ \<Rightarrow> []) ls) \<and>
    (n \<noteq> 0 \<longleftrightarrow> list_ex (\<lambda>l. decode_line depth l = Inl Malformed_Line) ls)"
proof (induction ls arbitrary: es n)
  case (Cons l ls)
  show ?case
  proof (cases "decode_line depth l")
    case (Inl x)
    then show ?thesis using Cons by (cases x) (auto simp: decode_bind_Inr)
  next
    case (Inr e)
    then show ?thesis using Cons by (auto simp: decode_bind_Inr)
  qed
qed simp

lemma read_member_good: "read_member depth dir m = Inr (es, rs) \<Longrightarrow>
    es = good_lines depth dir m \<and> (rs \<noteq> [] \<longleftrightarrow> damaged depth dir m)"
proof (cases "map_of dir m")
  case None
  assume "read_member depth dir m = Inr (es, rs)"
  then show ?thesis using None by (simp add: read_member_def good_lines_def damaged_def unreadable_def member_raw_def)
next
  case (Some nd)
  assume rd: "read_member depth dir m = Inr (es, rs)"
  show ?thesis
  proof (cases nd)
    case (Regular content t)
    then show ?thesis using rd Some decode_lines_good [of depth "iter_complete_lines content"]
      by (auto simp: read_member_def good_lines_def damaged_def unreadable_def member_raw_def decode_bind_Inr split: if_splits)
  next
    case (Blocked n t)
    then show ?thesis using rd Some
      by (auto simp: read_member_def good_lines_def damaged_def unreadable_def member_raw_def)
  qed
qed

lemma read_members_good: "read_members depth dir ms = Inr (es, rs) \<Longrightarrow>
    es = concat (map (good_lines depth dir) ms) \<and> (rs \<noteq> [] \<longleftrightarrow> list_ex (damaged depth dir) ms)"
proof (induction ms arbitrary: es rs)
  case (Cons m ms)
  obtain a as b bs where "read_member depth dir m = Inr (a, as)" "read_members depth dir ms = Inr (b, bs)"
    "es = a @ b" "rs = as @ bs"
    using Cons.prems by (auto simp: decode_bind_Inr)
  then show ?case using Cons.IH read_member_good by fastforce
qed simp

text \<open>C31. A read that returns reports every loss and hides nothing else: the record is degraded exactly when a file
  of it cannot be read or holds a malformed line, and its claims are the fold of all other lines, in order.\<close>
theorem losses_are_reported:
  assumes "read_family depth name dir = Inr r"
  shows "(r_degraded r \<longleftrightarrow> list_ex (damaged depth dir) (discover_family name dir)) \<and>
    r_claims r = claims_of (concat (map (good_lines depth dir) (discover_family name dir))) \<and>
    r_held r = held_kind (concat (map (good_lines depth dir) (discover_family name dir)))"
  using assms read_members_good [of depth dir "discover_family name dir"]
  by (auto simp: read_family_def decode_bind_Inr read_of_def)

section \<open>Compaction\<close>

text \<open>C34. Compacting a record of stored events leaves one line per path, keeps the claim of every path but for its kind, makes the kind of every
  hold unknown, and a second compaction changes nothing.\<close>
theorem compaction_keeps_claims:
  assumes "decode_lines (Suc d) (iter_complete_lines raw) = Inr (es, n)" "list_all stored_event es"
    "compact_record (Suc d) raw = Inr body"
  shows "\<exists>fs. decode_lines (Suc d) (iter_complete_lines body) = Inr (fs, 0) \<and> distinct (map path fs) \<and>
    map_of (claims_of fs) p = map_option (\<lambda>e. e\<lparr>kind := None\<rparr>) (map_of (claims_of es) p) \<and>
    map_of (held_kind fs) p = map_option (\<lambda>_. None) (map_of (held_kind es) p) \<and>
    compact_record (Suc d) body = Inr body"
proof -
  let ?fs = "map (\<lambda>e. e\<lparr>kind := None\<rparr>) (last_verb_wins es)"
  note dec = compact_decoded [OF assms]
  have dist: "distinct (map path ?fs)" using paths_last_verb_wins [of es] by (simp add: comp_def)
  have same: "map (\<lambda>e. e\<lparr>kind := None\<rparr>) ?fs = ?fs" by simp
  have "compact_record (Suc d) body = Inr body"
    unfolding compact_record_def dec(1) by (simp only: sum.case prod.case last_verb_wins_distinct [OF dist] same dec(2))
  moreover have "map_of (claims_of ?fs) p = map_option (\<lambda>e. e\<lparr>kind := None\<rparr>) (map_of (claims_of es) p)"
    by (simp add: claims_of_eq kindless_last last_on_lvw)
  ultimately show ?thesis using dec(1) dist compacted_hold [of es p] by blast
qed

section \<open>Appends and the cache\<close>

text \<open>C29. An append of an event that can be read back to a healthy record adds exactly that event at the end of the
  history, whether it rotates the file or not. Healthy means that every file of the record reads without a loss and
  that the live file ends with a line break and leaves room for a line below the size bound. A rotation extends the
  history only if the name it gives sorts above those of the generations on disk, so the condition is that the clock
  of the writer is not behind them.\<close>
theorem append_extends_history:
  assumes "touch_history (Suc d) name dir = Some es" "live_ok name dir" "rotates_forward name w dir"
    "append_touch_event name w memo q dir = (Inr dir', memo')" "request_event w memo q = (e, m)" "readable_event e"
  shows "touch_history (Suc d) name dir' = Some (es @ [e\<lparr>schema_version := SCHEMA_VERSION, path := canonicalize_relative_path (path e)\<rparr>])"
  by (rule append_extends_history_eq [OF assms])

text \<open>C28. Along any run of appends, rotations, reads and evictions in which every write has a later time stamp than the
  one before and rotations move forward, a read through the cache of folds returns what a whole read of the files returns.\<close>
theorem cached_read_is_whole_read:
  assumes "sink_run depth key name (dir, cache, c)"
  shows "fst (read_sink depth key name dir False cache) = read_family depth name dir"
  by (rule cache_exact_eq [OF assms])

section \<open>Projection and last sight\<close>

text \<open>C33. Over healthy records the projection claims a path for the event that ranks highest among the last events of
  the records on it, if that is a touch of a live session, and for nobody otherwise.\<close>
theorem projection_exact:
  assumes "\<forall>k \<in> set keys. sink_good depth files c k cache"
    "map (\<lambda>k. touch_history depth (fst (files k)) (snd (files k))) keys = map Some streams"
    "list_all comparable (last_events p streams)"
  shows "\<exists>r. fst (project_live_claims h depth (map (\<lambda>k. (k, files k)) keys) cache) = Inr r \<and> \<not> p_degraded r \<and>
    (case map_of (p_claims r) p of
       Some e \<Rightarrow> live_claim h e \<and> e \<in> set (last_events p streams) \<and> list_all (\<lambda>g. event_rank g \<le> event_rank e) (last_events p streams)
     | None \<Rightarrow> last_events p streams = [] \<or>
         list_ex (\<lambda>e. \<not> live_claim h e \<and> list_all (\<lambda>g. event_rank g \<le> event_rank e) (last_events p streams)) (last_events p streams))"
proof -
  have "read_all (\<lambda>k. read_family depth (fst (files k)) (snd (files k))) keys = Inr (map (\<lambda>es. read_of es []) streams)"
    using assms(2) by (induction keys arbitrary: streams) (auto simp: history_read)
  then have "fst (read_streams depth (map (\<lambda>k. (k, files k)) keys) cache) = Inr (map (\<lambda>es. read_of es []) streams)"
    using folds.each_exact [OF assms(1)] by (simp only: read_streams_each)
  then have r: "fst (project_live_claims h depth (map (\<lambda>k. (k, files k)) keys) cache) = Inr (projected h (map (\<lambda>es. read_of es []) streams))"
    by (auto simp: project_live_claims_def split: prod.splits sum.splits)
  moreover have "\<not> p_degraded (projected h (map (\<lambda>es. read_of es []) streams))"
    by (auto simp: projected_def read_of_def list_ex_iff)
  moreover note survivor_winner [OF assms(3)] projected_claim [of h streams p]
  ultimately show ?thesis by (auto simp: list_all_iff list_ex_iff split: option.splits)
qed

text \<open>C35. On a healthy record the newest digest and time of a session on a path are those of its last own event there,
  whatever other sessions wrote after it.\<close>
theorem last_seen_is_last_own:
  assumes "touch_history depth RECORD_FILENAME dir = Some es" "sid \<noteq> []" "p \<in> set rel_paths" "p \<noteq> []"
  shows "map_of (last_seen_events depth sid rel_paths dir) p = Some (map_option (\<lambda>e. (content_hash e, stamp e)) (last_own sid p es))"
  by (rule last_seen_eq [OF assms])

end
