(* ===== verification/Touch_Demo.thy ===== *)
theory Touch_Demo
  imports Touch_Claims
begin

text \<open>
  A small record, for the instances of the properties: two sessions, one path, one directory each.
\<close>

definition demo_event :: "string \<Rightarrow> string \<Rightarrow> string option \<Rightarrow> touch_event" where
  "demo_event sid vb kd =
     \<lparr>schema_version = 1, verb = vb, stamp = Units 0, session_id = sid, agent_id = None, path = ''a'',
      content_hash = None, writer_name = None, kind = kd\<rparr>"

definition demo_line :: "string \<Rightarrow> string \<Rightarrow> string option \<Rightarrow> string" where
  "demo_line sid vb kd = (case encode_line False (demo_event sid vb kd) of Inr l \<Rightarrow> l | Inl _ \<Rightarrow> [])"

lemma demo_encodes: "encode_line False (demo_event ''s'' VERB_TOUCH (Some KIND_WRITE)) = Inr (demo_line ''s'' VERB_TOUCH (Some KIND_WRITE))"
  by code_simp

lemma demo_readable: "readable_event (demo_event ''s'' VERB_TOUCH (Some KIND_WRITE))"
  by code_simp

definition demo_dir :: folder where
  "demo_dir = [(RECORD_FILENAME, Regular (demo_line ''s'' VERB_TOUCH (Some KIND_WRITE)) 5)]"

lemma one_line_history:
  assumes "encode_line False e = Inr l" "readable_event e" "schema_version e = SCHEMA_VERSION" "canonicalize_relative_path (path e) = path e"
  shows "touch_history (Suc d) name [(name, Regular l t)] = Some [e]"
proof -
  have "length l \<le> MAX_SINK_BYTES" using encode_line_Inr(4) [OF assms(1)] by (simp add: MAX_SINK_BYTES_def MAX_ENCODED_LINE_LEN_def)
  moreover have "decode_lines (Suc d) (iter_complete_lines l) = Inr ([e], 0)"
    using iter_lines_Cons [OF encoded_plain [OF assms(1,2)], of "[]"] line_roundtrip_eq [OF assms(1,2), of d] assms(3,4)
    by (simp add: iter_lines_fragment)
  ultimately have "read_member (Suc d) [(name, Regular l t)] name = Inr ([e], [])" by (simp add: read_member_def)
  moreover have "rotated_members name [(name, Regular l t)] = []" by (simp add: rotated_members_def)
  ultimately show ?thesis by (simp add: history_iff)
qed

lemma demo_stored: "stored_event (demo_event ''s'' VERB_TOUCH (Some KIND_WRITE))"
  by code_simp

lemma demo_history: "touch_history (Suc d) RECORD_FILENAME demo_dir = Some [demo_event ''s'' VERB_TOUCH (Some KIND_WRITE)]"
  unfolding demo_dir_def using demo_stored by (intro one_line_history [OF demo_encodes]) (simp_all add: stored_event_def)

end
