(* ===== verification/Touch_Witness.thy ===== *)
theory Touch_Witness
  imports Touch_Demo
begin

text \<open>
  The properties of the record of touched files at concrete records: their hypotheses hold together.
\<close>

abbreviation demo :: touch_event where "demo \<equiv> demo_event ''s'' VERB_TOUCH (Some KIND_WRITE)"
abbreviation demo_text :: string where "demo_text \<equiv> demo_line ''s'' VERB_TOUCH (Some KIND_WRITE)"

theorem touch_line_roundtrip_witness:
  "decode_line (Suc 3) demo_text = Inr (demo\<lparr>schema_version := SCHEMA_VERSION, path := canonicalize_relative_path (path demo)\<rparr>) \<and>
   iter_complete_lines (demo_text @ ''x'') = demo_text # iter_complete_lines ''x'' \<and> length demo_text < MAX_ENCODED_LINE_LEN"
  by (rule touch_line_roundtrip [OF demo_encodes demo_readable])

lemma demo_fields: "schema_version demo = SCHEMA_VERSION" "canonicalize_relative_path (path demo) = path demo"
  using demo_stored by (simp_all add: stored_event_def)

lemma demo_decodes: "decode_line (Suc d) demo_text = Inr demo"
  using line_roundtrip_eq [OF demo_encodes demo_readable, of d] demo_fields by simp

lemma demo_lines: "decode_lines (Suc d) (iter_complete_lines demo_text) = Inr ([demo], 0)"
  using iter_lines_Cons [OF encoded_plain [OF demo_encodes demo_readable], of "[]"] demo_decodes
  by (simp add: iter_lines_fragment)

lemma demo_short: "length demo_text < MAX_ENCODED_LINE_LEN"
  by (rule encode_line_Inr(4) [OF demo_encodes])

theorem decoded_event_typed_witness:
  "verb demo \<in> set VALID_VERBS \<and> session_id demo \<noteq> [] \<and> path demo \<noteq> [] \<and> kind demo \<in> set (None # map Some VALID_KINDS)"
  by (rule decoded_event_typed [OF demo_decodes])

theorem torn_record_is_prefix_witness:
  "\<exists>k. decode_lines (Suc 3) (iter_complete_lines (take 5 demo_text)) = Inr (take k [demo], 0) \<and>
     decode_lines (Suc 3) (iter_complete_lines (drop (consumed (take 5 demo_text)) demo_text)) = Inr (drop k [demo], 0)"
  by (rule torn_record_is_prefix [OF demo_lines])

definition bad_dir :: folder where
  "bad_dir = [(RECORD_FILENAME, Regular ''x\<newline>'' 0)]"

lemma bad_line: "decode_line 1 ''x\<newline>'' = Inl Malformed_Line"
  by code_simp

lemma bad_read: "read_family 1 RECORD_FILENAME bad_dir = Inr (read_of [] [''malformed:'' @ RECORD_FILENAME])"
proof -
  have "iter_complete_lines ''x\<newline>'' = [''x\<newline>'']" by code_simp
  then have "read_member 1 bad_dir RECORD_FILENAME = Inr ([], [''malformed:'' @ RECORD_FILENAME])"
    using bad_line by (simp add: read_member_def bad_dir_def MAX_SINK_BYTES_def)
  moreover have "discover_family RECORD_FILENAME bad_dir = [RECORD_FILENAME]"
    by (simp add: discover_family_def rotated_members_def bad_dir_def)
  ultimately show ?thesis by (simp add: read_family_def)
qed

theorem losses_are_reported_witness:
  "list_ex (damaged 1 bad_dir) (discover_family RECORD_FILENAME bad_dir)"
  using losses_are_reported [OF bad_read] by (simp add: read_of_def)

lemma demo_compacts: "compact_record (Suc 3) demo_text = Inr (demo_line ''s'' VERB_TOUCH None)"
proof -
  have "encode_all [demo_event ''s'' VERB_TOUCH None] = Inr (demo_line ''s'' VERB_TOUCH None)" by code_simp
  moreover have "map (\<lambda>e. e\<lparr>kind := None\<rparr>) (last_verb_wins [demo]) = [demo_event ''s'' VERB_TOUCH None]"
    by (simp add: last_verb_wins_distinct) (simp add: demo_event_def)
  ultimately show ?thesis unfolding compact_record_def demo_lines by (simp only: sum.case prod.case)
qed

theorem compaction_keeps_claims_witness:
  "\<exists>fs. decode_lines (Suc 3) (iter_complete_lines (demo_line ''s'' VERB_TOUCH None)) = Inr (fs, 0) \<and> distinct (map path fs) \<and>
    map_of (claims_of fs) ''a'' = map_option (\<lambda>e. e\<lparr>kind := None\<rparr>) (map_of (claims_of [demo]) ''a'') \<and>
    map_of (held_kind fs) ''a'' = map_option (\<lambda>_. None) (map_of (held_kind [demo]) ''a'') \<and>
    compact_record (Suc 3) (demo_line ''s'' VERB_TOUCH None) = Inr (demo_line ''s'' VERB_TOUCH None)"
  by (rule compaction_keeps_claims [OF demo_lines _ demo_compacts]) (simp add: demo_stored)

text \<open>A writer of the session, and its request.\<close>

definition demo_writer :: writer where
  "demo_writer = \<lparr>w_now = Units 0, w_ms = 7, w_pid = 2, w_seq = 0, w_rename_ok = True, w_mtime = 6, w_claude_pid = None, w_self = None\<rparr>"

definition demo_request :: request where
  "demo_request = \<lparr>q_event = demo, q_stamp = None, q_name = None\<rparr>"

lemma demo_request_event: "request_event demo_writer None demo_request = (demo, Some (None, None))"
  by (simp add: request_event_def demo_request_def resolve_writer_name_def demo_writer_def) (simp add: demo_event_def)

lemma demo_not_rotated: "maybe_rotate RECORD_FILENAME demo_writer demo_dir = demo_dir"
  using demo_short by (simp add: maybe_rotate_def demo_dir_def MAX_RECORD_BYTES_def MAX_ENCODED_LINE_LEN_def)

lemma demo_no_generations: "rotated_members RECORD_FILENAME demo_dir = []"
  by (simp add: rotated_members_def demo_dir_def)

lemma demo_forward: "rotates_forward RECORD_FILENAME demo_writer demo_dir"
proof -
  have "rotated_name RECORD_FILENAME demo_writer \<noteq> RECORD_FILENAME" by (simp add: rotated_name_def rotated_prefix_def)
  then show ?thesis unfolding rotates_forward_def demo_no_generations by (simp add: demo_writer_def demo_dir_def)
qed

lemma demo_live_ok: "live_ok RECORD_FILENAME demo_dir"
  using demo_short encoded_plain [OF demo_encodes demo_readable]
  by (auto simp: live_ok_def demo_dir_def framed_def plain_record_def MAX_SINK_BYTES_def MAX_ENCODED_LINE_LEN_def)

theorem append_extends_history_witness:
  "touch_history (Suc 3) RECORD_FILENAME (append_text RECORD_FILENAME demo_text 6 demo_dir) =
     Some ([demo] @ [demo\<lparr>schema_version := SCHEMA_VERSION, path := canonicalize_relative_path (path demo)\<rparr>])"
proof (rule append_extends_history [OF demo_history demo_live_ok demo_forward _ demo_request_event demo_readable])
  show "append_touch_event RECORD_FILENAME demo_writer None demo_request demo_dir =
      (Inr (append_text RECORD_FILENAME demo_text 6 demo_dir), Some (None, None))"
    by (simp add: append_touch_event_def demo_request_event demo_encodes demo_not_rotated) (simp add: demo_writer_def)
qed

lemma demo_run: "sink_run 4 ''k'' RECORD_FILENAME
    (written RECORD_FILENAME demo_writer demo_text demo_dir, snd (read_sink 4 ''k'' RECORD_FILENAME demo_dir False []), w_mtime demo_writer)"
proof (rule sink_run.append)
  show "sink_run 4 ''k'' RECORD_FILENAME (demo_dir, snd (read_sink 4 ''k'' RECORD_FILENAME demo_dir False []), 5)"
    by (intro sink_run.readout sink_run.start) (simp add: live_time_def demo_dir_def)
  show "5 < w_mtime demo_writer" by (simp add: demo_writer_def)
  show "rotates_forward RECORD_FILENAME demo_writer demo_dir" by (rule demo_forward)
  show "live_room RECORD_FILENAME (written RECORD_FILENAME demo_writer demo_text demo_dir)"
    using demo_short
    by (simp add: live_room_def written_def demo_not_rotated append_text_def) (simp add: demo_dir_def MAX_SINK_BYTES_def MAX_ENCODED_LINE_LEN_def)
qed

theorem cached_read_is_whole_read_witness:
  "fst (read_sink 4 ''k'' RECORD_FILENAME (written RECORD_FILENAME demo_writer demo_text demo_dir) False
      (snd (read_sink 4 ''k'' RECORD_FILENAME demo_dir False []))) =
   read_family 4 RECORD_FILENAME (written RECORD_FILENAME demo_writer demo_text demo_dir)"
  by (rule cached_read_is_whole_read [OF demo_run])

theorem last_seen_is_last_own_witness:
  "map_of (last_seen_events (Suc 3) ''s'' [''a''] demo_dir) ''a'' = Some (map_option (\<lambda>e. (content_hash e, stamp e)) (last_own ''s'' ''a'' [demo]))"
  by (rule last_seen_is_last_own [OF demo_history]) simp_all

lemma demo_last: "last_events ''a'' [[demo]] = [demo]"
  by (simp add: last_events_def last_on_def events_on_def) (simp add: demo_event_def)

theorem projection_exact_witness:
  "\<forall>h. \<exists>r. fst (project_live_claims h (Suc 3) (map (\<lambda>k. (k, (RECORD_FILENAME, demo_dir))) [''k'']) []) = Inr r \<and> \<not> p_degraded r \<and>
    (case map_of (p_claims r) ''a'' of
       Some e \<Rightarrow> live_claim h e \<and> e \<in> set (last_events ''a'' [[demo]]) \<and> list_all (\<lambda>g. event_rank g \<le> event_rank e) (last_events ''a'' [[demo]])
     | None \<Rightarrow> last_events ''a'' [[demo]] = [] \<or>
         list_ex (\<lambda>e. \<not> live_claim h e \<and> list_all (\<lambda>g. event_rank g \<le> event_rank e) (last_events ''a'' [[demo]])) (last_events ''a'' [[demo]]))"
proof
  fix h
  show "\<exists>r. fst (project_live_claims h (Suc 3) (map (\<lambda>k. (k, (RECORD_FILENAME, demo_dir))) [''k'']) []) = Inr r \<and> \<not> p_degraded r \<and>
    (case map_of (p_claims r) ''a'' of
       Some e \<Rightarrow> live_claim h e \<and> e \<in> set (last_events ''a'' [[demo]]) \<and> list_all (\<lambda>g. event_rank g \<le> event_rank e) (last_events ''a'' [[demo]])
     | None \<Rightarrow> last_events ''a'' [[demo]] = [] \<or>
         list_ex (\<lambda>e. \<not> live_claim h e \<and> list_all (\<lambda>g. event_rank g \<le> event_rank e) (last_events ''a'' [[demo]])) (last_events ''a'' [[demo]]))"
  proof (rule projection_exact)
    show "\<forall>k \<in> set [''k'']. sink_good (Suc 3) (\<lambda>k. (RECORD_FILENAME, demo_dir)) 0 k []"
      by (simp add: sink_good_def cache_valid_def)
    show "map (\<lambda>k. touch_history (Suc 3) (fst (RECORD_FILENAME, demo_dir)) (snd (RECORD_FILENAME, demo_dir))) [''k''] = map Some [[demo]]"
      using demo_history [of 3] by simp
    show "list_all comparable (last_events ''a'' [[demo]])"
      unfolding demo_last by (simp add: comparable_def touch_constants) (simp add: demo_event_def)
  qed
qed

end
