(* ===== verification/Touch_Tree_Witness.thy ===== *)
theory Touch_Tree_Witness
  imports Touch_Witness
begin

text \<open>
  A repository with two sessions on one path, the second of which released it through its agent: a complete walk
  exists and offers the path to the first session.
\<close>

lemma read_healthy:
  assumes "map_of cache key = None" "touch_history depth name dir = Some es"
  shows "fst (read_sink depth key name dir False cache) = Inr (read_of es [])"
  using whole_read_answer [of depth key name dir cache] history_read [OF assms(2)] assms(1) by (simp add: read_sink_def)

lemma read_sources_healthy:
  "\<lbrakk>tree_good depth base files cache; \<forall>s \<in> set ss. behind base files s \<and> source_ok s;
    \<forall>s \<in> set ss. touch_history depth RECORD_FILENAME (s_dir s) = Some (events_of depth s)\<rbrakk> \<Longrightarrow>
   \<exists>cache'. read_sources depth base (\<lambda>_. False) ss cache = (Inr (all_rows depth ss, []), cache')"
proof (induction ss arbitrary: cache)
  case (Cons s ss)
  obtain a cache2 where rd: "read_sink depth (sink_key base s) RECORD_FILENAME (s_dir s) (s_live s) cache = (a, cache2)"
    by fastforce
  have a: "a = read_family depth RECORD_FILENAME (s_dir s)" "tree_good depth base files cache2"
    using tree_good_read [OF Cons.prems(1) _ _ rd] Cons.prems(2) by auto
  then have "a = Inr (read_of (events_of depth s) [])" using Cons.prems(3) history_read by auto
  then show ?case using rd Cons.IH [OF a(2)] Cons.prems(2,3) by (auto simp: all_rows_def read_of_def)
qed (simp add: all_rows_def)

section \<open>The tree\<close>

definition release :: touch_event where
  "release = (demo_event ''s'' VERB_RELEASE None)\<lparr>stamp := Infinite False\<rparr>"

definition release_text :: string where
  "release_text = (case encode_line False release of Inr l \<Rightarrow> l | Inl _ \<Rightarrow> [])"

definition mine :: touch_event where
  "mine = demo_event ''m'' VERB_TOUCH (Some KIND_WRITE)"

lemma mine_encodes: "encode_line False mine = Inr (demo_line ''m'' VERB_TOUCH (Some KIND_WRITE))" "stored_event mine"
  unfolding mine_def by code_simp+

lemma release_encodes: "encode_line False release = Inr release_text" "stored_event release"
  by code_simp+

definition my_dir :: folder where
  "my_dir = [(RECORD_FILENAME, Regular (demo_line ''m'' VERB_TOUCH (Some KIND_WRITE)) 5)]"

definition agent_dir :: folder where
  "agent_dir = [(RECORD_FILENAME, Regular release_text 5), (OWNER_POINTER_FILENAME, Regular ''s'' 5)]"

definition demo_tree :: sessions_tree where
  "demo_tree = \<lparr>t_base = Entries [(''m'', Claimant my_dir), (''s'', Claimant demo_dir)], t_agents = Entries [(''x'', Claimant agent_dir)]\<rparr>"

definition no_caps :: caps where
  "no_caps = \<lparr>at_base = (\<lambda>_. False), at_agents = (\<lambda>_. False), listed_late = False, at_sink = (\<lambda>_. False),
     nan_order = (\<lambda>rows. rows)\<rparr>"

definition my_source :: source where
  "my_source = \<lparr>s_sink = session_sink ''m'', s_sid = ''m'', s_agent = None, s_dir = my_dir, s_live = True\<rparr>"

definition peer_source :: source where
  "peer_source = \<lparr>s_sink = session_sink ''s'', s_sid = ''s'', s_agent = None, s_dir = demo_dir, s_live = True\<rparr>"

definition agent_of_peer :: source where
  "agent_of_peer = \<lparr>s_sink = agent_sink ''x'', s_sid = ''s'', s_agent = Some ''x'', s_dir = agent_dir, s_live = True\<rparr>"

lemma listings: "dir_claim_listing my_dir = (True, False, True)" "dir_claim_listing demo_dir = (True, False, True)"
  "dir_claim_listing agent_dir = (True, True, True)"
  by (simp_all add: dir_claim_listing_def Let_def my_dir_def demo_dir_def agent_dir_def RECORD_FILENAME_def OWNER_POINTER_FILENAME_def
      rotated_key_def rotated_prefix_def starts_with_def)

lemma agent_owner: "agent_owner_sid agent_dir = Inr (''s'', True)"
proof -
  have "utf8_ok ''s''" "first_line ''s'' = ''s''" by code_simp+
  then show ?thesis by (simp add: agent_owner_sid_def agent_dir_def RECORD_FILENAME_def OWNER_POINTER_FILENAME_def)
qed

lemma tree_listed: "listed (t_base demo_tree) = [(''m'', Claimant my_dir), (''s'', Claimant demo_dir)]"
  "listed (t_agents demo_tree) = [(''x'', Claimant agent_dir)]"
  by (simp_all add: demo_tree_def listed_def)

lemma tree_sources: "session_source ''m'' (Claimant my_dir) = Inr (Some my_source, True)"
  "session_source ''s'' (Claimant demo_dir) = Inr (Some peer_source, True)"
  "agent_source ''x'' (Claimant agent_dir) = Inr (Some agent_of_peer, True)"
  by (simp_all add: session_source_def agent_source_def listings agent_owner AGENTS_SUBDIR_def my_source_def peer_source_def agent_of_peer_def)

lemma source_in_tree: "source_in demo_tree s \<longleftrightarrow> s \<in> {my_source, peer_source, agent_of_peer}"
  unfolding source_in_def tree_listed using tree_sources by auto

lemma enumerated: "enumerate_claim_sinks no_caps demo_tree = Inr ([my_source, peer_source, agent_of_peer], True)"
  unfolding enumerate_claim_sinks_def tree_listed by (simp add: tree_sources no_caps_def) (simp add: demo_tree_def)

lemma agent_history: "touch_history (Suc d) RECORD_FILENAME agent_dir = Some [release]"
proof -
  have "rotated_members RECORD_FILENAME agent_dir = []"
    using listed_live listings(3) by blast
  moreover have "read_member (Suc d) agent_dir RECORD_FILENAME = read_member (Suc d) [(RECORD_FILENAME, Regular release_text 5)] RECORD_FILENAME"
    by (simp add: read_member_def agent_dir_def)
  moreover have "touch_history (Suc d) RECORD_FILENAME [(RECORD_FILENAME, Regular release_text 5)] = Some [release]"
    using release_encodes(2) by (intro one_line_history [OF release_encodes(1)]) (simp_all add: stored_event_def)
  ultimately show ?thesis by (auto simp: history_iff rotated_members_def)
qed

lemma my_history: "touch_history (Suc d) RECORD_FILENAME my_dir = Some [mine]"
  unfolding my_dir_def using mine_encodes(2) by (intro one_line_history [OF mine_encodes(1)]) (simp_all add: stored_event_def)

lemma tree_events: "events_of (Suc d) my_source = [mine]" "events_of (Suc d) peer_source = [demo]"
  "events_of (Suc d) agent_of_peer = [release]"
  by (simp_all add: events_of_def my_source_def peer_source_def agent_of_peer_def my_history demo_history agent_history)

section \<open>The walk\<close>

definition demo_files :: "string \<Rightarrow> folder" where
  "demo_files key = (if key = sink_key ''b'' my_source then my_dir else if key = sink_key ''b'' peer_source then demo_dir else agent_dir)"

lemma tree_founded: "well_founded_walk 4 ''b'' demo_tree demo_files []"
proof -
  have "sink_key ''b'' my_source \<noteq> sink_key ''b'' peer_source" "sink_key ''b'' my_source \<noteq> sink_key ''b'' agent_of_peer"
    "sink_key ''b'' peer_source \<noteq> sink_key ''b'' agent_of_peer"
    by (simp_all add: sink_key_def my_source_def peer_source_def agent_of_peer_def session_sink_def agent_sink_def AGENTS_SUBDIR_def)
  then have "behind ''b'' demo_files s" if "s \<in> {my_source, peer_source, agent_of_peer}" for s
    using that by (auto simp: behind_def demo_files_def) (simp_all add: my_source_def peer_source_def agent_of_peer_def)
  then show ?thesis unfolding well_founded_walk_def source_in_tree by (simp add: tree_good_def cache_valid_def)
qed

definition demo_rows :: "row list" where
  "demo_rows =
     [\<lparr>g_event = mine, g_path = ''a'', g_sid = ''m'', g_agent = None, g_held = [(''a'', Some KIND_WRITE)]\<rparr>,
      \<lparr>g_event = demo, g_path = ''a'', g_sid = ''s'', g_agent = None, g_held = [(''a'', Some KIND_WRITE)]\<rparr>,
      \<lparr>g_event = release, g_path = ''a'', g_sid = ''s'', g_agent = Some ''x'', g_held = []\<rparr>]"

lemma tree_rows: "all_rows 4 [my_source, peer_source, agent_of_peer] = demo_rows"
proof -
  have ev: "events_of 4 my_source = [mine]" "events_of 4 peer_source = [demo]" "events_of 4 agent_of_peer = [release]"
    using tree_events [of 3] by simp_all
  have rows: "source_rows s (read_of [e] []) = [\<lparr>g_event = e, g_path = path e, g_sid = s_sid s, g_agent = s_agent s, g_held = held_kind [e]\<rparr>]" for s e
    by (simp add: source_rows_def read_of_def claims_of_def last_verb_wins_distinct)
  have "held_kind [mine] = [(''a'', Some KIND_WRITE)]" "held_kind [demo] = [(''a'', Some KIND_WRITE)]" "held_kind [release] = []"
    by code_simp+
  moreover have "path mine = ''a''" "path demo = ''a''" "path release = ''a''" by (simp_all add: mine_def release_def demo_event_def)
  ultimately show ?thesis
    by (simp add: all_rows_def ev rows demo_rows_def) (simp add: my_source_def peer_source_def agent_of_peer_def)
qed

definition demo_state :: index_state where
  "demo_state = \<lparr>x_fold = (case fold_rows (\<lambda>rows. rows) demo_rows of Inr st \<Rightarrow> tidy st | Inl _ \<Rightarrow> NO_CLAIMS), x_complete = True, x_cause = None\<rparr>"

lemma rows_fold: "\<exists>st. fold_rows (\<lambda>rows. rows) demo_rows = Inr st"
proof -
  have "(case fold_rows (\<lambda>rows. rows) demo_rows of Inr _ \<Rightarrow> True | Inl _ \<Rightarrow> False)" by code_simp
  then show ?thesis by (auto split: sum.splits)
qed

lemma demo_walk: "\<exists>cache'. rebuild no_caps 4 ''b'' demo_tree [] = (Inr demo_state, cache')"
proof -
  have "tree_good 4 ''b'' demo_files []" "\<forall>s \<in> set [my_source, peer_source, agent_of_peer]. behind ''b'' demo_files s"
    using tree_founded source_in_tree by (auto simp: well_founded_walk_def)
  moreover have "\<forall>s \<in> set [my_source, peer_source, agent_of_peer]. source_ok s"
    using listed_live listings by (auto simp: source_ok_def my_source_def peer_source_def agent_of_peer_def)
  moreover have "\<forall>s \<in> set [my_source, peer_source, agent_of_peer]. touch_history 4 RECORD_FILENAME (s_dir s) = Some (events_of 4 s)"
    using tree_events [of 3] my_history [of 3] demo_history [of 3] agent_history [of 3]
    by (simp add: my_source_def peer_source_def agent_of_peer_def)
  ultimately obtain cache' where "read_sources 4 ''b'' (\<lambda>_. False) [my_source, peer_source, agent_of_peer] [] = (Inr (demo_rows, []), cache')"
    using read_sources_healthy [of 4 "''b''" demo_files "[]" "[my_source, peer_source, agent_of_peer]"] tree_rows by auto
  moreover have "at_sink no_caps = (\<lambda>_. False)" "nan_order no_caps = (\<lambda>rows. rows)" by (simp_all add: no_caps_def)
  ultimately show ?thesis using rows_fold by (auto simp: rebuild_def walk_sessions_def enumerated demo_state_def Let_def)
qed

lemma demo_numbered: "stamps_numbered 4 demo_tree"
proof -
  have "stamp mine \<noteq> Nan" "stamp demo \<noteq> Nan" "stamp release \<noteq> Nan"
    by (simp_all add: mine_def release_def demo_event_def)
  then show ?thesis
    using tree_events [of 3] by (auto simp: stamps_numbered_def source_in_tree dest!: last_on_Some)
qed

lemma demo_verdict: "classify_path ''m'' demo_state ''a'' = Mine" "''a'' \<in> set (c_paths (commit_of ''m'' demo_state))"
  by code_simp+

lemma demo_last_on: "last_on ''a'' [demo] = Some demo" "map_of (held_kind [demo]) ''a'' = Some (Some KIND_WRITE)"
  by code_simp+

theorem free_path_is_released_witness:
  "released_by 4 demo_tree ''s'' (canonicalize_relative_path ''a'') demo"
proof -
  obtain cache' where walk: "rebuild no_caps 4 ''b'' demo_tree [] = (Inr demo_state, cache')" using demo_walk by blast
  have canon: "canonicalize_relative_path ''a'' = ''a''" by code_simp
  have sid: "s_sid peer_source = ''s''" by (simp add: peer_source_def)
  have "released_by 4 demo_tree (s_sid peer_source) (canonicalize_relative_path ''a'') demo"
  proof (rule free_path_is_released [OF walk tree_founded])
    show "classify_path ''m'' demo_state ''a'' \<in> {Mine, Unclaimed}" using demo_verdict by simp
    show "source_in demo_tree peer_source" by (simp add: source_in_tree)
    show "last_on (canonicalize_relative_path ''a'') (events_of 4 peer_source) = Some demo"
      "map_of (held_kind (events_of 4 peer_source)) (canonicalize_relative_path ''a'') = Some (Some KIND_WRITE)"
      using tree_events(2) [of 3] demo_last_on by (simp_all add: canon)
    show "s_sid peer_source \<noteq> ''m''" by (simp add: sid)
    show "verb demo = VERB_TOUCH" by (simp add: demo_event_def)
    show "stamps_numbered 4 demo_tree" by (rule demo_numbered)
    show "kind_blocks_a_peer_commit (Some KIND_WRITE)" by (simp add: kind_blocks_a_peer_commit_def touch_constants)
  qed
  then show ?thesis by (simp only: sid)
qed

theorem offered_path_is_released_witness:
  "released_by 4 demo_tree ''s'' ''a'' demo"
proof -
  obtain cache' where walk: "rebuild no_caps 4 ''b'' demo_tree [] = (Inr demo_state, cache')" using demo_walk by blast
  have sid: "s_sid peer_source = ''s''" by (simp add: peer_source_def)
  have "released_by 4 demo_tree (s_sid peer_source) ''a'' demo"
  proof (rule offered_path_is_released [OF walk _ tree_founded demo_verdict(2)])
    show "stamps_numbered 4 demo_tree" by (rule demo_numbered)
    show "x_complete demo_state" by (simp add: demo_state_def)
    show "source_in demo_tree peer_source" by (simp add: source_in_tree)
    show "last_on ''a'' (events_of 4 peer_source) = Some demo" using tree_events(2) [of 3] demo_last_on by simp
    show "s_sid peer_source \<noteq> ''m''" by (simp add: sid)
    show "verb demo = VERB_TOUCH" by (simp add: demo_event_def)
  qed
  then show ?thesis by (simp only: sid)
qed

end
