(* ===== verification/Touch_Limits.thy ===== *)
theory Touch_Limits
  imports Touch_Tree_Witness
begin

text \<open>
  What the record of touched files does not promise: cases in which the code answers otherwise than its
  comments say.
\<close>

text \<open>A touch of a session that is no longer live hides the claim of a live session that ranks below it.\<close>

theorem dead_touch_hides_live_claim:
  assumes "last_on p es = Some e" "last_on p fs = Some f" "comparable e" "comparable f" "event_rank e < event_rank f"
    "\<not> live_claim h f"
  shows "map_of (p_claims (projected h [read_of es [], read_of fs []])) p = None"
proof -
  have "merge_survivor None (last_events p [es, fs]) = Some f"
    using assms(1,2) wins_over_rank [OF assms(4,3)] assms(5) by (simp add: last_events_def)
  then show ?thesis using projected_claim [of h "[es, fs]" p] assms(6) by simp
qed

text \<open>The release of one agent ends the claim of its session although the session's own record holds the path.\<close>

theorem agent_release_ends_session_claim:
  "claimants demo_state ''a'' = [''m''] \<and> sources_on demo_state ''a'' ''s'' = [None] \<and>
   last_on ''a'' (events_of 4 peer_source) = Some demo \<and> verb demo = VERB_TOUCH"
proof -
  have "claimants demo_state ''a'' = [''m'']" "sources_on demo_state ''a'' ''s'' = [None]" by code_simp+
  then show ?thesis using tree_events(2) [of 3] demo_last_on by (simp add: demo_event_def)
qed

text \<open>A stamp of the year 10000 ends the walk with an exception.\<close>

theorem late_stamp_ends_walk:
  assumes "verb (g_event r) = VERB_TOUCH" "stamp (g_event r) = Infinite False"
  shows "fold_rows u [r] = Inl Raised_Date_Error"
  using assms by (simp add: fold_rows_def numbered_def fold_row_def Let_def date_ok_def)

text \<open>A session directory that cannot be listed raises; an agent directory makes the walk incomplete.\<close>

theorem sealed_session_raises:
  "session_source ''s'' Sealed = Inl Raised_Os_Error \<and> agent_source ''s'' Sealed = Inr (None, False)"
  by (simp add: session_source_def agent_source_def AGENTS_SUBDIR_def)

text \<open>A version or a stamp that no integer or float can hold escapes the decoder.\<close>

definition huge_version :: string where
  "huge_version = ''{'' @ quote ''v'' @ '':Infinity}''"

theorem infinite_version_escapes: "decode_line 2 huge_version = Inl Raises_Overflow_Error"
  by code_simp

text \<open>An absolute path can be recorded as released, and a record that holds one cannot be compacted.\<close>

theorem absolute_release_stops_compaction:
  assumes "decode_lines depth (iter_complete_lines raw) = Inr ([e], n)" "verb e = VERB_RELEASE"
    "is_out_of_worktree (canonicalize_relative_path (path e))"
  shows "compact_record depth raw = Inl (Inr Out_Of_Worktree)"
proof -
  have "last_verb_wins [e] = [e]" by (simp add: last_verb_wins_distinct)
  then show ?thesis using assms by (simp add: compact_record_def encode_line_def touch_constants)
qed

end
