(* ===== verification/Touch_Serve_Witness.thy ===== *)
theory Touch_Serve_Witness
  imports Touch_Serve Touch_Limits
begin

text \<open>
  The repository of two sessions and an agent with an index of its sinks: the index is built by a walk, grows by a
  claim, and answers the lookup of the path.
\<close>

section \<open>The index of the tree\<close>

definition demo_index :: claim_index where
  "demo_index = \<lparr>ix_made = True, ix_streams = [(''a'', [agent_sink ''x'', session_sink ''m'', session_sink ''s''])],
     ix_sids = [], ix_stamped = True, ix_token = None\<rparr>"

lemma only_on_a: "last_on p [mine] \<noteq> None \<Longrightarrow> p = ''a''" "last_on p [demo] \<noteq> None \<Longrightarrow> p = ''a''" "last_on p [release] \<noteq> None \<Longrightarrow> p = ''a''"
  by (auto simp: last_on_None mine_def release_def demo_event_def)

lemma tree_events_on_a: "source_in demo_tree s \<Longrightarrow> last_on p (events_of 4 s) \<noteq> None \<Longrightarrow> p = ''a''"
  using only_on_a tree_events [of 3] by (auto simp: source_in_tree)

lemma demo_index_serves: "serves 4 demo_tree (\<lambda>k. k) demo_index"
  using tree_events_on_a
  by (fastforce simp: serves_def covers_def source_in_tree entries_def demo_index_def my_source_def peer_source_def agent_of_peer_def)

lemma demo_plain: "plain_tree demo_tree"
  unfolding plain_tree_def tree_listed by code_simp

lemma demo_names: "split_on SLASH (session_sink ''m'') = [''m'', RECORD_FILENAME]" "split_on SLASH (session_sink ''s'') = [''s'', RECORD_FILENAME]"
  "split_on SLASH (agent_sink ''x'') = [AGENTS_SUBDIR, ''x'', RECORD_FILENAME]"
  by code_simp+

lemma demo_entries: "entry_named demo_tree (session_sink ''m'') = Claimant my_dir" "entry_named demo_tree (session_sink ''s'') = Claimant demo_dir"
  "entry_named demo_tree (agent_sink ''x'') = Claimant agent_dir"
  by (simp_all add: entry_named_def demo_names tree_listed)

lemma demo_owners: "attribute_sink demo_tree (session_sink ''m'') = Inr (Some (''m'', None), True)"
  "attribute_sink demo_tree (session_sink ''s'') = Inr (Some (''s'', None), True)"
  "attribute_sink demo_tree (agent_sink ''x'') = Inr (Some (''s'', Some ''x''), True)"
  using no_pointer [OF listings(1)] no_pointer [OF listings(2)] agent_owner
  by (simp_all add: attribute_sink_def entry_owner_def demo_entries demo_names AGENTS_SUBDIR_def)

section \<open>A lookup\<close>

lemma fold_sink_step:
  assumes "tree_good depth base files (l_cache st)" "names_behind base tree files" "map_of (l_folds st) name = None"
    "attribute_sink tree name = Inr (Some (sid, agent), True)" "entry_named tree name = Claimant dir"
    "touch_history depth RECORD_FILENAME dir = Some es"
  shows "\<exists>st'. fold_sink (\<lambda>_. False) depth base tree name st = Inr st' \<and> tree_good depth base files (l_cache st') \<and>
    l_cause st' = l_cause st \<and> l_folds st' = (name, Some (sid, agent, read_of es [])) # (name, None) # l_folds st"
proof -
  have t: "sink_source tree name = Some \<lparr>s_sink = name, s_sid = sid, s_agent = agent, s_dir = dir, s_live = False\<rparr>"
    using assms(4,5) by (simp add: sink_source_def)
  obtain a c where rd: "read_sink depth (base @ [SLASH] @ name) RECORD_FILENAME dir False (l_cache st) = (a, c)" by fastforce
  have a: "a = Inr (read_of es [])" "tree_good depth base files c"
    using read_named [OF assms(2) t assms(1)] rd history_read [OF assms(6)] by auto
  then show ?thesis using assms(3-5) rd by (simp add: fold_sink_def Let_def read_of_def)
qed

definition index_rows :: "row list" where
  "index_rows = [demo_rows ! 2, demo_rows ! 0, demo_rows ! 1]"

definition index_answer :: index_state where
  "index_answer = \<lparr>x_fold = (case fold_rows (\<lambda>rows. rows) index_rows of Inr st \<Rightarrow> tidy st | Inl _ \<Rightarrow> NO_CLAIMS), x_complete = True, x_cause = None\<rparr>"

lemma index_rows_fold: "\<exists>st. fold_rows (\<lambda>rows. rows) index_rows = Inr st"
proof -
  have "(case fold_rows (\<lambda>rows. rows) index_rows of Inr _ \<Rightarrow> True | Inl _ \<Rightarrow> False)" by code_simp
  then show ?thesis by (auto split: sum.splits)
qed

lemma demo_stream: "stream_of (\<lambda>k. k) demo_index ''a'' = [agent_sink ''x'', session_sink ''m'', session_sink ''s'']"
  by code_simp

lemma one_event: "map_of (claims_of [e]) (path e) = Some e"
  by (simp add: claims_of_def last_verb_wins_distinct)

lemma demo_paths: "path mine = ''a''" "path demo = ''a''" "path release = ''a''"
  by (simp_all add: mine_def release_def demo_event_def)

lemma demo_holds: "held_kind [mine] = [(''a'', Some KIND_WRITE)]" "held_kind [demo] = [(''a'', Some KIND_WRITE)]" "held_kind [release] = []"
  by code_simp+

lemma demo_lookup_rows:
  assumes "tree_good 4 ''b'' files (l_cache st)" "names_behind ''b'' demo_tree files" "l_folds st = []" "l_cause st = None"
  shows "\<exists>st'. lookup_rows (\<lambda>_. False) 4 ''b'' demo_tree ''a'' [agent_sink ''x'', session_sink ''m'', session_sink ''s''] st = Inr (index_rows, st') \<and>
    l_cause st' = None"
proof -
  have hist: "touch_history 4 RECORD_FILENAME my_dir = Some [mine]" "touch_history 4 RECORD_FILENAME demo_dir = Some [demo]"
    "touch_history 4 RECORD_FILENAME agent_dir = Some [release]"
    using my_history [of 3] demo_history [of 3] agent_history [of 3] by simp_all
  have distinct_sinks: "agent_sink ''x'' \<noteq> session_sink ''m''" "agent_sink ''x'' \<noteq> session_sink ''s''" "session_sink ''m'' \<noteq> session_sink ''s''"
    by (simp_all add: session_sink_def agent_sink_def AGENTS_SUBDIR_def)
  obtain st1 where 1: "fold_sink (\<lambda>_. False) 4 ''b'' demo_tree (agent_sink ''x'') st = Inr st1" "tree_good 4 ''b'' files (l_cache st1)"
    "l_cause st1 = None" "l_folds st1 = [(agent_sink ''x'', Some (''s'', Some ''x'', read_of [release] [])), (agent_sink ''x'', None)]"
    using fold_sink_step [OF assms(1,2) _ demo_owners(3) demo_entries(3) hist(3)] assms(3,4) by auto
  have new1: "map_of (l_folds st1) (session_sink ''m'') = None" using 1(4) distinct_sinks by simp
  obtain st2 where 2: "fold_sink (\<lambda>_. False) 4 ''b'' demo_tree (session_sink ''m'') st1 = Inr st2" "tree_good 4 ''b'' files (l_cache st2)"
    "l_cause st2 = None" "l_folds st2 = (session_sink ''m'', Some (''m'', None, read_of [mine] [])) # (session_sink ''m'', None) # l_folds st1"
    using fold_sink_step [OF 1(2) assms(2) new1 demo_owners(1) demo_entries(1) hist(1)] 1(3) by auto
  have new2: "map_of (l_folds st2) (session_sink ''s'') = None" using 1(4) 2(4) distinct_sinks by simp
  obtain st3 where 3: "fold_sink (\<lambda>_. False) 4 ''b'' demo_tree (session_sink ''s'') st2 = Inr st3" "l_cause st3 = None"
    "l_folds st3 = (session_sink ''s'', Some (''s'', None, read_of [demo] [])) # (session_sink ''s'', None) # l_folds st2"
    using fold_sink_step [OF 2(2) assms(2) new2 demo_owners(2) demo_entries(2) hist(2)] 2(3) by auto
  have claims: "map_of (claims_of [mine]) ''a'' = Some mine" "map_of (claims_of [demo]) ''a'' = Some demo" "map_of (claims_of [release]) ''a'' = Some release"
    using one_event [of mine] one_event [of demo] one_event [of release] by (simp_all only: demo_paths)
  show ?thesis using 1 2 3 claims by (simp add: read_of_def demo_holds index_rows_def demo_rows_def)
qed

lemma plain_sinks: "plain_name n \<Longrightarrow> sink_name (session_sink n) \<and> sink_name (agent_sink n)"
  by (auto simp: sink_name_def)

lemma demo_answer: "\<exists>y. lookup_from_index (\<lambda>_. False) (\<lambda>rows. rows) 4 ''b'' demo_tree (\<lambda>k. k) demo_index [''a''] [] = Inr (Some y) \<and> x_complete y"
proof -
  let ?st = "\<lparr>l_folds = [], l_cache = [], l_tick = Suc 0, l_cause = None\<rparr>"
  have canon: "canonicalize_relative_path ''a'' = ''a''" by code_simp
  have "tree_good 4 ''b'' (files_of ''b'' demo_tree) (l_cache ?st)" by (simp add: tree_good_def cache_valid_def)
  then obtain st' where st': "lookup_rows (\<lambda>_. False) 4 ''b'' demo_tree ''a'' [agent_sink ''x'', session_sink ''m'', session_sink ''s''] ?st = Inr (index_rows, st')"
    "l_cause st' = None"
    using demo_lookup_rows [OF _ files_of_names, of ?st] by auto
  obtain f where "fold_rows (\<lambda>rows. rows) index_rows = Inr f" using index_rows_fold by blast
  moreover have "ix_stamped demo_index" by (simp add: demo_index_def)
  ultimately show ?thesis using st' by (simp add: lookup_from_index_def canon demo_stream del: lookup_rows.simps)
qed

theorem index_answers_as_walk_witness:
  "\<exists>y. lookup_from_index (\<lambda>_. False) (\<lambda>rows. rows) 4 ''b'' demo_tree (\<lambda>k. k) demo_index [''a''] [] = Inr (Some y) \<and> set (claimants y ''a'') = {''m''}"
proof -
  obtain cache' where walk: "rebuild no_caps 4 ''b'' demo_tree [] = (Inr demo_state, cache')" using demo_walk by blast
  obtain y where y: "lookup_from_index (\<lambda>_. False) (\<lambda>rows. rows) 4 ''b'' demo_tree (\<lambda>k. k) demo_index [''a''] [] = Inr (Some y)" "x_complete y"
    using demo_answer by blast
  have good: "tree_good 4 ''b'' (files_of ''b'' demo_tree) []" by (simp add: tree_good_def cache_valid_def)
  have "x_complete demo_state" by (simp add: demo_state_def)
  moreover have "''a'' \<in> canonicalize_relative_path ` set [''a'']" by code_simp
  moreover have "streams_named (\<lambda>k. k) demo_index [''a'']"
  proof -
    have "canonicalize_relative_path ''a'' = ''a''" by code_simp
    then show ?thesis
      using plain_sinks [of "''x''"] plain_sinks [of "''m''"] plain_sinks [of "''s''"]
      by (simp add: streams_named_def demo_index_def entries_def plain_name_def AGENTS_SUBDIR_def)
  qed
  ultimately have "set (claimants y ''a'') = set (claimants demo_state ''a'')"
    using index_answers_as_walk [OF walk _ good y good _ demo_index_serves demo_plain _ demo_numbered] by blast
  moreover have "claimants demo_state ''a'' = [''m'']" by code_simp
  ultimately show ?thesis using y(1) by auto
qed

section \<open>A build and a claim\<close>

lemma append_all_enough: "length xs \<le> n \<Longrightarrow> snd (append_all n xs st) = Some (n - length xs)"
  by (induction n xs st rule: append_all.induct) auto

text \<open>Where every append lands and no other build came between, the index is stamped.\<close>

lemma land_enough:
  assumes "length names + length sids < landing" "ix_token ix = Some token"
  shows "ix_stamped (fst (land_index dg g landing token names sids ix m))"
proof -
  obtain streams where s: "append_all landing (digested dg names) (ix_streams ix) = (streams, Some (landing - length names))"
    using append_all_enough [of "digested dg names" landing "ix_streams ix"] assms(1) by (cases "append_all landing (digested dg names) (ix_streams ix)") (auto simp: digested_def)
  obtain ss where "append_all (landing - length names) (digested dg sids) (ix_sids ix) = (ss, Some (landing - length names - length sids))"
    using append_all_enough [of "digested dg sids" "landing - length names" "ix_sids ix"] assms(1)
    by (cases "append_all (landing - length names) (digested dg sids) (ix_sids ix)") (auto simp: digested_def)
  then show ?thesis using s assms by (simp add: land_index_def Let_def)
qed

lemma demo_unowned: "unowned_agent_sinks 4 ''b'' demo_tree cache = (Inr (Some []), cache)"
  by (simp add: unowned_agent_sinks_def tree_listed entry_owner_def agent_owner) (simp add: demo_tree_def)

definition all_granted :: granted where
  "all_granted = \<lparr>ok_sid = True, ok_path = True, ok_remove = True\<rparr>"

theorem built_index_serves_witness:
  "\<exists>landing x ix' m'. build_index (\<lambda>k. k) all_granted landing ''t'' no_caps 4 ''b'' demo_tree [] (fst (begin_index ''t'')) forget_indexed = Inr (x, ix', m') \<and>
     ix_stamped ix' \<and> serves 4 demo_tree (\<lambda>k. k) ix'"
proof -
  obtain cache' where walk: "rebuild no_caps 4 ''b'' demo_tree [] = (Inr demo_state, cache')" using demo_walk by blast
  let ?notes = "noted_sources 4 ''b'' (at_sink no_caps) [my_source, peer_source, agent_of_peer] []"
  define landing where "landing = Suc (length (collected_names ?notes) + length (collected_sids ?notes))"
  let ?land = "land_index (\<lambda>k. k) all_granted landing ''t'' (collected_names ?notes) (collected_sids ?notes) (fst (begin_index ''t'')) forget_indexed"
  have "x_complete demo_state" by (simp add: demo_state_def)
  then have b: "build_index (\<lambda>k. k) all_granted landing ''t'' no_caps 4 ''b'' demo_tree [] (fst (begin_index ''t'')) forget_indexed =
      Inr (demo_state, fst ?land, snd ?land)"
    using walk by (simp add: build_index_def enumerated demo_unowned finish_index_def split: prod.splits)
  have "serves 4 demo_tree (\<lambda>k. k) (fst (begin_index ''t''))" by (simp add: serves_def begin_index_def NO_INDEX_def)
  from built_index_serves [OF b tree_founded this] have "serves 4 demo_tree (\<lambda>k. k) (fst ?land)" .
  moreover have "ix_stamped (fst ?land)" by (intro land_enough) (simp_all add: landing_def begin_index_def)
  ultimately show ?thesis using b by blast
qed

text \<open>The tree before the second session wrote, and its index.\<close>

definition tree_before :: sessions_tree where
  "tree_before = demo_tree\<lparr>t_base := Entries [(''m'', Claimant my_dir)]\<rparr>"

definition index_before :: claim_index where
  "index_before = demo_index\<lparr>ix_streams := [(''a'', [agent_sink ''x'', session_sink ''m''])]\<rparr>"

lemma before_listed: "listed (t_base tree_before) = [(''m'', Claimant my_dir)]" "listed (t_agents tree_before) = [(''x'', Claimant agent_dir)]"
  by (simp_all add: tree_before_def demo_tree_def listed_def)

lemma source_before: "source_in tree_before s \<longleftrightarrow> s \<in> {my_source, agent_of_peer}"
  unfolding source_in_def before_listed using tree_sources by auto

lemma before_serves: "serves 4 tree_before (\<lambda>k. k) index_before"
  using only_on_a tree_events [of 3]
  by (fastforce simp: serves_def covers_def source_before entries_def index_before_def my_source_def agent_of_peer_def)

theorem noted_claim_serves_witness:
  "case note_claim_in_index (\<lambda>k. k) all_granted (Inr (Some (''s'', None))) (session_sink ''s'') ''a'' (index_before, forget_indexed) of
     (ix', m') \<Rightarrow> ix_stamped ix' \<and> serves 4 demo_tree (\<lambda>k. k) ix' \<and> memo_good ix' m'"
proof (cases "note_claim_in_index (\<lambda>k. k) all_granted (Inr (Some (''s'', None))) (session_sink ''s'') ''a'' (index_before, forget_indexed)")
  case (Pair ix' m')
  have "memo_good index_before forget_indexed" by (simp add: memo_good_def forget_indexed_def)
  moreover have "ix_stamped index_before \<longrightarrow> ix_made index_before" "ok_remove all_granted"
    by (simp_all add: index_before_def demo_index_def all_granted_def)
  moreover have "one_more 4 tree_before demo_tree (session_sink ''s'') ''a''"
    using tree_events_on_a by (auto simp: one_more_def source_before source_in_tree peer_source_def)
  ultimately have "serves 4 demo_tree (\<lambda>k. k) ix' \<and> memo_good ix' m'" using noted_claim_serves [OF Pair before_serves] by blast
  moreover have "ix_stamped ix'"
    using arg_cong [OF Pair, of "ix_stamped \<circ> fst"]
    by (simp add: note_claim_in_index_def Let_def forget_indexed_def all_granted_def index_before_def demo_index_def)
  ultimately show ?thesis using Pair by simp
qed

end
