(* ===== verification/Spec2Isabelle.thy ===== *)
theory Spec2Isabelle
  imports Tracker_Causal Tracker_Reconcile Tracker_Status_Table Tracker_People Tracker_Envelope
    Tracker_Push Tracker_Handlers Dag_Check Dag_Render Claim_Moves Touch_Serve_Witness
begin

text \<open>
  The sovereign tracker, the handoff lineage, the claim protocol and the record of touched files of claude-klabauter.

  Every repository that the coordinator manages keeps its own append-only event log under
  \<open>state/sovereign-tracker\<close>: one JSONL file (shard) per machine, written under a file lock, with
  closed months moved into subdirectories. Work items, projects, people and completion states exist
  only as folds over the events of all shards. This development models that log, the emitters that
  write it and the folds that read it, and proves what makes them correct when several machines
  and processes write independently and their shards are merged by git.

  The second part is the lineage of handoffs: Markdown files whose front matter names the handoffs they
  continue. \<open>dag.py\<close> reads that front matter, resolves the references on disk and in the history of git,
  walks them forward to account for a chain of work, and inverts them to find out who continues a
  handoff before it is archived.

  The third part is the protocol by which concurrent sessions claim the artifacts they work on: directories
  made by \<open>mkdir\<close> under the session hub of a repository, with the holder recorded inside. A claim is lost to
  a peer when its holder is no longer live, when a reservation outlives its lease, or when a plan was
  handed off; \<open>session/claims.py\<close> decides this from \<open>session/liveness.py\<close>.

  The fourth part is the record of touched files: every session, and every agent it dispatches, appends a JSON
  line to its own file for each path it reads, writes or releases, and before a commit the records of all
  sessions are read to decide which paths are the session's own, which a peer holds and which nobody claims.
  \<open>session/touch_record.py\<close> writes, rotates, compacts, reads and caches these files, \<open>session/claim_index.py\<close>
  merges them.

  \<^bold>\<open>Theories and sources\<close> (all paths below \<open>src/coordinator_core/\<close>):

  \<^item> \<open>Tracker_Prelude\<close>: JSON values and Python dictionaries, truth values, equality and ordering as
    Python has them, exceptions as a sum type, the environment of a call (host, clocks, nonces,
    SHA-256) as a record of parameters, stable sorting.
  \<^item> \<open>Tracker_Store\<close>: \<open>tracker_store.py\<close> up to rotation and \<open>locked_write.py\<close>'s \<open>locked_rmw\<close>: the
    files of a log (\<open>store\<close>: live shards, rotated partitions), \<open>append_event\<close>, \<open>append_events\<close>,
    \<open>read_events\<close>, \<open>max_sequence\<close>, \<open>rotate_month\<close>; the locale \<open>append_log\<close> states what the emitters
    rely on and is interpreted on \<open>append_event\<close>.
  \<^item> \<open>Tracker_Shards\<close>: the invariant of a shard (contiguous sequence, increasing logical clock), the
    behaviour of the appenders on every branch, append-only growth under any interleaving, unique
    ids, idempotency keys, atomic batches, reading, convergence, rotation and its recovery.
  \<^item> \<open>Tracker_Observed\<close>: \<open>fold_observed_set\<close> and the resolution of observed sets: which prefix of each
    peer a machine had seen.
  \<^item> \<open>Tracker_Causal\<close>: comparison of observed-set vectors and of events (the locale
    \<open>component_order\<close>), with its limits.
  \<^item> \<open>Tracker_Ids\<close>: \<open>tracker_id_grammar.py\<close>, \<open>ops/emit/_slug.py\<close>, the title slug of
    \<open>ops/ceremony/completion_entry.py\<close> and \<open>mint_item_id\<close> of \<open>tracker_entities.py\<close>.
  \<^item> \<open>Tracker_Entities\<close>: the payload constructors and emitters of \<open>tracker_entities.py\<close>.
  \<^item> \<open>Tracker_Projection\<close>: the folds of \<open>tracker_projection.py\<close>; \<open>Tracker_Membership\<close> proves the
    last-operation-wins reading of the membership and alias folds through the locale
    \<open>latest_wins\<close>, \<open>Tracker_Registry\<close> treats merges of persons, \<open>Tracker_Axes\<close> the per-axis state of
    an item and its snapshots.
  \<^item> \<open>Tracker_Transitions\<close>: \<open>tracker_transitions.py\<close>; \<open>Tracker_Dedup\<close> proves the idempotency of
    emission along runs of appends and \<open>Tracker_Cascade\<close> that the reopen cascade reopens.
  \<^item> \<open>Tracker_Policy\<close>: \<open>tracker_completion_policy.py\<close>, and \<open>Tracker_Reconcile\<close>: \<open>tracker_reconcile.py\<close>.
  \<^item> \<open>Tracker_Status_Table\<close>: \<open>ops/tracker/advance_status.py\<close>, the rewriting of the status column of a
    tracker table in a Markdown file; its lemmas show which rows change and that a second run
    changes nothing.
  \<^item> \<open>Tracker_Person\<close>: \<open>person_resolver.py\<close>, who the local user is, and \<open>Tracker_People\<close>: the handlers
    \<open>mint_person\<close>, \<open>assign\<close> and \<open>fold_ownership\<close> of \<open>ops/tracker\<close>, composed with the emitters and folds.
  \<^item> \<open>Tracker_Envelope\<close>: \<open>tracker_envelope.py\<close>, the common fields of an event.
  \<^item> \<open>Tracker_Holder\<close>: \<open>tracker_holder.py\<close> and the registry lookups of \<open>machine_resolver.py\<close> it calls:
    which repository holds a project's tracker; \<open>Tracker_Push\<close>: \<open>ops/tracker/push_suggestion.py\<close>, which
    pushes an item suggestion into the holder's log; its lemmas show where a suggestion is written and
    that a key writes at most once.
  \<^item> \<open>Tracker_Handlers\<close>: the remaining handlers of \<open>ops/tracker\<close> (\<open>completion_policy.py\<close>,
    \<open>render_status.py\<close>, \<open>fold_observed_set.py\<close>): validation of the request, then the fold.
  \<^item> \<open>Dag_Meta\<close>: the reader of front matter in \<open>dag.py\<close> (a subset of YAML), the scan for the handoff id and
    the parse cache, with the proof that the cache is not observable; \<open>Dag_Render\<close> proves that a plainly
    written header is read back and that the scan agrees with the parser on it.
  \<^item> \<open>Dag_Paths\<close>: \<open>posixpath\<close> and a file system; \<open>Dag_Lineage\<close>: edges and the resolution of references;
    \<open>Dag_Walk\<close>: \<open>walk_forward\<close> with its termination, what it visits and what its flag says.
  \<^item> \<open>Dag_Refs\<close>: \<open>referenced_by\<close>, the reverse index, \<open>reverse_membership\<close> of \<open>archival.py\<close> and
    \<open>check_lineage_reachability\<close>; the index answers what the scan answers, under the conditions named.
    \<open>Dag_Check\<close> composes the check with the walk and holds worked examples.
  \<^item> \<open>Claim_Host\<close>: who a process is and which sessions are live: the ladder of ids and the process probes of
    \<open>session/core.py\<close>, the session records of \<open>session/harness_registry.py\<close>, \<open>session_live\<close> of
    \<open>session/liveness.py\<close>. What a process sees while an operation runs is a record (\<open>caller\<close>).
  \<^item> \<open>Claim_Store\<close>: the claim directories (a map from hub, class and name to files), what is read off one of
    them (holder, stage, lease, relinquishment), \<open>ops/read_frontmatter_field.py\<close>.
  \<^item> \<open>Claim_Ops\<close>: the operations of \<open>session/claims.py\<close> on claim directories; those that read the holder twice
    before a removal take the store of the first reading as an argument.
  \<^item> \<open>Claim_Protocol\<close>: \<open>claim_artifact\<close> implements an abstract lock (\<open>acquire\<close>). \<open>Claim_Peers\<close>: a live holder keeps
    its claim through any sequence of operations of its peers (the locale \<open>kept_by_each\<close>, interpreted on
    the operations). \<open>Claim_Race\<close>: \<open>claim_artifact\<close> as steps of several processes, re-entry included, how many of them
    can win and who else is told success, and the races that give one claim to two sessions. \<open>Claim_Moves\<close>: takeover on evidence, the claim that
    follows its baton, and the edges of the contracts.
  \<^item> \<open>Touch_Json\<close>: \<open>json.dumps\<close> and \<open>json.loads\<close> on UTF-8 text, floats as whole numbers of the smallest double, their
    shortest decimals, with the proof that what is written is read back; \<open>Touch_Line\<close>: one line of a record
    (\<open>encode_line\<close>, \<open>decode_line\<close>, \<open>path_dialect.py\<close>); \<open>Touch_Fold\<close>: the folds of one record and the merge of several,
    with what they compute; \<open>Touch_Compact\<close>: normalised paths and \<open>compact_record\<close>.
  \<^item> \<open>Touch_Sink\<close>: the files of a record, rotation, the reader, the cache of folds, the appenders, \<open>last_seen_events\<close>.
    \<open>Touch_History\<close>: the events of a record as one sequence, which an append extends; \<open>Touch_Cache\<close>: the cache of
    folds is not observable along runs of writes, reads and evictions; \<open>Touch_Projection\<close>: \<open>project_live_claims\<close>,
    and the contract of a reader of many records with the cache (the locale \<open>stream_reader\<close>, interpreted on
    it); \<open>Touch_Seen\<close>: the newest own event, and the backfill of writes made by a shell.
  \<^item> \<open>Touch_Walk\<close>: the walk of \<open>claim_index.py\<close> over all records; \<open>Touch_Rows\<close>: what its fold computes for one session
    and path; \<open>Touch_Ownership\<close>: \<open>classify_paths\<close>, \<open>commit_set\<close>, \<open>lookup\<close> from a walk; \<open>Touch_Safety\<close>: what a complete
    walk declares free is free by the files; \<open>Touch_Claims\<close> holds the other properties of the part,
    \<open>Touch_Demo\<close>, \<open>Touch_Witness\<close> and \<open>Touch_Tree_Witness\<close> their instances, \<open>Touch_Limits\<close> what the code does not promise.
  \<^item> \<open>Touch_Index\<close>: the index of sink names beside the sessions (\<open>note_claim_in_index\<close> of \<open>touch_record.py\<close>;
    \<open>_lookup_from_index\<close>, \<open>_begin_index\<close>, \<open>_finish_index\<close> of \<open>claim_index.py\<close>); \<open>Touch_Lookup\<close>: what the fold of a
    path computes, by the walk and by the index; \<open>Touch_Serve\<close>: a build and every recorded claim keep the index
    complete, and a lookup from it answers what a walk answers; \<open>Touch_Serve_Witness\<close> holds the instances.

  \<^bold>\<open>Conventions.\<close> An operation on a log is a function from a store to a result and a store
  (\<open>'a op\<close>), a pure operation that may raise returns \<open>'a res\<close>, and every raise of the source is a
  branch (messages are shortened). A line of a file is either a parsed JSON value or text that does
  not parse; files end with a newline, as the writers leave them. Characters are 8-bit, read as code
  points below 256. JSON numbers are integers: the tracker writes no floats. Keys of dictionaries and
  members of sets built from JSON values are represented up to Python equality (\<open>py_norm\<close>). The
  clocks, stamps and nonces of one call are indexed by the number of the reading, so that a proof
  cannot assume that two readings agree; SHA-256 is an arbitrary function except where a theorem
  names an assumption on its length and alphabet. Other processes act between two operations, and
  inside one only before the lock is taken: the interleavings are sequences of atomic steps
  (\<open>store_step\<close>), which is what the lock guarantees for writers of one host; writers of different
  hosts touch different files. Claims have no lock: their operations are sequenced whole in \<open>Claim_Peers\<close>,
  where only the second reading of the holder and the removal are taken together, and \<open>claim_artifact\<close> is
  interleaved call by call in \<open>Claim_Race\<close>, re-entry on a plan or a row included, where the answers of the liveness
  probes do not change.
  In the record of touched files a string is its UTF-8 encoding and a stamp is a float, infinities and
  not-a-number included; equal stamps are ordered by the verb and otherwise by a stable sort. Rows among which a
  stamp is not a number are left by the sort in an order that is a parameter (\<open>nan_order\<close>), and the theorems on walks and
  lookups that depend on the order exclude them (\<open>stamps_numbered\<close>). An append is one write at the end of a file, a rotation one rename, a read sees
  the files of one moment; the deadlines of a walk are the answers of the clock at its checks.

  \<^bold>\<open>Bounds.\<close> No definition uses fuel: recursion is on lists, except for the two walks over merges of
  persons (\<open>resolves_to_walk\<close>, \<open>resolve_walk\<close>), whose termination is proved from the shrinking set of
  merge targets not visited yet, for the printing of numbers (\<open>decimal\<close>, \<open>base36_chars\<close>), where the
  number shrinks, for \<open>flatten_toml\<close>, where the size of the value does, for the blocks of front matter
  (\<open>parse_block\<close>), where the lines left to read do, for \<open>walk_files\<close>, where the directories below do, and for
  the lineage walk (\<open>walk_loop\<close>), where the paths not visited yet among the finitely many that files can name do.
  Reading JSON takes the nesting that the stack of Python bears as an argument (\<open>depth\<close>): a text that nests
  deeper raises, and one is enough for every line that the encoder writes. The printing of a float tries up to
  17 digits, which always suffice to tell two doubles apart; the theorems name the condition that the printed
  form reads back (\<open>reads_back\<close>), which is computed for a given stamp.

  \<^bold>\<open>Not modelled.\<close> The subprocess and file system layer below \<open>locked_rmw\<close> (temporary files, fsync,
  lock files, retries), git, the parsing of TOML (its result is a parameter), symbolic links, the caches of the history of
  git in \<open>dag.py\<close> (the answer of git is a parameter), the limit of the Python stack, of the claims the
  work that \<open>claim_plan\<close> does around the claim, the front matter a cleared handoff claim is reconciled with,
  and the reports on the error stream (names that start with a slash and components \<open>..\<close> of a name are left
  out), of the record of touched files the paths that the claimants of a lookup from the index hold and a file
  system that refuses to reset the index, the counters of degraded reads and the digest of a file, and the rest of the
  coordinator: the recognisers of shell commands, the hooks, the operations that drive git, files and
  subprocesses, the assemblies and ceremonies, front-matter schemas, the warm engine and its sockets,
  the installers and launchers. They are listed with reasons in the manifest of the development.
\<close>

end
